(* ===== verification/Prelude.thy ===== *)
theory Prelude
  imports Main "HOL-Library.Word"
begin

text \<open>
  Shared vocabulary of the development: bytes and little-endian numbers, the JavaScript typed array
  operations the code uses (\<open>subarray\<close>, \<open>set\<close>, \<open>copyWithin\<close>, \<open>fill\<close>), the errors the code throws, the
  result type of a method that may throw, and decimal rendering of numbers in template strings.
\<close>

unbundle bit_operations_syntax

named_theorems arr_simps \<open>equations of the typed array operations\<close>
named_theorems le_simps \<open>equations of little-endian reading and writing\<close>

section \<open>Bytes and typed arrays\<close>

type_synonym byte = "8 word"

text \<open>\<open>buf.set(data, pos)\<close>: overwrites from \<open>pos\<close> on. JavaScript raises RangeError when the data does not
  fit, so the callers that can reach that case test for it before.\<close>

definition arr_set :: "'a list \<Rightarrow> nat \<Rightarrow> 'a list \<Rightarrow> 'a list" where
  "arr_set buf pos data = take pos buf @ data @ drop (pos + length data) buf"

text \<open>\<open>buf.subarray(from, to)\<close> with \<open>0 \<le> from \<le> to\<close>: a view, here the bytes it shows.\<close>

definition subarray :: "'a list \<Rightarrow> nat \<Rightarrow> nat \<Rightarrow> 'a list" where
  "subarray buf from to = take (to - from) (drop from buf)"

text \<open>\<open>buf.copyWithin(target, from, to)\<close>: memmove inside the array; what does not fit is not copied.\<close>

definition copy_within :: "'a list \<Rightarrow> nat \<Rightarrow> nat \<Rightarrow> nat \<Rightarrow> 'a list" where
  "copy_within buf target from to =
     (let data = take (length buf - target) (subarray buf from to)
      in take target buf @ data @ drop (target + length data) buf)"

text \<open>\<open>buf.fill(x, from, to)\<close>.\<close>

definition arr_fill :: "'a list \<Rightarrow> 'a \<Rightarrow> nat \<Rightarrow> nat \<Rightarrow> 'a list" where
  "arr_fill buf x from to = arr_set buf from (replicate (min to (length buf) - from) x)"

lemma length_arr_set [arr_simps]:
  "pos + length data \<le> length buf \<Longrightarrow> length (arr_set buf pos data) = length buf"
  by (simp add: arr_set_def)

lemma length_subarray [arr_simps]:
  "length (subarray buf a b) = min (b - a) (length buf - a)"
  by (simp add: subarray_def)

lemma length_copy_within [arr_simps]:
  "t \<le> length buf \<Longrightarrow> length (copy_within buf t a b) = length buf"
  by (auto simp: copy_within_def Let_def subarray_def min_def)

lemma subarray_empty [simp]: "b \<le> a \<Longrightarrow> subarray buf a b = []"
  by (simp add: subarray_def)

lemma subarray_0 [simp]: "subarray buf 0 n = take n buf"
  by (simp add: subarray_def)

lemma subarray_split:
  assumes "a \<le> b" "b \<le> c"
  shows "subarray buf a c = subarray buf a b @ subarray buf b c"
proof -
  have "c - a = (b - a) + (c - b)" and "drop (b - a) (drop a buf) = drop b buf"
    using assms by simp_all
  then show ?thesis
    by (simp only: subarray_def take_add)
qed

lemma take_subarray: "n \<le> b - a \<Longrightarrow> take n (subarray buf a b) = subarray buf a (a + n)"
  by (simp add: subarray_def min_def)

lemma drop_subarray: "drop n (subarray buf a b) = subarray buf (a + n) b"
  by (simp add: subarray_def drop_take add.commute)

text \<open>Writing after the view keeps the view; writing right behind it extends the view.\<close>

lemma subarray_arr_set_before:
  "b \<le> pos \<Longrightarrow> pos \<le> length buf \<Longrightarrow> subarray (arr_set buf pos data) a b = subarray buf a b"
  by (cases "a \<le> b") (simp_all add: subarray_def arr_set_def min_def drop_take)

lemma subarray_arr_set_extend:
  assumes "a \<le> pos" "pos \<le> length buf"
  shows "subarray (arr_set buf pos data) a (pos + length data) = subarray buf a pos @ data"
proof -
  have "drop a (arr_set buf pos data) = drop a (take pos buf) @ data @ drop (pos + length data) buf"
    using assms by (simp add: arr_set_def)
  moreover have "length (drop a (take pos buf)) = pos - a"
    using assms by simp
  moreover have "pos + length data - a = (pos - a) + length data"
    using assms(1) by simp
  ultimately show ?thesis
    using assms by (simp add: subarray_def drop_take)
qed

lemma copy_within_to_start:
  assumes "a \<le> b" "b \<le> length buf"
  shows "subarray (copy_within buf 0 a b) 0 (b - a) = subarray buf a b"
  using assms by (simp add: copy_within_def subarray_def Let_def min_def)

text \<open>Moving \<open>k\<close> bytes up by \<open>d\<close> cuts the \<open>d\<close> bytes behind them out of the view.\<close>

lemma copy_within_cut:
  assumes "st + k + d \<le> e" "e \<le> length b"
  shows "subarray (copy_within b (st + d) st (st + k)) (st + d) e =
         subarray b st (st + k) @ subarray b (st + k + d) e"
proof -
  define data where "data = subarray b st (st + k)"
  have len: "length data = k"
    using assms by (simp add: data_def subarray_def)
  have "copy_within b (st + d) st (st + k) = take (st + d) b @ data @ drop (st + d + k) b"
    using len assms by (simp add: copy_within_def Let_def flip: data_def)
  moreover have "drop (st + d) (take (st + d) b @ data @ drop (st + d + k) b) = data @ drop (st + d + k) b"
    using assms by simp
  moreover have "take (e - (st + d)) (data @ drop (st + d + k) b) = data @ subarray b (st + k + d) e"
    using assms len by (simp add: subarray_def add.commute add.left_commute)
  ultimately show ?thesis
    by (simp add: subarray_def data_def)
qed

lemma copy_within_at:
  assumes "a \<le> b" "b \<le> length buf" "t + (b - a) \<le> length buf"
  shows "take t (copy_within buf t a b) = take t buf"
    and "subarray (copy_within buf t a b) t (t + (b - a)) = subarray buf a b"
proof -
  have len: "length (subarray buf a b) = b - a"
    using assms by (simp add: subarray_def)
  then have "copy_within buf t a b = take t buf @ subarray buf a b @ drop (t + (b - a)) buf"
    using assms by (simp add: copy_within_def Let_def)
  then show "take t (copy_within buf t a b) = take t buf"
    and "subarray (copy_within buf t a b) t (t + (b - a)) = subarray buf a b"
    using assms len by (simp_all add: subarray_def)
qed

lemma take_arr_set: "n \<le> pos \<Longrightarrow> pos \<le> length buf \<Longrightarrow> take n (arr_set buf pos data) = take n buf"
  by (simp add: arr_set_def min_def)

lemma subarray_arr_set_after:
  "pos + length data \<le> a \<Longrightarrow> pos + length data \<le> length buf \<Longrightarrow>
   subarray (arr_set buf pos data) a b = subarray buf a b"
  by (simp add: subarray_def arr_set_def)

lemma subarray_arr_set_same:
  "pos \<le> length buf \<Longrightarrow> subarray (arr_set buf pos data) pos (pos + length data) = data"
  using subarray_arr_set_extend [of pos pos buf data] by simp

lemma subarray_update_before: "at < a \<Longrightarrow> subarray (buf[at := x]) a b = subarray buf a b"
  by (simp add: subarray_def drop_update_cancel)

lemma subarray_one: "at < length buf \<Longrightarrow> subarray buf at (Suc at) = [buf ! at]"
  by (simp add: subarray_def take_Suc_conv_app_nth)

section \<open>Little-endian numbers\<close>

text \<open>\<open>DataView.getUint8/16/32\<close> and \<open>getBigUint64\<close> with \<open>littleEndian = true\<close>, and the values that
  \<open>setUint*\<close> writes: the number modulo the width.\<close>

fun le_nat :: "byte list \<Rightarrow> nat" where
  "le_nat [] = 0"
| "le_nat (b # bs) = unat b + 256 * le_nat bs"

fun le_bytes :: "nat \<Rightarrow> nat \<Rightarrow> byte list" where
  "le_bytes 0 v = []"
| "le_bytes (Suc n) v = word_of_nat (v mod 256) # le_bytes n (v div 256)"

lemma length_le_bytes [simp]: "length (le_bytes n v) = n"
  by (induction n arbitrary: v) simp_all

lemma unat_byte_lt [simp]: "unat (b :: byte) < 256"
  using unsigned_less [of b] by simp

lemma unat_of_nat_mod_256 [simp]: "unat (word_of_nat (v mod 256) :: byte) = v mod 256"
  by (simp add: unat_of_nat)

lemma word_of_nat_unat_byte [simp]: "(word_of_nat (unat b) :: byte) = b"
  by simp

lemma le_nat_le_bytes [le_simps]: "le_nat (le_bytes n v) = v mod 256 ^ n"
proof (induction n arbitrary: v)
  case 0
  then show ?case by simp
next
  case (Suc n)
  have "le_nat (le_bytes (Suc n) v) = v mod 256 + 256 * ((v div 256) mod 256 ^ n)"
    by (simp add: Suc)
  also have "\<dots> = v mod (256 * 256 ^ n)"
    by (simp add: mod_mult2_eq)
  finally show ?case by simp
qed

lemma le_nat_less: "le_nat bs < 256 ^ length bs"
proof (induction bs)
  case Nil
  then show ?case by simp
next
  case (Cons b bs)
  have "unat b + 256 * le_nat bs < 256 * Suc (le_nat bs)"
    using unat_byte_lt [of b] by simp
  also have "\<dots> \<le> 256 * 256 ^ length bs"
    using Cons by simp
  finally show ?case by simp
qed

lemma le_bytes_le_nat [le_simps]: "le_bytes (length bs) (le_nat bs) = bs"
proof (induction bs)
  case Nil
  then show ?case by simp
next
  case (Cons b bs)
  have "(unat b + 256 * le_nat bs) mod 256 = unat b"
    and "(unat b + 256 * le_nat bs) div 256 = le_nat bs"
    by simp_all
  then show ?case
    using Cons by (simp del: unat_of_nat_mod_256)
qed

lemma le_nat_append: "le_nat (xs @ ys) = le_nat xs + 256 ^ length xs * le_nat ys"
  by (induction xs) (simp_all add: algebra_simps)

text \<open>Reading a two's complement number of \<open>n\<close> bytes (\<open>getInt8/16/32\<close>, \<open>getBigInt64\<close>), and the bytes
  \<open>setInt*\<close> writes for a signed number.\<close>

definition le_int :: "byte list \<Rightarrow> int" where
  "le_int bs =
     (let v = int (le_nat bs); m = 256 ^ length bs in if 2 * v < m then v else v - m)"

definition le_bytes_int :: "nat \<Rightarrow> int \<Rightarrow> byte list" where
  "le_bytes_int n v = le_bytes n (nat (v mod 256 ^ n))"

lemma length_le_bytes_int [simp]: "length (le_bytes_int n v) = n"
  by (simp add: le_bytes_int_def)

lemma le_nat_le_bytes_int [le_simps]: "int (le_nat (le_bytes_int n v)) = v mod 256 ^ n"
proof -
  have "nat (v mod 256 ^ n) mod 256 ^ n = nat (v mod 256 ^ n)"
    by (rule mod_less) (simp add: nat_less_iff)
  then show ?thesis
    by (simp add: le_bytes_int_def le_simps)
qed

lemma le_int_le_bytes_int [le_simps]:
  assumes "- (256 ^ n) \<le> 2 * v" "2 * v < 256 ^ n"
  shows "le_int (le_bytes_int n v) = v"
proof (cases "0 \<le> v")
  case True
  then have "v mod 256 ^ n = v"
    using assms by (simp add: mod_pos_pos_trivial)
  then show ?thesis
    using assms by (simp add: le_int_def Let_def le_simps)
next
  case False
  have "v mod 256 ^ n = (v + 256 ^ n) mod 256 ^ n"
    by simp
  also have "\<dots> = v + 256 ^ n"
    using False assms by (intro mod_pos_pos_trivial) simp_all
  finally have "v mod 256 ^ n = v + 256 ^ n" .
  then show ?thesis
    using False assms by (simp add: le_int_def Let_def le_simps)
qed

section \<open>Numbers in text\<close>

text \<open>\<open>n.toString(radix)\<close> for a nonnegative integer (a template string uses radix 10), and \<open>parseInt\<close> of a
  string that consists of digits of the radix.\<close>

definition digit_char :: "nat \<Rightarrow> char" where
  "digit_char d = char_of (if d < 10 then 48 + d else 87 + d)"

fun show_radix :: "nat \<Rightarrow> nat \<Rightarrow> string" where
  "show_radix r n =
     (if r < 2 \<or> n < r then [digit_char n] else show_radix r (n div r) @ [digit_char (n mod r)])"

declare show_radix.simps [simp del]

abbreviation show_nat :: "nat \<Rightarrow> string" where
  "show_nat n \<equiv> show_radix 10 n"

definition digit_val :: "char \<Rightarrow> nat" where
  "digit_val c = (let k = of_char c in if k < 58 then k - 48 else k - 87)"

definition parse_radix :: "nat \<Rightarrow> string \<Rightarrow> nat" where
  "parse_radix r cs = foldl (\<lambda>acc c. acc * r + digit_val c) 0 cs"

lemma digit_val_char [simp]: "d < 36 \<Longrightarrow> digit_val (digit_char d) = d"
  by (simp add: digit_val_def digit_char_def Let_def)

lemma parse_radix_snoc [simp]: "parse_radix r (cs @ [c]) = parse_radix r cs * r + digit_val c"
  by (simp add: parse_radix_def)

lemma parse_show_radix:
  "2 \<le> r \<Longrightarrow> r \<le> 36 \<Longrightarrow> parse_radix r (show_radix r n) = n"
proof (induction r n rule: show_radix.induct)
  case (1 r n)
  show ?case
  proof (cases "n < r")
    case True
    with 1 show ?thesis
      by (simp add: show_radix.simps [of r n] parse_radix_def)
  next
    case False
    with 1 have IH: "parse_radix r (show_radix r (n div r)) = n div r"
      by simp
    have "n mod r < 36"
      using 1 by (meson less_le_trans mod_less_divisor not_less zero_less_numeral order_less_le_trans)
    with False 1 IH show ?thesis
      by (simp add: show_radix.simps [of r n])
  qed
qed

lemma show_radix_inject:
  "2 \<le> r \<Longrightarrow> r \<le> 36 \<Longrightarrow> show_radix r m = show_radix r n \<longleftrightarrow> m = n"
  by (metis parse_show_radix)

lemma show_radix_nonempty [simp]: "show_radix r n \<noteq> []"
  by (subst show_radix.simps) simp

text \<open>JavaScript strings are sequences of 16-bit code units. \<open>js\<close> is a string literal of the source.\<close>

type_synonym jsstr = "16 word list"

definition js :: "string \<Rightarrow> jsstr" where
  "js s = map of_char s"

lemma length_js [simp]: "length (js s) = length s"
  by (simp add: js_def)

section \<open>Methods that may throw\<close>

text \<open>A method of an object with state \<open>'s\<close> that returns \<open>'a\<close> or throws \<open>'e\<close>; the state it leaves is
  returned in both cases, because a caller may catch the error and go on with the object.\<close>

type_synonym ('s, 'e, 'a) methodm = "'s \<Rightarrow> ('e + 'a) \<times> 's"

definition ret :: "'a \<Rightarrow> ('s, 'e, 'a) methodm" where
  "ret a s = (Inr a, s)"

definition throw :: "'e \<Rightarrow> ('s, 'e, 'a) methodm" where
  "throw e s = (Inl e, s)"

definition bindM :: "('s, 'e, 'a) methodm \<Rightarrow> ('a \<Rightarrow> ('s, 'e, 'b) methodm) \<Rightarrow> ('s, 'e, 'b) methodm" where
  "bindM m f s = (case m s of (Inl e, s') \<Rightarrow> (Inl e, s') | (Inr a, s') \<Rightarrow> f a s')"

text \<open>\<open>m()\<close> in a \<open>try\<close> block, with \<open>h\<close> as its \<open>catch\<close> block.\<close>

definition catchM :: "('s, 'e, 'a) methodm \<Rightarrow> ('e \<Rightarrow> ('s, 'e, 'a) methodm) \<Rightarrow> ('s, 'e, 'a) methodm" where
  "catchM m h s = (case m s of (Inl e, s') \<Rightarrow> h e s' | (Inr a, s') \<Rightarrow> (Inr a, s'))"

definition modifyM :: "('s \<Rightarrow> 's) \<Rightarrow> ('s, 'e, unit) methodm" where
  "modifyM f s = (Inr (), f s)"

lemma ret_run [simp]: "ret a s = (Inr a, s)"
  by (simp add: ret_def)

lemma throw_run [simp]: "throw e s = (Inl e, s)"
  by (simp add: throw_def)

lemma modifyM_run [simp]: "modifyM f s = (Inr (), f s)"
  by (simp add: modifyM_def)

lemma bindM_Inr [simp]: "m s = (Inr a, s') \<Longrightarrow> bindM m f s = f a s'"
  by (simp add: bindM_def)

lemma bindM_Inl [simp]: "m s = (Inl e, s') \<Longrightarrow> bindM m f s = (Inl e, s')"
  by (simp add: bindM_def)

lemma bindM_cong [fundef_cong]:
  assumes "m s = m' s'" "\<And>a t. m' s' = (Inr a, t) \<Longrightarrow> f a t = f' a t" "s = s'"
  shows "bindM m f s = bindM m' f' s'"
  using assms by (auto simp: bindM_def split: prod.splits sum.splits)

text \<open>A method that may also never return: \<open>None\<close>. Its loops are tail recursive \<open>partial_function\<close>s.\<close>

type_synonym ('s, 'e, 'a) loopm = "'s \<Rightarrow> (('e + 'a) \<times> 's) option"

definition total_of :: "('s, 'e, 'a) methodm \<Rightarrow> ('s, 'e, 'a) loopm" where
  "total_of m s = Some (m s)"

definition bindL :: "('s, 'e, 'a) loopm \<Rightarrow> ('a \<Rightarrow> ('s, 'e, 'b) loopm) \<Rightarrow> ('s, 'e, 'b) loopm" where
  "bindL m f s =
     (case m s of None \<Rightarrow> None | Some (Inl e, s') \<Rightarrow> Some (Inl e, s') | Some (Inr a, s') \<Rightarrow> f a s')"

lemma total_of_run [simp]: "total_of m s = Some (m s)"
  by (simp add: total_of_def)

lemma bindL_Inr [simp]: "m s = Some (Inr a, s') \<Longrightarrow> bindL m f s = f a s'"
  by (simp add: bindL_def)

lemma bindL_Inl [simp]: "m s = Some (Inl e, s') \<Longrightarrow> bindL m f s = Some (Inl e, s')"
  by (simp add: bindL_def)

end
