(* ===== verification/Errors.thy ===== *)
theory Errors
  imports Prelude
begin

text \<open>
  The errors of \<open>src/private/errors.ts\<close> and the decision that module makes: whether, and how, a query that
  failed on the server may be retried. The error codes are the members of \<open>ErrorCodes\<close> (constants.ts)
  that the library compares with.
\<close>

section \<open>Error codes and retry classes\<close>

definition ER_CON_COUNT_ERROR :: nat where "ER_CON_COUNT_ERROR = 1040"
definition ER_SERVER_SHUTDOWN :: nat where "ER_SERVER_SHUTDOWN = 1053"
definition ER_NO_SUCH_THREAD :: nat where "ER_NO_SUCH_THREAD = 1094"
definition ER_CANT_CREATE_THREAD :: nat where "ER_CANT_CREATE_THREAD = 1135"
definition ER_TOO_MANY_USER_CONNECTIONS :: nat where "ER_TOO_MANY_USER_CONNECTIONS = 1203"
definition ER_LOCK_WAIT_TIMEOUT :: nat where "ER_LOCK_WAIT_TIMEOUT = 1205"
definition ER_LOCK_DEADLOCK :: nat where "ER_LOCK_DEADLOCK = 1213"
definition ER_USER_LIMIT_REACHED :: nat where "ER_USER_LIMIT_REACHED = 1226"
definition ER_XAER_NOTA :: nat where "ER_XAER_NOTA = 1397"
definition ER_XA_RBTIMEOUT :: nat where "ER_XA_RBTIMEOUT = 1613"
definition ER_XA_RBDEADLOCK :: nat where "ER_XA_RBDEADLOCK = 1614"

lemmas error_code_defs =
  ER_CON_COUNT_ERROR_def ER_SERVER_SHUTDOWN_def ER_NO_SUCH_THREAD_def ER_CANT_CREATE_THREAD_def
  ER_TOO_MANY_USER_CONNECTIONS_def ER_LOCK_WAIT_TIMEOUT_def ER_LOCK_DEADLOCK_def
  ER_USER_LIMIT_REACHED_def ER_XAER_NOTA_def ER_XA_RBTIMEOUT_def ER_XA_RBDEADLOCK_def

datatype can_retry = CanRetry_NONE | CanRetry_CONN | CanRetry_TRX | CanRetry_QUERY

text \<open>The \<open>switch\<close> in the constructor of \<open>SqlError\<close>.\<close>

definition sqlError_canRetry :: "nat \<Rightarrow> bool \<Rightarrow> bool \<Rightarrow> can_retry" where
  "sqlError_canRetry errorCode autocommit inTrx =
     (if errorCode \<in> {ER_LOCK_WAIT_TIMEOUT, ER_LOCK_DEADLOCK, ER_XA_RBTIMEOUT, ER_XA_RBDEADLOCK} then
        (if autocommit \<and> \<not> inTrx then CanRetry_QUERY else CanRetry_TRX)
      else if errorCode \<in> {ER_SERVER_SHUTDOWN, ER_TOO_MANY_USER_CONNECTIONS, ER_CON_COUNT_ERROR,
                           ER_USER_LIMIT_REACHED, ER_CANT_CREATE_THREAD} then CanRetry_CONN
      else CanRetry_NONE)"

section \<open>Errors\<close>

text \<open>
  The error classes, with their fields. \<open>SqlError\<close> carries message, error code, SQLSTATE and \<open>canRetry\<close>;
  \<open>JsError\<close> is \<open>Error\<close> itself or an error of the language (TypeError, RangeError).
\<close>

datatype exn =
    SqlError jsstr nat jsstr can_retry
  | ServerDisconnectedError jsstr nat
  | BusyError jsstr
  | CanceledError jsstr
  | SendWithDataError jsstr nat
  | JsError jsstr

definition new_SqlError :: "jsstr \<Rightarrow> nat \<Rightarrow> jsstr \<Rightarrow> bool \<Rightarrow> bool \<Rightarrow> exn" where
  "new_SqlError message errorCode sqlState autocommit inTrx =
     SqlError message errorCode sqlState (sqlError_canRetry errorCode autocommit inTrx)"

fun is_SqlError :: "exn \<Rightarrow> bool" where
  "is_SqlError (SqlError _ _ _ _) = True"
| "is_SqlError _ = False"

fun exn_message :: "exn \<Rightarrow> jsstr" where
  "exn_message (SqlError m _ _ _) = m"
| "exn_message (ServerDisconnectedError m _) = m"
| "exn_message (BusyError m) = m"
| "exn_message (CanceledError m) = m"
| "exn_message (SendWithDataError m _) = m"
| "exn_message (JsError m) = m"

text \<open>\<open>SqlError.toString()\<close>, the only error that overrides it.\<close>

definition sqlError_toString :: "jsstr \<Rightarrow> nat \<Rightarrow> jsstr \<Rightarrow> jsstr" where
  "sqlError_toString message errorCode sqlState =
     js ''SQLSTATE '' @ sqlState @ js '', error code '' @ js (show_nat errorCode) @ js '': '' @ message"

definition SUSPECT_PACKET_ERROR_IF_PACKET_SIZE :: nat where
  "SUSPECT_PACKET_ERROR_IF_PACKET_SIZE = 1 * 1024 * 1024"

definition new_SendWithDataError :: "jsstr \<Rightarrow> nat \<Rightarrow> exn" where
  "new_SendWithDataError message packetSize =
     SendWithDataError
       (if packetSize < SUSPECT_PACKET_ERROR_IF_PACKET_SIZE then message
        else message @ js '' - Please make sure that this server accepts packets of this size: '' @
             js (show_nat packetSize) @
             js '' bytes. See \"SHOW VARIABLES LIKE 'max_allowed_packet'\"'') packetSize"

section \<open>The retry decision\<close>

text \<open>
  The test in the \<open>catch\<close> block of \<open>sendComQuery()\<close> and \<open>sendThreeQueries()\<close> (my_protocol.ts): a query is sent
  again only for a server error that is retriable on the level of one query.
\<close>

definition wants_retry :: "nat \<Rightarrow> bool \<Rightarrow> exn \<Rightarrow> bool" where
  "wants_retry retryQueryTimes retryLockWaitTimeout e =
     (0 < retryQueryTimes \<and>
      (case e of
         SqlError _ errorCode _ canRetry \<Rightarrow>
           canRetry = CanRetry_QUERY \<and> \<not> (errorCode = ER_LOCK_WAIT_TIMEOUT \<and> \<not> retryLockWaitTimeout)
       | _ \<Rightarrow> False))"

lemma canRetry_QUERY_iff:
  "sqlError_canRetry errorCode autocommit inTrx = CanRetry_QUERY \<longleftrightarrow>
     autocommit \<and> \<not> inTrx \<and>
     errorCode \<in> {ER_LOCK_WAIT_TIMEOUT, ER_LOCK_DEADLOCK, ER_XA_RBTIMEOUT, ER_XA_RBDEADLOCK}"
  by (simp add: sqlError_canRetry_def)

text \<open>
  A query is never sent again from inside a transaction: the server has rolled the transaction back (or
  part of it), so repeating the one statement would apply it without its predecessors.
\<close>

lemma retry_only_outside_transaction:
  assumes "wants_retry n lw (new_SqlError m code st autocommit inTrx)"
  shows "autocommit \<and> \<not> inTrx \<and> 0 < n \<and>
    code \<in> {ER_LOCK_WAIT_TIMEOUT, ER_LOCK_DEADLOCK, ER_XA_RBTIMEOUT, ER_XA_RBDEADLOCK} \<and>
    (code = ER_LOCK_WAIT_TIMEOUT \<longrightarrow> lw)"
  using assms canRetry_QUERY_iff [of code autocommit inTrx]
  by (auto simp: wants_retry_def new_SqlError_def)

end
