(* ===== verification/ByteSource.thy ===== *)
theory ByteSource
  imports Errors
begin

text \<open>
  What the protocol reader relies on below it. \<open>rd n\<close> is one read into a view of \<open>n\<close> bytes, \<open>rest\<close> all the
  bytes that are still to come, and \<open>ok\<close> the invariant of the provider. How the bytes are cut into pieces
  is up to the provider, and nothing that is proved from this interface depends on it.
\<close>

locale byte_source =
  fixes rd :: "nat \<Rightarrow> ('c, exn, byte list option) methodm"
    and rest :: "'c \<Rightarrow> byte list"
    and ok :: "'c \<Rightarrow> bool"
  assumes rd_more: "ok c \<Longrightarrow> 0 < n \<Longrightarrow> rest c \<noteq> [] \<Longrightarrow>
      \<exists>v c'. rd n c = (Inr (Some v), c') \<and> v \<noteq> [] \<and> length v \<le> n \<and> rest c = v @ rest c' \<and> ok c'"
    and rd_eof: "ok c \<Longrightarrow> 0 < n \<Longrightarrow> rest c = [] \<Longrightarrow>
      \<exists>c'. rd n c = (Inr None, c') \<and> rest c' = [] \<and> ok c'"

end
