(* ===== verification/Connection.thy ===== *)
theory Connection
  imports ByteSource
begin

text \<open>
  The byte source under the protocol reader: \<open>readFromConn()\<close> and \<open>#recvFrameExact()\<close> of
  \<open>src/private/my_protocol_reader.ts\<close>. The stream of the connection is the list of the chunks that the
  environment delivers; in the compressed protocol \<open>readFromConn()\<close> takes compressed packets from it and
  gives their contents. The decompressors (zlib and zstd of the runtime) are the parameter \<open>dz\<close>.

  The interface that the rest of the reader relies on is the locale \<open>byte_source\<close>: a read gives a nonempty
  piece of what is to come, or says that there is nothing more. It is interpreted twice: for the ordinary
  protocol, and for the compressed one, where what is to come is the contents of the frames.
\<close>

section \<open>State\<close>

definition BUFFER_LEN :: nat where "BUFFER_LEN = 8 * 1024"
definition COMPRESSED_HEADER_LEN :: nat where "COMPRESSED_HEADER_LEN = 7"

datatype compression = NONE | ZLIB | ZSTD

type_synonym decompressor = "compression \<Rightarrow> byte list \<Rightarrow> exn + byte list"

record conn =
  c_chunks :: "byte list list"
  c_compression :: compression
  c_compressedSeqId :: nat
  c_inflated :: "byte list option"
  c_verbatimRemaining :: nat
  c_frameBuffer :: "byte list option"

definition new_conn :: "byte list list \<Rightarrow> conn" where
  "new_conn chunks = \<lparr>c_chunks = chunks, c_compression = NONE, c_compressedSeqId = 0,
     c_inflated = None, c_verbatimRemaining = 0, c_frameBuffer = None\<rparr>"

section \<open>Operations\<close>

text \<open>\<open>reader.read(view)\<close> of a BYOB reader, for a view of \<open>n\<close> bytes; \<open>None\<close> is \<open>done\<close>.\<close>

definition reader_read :: "nat \<Rightarrow> (conn, exn, byte list option) methodm" where
  "reader_read n c =
     (if n = 0 then (Inl (JsError (js ''TypeError'')), c)
      else case c_chunks c of
        [] \<Rightarrow> (Inr None, c)
      | chunk # chunks \<Rightarrow>
          if length chunk \<le> n then (Inr (Some chunk), c\<lparr>c_chunks := chunks\<rparr>)
          else (Inr (Some (take n chunk)), c\<lparr>c_chunks := drop n chunk # chunks\<rparr>))"

definition lost_connection :: exn where
  "lost_connection = ServerDisconnectedError (js ''Lost connection to server'') 0"

definition zero_bytes :: exn where
  "zero_bytes = ServerDisconnectedError (js ''Reader returned 0 bytes without EOF'') 0"

text \<open>The doubling loop; a length of 0, which no buffer of the code has, would not grow.\<close>

function grow_len :: "nat \<Rightarrow> nat \<Rightarrow> nat" where
  "grow_len n len = (if 0 < n \<and> n < len then grow_len (2 * n) len else n)"
  by auto
termination
  by (relation "measure (\<lambda>(n, len). len - n)") auto

declare grow_len.simps [simp del]

lemma grow_len_ge: "0 < n \<Longrightarrow> len \<le> grow_len n len"
  by (induction n len rule: grow_len.induct) (subst grow_len.simps, simp)

lemma grow_len_mono: "n \<le> grow_len n len"
  by (induction n len rule: grow_len.induct) (subst grow_len.simps, auto)

function recvFrame_loop :: "nat \<Rightarrow> bool \<Rightarrow> byte list \<Rightarrow> nat \<Rightarrow> (conn, exn, bool) methodm" where
  "recvFrame_loop len canEof buffer pos c =
     (if pos < len then
        (case reader_read (length (subarray buffer pos len)) c of
           (Inl e, c') \<Rightarrow> (Inl e, c')
         | (Inr None, c') \<Rightarrow> if canEof \<and> pos = 0 then (Inr False, c') else (Inl lost_connection, c')
         | (Inr (Some v), c') \<Rightarrow>
             (let buffer' = arr_set buffer pos v; c'' = c'\<lparr>c_frameBuffer := Some buffer'\<rparr>
              in if v = [] then (Inl zero_bytes, c'')
                 else recvFrame_loop len canEof buffer' (pos + length v) c''))
      else (Inr True, c))"
  by pat_completeness auto
termination
  by (relation "measure (\<lambda>(len, canEof, buffer, pos, c). len - pos)") (auto simp: neq_Nil_conv)

declare recvFrame_loop.simps [simp del]

definition recvFrameExact :: "nat \<Rightarrow> bool \<Rightarrow> (conn, exn, bool) methodm" where
  "recvFrameExact len canEof c =
     (let buffer = (case c_frameBuffer c of Some b \<Rightarrow> b | None \<Rightarrow> replicate BUFFER_LEN 0);
          buffer = (if length buffer < len then replicate (grow_len (2 * length buffer) len) 0 else buffer)
      in recvFrame_loop len canEof buffer 0 (c\<lparr>c_frameBuffer := Some buffer\<rparr>))"

text \<open>The part of the loop body that gives bytes of the current compressed packet, if there are any.\<close>

definition read_ready :: "nat \<Rightarrow> conn \<Rightarrow> ((exn + byte list option) \<times> conn) option" where
  "read_ready n c =
     (case c_inflated c of
        Some inflated \<Rightarrow>
          (let k = min (length inflated) n
           in Some (Inr (Some (take k inflated)),
                    c\<lparr>c_inflated := (if k < length inflated then Some (drop k inflated) else None)\<rparr>))
      | None \<Rightarrow>
          if 0 < c_verbatimRemaining c then
            Some (case reader_read (min (c_verbatimRemaining c) n) c of
                    (Inl e, c') \<Rightarrow> (Inl e, c')
                  | (Inr None, c') \<Rightarrow>
                      (Inl (ServerDisconnectedError
                              (js ''Lost connection to server in the middle of a compressed packet'') 0), c')
                  | (Inr (Some v), c') \<Rightarrow>
                      (Inr (Some v), c'\<lparr>c_verbatimRemaining := c_verbatimRemaining c' - length v\<rparr>))
          else None)"

text \<open>The rest of the loop body: the next compressed packet header, and the payload when it is deflated.\<close>

definition next_frame :: "decompressor \<Rightarrow> (conn, exn, bool) methodm" where
  "next_frame dz =
     bindM (recvFrameExact COMPRESSED_HEADER_LEN True) (\<lambda>more c.
       if \<not> more then (Inr False, c)
       else
         let frameBuffer = the (c_frameBuffer c);
             payloadLen = le_nat (subarray frameBuffer 0 3);
             uncompressedLen = le_nat (subarray frameBuffer 4 7);
             c = c\<lparr>c_compressedSeqId := (unat (frameBuffer ! 3) + 1) mod 256\<rparr>
         in if uncompressedLen = 0 then (Inr True, c\<lparr>c_verbatimRemaining := payloadLen\<rparr>)
            else bindM (recvFrameExact payloadLen False) (\<lambda>_ c.
              let compressed = subarray (the (c_frameBuffer c)) 0 payloadLen
              in case dz (c_compression c) compressed of
                   Inl e \<Rightarrow> (Inl e, c)
                 | Inr data \<Rightarrow>
                     if length data \<noteq> uncompressedLen then
                       (Inl (ServerDisconnectedError
                               (js (''Corrupted compressed packet: expected '' @ show_nat uncompressedLen @
                                    '' bytes, got '' @ show_nat (length data))) 0), c)
                     else (Inr True, c\<lparr>c_inflated := Some data\<rparr>)) c)"

definition pending :: "conn \<Rightarrow> byte list" where
  "pending c = concat (c_chunks c)"

subsection \<open>Reads consume the stream\<close>

lemma reader_read_pending:
  assumes "reader_read n c = (r, c')"
  shows "(\<exists>v. r = Inr (Some v) \<and> pending c = v @ pending c' \<and> length v \<le> n) \<or>
         ((r = Inr None \<or> (\<exists>e. r = Inl e)) \<and> c' = c)"
  using assms
  by (auto simp: reader_read_def pending_def split: if_splits list.splits)

lemma recvFrame_loop_pending:
  assumes "recvFrame_loop len canEof buffer pos c = (r, c')" "pos \<le> len"
  shows "length (pending c') \<le> length (pending c) \<and>
         (r = Inr True \<longrightarrow> length (pending c') + (len - pos) \<le> length (pending c))"
  using assms
proof (induction len canEof buffer pos c rule: recvFrame_loop.induct)
  case (1 len canEof buffer pos c)
  show ?case
  proof (cases "pos < len")
    case False
    then show ?thesis
      using 1(2) by (subst (asm) recvFrame_loop.simps) simp
  next
    case True
    obtain q c1 where q: "reader_read (length (subarray buffer pos len)) c = (q, c1)"
      by fastforce
    note p = reader_read_pending [OF q]
    show ?thesis
    proof (cases "\<exists>v. q = Inr (Some v) \<and> v \<noteq> []")
      case False
      then show ?thesis
        using 1(2) True q p
        by (subst (asm) recvFrame_loop.simps)
          (auto simp: Let_def pending_def split: if_splits sum.splits option.splits)
    next
      case some: True
      then obtain v where v: "q = Inr (Some v)" "v \<noteq> []" by blast
      define c2 where "c2 = c1\<lparr>c_frameBuffer := Some (arr_set buffer pos v)\<rparr>"
      have rec: "recvFrame_loop len canEof (arr_set buffer pos v) (pos + length v) c2 = (r, c')"
        using 1(2) True q v
        by (subst (asm) recvFrame_loop.simps) (simp add: Let_def c2_def)
      have pend: "pending c = v @ pending c2" "length v \<le> len - pos"
        using p v by (auto simp: c2_def pending_def arr_simps)
      have "pos + length v \<le> len"
        using pend(2) True by simp
      note IH = 1(1) [OF True q [symmetric] _ _ refl refl, of "Some v" v, folded c2_def, OF v(1) refl v(2) rec this]
      show ?thesis
        using IH pend by auto
    qed
  qed
qed

lemma recvFrameExact_pending:
  assumes "recvFrameExact len canEof c = (r, c')"
  shows "length (pending c') \<le> length (pending c) \<and>
         (r = Inr True \<longrightarrow> length (pending c') + len \<le> length (pending c))"
  using recvFrame_loop_pending [OF assms [unfolded recvFrameExact_def Let_def]]
  by (simp add: pending_def)

lemma next_frame_pending:
  assumes "next_frame dz c = (Inr True, c')"
  shows "length (pending c') < length (pending c)"
proof -
  obtain q c1 where q: "recvFrameExact COMPRESSED_HEADER_LEN True c = (q, c1)"
    by fastforce
  note l1 = recvFrameExact_pending [OF q]
  have "q = Inr True"
    using assms q by (auto simp: next_frame_def bindM_def split: sum.splits if_splits)
  then have less: "length (pending c1) < length (pending c)"
    using l1 by (simp add: COMPRESSED_HEADER_LEN_def)
  have "length (pending c') \<le> length (pending c1)"
    using assms q \<open>q = Inr True\<close>
    by (auto simp: next_frame_def bindM_def Let_def pending_def split: sum.splits if_splits prod.splits
        dest!: recvFrameExact_pending)
  then show ?thesis
    using less by simp
qed

text \<open>\<open>readFromConn(view)\<close>, for a view of \<open>n\<close> bytes.\<close>

function readFromConn :: "decompressor \<Rightarrow> nat \<Rightarrow> (conn, exn, byte list option) methodm" where
  "readFromConn dz n c =
     (if c_compression c = NONE then reader_read n c
      else case read_ready n c of
        Some result \<Rightarrow> result
      | None \<Rightarrow>
          bindM (next_frame dz) (\<lambda>more c'.
            if \<not> more then (Inr None, c') else readFromConn dz n c') c)"
  by auto
termination
  by (relation "measure (\<lambda>(dz, n, c). length (pending c))") (auto dest: next_frame_pending)

declare readFromConn.simps [simp del]

section \<open>The ordinary protocol\<close>

definition chunks_ok :: "conn \<Rightarrow> bool" where
  "chunks_ok c \<longleftrightarrow> [] \<notin> set (c_chunks c)"

lemma pending_Nil: "chunks_ok c \<Longrightarrow> pending c = [] \<longleftrightarrow> c_chunks c = []"
  by (cases "c_chunks c") (auto simp: pending_def chunks_ok_def)

lemma reader_read_more:
  assumes "chunks_ok c" "0 < n" "pending c \<noteq> []"
  obtains v chunks where "reader_read n c = (Inr (Some v), c\<lparr>c_chunks := chunks\<rparr>)"
    "v \<noteq> []" "length v \<le> n" "pending c = v @ concat chunks" "[] \<notin> set chunks"
proof (cases "c_chunks c")
  case Nil
  then show ?thesis using assms by (simp add: pending_def)
next
  case (Cons chunk chunks)
  show ?thesis
  proof (cases "length chunk \<le> n")
    case True
    with Cons assms show ?thesis
      by (intro that [of chunk chunks]) (auto simp: reader_read_def pending_def chunks_ok_def)
  next
    case False
    with Cons assms show ?thesis
      by (intro that [of "take n chunk" "drop n chunk # chunks"])
        (auto simp: reader_read_def pending_def chunks_ok_def)
  qed
qed

lemma reader_read_eof:
  "chunks_ok c \<Longrightarrow> 0 < n \<Longrightarrow> pending c = [] \<Longrightarrow> reader_read n c = (Inr None, c)"
  by (simp add: pending_Nil) (simp add: reader_read_def)

definition plain_ok :: "conn \<Rightarrow> bool" where
  "plain_ok c \<longleftrightarrow> c_compression c = NONE \<and> chunks_ok c"

lemma readFromConn_plain [simp]: "c_compression c = NONE \<Longrightarrow> readFromConn dz n c = reader_read n c"
  by (subst readFromConn.simps) simp

interpretation plain: byte_source "readFromConn dz" pending plain_ok for dz
proof
  fix c n assume c: "plain_ok c" "0 < (n::nat)" "pending c \<noteq> []"
  then obtain v chunks where "reader_read n c = (Inr (Some v), c\<lparr>c_chunks := chunks\<rparr>)"
    "v \<noteq> []" "length v \<le> n" "pending c = v @ concat chunks" "[] \<notin> set chunks"
    using reader_read_more [of c n] by (auto simp: plain_ok_def)
  with c show "\<exists>v c'. readFromConn dz n c = (Inr (Some v), c') \<and> v \<noteq> [] \<and> length v \<le> n \<and>
      pending c = v @ pending c' \<and> plain_ok c'"
    by (auto simp: plain_ok_def pending_def chunks_ok_def)
next
  fix c n assume "plain_ok c" "0 < (n::nat)" "pending c = []"
  then show "\<exists>c'. readFromConn dz n c = (Inr None, c') \<and> pending c' = [] \<and> plain_ok c'"
    by (auto simp: plain_ok_def reader_read_eof)
qed

section \<open>The compressed protocol\<close>

text \<open>The contents of a sequence of whole compressed packets; \<open>z\<close> decompresses a payload.\<close>

definition frame_data :: "(byte list \<Rightarrow> exn + byte list) \<Rightarrow> nat \<Rightarrow> byte list \<Rightarrow> byte list option" where
  "frame_data z uncompressedLen payload =
     (if uncompressedLen = 0 then Some payload
      else case z payload of
        Inl _ \<Rightarrow> None
      | Inr data \<Rightarrow> if length data = uncompressedLen then Some data else None)"

function decode_frames :: "(byte list \<Rightarrow> exn + byte list) \<Rightarrow> byte list \<Rightarrow> byte list option" where
  "decode_frames z bs =
     (if bs = [] then Some []
      else if length bs < COMPRESSED_HEADER_LEN then None
      else
        let len = le_nat (take 3 bs); ulen = le_nat (take 3 (drop 4 bs)); body = drop 7 bs
        in if length body < len then None
           else case frame_data z ulen (take len body) of
             None \<Rightarrow> None
           | Some data \<Rightarrow> map_option ((@) data) (decode_frames z (drop len body)))"
  by auto
termination
  by (relation "measure (\<lambda>(z, bs). length bs)") auto

declare decode_frames.simps [simp del]

lemma decode_frames_Nil [simp]: "decode_frames z [] = Some []"
  by (simp add: decode_frames.simps)

definition frame_rest :: "decompressor \<Rightarrow> conn \<Rightarrow> byte list" where
  "frame_rest dz c =
     (case c_inflated c of Some data \<Rightarrow> data | None \<Rightarrow> []) @
     take (c_verbatimRemaining c) (pending c) @
     the (decode_frames (dz (c_compression c)) (drop (c_verbatimRemaining c) (pending c)))"

definition frame_ok :: "decompressor \<Rightarrow> conn \<Rightarrow> bool" where
  "frame_ok dz c \<longleftrightarrow>
     c_compression c \<noteq> NONE \<and> chunks_ok c \<and>
     (\<forall>data. c_inflated c = Some data \<longrightarrow> data \<noteq> []) \<and>
     c_verbatimRemaining c \<le> length (pending c) \<and>
     (\<forall>b. c_frameBuffer c = Some b \<longrightarrow> BUFFER_LEN \<le> length b) \<and>
     decode_frames (dz (c_compression c)) (drop (c_verbatimRemaining c) (pending c)) \<noteq> None"

lemma recvFrame_loop_more:
  assumes "chunks_ok c" "pos \<le> len" "len \<le> length buffer" "len - pos \<le> length (pending c)"
    "c_frameBuffer c = Some buffer"
  shows "\<exists>buf' chunks'. recvFrame_loop len canEof buffer pos c =
           (Inr True, c\<lparr>c_chunks := chunks', c_frameBuffer := Some buf'\<rparr>) \<and>
         length buf' = length buffer \<and> take len buf' = take pos buffer @ take (len - pos) (pending c) \<and>
         concat chunks' = drop (len - pos) (pending c) \<and> [] \<notin> set chunks'"
  using assms
proof (induction len canEof buffer pos c rule: recvFrame_loop.induct)
  case (1 len canEof buffer pos c)
  note prems = 1(2-6)
  show ?case
  proof (cases "pos < len")
    case False
    then have [simp]: "pos = len" and "c\<lparr>c_frameBuffer := Some buffer\<rparr> = c"
      using prems by simp_all
    with prems show ?thesis
      by (subst recvFrame_loop.simps)
        (auto simp: pending_def chunks_ok_def intro!: exI [of _ buffer] exI [of _ "c_chunks c"])
  next
    case True
    have n: "length (subarray buffer pos len) = len - pos"
      using prems True by (simp add: arr_simps min_def)
    have "pending c \<noteq> []"
      using prems True by auto
    then obtain v chunks where v: "reader_read (len - pos) c = (Inr (Some v), c\<lparr>c_chunks := chunks\<rparr>)"
      "v \<noteq> []" "length v \<le> len - pos" "pending c = v @ concat chunks" "[] \<notin> set chunks"
      using reader_read_more [of c "len - pos"] prems True by auto
    define c2 where "c2 = c\<lparr>c_chunks := chunks, c_frameBuffer := Some (arr_set buffer pos v)\<rparr>"
    have step: "recvFrame_loop len canEof buffer pos c =
          recvFrame_loop len canEof (arr_set buffer pos v) (pos + length v) c2"
      using True v n by (subst recvFrame_loop.simps) (simp add: Let_def c2_def)
    have pre: "chunks_ok c2" "pos + length v \<le> len" "len \<le> length (arr_set buffer pos v)"
      "len - (pos + length v) \<le> length (pending c2)" "c_frameBuffer c2 = Some (arr_set buffer pos v)"
      using v prems True by (auto simp: c2_def chunks_ok_def pending_def arr_simps)
    note IH = 1(1) [OF True v(1) [folded n, symmetric] refl refl refl refl v(2), simplified, folded c2_def, OF pre(1-4)]
    then obtain buf' chunks' where ih:
      "recvFrame_loop len canEof (arr_set buffer pos v) (pos + length v) c2 =
         (Inr True, c\<lparr>c_chunks := chunks', c_frameBuffer := Some buf'\<rparr>)"
      "length buf' = length (arr_set buffer pos v)"
      "take len buf' = take (pos + length v) (arr_set buffer pos v) @ take (len - (pos + length v)) (pending c2)"
      "concat chunks' = drop (len - (pos + length v)) (pending c2)" "[] \<notin> set chunks'"
      by auto
    have "take (pos + length v) (arr_set buffer pos v) = take pos buffer @ v"
      using subarray_arr_set_extend [of 0 pos buffer v] prems True by simp
    then have "take len buf' = take pos buffer @ take (len - pos) (pending c)"
      using ih(3) v by (simp add: c2_def pending_def)
    moreover have "length buf' = length buffer" and "concat chunks' = drop (len - pos) (pending c)"
      using ih v prems True by (auto simp: arr_simps c2_def pending_def)
    ultimately show ?thesis
      using step ih(1,5) by (auto simp: c2_def)
  qed
qed

lemma recvFrameExact_more:
  assumes "chunks_ok c" "len \<le> length (pending c)" "\<forall>b. c_frameBuffer c = Some b \<longrightarrow> BUFFER_LEN \<le> length b"
  shows "\<exists>buf chunks. recvFrameExact len canEof c =
           (Inr True, c\<lparr>c_chunks := chunks, c_frameBuffer := Some buf\<rparr>) \<and>
         BUFFER_LEN \<le> length buf \<and> len \<le> length buf \<and> take len buf = take len (pending c) \<and>
         concat chunks = drop len (pending c) \<and> [] \<notin> set chunks"
proof -
  define b0 where "b0 = (case c_frameBuffer c of Some b \<Rightarrow> b | None \<Rightarrow> replicate BUFFER_LEN 0)"
  define b where "b = (if length b0 < len then replicate (grow_len (2 * length b0) len) 0 else b0)"
  have "BUFFER_LEN \<le> length b0"
    using assms(3) by (auto simp: b0_def split: option.split)
  moreover from this have "0 < 2 * length b0"
    by (cases b0) (simp_all add: BUFFER_LEN_def)
  ultimately have b: "BUFFER_LEN \<le> length b" "len \<le> length b"
    using grow_len_ge [of "2 * length b0" len] grow_len_mono [of "2 * length b0" len]
    by (simp_all add: b_def)
  have "recvFrameExact len canEof c = recvFrame_loop len canEof b 0 (c\<lparr>c_frameBuffer := Some b\<rparr>)"
    by (simp add: recvFrameExact_def b_def b0_def Let_def)
  moreover obtain buf chunks where
    "recvFrame_loop len canEof b 0 (c\<lparr>c_frameBuffer := Some b\<rparr>) =
       (Inr True, c\<lparr>c_chunks := chunks, c_frameBuffer := Some buf\<rparr>)"
    "length buf = length b" "take len buf = take len (pending c)"
    "concat chunks = drop len (pending c)" "[] \<notin> set chunks"
    using recvFrame_loop_more [of "c\<lparr>c_frameBuffer := Some b\<rparr>" 0 len b canEof] assms b
    by (auto simp: chunks_ok_def pending_def)
  ultimately show ?thesis
    using b by (intro exI [of _ buf] exI [of _ chunks]) simp
qed

lemma recvFrameExact_eof:
  assumes "chunks_ok c" "pending c = []" "0 < len" "\<forall>b. c_frameBuffer c = Some b \<longrightarrow> BUFFER_LEN \<le> length b"
  shows "\<exists>b. recvFrameExact len True c = (Inr False, c\<lparr>c_frameBuffer := Some b\<rparr>) \<and> BUFFER_LEN \<le> length b"
proof -
  define b0 where "b0 = (case c_frameBuffer c of Some b \<Rightarrow> b | None \<Rightarrow> replicate BUFFER_LEN 0)"
  define b where "b = (if length b0 < len then replicate (grow_len (2 * length b0) len) 0 else b0)"
  have "BUFFER_LEN \<le> length b0"
    using assms(4) by (auto simp: b0_def split: option.split)
  moreover from this have "0 < 2 * length b0"
    by (cases b0) (simp_all add: BUFFER_LEN_def)
  ultimately have b: "BUFFER_LEN \<le> length b" "len \<le> length b"
    using grow_len_ge [of "2 * length b0" len] grow_len_mono [of "2 * length b0" len]
    by (simp_all add: b_def)
  have "c_chunks c = []"
    using assms pending_Nil by blast
  then have "recvFrameExact len True c = (Inr False, c\<lparr>c_frameBuffer := Some b\<rparr>)"
    using assms(3) b by (simp add: recvFrameExact_def Let_def recvFrame_loop.simps reader_read_def arr_simps
        flip: b0_def b_def)
  then show ?thesis
    using b by blast
qed

text \<open>One compressed packet: the contents are what the specification takes from the stream.\<close>

lemma next_frame_more:
  assumes ok: "frame_ok dz c" and idle: "c_inflated c = None" "c_verbatimRemaining c = 0"
    and more: "pending c \<noteq> []"
  shows "\<exists>c'. next_frame dz c = (Inr True, c') \<and> frame_ok dz c' \<and> frame_rest dz c' = frame_rest dz c \<and>
           c_compression c' = c_compression c"
proof -
  define z where "z = dz (c_compression c)"
  define p where "p = pending c"
  define len where "len = le_nat (take 3 p)"
  define ulen where "ulen = le_nat (take 3 (drop 4 p))"
  define body where "body = drop 7 p"
  have dec: "decode_frames z p \<noteq> None" and fb: "\<forall>b. c_frameBuffer c = Some b \<longrightarrow> BUFFER_LEN \<le> length b"
    and ch: "chunks_ok c" and comp: "c_compression c \<noteq> NONE"
    using ok idle by (simp_all add: frame_ok_def p_def z_def)
  have p7: "7 \<le> length p"
    using dec more by (subst (asm) decode_frames.simps)
      (auto simp: COMPRESSED_HEADER_LEN_def p_def split: if_splits)
  obtain data tl where body: "len \<le> length body" "frame_data z ulen (take len body) = Some data"
      "decode_frames z (drop len body) = Some tl" "decode_frames z p = Some (data @ tl)"
    using dec more p7 decode_frames.simps [of z p]
    by (auto simp: COMPRESSED_HEADER_LEN_def Let_def len_def ulen_def body_def p_def
        split: if_splits option.splits)
  obtain b chunks where b: "recvFrameExact COMPRESSED_HEADER_LEN True c =
        (Inr True, c\<lparr>c_chunks := chunks, c_frameBuffer := Some b\<rparr>)" "BUFFER_LEN \<le> length b"
      "take 7 b = take 7 p" "concat chunks = body" "[] \<notin> set chunks"
    using recvFrameExact_more [OF ch, of 7 True] fb p7 by (auto simp: p_def body_def COMPRESSED_HEADER_LEN_def)
  have hd: "take 3 b = take 3 p" "subarray b 4 7 = take 3 (drop 4 p)"
    using arg_cong [OF b(3), of "take 3"] arg_cong [OF b(3), of "drop 4"]
    by (simp_all add: subarray_def drop_take)
  define c1 where "c1 = c\<lparr>c_chunks := chunks, c_frameBuffer := Some b,
      c_compressedSeqId := (unat (b ! 3) + 1) mod 256\<rparr>"
  have c1: "chunks_ok c1" "pending c1 = body" "c_compression c1 = c_compression c"
    "\<forall>b. c_frameBuffer c1 = Some b \<longrightarrow> BUFFER_LEN \<le> length b"
    using b by (simp_all add: c1_def chunks_ok_def pending_def)
  have rest: "frame_rest dz c = data @ tl"
    using idle body by (simp add: frame_rest_def z_def p_def)
  show ?thesis
  proof (cases "ulen = 0")
    case True
    then have "next_frame dz c = (Inr True, c1\<lparr>c_verbatimRemaining := len\<rparr>)"
      using b(1) hd by (simp add: next_frame_def Let_def c1_def len_def ulen_def)
    moreover have "frame_ok dz (c1\<lparr>c_verbatimRemaining := len\<rparr>)"
      using c1 body comp idle by (simp add: frame_ok_def chunks_ok_def pending_def c1_def z_def)
    moreover have "frame_rest dz (c1\<lparr>c_verbatimRemaining := len\<rparr>) = data @ tl"
      using c1 body idle True
      by (simp add: frame_rest_def chunks_ok_def pending_def c1_def z_def frame_data_def)
    ultimately show ?thesis
      using rest c1 by auto
  next
    case False
    obtain b2 chunks2 where b2: "recvFrameExact len False c1 =
        (Inr True, c1\<lparr>c_chunks := chunks2, c_frameBuffer := Some b2\<rparr>)" "BUFFER_LEN \<le> length b2"
      "take len b2 = take len body" "concat chunks2 = drop len body" "[] \<notin> set chunks2"
      using recvFrameExact_more [OF c1(1), of len False] c1 body(1) by auto
    have z: "z (take len body) = Inr data" "length data = ulen"
      using body(2) False by (auto simp: frame_data_def split: sum.splits if_splits)
    define c3 where "c3 = c1\<lparr>c_chunks := chunks2, c_frameBuffer := Some b2, c_inflated := Some data\<rparr>"
    have "next_frame dz c = (Inr True, c3)"
      using b(1) hd b2 z False
      by (simp add: next_frame_def Let_def c1_def len_def ulen_def z_def c3_def)
    moreover have "frame_ok dz c3"
      using b2 c1 comp body z idle False
      by (auto simp: frame_ok_def c3_def chunks_ok_def pending_def z_def c1_def)
    moreover have "frame_rest dz c3 = data @ tl"
      using b2 body idle by (simp add: frame_rest_def c3_def c1_def pending_def z_def)
    ultimately show ?thesis
      using rest c1 by (auto simp: c3_def)
  qed
qed

lemma read_ready_inflated:
  assumes "frame_ok dz c" "c_inflated c = Some data" "0 < n"
  shows "\<exists>v c'. read_ready n c = Some (Inr (Some v), c') \<and> v \<noteq> [] \<and> length v \<le> n \<and>
           frame_rest dz c = v @ frame_rest dz c' \<and> frame_ok dz c'"
  using assms
  by (auto simp: read_ready_def Let_def frame_ok_def frame_rest_def chunks_ok_def pending_def min_def)

lemma read_ready_verbatim:
  assumes ok: "frame_ok dz c" and "c_inflated c = None" "0 < c_verbatimRemaining c" "0 < n"
  shows "\<exists>v c'. read_ready n c = Some (Inr (Some v), c') \<and> v \<noteq> [] \<and> length v \<le> n \<and>
           frame_rest dz c = v @ frame_rest dz c' \<and> frame_ok dz c'"
proof -
  let ?k = "c_verbatimRemaining c"
  have len: "?k \<le> length (pending c)" and ch: "chunks_ok c"
    using ok by (auto simp: frame_ok_def)
  then have "pending c \<noteq> []"
    using assms(3) by auto
  then obtain v chunks where v: "reader_read (min ?k n) c = (Inr (Some v), c\<lparr>c_chunks := chunks\<rparr>)"
    "v \<noteq> []" "length v \<le> min ?k n" "pending c = v @ concat chunks" "[] \<notin> set chunks"
    using reader_read_more [OF ch, of "min ?k n"] assms by auto
  define c' where "c' = c\<lparr>c_chunks := chunks, c_verbatimRemaining := ?k - length v\<rparr>"
  have pend: "pending c' = concat chunks"
    by (simp add: c'_def pending_def)
  have "drop (?k - length v) (pending c') = drop ?k (pending c)"
    using v pend by simp
  then have "frame_ok dz c'"
    using ok v pend len by (auto simp: frame_ok_def c'_def chunks_ok_def)
  moreover have "frame_rest dz c = v @ frame_rest dz c'"
    using v pend assms(2) by (simp add: frame_rest_def c'_def)
  moreover have "read_ready n c = Some (Inr (Some v), c')"
    using assms v by (simp add: read_ready_def c'_def)
  ultimately show ?thesis
    using v by auto
qed

lemma read_ready_None: "read_ready n c = None \<longleftrightarrow> c_inflated c = None \<and> c_verbatimRemaining c = 0"
  by (auto simp: read_ready_def Let_def split: option.splits)

lemma readFromConn_framed_more:
  "frame_ok dz c \<Longrightarrow> 0 < n \<Longrightarrow> frame_rest dz c \<noteq> [] \<Longrightarrow>
   \<exists>v c'. readFromConn dz n c = (Inr (Some v), c') \<and> v \<noteq> [] \<and> length v \<le> n \<and>
     frame_rest dz c = v @ frame_rest dz c' \<and> frame_ok dz c'"
proof (induction dz n c rule: readFromConn.induct)
  case (1 dz n c)
  have comp: "c_compression c \<noteq> NONE"
    using 1(2) by (simp add: frame_ok_def)
  show ?case
  proof (cases "c_inflated c = None \<and> c_verbatimRemaining c = 0")
    case False
    then have "\<exists>v c'. read_ready n c = Some (Inr (Some v), c') \<and> v \<noteq> [] \<and> length v \<le> n \<and>
           frame_rest dz c = v @ frame_rest dz c' \<and> frame_ok dz c'"
      using read_ready_inflated [OF 1(2) _ 1(3)] read_ready_verbatim [OF 1(2) _ _ 1(3)]
      by (cases "c_inflated c") auto
    then obtain v c' where *: "read_ready n c = Some (Inr (Some v), c')" "v \<noteq> []" "length v \<le> n"
      "frame_rest dz c = v @ frame_rest dz c'" "frame_ok dz c'"
      by blast
    then show ?thesis
      using comp by (intro exI [of _ v] exI [of _ c']) (subst readFromConn.simps, simp)
  next
    case True
    then have "pending c \<noteq> []"
      using 1(4) by (auto simp: frame_rest_def)
    then obtain c' where c': "next_frame dz c = (Inr True, c')" "frame_ok dz c'"
      "frame_rest dz c' = frame_rest dz c"
      using next_frame_more 1(2) True by blast
    have none: "read_ready n c = None"
      using True by (simp add: read_ready_None)
    have "readFromConn dz n c = readFromConn dz n c'"
      using comp none c' by (subst readFromConn.simps) simp
    then show ?thesis
      using 1(1) [OF comp none c'(1)] 1(3,4) c' by simp
  qed
qed

lemma readFromConn_framed_eof:
  "frame_ok dz c \<Longrightarrow> 0 < n \<Longrightarrow> frame_rest dz c = [] \<Longrightarrow>
   \<exists>c'. readFromConn dz n c = (Inr None, c') \<and> frame_rest dz c' = [] \<and> frame_ok dz c'"
proof (induction dz n c rule: readFromConn.induct)
  case (1 dz n c)
  have comp: "c_compression c \<noteq> NONE"
    using 1(2) by (simp add: frame_ok_def)
  have idle: "c_inflated c = None" "c_verbatimRemaining c = 0"
    using 1(2,4) by (auto simp: frame_rest_def frame_ok_def split: option.splits)
  have none: "read_ready n c = None"
    using idle by (simp add: read_ready_None)
  show ?case
  proof (cases "pending c = []")
    case False
    then obtain c' where c': "next_frame dz c = (Inr True, c')" "frame_ok dz c'"
      "frame_rest dz c' = frame_rest dz c"
      using next_frame_more 1(2) idle by blast
    have "readFromConn dz n c = readFromConn dz n c'"
      using comp none c' by (subst readFromConn.simps) simp
    then show ?thesis
      using 1(1) [OF comp none c'(1)] 1(3,4) c' by simp
  next
    case True
    obtain b where b: "recvFrameExact COMPRESSED_HEADER_LEN True c = (Inr False, c\<lparr>c_frameBuffer := Some b\<rparr>)"
      "BUFFER_LEN \<le> length b"
      using recvFrameExact_eof [of c COMPRESSED_HEADER_LEN] True 1(2)
      by (auto simp: frame_ok_def COMPRESSED_HEADER_LEN_def)
    then have "readFromConn dz n c = (Inr None, c\<lparr>c_frameBuffer := Some b\<rparr>)"
      using comp none by (subst readFromConn.simps) (simp add: next_frame_def bindM_def)
    then show ?thesis
      using b 1(2,4) by (auto simp: frame_ok_def frame_rest_def pending_def chunks_ok_def)
  qed
qed

interpretation framed: byte_source "readFromConn dz" "frame_rest dz" "frame_ok dz" for dz
  by unfold_locales (blast intro: readFromConn_framed_more readFromConn_framed_eof)+

text \<open>
  A stream that ends inside the contents of a compressed packet is an error, never an early end of the data.
\<close>

lemma truncated_verbatim_is_error:
  assumes "c_compression c \<noteq> NONE" "c_inflated c = None" "0 < c_verbatimRemaining c" "c_chunks c = []" "0 < n"
  shows "\<exists>m. readFromConn dz n c = (Inl (ServerDisconnectedError m 0), c)"
  using assms by (subst readFromConn.simps) (simp add: read_ready_def reader_read_def)

end
