(* ===== verification/Reader.thy ===== *)
theory Reader
  imports Connection
begin

text \<open>
  \<open>MyProtocolReader\<close> of \<open>src/private/my_protocol_reader.ts\<close>: reading packet headers, numbers, blobs and
  strings from a buffer that is filled from the connection. Every operation takes the read function \<open>rd\<close>
  of the byte source under it (\<open>readFromConn\<close>). An operation \<open>readX\<close> gives \<open>None\<close> (\<open>undefined\<close>) when the
  buffer does not hold enough, and then the code calls \<open>readXAsync\<close>: \<open>or_await readX readXAsync\<close>.

  \<open>debugAssert()\<close> does nothing in production, so it is not in the model; what it asserts is in the
  invariant \<open>reader_wf\<close>.
\<close>

section \<open>State\<close>

record 'c reader =
  r_src :: 'c
  r_buffer :: "byte list"
  r_bufferStart :: nat
  r_bufferEnd :: nat
  r_sequenceId :: int
  r_payloadLength :: int
  r_packetOffset :: int
  r_totalBytesInPacket :: int
  r_decoder :: "byte list \<Rightarrow> jsstr"

type_synonym 'c rd = "nat \<Rightarrow> ('c, exn, byte list option) methodm"

type_synonym ('c, 'z, 'a) rdm = "(('c, 'z) reader_scheme, exn, 'a) methodm"

definition new_reader :: "'c \<Rightarrow> (byte list \<Rightarrow> jsstr) \<Rightarrow> byte list option \<Rightarrow> 'c reader" where
  "new_reader src decoder useBuffer =
     \<lparr>r_src = src, r_buffer = (case useBuffer of Some b \<Rightarrow> b | None \<Rightarrow> replicate BUFFER_LEN 0),
      r_bufferStart = 0, r_bufferEnd = 0, r_sequenceId = 0, r_payloadLength = 0, r_packetOffset = 0,
      r_totalBytesInPacket = 0, r_decoder = decoder\<rparr>"

definition recycleBuffer :: "('c, 'z) reader_scheme \<Rightarrow> byte list option \<times> ('c, 'z) reader_scheme" where
  "recycleBuffer r =
     (let buffer = r_buffer r
      in (if length buffer = BUFFER_LEN then Some buffer else None, r\<lparr>r_buffer := []\<rparr>))"

definition isAtEndOfPacket :: "('c, 'z) reader_scheme \<Rightarrow> bool" where
  "isAtEndOfPacket r = (r_packetOffset r \<ge> r_payloadLength r)"

definition unput :: "byte \<Rightarrow> ('c, 'z) reader_scheme \<Rightarrow> ('c, 'z) reader_scheme" where
  "unput b r =
     r\<lparr>r_bufferStart := r_bufferStart r - 1, r_packetOffset := r_packetOffset r - 1,
       r_buffer := (r_buffer r)[r_bufferStart r - 1 := b]\<rparr>"

text \<open>What is in the buffer, and \<open>payloadLength - packetOffset\<close>.\<close>

definition avail :: "('c, 'z) reader_scheme \<Rightarrow> byte list" where
  "avail r = subarray (r_buffer r) (r_bufferStart r) (r_bufferEnd r)"

definition haveBytes :: "('c, 'z) reader_scheme \<Rightarrow> nat" where
  "haveBytes r = r_bufferEnd r - r_bufferStart r"

definition lenInCurPacket :: "('c, 'z) reader_scheme \<Rightarrow> int" where
  "lenInCurPacket r = r_payloadLength r - r_packetOffset r"

definition or_await :: "('s, exn, 'a option) methodm \<Rightarrow> ('s, exn, 'a) methodm \<Rightarrow> ('s, exn, 'a) methodm" where
  "or_await sync async = bindM sync (\<lambda>v. case v of Some a \<Rightarrow> ret a | None \<Rightarrow> async)"

section \<open>Filling the buffer\<close>

text \<open>
  \<open>await this.readFromConn(this.buffer.subarray(this.bufferEnd))\<close> and the lines that follow it: the view
  that comes back is a part of the view that was given, so it replaces that part of the buffer. \<open>None\<close> is
  \<open>done\<close>, which each caller handles.
\<close>

definition fill_buffer :: "'c rd \<Rightarrow> ('c, 'z, nat option) rdm" where
  "fill_buffer rd r =
     (let n = length (r_buffer r) - r_bufferEnd r
      in case rd n (r_src r) of
           (Inl e, src) \<Rightarrow> (Inl e, r\<lparr>r_src := src\<rparr>)
         | (Inr None, src) \<Rightarrow> (Inr None, r\<lparr>r_src := src\<rparr>)
         | (Inr (Some v), src) \<Rightarrow>
             (let v = take n v; r = r\<lparr>r_src := src, r_buffer := arr_set (r_buffer r) (r_bufferEnd r) v\<rparr>
              in if v = [] then (Inl zero_bytes, r)
                 else (Inr (Some (length v)), r\<lparr>r_bufferEnd := r_bufferEnd r + length v\<rparr>)))"

lemma fill_buffer_Some:
  assumes "fill_buffer rd r = (Inr (Some k), r')"
  shows "0 < k \<and> r_bufferEnd r' = r_bufferEnd r + k \<and> r_bufferStart r' = r_bufferStart r \<and>
         r_bufferEnd r' \<le> length (r_buffer r) \<and> length (r_buffer r') = length (r_buffer r)"
  using assms
  by (auto simp: fill_buffer_def Let_def arr_set_def split: prod.splits sum.splits option.splits if_splits)

definition move_to_start :: "('c, 'z) reader_scheme \<Rightarrow> ('c, 'z) reader_scheme" where
  "move_to_start r =
     r\<lparr>r_buffer := copy_within (r_buffer r) 0 (r_bufferStart r) (r_bufferEnd r),
       r_bufferEnd := r_bufferEnd r - r_bufferStart r, r_bufferStart := 0\<rparr>"

function recv_loop :: "'c rd \<Rightarrow> nat \<Rightarrow> bool \<Rightarrow> ('c, 'z, bool) rdm" where
  "recv_loop rd to canEof r =
     (if r_bufferEnd r < to then
        bindM (fill_buffer rd) (\<lambda>k r'.
          case k of
            None \<Rightarrow> if canEof \<and> r_bufferEnd r' = r_bufferStart r' then (Inr False, r') else (Inl lost_connection, r')
          | Some _ \<Rightarrow> recv_loop rd to canEof r') r
      else (Inr True, r))"
  by auto
termination
  by (relation "measure (\<lambda>(rd, to, canEof, r). to - r_bufferEnd r)") (auto dest: fill_buffer_Some)

declare recv_loop.simps [simp del]

definition recvAtLeast :: "'c rd \<Rightarrow> nat \<Rightarrow> bool \<Rightarrow> ('c, 'z, bool) rdm" where
  "recvAtLeast rd nBytes canEof r =
     (let r = (if r_bufferStart r = r_bufferEnd r then r\<lparr>r_bufferStart := 0, r_bufferEnd := 0\<rparr>
               else if length (r_buffer r) < r_bufferStart r + nBytes then move_to_start r
               else r)
      in recv_loop rd (r_bufferStart r + nBytes) canEof r)"

text \<open>\<open>bytes.indexOf(0, from)\<close>\<close>

definition index_of_nul :: "byte list \<Rightarrow> nat \<Rightarrow> nat option" where
  "index_of_nul bytes from =
     (let ys = drop from bytes; k = length (takeWhile (\<lambda>b. b \<noteq> 0) ys)
      in if k < length ys then Some (from + k) else None)"

text \<open>The template strings of the two errors; buffers are a whole number of kibibytes.\<close>

definition too_long_kib :: "nat \<Rightarrow> exn" where
  "too_long_kib n =
     JsError (js (''String is too long for this operation. Longer than '' @ show_nat (n div 1024) @ '' kib''))"

definition too_long_bytes :: "nat \<Rightarrow> exn" where
  "too_long_bytes n =
     JsError (js (''String is too long for this operation. Longer than '' @ show_nat n @ '' bytes''))"

function recvToNul_loop :: "'c rd \<Rightarrow> ('c, 'z, nat) rdm" where
  "recvToNul_loop rd r =
     (if r_bufferEnd r = length (r_buffer r) \<and> r_bufferStart r = 0 then (Inl (too_long_kib (length (r_buffer r))), r)
      else
        bindM (fill_buffer rd) (\<lambda>k r'.
          case k of
            None \<Rightarrow> (Inl lost_connection, r')
          | Some k \<Rightarrow>
              (case index_of_nul (take (r_bufferEnd r') (r_buffer r')) (r_bufferEnd r' - k) of
                 Some i \<Rightarrow> (Inr i, r')
               | None \<Rightarrow> recvToNul_loop rd r'))
          (if r_bufferEnd r = length (r_buffer r) then
             r\<lparr>r_bufferEnd := r_bufferEnd r - r_bufferStart r,
               r_buffer := copy_within (r_buffer r) 0 (r_bufferStart r) (length (r_buffer r)),
               r_bufferStart := 0\<rparr>
           else r))"
  by auto
termination
proof (relation "measure (\<lambda>(rd, r). length (r_buffer r) + r_bufferStart r - r_bufferEnd r)", goal_cases)
  case 1
  then show ?case by simp
next
  case (2 rd r a r' k)
  then show ?case
    by (cases "r_bufferEnd r = length (r_buffer r)")
      (auto dest!: fill_buffer_Some simp: copy_within_def Let_def subarray_def)
qed

declare recvToNul_loop.simps [simp del]

definition recvToNul :: "'c rd \<Rightarrow> ('c, 'z, nat) rdm" where
  "recvToNul rd r =
     recvToNul_loop rd
       (if r_bufferStart r = r_bufferEnd r then r\<lparr>r_bufferStart := 0, r_bufferEnd := 0\<rparr> else r)"

section \<open>Packet headers\<close>

text \<open>The fields that a header sets. \<open>header >> 24\<close> is a signed shift.\<close>

definition take_header :: "byte list \<Rightarrow> int \<Rightarrow> ('c, 'z) reader_scheme \<Rightarrow> ('c, 'z) reader_scheme" where
  "take_header header offset r =
     r\<lparr>r_payloadLength := int (le_nat (take 3 header)),
       r_totalBytesInPacket := r_totalBytesInPacket r + int (le_nat (take 3 header)),
       r_sequenceId := le_int (drop 3 header) + 1,
       r_packetOffset := offset\<rparr>"

definition readPacketHeader :: "('c, 'z, bool) rdm" where
  "readPacketHeader r =
     (if 4 \<le> haveBytes r then
        (Inr True, take_header (subarray (r_buffer r) (r_bufferStart r) (r_bufferStart r + 4)) 0
                     (r\<lparr>r_bufferStart := r_bufferStart r + 4\<rparr>))
      else (Inr False, r))"

definition readPacketHeaderAsync :: "'c rd \<Rightarrow> ('c, 'z, unit) rdm" where
  "readPacketHeaderAsync rd =
     bindM (recvAtLeast rd 4 False) (\<lambda>_ r.
       (Inr (), take_header (subarray (r_buffer r) (r_bufferStart r) (r_bufferStart r + 4)) 0
                  (r\<lparr>r_bufferStart := r_bufferStart r + 4\<rparr>)))"

text \<open>\<open>this.readPacketHeader() || await this.readPacketHeaderAsync()\<close>\<close>

definition readHeader :: "'c rd \<Rightarrow> ('c, 'z, unit) rdm" where
  "readHeader rd = bindM readPacketHeader (\<lambda>ok. if ok then ret () else readPacketHeaderAsync rd)"

function near_loop :: "'c rd \<Rightarrow> nat \<Rightarrow> ('c, 'z, unit) rdm" where
  "near_loop rd wantRead r =
     (if haveBytes r < wantRead then
        bindM (fill_buffer rd) (\<lambda>k r'.
          case k of None \<Rightarrow> (Inl lost_connection, r') | Some _ \<Rightarrow> near_loop rd wantRead r')
          (move_to_start r)
      else (Inr (), r))"
  by auto
termination
  by (relation "measure (\<lambda>(rd, wantRead, r). wantRead - haveBytes r)")
    (auto dest!: fill_buffer_Some simp: move_to_start_def haveBytes_def)

declare near_loop.simps [simp del]

definition correctNearPacketBoundary :: "'c rd \<Rightarrow> ('c, 'z, unit) rdm" where
  "correctNearPacketBoundary rd r =
     (if r_payloadLength r = 0xFFFFFF then
        (let tail = nat (lenInCurPacket r)
         in bindM (near_loop rd (tail + 4)) (\<lambda>_ r.
              let start = r_bufferStart r;
                  r = take_header (subarray (r_buffer r) (start + tail) (start + tail + 4)) (- int tail) r
              in (Inr (), r\<lparr>r_buffer := copy_within (r_buffer r) (start + 4) start (start + tail),
                            r_bufferStart := start + 4\<rparr>)) r)
      else (Inr (), r))"

section \<open>Numbers\<close>

definition consume :: "nat \<Rightarrow> ('c, 'z, byte list) rdm" where
  "consume n r =
     (Inr (subarray (r_buffer r) (r_bufferStart r) (r_bufferStart r + n)),
      r\<lparr>r_bufferStart := r_bufferStart r + n, r_packetOffset := r_packetOffset r + int n\<rparr>)"

text \<open>The two bodies that all the fixed-size readers share; \<open>get\<close> is the \<open>DataView\<close> getter.\<close>

definition readFixed :: "nat \<Rightarrow> (byte list \<Rightarrow> 'a) \<Rightarrow> ('c, 'z, 'a option) rdm" where
  "readFixed n get r =
     (if n \<le> haveBytes r \<and> r_packetOffset r \<le> 0xFFFFFF - int n then
        bindM (consume n) (\<lambda>bytes. ret (Some (get bytes))) r
      else (Inr None, r))"

definition correctIfNear :: "'c rd \<Rightarrow> nat \<Rightarrow> ('c, 'z, unit) rdm" where
  "correctIfNear rd n r =
     (if r_packetOffset r > 0xFFFFFF - int n then correctNearPacketBoundary rd r else (Inr (), r))"

definition readFixedAsync :: "'c rd \<Rightarrow> nat \<Rightarrow> (byte list \<Rightarrow> 'a) \<Rightarrow> ('c, 'z, 'a) rdm" where
  "readFixedAsync rd n get =
     bindM (correctIfNear rd n) (\<lambda>_. bindM (recvAtLeast rd n False) (\<lambda>_.
       bindM (consume n) (\<lambda>bytes. ret (get bytes))))"

text \<open>Floats are read as the bit pattern that \<open>getFloat32\<close> and \<open>getFloat64\<close> take.\<close>

definition get_uint :: "byte list \<Rightarrow> int" where "get_uint bs = int (le_nat bs)"

definition readUint8 :: "('c, 'z, int option) rdm" where "readUint8 = readFixed 1 get_uint"
definition readUint8Async :: "'c rd \<Rightarrow> ('c, 'z, int) rdm" where "readUint8Async rd = readFixedAsync rd 1 get_uint"
definition readInt8 :: "('c, 'z, int option) rdm" where "readInt8 = readFixed 1 le_int"
definition readInt8Async :: "'c rd \<Rightarrow> ('c, 'z, int) rdm" where "readInt8Async rd = readFixedAsync rd 1 le_int"
definition readUint16 :: "('c, 'z, int option) rdm" where "readUint16 = readFixed 2 get_uint"
definition readUint16Async :: "'c rd \<Rightarrow> ('c, 'z, int) rdm" where "readUint16Async rd = readFixedAsync rd 2 get_uint"
definition readInt16 :: "('c, 'z, int option) rdm" where "readInt16 = readFixed 2 le_int"
definition readInt16Async :: "'c rd \<Rightarrow> ('c, 'z, int) rdm" where "readInt16Async rd = readFixedAsync rd 2 le_int"
definition readUint24 :: "('c, 'z, int option) rdm" where "readUint24 = readFixed 3 get_uint"
definition readUint24Async :: "'c rd \<Rightarrow> ('c, 'z, int) rdm" where "readUint24Async rd = readFixedAsync rd 3 get_uint"
definition readUint32 :: "('c, 'z, int option) rdm" where "readUint32 = readFixed 4 get_uint"
definition readUint32Async :: "'c rd \<Rightarrow> ('c, 'z, int) rdm" where "readUint32Async rd = readFixedAsync rd 4 get_uint"
definition readInt32 :: "('c, 'z, int option) rdm" where "readInt32 = readFixed 4 le_int"
definition readInt32Async :: "'c rd \<Rightarrow> ('c, 'z, int) rdm" where "readInt32Async rd = readFixedAsync rd 4 le_int"
definition readUint64 :: "('c, 'z, int option) rdm" where "readUint64 = readFixed 8 get_uint"
definition readUint64Async :: "'c rd \<Rightarrow> ('c, 'z, int) rdm" where "readUint64Async rd = readFixedAsync rd 8 get_uint"
definition readInt64 :: "('c, 'z, int option) rdm" where "readInt64 = readFixed 8 le_int"
definition readInt64Async :: "'c rd \<Rightarrow> ('c, 'z, int) rdm" where "readInt64Async rd = readFixedAsync rd 8 le_int"
definition readFloat :: "('c, 'z, nat option) rdm" where "readFloat = readFixed 4 le_nat"
definition readFloatAsync :: "'c rd \<Rightarrow> ('c, 'z, nat) rdm" where "readFloatAsync rd = readFixedAsync rd 4 le_nat"
definition readDouble :: "('c, 'z, nat option) rdm" where "readDouble = readFixed 8 le_nat"
definition readDoubleAsync :: "'c rd \<Rightarrow> ('c, 'z, nat) rdm" where "readDoubleAsync rd = readFixedAsync rd 8 le_nat"

text \<open>
  Length-encoded integers. The first byte says how many bytes the number takes; \<open>0xFB\<close> stands for NULL and
  is read as -1. (A result above \<open>MAX_SAFE_INTEGER\<close> is a bigint in the code, the others are numbers.)
\<close>

definition lenenc_size :: "byte \<Rightarrow> nat" where
  "lenenc_size desc = (if desc = 0xFE then 9 else if desc = 0xFD then 4 else if desc = 0xFC then 3 else 1)"

definition lenenc_value :: "byte list \<Rightarrow> int" where
  "lenenc_value bs =
     (if hd bs = 0xFB then -1
      else if hd bs \<in> {0xFC, 0xFD, 0xFE} then int (le_nat (tl bs)) else int (unat (hd bs)))"

definition readLenencInt :: "('c, 'z, int option) rdm" where
  "readLenencInt r =
     (if r_bufferEnd r > r_bufferStart r \<and> r_packetOffset r \<le> 0xFFFFFF - 9 then
        (let n = lenenc_size (r_buffer r ! r_bufferStart r)
         in if haveBytes r < n then (Inr None, r)
            else bindM (consume n) (\<lambda>bytes. ret (Some (lenenc_value bytes))) r)
      else (Inr None, r))"

definition readLenencIntAsync :: "'c rd \<Rightarrow> ('c, 'z, int) rdm" where
  "readLenencIntAsync rd =
     bindM (correctIfNear rd 9) (\<lambda>_.
     bindM (\<lambda>r. if r_bufferEnd r = r_bufferStart r then recvAtLeast rd 1 False r else (Inr True, r)) (\<lambda>_ r.
       let n = lenenc_size (r_buffer r ! r_bufferStart r)
       in bindM (if 1 < n then recvAtLeast rd n False else ret True) (\<lambda>_.
            bindM (consume n) (\<lambda>bytes. ret (lenenc_value bytes))) r))"

section \<open>Bytes\<close>

definition range_error :: exn where
  "range_error = JsError (js ''RangeError'')"

text \<open>\<open>readShortBytes()\<close>. The rest of a blob that continues in the next packet follows its header.\<close>

definition finish_across :: "byte list \<Rightarrow> int \<Rightarrow> nat \<Rightarrow> ('c, 'z, byte list) rdm" where
  "finish_across first at len r =
     (if at < 0 then (Inl range_error, r) else bindM (consume len) (\<lambda>bytes. ret (first @ bytes)) r)"

definition readShortBytes :: "nat \<Rightarrow> ('c, 'z, byte list option) rdm" where
  "readShortBytes len r =
     (if length (r_buffer r) < len + 4 then (Inl (too_long_bytes (length (r_buffer r) - 4)), r)
      else if len \<le> haveBytes r then
        (let lenIn = lenInCurPacket r
         in if int len \<le> lenIn then bindM (consume len) (\<lambda>bytes. ret (Some bytes)) r
            else if len + 4 \<le> haveBytes r then
              (let start = r_bufferStart r
               in bindM readPacketHeader (\<lambda>_. bindM
                    (finish_across (subarray (r_buffer r) start (nat (int start + lenIn))) lenIn (nat (int len - lenIn)))
                    (\<lambda>bytes. ret (Some bytes)))
                    (r\<lparr>r_bufferStart := nat (int start + lenIn)\<rparr>))
            else (Inr None, r))
      else (Inr None, r))"

definition readShortBytesAsync :: "'c rd \<Rightarrow> nat \<Rightarrow> ('c, 'z, byte list) rdm" where
  "readShortBytesAsync rd len r =
     (let lenIn = lenInCurPacket r
      in if int len \<le> lenIn then bindM (recvAtLeast rd len False) (\<lambda>_. consume len) r
         else bindM (recvAtLeast rd (nat (lenIn + 4)) False) (\<lambda>_ r.
                let start = r_bufferStart r;
                    first = subarray (r_buffer r) start (nat (int start + lenIn));
                    rest = nat (int len - lenIn)
                in bindM readPacketHeader (\<lambda>_. bindM (recvAtLeast rd rest False) (\<lambda>_.
                     finish_across first lenIn rest))
                     (r\<lparr>r_bufferStart := nat (int start + lenIn)\<rparr>)) r)"

definition readShortNulBytes :: "('c, 'z, byte list option) rdm" where
  "readShortNulBytes r =
     (case index_of_nul (take (r_bufferEnd r) (r_buffer r)) (r_bufferStart r) of
        Some i \<Rightarrow> (Inr (Some (subarray (r_buffer r) (r_bufferStart r) i)),
                   r\<lparr>r_packetOffset := r_packetOffset r + (int i - int (r_bufferStart r) + 1),
                     r_bufferStart := i + 1\<rparr>)
      | None \<Rightarrow> (Inr None, r))"

definition readShortNulBytesAsync :: "'c rd \<Rightarrow> ('c, 'z, byte list) rdm" where
  "readShortNulBytesAsync rd =
     bindM (recvToNul rd) (\<lambda>i r.
       (Inr (subarray (r_buffer r) (r_bufferStart r) i),
        r\<lparr>r_packetOffset := r_packetOffset r + (int i - int (r_bufferStart r) + 1),
          r_bufferStart := i + 1\<rparr>))"

text \<open>\<open>readShortLenencBytes()\<close>: the length and the blob at once, when the buffer holds both.\<close>

definition readShortLenencBytes :: "('c, 'z, byte list option) rdm" where
  "readShortLenencBytes r =
     (if r_bufferEnd r > r_bufferStart r \<and> r_packetOffset r \<le> 0xFFFFFF - 9 then
        (let start = r_bufferStart r; desc = r_buffer r ! start; numLen = lenenc_size desc
         in if haveBytes r < numLen then (Inr None, r)
            else if desc = 0xFB then bindM (consume 1) (\<lambda>_. ret (Some [])) r
            else
              let strLen = nat (lenenc_value (subarray (r_buffer r) start (start + numLen)));
                  allLen = strLen + numLen; lenIn = lenInCurPacket r
              in if desc = 0xFE \<and> length (r_buffer r) < strLen then (Inr None, r)
                 else if allLen \<le> haveBytes r then
                   (if int allLen \<le> lenIn then
                      bindM (consume allLen) (\<lambda>bytes. ret (Some (drop numLen bytes))) r
                    else if allLen + 4 \<le> haveBytes r then
                      bindM readPacketHeader (\<lambda>_. bindM
                        (finish_across (subarray (r_buffer r) (start + numLen) (nat (int start + lenIn)))
                           (lenIn - int numLen) (nat (int allLen - lenIn)))
                        (\<lambda>bytes. ret (Some bytes)))
                        (r\<lparr>r_bufferStart := nat (int start + lenIn)\<rparr>)
                    else (Inr None, r))
                 else (Inr None, r))
      else (Inr None, r))"

definition readShortLenencBytesAsync :: "'c rd \<Rightarrow> ('c, 'z, byte list) rdm" where
  "readShortLenencBytesAsync rd =
     bindM (or_await readLenencInt (readLenencIntAsync rd)) (\<lambda>len r.
       if int (length (r_buffer r)) - 4 < len then (Inl (too_long_bytes (length (r_buffer r) - 4)), r)
       else if len \<le> -1 then (Inr [], r)
       else or_await (readShortBytes (nat len)) (readShortBytesAsync rd (nat len)) r)"

definition strip_nul :: "byte list \<Rightarrow> byte list" where
  "strip_nul bytes = (if bytes \<noteq> [] \<and> last bytes = 0 then butlast bytes else bytes)"

definition readShortEofBytes :: "('c, 'z, byte list option) rdm" where
  "readShortEofBytes r =
     (let len = nat (lenInCurPacket r)
      in if len \<le> haveBytes r then bindM (consume len) (\<lambda>bytes. ret (Some (strip_nul bytes))) r
         else (Inr None, r))"

definition readShortEofBytesAsync :: "'c rd \<Rightarrow> ('c, 'z, byte list) rdm" where
  "readShortEofBytesAsync rd r =
     (let len = nat (lenInCurPacket r)
      in bindM (recvAtLeast rd len False) (\<lambda>_. bindM (consume len) (\<lambda>bytes. ret (strip_nul bytes))) r)"

text \<open>
  \<open>readBytesToBuffer(dest)\<close>, with \<open>dest\<close> as its length \<open>len\<close> and \<open>acc\<close> as the part of it that is filled. One
  round of the outer loop: the header of the next packet when the current one is used up, then what the
  buffer holds (that inner loop ends after one round, because one of its three bounds is then 0), then
  direct reads into \<open>dest\<close>.
\<close>

function direct_loop :: "'c rd \<Rightarrow> nat \<Rightarrow> byte list \<Rightarrow> ('c, 'z, byte list) rdm" where
  "direct_loop rd len acc r =
     (if 0 < lenInCurPacket r \<and> length acc < len then
        (let n = min (nat (lenInCurPacket r)) (len - length acc)
         in case rd n (r_src r) of
              (Inl e, src) \<Rightarrow> (Inl e, r\<lparr>r_src := src\<rparr>)
            | (Inr None, src) \<Rightarrow> (Inl lost_connection, r\<lparr>r_src := src\<rparr>)
            | (Inr (Some v), src) \<Rightarrow>
                (let v = take n v
                 in if v = [] then (Inl zero_bytes, r\<lparr>r_src := src\<rparr>)
                    else direct_loop rd len (acc @ v)
                      (r\<lparr>r_src := src, r_packetOffset := r_packetOffset r + int (length v),
                         r_bufferStart := 0, r_bufferEnd := 0\<rparr>)))
      else (Inr acc, r))"
  by pat_completeness auto
termination
  by (relation "measure (\<lambda>(rd, len, acc, r). len - length acc)") (auto simp: min_def neq_Nil_conv split: if_splits)

declare direct_loop.simps [simp del]

definition copy_available :: "nat \<Rightarrow> byte list \<Rightarrow> ('c, 'z, byte list) rdm" where
  "copy_available len acc r =
     (if 0 < haveBytes r \<and> 0 < lenInCurPacket r \<and> length acc < len then
        (let n = min (haveBytes r) (min (nat (lenInCurPacket r)) (len - length acc))
         in bindM (consume n) (\<lambda>bytes. ret (acc @ bytes)) r)
      else (Inr acc, r))"

definition readBytes_round :: "'c rd \<Rightarrow> nat \<Rightarrow> byte list \<Rightarrow> ('c, 'z, byte list) rdm" where
  "readBytes_round rd len acc =
     bindM (\<lambda>r. if lenInCurPacket r = 0 then readHeader rd r else (Inr (), r)) (\<lambda>_.
     bindM (copy_available len acc) (\<lambda>acc. direct_loop rd len acc))"

partial_function (option) readBytes_loop :: "'c rd \<Rightarrow> nat \<Rightarrow> byte list \<Rightarrow> (('c, 'z) reader_scheme, exn, byte list) loopm" where
  "readBytes_loop rd len acc r =
     (if length acc < len then
        (case readBytes_round rd len acc r of
           (Inl e, r') \<Rightarrow> Some (Inl e, r')
         | (Inr acc', r') \<Rightarrow> readBytes_loop rd len acc' r')
      else Some (Inr acc, r))"

definition readBytesToBuffer :: "'c rd \<Rightarrow> nat \<Rightarrow> (('c, 'z) reader_scheme, exn, byte list) loopm" where
  "readBytesToBuffer rd len = readBytes_loop rd len []"

section \<open>Skipping\<close>

definition readVoid :: "int \<Rightarrow> ('c, 'z, bool) rdm" where
  "readVoid len r =
     (if len \<le> int (haveBytes r) \<and> r_packetOffset r \<le> 0xFFFFFF - len then
        (Inr True, r\<lparr>r_bufferStart := nat (int (r_bufferStart r) + len),
                     r_packetOffset := r_packetOffset r + len\<rparr>)
      else (Inr False, r))"

text \<open>The inner loop of \<open>readVoidAsync()\<close>: reads over the whole buffer while \<open>k = lenInCurPacket\<close> is positive.\<close>

function void_inner :: "'c rd \<Rightarrow> int \<Rightarrow> ('c, 'z, int) rdm" where
  "void_inner rd k r =
     (if 0 < k then
        (let n = length (r_buffer r)
         in case rd n (r_src r) of
              (Inl e, src) \<Rightarrow> (Inl e, r\<lparr>r_src := src\<rparr>)
            | (Inr None, src) \<Rightarrow> (Inl lost_connection, r\<lparr>r_src := src\<rparr>)
            | (Inr (Some v), src) \<Rightarrow>
                (let v = take n v; r = r\<lparr>r_src := src, r_buffer := arr_set (r_buffer r) 0 v\<rparr>
                 in if v = [] then (Inl zero_bytes, r)
                    else void_inner rd (k - int (length v)) (r\<lparr>r_bufferEnd := length v\<rparr>)))
      else (Inr k, r))"
  by pat_completeness auto
termination
  by (relation "measure (\<lambda>(rd, k, r). nat k)") auto

declare void_inner.simps [simp del]

text \<open>One round of the outer loop; it gives the new \<open>len\<close>.\<close>

definition readVoid_round :: "'c rd \<Rightarrow> int \<Rightarrow> ('c, 'z, int) rdm" where
  "readVoid_round rd len =
     bindM (correctIfNear rd 1) (\<lambda>_ r.
       let lenIn = min len (lenInCurPacket r);
           r = r\<lparr>r_packetOffset := r_packetOffset r + lenIn\<rparr>;
           k = (if r_bufferEnd r > r_bufferStart r then lenIn - int (haveBytes r) else lenIn)
       in bindM (void_inner rd k) (\<lambda>k r.
            (Inr (len - lenIn), r\<lparr>r_bufferStart := nat (int (r_bufferEnd r) + k)\<rparr>)) r)"

partial_function (option) readVoidAsync :: "'c rd \<Rightarrow> int \<Rightarrow> (('c, 'z) reader_scheme, exn, unit) loopm" where
  "readVoidAsync rd len r =
     (if 0 < len then
        (case readVoid_round rd len r of
           (Inl e, r') \<Rightarrow> Some (Inl e, r')
         | (Inr len', r') \<Rightarrow> readVoidAsync rd len' r')
      else Some (Inr (), r))"

text \<open>\<open>this.readVoid(len) || await this.readVoidAsync(len)\<close>, and the same to the end of the packet.\<close>

definition skipBytes :: "'c rd \<Rightarrow> int \<Rightarrow> (('c, 'z) reader_scheme, exn, unit) loopm" where
  "skipBytes rd len =
     bindL (total_of (readVoid len)) (\<lambda>done. if done then total_of (ret ()) else readVoidAsync rd len)"

definition gotoEndOfPacket :: "('c, 'z, bool) rdm" where
  "gotoEndOfPacket r = readVoid (lenInCurPacket r) r"

definition gotoEndOfPacketAsync :: "'c rd \<Rightarrow> (('c, 'z) reader_scheme, exn, unit) loopm" where
  "gotoEndOfPacketAsync rd r = readVoidAsync rd (lenInCurPacket r) r"

section \<open>Strings\<close>

definition decode_with :: "('c, 'z, byte list) rdm \<Rightarrow> ('c, 'z, jsstr) rdm" where
  "decode_with m = bindM m (\<lambda>bytes r. (Inr (r_decoder r bytes), r))"

definition decode_opt :: "('c, 'z, byte list option) rdm \<Rightarrow> ('c, 'z, jsstr option) rdm" where
  "decode_opt m = bindM m (\<lambda>bytes r. (Inr (map_option (r_decoder r) bytes), r))"

definition readShortString :: "nat \<Rightarrow> ('c, 'z, jsstr option) rdm" where
  "readShortString len = decode_opt (readShortBytes len)"

definition readShortStringAsync :: "'c rd \<Rightarrow> nat \<Rightarrow> ('c, 'z, jsstr) rdm" where
  "readShortStringAsync rd len = decode_with (readShortBytesAsync rd len)"

definition readShortNulString :: "('c, 'z, jsstr option) rdm" where
  "readShortNulString = decode_opt readShortNulBytes"

definition readShortNulStringAsync :: "'c rd \<Rightarrow> ('c, 'z, jsstr) rdm" where
  "readShortNulStringAsync rd = decode_with (readShortNulBytesAsync rd)"

definition readShortLenencString :: "('c, 'z, jsstr option) rdm" where
  "readShortLenencString = decode_opt readShortLenencBytes"

definition readShortLenencStringAsync :: "'c rd \<Rightarrow> ('c, 'z, jsstr) rdm" where
  "readShortLenencStringAsync rd =
     bindM (or_await readLenencInt (readLenencIntAsync rd)) (\<lambda>len r.
       if int (length (r_buffer r)) - 4 < len then (Inl (too_long_bytes (length (r_buffer r) - 4)), r)
       else if len \<le> -1 then (Inr [], r)
       else decode_with (or_await (readShortBytes (nat len)) (readShortBytesAsync rd (nat len))) r)"

definition readShortEofString :: "('c, 'z, jsstr option) rdm" where
  "readShortEofString = decode_opt readShortEofBytes"

definition readShortEofStringAsync :: "'c rd \<Rightarrow> ('c, 'z, jsstr) rdm" where
  "readShortEofStringAsync rd = decode_with (readShortEofBytesAsync rd)"

end
