(* ===== verification/Utf8.thy ===== *)
theory Utf8
  imports Prelude
begin

text \<open>
  UTF-8 lengths: \<open>utf8StringLength()\<close> of \<open>src/private/utf8_string_length.ts\<close> against the encoding that
  \<open>TextEncoder\<close> (a standard library class) produces, and \<open>TextEncoder.encodeInto()\<close>, that never splits a
  character.
\<close>

section \<open>TextEncoder\<close>

definition is_high :: "16 word \<Rightarrow> bool" where
  "is_high c \<longleftrightarrow> 0xD800 \<le> unat c \<and> unat c \<le> 0xDBFF"

definition is_low :: "16 word \<Rightarrow> bool" where
  "is_low c \<longleftrightarrow> 0xDC00 \<le> unat c \<and> unat c \<le> 0xDFFF"

text \<open>The bytes of one code point. An unpaired surrogate is encoded as U+FFFD.\<close>

definition utf8_point :: "nat \<Rightarrow> byte list" where
  "utf8_point p =
     (if p \<le> 0x7F then [word_of_nat p]
      else if p \<le> 0x7FF then [word_of_nat (0xC0 + p div 64), word_of_nat (0x80 + p mod 64)]
      else if p \<le> 0xFFFF then
        [word_of_nat (0xE0 + p div 4096), word_of_nat (0x80 + p div 64 mod 64), word_of_nat (0x80 + p mod 64)]
      else
        [word_of_nat (0xF0 + p div 262144), word_of_nat (0x80 + p div 4096 mod 64),
         word_of_nat (0x80 + p div 64 mod 64), word_of_nat (0x80 + p mod 64)])"

text \<open>The first character of a string: its code point and how many code units it takes.\<close>

fun first_point :: "jsstr \<Rightarrow> (nat \<times> nat) option" where
  "first_point [] = None"
| "first_point (c # cs) =
     Some (if is_high c then
             (case cs of
                [] \<Rightarrow> (0xFFFD, 1)
              | c2 # _ \<Rightarrow>
                  if is_low c2 then (0x10000 + (unat c - 0xD800) * 1024 + (unat c2 - 0xDC00), 2)
                  else (0xFFFD, 1))
           else if is_low c then (0xFFFD, 1)
           else (unat c, 1))"

lemma first_point_units:
  assumes "first_point s = Some (p, k)"
  shows "0 < k" "k \<le> length s"
proof -
  have "0 < k \<and> k \<le> length s"
    using assms by (cases s) (auto split: if_splits list.splits)
  then show "0 < k" "k \<le> length s" by simp_all
qed

lemma first_point_drop: "first_point s = Some (p, k) \<Longrightarrow> length s - k < length s"
  using first_point_units [of s p k] by simp

function utf8_encode :: "jsstr \<Rightarrow> byte list" where
  "utf8_encode s =
     (case first_point s of None \<Rightarrow> [] | Some (p, k) \<Rightarrow> utf8_point p @ utf8_encode (drop k s))"
  by pat_completeness auto
termination
  by (relation "measure length") (auto dest: first_point_drop)

declare utf8_encode.simps [simp del]

text \<open>\<open>encoder.encodeInto(s, dest)\<close> with \<open>dest.length = cap\<close>: how many code units were read, and the bytes
  written. It stops before the first character that does not fit.\<close>

function encode_into :: "jsstr \<Rightarrow> nat \<Rightarrow> nat \<times> byte list" where
  "encode_into s cap =
     (case first_point s of
        None \<Rightarrow> (0, [])
      | Some (p, k) \<Rightarrow>
          if length (utf8_point p) \<le> cap then
            (let (r, bs) = encode_into (drop k s) (cap - length (utf8_point p))
             in (k + r, utf8_point p @ bs))
          else (0, []))"
  by pat_completeness auto
termination
  by (relation "measure (\<lambda>(s, cap). length s)") (auto dest: first_point_drop)

declare encode_into.simps [simp del]

lemma utf8_encode_Nil [simp]: "utf8_encode [] = []"
  by (simp add: utf8_encode.simps)

lemma length_utf8_point: "length (utf8_point p) = (if p \<le> 0x7F then 1 else if p \<le> 0x7FF then 2 else if p \<le> 0xFFFF then 3 else 4)"
  by (simp add: utf8_point_def)

lemma length_utf8_point_bounds [simp]: "0 < length (utf8_point p)" "length (utf8_point p) \<le> 4"
  by (simp_all add: length_utf8_point)

section \<open>utf8StringLength\<close>

text \<open>The loop of \<open>utf8StringLength(str)\<close>: \<open>len\<close> starts as the number of code units.\<close>

fun utf8_len_loop :: "jsstr \<Rightarrow> nat \<Rightarrow> nat" where
  "utf8_len_loop [] len = len"
| "utf8_len_loop (c # cs) len =
     (if 0x7F < unat c then
        (if 0x7FF < unat c then
           (if 0xD800 \<le> unat c \<and> unat c \<le> 0xDBFF then
              (case cs of
                 [] \<Rightarrow> utf8_len_loop cs (len + 2)
               | c2 # cs' \<Rightarrow>
                   if 0xDC00 \<le> unat c2 \<and> unat c2 \<le> 0xDFFF then utf8_len_loop cs' (len + 2)
                   else utf8_len_loop cs (len + 2))
            else utf8_len_loop cs (len + 2))
         else utf8_len_loop cs (len + 1))
      else utf8_len_loop cs len)"

declare utf8_len_loop.simps(2) [simp del]

definition utf8StringLength :: "jsstr \<Rightarrow> nat" where
  "utf8StringLength str = utf8_len_loop str (length str)"

lemma utf8_len_loop_acc:
  "utf8_len_loop s len + length s = len + length (utf8_encode s)"
proof (induction s arbitrary: len rule: length_induct)
  case (1 s)
  show ?case
  proof (cases s)
    case Nil
    then show ?thesis by simp
  next
    case (Cons c cs)
    have enc: "length (utf8_encode s) = length (utf8_point p) + length (utf8_encode (drop k s))"
      if "first_point s = Some (p, k)" for p k
      using that by (simp add: utf8_encode.simps [of s])
    show ?thesis
    proof (cases "is_high c \<and> cs \<noteq> [] \<and> is_low (hd cs)")
      case True
      then obtain c2 cs' where cs: "cs = c2 # cs'" and lo: "is_low c2"
        by (cases cs) auto
      have "utf8_len_loop cs' (len + 2) + length cs' = len + 2 + length (utf8_encode cs')"
        using 1 Cons cs by simp
      then show ?thesis
        using True Cons cs lo enc
        by (simp add: is_high_def is_low_def length_utf8_point utf8_len_loop.simps(2) [of c "c2 # cs'"])
    next
      case False
      let ?p = "if 0xD800 \<le> unat c \<and> unat c \<le> 0xDFFF then 0xFFFD else unat c"
      let ?n = "if 0x7FF < unat c then 2 else if 0x7F < unat c then 1 else 0"
      have lt: "unat c < 0x10000"
        using unsigned_less [of c] by simp
      have "first_point s = Some (?p, 1)"
        using False Cons by (auto simp: is_high_def is_low_def split: list.splits)
      then have e: "length (utf8_encode s) = length (utf8_point ?p) + length (utf8_encode cs)"
        using enc Cons by simp
      have p: "length (utf8_point ?p) = 1 + ?n"
        using lt by (simp add: length_utf8_point)
      have loop: "utf8_len_loop s len = utf8_len_loop cs (len + ?n)"
        using False Cons
        by (auto simp: is_high_def is_low_def utf8_len_loop.simps(2) [of c cs] split: list.splits)
      have "utf8_len_loop cs (len + ?n) + length cs = len + ?n + length (utf8_encode cs)"
        using 1 Cons by simp
      moreover have "length s = Suc (length cs)"
        using Cons by simp
      ultimately show ?thesis
        unfolding loop e p by linarith
    qed
  qed
qed

lemma utf8StringLength_eq: "utf8StringLength str = length (utf8_encode str)"
  using utf8_len_loop_acc [of str "length str"] by (simp add: utf8StringLength_def)

lemma utf8StringLength_le: "utf8StringLength str \<le> 4 * length str"
proof -
  have "length (utf8_encode s) \<le> 4 * length s" for s
  proof (induction s rule: utf8_encode.induct)
    case (1 s)
    show ?case
    proof (cases "first_point s")
      case None
      then show ?thesis by (simp add: utf8_encode.simps [of s])
    next
      case (Some pk)
      obtain p k where pk: "pk = (p, k)" by (cases pk)
      then have IH: "length (utf8_encode (drop k s)) \<le> 4 * length (drop k s)"
        using 1 Some by simp
      have "0 < k" "k \<le> length s"
        using Some pk first_point_units by auto
      then have "length (utf8_point p) + length (utf8_encode (drop k s)) \<le> 4 * length s"
        using IH length_utf8_point_bounds(2) [of p] by (simp del: length_utf8_point_bounds)
      then show ?thesis
        using Some pk by (simp add: utf8_encode.simps [of s])
    qed
  qed
  then show ?thesis by (simp add: utf8StringLength_eq)
qed

text \<open>\<open>encodeInto()\<close> writes the encoding of exactly the code units it has read, and never more than fits.\<close>

lemma encode_into_split:
  assumes "encode_into s cap = (r, bs)"
  shows "r \<le> length s \<and> length bs \<le> cap \<and> utf8_encode s = bs @ utf8_encode (drop r s)"
  using assms
proof (induction s cap arbitrary: r bs rule: encode_into.induct)
  case (1 s cap)
  show ?case
  proof (cases "first_point s")
    case None
    then show ?thesis using 1 by (simp add: encode_into.simps [of s])
  next
    case (Some pk)
    obtain p k where pk: "pk = (p, k)" by (cases pk)
    show ?thesis
    proof (cases "length (utf8_point p) \<le> cap")
      case False
      then show ?thesis using 1 Some pk by (simp add: encode_into.simps [of s])
    next
      case True
      obtain r' bs' where rec: "encode_into (drop k s) (cap - length (utf8_point p)) = (r', bs')"
        by fastforce
      have "r = k + r'" "bs = utf8_point p @ bs'"
        using "1.prems" Some pk True rec by (simp_all add: encode_into.simps [of s])
      moreover have "k \<le> length s"
        using Some pk first_point_units(2) by simp
      ultimately show ?thesis
        using "1.IH" [OF Some pk [symmetric] True rec] Some pk True
        by (auto simp: utf8_encode.simps [of s] add.commute)
    qed
  qed
qed

lemma encode_into_all:
  "length (utf8_encode s) \<le> cap \<Longrightarrow> encode_into s cap = (length s, utf8_encode s)"
proof (induction s cap rule: encode_into.induct)
  case (1 s cap)
  show ?case
  proof (cases "first_point s")
    case None
    then have "s = []" by (cases s) simp_all
    then show ?thesis by (simp add: encode_into.simps [of "[]"])
  next
    case (Some pk)
    obtain p k where pk: "pk = (p, k)" by (cases pk)
    have eq: "utf8_encode s = utf8_point p @ utf8_encode (drop k s)"
      using Some pk by (simp add: utf8_encode.simps [of s])
    then have fits: "length (utf8_point p) \<le> cap"
      and rest: "length (utf8_encode (drop k s)) \<le> cap - length (utf8_point p)"
      using "1.prems" by simp_all
    have "k \<le> length s"
      using Some pk first_point_units(2) by simp
    then show ?thesis
      using "1.IH" [OF Some pk [symmetric] fits rest] Some pk fits eq
      by (simp add: encode_into.simps [of s])
  qed
qed

end
