(* ===== verification/Writer.thy ===== *)
theory Writer
  imports Reader Utf8
begin

text \<open>
  The writing half of \<open>MyProtocolReaderWriter\<close> (\<open>src/private/my_protocol_reader_writer.ts\<close>), up to
  \<open>setHeader()\<close>: packets are built in the same buffer that the reader uses, between \<open>bufferStart\<close> (where the
  header of the current packet is) and \<open>bufferEnd\<close>.

  A \<open>DataView\<close> setter and \<open>Uint8Array.set()\<close> raise RangeError when there is no room, the assignment of one
  element does nothing then; the code calls \<open>ensureRoom()\<close> where this could happen.
\<close>

section \<open>State\<close>

record rw = "conn reader" +
  w_sent :: "byte list list"
  w_fail :: "(nat \<times> exn) option"
  w_commandStarts :: "nat list"
  w_zstdLevel :: nat

text \<open>
  \<open>w_sent\<close> are the chunks that were given to the writer of the connection; \<open>w_fail = Some (n, e)\<close> is an
  environment where the write after the next \<open>n\<close> ones fails with \<open>e\<close>.
\<close>

type_synonym ('z, 'a) rwm = "('z rw_scheme, exn, 'a) methodm"

definition is_compressed :: "(conn, 'z) reader_scheme \<Rightarrow> bool" where
  "is_compressed r \<longleftrightarrow> c_compression (r_src r) \<noteq> NONE"

section \<open>The buffer\<close>

text \<open>\<open>ensureRoom()\<close>: the loop is \<open>grow_len\<close>.\<close>

definition ensureRoom :: "nat \<Rightarrow> ('c, 'z) reader_scheme \<Rightarrow> ('c, 'z) reader_scheme" where
  "ensureRoom room r =
     (let wantLen = r_bufferEnd r + room; buffer = r_buffer r
      in if length buffer < wantLen then
           (let len = grow_len (2 * length buffer) wantLen
            in r\<lparr>r_buffer := arr_set (replicate len 0) 0 buffer\<rparr>)
         else r)"

definition write_bytes :: "byte list \<Rightarrow> ('c, 'z, unit) rdm" where
  "write_bytes bs r =
     (if length (r_buffer r) < r_bufferEnd r + length bs then (Inl range_error, r)
      else (Inr (), r\<lparr>r_buffer := arr_set (r_buffer r) (r_bufferEnd r) bs,
                     r_bufferEnd := r_bufferEnd r + length bs\<rparr>))"

text \<open>\<open>this.buffer[this.bufferEnd++] = b\<close>\<close>

definition write_element :: "byte \<Rightarrow> ('c, 'z) reader_scheme \<Rightarrow> ('c, 'z) reader_scheme" where
  "write_element b r = r\<lparr>r_buffer := (r_buffer r)[r_bufferEnd r := b], r_bufferEnd := r_bufferEnd r + 1\<rparr>"

section \<open>Packets\<close>

text \<open>\<open>payloadLength | (this.sequenceId << 24)\<close> as a 32-bit number.\<close>

definition header_word :: "nat \<Rightarrow> int \<Rightarrow> 32 word" where
  "header_word payloadLength sequenceId =
     (word_of_nat payloadLength OR push_bit 24 (word_of_int sequenceId))"

definition setHeader :: "nat \<Rightarrow> ('c, 'z, unit) rdm" where
  "setHeader payloadLength r =
     (let header = header_word payloadLength (r_sequenceId r);
          r = r\<lparr>r_sequenceId := r_sequenceId r + 1\<rparr>
      in if length (r_buffer r) < r_bufferStart r + 4 then (Inl range_error, r)
         else (Inr (), r\<lparr>r_buffer := arr_set (r_buffer r) (r_bufferStart r) (le_bytes 4 (unat header))\<rparr>))"

definition startWritingNewPacket :: "bool \<Rightarrow> ('z, unit) rwm" where
  "startWritingNewPacket resetSequenceId =
     bindM (\<lambda>r.
       if r_bufferEnd r = r_bufferStart r then
         (Inr (), r\<lparr>r_bufferStart := 0, r_bufferEnd := 4, w_commandStarts := []\<rparr>)
       else bindM (setHeader (r_bufferEnd r - r_bufferStart r - 4)) (\<lambda>_.
              modifyM (\<lambda>r. r\<lparr>r_bufferStart := r_bufferEnd r, r_bufferEnd := r_bufferEnd r + 4\<rparr>)) r)
     (\<lambda>_. modifyM (\<lambda>r.
       if resetSequenceId then
         r\<lparr>r_sequenceId := 0,
           w_commandStarts := (if is_compressed r then w_commandStarts r @ [r_bufferStart r] else w_commandStarts r)\<rparr>
       else r))"

definition discardPacket :: "'z rw_scheme \<Rightarrow> 'z rw_scheme" where
  "discardPacket r =
     r\<lparr>r_bufferEnd := r_bufferStart r,
       w_commandStarts :=
         (if w_commandStarts r \<noteq> [] \<and> last (w_commandStarts r) = r_bufferStart r then butlast (w_commandStarts r)
          else w_commandStarts r)\<rparr>"

section \<open>Numbers and bytes\<close>

definition writeUint8 :: "int \<Rightarrow> ('c, 'z, unit) rdm" where "writeUint8 v = modifyM (write_element (word_of_int v))"
definition writeInt8 :: "int \<Rightarrow> ('c, 'z, unit) rdm" where "writeInt8 v = write_bytes (le_bytes_int 1 v)"
definition writeUint16 :: "int \<Rightarrow> ('c, 'z, unit) rdm" where "writeUint16 v = write_bytes (le_bytes_int 2 v)"
definition writeInt16 :: "int \<Rightarrow> ('c, 'z, unit) rdm" where "writeInt16 v = write_bytes (le_bytes_int 2 v)"
definition writeUint32 :: "int \<Rightarrow> ('c, 'z, unit) rdm" where "writeUint32 v = write_bytes (le_bytes_int 4 v)"
definition writeInt32 :: "int \<Rightarrow> ('c, 'z, unit) rdm" where "writeInt32 v = write_bytes (le_bytes_int 4 v)"
definition writeUint64 :: "int \<Rightarrow> ('c, 'z, unit) rdm" where "writeUint64 v = write_bytes (le_bytes_int 8 v)"
definition writeInt64 :: "int \<Rightarrow> ('c, 'z, unit) rdm" where "writeInt64 v = write_bytes (le_bytes_int 8 v)"

text \<open>A float is given as its bit pattern.\<close>

definition writeFloat :: "nat \<Rightarrow> ('c, 'z, unit) rdm" where "writeFloat bits = write_bytes (le_bytes 4 bits)"
definition writeDouble :: "nat \<Rightarrow> ('c, 'z, unit) rdm" where "writeDouble bits = write_bytes (le_bytes 8 bits)"

definition writeLenencInt :: "int \<Rightarrow> ('c, 'z, unit) rdm" where
  "writeLenencInt v =
     (if v < 0 then throw (JsError (js ''Must be nonnegative number''))
      else if v < 0xFB then modifyM (write_element (word_of_int v))
      else if v \<le> 0xFFFF then
        bindM (modifyM (write_element 0xFC)) (\<lambda>_. write_bytes (le_bytes_int 2 v))
      else if v \<le> 0xFFFFFF then
        bindM (modifyM (write_element 0xFD)) (\<lambda>_.
        bindM (write_bytes (le_bytes_int 2 (v mod 0x10000))) (\<lambda>_. modifyM (write_element (word_of_int (v div 0x10000)))))
      else
        bindM (modifyM (write_element 0xFE)) (\<lambda>_. write_bytes (le_bytes_int 8 v)))"

definition writeZero :: "nat \<Rightarrow> ('c, 'z) reader_scheme \<Rightarrow> ('c, 'z) reader_scheme" where
  "writeZero nBytes r =
     r\<lparr>r_buffer := arr_fill (r_buffer r) 0 (r_bufferEnd r) (r_bufferEnd r + nBytes),
       r_bufferEnd := r_bufferEnd r + nBytes\<rparr>"

definition writeShortBytes :: "byte list \<Rightarrow> ('c, 'z, unit) rdm" where
  "writeShortBytes bytes = write_bytes bytes"

definition writeShortLenencBytes :: "byte list \<Rightarrow> ('c, 'z, unit) rdm" where
  "writeShortLenencBytes bytes = bindM (writeLenencInt (int (length bytes))) (\<lambda>_. writeShortBytes bytes)"

definition writeShortNulBytes :: "byte list \<Rightarrow> ('c, 'z, unit) rdm" where
  "writeShortNulBytes bytes =
     (case index_of_nul bytes 0 of
        None \<Rightarrow> bindM (writeShortBytes bytes) (\<lambda>_. writeUint8 0)
      | Some z \<Rightarrow> writeShortBytes (subarray bytes 0 (z + 1)))"

definition writeShortString :: "jsstr \<Rightarrow> ('c, 'z) reader_scheme \<Rightarrow> ('c, 'z) reader_scheme" where
  "writeShortString value r =
     (let (read, written) = encode_into value (length (r_buffer r) - r_bufferEnd r)
      in r\<lparr>r_buffer := arr_set (r_buffer r) (r_bufferEnd r) written, r_bufferEnd := r_bufferEnd r + length written\<rparr>)"

text \<open>
  \<open>writeShortLenencString()\<close> guesses how many bytes the length will take, encodes the string behind the place
  for it, and moves the string when the guess was wrong.
\<close>

definition writeShortLenencString :: "jsstr \<Rightarrow> ('c, 'z, unit) rdm" where
  "writeShortLenencString value r =
     (let buffer = r_buffer r; at = r_bufferEnd r
      in if length value < 0x80 then
           (let data = snd (encode_into value (length buffer - (at + 1))); written = length data;
                buffer = arr_set buffer (at + 1) data
            in if written < 0xFB then
                 (Inr (), r\<lparr>r_buffer := buffer[at := word_of_nat written], r_bufferEnd := at + 1 + written\<rparr>)
               else
                 (let buffer = buffer[at := 0xFC]; at = at + 1;
                      buffer = copy_within buffer (at + 2) at (at + written)
                  in bindM (write_bytes (le_bytes 2 written)) (\<lambda>_.
                       modifyM (\<lambda>r. r\<lparr>r_bufferEnd := r_bufferEnd r + written\<rparr>))
                       (r\<lparr>r_buffer := buffer, r_bufferEnd := at\<rparr>)))
         else if length value < 0x10000 div 4 then
           (let data = snd (encode_into value (length buffer - (at + 3))); written = length data;
                buffer = arr_set buffer (at + 3) data
            in if written < 0xFB then
                 (let buffer = buffer[at := word_of_nat written]; at = at + 1
                  in (Inr (), r\<lparr>r_buffer := copy_within buffer at (at + 2) (at + 2 + written),
                               r_bufferEnd := at + written\<rparr>))
               else
                 bindM (write_bytes (le_bytes 2 written)) (\<lambda>_.
                   modifyM (\<lambda>r. r\<lparr>r_bufferEnd := r_bufferEnd r + written\<rparr>))
                   (r\<lparr>r_buffer := buffer[at := 0xFC], r_bufferEnd := at + 1\<rparr>))
         else
           (let data = utf8_encode value
            in bindM (writeLenencInt (int (length data))) (\<lambda>_. writeShortBytes data) r))"

definition writeShortNulString :: "jsstr \<Rightarrow> ('c, 'z, unit) rdm" where
  "writeShortNulString value = writeShortNulBytes (utf8_encode value)"

section \<open>What is written\<close>

text \<open>The packet under construction, without its header.\<close>

definition written :: "('c, 'z) reader_scheme \<Rightarrow> byte list" where
  "written r = subarray (r_buffer r) (r_bufferStart r + 4) (r_bufferEnd r)"

definition room :: "('c, 'z) reader_scheme \<Rightarrow> nat \<Rightarrow> bool" where
  "room r n \<longleftrightarrow> r_bufferStart r + 4 \<le> r_bufferEnd r \<and> r_bufferEnd r + n \<le> length (r_buffer r)"

text \<open>\<open>m\<close> appends \<open>bs\<close> to the packet: what was in the buffer before stays, and nothing else changes.\<close>

definition appends :: "('c, 'z, unit) rdm \<Rightarrow> ('c, 'z) reader_scheme \<Rightarrow> byte list \<Rightarrow> bool" where
  "appends m r bs \<longleftrightarrow>
     (\<exists>buffer. m r = (Inr (), r\<lparr>r_buffer := buffer, r_bufferEnd := r_bufferEnd r + length bs\<rparr>) \<and>
        length buffer = length (r_buffer r) \<and> take (r_bufferEnd r) buffer = take (r_bufferEnd r) (r_buffer r) \<and>
        subarray buffer (r_bufferEnd r) (r_bufferEnd r + length bs) = bs)"

lemma appends_written:
  assumes "appends m r bs" "r_bufferStart r + 4 \<le> r_bufferEnd r"
  shows "\<exists>r'. m r = (Inr (), r') \<and> written r' = written r @ bs"
proof -
  obtain buffer where b: "m r = (Inr (), r\<lparr>r_buffer := buffer, r_bufferEnd := r_bufferEnd r + length bs\<rparr>)"
    "take (r_bufferEnd r) buffer = take (r_bufferEnd r) (r_buffer r)"
    "subarray buffer (r_bufferEnd r) (r_bufferEnd r + length bs) = bs"
    using assms(1) by (auto simp: appends_def)
  let ?s = "r_bufferStart r + 4" and ?e = "r_bufferEnd r"
  have "subarray buffer ?s ?e = drop ?s (take ?e buffer)"
    by (simp add: subarray_def drop_take)
  also have "\<dots> = written r"
    using b(2) by (simp add: written_def subarray_def drop_take)
  finally have "subarray buffer ?s (?e + length bs) = written r @ bs"
    using subarray_split [OF assms(2), of "?e + length bs" buffer] b(3) by simp
  with b(1) show ?thesis
    by (auto simp: written_def)
qed

lemma appends_bind:
  assumes "appends m r bs" "\<And>r'. r_bufferEnd r' = r_bufferEnd r + length bs \<Longrightarrow>
      length (r_buffer r') = length (r_buffer r) \<Longrightarrow> appends (f ()) r' cs"
  shows "appends (bindM m f) r (bs @ cs)"
proof -
  let ?e = "r_bufferEnd r"
  obtain b where b: "m r = (Inr (), r\<lparr>r_buffer := b, r_bufferEnd := ?e + length bs\<rparr>)"
    "length b = length (r_buffer r)" "take ?e b = take ?e (r_buffer r)" "subarray b ?e (?e + length bs) = bs"
    using assms(1) by (auto simp: appends_def)
  let ?r = "r\<lparr>r_buffer := b, r_bufferEnd := ?e + length bs\<rparr>"
  have "appends (f ()) ?r cs"
    using b(2) by (intro assms(2)) simp_all
  then obtain c where c: "f () ?r = (Inr (), r\<lparr>r_buffer := c, r_bufferEnd := ?e + length bs + length cs\<rparr>)"
    "length c = length b" "take (?e + length bs) c = take (?e + length bs) b"
    "subarray c (?e + length bs) (?e + length bs + length cs) = cs"
    by (auto simp: appends_def)
  have "take ?e c = take ?e b"
    using arg_cong [OF c(3), of "take ?e"] by (simp add: min_def)
  moreover have "subarray c ?e (?e + length bs) = bs"
    using arg_cong [OF c(3), of "drop ?e"] b(4) by (simp add: subarray_def drop_take)
  then have "subarray c ?e (?e + length bs + length cs) = bs @ cs"
    using subarray_split [of ?e "?e + length bs" "?e + length bs + length cs" c] c(4) by simp
  ultimately show ?thesis
    using b c by (auto simp: appends_def add.assoc)
qed

lemma write_bytes_appends: "r_bufferEnd r + length bs \<le> length (r_buffer r) \<Longrightarrow> appends (write_bytes bs) r bs"
  using subarray_arr_set_extend [of "r_bufferEnd r" "r_bufferEnd r" "r_buffer r" bs]
    subarray_arr_set_before [of "r_bufferEnd r" "r_bufferEnd r" "r_buffer r" bs 0]
  by (auto simp: appends_def write_bytes_def length_arr_set
      intro!: exI [of _ "arr_set (r_buffer r) (r_bufferEnd r) bs"])

lemma write_element_appends:
  "r_bufferEnd r < length (r_buffer r) \<Longrightarrow> appends (modifyM (write_element b)) r [b]"
  by (auto simp: appends_def write_element_def subarray_def take_update_cancel list_update_beyond
      intro!: nth_equalityI)

text \<open>The bytes of a length-encoded integer.\<close>

definition lenenc_bytes :: "nat \<Rightarrow> byte list" where
  "lenenc_bytes v =
     (if v < 0xFB then le_bytes 1 v
      else if v \<le> 0xFFFF then 0xFC # le_bytes 2 v
      else if v \<le> 0xFFFFFF then 0xFD # le_bytes 3 v
      else 0xFE # le_bytes 8 v)"

lemma lenenc_bytes_size:
  "lenenc_size (hd (lenenc_bytes v)) = length (lenenc_bytes v)"
proof -
  have "lenenc_size (word_of_nat v) = 1" if "v < 0xFB"
  proof -
    have "unat (word_of_nat v :: byte) = v"
      using that by (simp add: unat_of_nat)
    then have "(word_of_nat v :: byte) \<noteq> 0xFC" "(word_of_nat v :: byte) \<noteq> 0xFD" "(word_of_nat v :: byte) \<noteq> 0xFE"
      using that by (auto dest: arg_cong [where f = unat])
    then show ?thesis by (simp add: lenenc_size_def)
  qed
  then show ?thesis
    by (cases "v < 0xFB") (simp_all add: lenenc_bytes_def, simp_all add: lenenc_size_def)
qed

text \<open>Writing and reading a length-encoded integer.\<close>

lemma lenenc_roundtrip:
  assumes "v < 2 ^ 64"
  shows "lenenc_value (lenenc_bytes v) = int v"
proof (cases "v < 0xFB")
  case True
  then have u: "unat (word_of_nat v :: byte) = v"
    by (simp add: unat_of_nat)
  then have "(word_of_nat v :: byte) \<notin> {0xFB, 0xFC, 0xFD, 0xFE}"
    using True by (auto dest: arg_cong [where f = unat])
  then show ?thesis
    using True u by (simp add: lenenc_bytes_def lenenc_value_def)
next
  case False
  have "le_nat (le_bytes n v) = v" if "v < 256 ^ n" for n
    using that by (simp add: le_nat_le_bytes)
  from this [of 2] this [of 3] this [of 8] show ?thesis
    using False assms by (simp add: lenenc_bytes_def lenenc_value_def)
qed

lemma le_bytes_int_nat: "le_bytes_int n (int v) = le_bytes n v"
proof -
  have "le_bytes n (v mod 256 ^ n) = le_bytes n v"
  proof (induction n arbitrary: v)
    case (Suc n)
    have "v mod (256 * 256 ^ n) mod 256 = v mod 256"
      by (simp add: mod_mult_right_eq mod_mod_cancel)
    moreover have "v mod (256 * 256 ^ n) div 256 = v div 256 mod 256 ^ n"
      by (simp add: mod_mult2_eq)
    ultimately show ?case
      using Suc.IH [of "v div 256"] by simp
  qed simp
  moreover have "nat (int v mod 256 ^ n) = v mod 256 ^ n"
    by (metis nat_int of_nat_mod of_nat_numeral of_nat_power)
  ultimately show ?thesis
    by (simp add: le_bytes_int_def)
qed

lemma word_of_nat_mod_256 [simp]: "(word_of_nat (v mod 256) :: byte) = word_of_nat v"
  by (simp add: word_unat_eq_iff unat_of_nat)

lemma writeLenencInt_appends:
  fixes r :: "('c, 'z) reader_scheme"
  assumes "r_bufferEnd r + length (lenenc_bytes v) \<le> length (r_buffer r)" "v < 2 ^ 64"
  shows "appends (writeLenencInt (int v)) r (lenenc_bytes v)"
proof -
  consider (a) "v < 0xFB" | (b) "0xFB \<le> v" "v \<le> 0xFFFF" | (c) "0xFFFF < v" "v \<le> 0xFFFFFF" | (d) "0xFFFFFF < v"
    by linarith
  then show ?thesis
  proof cases
    case a
    then have "(writeLenencInt (int v) :: ('c, 'z, unit) rdm) = modifyM (write_element (word_of_nat v))"
      by (simp add: writeLenencInt_def)
    moreover have "lenenc_bytes v = [word_of_nat v]"
      using a by (simp add: lenenc_bytes_def)
    ultimately show ?thesis
      using write_element_appends [of r "word_of_nat v"] assms(1) by simp
  next
    case b
    then have e1: "(writeLenencInt (int v) :: ('c, 'z, unit) rdm) = bindM (modifyM (write_element 0xFC)) (\<lambda>_. write_bytes (le_bytes 2 v))"
      by (simp add: writeLenencInt_def le_bytes_int_nat)
    have e2: "lenenc_bytes v = [0xFC] @ le_bytes 2 v"
      using b by (simp add: lenenc_bytes_def)
    show ?thesis
      unfolding e1 e2 using assms(1) [unfolded e2]
      by (intro appends_bind write_element_appends write_bytes_appends) simp_all
  next
    case c
    have m: "le_bytes_int 2 (int v mod 0x10000) = le_bytes 2 v"
      using le_bytes_int_nat [of 2 v] by (simp add: le_bytes_int_def)
    have l3: "le_bytes 3 v = le_bytes 2 v @ [word_of_int (int v div 0x10000)]"
    proof -
      have "(word_of_int (int v div 0x10000) :: byte) = word_of_nat (v div 256 div 256)"
      proof -
        have "v div 256 div 256 = v div 0x10000"
          by (simp flip: div_mult2_eq)
        moreover have "int v div 0x10000 = int (v div 0x10000)"
          by (simp add: zdiv_int)
        ultimately show ?thesis
          by (simp only: of_int_of_nat_eq)
      qed
      then show ?thesis
        unfolding numeral_3_eq_3 numeral_2_eq_2 by simp
    qed
    have e1: "(writeLenencInt (int v) :: ('c, 'z, unit) rdm) = bindM (modifyM (write_element 0xFD)) (\<lambda>_. bindM (write_bytes (le_bytes 2 v))
        (\<lambda>_. modifyM (write_element (word_of_int (int v div 0x10000)))))"
      using c m by (simp add: writeLenencInt_def)
    have e2: "lenenc_bytes v = [0xFD] @ (le_bytes 2 v @ [word_of_int (int v div 0x10000)])"
      using c l3 by (simp add: lenenc_bytes_def)
    show ?thesis
      unfolding e1 e2 using assms(1) [unfolded e2]
      by (intro appends_bind write_element_appends write_bytes_appends) simp_all
  next
    case d
    then have e1: "(writeLenencInt (int v) :: ('c, 'z, unit) rdm) = bindM (modifyM (write_element 0xFE)) (\<lambda>_. write_bytes (le_bytes 8 v))"
      by (simp add: writeLenencInt_def le_bytes_int_nat)
    have e2: "lenenc_bytes v = [0xFE] @ le_bytes 8 v"
      using d by (simp add: lenenc_bytes_def)
    show ?thesis
      unfolding e1 e2 using assms(1) [unfolded e2]
      by (intro appends_bind write_element_appends write_bytes_appends) simp_all
  qed
qed

text \<open>Strings: whichever guess the code makes, the length and the string are appended.\<close>

lemma appendsI:
  assumes "m r = (Inr (), r\<lparr>r_buffer := buffer, r_bufferEnd := r_bufferEnd r + length bs\<rparr>)"
    "length buffer = length (r_buffer r)" "take (r_bufferEnd r) buffer = take (r_bufferEnd r) (r_buffer r)"
    "subarray buffer (r_bufferEnd r) (r_bufferEnd r + length bs) = bs"
  shows "appends m r bs"
  using assms by (auto simp: appends_def)

lemma prefix_and_data:
  assumes "at < length buf" "take at buf = take at buf0"
    "subarray buf (Suc at) (Suc at + length u) = u"
  shows "take at (buf[at := x]) = take at buf0" "subarray (buf[at := x]) at (at + length (x # u)) = x # u"
proof -
  show "take at (buf[at := x]) = take at buf0"
    using assms(2) by simp
  have "subarray (buf[at := x]) at (Suc at + length u) =
      subarray (buf[at := x]) at (Suc at) @ subarray (buf[at := x]) (Suc at) (Suc at + length u)"
    by (rule subarray_split) simp_all
  then show "subarray (buf[at := x]) at (at + length (x # u)) = x # u"
    using assms by (simp add: subarray_one subarray_update_before)
qed

lemma encode_whole:
  "length (utf8_encode value) \<le> cap \<Longrightarrow> snd (encode_into value cap) = utf8_encode value"
  by (simp add: encode_into_all)

lemma lenenc_string_short:
  assumes "length value < 0x80"
    and room: "r_bufferEnd r + 3 + length (utf8_encode value) \<le> length (r_buffer r)"
  shows "appends (writeShortLenencString value) r
    (lenenc_bytes (length (utf8_encode value)) @ utf8_encode value)"
proof -
  define u where "u = utf8_encode value"
  define w where "w = length u"
  define pos where "pos = r_bufferEnd r"
  define B where "B = r_buffer r"
  have u4: "w \<le> 0xFFFF"
    using utf8StringLength_le [of "value"] assms(1) by (simp add: w_def u_def utf8StringLength_eq)
  have rm: "pos + 3 + w \<le> length B"
    using room by (simp add: pos_def B_def w_def u_def)
  have enc: "snd (encode_into value (length B - (pos + 1))) = u"
    unfolding u_def using rm by (intro encode_whole) (simp add: w_def u_def)
  define B1 where "B1 = arr_set B (pos + 1) u"
  have B1: "length B1 = length B" "take pos B1 = take pos B" "subarray B1 (Suc pos) (Suc pos + w) = u"
    using rm subarray_arr_set_same [of "Suc pos" B u]
    by (simp_all add: B1_def length_arr_set take_arr_set w_def)
  show ?thesis
  proof (cases "w < 0xFB")
    case True
    have l: "lenenc_bytes w = [word_of_nat w]"
      using True by (simp add: lenenc_bytes_def)
    have run: "writeShortLenencString value r =
        (Inr (), r\<lparr>r_buffer := B1[pos := word_of_nat w], r_bufferEnd := pos + 1 + w\<rparr>)"
      using assms(1) True enc by (simp add: writeShortLenencString_def Let_def B1_def w_def flip: pos_def B_def)
    have "pos < length B1" "subarray B1 (Suc pos) (Suc pos + length u) = u"
      using rm B1 by (simp_all add: w_def)
    note pd = prefix_and_data [OF this(1) B1(2) this(2), of "word_of_nat w"]
    show ?thesis
      by (rule appendsI [where buffer = "B1[pos := word_of_nat w]"])
        (use run pd B1(1) l in \<open>simp_all add: pos_def B_def w_def u_def\<close>)
  next
    case False
    define B2 where "B2 = B1[pos := 0xFC]"
    define B3 where "B3 = copy_within B2 (pos + 1 + 2) (pos + 1) (pos + 1 + w)"
    define B4 where "B4 = arr_set B3 (pos + 1) (le_bytes 2 w)"
    have B2: "length B2 = length B" "subarray B2 (pos + 1) (pos + 1 + w) = u"
      using B1 by (simp_all add: B2_def subarray_update_before)
    have t: "pos + 1 + 2 + (pos + 1 + w - (pos + 1)) \<le> length B2" "pos + 1 + w \<le> length B2"
      using rm B2 by simp_all
    have B3: "length B3 = length B" "take (pos + 3) B3 = take (pos + 3) B2" "subarray B3 (pos + 3) (pos + 3 + w) = u"
      using copy_within_at [OF _ t(2,1)] B2 rm
      by (simp_all add: B3_def length_copy_within add.commute numeral_3_eq_3)
    have "take (Suc pos) B3 = take (Suc pos) B2"
      using arg_cong [OF B3(2), of "take (Suc pos)"] by (simp add: min_def)
    then have B4: "length B4 = length B" "take (pos + 1) B4 = take (pos + 1) B2"
      "subarray B4 (pos + 1) (pos + 3) = le_bytes 2 w" "subarray B4 (pos + 3) (pos + 3 + w) = u"
      using rm B3 subarray_arr_set_same [of "pos + 1" B3 "le_bytes 2 w"]
      by (simp_all add: B4_def length_arr_set take_arr_set subarray_arr_set_after numeral_3_eq_3)
    have l: "lenenc_bytes w = 0xFC # le_bytes 2 w"
      using False u4 by (simp add: lenenc_bytes_def)
    have run: "writeShortLenencString value r = (Inr (), r\<lparr>r_buffer := B4, r_bufferEnd := pos + 3 + w\<rparr>)"
    proof -
      have "writeShortLenencString value r = bindM (write_bytes (le_bytes 2 w))
          (\<lambda>_. modifyM (\<lambda>r. r\<lparr>r_bufferEnd := r_bufferEnd r + w\<rparr>)) (r\<lparr>r_buffer := B3, r_bufferEnd := pos + 1\<rparr>)"
        using assms(1) False enc
        by (simp add: writeShortLenencString_def Let_def B1_def B2_def B3_def w_def B_def pos_def)
      then show ?thesis
        using rm B3(1) by (simp add: write_bytes_def B4_def)
    qed
    have "subarray B4 pos (pos + 3 + w) = subarray B4 pos (pos + 1) @ subarray B4 (pos + 1) (pos + 3) @ subarray B4 (pos + 3) (pos + 3 + w)"
      using subarray_split [of pos "pos + 1" "pos + 3 + w" B4] subarray_split [of "pos + 1" "pos + 3" "pos + 3 + w" B4] by simp
    moreover have "subarray B4 pos (pos + 1) = [0xFC]"
    proof -
      have "B4 ! pos = B2 ! pos"
        using arg_cong [OF B4(2), of "\<lambda>l. l ! pos"] by simp
      then show ?thesis
        using rm B4(1) B2(1) by (simp add: subarray_one B2_def)
    qed
    ultimately have "subarray B4 pos (pos + 3 + w) = lenenc_bytes w @ u"
      using B4 l by simp
    moreover have "take pos B4 = take pos B"
      using arg_cong [OF B4(2), of "take pos"] B1 by (simp add: B2_def)
    ultimately show ?thesis
      by (intro appendsI [where buffer = B4]) (use run B4(1) l in \<open>simp_all add: pos_def B_def w_def u_def add.assoc numeral_3_eq_3\<close>)
  qed
qed

lemma lenenc_string_middle:
  assumes "\<not> length value < 0x80" "length value < 0x10000 div 4"
    and room: "r_bufferEnd r + 3 + length (utf8_encode value) \<le> length (r_buffer r)"
  shows "appends (writeShortLenencString value) r
    (lenenc_bytes (length (utf8_encode value)) @ utf8_encode value)"
proof -
  define u where "u = utf8_encode value"
  define w where "w = length u"
  define pos where "pos = r_bufferEnd r"
  define B where "B = r_buffer r"
  have u4: "w \<le> 0xFFFF"
    using utf8StringLength_le [of "value"] assms(2) by (simp add: w_def u_def utf8StringLength_eq)
  have rm: "pos + 3 + w \<le> length B"
    using room by (simp add: pos_def B_def w_def u_def)
  have enc: "snd (encode_into value (length B - (pos + 3))) = u"
    unfolding u_def using rm by (intro encode_whole) (simp add: w_def u_def)
  define B1 where "B1 = arr_set B (pos + 3) u"
  have B1: "length B1 = length B" "take (pos + 3) B1 = take (pos + 3) B" "subarray B1 (pos + 3) (pos + 3 + w) = u"
    using rm subarray_arr_set_same [of "pos + 3" B u]
    by (simp_all add: B1_def length_arr_set take_arr_set w_def)
  have B1p: "take pos B1 = take pos B"
    using arg_cong [OF B1(2), of "take pos"] by (simp add: min_def)
  show ?thesis
  proof (cases "w < 0xFB")
    case True
    have l: "lenenc_bytes w = [word_of_nat w]"
      using True by (simp add: lenenc_bytes_def)
    define B2 where "B2 = B1[pos := word_of_nat w]"
    define B3 where "B3 = copy_within B2 (pos + 1) (pos + 1 + 2) (pos + 1 + 2 + w)"
    have B2: "length B2 = length B" "subarray B2 (pos + 3) (pos + 3 + w) = u"
      using B1 by (simp_all add: B2_def subarray_update_before)
    have B3: "length B3 = length B" "take (pos + 1) B3 = take (pos + 1) B2" "subarray B3 (pos + 1) (pos + 1 + w) = u"
      using copy_within_at [of "pos + 3" "pos + 3 + w" B2 "pos + 1"] B2 rm
      by (simp_all add: B3_def length_copy_within add.commute numeral_3_eq_3)
    have run: "writeShortLenencString value r = (Inr (), r\<lparr>r_buffer := B3, r_bufferEnd := pos + 1 + w\<rparr>)"
      using assms True enc by (simp add: writeShortLenencString_def Let_def B1_def B2_def B3_def w_def B_def pos_def)
    have "B3 ! pos = B2 ! pos"
      using arg_cong [OF B3(2), of "\<lambda>l. l ! pos"] by simp
    then have "subarray B3 pos (pos + 1) = [word_of_nat w]"
      using rm B3(1) B2(1) by (simp add: subarray_one B2_def)
    then have "subarray B3 pos (pos + 1 + w) = lenenc_bytes w @ u"
      using subarray_split [of pos "pos + 1" "pos + 1 + w" B3] B3 l by simp
    moreover have "take pos B3 = take pos B"
      using arg_cong [OF B3(2), of "take pos"] B1p by (simp add: B2_def min_def)
    ultimately show ?thesis
      by (intro appendsI [where buffer = B3]) (use run B3(1) l in \<open>simp_all add: pos_def B_def w_def u_def add.assoc\<close>)
  next
    case False
    define B2 where "B2 = B1[pos := 0xFC]"
    define B4 where "B4 = arr_set B2 (pos + 1) (le_bytes 2 w)"
    have B2: "length B2 = length B" "subarray B2 (pos + 3) (pos + 3 + w) = u"
      using B1 by (simp_all add: B2_def subarray_update_before)
    have B4: "length B4 = length B" "take (pos + 1) B4 = take (pos + 1) B2"
      "subarray B4 (pos + 1) (pos + 3) = le_bytes 2 w" "subarray B4 (pos + 3) (pos + 3 + w) = u"
      using rm B2 subarray_arr_set_same [of "pos + 1" B2 "le_bytes 2 w"]
      by (simp_all add: B4_def length_arr_set take_arr_set subarray_arr_set_after numeral_3_eq_3)
    have l: "lenenc_bytes w = 0xFC # le_bytes 2 w"
      using False u4 by (simp add: lenenc_bytes_def)
    have run: "writeShortLenencString value r = (Inr (), r\<lparr>r_buffer := B4, r_bufferEnd := pos + 3 + w\<rparr>)"
    proof -
      have "writeShortLenencString value r = bindM (write_bytes (le_bytes 2 w))
          (\<lambda>_. modifyM (\<lambda>r. r\<lparr>r_bufferEnd := r_bufferEnd r + w\<rparr>)) (r\<lparr>r_buffer := B2, r_bufferEnd := pos + 1\<rparr>)"
        using assms False enc by (simp add: writeShortLenencString_def Let_def B1_def B2_def w_def B_def pos_def)
      then show ?thesis
        using rm B2(1) by (simp add: write_bytes_def B4_def)
    qed
    have "B4 ! pos = B2 ! pos"
      using arg_cong [OF B4(2), of "\<lambda>l. l ! pos"] by simp
    then have "subarray B4 pos (pos + 1) = [0xFC]"
      using rm B4(1) B2(1) by (simp add: subarray_one B2_def)
    moreover have "subarray B4 pos (pos + 3 + w) = subarray B4 pos (pos + 1) @ subarray B4 (pos + 1) (pos + 3) @ subarray B4 (pos + 3) (pos + 3 + w)"
      using subarray_split [of pos "pos + 1" "pos + 3 + w" B4] subarray_split [of "pos + 1" "pos + 3" "pos + 3 + w" B4] by simp
    ultimately have "subarray B4 pos (pos + 3 + w) = lenenc_bytes w @ u"
      using B4 l by simp
    moreover have "take pos B4 = take pos B"
      using arg_cong [OF B4(2), of "take pos"] B1p by (simp add: B2_def min_def)
    ultimately show ?thesis
      by (intro appendsI [where buffer = B4]) (use run B4(1) l in \<open>simp_all add: pos_def B_def w_def u_def add.assoc numeral_3_eq_3\<close>)
  qed
qed

lemma writeShortLenencString_appends:
  assumes "r_bufferEnd r + 9 + length (utf8_encode value) \<le> length (r_buffer r)"
    "length (utf8_encode value) < 2 ^ 64"
  shows "appends (writeShortLenencString value) r
    (lenenc_bytes (length (utf8_encode value)) @ utf8_encode value)"
proof -
  consider "length value < 0x80" | "\<not> length value < 0x80" "length value < 0x10000 div 4"
    | "\<not> length value < 0x80" "\<not> length value < 0x10000 div 4"
    by linarith
  then show ?thesis
  proof cases
    case 3
    have le9: "length (lenenc_bytes n) \<le> 9" for n
      by (simp add: lenenc_bytes_def)
    have fits: "r_bufferEnd r + length (lenenc_bytes (length (utf8_encode value))) + length (utf8_encode value)
        \<le> length (r_buffer r)"
      using assms(1) le9 [of "length (utf8_encode value)"] by linarith
    have "appends (bindM (writeLenencInt (int (length (utf8_encode value)))) (\<lambda>_. writeShortBytes (utf8_encode value))) r
        (lenenc_bytes (length (utf8_encode value)) @ utf8_encode value)"
      using fits assms(2) unfolding writeShortBytes_def
      by (intro appends_bind writeLenencInt_appends write_bytes_appends) simp_all
    moreover have "writeShortLenencString value r = bindM (writeLenencInt (int (length (utf8_encode value))))
        (\<lambda>_. writeShortBytes (utf8_encode value)) r"
      using 3 by (simp add: writeShortLenencString_def Let_def)
    ultimately show ?thesis
      by (simp add: appends_def)
  qed (use assms lenenc_string_short [of "value" r] lenenc_string_middle [of "value" r] in simp_all)
qed

lemma writeShortLenencBytes_appends:
  assumes "r_bufferEnd r + length (lenenc_bytes (length bs)) + length bs \<le> length (r_buffer r)" "length bs < 2 ^ 64"
  shows "appends (writeShortLenencBytes bs) r (lenenc_bytes (length bs) @ bs)"
  unfolding writeShortLenencBytes_def writeShortBytes_def using assms
  by (intro appends_bind writeLenencInt_appends write_bytes_appends) simp_all

text \<open>A NUL-terminated string ends at its first NUL, whether or not the caller put one in it.\<close>

lemma index_of_nul_spec:
  "index_of_nul bs 0 = (if 0 \<in> set bs then Some (length (takeWhile (\<lambda>b. b \<noteq> 0) bs)) else None)"
proof -
  have "length (takeWhile (\<lambda>b. b \<noteq> 0) bs) < length bs \<longleftrightarrow> 0 \<in> set bs"
    by (metis (mono_tags, lifting) length_takeWhile_le nat_less_le takeWhile_eq_all_conv
        takeWhile_eq_take take_all_iff)
  then show ?thesis
    by (simp add: index_of_nul_def)
qed

lemma writeShortNulBytes_appends:
  assumes "r_bufferEnd r + length bs + 1 \<le> length (r_buffer r)"
  shows "appends (writeShortNulBytes bs) r (takeWhile (\<lambda>b. b \<noteq> 0) bs @ [0])"
proof (cases "0 \<in> set bs")
  case False
  then have tw: "takeWhile (\<lambda>b. b \<noteq> 0) bs = bs"
    by (auto simp: takeWhile_eq_all_conv)
  have "appends (bindM (write_bytes bs) (\<lambda>_. modifyM (write_element (word_of_int 0)))) r (bs @ [word_of_int 0])"
    using assms by (intro appends_bind write_bytes_appends write_element_appends) simp_all
  then show ?thesis
    unfolding tw using False by (simp add: writeShortNulBytes_def index_of_nul_spec writeShortBytes_def writeUint8_def)
next
  case True
  define k where "k = length (takeWhile (\<lambda>b. b \<noteq> 0) bs)"
  have k: "k < length bs"
    using True index_of_nul_spec [of bs] by (auto simp: k_def index_of_nul_def Let_def split: if_splits)
  moreover have "bs ! k = 0"
    using nth_length_takeWhile [of "\<lambda>b. b \<noteq> 0" bs] k by (simp add: k_def)
  ultimately have "take (k + 1) bs = takeWhile (\<lambda>b. b \<noteq> 0) bs @ [0]"
    by (simp add: take_Suc_conv_app_nth k_def flip: takeWhile_eq_take)
  then show ?thesis
    using True assms write_bytes_appends [of r "take (k + 1) bs"] k
    by (simp add: writeShortNulBytes_def index_of_nul_spec writeShortBytes_def flip: k_def)
qed

end
