(* ===== verification/Compress.thy ===== *)
theory Compress
  imports Writer
begin

text \<open>
  The sending side of the compressed protocol: \<open>#toCompressedPackets()\<close> of
  \<open>src/private/my_protocol_reader_writer.ts\<close>, with the bounds and \<open>deflateInto()\<close>/\<open>zstdCompressInto()\<close> of
  \<open>src/private/deflate_into.ts\<close>. The compressors of the runtime are the parameter \<open>cz\<close>: algorithm, level and
  input to output.

  Shown: the space that the code reserves is always enough, and the packets that come out are read back by
  \<open>readFromConn()\<close> as the bytes that went in.
\<close>

section \<open>Bounds\<close>

definition MAX_COMPRESSED_PAYLOAD_LEN :: nat where "MAX_COMPRESSED_PAYLOAD_LEN = 0xFFFFFF"
definition MIN_COMPRESS_LEN :: nat where "MIN_COMPRESS_LEN = 50"

definition deflateBound :: "nat \<Rightarrow> nat" where
  "deflateBound len = len + len div 2 ^ 12 + len div 2 ^ 14 + len div 2 ^ 25 + 13"

definition zstdCompressBound :: "nat \<Rightarrow> nat" where
  "zstdCompressBound len =
     len + len div 2 ^ 8 + (if len < 128 * 2 ^ 10 then (128 * 2 ^ 10 - len) div 2 ^ 11 else 0)"

type_synonym compressor = "compression \<Rightarrow> nat \<Rightarrow> byte list \<Rightarrow> byte list"

text \<open>
  \<open>deflateInto(out, offset, part)\<close> and \<open>zstdCompressInto()\<close>: either way the compressed bytes land in \<open>out\<close> at
  \<open>offset\<close>, and their number is returned. Output that does not fit is a RangeError of \<open>out.set()\<close>.
\<close>

definition compressInto :: "compressor \<Rightarrow> compression \<Rightarrow> nat \<Rightarrow> byte list \<Rightarrow> nat \<Rightarrow> byte list \<Rightarrow>
    exn + byte list \<times> nat" where
  "compressInto cz alg level out offset part =
     (let data = cz alg level part
      in if length out < offset + length data then Inl range_error
         else Inr (arr_set out offset data, length data))"

section \<open>Conversion\<close>

text \<open>The body of the inner loop: one compressed packet at \<open>outPos\<close>.\<close>

definition put_frame :: "compressor \<Rightarrow> compression \<Rightarrow> nat \<Rightarrow> byte list \<Rightarrow> byte list \<Rightarrow> nat \<Rightarrow> nat \<Rightarrow>
    exn + byte list \<times> nat" where
  "put_frame cz alg level part out outPos compressedSeqId =
     (let dataPos = outPos + COMPRESSED_HEADER_LEN;
          attempt = (if MIN_COMPRESS_LEN \<le> length part then compressInto cz alg level out dataPos part
                     else Inr (out, length part))
      in case attempt of
           Inl e \<Rightarrow> Inl e
         | Inr (out, compressedLen) \<Rightarrow>
             (let compressed = (MIN_COMPRESS_LEN \<le> length part \<and> compressedLen < length part);
                  dataLen = (if compressed then compressedLen else length part);
                  uncompressedLen = (if compressed then length part else 0)
              in if uncompressedLen = 0 \<and> length out < dataPos + length part then Inl range_error
                 else
                   (let out = (if uncompressedLen = 0 then arr_set out dataPos part else out);
                        header = le_bytes 3 dataLen @ [word_of_nat compressedSeqId] @ le_bytes 3 uncompressedLen
                    in Inr (arr_set out outPos header, dataPos + dataLen))))"

text \<open>The inner loop, over the part \<open>[pos .. to)\<close>. It gives the next position and sequence id too.\<close>

function put_part :: "compressor \<Rightarrow> compression \<Rightarrow> nat \<Rightarrow> byte list \<Rightarrow> nat \<Rightarrow> nat \<Rightarrow> byte list \<Rightarrow> nat \<Rightarrow> nat \<Rightarrow>
    exn + byte list \<times> nat \<times> nat" where
  "put_part cz alg level data pos to out outPos compressedSeqId =
     (if pos < to then
        (let part = subarray data pos (min (pos + MAX_COMPRESSED_PAYLOAD_LEN) to)
         in case put_frame cz alg level part out outPos compressedSeqId of
              Inl e \<Rightarrow> Inl e
            | Inr (out, outPos) \<Rightarrow>
                put_part cz alg level data (pos + MAX_COMPRESSED_PAYLOAD_LEN) to out outPos
                  ((compressedSeqId + 1) mod 256))
      else Inr (out, outPos, compressedSeqId))"
  by auto
termination
  by (relation "measure (\<lambda>(cz, alg, level, data, pos, to, out, outPos, compressedSeqId). to - pos)")
    (auto simp: MAX_COMPRESSED_PAYLOAD_LEN_def)

declare put_part.simps [simp del]

text \<open>The outer loop, over the starts of the commands and the end.\<close>

fun put_parts :: "compressor \<Rightarrow> compression \<Rightarrow> nat \<Rightarrow> byte list \<Rightarrow> nat list \<Rightarrow> nat \<Rightarrow> byte list \<Rightarrow> nat \<Rightarrow>
    nat \<Rightarrow> nat \<Rightarrow> exn + byte list \<times> nat \<times> nat" where
  "put_parts cz alg level data [] from out outPos compressedSeqId nextSeqId =
     Inr (out, outPos, compressedSeqId)"
| "put_parts cz alg level data (to # tos) from out outPos compressedSeqId nextSeqId =
     (if from < to then
        (case put_part cz alg level data from to out outPos nextSeqId of
           Inl e \<Rightarrow> Inl e
         | Inr (out, outPos, compressedSeqId) \<Rightarrow>
             put_parts cz alg level data tos to out outPos compressedSeqId 0)
      else put_parts cz alg level data tos from out outPos compressedSeqId 0)"

text \<open>The space that is reserved.\<close>

definition worst_len :: "compression \<Rightarrow> nat \<Rightarrow> nat \<Rightarrow> nat" where
  "worst_len alg nCommands len =
     (let nParts = nCommands + 1 + len div MAX_COMPRESSED_PAYLOAD_LEN
      in if alg = ZSTD then zstdCompressBound len + nParts * (COMPRESSED_HEADER_LEN + 64 + 1)
         else deflateBound len + nParts * (COMPRESSED_HEADER_LEN + 13 + 1))"

text \<open>
  \<open>#toCompressedPackets(data, commandStarts)\<close>. \<open>within = Some n\<close> says that \<open>data\<close> is a view of \<open>this.buffer\<close>
  that begins at \<open>n\<close>; then the packets are put behind it, so they do not overwrite it. The result is the chunk.
\<close>

definition toCompressedPackets :: "compressor \<Rightarrow> byte list \<Rightarrow> nat option \<Rightarrow> nat list \<Rightarrow> ('z, byte list) rwm" where
  "toCompressedPackets cz data within commandStarts r =
     (let alg = c_compression (r_src r); len = length data;
          worstLen = worst_len alg (length commandStarts) len;
          writeAt = (case within of Some byteOffset \<Rightarrow> byteOffset + len | None \<Rightarrow> 0);
          inBuffer = (worstLen \<le> length (r_buffer r) - writeAt);
          out = (if inBuffer then r_buffer r else replicate worstLen 0);
          writeAt = (if inBuffer then writeAt else 0);
          seq = c_compressedSeqId (r_src r)
      in case put_parts cz alg (w_zstdLevel r) data (commandStarts @ [len]) 0 out writeAt seq seq of
           Inl e \<Rightarrow> (Inl e, r)
         | Inr (out, outPos, compressedSeqId) \<Rightarrow>
             (Inr (subarray out writeAt outPos),
              r\<lparr>r_src := (r_src r)\<lparr>c_compressedSeqId := compressedSeqId\<rparr>,
                r_buffer := (if inBuffer then out else r_buffer r)\<rparr>))"

section \<open>Specification\<close>

text \<open>The compressed packet of a piece, and the packets of a part.\<close>

definition spec_frame :: "(byte list \<Rightarrow> byte list) \<Rightarrow> byte list \<Rightarrow> nat \<Rightarrow> byte list" where
  "spec_frame c part seq =
     (if MIN_COMPRESS_LEN \<le> length part \<and> length (c part) < length part then
        le_bytes 3 (length (c part)) @ [word_of_nat seq] @ le_bytes 3 (length part) @ c part
      else le_bytes 3 (length part) @ [word_of_nat seq] @ le_bytes 3 0 @ part)"

definition bound_of :: "compression \<Rightarrow> nat \<Rightarrow> nat" where
  "bound_of alg len = (if alg = ZSTD then zstdCompressBound len else deflateBound len)"

text \<open>What the code relies on: the compressors keep to their documented bounds, and decompression inverts them.\<close>

definition compressor_bounded :: "compressor \<Rightarrow> bool" where
  "compressor_bounded cz \<longleftrightarrow> (\<forall>alg level part. length (cz alg level part) \<le> bound_of alg (length part))"

definition compressor_inverted :: "compressor \<Rightarrow> decompressor \<Rightarrow> bool" where
  "compressor_inverted cz dz \<longleftrightarrow> (\<forall>alg level part. dz alg (cz alg level part) = Inr part)"

lemma put_frame_spec:
  assumes fit: "outPos + COMPRESSED_HEADER_LEN + length part \<le> length out"
      "outPos + COMPRESSED_HEADER_LEN + length (cz alg level part) \<le> length out"
  shows "\<exists>out'. put_frame cz alg level part out outPos seq =
      Inr (out', outPos + length (spec_frame (cz alg level) part seq)) \<and>
    length out' = length out \<and> take outPos out' = take outPos out \<and>
    subarray out' outPos (outPos + length (spec_frame (cz alg level) part seq)) = spec_frame (cz alg level) part seq"
proof -
  define d where "d = outPos + COMPRESSED_HEADER_LEN"
  define c where "c = cz alg level part"
  define big where "big \<longleftrightarrow> MIN_COMPRESS_LEN \<le> length part"
  define small where "small \<longleftrightarrow> big \<and> length c < length part"
  define out1 where "out1 = (if big then arr_set out d c else out)"
  define body where "body = (if small then c else part)"
  define out2 where "out2 = (if small then out1 else arr_set out1 d part)"
  define header where "header = le_bytes 3 (length body) @ [word_of_nat seq] @ le_bytes 3 (if small then length part else 0)"
  have d7: "d = outPos + 7" and lh: "length header = 7"
    by (simp_all add: d_def COMPRESSED_HEADER_LEN_def header_def)
  have l1: "length out1 = length out" "take outPos out1 = take outPos out"
    using fit by (simp_all add: out1_def length_arr_set take_arr_set d_def c_def)
  have l2: "length out2 = length out" "take outPos out2 = take outPos out" "subarray out2 d (d + length body) = body"
    using fit l1 subarray_arr_set_same [of d out c] subarray_arr_set_same [of d out1 part]
    by (auto simp: out2_def body_def length_arr_set take_arr_set d_def c_def out1_def small_def)
  have fr: "spec_frame (cz alg level) part seq = header @ body"
    by (auto simp: spec_frame_def header_def body_def small_def big_def c_def)
  have small_part: "small \<Longrightarrow> part \<noteq> []"
    by (auto simp: small_def)
  have run: "put_frame cz alg level part out outPos seq = Inr (arr_set out2 outPos header, d + length body)"
  proof (cases big)
    case True
    then have "compressInto cz alg level out d part = Inr (out1, length c)"
      using fit by (simp add: compressInto_def Let_def out1_def c_def d_def)
    then show ?thesis
      using True fit small_part l1
      by (auto simp: put_frame_def Let_def out2_def body_def header_def small_def big_def [symmetric] d_def [symmetric])
  next
    case False
    then show ?thesis
      using fit l1
      by (auto simp: put_frame_def Let_def out2_def body_def header_def small_def out1_def big_def [symmetric] d_def [symmetric])
  qed
  define out3 where "out3 = arr_set out2 outPos header"
  have "outPos + 7 \<le> length out" using fit by (simp add: COMPRESSED_HEADER_LEN_def)
  then have l3: "length out3 = length out" "take outPos out3 = take outPos out"
    "subarray out3 outPos d = header" "subarray out3 d (d + length body) = body"
    using l2 lh subarray_arr_set_same [of outPos out2 header]
    by (simp_all add: out3_def length_arr_set take_arr_set subarray_arr_set_after d7)
  have "subarray out3 outPos (d + length body) = header @ body"
    using subarray_split [of outPos d "d + length body" out3] l3 d7 by simp
  then show ?thesis
    using run l3 lh d7 by (auto simp: fr add.assoc simp flip: out3_def)
qed

section \<open>The space is enough\<close>

text \<open>A bound is a superadditive function of the length and a constant.\<close>

definition bound_var :: "compression \<Rightarrow> nat \<Rightarrow> nat" where
  "bound_var alg len =
     (if alg = ZSTD then len + len div 2 ^ 8 else len + len div 2 ^ 12 + len div 2 ^ 14 + len div 2 ^ 25)"

definition bound_const :: "compression \<Rightarrow> nat" where
  "bound_const alg = (if alg = ZSTD then 64 else 13)"

lemma div_superadditive: "a div m + b div m \<le> (a + b) div (m :: nat)"
proof (cases "m = 0")
  case False
  have "(a div m + b div m) * m \<le> a + b"
    by (simp add: add_mult_distrib add_mono)
  then have "(a div m + b div m) * m div m \<le> (a + b) div m"
    by (rule div_le_mono)
  with False show ?thesis by simp
qed simp

lemma bound_var_superadditive: "bound_var alg a + bound_var alg b \<le> bound_var alg (a + b)"
  using div_superadditive [of a "2 ^ 8" b] div_superadditive [of a "2 ^ 12" b]
    div_superadditive [of a "2 ^ 14" b] div_superadditive [of a "2 ^ 25" b]
  unfolding bound_var_def by (cases "alg = ZSTD") (simp only: if_True if_False refl; linarith)+

lemma bound_of_le: "bound_of alg n \<le> bound_var alg n + bound_const alg"
proof -
  have "(128 * 2 ^ 10 - n) div 2 ^ 11 \<le> (128 * 2 ^ 10) div 2 ^ 11"
    by (rule div_le_mono) simp
  then show ?thesis
    by (simp add: bound_of_def bound_var_def bound_const_def zstdCompressBound_def deflateBound_def)
qed

lemma bound_of_ge: "n \<le> bound_of alg n"
  by (simp add: bound_of_def zstdCompressBound_def deflateBound_def)

lemma worst_len_ge:
  "bound_var alg len + (COMPRESSED_HEADER_LEN + bound_const alg + 1) *
     (nCommands + 1 + len div MAX_COMPRESSED_PAYLOAD_LEN) \<le> worst_len alg nCommands len"
  by (simp add: worst_len_def bound_var_def bound_const_def zstdCompressBound_def deflateBound_def Let_def
      COMPRESSED_HEADER_LEN_def)

function spec_part :: "(byte list \<Rightarrow> byte list) \<Rightarrow> nat \<Rightarrow> byte list \<Rightarrow> byte list" where
  "spec_part c seq part =
     (if part = [] then []
      else spec_frame c (take MAX_COMPRESSED_PAYLOAD_LEN part) seq @
           spec_part c ((seq + 1) mod 256) (drop MAX_COMPRESSED_PAYLOAD_LEN part))"
  by auto
termination
  by (relation "measure (\<lambda>(c, seq, part). length part)") (auto simp: MAX_COMPRESSED_PAYLOAD_LEN_def)

declare spec_part.simps [simp del]

lemma put_part_spec:
  assumes bounded: "compressor_bounded cz"
  shows "pos \<le> to \<Longrightarrow> to \<le> length data \<Longrightarrow>
    outPos + bound_var alg (to - pos) +
      (COMPRESSED_HEADER_LEN + bound_const alg + 1) * ((to - pos) div MAX_COMPRESSED_PAYLOAD_LEN + 1) \<le> length out \<Longrightarrow>
    \<exists>out' seq'. put_part cz alg level data pos to out outPos seq =
        Inr (out', outPos + length (spec_part (cz alg level) seq (subarray data pos to)), seq') \<and>
      length out' = length out \<and> take outPos out' = take outPos out \<and>
      subarray out' outPos (outPos + length (spec_part (cz alg level) seq (subarray data pos to))) =
        spec_part (cz alg level) seq (subarray data pos to) \<and>
      length (spec_part (cz alg level) seq (subarray data pos to)) \<le> bound_var alg (to - pos) +
        (COMPRESSED_HEADER_LEN + bound_const alg + 1) * ((to - pos) div MAX_COMPRESSED_PAYLOAD_LEN + 1)"
proof (induction "to - pos" arbitrary: pos out outPos seq rule: less_induct)
  case (less pos out outPos seq)
  let ?M = MAX_COMPRESSED_PAYLOAD_LEN and ?K = "COMPRESSED_HEADER_LEN + bound_const alg + 1" and ?c = "cz alg level"
  note prems = less.prems
  have M: "0 < ?M" by (simp add: MAX_COMPRESSED_PAYLOAD_LEN_def)
  show ?case
  proof (cases "pos < to")
    case False
    then have "pos = to" using prems(1) by simp
    then show ?thesis
      by (subst put_part.simps) (simp add: spec_part.simps)
  next
    case True
    define e where "e = min (pos + ?M) to"
    define part where "part = subarray data pos e"
    have e: "pos < e" "e \<le> to" "e \<le> pos + ?M"
      using True M by (auto simp: e_def)
    have lp: "length part = e - pos" "part \<noteq> []"
      using e prems(2) by (auto simp: part_def subarray_def)
    have sub: "subarray data pos to = part @ subarray data e to"
      using subarray_split [of pos e to data] e by (simp add: part_def)
    have tk: "take ?M (subarray data pos to) = part" and dr: "drop ?M (subarray data pos to) = subarray data (pos + ?M) to"
    proof -
      show "drop ?M (subarray data pos to) = subarray data (pos + ?M) to"
        by (rule drop_subarray)
      show "take ?M (subarray data pos to) = part"
      proof (cases "pos + ?M \<le> to")
        case True
        then show ?thesis by (simp add: part_def e_def take_subarray)
      next
        case False
        then have "e = to" by (simp add: e_def)
        moreover have "length (subarray data pos to) \<le> ?M"
          using False by (simp add: subarray_def)
        ultimately show ?thesis by (simp add: part_def)
      qed
    qed
    have spec: "spec_part ?c seq (subarray data pos to) =
        spec_frame ?c part seq @ spec_part ?c ((seq + 1) mod 256) (subarray data (pos + ?M) to)"
      unfolding spec_part.simps [of ?c seq "subarray data pos to"] tk dr using lp(2) sub by simp
    have bound: "length (?c part) \<le> bound_var alg (e - pos) + bound_const alg" "length part \<le> bound_var alg (e - pos) + bound_const alg"
      using bounded [unfolded compressor_bounded_def, rule_format, of alg level part]
        bound_of_le [of alg "e - pos"] bound_of_ge [of "e - pos" alg] lp(1) by simp_all
    define rest where "rest = bound_var alg (to - (pos + ?M)) +
        (if pos + ?M < to then ?K * ((to - (pos + ?M)) div ?M + 1) else 0)"
    have total: "bound_var alg (e - pos) + ?K + rest \<le> bound_var alg (to - pos) + ?K * ((to - pos) div ?M + 1)"
    proof (cases "pos + ?M < to")
      case True
      then have e': "e - pos = ?M" "to - pos = ?M + (to - (pos + ?M))"
        by (auto simp: e_def)
      have "(to - pos) div ?M = (to - (pos + ?M)) div ?M + 1"
        unfolding e'(2) using M div_add_self1 [of ?M "to - (pos + ?M)"] by simp
      moreover have "bound_var alg (e - pos) + bound_var alg (to - (pos + ?M)) \<le> bound_var alg (to - pos)"
        using bound_var_superadditive [of alg "e - pos" "to - (pos + ?M)"] e' by simp
      ultimately show ?thesis
        using True by (simp add: rest_def algebra_simps)
    next
      case False
      then have "e = to" by (simp add: e_def)
      then show ?thesis
        using False by (simp add: rest_def bound_var_def)
    qed
    have fr_len: "length (spec_frame ?c part seq) \<le> bound_var alg (e - pos) + ?K"
      using bound by (auto simp: spec_frame_def COMPRESSED_HEADER_LEN_def)
    have fit: "outPos + COMPRESSED_HEADER_LEN + length part \<le> length out"
      "outPos + COMPRESSED_HEADER_LEN + length (?c part) \<le> length out"
      using bound total prems(3) by linarith+
    obtain out1 where o1: "put_frame cz alg level part out outPos seq =
        Inr (out1, outPos + length (spec_frame ?c part seq))"
      "length out1 = length out" "take outPos out1 = take outPos out"
      "subarray out1 outPos (outPos + length (spec_frame ?c part seq)) = spec_frame ?c part seq"
      using put_frame_spec [of outPos part out cz alg level, OF fit] by blast
    define p1 where "p1 = outPos + length (spec_frame ?c part seq)"
    have step: "put_part cz alg level data pos to out outPos seq =
        put_part cz alg level data (pos + ?M) to out1 p1 ((seq + 1) mod 256)"
      using True o1(1) by (subst put_part.simps) (simp add: p1_def part_def e_def)
    show ?thesis
    proof (cases "pos + ?M < to")
      case False
      have "spec_part ?c ((seq + 1) mod 256) (subarray data (pos + ?M) to) = []"
        using False by (simp add: spec_part.simps)
      moreover have "put_part cz alg level data (pos + ?M) to out1 p1 ((seq + 1) mod 256) = Inr (out1, p1, (seq + 1) mod 256)"
        using False by (subst put_part.simps) simp
      ultimately show ?thesis
        unfolding step spec using o1 fr_len total by (simp add: p1_def)
    next
      case more: True
      let ?s = "spec_part ?c ((seq + 1) mod 256) (subarray data (pos + ?M) to)"
      have room: "p1 + bound_var alg (to - (pos + ?M)) + ?K * ((to - (pos + ?M)) div ?M + 1) \<le> length out1"
        using total prems(3) fr_len more o1(2) by (simp add: p1_def rest_def)
      have "\<exists>out' seq'. put_part cz alg level data (pos + ?M) to out1 p1 ((seq + 1) mod 256) =
          Inr (out', p1 + length ?s, seq') \<and> length out' = length out1 \<and> take p1 out' = take p1 out1 \<and>
          subarray out' p1 (p1 + length ?s) = ?s \<and>
          length ?s \<le> bound_var alg (to - (pos + ?M)) + ?K * ((to - (pos + ?M)) div ?M + 1)"
        using more M prems(2) room by (intro less.hyps) auto
      then obtain out' seq' where o2: "put_part cz alg level data (pos + ?M) to out1 p1 ((seq + 1) mod 256) =
          Inr (out', p1 + length ?s, seq')" "length out' = length out1" "take p1 out' = take p1 out1"
          "subarray out' p1 (p1 + length ?s) = ?s"
          "length ?s \<le> bound_var alg (to - (pos + ?M)) + ?K * ((to - (pos + ?M)) div ?M + 1)"
        by blast
      have "take outPos out' = take outPos out"
        using arg_cong [OF o2(3), of "take outPos"] o1(3) by (simp add: p1_def min_def)
      moreover have "subarray out' outPos p1 = spec_frame ?c part seq"
        using arg_cong [OF o2(3), of "drop outPos"] o1(4) by (simp add: subarray_def drop_take p1_def)
      then have "subarray out' outPos (p1 + length ?s) = spec_frame ?c part seq @ ?s"
        using subarray_split [of outPos p1 "p1 + length ?s" out'] o2(4) by (simp add: p1_def)
      moreover have "length (spec_frame ?c part seq) + length ?s \<le> bound_var alg (to - pos) + ?K * ((to - pos) div ?M + 1)"
        using fr_len o2(5) total more by (simp add: rest_def)
      ultimately show ?thesis
        unfolding step spec using o2(1,2) o1(2) by (auto simp: p1_def add.assoc)
    qed
  qed
qed

fun spec_parts :: "(byte list \<Rightarrow> byte list) \<Rightarrow> byte list \<Rightarrow> nat list \<Rightarrow> nat \<Rightarrow> nat \<Rightarrow> byte list" where
  "spec_parts c data [] from nextSeqId = []"
| "spec_parts c data (to # tos) from nextSeqId =
     (if from < to then spec_part c nextSeqId (subarray data from to) @ spec_parts c data tos to 0
      else spec_parts c data tos from 0)"

lemma put_parts_spec:
  assumes bounded: "compressor_bounded cz"
  shows "sorted (start # tos) \<Longrightarrow> (\<forall>t \<in> set tos. t \<le> end) \<Longrightarrow> start \<le> end \<Longrightarrow> end \<le> length data \<Longrightarrow>
    outPos + bound_var alg (end - start) +
      (COMPRESSED_HEADER_LEN + bound_const alg + 1) * (length tos + (end - start) div MAX_COMPRESSED_PAYLOAD_LEN) \<le> length out \<Longrightarrow>
    \<exists>out' seq'. put_parts cz alg level data tos start out outPos seq nx =
        Inr (out', outPos + length (spec_parts (cz alg level) data tos start nx), seq') \<and>
      length out' = length out \<and> take outPos out' = take outPos out \<and>
      subarray out' outPos (outPos + length (spec_parts (cz alg level) data tos start nx)) =
        spec_parts (cz alg level) data tos start nx"
proof (induction tos arbitrary: start out outPos seq nx)
  case Nil
  then show ?case by simp
next
  case (Cons to tos)
  let ?M = MAX_COMPRESSED_PAYLOAD_LEN and ?K = "COMPRESSED_HEADER_LEN + bound_const alg + 1" and ?c = "cz alg level"
  have sorted: "start \<le> to" "to \<le> end" "sorted (to # tos)" "\<forall>t \<in> set tos. t \<le> end"
    using Cons.prems by auto
  show ?case
  proof (cases "start < to")
    case False
    have "?K * (length tos + (end - start) div ?M) \<le> ?K * (length (to # tos) + (end - start) div ?M)"
      by (rule mult_le_mono2) simp
    then have "outPos + bound_var alg (end - start) + ?K * (length tos + (end - start) div ?M) \<le> length out"
      using Cons.prems(5) by linarith
    moreover have "sorted (start # tos)"
      using sorted by (auto intro: order_trans)
    ultimately show ?thesis
      using Cons.IH [of start outPos out seq 0] False sorted(4) Cons.prems(3,4) by simp
  next
    case True
    let ?a = "to - start" and ?b = "end - to" and ?s = "spec_part ?c nx (subarray data start to)"
    have split: "end - start = ?a + ?b"
      using sorted True by simp
    have d: "?a div ?M + ?b div ?M \<le> (end - start) div ?M"
      unfolding split by (rule div_superadditive)
    have v: "bound_var alg ?a + bound_var alg ?b \<le> bound_var alg (end - start)"
      unfolding split by (rule bound_var_superadditive)
    have "?K * (?a div ?M + 1) + ?K * (length tos + ?b div ?M) = ?K * (length (to # tos) + (?a div ?M + ?b div ?M))"
      by (simp add: algebra_simps)
    also have "\<dots> \<le> ?K * (length (to # tos) + (end - start) div ?M)"
      using d by (intro mult_le_mono2 add_left_mono)
    finally have total: "bound_var alg ?a + ?K * (?a div ?M + 1) + (bound_var alg ?b + ?K * (length tos + ?b div ?M)) + outPos
        \<le> length out"
      using v Cons.prems(5) by linarith
    have "outPos + bound_var alg ?a + ?K * (?a div ?M + 1) \<le> length out"
      using total by linarith
    then obtain out1 seq1 where o1: "put_part cz alg level data start to out outPos nx = Inr (out1, outPos + length ?s, seq1)"
      "length out1 = length out" "take outPos out1 = take outPos out"
      "subarray out1 outPos (outPos + length ?s) = ?s" "length ?s \<le> bound_var alg ?a + ?K * (?a div ?M + 1)"
      using put_part_spec [OF bounded, of start to data outPos alg out level nx] sorted Cons.prems(4) by auto
    define p1 where "p1 = outPos + length ?s"
    let ?t = "spec_parts ?c data tos to 0"
    have "p1 + bound_var alg ?b + ?K * (length tos + ?b div ?M) \<le> length out1"
      using total o1(2,5) by (simp add: p1_def)
    from Cons.IH [OF sorted(3,4,2) Cons.prems(4) this, of seq1 0] obtain out' seq' where
      o2: "put_parts cz alg level data tos to out1 p1 seq1 0 = Inr (out', p1 + length ?t, seq')"
      "length out' = length out1" "take p1 out' = take p1 out1" "subarray out' p1 (p1 + length ?t) = ?t"
      by blast
    have "take outPos out' = take outPos out"
      using arg_cong [OF o2(3), of "take outPos"] o1(3) by (simp add: p1_def min_def)
    moreover have "subarray out' outPos p1 = ?s"
      using arg_cong [OF o2(3), of "drop outPos"] o1(4) by (simp add: subarray_def drop_take p1_def)
    then have "subarray out' outPos (p1 + length ?t) = ?s @ ?t"
      using subarray_split [of outPos p1 "p1 + length ?t" out'] o2(4) by (simp add: p1_def)
    ultimately show ?thesis
      using True o1(1,2) o2(1,2) by (auto simp: p1_def add.assoc)
  qed
qed

text \<open>The chunk that is sent, for any compressors that keep to their bounds.\<close>

lemma toCompressedPackets_spec:
  assumes bounded: "compressor_bounded cz" and starts: "sorted commandStarts" "\<forall>t \<in> set commandStarts. t \<le> length data"
    and view: "case within of Some off \<Rightarrow> off + length data \<le> length (r_buffer r) | None \<Rightarrow> True"
  shows "\<exists>r'. toCompressedPackets cz data within commandStarts r =
      (Inr (spec_parts (cz (c_compression (r_src r)) (w_zstdLevel r)) data (commandStarts @ [length data]) 0
              (c_compressedSeqId (r_src r))), r') \<and>
    length (r_buffer r') = length (r_buffer r) \<and>
    (\<forall>off. within = Some off \<longrightarrow> take (off + length data) (r_buffer r') = take (off + length data) (r_buffer r))"
proof -
  let ?alg = "c_compression (r_src r)" and ?len = "length data"
  define tos where "tos = commandStarts @ [?len]"
  define seq where "seq = c_compressedSeqId (r_src r)"
  define worst where "worst = worst_len ?alg (length commandStarts) ?len"
  define w0 where "w0 = (case within of Some off \<Rightarrow> off + ?len | None \<Rightarrow> 0)"
  define inb where "inb \<longleftrightarrow> worst \<le> length (r_buffer r) - w0"
  define out where "out = (if inb then r_buffer r else replicate worst 0)"
  define w where "w = (if inb then w0 else 0)"
  let ?s = "spec_parts (cz ?alg (w_zstdLevel r)) data tos 0 seq"
  have "w0 \<le> length (r_buffer r)"
    using view by (auto simp: w0_def split: option.splits)
  then have "w + worst \<le> length out"
    by (auto simp: w_def out_def inb_def)
  moreover have "bound_var ?alg (?len - 0) + (COMPRESSED_HEADER_LEN + bound_const ?alg + 1) *
      (length tos + (?len - 0) div MAX_COMPRESSED_PAYLOAD_LEN) \<le> worst"
    using worst_len_ge [of ?alg ?len "length commandStarts"] by (simp add: worst_def tos_def)
  ultimately have room: "w + bound_var ?alg (?len - 0) + (COMPRESSED_HEADER_LEN + bound_const ?alg + 1) *
      (length tos + (?len - 0) div MAX_COMPRESSED_PAYLOAD_LEN) \<le> length out"
    by linarith
  have "sorted (0 # tos)" "\<forall>t \<in> set tos. t \<le> ?len"
    using starts by (auto simp: tos_def sorted_append)
  from put_parts_spec [OF bounded this _ _ room, where level = "w_zstdLevel r" and seq = seq and nx = seq and data = data] obtain out' seq' where
    o: "put_parts cz ?alg (w_zstdLevel r) data tos 0 out w seq seq = Inr (out', w + length ?s, seq')"
    "length out' = length out" "take w out' = take w out" "subarray out' w (w + length ?s) = ?s"
    by auto
  have run: "toCompressedPackets cz data within commandStarts r = (Inr ?s,
      r\<lparr>r_src := (r_src r)\<lparr>c_compressedSeqId := seq'\<rparr>, r_buffer := (if inb then out' else r_buffer r)\<rparr>)"
    using o(1,4) unfolding toCompressedPackets_def Let_def inb_def out_def w_def worst_def w0_def seq_def tos_def
    by simp
  show ?thesis
    using run o by (auto simp: out_def w_def w0_def seq_def tos_def split: if_splits)
qed

section \<open>What the other side reads\<close>

lemma decode_spec_frame:
  assumes "part \<noteq> []" "length part \<le> MAX_COMPRESSED_PAYLOAD_LEN" "z (c part) = Inr part"
  shows "decode_frames z (spec_frame c part seq @ tail) = map_option ((@) part) (decode_frames z tail)"
proof -
  have small: "n \<le> 0xFFFFFF \<Longrightarrow> le_nat (le_bytes 3 n) = n" for n
    by (simp add: le_nat_le_bytes)
  define body where "body = (if MIN_COMPRESS_LEN \<le> length part \<and> length (c part) < length part then c part else part)"
  define ulen where "ulen = (if MIN_COMPRESS_LEN \<le> length part \<and> length (c part) < length part then length part else 0)"
  have fr: "spec_frame c part seq @ tail = le_bytes 3 (length body) @ [word_of_nat seq] @ le_bytes 3 ulen @ body @ tail"
    by (auto simp: spec_frame_def body_def ulen_def)
  have l: "length body \<le> 0xFFFFFF" "ulen \<le> 0xFFFFFF"
    using assms(2) by (auto simp: body_def ulen_def MAX_COMPRESSED_PAYLOAD_LEN_def)
  have "frame_data z ulen body = Some part"
    using assms(1,3) by (auto simp: frame_data_def body_def ulen_def)
  moreover have "length (le_bytes 3 (length body) @ [word_of_nat seq] @ le_bytes 3 ulen) = 7"
    by simp
  ultimately show ?thesis
    unfolding fr using l
    by (subst decode_frames.simps) (simp add: COMPRESSED_HEADER_LEN_def Let_def small)
qed

lemma decode_spec_part:
  assumes z: "\<And>part. z (c part) = Inr part"
  shows "decode_frames z (spec_part c seq part @ tail) = map_option ((@) part) (decode_frames z tail)"
proof (induction "length part" arbitrary: seq part rule: less_induct)
  case (less part seq)
  let ?M = MAX_COMPRESSED_PAYLOAD_LEN
  show ?case
  proof (cases "part = []")
    case True
    then show ?thesis
      by (cases "decode_frames z tail") (simp_all add: spec_part.simps)
  next
    case False
    have M: "0 < ?M" by (simp add: MAX_COMPRESSED_PAYLOAD_LEN_def)
    have "decode_frames z (spec_part c ((seq + 1) mod 256) (drop ?M part) @ tail) =
        map_option ((@) (drop ?M part)) (decode_frames z tail)"
      by (rule less.hyps) (use False M in simp)
    moreover have "spec_part c seq part = spec_frame c (take ?M part) seq @ spec_part c ((seq + 1) mod 256) (drop ?M part)"
      using False by (simp add: spec_part.simps [of c seq part])
    ultimately have "decode_frames z (spec_part c seq part @ tail) =
        map_option ((@) (take ?M part)) (map_option ((@) (drop ?M part)) (decode_frames z tail))"
      using decode_spec_frame [where z = z and c = c and part = "take ?M part" and seq = seq] False M z
      by simp
    then show ?thesis
      by (simp add: option.map_comp o_def flip: append_assoc)
  qed
qed

lemma decode_spec_parts:
  assumes z: "\<And>part. z (c part) = Inr part"
  shows "sorted (start # tos) \<Longrightarrow> decode_frames z (spec_parts c data tos start nx) =
    Some (subarray data start (last (start # tos)))"
proof (induction tos arbitrary: start nx)
  case Nil
  then show ?case by simp
next
  case (Cons to tos)
  have le: "to \<le> last (to # tos)" "sorted (to # tos)" "start \<le> to"
    using Cons.prems by (auto simp: sorted_append dest: last_in_set)
  show ?case
  proof (cases "start < to")
    case True
    then show ?thesis
      using Cons.IH [OF le(2), of 0] decode_spec_part [where z = z and c = c, OF z]
        subarray_split [OF le(3,1), of data] by simp
  next
    case False
    then have "start = to" using le(3) by simp
    then show ?thesis
      using Cons.IH [OF le(2), of 0] by simp
  qed
qed

text \<open>The bytes that are sent are read back as what was to be sent.\<close>

lemma toCompressedPackets_decoded:
  assumes "compressor_bounded cz" "compressor_inverted cz dz" "sorted commandStarts"
    "\<forall>t \<in> set commandStarts. t \<le> length data"
    "case within of Some off \<Rightarrow> off + length data \<le> length (r_buffer r) | None \<Rightarrow> True"
  shows "\<exists>chunk r'. toCompressedPackets cz data within commandStarts r = (Inr chunk, r') \<and>
    decode_frames (dz (c_compression (r_src r))) chunk = Some data"
proof -
  have "sorted (0 # commandStarts @ [length data])"
    using assms(3,4) by (auto simp: sorted_append)
  then have "decode_frames (dz (c_compression (r_src r))) (spec_parts (cz (c_compression (r_src r)) (w_zstdLevel r))
      data (commandStarts @ [length data]) 0 (c_compressedSeqId (r_src r))) = Some data"
    using decode_spec_parts [where tos = "commandStarts @ [length data]" and start = 0] assms(2)
    by (simp add: compressor_inverted_def)
  with toCompressedPackets_spec [OF assms(1,3,4,5)] show ?thesis
    by blast
qed

end
