(* ===== verification/SendData.thy ===== *)
theory SendData
  imports Compress
begin

text \<open>
  \<open>send()\<close>, \<open>sendPackets()\<close>, \<open>sendData()\<close> and \<open>sendWithData()\<close> of
  \<open>src/private/my_protocol_reader_writer.ts\<close>. The connection's writer takes chunks; it may fail at some
  write. The logging callback of \<open>sendWithData()\<close> is left out: it sees the data and does not change it.
\<close>

section \<open>Sending what is in the buffer\<close>

definition conn_write :: "byte list \<Rightarrow> ('z, unit) rwm" where
  "conn_write bs r =
     (case w_fail r of
        None \<Rightarrow> (Inr (), r\<lparr>w_sent := w_sent r @ [bs]\<rparr>)
      | Some (0, e) \<Rightarrow> (Inl e, r)
      | Some (Suc n, e) \<Rightarrow> (Inr (), r\<lparr>w_sent := w_sent r @ [bs], w_fail := Some (n, e)\<rparr>))"

definition sendPackets :: "compressor \<Rightarrow> nat \<Rightarrow> ('z, unit) rwm" where
  "sendPackets cz end r =
     (let data = take end (r_buffer r)
      in if \<not> is_compressed r then conn_write data r
         else bindM (toCompressedPackets cz data (Some 0) (w_commandStarts r)) (\<lambda>out.
                bindM (modifyM (\<lambda>r. r\<lparr>w_commandStarts := []\<rparr>)) (\<lambda>_. conn_write out)) r)"

text \<open>\<open>within\<close> says whether the data is a view of the buffer, as in \<open>toCompressedPackets\<close>.\<close>

definition sendData :: "compressor \<Rightarrow> nat option \<Rightarrow> byte list \<Rightarrow> ('z, unit) rwm" where
  "sendData cz within data r =
     (if \<not> is_compressed r then conn_write data r
      else bindM (toCompressedPackets cz data within []) conn_write r)"

definition send :: "compressor \<Rightarrow> ('z, unit) rwm" where
  "send cz r =
     (let n = r_bufferEnd r
      in bindM (setHeader (r_bufferEnd r - r_bufferStart r - 4)) (\<lambda>_.
           bindM (modifyM (\<lambda>r. r\<lparr>r_bufferStart := 0, r_bufferEnd := 0\<rparr>)) (\<lambda>_. sendPackets cz n)) r)"

text \<open>\<open>writeReadChunk()\<close>; \<open>v\<close> is what the reader of the caller puts into the room that is left, \<open>None\<close> at its end.\<close>

definition writeReadChunk :: "byte list option \<Rightarrow> ('c, 'z, nat option) rdm" where
  "writeReadChunk v r =
     (case v of
        None \<Rightarrow> (Inr None, r)
      | Some bs \<Rightarrow>
          (let bs = take (length (r_buffer r) - r_bufferEnd r) bs
           in (Inr (Some (length bs)),
               r\<lparr>r_buffer := arr_set (r_buffer r) (r_bufferEnd r) bs, r_bufferEnd := r_bufferEnd r + length bs\<rparr>)))"

section \<open>Sending long data\<close>

definition MAX_CAN_WAIT_PACKET_PRELUDE_BYTES :: nat where
  "MAX_CAN_WAIT_PACKET_PRELUDE_BYTES = 12"

text \<open>The payload bytes that the current packet already has.\<close>

definition filled :: "('c, 'z) reader_scheme \<Rightarrow> nat" where
  "filled r = r_bufferEnd r - r_bufferStart r - 4"

text \<open>The \<open>catch\<close> blocks.\<close>

definition as_SendWithDataError :: "nat \<Rightarrow> ('s, exn, 'a) methodm \<Rightarrow> ('s, exn, 'a) methodm" where
  "as_SendWithDataError packetSize m = catchM m (\<lambda>e. throw (new_SendWithDataError (exn_message e) packetSize))"

definition ready_for_reader :: "bool \<Rightarrow> ('z, bool) rwm" where
  "ready_for_reader waiting r =
     (if waiting then (Inr True, r) else (Inr False, r\<lparr>r_bufferStart := 0, r_bufferEnd := 0\<rparr>))"

subsection \<open>Bytes\<close>

text \<open>The loop that sends the packets of the maximal length; it gives the rest of the data.\<close>

function full_packets :: "compressor \<Rightarrow> byte list \<Rightarrow> ('z, byte list) rwm" where
  "full_packets cz data r =
     (if 0xFFFFFF \<le> filled r + length data then
        (let dataChunkLen = 0xFFFFFF - filled r
         in bindM (setHeader 0xFFFFFF) (\<lambda>_ r. bindM (sendPackets cz (r_bufferEnd r)) (\<lambda>_.
            bindM (sendData cz None (take dataChunkLen data)) (\<lambda>_ r.
              full_packets cz (drop dataChunkLen data) (r\<lparr>r_bufferStart := 0, r_bufferEnd := 4\<rparr>))) r) r)
      else (Inr data, r))"
  by auto
termination
  by (relation "measure (\<lambda>(cz, data, r). filled r + length data)") (auto simp: filled_def)

declare full_packets.simps [simp del]

text \<open>The last packet. It gives whether the packet was left in the buffer, to be sent with the next one.\<close>

definition last_packet :: "compressor \<Rightarrow> bool \<Rightarrow> byte list \<Rightarrow> ('z, bool) rwm" where
  "last_packet cz canWait data r =
     (let packetSizeRemaining = filled r + length data
      in if r_bufferStart r + 4 + packetSizeRemaining \<le> length (r_buffer r) then
           (let r = r\<lparr>r_buffer := arr_set (r_buffer r) (r_bufferEnd r) data,
                      r_bufferEnd := r_bufferEnd r + length data\<rparr>
            in if canWait \<and> r_bufferEnd r + MAX_CAN_WAIT_PACKET_PRELUDE_BYTES \<le> length (r_buffer r) then (Inr True, r)
               else bindM (setHeader packetSizeRemaining) (\<lambda>_ r.
                      bindM (sendPackets cz (r_bufferEnd r)) (\<lambda>_. ret False) r) r)
         else bindM (setHeader packetSizeRemaining) (\<lambda>_ r. bindM (sendPackets cz (r_bufferEnd r)) (\<lambda>_ r.
                if canWait \<and> \<not> is_compressed r \<and>
                   length data + MAX_CAN_WAIT_PACKET_PRELUDE_BYTES \<le> length (r_buffer r) then
                  (Inr True, r\<lparr>r_buffer := arr_set (r_buffer r) 0 data,
                              r_bufferStart := length data, r_bufferEnd := length data\<rparr>)
                else bindM (sendData cz None data) (\<lambda>_. ret False) r) r) r)"

definition send_bytes :: "compressor \<Rightarrow> bool \<Rightarrow> byte list \<Rightarrow> ('z, bool) rwm" where
  "send_bytes cz canWait data r =
     bindM (as_SendWithDataError (filled r + length data)
             (bindM (full_packets cz data) (last_packet cz canWait))) ready_for_reader r"

subsection \<open>Strings\<close>

text \<open>
  The bytes of one packet, taken from the string: the inner loop. The state of it is the string that
  remains and the \<open>carry\<close>, the tail of a character that did not fit into the packet before.
\<close>

function string_chunk :: "compressor \<Rightarrow> nat \<Rightarrow> byte list \<Rightarrow> jsstr \<Rightarrow> ('z, byte list \<times> jsstr) rwm" where
  "string_chunk cz dataChunkLen carry data r =
     (if 0 < dataChunkLen then
        if carry \<noteq> [] then
          bindM (sendData cz None carry) (\<lambda>_. string_chunk cz (dataChunkLen - length carry) [] data) r
        else
          (let (read, written) = encode_into data (min dataChunkLen (length (r_buffer r)))
           in if written \<noteq> [] then
                bindM (sendData cz (Some 0) written) (\<lambda>_.
                  string_chunk cz (dataChunkLen - length written) [] (drop read data))
                  (r\<lparr>r_buffer := arr_set (r_buffer r) 0 written\<rparr>)
              else
                (case first_point data of
                   None \<Rightarrow> (Inl range_error, r)
                 | Some (p, k) \<Rightarrow>
                     (let char = utf8_point p; part = take dataChunkLen char
                      in bindM (sendData cz None part) (\<lambda>_.
                           string_chunk cz (dataChunkLen - length part) (drop dataChunkLen char) (drop k data)) r)))
      else (Inr (carry, data), r))"
  by pat_completeness auto
termination
  by (relation "measure (\<lambda>(cz, dataChunkLen, carry, data, r). dataChunkLen)")
    (auto intro!: diff_less simp flip: length_greater_0_conv)

declare string_chunk.simps [simp del]

function full_string_packets :: "compressor \<Rightarrow> nat \<Rightarrow> byte list \<Rightarrow> jsstr \<Rightarrow> ('z, nat \<times> byte list \<times> jsstr) rwm" where
  "full_string_packets cz dataLength carry data r =
     (if 0xFFFFFF \<le> filled r + dataLength then
        (let dataChunkLen = 0xFFFFFF - filled r
         in bindM (setHeader 0xFFFFFF) (\<lambda>_ r. bindM (sendPackets cz (r_bufferEnd r)) (\<lambda>_.
            bindM (string_chunk cz dataChunkLen carry data) (\<lambda>(carry, data) r.
              full_string_packets cz (dataLength - dataChunkLen) carry data
                (r\<lparr>r_bufferStart := 0, r_bufferEnd := 4\<rparr>))) r) r)
      else (Inr (dataLength, carry, data), r))"
  by pat_completeness auto
termination
  by (relation "measure (\<lambda>(cz, dataLength, carry, data, r). filled r + dataLength)") (auto simp: filled_def)

declare full_string_packets.simps [simp del]

text \<open>The last loop: the rest of the string, in pieces as long as the buffer.\<close>

partial_function (option) string_pieces :: "compressor \<Rightarrow> nat \<Rightarrow> jsstr \<Rightarrow> ('z rw_scheme, exn, unit) loopm" where
  "string_pieces cz dataLength data r =
     (if 0 < dataLength then
        (let (read, written) = encode_into data (min dataLength (length (r_buffer r)))
         in case sendData cz (Some 0) written (r\<lparr>r_buffer := arr_set (r_buffer r) 0 written\<rparr>) of
              (Inl e, r') \<Rightarrow> Some (Inl e, r')
            | (Inr _, r') \<Rightarrow> string_pieces cz (dataLength - length written) (drop read data) r')
      else Some (Inr (), r))"

definition last_string_packet :: "compressor \<Rightarrow> bool \<Rightarrow> nat \<times> byte list \<times> jsstr \<Rightarrow> ('z rw_scheme, exn, bool) loopm" where
  "last_string_packet cz canWait = (\<lambda>(dataLength, carry, data) r.
     let packetSizeRemaining = filled r + dataLength
     in if r_bufferStart r + 4 + packetSizeRemaining \<le> length (r_buffer r) then
          (let r = r\<lparr>r_buffer := arr_set (r_buffer r) (r_bufferEnd r) carry,
                     r_bufferEnd := r_bufferEnd r + length carry\<rparr>;
               r = writeShortString data r
           in total_of (if canWait \<and> r_bufferEnd r + MAX_CAN_WAIT_PACKET_PRELUDE_BYTES \<le> length (r_buffer r) then ret True
              else bindM (setHeader packetSizeRemaining) (\<lambda>_ r.
                     bindM (sendPackets cz (r_bufferEnd r)) (\<lambda>_. ret False) r)) r)
        else bindL (total_of (bindM (setHeader packetSizeRemaining) (\<lambda>_ r. sendPackets cz (r_bufferEnd r) r))) (\<lambda>_.
             bindL (total_of (if carry \<noteq> [] then sendData cz None carry else ret ())) (\<lambda>_.
             bindL (string_pieces cz (dataLength - length carry) data) (\<lambda>_. total_of (ret False)))) r)"

definition catchL :: "('s, 'e, 'a) loopm \<Rightarrow> ('e \<Rightarrow> 'e) \<Rightarrow> ('s, 'e, 'a) loopm" where
  "catchL m h s = (case m s of Some (Inl e, s') \<Rightarrow> Some (Inl (h e), s') | x \<Rightarrow> x)"

definition send_string :: "compressor \<Rightarrow> bool \<Rightarrow> jsstr \<Rightarrow> ('z rw_scheme, exn, bool) loopm" where
  "send_string cz canWait data r =
     (let dataLength = length data * 4;
          dataLength = (if length (r_buffer r) < r_bufferEnd r + dataLength then utf8StringLength data else dataLength)
      in if r_bufferEnd r + dataLength \<le> length (r_buffer r) then
           (let r = writeShortString data r
            in total_of (if canWait \<and> r_bufferEnd r + MAX_CAN_WAIT_PACKET_PRELUDE_BYTES \<le> length (r_buffer r) then ret True
                 else bindM (send cz) (\<lambda>_. ret False)) r)
         else
           bindL (catchL (bindL (total_of (full_string_packets cz dataLength [] data)) (last_string_packet cz canWait))
                    (\<lambda>e. new_SendWithDataError (exn_message e) (filled r + dataLength)))
             (\<lambda>waiting. total_of (ready_for_reader waiting)) r)"

subsection \<open>Streams\<close>

text \<open>
  The loop that pipes a stream. \<open>chunks\<close> is what the stream of the caller will give, as for
  \<open>reader_read\<close>; \<open>canSend\<close> bytes are left in the current packet and \<open>packetSizeRemaining\<close> behind it.
\<close>

definition stream_read :: "nat \<Rightarrow> byte list list \<Rightarrow> exn + byte list \<times> byte list list" where
  "stream_read n chunks =
     (if n = 0 then Inl (JsError (js ''TypeError''))
      else case chunks of
        [] \<Rightarrow> Inl (JsError (js ''Unexpected end of stream''))
      | c # cs \<Rightarrow> if length c \<le> n then Inr (c, cs) else Inr (take n c, drop n c # cs))"

lemma stream_read_measure:
  "stream_read (min m k) chunks = Inr (v, chunks') \<Longrightarrow>
   0 < m \<and> length v \<le> m \<and> length chunks' < length v + length chunks \<and> length chunks' \<le> length chunks"
  by (auto simp: stream_read_def neq_Nil_conv split: if_splits list.splits)

function pipe_stream :: "compressor \<Rightarrow> nat \<Rightarrow> nat \<Rightarrow> nat \<Rightarrow> byte list list \<Rightarrow> ('z, unit) rwm" where
  "pipe_stream cz packetSize canSend packetSizeRemaining chunks r =
     (case stream_read (min canSend (length (r_buffer r) - r_bufferEnd r)) chunks of
        Inl e \<Rightarrow> (Inl e, r)
      | Inr (v, chunks') \<Rightarrow>
          (let r = r\<lparr>r_buffer := arr_set (r_buffer r) (r_bufferEnd r) v\<rparr>
           in bindM (as_SendWithDataError packetSize
                      (if 0 < r_bufferEnd r then sendPackets cz (r_bufferEnd r + length v) else sendData cz (Some 0) v)) (\<lambda>_ r.
                if length v < canSend then
                  pipe_stream cz packetSize (canSend - length v) packetSizeRemaining chunks' (r\<lparr>r_bufferEnd := 0\<rparr>)
                else if packetSizeRemaining = 0 then (Inr (), r)
                else
                  (let canSend = min packetSizeRemaining 0xFFFFFF
                   in bindM (setHeader canSend) (\<lambda>_ r.
                        pipe_stream cz packetSize canSend (packetSizeRemaining - canSend) chunks'
                          (r\<lparr>r_bufferEnd := 4\<rparr>)) r)) r))"
  by pat_completeness auto
termination
  by (relation "measure (\<lambda>(cz, packetSize, canSend, packetSizeRemaining, chunks, r).
    canSend + packetSizeRemaining + length chunks)") (auto dest!: stream_read_measure)

declare pipe_stream.simps [simp del]

definition send_stream :: "compressor \<Rightarrow> bool \<Rightarrow> nat \<Rightarrow> byte list list \<Rightarrow> ('z, bool) rwm" where
  "send_stream cz canWait dataLength chunks r =
     (if dataLength = 0 then
        (if canWait \<and> r_bufferEnd r + MAX_CAN_WAIT_PACKET_PRELUDE_BYTES \<le> length (r_buffer r) then (Inr True, r)
         else bindM (send cz) (\<lambda>_. ret False) r)
      else
        (let alreadyFilled = filled r; packetSize = alreadyFilled + dataLength; canSend = min packetSize 0xFFFFFF;
             packetSizeRemaining = packetSize - canSend
         in bindM (setHeader canSend) (\<lambda>_.
            bindM (modifyM (\<lambda>r. r\<lparr>r_bufferStart := 0\<rparr>)) (\<lambda>_.
            bindM (\<lambda>r. if length (r_buffer r) < 2 * r_bufferEnd r then
                        bindM (as_SendWithDataError packetSize (sendPackets cz (r_bufferEnd r))) (\<lambda>_.
                          modifyM (\<lambda>r. r\<lparr>r_bufferEnd := 0\<rparr>)) r
                      else (Inr (), r)) (\<lambda>_.
            bindM (pipe_stream cz packetSize (canSend - alreadyFilled) packetSizeRemaining chunks) (\<lambda>_.
              ready_for_reader False)))) r))"

section \<open>sendWithData\<close>

text \<open>
  The kinds of data. \<open>SqlObject\<close> is an object of the caller that renders itself as SQL
  (\<open>toSqlBytesWithParamsBackslashAndBuffer\<close>): it may put the bytes into the rest of the buffer, or return
  others; the flag says which. A stream comes with its size (a seekable reader is asked for it).
\<close>

datatype sql_source = SqlString jsstr | SqlBytes "byte list" | SqlStream nat "byte list list" | SqlObject bool "byte list"

fun sendWithData :: "compressor \<Rightarrow> bool \<Rightarrow> sql_source \<Rightarrow> ('z rw_scheme, exn, bool) loopm" where
  "sendWithData cz canWait (SqlObject inBuffer bytes) r =
     (if inBuffer then
        total_of (bindM (send cz) (\<lambda>_. ret False))
          (r\<lparr>r_buffer := arr_set (r_buffer r) (r_bufferEnd r) bytes, r_bufferEnd := r_bufferEnd r + length bytes\<rparr>)
      else total_of (send_bytes cz canWait bytes) r)"
| "sendWithData cz canWait (SqlBytes bytes) r = total_of (send_bytes cz canWait bytes) r"
| "sendWithData cz canWait (SqlString str) r = send_string cz canWait str r"
| "sendWithData cz canWait (SqlStream len chunks) r = total_of (send_stream cz canWait len chunks) r"

end
