(* ===== verification/Doubles.thy ===== *)
theory Doubles
  imports Complex_Main Prelude
begin

text \<open>
  JavaScript numbers. A number is \<open>None\<close> (NaN) or \<open>Some q\<close> with a rational \<open>q\<close>; every arithmetic
  operation rounds its exact result to the nearest double, ties to even. Doubles beyond the largest finite one
  and the sign of zero are left out.
\<close>

section \<open>Rounding to 53 bits\<close>

function bit_length :: "int \<Rightarrow> nat" where
  "bit_length n = (if n \<le> 0 then 0 else Suc (bit_length (n div 2)))"
  by auto
termination
  by (relation "measure nat") auto

declare bit_length.simps [simp del]

lemma bit_length_0 [simp]: "n \<le> 0 \<Longrightarrow> bit_length n = 0"
  by (simp add: bit_length.simps)

lemma bit_length_double: "0 < n \<Longrightarrow> bit_length (2 * n) = Suc (bit_length n)"
  by (simp add: bit_length.simps [of "2 * n"])

lemma bit_length_1 [simp]: "bit_length 1 = 1"
  by (simp add: bit_length.simps)

lemma bit_length_power: "bit_length (2 ^ k) = Suc k"
  by (induction k) (simp_all add: bit_length_double)

lemma bit_length_le: "n < 2 ^ k \<Longrightarrow> bit_length n \<le> k"
proof (induction k arbitrary: n)
  case (Suc k)
  then have "n div 2 < 2 ^ k" by simp
  from Suc.IH [OF this] show ?case
    by (simp add: bit_length.simps [of n])
qed simp

definition pow2 :: "int \<Rightarrow> rat" where
  "pow2 k = (if 0 \<le> k then 2 ^ nat k else 1 / 2 ^ nat (- k))"

definition round_even :: "rat \<Rightarrow> int" where
  "round_even q =
     (let f = \<lfloor>q\<rfloor>; d = q - of_int f
      in if d < 1 / 2 then f else if 1 / 2 < d then f + 1 else if even f then f else f + 1)"

text \<open>The exponent of the last of the 53 bits.\<close>

definition double_exp :: "rat \<Rightarrow> int" where
  "double_exp q =
     (let (n, d) = quotient_of \<bar>q\<bar>;
          k = int (bit_length n) - int (bit_length d) - 53
      in max (-1074) (if \<bar>q\<bar> / pow2 k < 2 ^ 53 then k else k + 1))"

definition double :: "rat \<Rightarrow> rat" where
  "double q = (if q = 0 then 0 else of_int (round_even (q / pow2 (double_exp q))) * pow2 (double_exp q))"

lemma round_even_int [simp]: "round_even (of_int n) = n"
  by (simp add: round_even_def)

lemma pow2_pos: "0 < pow2 k"
  by (simp add: pow2_def)

lemma double_int:
  assumes "\<bar>n\<bar> < 2 ^ 53"
  shows "double (of_int n) = of_int n"
proof (cases "n = 0")
  case False
  let ?b = "bit_length \<bar>n\<bar>"
  have q: "quotient_of \<bar>of_int n\<bar> = (\<bar>n\<bar>, 1)"
    by (simp flip: of_int_abs)
  have "?b \<le> 53"
    using assms by (rule bit_length_le)
  then have eb: "double_exp (of_int n) \<le> 0"
    by (simp add: double_exp_def q Let_def)
  then have "of_int n / pow2 (double_exp (of_int n)) = of_int (n * 2 ^ nat (- double_exp (of_int n)))"
    by (auto simp: pow2_def)
  then have "round_even (of_int n / pow2 (double_exp (of_int n))) = n * 2 ^ nat (- double_exp (of_int n))"
    by (metis round_even_int)
  then show ?thesis
    using eb False by (auto simp: double_def pow2_def)
qed (simp add: double_def)

lemma double_nat: "n < 2 ^ 53 \<Longrightarrow> double (of_nat n) = of_nat n"
  using double_int [of "int n"] by simp

section \<open>Numbers\<close>

type_synonym num = "rat option"

fun num_op :: "(rat \<Rightarrow> rat \<Rightarrow> rat) \<Rightarrow> num \<Rightarrow> num \<Rightarrow> num" where
  "num_op f (Some a) (Some b) = Some (double (f a b))"
| "num_op f _ _ = None"

abbreviation num_add :: "num \<Rightarrow> num \<Rightarrow> num" where "num_add \<equiv> num_op (+)"
abbreviation num_sub :: "num \<Rightarrow> num \<Rightarrow> num" where "num_sub \<equiv> num_op (-)"
abbreviation num_mul :: "num \<Rightarrow> num \<Rightarrow> num" where "num_mul \<equiv> num_op (*)"

definition num_neg :: "num \<Rightarrow> num" where
  "num_neg = map_option uminus"

text \<open>Division of numbers, by a number that is not 0.\<close>

abbreviation num_div :: "num \<Rightarrow> num \<Rightarrow> num" where "num_div \<equiv> num_op (/)"

text \<open>\<open>Math.trunc()\<close>, and the integer that a typed array or a \<open>DataView\<close> takes for a number.\<close>

definition trunc :: "rat \<Rightarrow> int" where
  "trunc q = (if 0 \<le> q then \<lfloor>q\<rfloor> else \<lceil>q\<rceil>)"

definition to_integer :: "num \<Rightarrow> int" where
  "to_integer x = (case x of None \<Rightarrow> 0 | Some q \<Rightarrow> trunc q)"

lemma trunc_int [simp]: "trunc (of_int n) = n"
  by (simp add: trunc_def)

end
