(* ===== verification/Constants.thy ===== *)
theory Constants
  imports Prelude
begin

text \<open>
  The constants of \<open>src/private/constants.ts\<close> that decide how a column travels: the types of columns, the flag
  of unsigned columns, the character set of binary data; then the flags, packet types, commands and error codes that
  the protocol tests.
\<close>

named_theorems type_ids

definition MYSQL_TYPE_DECIMAL :: nat where [type_ids]: "MYSQL_TYPE_DECIMAL = 0"
definition MYSQL_TYPE_TINY :: nat where [type_ids]: "MYSQL_TYPE_TINY = 1"
definition MYSQL_TYPE_SHORT :: nat where [type_ids]: "MYSQL_TYPE_SHORT = 2"
definition MYSQL_TYPE_LONG :: nat where [type_ids]: "MYSQL_TYPE_LONG = 3"
definition MYSQL_TYPE_FLOAT :: nat where [type_ids]: "MYSQL_TYPE_FLOAT = 4"
definition MYSQL_TYPE_DOUBLE :: nat where [type_ids]: "MYSQL_TYPE_DOUBLE = 5"
definition MYSQL_TYPE_NULL :: nat where [type_ids]: "MYSQL_TYPE_NULL = 6"
definition MYSQL_TYPE_TIMESTAMP :: nat where [type_ids]: "MYSQL_TYPE_TIMESTAMP = 7"
definition MYSQL_TYPE_LONGLONG :: nat where [type_ids]: "MYSQL_TYPE_LONGLONG = 8"
definition MYSQL_TYPE_INT24 :: nat where [type_ids]: "MYSQL_TYPE_INT24 = 9"
definition MYSQL_TYPE_DATE :: nat where [type_ids]: "MYSQL_TYPE_DATE = 10"
definition MYSQL_TYPE_TIME :: nat where [type_ids]: "MYSQL_TYPE_TIME = 11"
definition MYSQL_TYPE_DATETIME :: nat where [type_ids]: "MYSQL_TYPE_DATETIME = 12"
definition MYSQL_TYPE_YEAR :: nat where [type_ids]: "MYSQL_TYPE_YEAR = 13"
definition MYSQL_TYPE_VARCHAR :: nat where [type_ids]: "MYSQL_TYPE_VARCHAR = 15"
definition MYSQL_TYPE_BIT :: nat where [type_ids]: "MYSQL_TYPE_BIT = 16"
definition MYSQL_TYPE_JSON :: nat where [type_ids]: "MYSQL_TYPE_JSON = 245"
definition MYSQL_TYPE_NEWDECIMAL :: nat where [type_ids]: "MYSQL_TYPE_NEWDECIMAL = 246"
definition MYSQL_TYPE_LONG_BLOB :: nat where [type_ids]: "MYSQL_TYPE_LONG_BLOB = 251"
definition MYSQL_TYPE_VAR_STRING :: nat where [type_ids]: "MYSQL_TYPE_VAR_STRING = 253"

definition MYSQL_TYPE_STRING :: nat where [type_ids]: "MYSQL_TYPE_STRING = 254"

definition COLUMN_UNSIGNED :: nat where [type_ids]: "COLUMN_UNSIGNED = 32"

definition CHARSET_BINARY :: nat where [type_ids]: "CHARSET_BINARY = 63"

text \<open>The flags, packet types and commands of the protocol.\<close>

named_theorems protocol_ids

definition CLIENT_MYSQL :: int where [protocol_ids]: "CLIENT_MYSQL = 1"
definition CLIENT_LONG_PASSWORD :: int where [protocol_ids]: "CLIENT_LONG_PASSWORD = 1"
definition CLIENT_FOUND_ROWS :: int where [protocol_ids]: "CLIENT_FOUND_ROWS = 2"
definition CLIENT_LONG_FLAG :: int where [protocol_ids]: "CLIENT_LONG_FLAG = 4"
definition CLIENT_CONNECT_WITH_DB :: int where [protocol_ids]: "CLIENT_CONNECT_WITH_DB = 8"
definition CLIENT_COMPRESS :: int where [protocol_ids]: "CLIENT_COMPRESS = 32"
definition CLIENT_LOCAL_FILES :: int where [protocol_ids]: "CLIENT_LOCAL_FILES = 128"
definition CLIENT_IGNORE_SPACE :: int where [protocol_ids]: "CLIENT_IGNORE_SPACE = 256"
definition CLIENT_PROTOCOL_41 :: int where [protocol_ids]: "CLIENT_PROTOCOL_41 = 512"
definition CLIENT_SSL :: int where [protocol_ids]: "CLIENT_SSL = 2048"
definition CLIENT_TRANSACTIONS :: int where [protocol_ids]: "CLIENT_TRANSACTIONS = 8192"
definition CLIENT_SECURE_CONNECTION :: int where [protocol_ids]: "CLIENT_SECURE_CONNECTION = 32768"
definition CLIENT_MULTI_STATEMENTS :: int where [protocol_ids]: "CLIENT_MULTI_STATEMENTS = 65536"
definition CLIENT_MULTI_RESULTS :: int where [protocol_ids]: "CLIENT_MULTI_RESULTS = 131072"
definition CLIENT_PS_MULTI_RESULTS :: int where [protocol_ids]: "CLIENT_PS_MULTI_RESULTS = 262144"
definition CLIENT_PLUGIN_AUTH :: int where [protocol_ids]: "CLIENT_PLUGIN_AUTH = 524288"
definition CLIENT_PLUGIN_AUTH_LENENC_CLIENT_DATA :: int where [protocol_ids]: "CLIENT_PLUGIN_AUTH_LENENC_CLIENT_DATA = 2097152"
definition CLIENT_SESSION_TRACK :: int where [protocol_ids]: "CLIENT_SESSION_TRACK = 8388608"
definition CLIENT_DEPRECATE_EOF :: int where [protocol_ids]: "CLIENT_DEPRECATE_EOF = 16777216"
definition CLIENT_ZSTD_COMPRESSION_ALGORITHM :: int where [protocol_ids]: "CLIENT_ZSTD_COMPRESSION_ALGORITHM = 67108864"

definition MARIADB_CLIENT_EXTENDED_METADATA :: int where [protocol_ids]: "MARIADB_CLIENT_EXTENDED_METADATA = 4"

definition FORMAT_NAME :: nat where [protocol_ids]: "FORMAT_NAME = 1"

definition SERVER_STATUS_IN_TRANS :: int where [protocol_ids]: "SERVER_STATUS_IN_TRANS = 1"
definition SERVER_STATUS_AUTOCOMMIT :: int where [protocol_ids]: "SERVER_STATUS_AUTOCOMMIT = 2"
definition SERVER_MORE_RESULTS_EXISTS :: int where [protocol_ids]: "SERVER_MORE_RESULTS_EXISTS = 8"
definition SERVER_STATUS_NO_GOOD_INDEX_USED :: int where [protocol_ids]: "SERVER_STATUS_NO_GOOD_INDEX_USED = 0x10"
definition SERVER_STATUS_NO_INDEX_USED :: int where [protocol_ids]: "SERVER_STATUS_NO_INDEX_USED = 0x20"
definition SERVER_QUERY_WAS_SLOW :: int where [protocol_ids]: "SERVER_QUERY_WAS_SLOW = 0x800"
definition SERVER_SESSION_STATE_CHANGED :: int where [protocol_ids]: "SERVER_SESSION_STATE_CHANGED = 0x4000"

definition PACKET_OK :: int where [protocol_ids]: "PACKET_OK = 0"
definition PACKET_AUTH_NEXT_FACTOR :: int where [protocol_ids]: "PACKET_AUTH_NEXT_FACTOR = 2"
definition PACKET_EOF :: int where [protocol_ids]: "PACKET_EOF = 0xFE"
definition PACKET_ERR :: int where [protocol_ids]: "PACKET_ERR = 0xFF"
definition PACKET_NULL_OR_LOCAL_INFILE :: int where [protocol_ids]: "PACKET_NULL_OR_LOCAL_INFILE = 0xFB"
definition PACKET_UINT16 :: int where [protocol_ids]: "PACKET_UINT16 = 0xFC"
definition PACKET_UINT24 :: int where [protocol_ids]: "PACKET_UINT24 = 0xFD"
definition PACKET_UINT64 :: int where [protocol_ids]: "PACKET_UINT64 = 0xFE"

definition COM_QUIT :: int where [protocol_ids]: "COM_QUIT = 1"
definition COM_INIT_DB :: int where [protocol_ids]: "COM_INIT_DB = 2"
definition COM_QUERY :: int where [protocol_ids]: "COM_QUERY = 3"
definition COM_STMT_PREPARE :: int where [protocol_ids]: "COM_STMT_PREPARE = 22"
definition COM_STMT_EXECUTE :: int where [protocol_ids]: "COM_STMT_EXECUTE = 23"
definition COM_STMT_SEND_LONG_DATA :: int where [protocol_ids]: "COM_STMT_SEND_LONG_DATA = 24"
definition COM_STMT_CLOSE :: int where [protocol_ids]: "COM_STMT_CLOSE = 25"
definition COM_SET_OPTION :: int where [protocol_ids]: "COM_SET_OPTION = 27"
definition COM_RESET_CONNECTION :: int where [protocol_ids]: "COM_RESET_CONNECTION = 31"

definition MULTI_STATEMENTS_ON :: int where [protocol_ids]: "MULTI_STATEMENTS_ON = 0"
definition MULTI_STATEMENTS_OFF :: int where [protocol_ids]: "MULTI_STATEMENTS_OFF = 1"

definition TRACK_SYSTEM_VARIABLES :: int where [protocol_ids]: "TRACK_SYSTEM_VARIABLES = 0"
definition TRACK_SCHEMA :: int where [protocol_ids]: "TRACK_SCHEMA = 1"

definition ER_NO_SUCH_THREAD :: nat where [protocol_ids]: "ER_NO_SUCH_THREAD = 1094"
definition ER_XAER_NOTA :: nat where [protocol_ids]: "ER_XAER_NOTA = 1397"
definition DEFAULT_CHARACTER_SET_CLIENT :: int where [protocol_ids]: "DEFAULT_CHARACTER_SET_CLIENT = 192"

end
