(* ===== verification/ConvColumnValue.thy ===== *)
theory ConvColumnValue
  imports Doubles Constants Errors
begin

text \<open>
  \<open>src/private/conv_column_value.ts\<close>: the values of the text protocol, and a date as the text of a
  parameter. What the host provides is an argument: the time zone rules behind the local \<open>Date\<close>,
  \<open>JSON.parse()\<close>, and \<open>10 ** x\<close>, which ECMAScript leaves to the implementation.
\<close>

section \<open>Values\<close>

datatype json = JNull | JBool bool | JNum num | JStr jsstr | JArr "json list" | JObj "(jsstr \<times> json) list"

text \<open>A date is its time value, in milliseconds, \<open>None\<close> for an invalid one.\<close>

datatype js_value =
  VNull | VBool bool | VNum num | VBigInt int | VStr jsstr | VBytes "byte list" | VDate num | VJson json

record host =
  h_pow10 :: "num \<Rightarrow> num"
  h_local_time :: "num list \<Rightarrow> num"
  h_json_parse :: "jsstr \<Rightarrow> exn + json"

text \<open>\<open>new Date(year, month, day, hour, minute, second, ms)\<close>: years 0 to 99 mean 1900 to 1999.\<close>

definition new_Date :: "host \<Rightarrow> num \<Rightarrow> num \<Rightarrow> num \<Rightarrow> num \<Rightarrow> num \<Rightarrow> num \<Rightarrow> num \<Rightarrow> num" where
  "new_Date h year month day hour minute second ms =
     (let y = map_option trunc year;
          y = (case y of Some k \<Rightarrow> if 0 \<le> k \<and> k \<le> 99 then Some (1900 + k) else Some k | None \<Rightarrow> None)
      in h_local_time h (map (map_option (\<lambda>q. of_int (trunc q)))
           [map_option of_int y, month, day, hour, minute, second, ms]))"

section \<open>Numbers\<close>

definition C_MINUS :: byte where "C_MINUS = 45"
definition C_ZERO :: byte where "C_ZERO = 48"
definition C_SPACE :: byte where "C_SPACE = 32"
definition C_COLON :: byte where "C_COLON = 58"
definition C_DOT :: byte where "C_DOT = 46"
definition C_E :: byte where "C_E = 101"
definition C_E_CAP :: byte where "C_E_CAP = 69"

lemmas char_codes = C_MINUS_def C_ZERO_def C_SPACE_def C_COLON_def C_DOT_def C_E_def C_E_CAP_def

text \<open>\<open>c - C_ZERO\<close>, and the same for \<open>value[i]\<close>, which is undefined beyond the end.\<close>

definition digit :: "byte \<Rightarrow> num" where
  "digit c = Some (of_int (int (unat c) - 48))"

definition digit_at :: "byte list \<Rightarrow> nat \<Rightarrow> num" where
  "digit_at v i = (if i < length v then digit (v ! i) else None)"

definition is_at :: "byte list \<Rightarrow> nat \<Rightarrow> byte \<Rightarrow> bool" where
  "is_at v i c \<longleftrightarrow> i < length v \<and> v ! i = c"

definition shift_digit :: "num \<Rightarrow> num \<Rightarrow> num" where
  "shift_digit result d = num_add (num_mul result (Some 10)) d"

definition sign :: "bool \<Rightarrow> num \<Rightarrow> num" where
  "sign isNegative x = (if isNegative then num_neg x else x)"

definition dataToInt :: "byte list \<Rightarrow> num" where
  "dataToInt v =
     (let isNegative = is_at v 0 C_MINUS; i = (if isNegative then 1 else 0)
      in sign isNegative (foldl (\<lambda>result c. shift_digit result (digit c)) (digit_at v i) (drop (Suc i) v)))"

fun number_loop :: "num \<Rightarrow> num \<Rightarrow> num \<Rightarrow> byte list \<Rightarrow> num \<times> num" where
  "number_loop result exponent inc [] = (result, exponent)"
| "number_loop result exponent inc (c # cs) =
     (if c = C_DOT then number_loop result exponent (Some (-1)) cs
      else if c = C_E \<or> c = C_E_CAP then (result, num_add exponent (dataToInt cs))
      else number_loop (shift_digit result (digit c)) (num_add exponent inc) inc cs)"

definition dataToNumber :: "host \<Rightarrow> byte list \<Rightarrow> num" where
  "dataToNumber h v =
     (let isNegative = is_at v 0 C_MINUS;
          (result, exponent) = number_loop (Some 0) (Some 0) (Some 0) (if isNegative then tl v else v);
          result = (if exponent = None \<or> exponent = Some 0 then result else num_mul result (h_pow10 h exponent))
      in sign isNegative result)"

section \<open>Time and date\<close>

text \<open>The digits of the fraction, without the trailing zeros, from the last one.\<close>

definition fraction :: "byte list \<Rightarrow> num" where
  "fraction ds =
     foldl (\<lambda>frac c. num_div (num_add frac (digit c)) (Some 10)) (Some 0)
       (dropWhile (\<lambda>c. c = C_ZERO) (rev ds))"

definition dataToTime :: "byte list \<Rightarrow> num" where
  "dataToTime v =
     (let isNegative = is_at v 0 C_MINUS;
          i = (if isNegative then 1 else 0);
          hours = shift_digit (digit_at v i) (digit_at v (i + 1));
          i = i + 2;
          (hours, i) = (if \<not> is_at v i C_COLON then (shift_digit hours (digit_at v i), i + 1) else (hours, i));
          i = i + 1;
          minutes = shift_digit (digit_at v i) (digit_at v (i + 1));
          i = i + 2;
          minutes = num_add minutes (num_mul hours (Some 60));
          i = i + 1;
          seconds = shift_digit (digit_at v i) (digit_at v (i + 1));
          i = i + 2;
          seconds = num_add seconds (num_mul minutes (Some 60));
          seconds = (if is_at v i C_DOT then num_add seconds (fraction (drop (i + 1) v)) else seconds)
      in sign isNegative seconds)"

text \<open>\<open>value.indexOf(c, start)\<close>, \<open>None\<close> for -1; \<open>value.subarray(a, -1)\<close> ends before the last byte.\<close>

definition index_of :: "byte list \<Rightarrow> byte \<Rightarrow> nat \<Rightarrow> nat option" where
  "index_of v c start =
     (let n = length (takeWhile (\<lambda>x. x \<noteq> c) (drop start v))
      in if start + n < length v then Some (start + n) else None)"

definition upto_index :: "byte list \<Rightarrow> nat \<Rightarrow> nat option \<Rightarrow> byte list" where
  "upto_index v a i = subarray v a (case i of Some k \<Rightarrow> k | None \<Rightarrow> length v - 1)"

text \<open>\<open>i + 1\<close> for the result of \<open>indexOf()\<close>.\<close>

definition after_index :: "nat option \<Rightarrow> nat" where
  "after_index i = (case i of Some k \<Rightarrow> k + 1 | None \<Rightarrow> 0)"

definition dataToDate :: "host \<Rightarrow> byte list \<Rightarrow> num \<Rightarrow> num" where
  "dataToDate h v timezoneMsecOffsetFromSystem =
     (let pos = index_of v C_MINUS 1;
          year = dataToInt (upto_index v 0 pos);
          pos = after_index pos;
          pos2 = index_of v C_MINUS pos;
          month = dataToInt (upto_index v pos pos2);
          pos = after_index pos2;
          (day, hour, minute, second, frac) =
            (case index_of v C_SPACE pos of
               None \<Rightarrow> (dataToInt (drop pos v), Some 0, Some 0, Some 0, Some 0)
             | Some pos2 \<Rightarrow>
                 (let day = dataToInt (subarray v pos pos2);
                      pos = pos2 + 1;
                      pos2 = index_of v C_COLON pos;
                      hour = dataToInt (upto_index v pos pos2);
                      pos = after_index pos2
                  in case index_of v C_COLON pos of
                       None \<Rightarrow> (day, hour, dataToInt (drop pos v), Some 0, Some 0)
                     | Some pos2 \<Rightarrow>
                         (let minute = dataToInt (subarray v pos pos2);
                              pos = pos2 + 1
                          in case index_of v C_DOT pos of
                               None \<Rightarrow> (day, hour, minute, dataToInt (drop pos v), Some 0)
                             | Some pos2 \<Rightarrow>
                                 (day, hour, minute, dataToInt (subarray v pos pos2), dataToNumber h (drop pos2 v)))));
          date = new_Date h year (num_sub month (Some 1)) day hour minute second (num_mul frac (Some 1000))
      in if timezoneMsecOffsetFromSystem \<noteq> Some 0 then num_sub date timezoneMsecOffsetFromSystem else date)"

section \<open>A column of the text protocol\<close>

definition NONSAFE_INTEGER_MIN_LEN :: nat where "NONSAFE_INTEGER_MIN_LEN = 15"

definition MAX_SAFE_INTEGER :: int where "MAX_SAFE_INTEGER = 2 ^ 53 - 1"

definition bigint_digit :: "byte \<Rightarrow> int" where "bigint_digit c = int (unat c) - 48"

definition dataToBigInt :: "byte list \<Rightarrow> int" where
  "dataToBigInt v =
     (let isNegative = is_at v 0 C_MINUS; i = (if isNegative then 1 else 0);
          result = foldl (\<lambda>result c. result * 10 + bigint_digit c) (bigint_digit (v ! i)) (drop (Suc i) v)
      in if isNegative then - result else result)"

definition int_types :: "nat set" where
  "int_types = {MYSQL_TYPE_LONGLONG, MYSQL_TYPE_TINY, MYSQL_TYPE_SHORT, MYSQL_TYPE_LONG, MYSQL_TYPE_INT24, MYSQL_TYPE_YEAR}"

definition date_types :: "nat set" where
  "date_types = {MYSQL_TYPE_DATE, MYSQL_TYPE_DATETIME, MYSQL_TYPE_TIMESTAMP}"

definition convColumnValue ::
  "host \<Rightarrow> byte list \<Rightarrow> nat \<Rightarrow> nat \<Rightarrow> (byte list \<Rightarrow> jsstr) \<Rightarrow> bool \<Rightarrow> bool \<Rightarrow> bool \<Rightarrow> num \<Rightarrow> exn + js_value" where
  "convColumnValue h v typ charsetId decode jsonAsString datesAsString isForSerialize tz =
     (if typ = MYSQL_TYPE_NULL then Inr VNull
      else if typ = MYSQL_TYPE_BIT then Inr (VBool (list_ex (\<lambda>b. b \<noteq> 0) v))
      else if typ = MYSQL_TYPE_DOUBLE \<or> typ = MYSQL_TYPE_FLOAT then Inr (VNum (dataToNumber h v))
      else if typ = MYSQL_TYPE_LONGLONG \<and> NONSAFE_INTEGER_MIN_LEN < length v \<and> MAX_SAFE_INTEGER < \<bar>dataToBigInt v\<bar> then
        Inr (VBigInt (dataToBigInt v))
      else if typ \<in> int_types then Inr (VNum (dataToInt v))
      else if typ = MYSQL_TYPE_JSON then
        (if isForSerialize then Inr (VBytes v) else if jsonAsString then Inr (VStr (decode v))
         else map_sum id VJson (h_json_parse h (decode v)))
      else if typ \<in> date_types then
        (if datesAsString then Inr (VStr (decode v)) else Inr (VDate (dataToDate h v tz)))
      else if typ = MYSQL_TYPE_TIME then Inr (VNum (dataToTime v))
      else if charsetId = CHARSET_BINARY \<and> typ \<noteq> MYSQL_TYPE_NEWDECIMAL \<and> typ \<noteq> MYSQL_TYPE_DECIMAL \<or> isForSerialize then
        Inr (VBytes v)
      else Inr (VStr (decode v)))"

section \<open>A date as text\<close>

text \<open>The local fields of a date: year, month (from 1), day, hour, minute, second, milliseconds.\<close>

record date_fields =
  d_year :: int
  d_month :: int
  d_day :: int
  d_hour :: int
  d_minute :: int
  d_second :: int
  d_milli :: int

definition zero_plus :: "int \<Rightarrow> byte" where
  "zero_plus k = word_of_int (48 + k)"

text \<open>The chains of tests that write a number of two digits; \<open>most\<close> is the last digit that they test for.\<close>

definition two_digits :: "int \<Rightarrow> int \<Rightarrow> byte list" where
  "two_digits most k =
     (let tens = (if k < 10 then 0 else if k < 20 \<or> most = 1 then 1 else if k < 30 \<or> most = 2 then 2
                  else if k < 40 \<or> most = 3 then 3 else if k < 50 \<or> most = 4 then 4 else 5)
      in [zero_plus tens, zero_plus (k - 10 * tens)])"

text \<open>Division and remainder of JavaScript truncate.\<close>

definition tdiv10 :: "int \<Rightarrow> int" where "tdiv10 k = sgn k * (\<bar>k\<bar> div 10)"
definition tmod10 :: "int \<Rightarrow> int" where "tmod10 k = sgn k * (\<bar>k\<bar> mod 10)"

definition dateToData :: "date_fields \<Rightarrow> byte list" where
  "dateToData d =
     (let y = d_year d; y1 = tdiv10 y; y2 = tdiv10 y1; y3 = tdiv10 y2; ms = d_milli d; m1 = tdiv10 ms
      in [zero_plus y3, zero_plus (tmod10 y2), zero_plus (tmod10 y1), zero_plus (tmod10 y), C_MINUS]
         @ two_digits 1 (d_month d) @ [C_MINUS] @ two_digits 3 (d_day d) @ [C_SPACE]
         @ two_digits 2 (d_hour d) @ [C_COLON] @ two_digits 5 (d_minute d) @ [C_COLON] @ two_digits 5 (d_second d)
         @ (if ms \<noteq> 0 then [C_DOT, zero_plus (tdiv10 m1), zero_plus (tmod10 m1), zero_plus (tmod10 ms)] else []))"


section \<open>Decimal digits\<close>

definition is_digit :: "byte \<Rightarrow> bool" where
  "is_digit c \<longleftrightarrow> 48 \<le> unat c \<and> unat c \<le> 57"

definition dec_from :: "nat \<Rightarrow> byte list \<Rightarrow> nat" where
  "dec_from a ds = foldl (\<lambda>r c. r * 10 + (unat c - 48)) a ds"

definition ascii :: "string \<Rightarrow> byte list" where
  "ascii cs = map of_char cs"

definition show_int :: "int \<Rightarrow> string" where
  "show_int n = (if n < 0 then CHR ''-'' # show_nat (nat (- n)) else show_nat (nat n))"

lemma dec_from_simps [simp]:
  "dec_from a [] = a" "dec_from a (c # cs) = dec_from (a * 10 + (unat c - 48)) cs"
  "dec_from a (cs @ [c]) = dec_from a cs * 10 + (unat c - 48)"
  by (simp_all add: dec_from_def)

lemma dec_from_ge: "a \<le> dec_from a ds"
proof (induction ds arbitrary: a)
  case (Cons c ds)
  have "a \<le> a * 10 + (unat c - 48)" by simp
  also have "\<dots> \<le> dec_from (a * 10 + (unat c - 48)) ds" by (rule Cons.IH)
  finally show ?case by simp
qed simp

lemma digit_of: "is_digit c \<Longrightarrow> digit c = Some (of_nat (unat c - 48))"
  by (auto simp: digit_def is_digit_def of_nat_diff)

lemma shift_digit_exact:
  "a * 10 + d < 2 ^ 53 \<Longrightarrow> shift_digit (Some (of_nat a)) (Some (of_nat d)) = Some (of_nat (a * 10 + d))"
  using double_nat [of "a * 10"] double_nat [of "a * 10 + d"] by (simp add: shift_digit_def)

lemma digits_exact:
  assumes "list_all is_digit ds" "dec_from a ds < 2 ^ 53"
  shows "foldl (\<lambda>result c. shift_digit result (digit c)) (Some (of_nat a)) ds = Some (of_nat (dec_from a ds))"
  using assms
proof (induction ds arbitrary: a)
  case (Cons c ds)
  have "a * 10 + (unat c - 48) < 2 ^ 53"
    using Cons.prems(2) dec_from_ge [of "a * 10 + (unat c - 48)" ds] by simp
  then show ?case
    using Cons.prems Cons.IH [of "a * 10 + (unat c - 48)"]
    by (simp add: digit_of shift_digit_exact del: of_nat_add of_nat_mult)
qed simp

lemma dataToInt_digits:
  assumes "list_all is_digit ds" "ds \<noteq> []" "dec_from 0 ds < 2 ^ 53"
  shows "dataToInt ds = Some (of_nat (dec_from 0 ds))"
    and "dataToInt (C_MINUS # ds) = Some (- of_nat (dec_from 0 ds))"
proof -
  obtain c cs where ds: "ds = c # cs" using assms(2) by (cases ds) auto
  then have "\<not> is_at ds 0 C_MINUS"
    using assms(1) by (auto simp: is_at_def is_digit_def C_MINUS_def)
  moreover have "foldl (\<lambda>result c. shift_digit result (digit c)) (digit c) cs = Some (of_nat (dec_from 0 ds))"
    using digits_exact [of cs "unat c - 48"] assms ds by (simp add: digit_of)
  ultimately show "dataToInt ds = Some (of_nat (dec_from 0 ds))"
    "dataToInt (C_MINUS # ds) = Some (- of_nat (dec_from 0 ds))"
    using ds by (simp_all add: dataToInt_def sign_def digit_at_def num_neg_def is_at_def)
qed

lemma dataToBigInt_digits:
  assumes "list_all is_digit ds" "ds \<noteq> []"
  shows "dataToBigInt ds = int (dec_from 0 ds)" "dataToBigInt (C_MINUS # ds) = - int (dec_from 0 ds)"
proof -
  have f: "foldl (\<lambda>result c. result * 10 + bigint_digit c) (int a) cs = int (dec_from a cs)"
    if "list_all is_digit cs" for a cs
    using that
  proof (induction cs arbitrary: a)
    case (Cons c cs)
    then have "int a * 10 + bigint_digit c = int (a * 10 + (unat c - 48))"
      by (simp add: bigint_digit_def is_digit_def of_nat_diff)
    with Cons show ?case by (simp del: of_nat_add of_nat_mult)
  qed simp
  obtain c cs where ds: "ds = c # cs" using assms(2) by (cases ds) auto
  then have "\<not> is_at ds 0 C_MINUS"
    using assms(1) by (auto simp: is_at_def is_digit_def C_MINUS_def)
  moreover have "bigint_digit c = int (unat c - 48)"
    using assms(1) ds by (simp add: bigint_digit_def is_digit_def of_nat_diff)
  ultimately show "dataToBigInt ds = int (dec_from 0 ds)" "dataToBigInt (C_MINUS # ds) = - int (dec_from 0 ds)"
    using ds f [of cs "unat c - 48"] assms(1) by (simp_all add: dataToBigInt_def is_at_def)
qed

lemma show_nat_digits: "list_all is_digit (ascii (show_nat n)) \<and> dec_from 0 (ascii (show_nat n)) = n"
proof (induction n rule: less_induct)
  case (less n)
  have d: "unat (of_char (digit_char k) :: byte) = 48 + k" if "k < 10" for k
  proof -
    have "k = 0 \<or> k = 1 \<or> k = 2 \<or> k = 3 \<or> k = 4 \<or> k = 5 \<or> k = 6 \<or> k = 7 \<or> k = 8 \<or> k = 9"
      using that by presburger
    then show ?thesis
      by (elim disjE) (simp_all add: digit_char_def char_of_def of_char_def bit_0)
  qed
  then have dd: "is_digit (of_char (digit_char k))" if "k < 10" for k
    using that by (simp add: is_digit_def)
  show ?case
  proof (cases "n < 10")
    case True
    then show ?thesis
      by (simp add: show_radix.simps [of 10 n] ascii_def d dd)
  next
    case False
    then have "list_all is_digit (ascii (show_nat (n div 10))) \<and> dec_from 0 (ascii (show_nat (n div 10))) = n div 10"
      by (intro less.IH) simp
    with False show ?thesis
      by (simp add: show_radix.simps [of 10 n] ascii_def d dd)
  qed
qed


lemma dec_from_less: "list_all is_digit ds \<Longrightarrow> dec_from a ds < (a + 1) * 10 ^ length ds"
proof (induction ds arbitrary: a)
  case (Cons c ds)
  have "unat c - 48 \<le> 9"
    using Cons.prems by (auto simp: is_digit_def)
  then have "(a * 10 + (unat c - 48) + 1) * 10 ^ length ds \<le> (a * 10 + 10) * 10 ^ length ds"
    by (intro mult_le_mono1) simp
  with Cons.IH [of "a * 10 + (unat c - 48)"] Cons.prems show ?case
    by (simp add: algebra_simps)
qed simp

lemma ascii_show_int:
  "ascii (show_int n) = (if n < 0 then C_MINUS # ascii (show_nat (nat \<bar>n\<bar>)) else ascii (show_nat (nat \<bar>n\<bar>)))"
  by (simp add: show_int_def ascii_def C_MINUS_def of_char_def)

lemma ascii_nonempty: "ascii (show_nat n) \<noteq> []"
  by (simp add: ascii_def)

lemma dataToInt_show:
  assumes "\<bar>n\<bar> < 2 ^ 53"
  shows "dataToInt (ascii (show_int n)) = Some (of_int n)"
proof -
  have "nat \<bar>n\<bar> < 2 ^ 53"
    using assms by (simp add: nat_less_iff)
  then show ?thesis
    using dataToInt_digits [of "ascii (show_nat (nat \<bar>n\<bar>))"] show_nat_digits [of "nat \<bar>n\<bar>"]
    by (auto simp: ascii_show_int ascii_nonempty of_nat_nat)
qed

lemma dataToBigInt_show: "dataToBigInt (ascii (show_int n)) = n"
  using dataToBigInt_digits [of "ascii (show_nat (nat \<bar>n\<bar>))"] show_nat_digits [of "nat \<bar>n\<bar>"]
  by (auto simp: ascii_show_int ascii_nonempty)

lemma short_is_safe:
  assumes "length (ascii (show_int n)) \<le> NONSAFE_INTEGER_MIN_LEN"
  shows "\<bar>n\<bar> \<le> MAX_SAFE_INTEGER"
proof -
  let ?ds = "ascii (show_nat (nat \<bar>n\<bar>))"
  have "length ?ds \<le> 15"
    using assms by (auto simp: ascii_show_int NONSAFE_INTEGER_MIN_LEN_def split: if_splits)
  then have "(10::nat) ^ length ?ds \<le> 10 ^ 15"
    by (intro power_increasing) auto
  moreover have "nat \<bar>n\<bar> < 10 ^ length ?ds"
    using dec_from_less [of ?ds 0] show_nat_digits [of "nat \<bar>n\<bar>"] by simp
  ultimately have "nat \<bar>n\<bar> < 10 ^ 15"
    by linarith
  then show ?thesis
    by (simp add: MAX_SAFE_INTEGER_def)
qed

section \<open>Dates\<close>

definition date_ok :: "date_fields \<Rightarrow> bool" where
  "date_ok d \<longleftrightarrow> 0 \<le> d_year d \<and> d_year d \<le> 9999 \<and> 1 \<le> d_month d \<and> d_month d \<le> 12 \<and>
     1 \<le> d_day d \<and> d_day d \<le> 31 \<and> 0 \<le> d_hour d \<and> d_hour d \<le> 23 \<and> 0 \<le> d_minute d \<and> d_minute d \<le> 59 \<and>
     0 \<le> d_second d \<and> d_second d \<le> 59 \<and> 0 \<le> d_milli d \<and> d_milli d \<le> 999"

lemma zero_plus_digit: "0 \<le> k \<Longrightarrow> k \<le> 9 \<Longrightarrow> unat (zero_plus k) = 48 + nat k"
  by (simp add: zero_plus_def unsigned_of_int nat_add_distrib take_bit_eq_mod del: of_int_add)

lemma zero_plus_other: "0 \<le> k \<Longrightarrow> k \<le> 9 \<Longrightarrow> zero_plus k \<noteq> C_MINUS \<and> zero_plus k \<noteq> C_SPACE \<and> zero_plus k \<noteq> C_COLON \<and> zero_plus k \<noteq> C_DOT"
  using zero_plus_digit [of k] by (auto simp: char_codes)

lemma two_digits_eq:
  assumes "0 \<le> k" "k \<le> 10 * most + 9" "0 \<le> most" "most \<le> 5"
  shows "two_digits most k = [zero_plus (k div 10), zero_plus (k mod 10)]"
proof -
  define t where "t = k div 10"
  define u where "u = k mod 10"
  have k: "k = 10 * t + u" "0 \<le> u" "u \<le> 9"
    unfolding t_def u_def using pos_mod_bound [of 10 k] by simp_all
  have t: "0 \<le> t" "t \<le> most"
    using assms k by linarith+
  consider "t = 0" | "t = 1" | "t = 2" | "t = 3" | "t = 4" | "t = 5"
    using t assms(4) by linarith
  then have "two_digits most k = [zero_plus t, zero_plus u]"
    using k t by cases (simp_all add: two_digits_def)
  then show ?thesis
    by (simp add: t_def u_def)
qed

text \<open>The number that the digits of a field give.\<close>

lemma zero_plus_dec:
  "list_all (\<lambda>k. 0 \<le> k \<and> k \<le> 9) ks \<Longrightarrow>
   list_all is_digit (map zero_plus ks) \<and> int (dec_from a (map zero_plus ks)) = foldl (\<lambda>r k. r * 10 + k) (int a) ks"
proof (induction ks arbitrary: a)
  case (Cons k ks)
  then show ?case
    by (auto simp: is_digit_def zero_plus_digit)
qed simp

lemma zero_plus_int:
  assumes "list_all (\<lambda>k. 0 \<le> k \<and> k \<le> 9) ks" "ks \<noteq> []" "foldl (\<lambda>r k. r * 10 + k) 0 ks = n" "n < 2 ^ 53"
  shows "dataToInt (map zero_plus ks) = Some (of_int n)"
proof -
  have z: "list_all is_digit (map zero_plus ks)" "int (dec_from 0 (map zero_plus ks)) = n"
    using zero_plus_dec [OF assms(1), of 0] assms(3) by simp_all
  then have "dec_from 0 (map zero_plus ks) < 2 ^ 53"
    using assms(4) by (metis of_nat_less_iff of_nat_numeral of_nat_power)
  then show ?thesis
    using dataToInt_digits(1) [OF z(1)] z(2) assms(2) by (metis map_is_Nil_conv of_int_of_nat_eq)
qed

lemma mod10_bounds: "0 \<le> k mod (10::int)" "k mod (10::int) \<le> 9"
  using pos_mod_bound [of 10 k] by simp_all

lemma two_digits_int:
  assumes "0 \<le> k" "k \<le> 99"
  shows "dataToInt [zero_plus (k div 10), zero_plus (k mod 10)] = Some (of_int k)"
proof -
  have "0 \<le> k div 10" "k div 10 \<le> 9" using assms by linarith+
  then show ?thesis
    using zero_plus_int [of "[k div 10, k mod 10]" k] mod10_bounds [of k] assms by simp
qed

lemma year_digits:
  assumes "0 \<le> a" "a \<le> 9" "0 \<le> b" "b \<le> 9" "0 \<le> c" "c \<le> 9" "0 \<le> d" "d \<le> 9"
  shows "dataToInt [zero_plus a, zero_plus b, zero_plus c, zero_plus d] = Some (of_int (((a * 10 + b) * 10 + c) * 10 + d))"
  using zero_plus_int [of "[a, b, c, d]" "((a * 10 + b) * 10 + c) * 10 + d"] assms by simp

lemma div10_bounds:
  "0 \<le> k \<Longrightarrow> 0 \<le> k div (10::int)" "k \<le> 9999 \<Longrightarrow> k div (10::int) \<le> 999"
  "k \<le> 999 \<Longrightarrow> k div (10::int) \<le> 99" "k \<le> 99 \<Longrightarrow> k div (10::int) \<le> 9"
  by linarith+

lemma year_int:
  assumes "0 \<le> y" "y \<le> 9999"
  shows "dataToInt [zero_plus (y div 10 div 10 div 10), zero_plus (y div 10 div 10 mod 10), zero_plus (y div 10 mod 10), zero_plus (y mod 10)]
    = Some (of_int y)"
proof -
  note 1 = div10_bounds(1) [OF assms(1)] div10_bounds(2) [OF assms(2)]
  note 2 = div10_bounds(1) [OF 1(1)] div10_bounds(3) [OF 1(2)]
  note 3 = div10_bounds(1) [OF 2(1)] div10_bounds(4) [OF 2(2)]
  from year_digits [OF 3 mod10_bounds mod10_bounds mod10_bounds, of "y div 10 div 10" "y div 10" y]
  show ?thesis by (simp only: div_mult_mod_eq)
qed

lemma milli_digits:
  assumes "0 \<le> a" "a \<le> 9" "0 \<le> b" "b \<le> 9" "0 \<le> c" "c \<le> 9"
  shows "dataToNumber h [C_DOT, zero_plus a, zero_plus b, zero_plus c] =
    num_mul (Some (of_int ((a * 10 + b) * 10 + c))) (h_pow10 h (Some (-3)))"
proof -
  have z: "zero_plus k \<noteq> C_DOT \<and> zero_plus k \<noteq> C_E \<and> zero_plus k \<noteq> C_E_CAP \<and>
      digit (zero_plus k) = Some (of_int k)" if "0 \<le> k" "k \<le> 9" for k
    using that zero_plus_digit [of k] by (auto simp: char_codes digit_def)
  have s: "shift_digit (Some (of_int x)) (Some (of_int k)) = Some (of_int (x * 10 + k))" if "0 \<le> x" "x \<le> 99" "0 \<le> k" "k \<le> 9" for x k
  proof -
    have "nat x * 10 + nat k < 2 ^ 53"
      using that by simp
    moreover have "rat_of_nat (nat x) = of_int x" "rat_of_nat (nat k) = of_int k"
      "rat_of_nat (nat x * 10 + nat k) = of_int (x * 10 + k)"
      using that by simp_all
    ultimately show ?thesis
      using shift_digit_exact [of "nat x" "nat k"] by simp
  qed
  have e: "num_add (Some (- 1)) (Some (- 1)) = Some (- 2)" "num_add (Some (- 2)) (Some (- 1)) = Some (- 3)"
    "num_add (Some 0) (Some (- 1)) = Some (- 1)"
    using double_int [of "- 2"] double_int [of "- 3"] double_int [of "- 1"] by simp_all
  have "shift_digit (Some 0) (Some (of_int a)) = Some (of_int a)"
    using s [of 0 a] assms by simp
  moreover have "shift_digit (Some (of_int a)) (Some (of_int b)) = Some (of_int (a * 10 + b))"
    using assms by (intro s) auto
  moreover have "shift_digit (Some (of_int (a * 10 + b))) (Some (of_int c)) = Some (of_int ((a * 10 + b) * 10 + c))"
    using assms by (intro s) auto
  ultimately show ?thesis
    using z [OF assms(1,2)] z [OF assms(3,4)] z [OF assms(5,6)]
    by (simp add: dataToNumber_def is_at_def sign_def e C_DOT_def C_MINUS_def del: num_op.simps of_int_add of_int_mult)
qed

lemma milli_number:
  assumes "1 \<le> m" "m \<le> 999"
  shows "dataToNumber h [C_DOT, zero_plus (m div 10 div 10), zero_plus (m div 10 mod 10), zero_plus (m mod 10)] =
    num_mul (Some (of_int m)) (h_pow10 h (Some (-3)))"
proof -
  have "0 \<le> m" "m \<le> 999" using assms by simp_all
  note 1 = div10_bounds(1) [OF this(1)] div10_bounds(3) [OF this(2)]
  note 2 = div10_bounds(1) [OF 1(1)] div10_bounds(4) [OF 1(2)]
  from milli_digits [OF 2 mod10_bounds mod10_bounds, of h "m div 10" m]
  show ?thesis by (simp only: div_mult_mod_eq)
qed

lemma tdiv10_nonneg: "0 \<le> k \<Longrightarrow> tdiv10 k = k div 10" "0 \<le> k \<Longrightarrow> tmod10 k = k mod 10"
  by (cases "k = 0"; simp add: tdiv10_def tmod10_def)+

text \<open>The positions of the separators, as \<open>dataToDate()\<close> looks for them.\<close>

lemma date_separators:
  fixes tail
  defines "v ds \<equiv> take 4 ds @ [C_MINUS] @ take 2 (drop 4 ds) @ [C_MINUS] @ take 2 (drop 6 ds) @ [C_SPACE]
    @ take 2 (drop 8 ds) @ [C_COLON] @ take 2 (drop 10 ds) @ [C_COLON] @ drop 12 ds @ tail"
  assumes ds: "length ds = 14" "\<forall>c \<in> set ds. c \<noteq> C_MINUS \<and> c \<noteq> C_SPACE \<and> c \<noteq> C_COLON \<and> c \<noteq> C_DOT"
    and tail: "tail = [] \<or> (\<exists>t. tail = C_DOT # t)"
  shows "index_of (v ds) C_MINUS 1 = Some 4" "index_of (v ds) C_MINUS 5 = Some 7" "index_of (v ds) C_SPACE 8 = Some 10"
    "index_of (v ds) C_COLON 11 = Some 13" "index_of (v ds) C_COLON 14 = Some 16"
    "index_of (v ds) C_DOT 17 = (if tail = [] then None else Some 19)"
    "subarray (v ds) 0 4 = take 4 ds" "subarray (v ds) 5 7 = take 2 (drop 4 ds)" "subarray (v ds) 8 10 = take 2 (drop 6 ds)"
    "subarray (v ds) 11 13 = take 2 (drop 8 ds)" "subarray (v ds) 14 16 = take 2 (drop 10 ds)"
    "subarray (v ds) 17 19 = drop 12 ds" "drop 17 (v ds) = drop 12 ds @ tail" "drop 19 (v ds) = tail"
proof -
  obtain a b c d e f g h i j k l m n where "ds = [a, b, c, d, e, f, g, h, i, j, k, l, m, n]"
    using ds(1) by (auto simp: length_Suc_conv eval_nat_numeral)
  then have e: "ds = [a, b, c, d, e, f, g, h, i, j, k, l, m, n]" .
  have v: "v ds = [a, b, c, d, C_MINUS, e, f, C_MINUS, g, h, C_SPACE, i, j, C_COLON, k, l, C_COLON, m, n] @ tail"
    by (simp add: v_def e)
  note simps = index_of_def subarray_def Let_def
  have o: "a \<noteq> C_MINUS" "b \<noteq> C_MINUS" "c \<noteq> C_MINUS" "d \<noteq> C_MINUS" "e \<noteq> C_MINUS" "f \<noteq> C_MINUS"
    "g \<noteq> C_SPACE" "h \<noteq> C_SPACE" "i \<noteq> C_COLON" "j \<noteq> C_COLON" "k \<noteq> C_COLON" "l \<noteq> C_COLON" "m \<noteq> C_DOT" "n \<noteq> C_DOT"
    using ds(2) by (simp_all add: e)
  show "index_of (v ds) C_MINUS 1 = Some 4" "index_of (v ds) C_MINUS 5 = Some 7" "index_of (v ds) C_SPACE 8 = Some 10"
    "index_of (v ds) C_COLON 11 = Some 13" "index_of (v ds) C_COLON 14 = Some 16"
    unfolding v by (simp_all add: simps o)
  show "index_of (v ds) C_DOT 17 = (if tail = [] then None else Some 19)"
    using tail unfolding v by (elim disjE exE) (simp_all add: simps o)
  show "subarray (v ds) 0 4 = take 4 ds" "subarray (v ds) 5 7 = take 2 (drop 4 ds)" "subarray (v ds) 8 10 = take 2 (drop 6 ds)"
    "subarray (v ds) 11 13 = take 2 (drop 8 ds)" "subarray (v ds) 14 16 = take 2 (drop 10 ds)"
    "subarray (v ds) 17 19 = drop 12 ds" "drop 17 (v ds) = drop 12 ds @ tail" "drop 19 (v ds) = tail"
    unfolding v unfolding e by (simp_all add: simps)
qed


text \<open>The text of a date, with the separators at their places.\<close>

definition date_digits :: "date_fields \<Rightarrow> byte list" where
  "date_digits d =
     [zero_plus (d_year d div 10 div 10 div 10), zero_plus (d_year d div 10 div 10 mod 10),
      zero_plus (d_year d div 10 mod 10), zero_plus (d_year d mod 10),
      zero_plus (d_month d div 10), zero_plus (d_month d mod 10), zero_plus (d_day d div 10), zero_plus (d_day d mod 10),
      zero_plus (d_hour d div 10), zero_plus (d_hour d mod 10), zero_plus (d_minute d div 10), zero_plus (d_minute d mod 10),
      zero_plus (d_second d div 10), zero_plus (d_second d mod 10)]"

definition date_tail :: "date_fields \<Rightarrow> byte list" where
  "date_tail d =
     (if d_milli d = 0 then []
      else [C_DOT, zero_plus (d_milli d div 10 div 10), zero_plus (d_milli d div 10 mod 10), zero_plus (d_milli d mod 10)])"

lemma date_digits_other:
  assumes "date_ok d" "c \<in> set (date_digits d)"
  shows "c \<noteq> C_MINUS \<and> c \<noteq> C_SPACE \<and> c \<noteq> C_COLON \<and> c \<noteq> C_DOT"
proof -
  have y: "0 \<le> d_year d" "d_year d \<le> 9999" using assms(1) by (simp_all add: date_ok_def)
  note y1 = div10_bounds(1) [OF y(1)] div10_bounds(2) [OF y(2)]
  note y2 = div10_bounds(1) [OF y1(1)] div10_bounds(3) [OF y1(2)]
  note y3 = div10_bounds(1) [OF y2(1)] div10_bounds(4) [OF y2(2)]
  have tens: "0 \<le> k div 10 \<and> k div 10 \<le> 9" if "0 \<le> k" "k \<le> 99" for k :: int
    using div10_bounds(1) [OF that(1)] div10_bounds(4) [OF that(2)] by simp
  have r: "0 \<le> d_month d" "d_month d \<le> 99" "0 \<le> d_day d" "d_day d \<le> 99" "0 \<le> d_hour d" "d_hour d \<le> 99"
      "0 \<le> d_minute d" "d_minute d \<le> 99" "0 \<le> d_second d" "d_second d \<le> 99"
    using assms(1) by (simp_all add: date_ok_def)
  let ?P = "\<lambda>k. 0 \<le> k \<and> k \<le> (9::int)"
  have "list_all ?P
     [d_year d div 10 div 10 div 10, d_year d div 10 div 10 mod 10, d_year d div 10 mod 10, d_year d mod 10,
      d_month d div 10, d_month d mod 10, d_day d div 10, d_day d mod 10, d_hour d div 10, d_hour d mod 10,
      d_minute d div 10, d_minute d mod 10, d_second d div 10, d_second d mod 10]" (is "list_all ?P ?ks")
    by (simp only: list.pred_inject mod10_bounds y3 simp_thms tens [OF r(1,2)] tens [OF r(3,4)] tens [OF r(5,6)]
        tens [OF r(7,8)] tens [OF r(9,10)])
  moreover have "date_digits d = map zero_plus ?ks"
    by (simp only: date_digits_def list.map)
  ultimately have "\<exists>k. 0 \<le> k \<and> k \<le> 9 \<and> c = zero_plus k"
  proof -
    obtain k where "k \<in> set ?ks" "c = zero_plus k"
      using assms(2) unfolding \<open>date_digits d = map zero_plus ?ks\<close> set_map by (rule imageE)
    with \<open>list_all ?P ?ks\<close> show ?thesis
      unfolding list_all_iff by blast
  qed
  then show ?thesis
    using zero_plus_other by auto
qed

lemma dateToData_text:
  assumes "date_ok d"
  shows "dateToData d = take 4 (date_digits d) @ [C_MINUS] @ take 2 (drop 4 (date_digits d)) @ [C_MINUS] @
    take 2 (drop 6 (date_digits d)) @ [C_SPACE] @ take 2 (drop 8 (date_digits d)) @ [C_COLON] @
    take 2 (drop 10 (date_digits d)) @ [C_COLON] @ drop 12 (date_digits d) @ date_tail d"
proof -
  have y: "0 \<le> d_year d" and m: "0 \<le> d_milli d" using assms by (simp_all add: date_ok_def)
  note y1 = div10_bounds(1) [OF y] and m1 = div10_bounds(1) [OF m]
  note y2 = div10_bounds(1) [OF y1]
  have t: "two_digits 1 (d_month d) = [zero_plus (d_month d div 10), zero_plus (d_month d mod 10)]"
    "two_digits 3 (d_day d) = [zero_plus (d_day d div 10), zero_plus (d_day d mod 10)]"
    "two_digits 2 (d_hour d) = [zero_plus (d_hour d div 10), zero_plus (d_hour d mod 10)]"
    "two_digits 5 (d_minute d) = [zero_plus (d_minute d div 10), zero_plus (d_minute d mod 10)]"
    "two_digits 5 (d_second d) = [zero_plus (d_second d div 10), zero_plus (d_second d mod 10)]"
    using assms by (simp_all add: date_ok_def two_digits_eq)
  show ?thesis
    unfolding dateToData_def Let_def t date_digits_def date_tail_def
    by (simp only: tdiv10_nonneg y y1 y2 m m1) simp
qed

text \<open>Reading the text gives the fields to the \<open>Date\<close> constructor; the milliseconds are a product of doubles.\<close>

lemma dataToDate_dateToData:
  assumes "date_ok d"
  shows "dataToDate h (dateToData d) (Some 0) =
    new_Date h (Some (of_int (d_year d))) (Some (of_int (d_month d - 1))) (Some (of_int (d_day d)))
      (Some (of_int (d_hour d))) (Some (of_int (d_minute d))) (Some (of_int (d_second d)))
      (if d_milli d = 0 then Some 0
       else num_mul (num_mul (Some (of_int (d_milli d))) (h_pow10 h (Some (-3)))) (Some 1000))"
proof -
  have tail: "date_tail d = [] \<or> (\<exists>t. date_tail d = C_DOT # t)"
    by (simp add: date_tail_def)
  have len: "length (date_digits d) = 14"
    by (simp add: date_digits_def)
  note sep = date_separators [OF len _ tail, folded dateToData_text [OF assms]]
  have other: "\<forall>c \<in> set (date_digits d). c \<noteq> C_MINUS \<and> c \<noteq> C_SPACE \<and> c \<noteq> C_COLON \<and> c \<noteq> C_DOT"
    using date_digits_other [OF assms] by blast
  note s = sep [OF other]
  have b: "0 \<le> d_year d" "d_year d \<le> 9999" "0 \<le> d_month d" "d_month d \<le> 99" "0 \<le> d_day d" "d_day d \<le> 99"
    "0 \<le> d_hour d" "d_hour d \<le> 99" "0 \<le> d_minute d" "d_minute d \<le> 99" "0 \<le> d_second d" "d_second d \<le> 99"
    "0 \<le> d_milli d" "d_milli d \<le> 999"
    using assms by (simp_all add: date_ok_def)
  have f: "dataToInt (take 4 (date_digits d)) = Some (of_int (d_year d))"
    "dataToInt (take 2 (drop 4 (date_digits d))) = Some (of_int (d_month d))"
    "dataToInt (take 2 (drop 6 (date_digits d))) = Some (of_int (d_day d))"
    "dataToInt (take 2 (drop 8 (date_digits d))) = Some (of_int (d_hour d))"
    "dataToInt (take 2 (drop 10 (date_digits d))) = Some (of_int (d_minute d))"
    "dataToInt (drop 12 (date_digits d)) = Some (of_int (d_second d))"
    using b by (simp_all add: date_digits_def year_int two_digits_int)
  have month: "num_sub (Some (of_int (d_month d))) (Some 1) = Some (of_int (d_month d - 1))"
    using double_int [of "d_month d - 1"] b(3,4) by simp
  have ms: "dataToNumber h (date_tail d) = num_mul (Some (of_int (d_milli d))) (h_pow10 h (Some (-3)))" if "d_milli d \<noteq> 0"
    using that b(13,14) milli_number [of "d_milli d" h] by (simp add: date_tail_def)
  have z: "num_mul (Some 0) (Some 1000) = Some 0"
    by (simp add: double_def)
  have t0: "date_tail d = [] \<longleftrightarrow> d_milli d = 0"
    by (simp add: date_tail_def)
  show ?thesis
  proof (cases "d_milli d = 0")
    case True
    then have "dataToInt (drop 12 (date_digits d) @ date_tail d) = Some (of_int (d_second d))"
      using f(6) by (simp add: date_tail_def)
    with True show ?thesis
      by (simp add: dataToDate_def upto_index_def after_index_def Let_def s f month z t0 del: num_op.simps of_int_diff One_nat_def subarray_0)
  next
    case False
    then show ?thesis
      by (simp add: dataToDate_def upto_index_def after_index_def Let_def s f month ms t0 del: num_op.simps of_int_diff One_nat_def subarray_0)
  qed
qed


section \<open>Fractions\<close>

text \<open>The digits of a fraction are multiplied by a power of ten, itself a rounded double, and rounded again.\<close>

lemma number_loop_03:
  "number_loop (Some 0) (Some 0) (Some 0) (ascii ''0.3'') = (Some 3, Some (- 1))"
  by code_simp

lemma number_loop_007000:
  "number_loop (Some 0) (Some 0) (Some 0) (ascii ''.007000'') = (Some 7000, Some (- 6))"
  by code_simp

lemma three_tenths: "double (3 * double (1 / 10)) \<noteq> double (3 / 10)"
  by code_simp

lemma seven_milliseconds: "trunc (double (double (7000 * double (1 / 1000000)) * 1000)) = 6"
  by code_simp

end
