(* ===== verification/Serializer.thy ===== *)
theory Serializer
  imports "HOL-Library.AList" SendData ConvColumnValue
begin

text \<open>
  \<open>src/private/my_protocol_reader_writer_serializer.ts\<close>: rows in the format of the binary protocol, written to
  and read from a stream, and rows of the text protocol.
\<close>

section \<open>Columns, rows and the host\<close>

record column =
  c_typeId :: nat
  c_flags :: nat
  c_charsetId :: nat
  c_name :: jsstr

datatype row_type =
  ROW_OBJECT | ROW_LAST_COLUMN_READER | ROW_LAST_COLUMN_READABLE | ROW_MAP | ROW_ARRAY | ROW_FIRST_COLUMN | ROW_VOID

text \<open>
  What the host adds to the model of \<open>ConvColumnValue\<close>: \<open>Number()\<close> and \<open>String()\<close> of values that are neither
  numbers nor dates, the local fields of a date (year, month from 0, day, hour, minute, second, millisecond), and
  the bit patterns of 32-bit and 64-bit floats.
\<close>

record env = host +
  e_to_number :: "js_value \<Rightarrow> num"
  e_to_string :: "js_value \<Rightarrow> jsstr"
  e_date_fields :: "num \<Rightarrow> num list"
  e_f32_bits :: "num \<Rightarrow> nat"
  e_f64_bits :: "num \<Rightarrow> nat"
  e_f32_value :: "nat \<Rightarrow> num"
  e_f64_value :: "nat \<Rightarrow> num"

abbreviation env_host :: "env \<Rightarrow> host" where
  "env_host \<equiv> host.truncate"

fun to_Number :: "env \<Rightarrow> js_value \<Rightarrow> num" where
  "to_Number e VNull = Some 0"
| "to_Number e (VBool b) = Some (if b then 1 else 0)"
| "to_Number e (VNum n) = n"
| "to_Number e (VBigInt n) = Some (double (of_int n))"
| "to_Number e (VDate t) = t"
| "to_Number e v = e_to_number e v"

fun to_String :: "env \<Rightarrow> js_value \<Rightarrow> jsstr" where
  "to_String e (VStr s) = s"
| "to_String e v = e_to_string e v"

text \<open>\<open>typeof(value)=='bigint' ? value : BigInt(Number(value))\<close>\<close>

fun to_BigInt :: "env \<Rightarrow> js_value \<Rightarrow> exn + int" where
  "to_BigInt e (VBigInt n) = Inr n"
| "to_BigInt e v = (case to_Number e v of
      None \<Rightarrow> Inl range_error
    | Some q \<Rightarrow> if of_int (trunc q) = q then Inr (trunc q) else Inl range_error)"

definition is_unsigned :: "column \<Rightarrow> bool" where
  "is_unsigned c = (odd (c_flags c div COLUMN_UNSIGNED))"

section \<open>\<open>parseInt\<close>\<close>

definition is_space :: "16 word \<Rightarrow> bool" where
  "is_space c \<longleftrightarrow> unat c \<in> {9, 10, 11, 12, 13, 32, 0xA0, 0x1680, 0x2028, 0x2029, 0x202F, 0x205F, 0x3000, 0xFEFF} \<or>
     0x2000 \<le> unat c \<and> unat c \<le> 0x200A"

definition char_digit :: "nat \<Rightarrow> 16 word \<Rightarrow> nat option" where
  "char_digit radix c =
     (let k = unat c;
          d = (if 48 \<le> k \<and> k \<le> 57 then k - 48 else if 97 \<le> k \<and> k \<le> 122 then k - 87
               else if 65 \<le> k \<and> k \<le> 90 then k - 55 else 99)
      in if d < radix then Some d else None)"

fun parse_digits :: "nat \<Rightarrow> nat \<Rightarrow> jsstr \<Rightarrow> nat" where
  "parse_digits radix acc [] = acc"
| "parse_digits radix acc (c # cs) =
     (case char_digit radix c of None \<Rightarrow> acc | Some d \<Rightarrow> parse_digits radix (acc * radix + d) cs)"

definition parse_number :: "nat \<Rightarrow> jsstr \<Rightarrow> num" where
  "parse_number radix s =
     (case s of
        [] \<Rightarrow> None
      | c # _ \<Rightarrow> (case char_digit radix c of None \<Rightarrow> None | Some _ \<Rightarrow> Some (double (of_nat (parse_digits radix 0 s)))))"

definition parseInt :: "jsstr \<Rightarrow> num" where
  "parseInt s =
     (let s = dropWhile is_space s;
          isNegative = (take 1 s = js ''-'');
          s = (if isNegative \<or> take 1 s = js ''+'' then drop 1 s else s)
      in sign isNegative
           (if take 2 s = js ''0x'' \<or> take 2 s = js ''0X'' then parse_number 16 (drop 2 s) else parse_number 10 s))"

section \<open>Writing a row\<close>

definition write_num :: "(int \<Rightarrow> ('c, 'z, unit) rdm) \<Rightarrow> num \<Rightarrow> ('c, 'z, unit) rdm" where
  "write_num w x = w (to_integer x)"

text \<open>The loop over the values that collects the bits of the nulls, eight to a byte.\<close>

fun null_mask_loop :: "byte \<Rightarrow> byte \<Rightarrow> js_value list \<Rightarrow> ('c, 'z) reader_scheme \<Rightarrow> ('c, 'z) reader_scheme" where
  "null_mask_loop nullMask nullBit [] r = (if nullBit \<noteq> 1 then write_element nullMask r else r)"
| "null_mask_loop nullMask nullBit (v # vs) r =
     (let nullMask = (if v = VNull then nullMask OR nullBit else nullMask)
      in if nullBit = 0x80 then null_mask_loop 0 1 vs (write_element nullMask r)
         else null_mask_loop nullMask (push_bit 1 nullBit) vs r)"

text \<open>Year, month, day, hour, minute, second and microseconds of a date column.\<close>

definition date_parts :: "env \<Rightarrow> bool \<Rightarrow> num \<Rightarrow> js_value \<Rightarrow> num list" where
  "date_parts e datesAsString tz v =
     (if \<not> datesAsString then
        (let t = (case v of VDate t \<Rightarrow> t | _ \<Rightarrow> Some 0);
             t = (if tz \<noteq> Some 0 then num_add t tz else t)
         in if t \<noteq> Some 0 then
              (let f = e_date_fields e t
               in [f ! 0, num_add (f ! 1) (Some 1), f ! 2, f ! 3, f ! 4, f ! 5, num_mul (f ! 6) (Some 1000)])
            else replicate 7 (Some 0))
      else
        (let str = to_String e v; part = (\<lambda>a b. parseInt (subarray str a b))
         in [part 0 4, part 5 7, part 8 10] @
            (if 11 < length str then
               [part 11 13, part 14 16, part 17 19, if 20 < length str then parseInt (drop 20 str) else Some 0]
             else replicate 4 (Some 0))))"

definition write_date :: "num list \<Rightarrow> ('c, 'z, unit) rdm" where
  "write_date f =
     (let len = (if f ! 6 \<noteq> Some 0 then 11 else if num_add (num_add (f ! 3) (f ! 4)) (f ! 5) \<noteq> Some 0 then 7
                 else if num_add (num_add (f ! 0) (f ! 1)) (f ! 2) \<noteq> Some 0 then 4 else 0 :: int)
      in bindM (writeUint8 len) (\<lambda>_.
         if 4 \<le> len then
           bindM (write_num writeUint16 (f ! 0)) (\<lambda>_. bindM (write_num writeUint8 (f ! 1)) (\<lambda>_.
           bindM (write_num writeUint8 (f ! 2)) (\<lambda>_.
           if 7 \<le> len then
             bindM (write_num writeUint8 (f ! 3)) (\<lambda>_. bindM (write_num writeUint8 (f ! 4)) (\<lambda>_.
             bindM (write_num writeUint8 (f ! 5)) (\<lambda>_.
             if 11 \<le> len then write_num writeUint32 (f ! 6) else ret ())))
           else ret ())))
         else ret ()))"

text \<open>\<open>Math.trunc(x)\<close>, \<open>Math.trunc(x / 60)\<close> and \<open>x % n\<close> of numbers that are not negative.\<close>

definition num_trunc :: "num \<Rightarrow> num" where "num_trunc x = map_option (\<lambda>q. of_int (trunc q)) x"
definition num_mod :: "num \<Rightarrow> int \<Rightarrow> num" where "num_mod x n = map_option (\<lambda>q. of_int (trunc q mod n)) x"

definition write_time :: "num \<Rightarrow> ('c, 'z, unit) rdm" where
  "write_time num =
     (if num = Some 0 then writeUint8 0
      else
        (let isNegative = (case num of Some q \<Rightarrow> q < 0 | None \<Rightarrow> False);
             num = (if isNegative then num_neg num else num);
             micro = num_mod (num_trunc (num_mul num (Some 1000000))) 1000000;
             num = num_trunc num;
             seconds = num_mod num 60;
             num = num_trunc (num_div num (Some 60));
             minutes = num_mod num 60;
             num = num_trunc (num_div num (Some 60));
             hours = num_mod num 24;
             days = num_trunc (num_div num (Some 24))
         in bindM (writeUint8 (if micro \<noteq> Some 0 then 12 else 8)) (\<lambda>_.
            bindM (writeUint8 (if isNegative then 1 else 0)) (\<lambda>_.
            bindM (write_num writeUint32 days) (\<lambda>_.
            bindM (write_num writeUint8 hours) (\<lambda>_.
            bindM (write_num writeUint8 minutes) (\<lambda>_.
            bindM (write_num writeUint8 seconds) (\<lambda>_.
            if micro \<noteq> Some 0 then write_num writeUint32 micro else ret ()))))))))"

definition blob_of :: "js_value \<Rightarrow> byte list" where
  "blob_of v = (case v of VBytes bs \<Rightarrow> bs | VStr s \<Rightarrow> utf8_encode s | _ \<Rightarrow> [])"

definition write_blob :: "compressor \<Rightarrow> bool \<Rightarrow> byte list \<Rightarrow> ('z, unit) rwm" where
  "write_blob cz isLast v =
     bindM (writeLenencInt (int (length v))) (\<lambda>_ r.
       if r_bufferEnd r + length v \<le> length (r_buffer r) then write_bytes v r
       else if \<not> isLast then write_bytes v (ensureRoom (length v) r)
       else bindM (send_bytes cz False v) (\<lambda>_. startWritingNewPacket False) r)"

definition write_bigint :: "env \<Rightarrow> (int \<Rightarrow> ('c, 'z, unit) rdm) \<Rightarrow> js_value \<Rightarrow> ('c, 'z, unit) rdm" where
  "write_bigint e w v = (case to_BigInt e v of Inl err \<Rightarrow> throw err | Inr n \<Rightarrow> w n)"

definition write_column :: "env \<Rightarrow> compressor \<Rightarrow> bool \<Rightarrow> num \<Rightarrow> bool \<Rightarrow> column \<Rightarrow> js_value \<Rightarrow> ('z, unit) rwm" where
  "write_column e cz datesAsString tz isLast c v =
     (let typ = c_typeId c; n = to_Number e v
      in if v = VNull then ret ()
         else if typ = MYSQL_TYPE_TINY then write_num (if is_unsigned c then writeUint8 else writeInt8) n
         else if typ = MYSQL_TYPE_SHORT \<or> typ = MYSQL_TYPE_YEAR then
           write_num (if is_unsigned c then writeUint16 else writeInt16) n
         else if typ = MYSQL_TYPE_INT24 \<or> typ = MYSQL_TYPE_LONG then
           write_num (if is_unsigned c then writeUint32 else writeInt32) n
         else if typ = MYSQL_TYPE_LONGLONG then write_bigint e (if is_unsigned c then writeUint64 else writeInt64) v
         else if typ = MYSQL_TYPE_FLOAT then writeFloat (e_f32_bits e n)
         else if typ = MYSQL_TYPE_DOUBLE then writeDouble (e_f64_bits e n)
         else if typ \<in> date_types then write_date (date_parts e datesAsString tz v)
         else if typ = MYSQL_TYPE_TIME then write_time n
         else if typ = MYSQL_TYPE_BIT then writeUint16 (if n \<noteq> None \<and> n \<noteq> Some 0 then 0x0101 else 0x0001)
         else write_blob cz isLast (blob_of v))"

text \<open>The loop over the values; the caller gives as many columns as values.\<close>

fun write_columns :: "env \<Rightarrow> compressor \<Rightarrow> bool \<Rightarrow> num \<Rightarrow> (column \<times> js_value) list \<Rightarrow> ('z, unit) rwm" where
  "write_columns e cz ds tz [] = ret ()"
| "write_columns e cz ds tz ((c, v) # cvs) =
     bindM (write_column e cz ds tz (cvs = []) c v) (\<lambda>_. write_columns e cz ds tz cvs)"

definition maybe_flush :: "compressor \<Rightarrow> ('z, unit) rwm" where
  "maybe_flush cz r =
     (if length (r_buffer r) \<le> 2 * (r_bufferEnd r - 4) then bindM (send cz) (\<lambda>_. startWritingNewPacket False) r
      else (Inr (), r))"

definition serializeRowBinary :: "env \<Rightarrow> compressor \<Rightarrow> js_value list \<Rightarrow> column list \<Rightarrow> bool \<Rightarrow> num \<Rightarrow> ('z, unit) rwm" where
  "serializeRowBinary e cz row columns datesAsString tz =
     bindM (modifyM (null_mask_loop 0 4 row)) (\<lambda>_.
     bindM (write_columns e cz datesAsString tz (zip columns row)) (\<lambda>_. maybe_flush cz))"

definition serializeBegin :: "('z, unit) rwm" where
  "serializeBegin = startWritingNewPacket False"

definition serializeEnd :: "compressor \<Rightarrow> ('z, unit) rwm" where
  "serializeEnd cz r =
     (if 4 < r_bufferEnd r then send cz r else (Inr (), r\<lparr>r_bufferStart := 0, r_bufferEnd := 0\<rparr>))"


section \<open>Reading a row\<close>

text \<open>
  What becomes of the values: an object and a map are lists of names and values in the order of insertion; of an
  object with names like array indices only the order differs.
\<close>

datatype row =
  RowObject "(jsstr \<times> js_value) list" | RowMap "(jsstr \<times> js_value) list" | RowArray "js_value list" | RowValue "js_value option"

fun empty_row :: "row_type \<Rightarrow> row" where
  "empty_row ROW_MAP = RowMap []"
| "empty_row ROW_ARRAY = RowArray []"
| "empty_row ROW_FIRST_COLUMN = RowValue None"
| "empty_row ROW_VOID = RowValue None"
| "empty_row _ = RowObject []"

text \<open>\<open>name\<close> and \<open>value\<close> of column \<open>i\<close>.\<close>

definition put_value :: "row_type \<Rightarrow> nat \<Rightarrow> jsstr \<Rightarrow> js_value \<Rightarrow> row \<Rightarrow> row" where
  "put_value rowType i name v row =
     (case row of
        RowObject xs \<Rightarrow> RowObject (AList.update name v xs)
      | RowMap xs \<Rightarrow> RowMap (AList.update name v xs)
      | RowArray vs \<Rightarrow> RowArray (vs @ [v])
      | RowValue x \<Rightarrow> if rowType = ROW_FIRST_COLUMN \<and> i = 0 then RowValue (Some v) else row)"

type_synonym ('c, 'z, 'a) rdl = "(('c, 'z) reader_scheme, exn, 'a) loopm"

text \<open>\<open>read() ?? await readAsync()\<close>\<close>

definition rd_u8 :: "'c rd \<Rightarrow> ('c, 'z, int) rdm" where "rd_u8 rd = or_await readUint8 (readUint8Async rd)"
definition rd_u16 :: "'c rd \<Rightarrow> ('c, 'z, int) rdm" where "rd_u16 rd = or_await readUint16 (readUint16Async rd)"
definition rd_u32 :: "'c rd \<Rightarrow> ('c, 'z, int) rdm" where "rd_u32 rd = or_await readUint32 (readUint32Async rd)"

definition read_int :: "'c rd \<Rightarrow> column \<Rightarrow> ('c, 'z, js_value) rdm" where
  "read_int rd c =
     (let typ = c_typeId c; uns = is_unsigned c
      in bindM
          (if typ = MYSQL_TYPE_TINY then
             (if uns then rd_u8 rd else or_await readInt8 (readInt8Async rd))
           else if typ = MYSQL_TYPE_SHORT \<or> typ = MYSQL_TYPE_YEAR then
             (if uns then rd_u16 rd else or_await readInt16 (readInt16Async rd))
           else if uns then rd_u32 rd else or_await readInt32 (readInt32Async rd))
          (\<lambda>n. ret (VNum (Some (of_int n)))))"

definition safe_bigint :: "int \<Rightarrow> js_value" where
  "safe_bigint n = (if \<bar>n\<bar> \<le> MAX_SAFE_INTEGER then VNum (Some (of_int n)) else VBigInt n)"

definition read_longlong :: "'c rd \<Rightarrow> column \<Rightarrow> ('c, 'z, js_value) rdm" where
  "read_longlong rd c =
     bindM (if is_unsigned c then or_await readUint64 (readUint64Async rd) else or_await readInt64 (readInt64Async rd))
       (\<lambda>n. ret (safe_bigint n))"

text \<open>A number with leading zeros, as in the chains of conditions that make a date string.\<close>

definition padded :: "nat \<Rightarrow> int \<Rightarrow> jsstr" where
  "padded width n = (let s = js (show_nat (nat n)) in replicate (width - length s) (of_char (CHR ''0'')) @ s)"

definition date_string :: "nat \<Rightarrow> int \<Rightarrow> int list \<Rightarrow> jsstr" where
  "date_string typ len f =
     (let wantTime = (typ = MYSQL_TYPE_DATETIME \<or> typ = MYSQL_TYPE_TIMESTAMP)
      in padded 4 (f ! 0) @ js ''-'' @ padded 2 (f ! 1) @ js ''-'' @ padded 2 (f ! 2) @
         (if 7 \<le> len \<or> wantTime then
            js '' '' @ padded 2 (f ! 3) @ js '':'' @ padded 2 (f ! 4) @ js '':'' @ padded 2 (f ! 5) @
            (if 11 \<le> len then js ''.'' @ padded 6 (f ! 6) else [])
          else []))"

definition binary_date :: "env \<Rightarrow> num \<Rightarrow> int list \<Rightarrow> num" where
  "binary_date e tz f =
     (let t = new_Date (env_host e) (Some (of_int (f ! 0))) (Some (of_int (f ! 1 - 1))) (Some (of_int (f ! 2)))
                (Some (of_int (f ! 3))) (Some (of_int (f ! 4))) (Some (of_int (f ! 5)))
                (num_div (Some (of_int (f ! 6))) (Some 1000))
      in if tz \<noteq> Some 0 then num_sub t tz else t)"

definition read_date :: "env \<Rightarrow> 'c rd \<Rightarrow> bool \<Rightarrow> num \<Rightarrow> nat \<Rightarrow> ('c, 'z, js_value) rdm" where
  "read_date e rd datesAsString tz typ =
     bindM (rd_u8 rd) (\<lambda>len.
       if 4 \<le> len then
         bindM (rd_u16 rd) (\<lambda>year. bindM (rd_u8 rd) (\<lambda>month. bindM (rd_u8 rd) (\<lambda>day.
         bindM
           (if 7 \<le> len then
              bindM (rd_u8 rd) (\<lambda>hour. bindM (rd_u8 rd) (\<lambda>minute. bindM (rd_u8 rd) (\<lambda>second.
              bindM (if 11 \<le> len then rd_u32 rd else ret 0) (\<lambda>micro. ret [hour, minute, second, micro]))))
            else ret [0, 0, 0, 0])
           (\<lambda>time.
              let f = [year, month, day] @ time
              in ret (if \<not> datesAsString then VDate (binary_date e tz f) else VStr (date_string typ len f))))))
       else
         ret (if \<not> datesAsString then VDate (Some 0)
              else VStr (js (if typ = MYSQL_TYPE_DATE then ''0000-00-00'' else ''0000-00-00 00:00:00''))))"

definition read_time :: "'c rd \<Rightarrow> ('c, 'z, js_value) rdm" where
  "read_time rd =
     bindM (rd_u8 rd) (\<lambda>len.
       if 8 \<le> len then
         bindM (rd_u8 rd) (\<lambda>isNegative. bindM (rd_u32 rd) (\<lambda>days.
         bindM (rd_u8 rd) (\<lambda>hours. bindM (rd_u8 rd) (\<lambda>minutes. bindM (rd_u8 rd) (\<lambda>seconds.
           let hours = hours + days * 24; minutes = minutes + hours * 60; seconds = seconds + minutes * 60;
               total = (\<lambda>s. ret (VNum (sign (isNegative \<noteq> 0) s)))
           in if 12 \<le> len then
                bindM (rd_u32 rd) (\<lambda>micro.
                  total (num_add (Some (of_int seconds)) (num_div (Some (of_int micro)) (Some 1000000))))
              else total (Some (of_int seconds)))))))
       else ret (VNum (Some 0)))"

text \<open>
  \<open>readShortBytes(len)\<close> when the length comes from the server and may be the -1 of the NULL marker: then the
  position goes back by one byte and the result is empty.
\<close>

definition rd_bytes :: "'c rd \<Rightarrow> int \<Rightarrow> ('c, 'z, byte list) rdm" where
  "rd_bytes rd len r =
     (if len < 0 then
        (Inr [], r\<lparr>r_bufferStart := nat (int (r_bufferStart r) + len), r_packetOffset := r_packetOffset r + len\<rparr>)
      else or_await (readShortBytes (nat len)) (readShortBytesAsync rd (nat len)) r)"

definition field_too_long :: "int \<Rightarrow> exn" where
  "field_too_long len = JsError (js (''Field is too long: '' @ show_nat (nat len) @ '' bytes''))"

definition rd_len :: "'c rd \<Rightarrow> ('c, 'z, int) rdm" where
  "rd_len rd =
     bindM (or_await readLenencInt (readLenencIntAsync rd)) (\<lambda>len.
       if MAX_SAFE_INTEGER < len then throw (field_too_long len) else ret len)"

definition read_bit :: "'c rd \<Rightarrow> ('c, 'z, js_value) rdm" where
  "read_bit rd =
     bindM (rd_len rd) (\<lambda>len. bindM (rd_bytes rd len) (\<lambda>bytes. ret (VBool (list_ex (\<lambda>b. b \<noteq> 0) bytes))))"

text \<open>A blob of the length that was read, in a new array; a negative length is a RangeError there.\<close>

definition rd_blob :: "'c rd \<Rightarrow> int \<Rightarrow> ('c, 'z, byte list) rdl" where
  "rd_blob rd len = (if len < 0 then total_of (throw range_error) else readBytesToBuffer rd (nat len))"

definition is_binary :: "column \<Rightarrow> bool" where
  "is_binary c \<longleftrightarrow> c_charsetId c = CHARSET_BINARY \<and>
     c_typeId c \<noteq> MYSQL_TYPE_JSON \<and> c_typeId c \<noteq> MYSQL_TYPE_NEWDECIMAL \<and> c_typeId c \<noteq> MYSQL_TYPE_DECIMAL"

definition rd_text :: "'c rd \<Rightarrow> int \<Rightarrow> ('c, 'z, jsstr) rdl" where
  "rd_text rd len r =
     (if len \<le> int (length (r_buffer r)) - 4 then total_of (decode_with (rd_bytes rd len)) r
      else bindL (rd_blob rd len) (\<lambda>v r. Some (Inr (r_decoder r v), r)) r)"

record read_options =
  o_rowType :: row_type
  o_jsonAsString :: bool
  o_datesAsString :: bool
  o_maxColumnLen :: int
  o_isForSerialize :: bool

definition is_last_reader :: "read_options \<Rightarrow> bool" where
  "is_last_reader o' \<longleftrightarrow> o_rowType o' = ROW_LAST_COLUMN_READER \<or> o_rowType o' = ROW_LAST_COLUMN_READABLE"

text \<open>The value of a column and, where the last column is left for a reader of the caller, its length.\<close>

definition read_blob_column ::
  "env \<Rightarrow> 'c rd \<Rightarrow> read_options \<Rightarrow> bool \<Rightarrow> column \<Rightarrow> ('c, 'z, js_value \<times> int option) rdl" where
  "read_blob_column e rd o' isLast c =
     bindL (total_of (rd_len rd)) (\<lambda>len.
       if is_last_reader o' \<and> isLast then total_of (ret (VNull, Some len))
       else if o_maxColumnLen o' < len \<or> o_rowType o' = ROW_VOID then
         bindL (skipBytes rd len) (\<lambda>_. total_of (ret (VNull, None)))
       else if is_binary c \<or> o_isForSerialize o' then
         bindL (rd_blob rd len) (\<lambda>bs. total_of (ret (VBytes bs, None)))
       else
         bindL (rd_text rd len) (\<lambda>s.
           if c_typeId c = MYSQL_TYPE_JSON \<and> \<not> o_jsonAsString o' then
             (case h_json_parse e s of Inl err \<Rightarrow> total_of (throw err) | Inr j \<Rightarrow> total_of (ret (VJson j, None)))
           else total_of (ret (VStr s, None))))"

definition read_column ::
  "env \<Rightarrow> 'c rd \<Rightarrow> read_options \<Rightarrow> num \<Rightarrow> bool \<Rightarrow> column \<Rightarrow> ('c, 'z, js_value \<times> int option) rdl" where
  "read_column e rd o' tz isLast c =
     (let typ = c_typeId c; simple = (\<lambda>m. total_of (bindM m (\<lambda>v. ret (v, None))))
      in if typ \<in> int_types - {MYSQL_TYPE_LONGLONG} then simple (read_int rd c)
         else if typ = MYSQL_TYPE_LONGLONG then simple (read_longlong rd c)
         else if typ = MYSQL_TYPE_FLOAT then
           simple (bindM (or_await readFloat (readFloatAsync rd)) (\<lambda>x. ret (VNum (e_f32_value e x))))
         else if typ = MYSQL_TYPE_DOUBLE then
           simple (bindM (or_await readDouble (readDoubleAsync rd)) (\<lambda>x. ret (VNum (e_f64_value e x))))
         else if typ \<in> date_types then simple (read_date e rd (o_datesAsString o') tz typ)
         else if typ = MYSQL_TYPE_TIME then simple (read_time rd)
         else if typ = MYSQL_TYPE_BIT then simple (read_bit rd)
         else read_blob_column e rd o' isLast c)"

text \<open>The loop over the columns, with the position in the null bits.\<close>

fun binary_columns ::
  "env \<Rightarrow> 'c rd \<Rightarrow> read_options \<Rightarrow> num \<Rightarrow> byte list \<Rightarrow> byte \<Rightarrow> nat \<Rightarrow> row \<Rightarrow> int \<Rightarrow> column list \<Rightarrow>
   ('c, 'z, row \<times> int) rdl" where
  "binary_columns e rd o' tz nullBits bitMask i row lastLen [] = total_of (ret (row, lastLen))"
| "binary_columns e rd o' tz nullBits bitMask i row lastLen (c # cs) =
     (let isNull = ((case nullBits of b # _ \<Rightarrow> b | [] \<Rightarrow> 0) AND bitMask \<noteq> 0);
          (nullBits, bitMask) = (if bitMask \<noteq> 0x80 then (nullBits, push_bit 1 bitMask) else (tl nullBits, 1))
      in bindL (if isNull then total_of (ret (VNull, None)) else read_column e rd o' tz (cs = []) c) (\<lambda>(v, len).
           binary_columns e rd o' tz nullBits bitMask (Suc i) (put_value (o_rowType o') i (c_name c) v row)
             (case len of Some n \<Rightarrow> n | None \<Rightarrow> lastLen) cs))"

definition deserializeRowBinary ::
  "env \<Rightarrow> 'c rd \<Rightarrow> read_options \<Rightarrow> num \<Rightarrow> column list \<Rightarrow> ('c, 'z, row \<times> int) rdl" where
  "deserializeRowBinary e rd o' tz columns =
     (let nullBitsLen = (length columns + 2 + 7) div 8
      in bindL (total_of (or_await (readShortBytes nullBitsLen) (readShortBytesAsync rd nullBitsLen))) (\<lambda>nullBits.
           binary_columns e rd o' tz nullBits 4 0 (empty_row (o_rowType o')) 0 columns))"

section \<open>A row of the text protocol\<close>

definition read_text_column ::
  "env \<Rightarrow> 'c rd \<Rightarrow> read_options \<Rightarrow> num \<Rightarrow> bool \<Rightarrow> column \<Rightarrow> ('c, 'z, js_value \<times> int option) rdl" where
  "read_text_column e rd o' tz isLast c =
     bindL (total_of (rd_len rd)) (\<lambda>len.
       if len = -1 then total_of (ret (VNull, None))
       else if is_last_reader o' \<and> isLast then total_of (ret (VNull, Some len))
       else if o_maxColumnLen o' < len \<or> o_rowType o' = ROW_VOID then
         bindL (skipBytes rd len) (\<lambda>_. total_of (ret (VNull, None)))
       else
         bindL (\<lambda>r. if len \<le> int (length (r_buffer r)) - 4 then total_of (rd_bytes rd len) r else rd_blob rd len r)
           (\<lambda>v r. total_of (case convColumnValue (env_host e) v (c_typeId c) (c_charsetId c) (r_decoder r)
                            (o_jsonAsString o') (o_datesAsString o') (o_isForSerialize o') tz of
                     Inl err \<Rightarrow> throw err | Inr x \<Rightarrow> ret (x, None)) r))"

fun text_columns ::
  "env \<Rightarrow> 'c rd \<Rightarrow> read_options \<Rightarrow> num \<Rightarrow> nat \<Rightarrow> row \<Rightarrow> int \<Rightarrow> column list \<Rightarrow> ('c, 'z, row \<times> int) rdl" where
  "text_columns e rd o' tz i row lastLen [] = total_of (ret (row, lastLen))"
| "text_columns e rd o' tz i row lastLen (c # cs) =
     bindL (read_text_column e rd o' tz (cs = []) c) (\<lambda>(v, len).
       text_columns e rd o' tz (Suc i) (put_value (o_rowType o') i (c_name c) v row)
         (case len of Some n \<Rightarrow> n | None \<Rightarrow> lastLen) cs)"

definition deserializeRowText ::
  "env \<Rightarrow> 'c rd \<Rightarrow> read_options \<Rightarrow> num \<Rightarrow> column list \<Rightarrow> ('c, 'z, row \<times> int) rdl" where
  "deserializeRowText e rd o' tz columns =
     text_columns e rd o' tz 0 (empty_row (o_rowType o')) 0 columns"

end
