(* ===== verification/Protocol.thy ===== *)
theory Protocol
  imports Serializer
begin

text \<open>
  The packets of \<open>src/private/my_protocol.ts\<close>: the state of \<open>MyProtocol\<close>, the OK, EOF and ERR packets with the session
  changes they report, the initial handshake, and the response to a query with its column definitions. The SQL logger
  and the console are left out: they see what happens and do not change it.
\<close>

section \<open>What surrounds the protocol\<close>

text \<open>
  A file of the application for LOCAL INFILE, as the chunks that its reader gives: an object with a \<open>read\<close> method, or
  one with a stream.
\<close>

datatype local_file = FileReader "byte list list" | FileStream "byte list list"

text \<open>
  The host: compression, \<open>TextDecoder\<close> by label, \<open>getTimezoneMsecOffsetFromSystem\<close>, the LOCAL INFILE handler of the
  application (if there is one), \<open>JSON.stringify\<close>, and what \<open>closer[Symbol.dispose]()\<close> does not tell.
\<close>

record penv = env +
  e_dz :: decompressor
  e_cz :: compressor
  e_textDecoder :: "jsstr \<Rightarrow> byte list \<Rightarrow> jsstr"
  e_timezone :: "jsstr \<Rightarrow> exn + num"
  e_onLoadFile :: "(jsstr \<Rightarrow> exn + local_file option) option"

section \<open>State\<close>

datatype read_packet_mode = REGULAR | ROWS_OR_PREPARED_STMT | PREPARED_STMT_OK_CONTINUATION

datatype protocol_state =
  IDLE | IDLE_IN_POOL | QUERYING | HAS_MORE_ROWS | HAS_MORE_RESULTSETS | ERROR_STATE | TERMINATED

abbreviation NO_MATTER :: int where "NO_MATTER \<equiv> 2"

record column_def = column +
  c_catalog :: jsstr
  c_schema :: jsstr
  c_table :: jsstr
  c_orgTable :: jsstr
  c_orgName :: jsstr
  c_length :: int
  c_decimals :: nat

text \<open>
  The \<open>ResultsetsInternal\<close> objects are shared between the protocol and the application, so they live in a store
  (\<open>p_resultsets\<close>, by the number of their creation); \<open>s_hasProtocol\<close> says that \<open>protocol\<close> is set.
\<close>

record resultsets =
  s_rowType :: row_type
  s_maxColumnLen :: int
  s_jsonAsString :: bool
  s_datesAsString :: bool
  s_correctDates :: bool
  s_hasProtocol :: bool
  s_isPreparedStmt :: bool
  s_stmtId :: int
  s_hasMore :: bool
  s_columns :: "column_def list"
  s_lastInsertId :: int
  s_affectedRows :: int
  s_foundRows :: int
  s_warnings :: int
  s_statusInfo :: jsstr
  s_noGoodIndexUsed :: bool
  s_noIndexUsed :: bool
  s_isSlowQuery :: bool
  s_nPlaceholders :: int

text \<open>The parts of the DSN that the protocol reads after the connection is made.\<close>

record proto_dsn =
  n_schema :: jsstr
  n_initSql :: jsstr
  n_retryLockWaitTimeout :: bool
  n_jsonAsString :: bool
  n_datesAsString :: bool
  n_correctDates :: bool

text \<open>What is left of the last column that the application reads by itself, and of it in the current packet.\<close>

record column_reader =
  l_remaining :: int
  l_inPacket :: int

text \<open>
  \<open>p_onEndSession = Some x\<close> is the resolver of the promise that \<open>end()\<close> waits for, and \<open>x\<close> what it was resolved with.
  \<open>p_closed\<close> counts the calls of \<open>closer[Symbol.dispose]()\<close>.
\<close>

record proto = rw +
  p_dsn :: proto_dsn
  p_serverVersion :: jsstr
  p_connectionId :: int
  p_capabilityFlags :: int
  p_statusFlags :: int
  p_schema :: jsstr
  p_mariadbFlags :: int
  p_warnings :: int
  p_affectedRows :: int
  p_lastInsertId :: int
  p_statusInfo :: jsstr
  p_timezone :: num
  p_state :: protocol_state
  p_maxColumnLen :: int
  p_retryQueryTimes :: nat
  p_curMultiStatements :: int
  p_resultsets :: "resultsets list"
  p_curResultsets :: "nat option"
  p_pendingCloseStmts :: "int list"
  p_pendingChangeSchema :: jsstr
  p_lastColumn :: "column_reader option"
  p_onEndSession :: "protocol_state option option"
  p_closed :: nat

type_synonym 'a pm = "(proto, exn, 'a) methodm"
type_synonym 'a pl = "(proto, exn, 'a) loopm"

definition js_error :: "string \<Rightarrow> exn" where "js_error s = JsError (js s)"

definition flag :: "int \<Rightarrow> int \<Rightarrow> bool" where "flag flags bits \<longleftrightarrow> flags AND bits \<noteq> 0"

abbreviation has_cap :: "proto \<Rightarrow> int \<Rightarrow> bool" where "has_cap r c \<equiv> flag (p_capabilityFlags r) c"
abbreviation has_status :: "proto \<Rightarrow> int \<Rightarrow> bool" where "has_status r c \<equiv> flag (p_statusFlags r) c"

section \<open>Reading\<close>

text \<open>\<open>this.readX() ?? await this.readXAsync()\<close>\<close>

abbreviation conn_rd :: "penv \<Rightarrow> conn rd" where "conn_rd h \<equiv> readFromConn (e_dz h)"

definition get_u8 :: "penv \<Rightarrow> int pl" where "get_u8 h = total_of (rd_u8 (conn_rd h))"
definition get_u16 :: "penv \<Rightarrow> int pl" where "get_u16 h = total_of (rd_u16 (conn_rd h))"
definition get_u24 :: "penv \<Rightarrow> int pl" where "get_u24 h = total_of (or_await readUint24 (readUint24Async (conn_rd h)))"
definition get_u32 :: "penv \<Rightarrow> int pl" where "get_u32 h = total_of (rd_u32 (conn_rd h))"
definition get_u64 :: "penv \<Rightarrow> int pl" where "get_u64 h = total_of (or_await readUint64 (readUint64Async (conn_rd h)))"
definition get_lenenc :: "penv \<Rightarrow> int pl" where
  "get_lenenc h = total_of (or_await readLenencInt (readLenencIntAsync (conn_rd h)))"
definition get_bytes :: "penv \<Rightarrow> int \<Rightarrow> byte list pl" where "get_bytes h n = total_of (rd_bytes (conn_rd h) n)"
definition get_string :: "penv \<Rightarrow> int \<Rightarrow> jsstr pl" where
  "get_string h n = total_of (decode_with (rd_bytes (conn_rd h) n))"
definition get_nul_bytes :: "penv \<Rightarrow> byte list pl" where
  "get_nul_bytes h = total_of (or_await readShortNulBytes (readShortNulBytesAsync (conn_rd h)))"
definition get_nul_string :: "penv \<Rightarrow> jsstr pl" where
  "get_nul_string h = total_of (or_await readShortNulString (readShortNulStringAsync (conn_rd h)))"
definition get_eof_bytes :: "penv \<Rightarrow> byte list pl" where
  "get_eof_bytes h = total_of (or_await readShortEofBytes (readShortEofBytesAsync (conn_rd h)))"
definition get_eof_string :: "penv \<Rightarrow> jsstr pl" where
  "get_eof_string h = total_of (or_await readShortEofString (readShortEofStringAsync (conn_rd h)))"
definition get_lenenc_bytes :: "penv \<Rightarrow> byte list pl" where
  "get_lenenc_bytes h = total_of (or_await readShortLenencBytes (readShortLenencBytesAsync (conn_rd h)))"
definition get_lenenc_string :: "penv \<Rightarrow> jsstr pl" where
  "get_lenenc_string h = total_of (or_await readShortLenencString (readShortLenencStringAsync (conn_rd h)))"
definition get_header :: "penv \<Rightarrow> unit pl" where "get_header h = total_of (readHeader (conn_rd h))"
definition skip_bytes :: "penv \<Rightarrow> int \<Rightarrow> unit pl" where "skip_bytes h n = skipBytes (conn_rd h) n"
definition goto_end :: "penv \<Rightarrow> unit pl" where
  "goto_end h = bindL (total_of gotoEndOfPacket) (\<lambda>done. if done then total_of (ret ()) else gotoEndOfPacketAsync (conn_rd h))"

definition getL :: "(proto \<Rightarrow> 'a) \<Rightarrow> 'a pl" where "getL f r = Some (Inr (f r), r)"
definition setL :: "(proto \<Rightarrow> proto) \<Rightarrow> unit pl" where "setL f r = Some (Inr (), f r)"
abbreviation retL :: "'a \<Rightarrow> 'a pl" where "retL a \<equiv> total_of (ret a)"
abbreviation throwL :: "exn \<Rightarrow> 'a pl" where "throwL e \<equiv> total_of (throw e)"
definition whenL :: "bool \<Rightarrow> unit pl \<Rightarrow> unit pl" where "whenL b m = (if b then m else retL ())"

text \<open>\<open>m()\<close> in a \<open>try\<close> block, with \<open>h\<close> as its \<open>catch\<close> block.\<close>

definition tryL :: "'a pl \<Rightarrow> (exn \<Rightarrow> 'a pl) \<Rightarrow> 'a pl" where
  "tryL m handler r =
     (case m r of None \<Rightarrow> None | Some (Inl e, r') \<Rightarrow> handler e r' | Some (Inr a, r') \<Rightarrow> Some (Inr a, r'))"

section \<open>OK, EOF and ERR packets\<close>

definition setCharacterSetClient :: "jsstr \<Rightarrow> unit pl" where
  "setCharacterSetClient value' =
     (if take 4 value' \<noteq> js ''utf8'' then
        throwL (JsError (js ''Cannot use this value for character_set_client: '' @ value' @ js ''. Can only use utf8.''))
      else retL ())"

text \<open>The labels of \<open>TextDecoder\<close> that differ from the names of MySQL are \<open>koi8-r\<close>, \<open>koi8-u\<close> and \<open>euc-jp\<close>.\<close>

definition same_label :: "jsstr list" where
  "same_label = map js [''latin1'', ''latin2'', ''latin3'', ''latin4'', ''cp866'', ''cp1250'', ''cp1251'', ''cp1256'', ''cp1257'',
     ''big5'', ''gb2312'', ''gb18030'', ''greek'', ''hebrew'', ''sjis'']"

definition decoder_label :: "jsstr \<Rightarrow> jsstr option" where
  "decoder_label value' =
     (if take 4 value' = js ''utf8'' then Some (js ''utf-8'')
      else if value' \<in> set same_label then Some value'
      else if value' = js ''koi8r'' then Some (js ''koi8-r'')
      else if value' = js ''koi8u'' then Some (js ''koi8-u'')
      else if value' = js ''eucjpms'' then Some (js ''euc-jp'')
      else None)"

definition setCharacterSetResults :: "penv \<Rightarrow> jsstr \<Rightarrow> unit pl" where
  "setCharacterSetResults h value' =
     (case decoder_label value' of
        Some label \<Rightarrow> setL (\<lambda>r. r\<lparr>r_decoder := e_textDecoder h label\<rparr>)
      | None \<Rightarrow> throwL (JsError (js ''Cannot use this value for character_set_results: '' @ value' @ js ''. Options: utf8, utf8mb4, latin1, latin2, latin3, latin4, cp866, cp1250, cp1251, cp1256, cp1257, big5, gb2312, gb18030, greek, hebrew, sjis, koi8r, koi8u, eucjpms.'')))"

definition setTimeZone :: "penv \<Rightarrow> jsstr \<Rightarrow> unit pl" where
  "setTimeZone h value' =
     setL (\<lambda>r. r\<lparr>p_timezone :=
       (if value' \<noteq> js ''SYSTEM'' then (case e_timezone h value' of Inl _ \<Rightarrow> Some 0 | Inr x \<Rightarrow> x) else Some 0)\<rparr>)"

definition getTimezoneMsecOffset :: "num pl" where
  "getTimezoneMsecOffset r =
     (case p_timezone r of None \<Rightarrow> Some (Inr (Some 0), r\<lparr>p_timezone := Some 0\<rparr>) | Some t \<Rightarrow> Some (Inr (Some t), r))"

text \<open>One session change, and the loop over them.\<close>

definition session_change :: "penv \<Rightarrow> unit pl" where
  "session_change h =
     bindL (get_u8 h) (\<lambda>changeType.
       if changeType = TRACK_SYSTEM_VARIABLES then
         bindL (get_lenenc h) (\<lambda>_. bindL (get_lenenc_string h) (\<lambda>name. bindL (get_lenenc_string h) (\<lambda>value'.
           if name = js ''character_set_client'' then setCharacterSetClient value'
           else if name = js ''character_set_results'' then setCharacterSetResults h value'
           else if name = js ''time_zone'' then setTimeZone h value'
           else retL ())))
       else if changeType = TRACK_SCHEMA then
         bindL (get_lenenc h) (\<lambda>_. bindL (get_lenenc_string h) (\<lambda>schema. setL (\<lambda>r. r\<lparr>p_schema := schema\<rparr>)))
       else bindL (get_lenenc_bytes h) (\<lambda>_. retL ()))"

partial_function (option) session_loop :: "penv \<Rightarrow> int \<Rightarrow> unit pl" where
  "session_loop h to r =
     (if r_packetOffset r < to then
        (case session_change h r of
           None \<Rightarrow> None
         | Some (Inl e, r') \<Rightarrow> Some (Inl e, r')
         | Some (Inr _, r') \<Rightarrow> session_loop h to r')
      else Some (Inr (), r))"

definition read_ok_info :: "penv \<Rightarrow> unit pl" where
  "read_ok_info h =
     bindL (getL (\<lambda>r. (isAtEndOfPacket r, has_cap r CLIENT_SESSION_TRACK))) (\<lambda>(atEnd, track).
       if atEnd then retL ()
       else if track then
         bindL (get_lenenc_string h) (\<lambda>info. bindL (setL (\<lambda>r. r\<lparr>p_statusInfo := info\<rparr>)) (\<lambda>_.
         bindL (getL (\<lambda>r. has_status r SERVER_SESSION_STATE_CHANGED)) (\<lambda>changed.
         bindL (whenL changed
                  (bindL (get_lenenc h) (\<lambda>len. bindL (getL r_packetOffset) (\<lambda>offset. session_loop h (offset + len)))))
           (\<lambda>_. goto_end h))))
       else bindL (get_eof_string h) (\<lambda>info. setL (\<lambda>r. r\<lparr>p_statusInfo := info\<rparr>)))"

definition read_ok_packet :: "penv \<Rightarrow> unit pl" where
  "read_ok_packet h =
     bindL (get_lenenc h) (\<lambda>affected. bindL (setL (\<lambda>r. r\<lparr>p_affectedRows := affected\<rparr>)) (\<lambda>_.
     bindL (get_lenenc h) (\<lambda>insertId. bindL (setL (\<lambda>r. r\<lparr>p_lastInsertId := insertId\<rparr>)) (\<lambda>_.
     bindL (getL p_capabilityFlags) (\<lambda>caps.
     bindL (if flag caps CLIENT_PROTOCOL_41 then
              bindL (get_u16 h) (\<lambda>status. bindL (setL (\<lambda>r. r\<lparr>p_statusFlags := status\<rparr>)) (\<lambda>_.
              bindL (get_u16 h) (\<lambda>warnings. setL (\<lambda>r. r\<lparr>p_warnings := warnings\<rparr>))))
            else if flag caps CLIENT_TRANSACTIONS then
              bindL (get_u16 h) (\<lambda>status. setL (\<lambda>r. r\<lparr>p_statusFlags := status\<rparr>))
            else retL ())
       (\<lambda>_. read_ok_info h))))))"

definition read_eof_packet :: "penv \<Rightarrow> unit pl" where
  "read_eof_packet h =
     bindL (getL (\<lambda>r. has_cap r CLIENT_PROTOCOL_41)) (\<lambda>p41.
     bindL (whenL p41 (bindL (get_u16 h) (\<lambda>warnings. bindL (setL (\<lambda>r. r\<lparr>p_warnings := warnings\<rparr>)) (\<lambda>_.
                       bindL (get_u16 h) (\<lambda>status. setL (\<lambda>r. r\<lparr>p_statusFlags := status\<rparr>))))))
       (\<lambda>_. goto_end h))"

definition read_err_packet :: "penv \<Rightarrow> 'a pl" where
  "read_err_packet h =
     bindL (get_u16 h) (\<lambda>errorCode.
     bindL (getL (\<lambda>r. has_cap r CLIENT_PROTOCOL_41)) (\<lambda>p41.
     bindL (if p41 then get_string h 6 else retL []) (\<lambda>sqlState.
     bindL (get_eof_string h) (\<lambda>errorMessage.
     bindL (getL (\<lambda>r. (has_status r SERVER_STATUS_AUTOCOMMIT, has_status r SERVER_STATUS_IN_TRANS))) (\<lambda>(autocommit, inTrx).
       throwL (new_SqlError errorMessage (nat errorCode) sqlState autocommit inTrx))))))"

definition PACKET_NOT_READ_BIT :: int where "PACKET_NOT_READ_BIT = 256"

text \<open>What follows the type of the packet.\<close>

definition packet_of_type :: "penv \<Rightarrow> read_packet_mode \<Rightarrow> int \<Rightarrow> int pl" where
  "packet_of_type h mode typ =
     bindL (getL (\<lambda>r. (r_payloadLength r, has_cap r CLIENT_DEPRECATE_EOF))) (\<lambda>(payloadLength, deprecateEof).
       if typ = PACKET_EOF \<and> 9 \<le> payloadLength then retL (typ OR PACKET_NOT_READ_BIT)
       else if typ = PACKET_EOF \<and> \<not> deprecateEof then
         bindL (read_eof_packet h) (\<lambda>_. retL (if mode = REGULAR then PACKET_OK else typ))
       else if typ = PACKET_EOF \<or> typ = PACKET_OK then
         (if mode \<noteq> ROWS_OR_PREPARED_STMT \<or> typ = PACKET_EOF then
            bindL (read_ok_packet h) (\<lambda>_. retL (if mode = REGULAR then PACKET_OK else typ))
          else retL (typ OR PACKET_NOT_READ_BIT))
       else if typ = PACKET_ERR then read_err_packet h
       else retL (typ OR PACKET_NOT_READ_BIT))"

definition readPacket :: "penv \<Rightarrow> read_packet_mode \<Rightarrow> int pl" where
  "readPacket h mode =
     (if mode = PREPARED_STMT_OK_CONTINUATION then packet_of_type h mode 0
      else bindL (get_header h) (\<lambda>_. bindL (get_u8 h) (packet_of_type h mode)))"

section \<open>Column definitions\<close>

fun repeatL :: "nat \<Rightarrow> 'a pl \<Rightarrow> 'a list pl" where
  "repeatL 0 m = retL []"
| "repeatL (Suc n) m = bindL m (\<lambda>x. bindL (repeatL n m) (\<lambda>xs. retL (x # xs)))"

definition read_eof_after_columns :: "penv \<Rightarrow> unit pl" where
  "read_eof_after_columns h =
     bindL (getL (\<lambda>r. has_cap r CLIENT_DEPRECATE_EOF)) (\<lambda>deprecated.
       whenL (\<not> deprecated) (bindL (readPacket h REGULAR) (\<lambda>_. retL ())))"

definition skipColumnDefinitionPackets :: "penv \<Rightarrow> nat \<Rightarrow> unit pl" where
  "skipColumnDefinitionPackets h nPackets =
     bindL (repeatL nPackets (bindL (get_header h) (\<lambda>_. goto_end h))) (\<lambda>_. read_eof_after_columns h)"

text \<open>The attributes of a column in the block of MariaDB, from position \<open>i\<close>.\<close>

function format_is_json :: "byte list \<Rightarrow> nat \<Rightarrow> bool" where
  "format_is_json block i =
     (if i + 2 \<le> length block then
        (let attrKey = unat (block ! i); valueLen = unat (block ! (i + 1)); i = i + 2
         in if length block < i + valueLen then False
            else if attrKey = FORMAT_NAME then
              valueLen = 4 \<and> block ! i = of_char (CHR ''j'') \<and> block ! (i + 1) = of_char (CHR ''s'') \<and>
              block ! (i + 2) = of_char (CHR ''o'') \<and> block ! (i + 3) = of_char (CHR ''n'')
            else format_is_json block (i + valueLen))
      else False)"
  by auto
termination
  by (relation "measure (\<lambda>(block, i). length block - i)") auto

declare format_is_json.simps [simp del]

definition readMariadbExtendedTypeInfo :: "penv \<Rightarrow> bool pl" where
  "readMariadbExtendedTypeInfo h =
     bindL (get_lenenc h) (\<lambda>blockLen.
       if 0 < blockLen then bindL (get_bytes h blockLen) (\<lambda>block. retL (format_is_json block 0)) else retL False)"

definition block_too_small :: exn where
  "block_too_small = js_error ''Invalid column definition packet: block length too small''"

definition column41_of_block :: "jsstr list \<Rightarrow> bool \<Rightarrow> byte list \<Rightarrow> column_def" where
  "column41_of_block names isJson block =
     \<lparr>c_typeId = (if isJson then MYSQL_TYPE_JSON else unat (block ! 6)),
      c_flags = le_nat (subarray block 7 9), c_charsetId = le_nat (subarray block 0 2), c_name = names ! 4,
      c_catalog = names ! 0, c_schema = names ! 1, c_table = names ! 2, c_orgTable = names ! 3, c_orgName = names ! 5,
      c_length = int (le_nat (subarray block 2 6)), c_decimals = unat (block ! 9)\<rparr>"

definition read_column41 :: "penv \<Rightarrow> column_def pl" where
  "read_column41 h =
     bindL (get_header h) (\<lambda>_. bindL (repeatL 6 (get_lenenc_string h)) (\<lambda>names.
     bindL (getL (\<lambda>r. flag (p_mariadbFlags r) MARIADB_CLIENT_EXTENDED_METADATA)) (\<lambda>extended.
     bindL (if extended then readMariadbExtendedTypeInfo h else retL False) (\<lambda>isJson.
     bindL (get_lenenc h) (\<lambda>blockLen.
       if blockLen < 12 then throwL block_too_small
       else bindL (get_bytes h blockLen) (\<lambda>block. bindL (goto_end h) (\<lambda>_. retL (column41_of_block names isJson block))))))))"

definition read_column320 :: "penv \<Rightarrow> column_def pl" where
  "read_column320 h =
     bindL (get_header h) (\<lambda>_. bindL (get_lenenc_string h) (\<lambda>table. bindL (get_lenenc_string h) (\<lambda>name.
     bindL (get_lenenc h) (\<lambda>blockLen.
       if blockLen < 3 then throwL block_too_small
       else bindL (get_bytes h blockLen) (\<lambda>block1. bindL (get_lenenc h) (\<lambda>blockLen.
         if blockLen < 1 then throwL block_too_small
         else bindL (get_bytes h blockLen) (\<lambda>block2. bindL (get_lenenc h) (\<lambda>blockLen. bindL (get_bytes h blockLen) (\<lambda>block.
           bindL (getL (\<lambda>r. has_cap r CLIENT_LONG_FLAG)) (\<lambda>longFlag.
             if blockLen < (if longFlag then 3 else 2) then throwL block_too_small
             else bindL (goto_end h) (\<lambda>_. retL
               \<lparr>c_typeId = unat (block2 ! 0),
                c_flags = (if longFlag then le_nat (subarray block 0 2) else unat (block ! 0)), c_charsetId = 0, c_name = name,
                c_catalog = [], c_schema = [], c_table = table, c_orgTable = [], c_orgName = [],
                c_length = int (le_nat (subarray block1 0 3)),
                c_decimals = unat (block ! (if longFlag then 2 else 1))\<rparr>)))))))))))"

definition readColumnDefinitionPackets :: "penv \<Rightarrow> nat \<Rightarrow> column_def list pl" where
  "readColumnDefinitionPackets h nPackets =
     (if nPackets = 0 then retL []
      else bindL (getL (\<lambda>r. has_cap r CLIENT_PROTOCOL_41)) (\<lambda>p41.
           bindL (repeatL nPackets (if p41 then read_column41 h else read_column320 h)) (\<lambda>columns.
           bindL (read_eof_after_columns h) (\<lambda>_. retL columns))))"

section \<open>LOCAL INFILE\<close>

text \<open>What a reader with room for \<open>n\<close> bytes gives, and what it has left.\<close>

definition file_read :: "nat \<Rightarrow> byte list list \<Rightarrow> byte list option \<times> byte list list" where
  "file_read n chunks =
     (case chunks of
        [] \<Rightarrow> (None, [])
      | c # cs \<Rightarrow> if length c \<le> n then (Some c, cs) else (Some (take n c), drop n c # cs))"

text \<open>
  One packet of the file; the result says whether the file goes on. The two kinds of readers differ only in how the
  bytes get into the buffer.
\<close>

definition send_file_packet :: "penv \<Rightarrow> bool \<Rightarrow> byte list list \<Rightarrow> (byte list list option) pl" where
  "send_file_packet h isStream chunks =
     bindL (total_of (startWritingNewPacket False)) (\<lambda>_.
     bindL (getL (\<lambda>r. file_read (length (r_buffer r) - r_bufferEnd r) chunks)) (\<lambda>(v, chunks').
     bindL (total_of (case v of
              None \<Rightarrow> ret ()
            | Some bs \<Rightarrow> if isStream then writeShortBytes bs else bindM (writeReadChunk (Some bs)) (\<lambda>_. ret ()))) (\<lambda>_.
     bindL (total_of (send (e_cz h))) (\<lambda>_. retL (if v = None then None else Some chunks')))))"

partial_function (option) send_file :: "penv \<Rightarrow> bool \<Rightarrow> byte list list \<Rightarrow> unit pl" where
  "send_file h isStream chunks r =
     (case send_file_packet h isStream chunks r of
        None \<Rightarrow> None
      | Some (Inl e, r') \<Rightarrow> Some (Inl e, r')
      | Some (Inr None, r') \<Rightarrow> Some (Inr (), r')
      | Some (Inr (Some chunks'), r') \<Rightarrow> send_file h isStream chunks' r')"

definition local_infile :: "penv \<Rightarrow> unit pl" where
  "local_infile h =
     bindL (get_eof_string h) (\<lambda>filename.
       case e_onLoadFile h of
         None \<Rightarrow> throwL (JsError (js ''LOCAL INFILE handler is not set. Requested file: '' @ filename))
       | Some onLoadFile \<Rightarrow>
           (case onLoadFile filename of
              Inl e \<Rightarrow> throwL e
            | Inr None \<Rightarrow> throwL (JsError (js ''File is not accepted for LOCAL INFILE: '' @ filename))
            | Inr (Some (FileReader chunks)) \<Rightarrow> send_file h False chunks
            | Inr (Some (FileStream chunks)) \<Rightarrow> send_file h True chunks))"

section \<open>The response to a query\<close>

definition cur :: "nat \<Rightarrow> proto \<Rightarrow> resultsets" where "cur i r = p_resultsets r ! i"

definition updL :: "nat \<Rightarrow> (resultsets \<Rightarrow> resultsets) \<Rightarrow> unit pl" where
  "updL i f = setL (\<lambda>r. r\<lparr>p_resultsets := (p_resultsets r)[i := f (cur i r)]\<rparr>)"

definition initResultsets :: "nat \<Rightarrow> unit pl" where
  "initResultsets i =
     bindL (getL id) (\<lambda>r. updL i (\<lambda>s.
       let s = s\<lparr>s_lastInsertId := p_lastInsertId r, s_warnings := p_warnings r, s_statusInfo := p_statusInfo r,
                 s_noGoodIndexUsed := has_status r SERVER_STATUS_NO_GOOD_INDEX_USED,
                 s_noIndexUsed := has_status r SERVER_STATUS_NO_INDEX_USED,
                 s_isSlowQuery := has_status r SERVER_QUERY_WAS_SLOW\<rparr>
       in if has_cap r CLIENT_FOUND_ROWS then s\<lparr>s_foundRows := p_affectedRows r\<rparr> else s\<lparr>s_affectedRows := p_affectedRows r\<rparr>))"

text \<open>
  One turn of the loop: the numbers of columns and of placeholders, or \<open>None\<close> when a file was sent and the next packet
  is the response.
\<close>

definition response_round :: "penv \<Rightarrow> nat \<Rightarrow> read_packet_mode \<Rightarrow> (int \<times> int) option pl" where
  "response_round h i mode =
     bindL (readPacket h mode) (\<lambda>typ.
       if typ = PACKET_OK then bindL (initResultsets i) (\<lambda>_. retL (Some (0, 0)))
       else if typ = PACKET_NOT_READ_BIT then
         bindL (updL i (\<lambda>s. s\<lparr>s_isPreparedStmt := True\<rparr>)) (\<lambda>_.
         bindL (get_u32 h) (\<lambda>stmtId. bindL (updL i (\<lambda>s. s\<lparr>s_stmtId := stmtId\<rparr>)) (\<lambda>_.
         bindL (get_u16 h) (\<lambda>nColumns. bindL (get_u16 h) (\<lambda>nPlaceholders. bindL (get_u8 h) (\<lambda>_.
         bindL (get_u16 h) (\<lambda>warnings. bindL (setL (\<lambda>r. r\<lparr>p_warnings := warnings\<rparr>)) (\<lambda>_.
         bindL (goto_end h) (\<lambda>_. retL (Some (nColumns, nPlaceholders)))))))))))
       else if typ = PACKET_NULL_OR_LOCAL_INFILE OR PACKET_NOT_READ_BIT then bindL (local_infile h) (\<lambda>_. retL None)
       else if typ = PACKET_UINT16 OR PACKET_NOT_READ_BIT then bindL (get_u16 h) (\<lambda>n. retL (Some (n, 0)))
       else if typ = PACKET_UINT24 OR PACKET_NOT_READ_BIT then bindL (get_u24 h) (\<lambda>n. retL (Some (n, 0)))
       else if typ = PACKET_UINT64 OR PACKET_NOT_READ_BIT then bindL (get_u64 h) (\<lambda>n. retL (Some (n, 0)))
       else retL (Some (typ AND 0xFF, 0)))"

partial_function (option) response_head :: "penv \<Rightarrow> nat \<Rightarrow> read_packet_mode \<Rightarrow> (int \<times> int) pl" where
  "response_head h i mode r =
     (case response_round h i mode r of
        None \<Rightarrow> None
      | Some (Inl e, r') \<Rightarrow> Some (Inl e, r')
      | Some (Inr None, r') \<Rightarrow> response_head h i mode r'
      | Some (Inr (Some n), r') \<Rightarrow> Some (Inr n, r'))"

definition too_many_columns :: "int \<Rightarrow> exn" where
  "too_many_columns n = js_error (''Can'' @ [CHR 0x27] @ ''t handle so many columns: '' @ show_nat (nat n))"

definition state_after_response :: "int \<Rightarrow> proto \<Rightarrow> protocol_state" where
  "state_after_response nColumns r =
     (if nColumns \<noteq> 0 then HAS_MORE_ROWS
      else if has_status r SERVER_MORE_RESULTS_EXISTS then HAS_MORE_RESULTSETS else IDLE)"

definition readQueryResponse :: "penv \<Rightarrow> nat \<Rightarrow> read_packet_mode \<Rightarrow> bool \<Rightarrow> protocol_state pl" where
  "readQueryResponse h i mode skipColumns =
     bindL (response_head h i mode) (\<lambda>(nColumns, nPlaceholders).
       if MAX_SAFE_INTEGER < nColumns then throwL (too_many_columns nColumns)
       else
         bindL (whenL (0 < nPlaceholders) (skipColumnDefinitionPackets h (nat nPlaceholders))) (\<lambda>_.
         bindL (updL i (\<lambda>s. s\<lparr>s_nPlaceholders := nPlaceholders\<rparr>)) (\<lambda>_.
         bindL (if nColumns = 0 then retL []
                else if skipColumns then bindL (skipColumnDefinitionPackets h (nat nColumns)) (\<lambda>_. retL [])
                else readColumnDefinitionPackets h (nat nColumns)) (\<lambda>columns.
         bindL (updL i (\<lambda>s. s\<lparr>s_columns := columns\<rparr>)) (\<lambda>_.
         getL (state_after_response nColumns))))))"

end
