(* ===== verification/Commands.thy ===== *)
theory Commands
  imports Protocol
begin

text \<open>
  The commands of \<open>src/private/my_protocol.ts\<close>: the state machine of the connection, what is sent before a query, queries
  with their retries, prepared statements, the rows of a resultset, the next resultset, and the end of a session.
\<close>

section \<open>The state of the connection\<close>

definition closer_dispose :: "proto \<Rightarrow> proto" where "closer_dispose r = r\<lparr>p_closed := p_closed r + 1\<rparr>"

definition busy :: "string \<Rightarrow> exn" where "busy s = BusyError (js s)"
definition connection_terminated :: exn where "connection_terminated = CanceledError (js ''Connection terminated'')"

text \<open>The result says whether the connection was just taken from the pool.\<close>

definition setQueryingState :: "bool pl" where
  "setQueryingState =
     bindL (getL p_state) (\<lambda>state.
       case state of
         QUERYING \<Rightarrow> throwL (busy ''Previous operation is still in progress'')
       | HAS_MORE_ROWS \<Rightarrow> throwL (busy ''Rows from previous query are not read to the end'')
       | HAS_MORE_RESULTSETS \<Rightarrow> throwL (busy ''Previous query has unread resultsets'')
       | TERMINATED \<Rightarrow> throwL connection_terminated
       | ERROR_STATE \<Rightarrow> throwL (js_error ''Protocol error'')
       | IDLE_IN_POOL \<Rightarrow> bindL (setL (\<lambda>r. r\<lparr>p_state := QUERYING\<rparr>)) (\<lambda>_. retL True)
       | IDLE \<Rightarrow> bindL (setL (\<lambda>r. r\<lparr>p_state := QUERYING\<rparr>)) (\<lambda>_. retL False))"

text \<open>A promise is resolved once.\<close>

definition setState :: "protocol_state \<Rightarrow> proto \<Rightarrow> proto" where
  "setState state r =
     (case p_onEndSession r of
        None \<Rightarrow> r\<lparr>p_state := state\<rparr>
      | Some None \<Rightarrow> r\<lparr>p_onEndSession := Some (Some state)\<rparr>
      | Some (Some _) \<Rightarrow> r)"

definition rethrowError :: "exn \<Rightarrow> 'a pl" where
  "rethrowError e =
     bindL (setL (\<lambda>r.
       if is_SqlError e then setState IDLE r
       else setState ERROR_STATE (if p_state r \<noteq> ERROR_STATE then closer_dispose r else r))) (\<lambda>_. throwL e)"

definition rethrowErrorIfFatal :: "exn \<Rightarrow> bool \<Rightarrow> unit pl" where
  "rethrowErrorIfFatal e isFromPool =
     (if is_SqlError e then bindL (setL (setState IDLE)) (\<lambda>_. throwL e)
      else bindL (setL (\<lambda>r. setState ERROR_STATE (closer_dispose r))) (\<lambda>_. if isFromPool then retL () else throwL e))"

section \<open>What is sent before a command\<close>

definition new_command :: "int \<Rightarrow> unit pm" where
  "new_command command = bindM (startWritingNewPacket True) (\<lambda>_. writeUint8 command)"

text \<open>The loop that writes COM_STMT_CLOSE packets from the end of the list while there is room; the result is what remains.\<close>

fun close_stmts :: "int list \<Rightarrow> int list pm" where
  "close_stmts [] r = (Inr [], r)"
| "close_stmts (stmtId # ids) r =
     (if r_bufferEnd r + 9 \<le> length (r_buffer r) then
        bindM (new_command COM_STMT_CLOSE) (\<lambda>_. bindM (writeUint32 stmtId) (\<lambda>_. close_stmts ids)) r
      else (Inr (stmtId # ids), r))"

text \<open>\<open>#doPending()\<close>; the result says that it returned a promise, and must be called again.\<close>

definition doPending :: "penv \<Rightarrow> bool pl" where
  "doPending h =
     bindL (getL p_pendingCloseStmts) (\<lambda>pendingCloseStmts.
       if pendingCloseStmts = [] then retL False
       else
         bindL (setL (\<lambda>r. if r_bufferEnd r = r_bufferStart r then r\<lparr>r_bufferStart := 0, r_bufferEnd := 0\<rparr> else r)) (\<lambda>_.
         bindL (total_of (close_stmts (rev pendingCloseStmts))) (\<lambda>remain.
         bindL (setL (\<lambda>r. r\<lparr>p_pendingCloseStmts := rev remain\<rparr>)) (\<lambda>_.
         bindL (getL (\<lambda>r. length (r_buffer r) < 2 * r_bufferEnd r)) (\<lambda>wantSend.
           if wantSend then bindL (total_of (send (e_cz h))) (\<lambda>_. retL True) else retL False)))))"

partial_function (option) doPendingAll :: "penv \<Rightarrow> unit pl" where
  "doPendingAll h r =
     (case doPending h r of
        None \<Rightarrow> None
      | Some (Inl e, r') \<Rightarrow> Some (Inl e, r')
      | Some (Inr again, r') \<Rightarrow> if again then doPendingAll h r' else Some (Inr (), r'))"

definition writeComInitDb :: "jsstr \<Rightarrow> unit pm" where
  "writeComInitDb schema = bindM (new_command COM_INIT_DB) (\<lambda>_. modifyM (writeShortString schema))"

definition maybeInitDb :: "bool pl" where
  "maybeInitDb =
     bindL (getL id) (\<lambda>r.
       if p_pendingChangeSchema r \<noteq> [] then
         bindL (if p_schema r = [] \<or> p_schema r \<noteq> p_pendingChangeSchema r then
                  bindL (total_of (writeComInitDb (p_pendingChangeSchema r))) (\<lambda>_. retL True)
                else retL False)
           (\<lambda>written. bindL (setL (\<lambda>r. r\<lparr>p_pendingChangeSchema := []\<rparr>)) (\<lambda>_. retL written))
       else retL False)"

definition maybeSetOption :: "int \<Rightarrow> bool pl" where
  "maybeSetOption multiStatements =
     bindL (getL p_curMultiStatements) (\<lambda>current.
       if multiStatements = MULTI_STATEMENTS_ON \<and> current = MULTI_STATEMENTS_OFF \<or>
          multiStatements = MULTI_STATEMENTS_OFF \<and> current = MULTI_STATEMENTS_ON then
         bindL (total_of (bindM (new_command COM_SET_OPTION) (\<lambda>_. writeUint16 multiStatements))) (\<lambda>_. retL True)
       else retL False)"

definition use_schema :: "jsstr \<Rightarrow> proto \<Rightarrow> proto" where
  "use_schema schema r = r\<lparr>p_pendingChangeSchema := schema\<rparr>"

section \<open>Discarding rows and resultsets\<close>

partial_function (option) discard_rows :: "penv \<Rightarrow> read_packet_mode \<Rightarrow> int \<Rightarrow> protocol_state pl" where
  "discard_rows h mode okType r =
     (case bindL (readPacket h mode) (\<lambda>typ. bindL (goto_end h) (\<lambda>_. retL typ)) r of
        None \<Rightarrow> None
      | Some (Inl e, r') \<Rightarrow> Some (Inl e, r')
      | Some (Inr typ, r') \<Rightarrow>
          if typ = okType then
            Some (Inr (if has_status r' SERVER_MORE_RESULTS_EXISTS then HAS_MORE_RESULTSETS else IDLE), r')
          else discard_rows h mode okType r')"

text \<open>One turn of the outer loop: the state, and whether the loop goes on.\<close>

definition discard_round ::
  "penv \<Rightarrow> nat \<Rightarrow> read_packet_mode \<Rightarrow> int \<Rightarrow> bool \<Rightarrow> protocol_state \<Rightarrow> (protocol_state \<times> bool) pl" where
  "discard_round h i mode okType onlyRows state =
     bindL (if state = HAS_MORE_ROWS then discard_rows h mode okType else retL state) (\<lambda>state.
       if \<not> onlyRows \<and> state = HAS_MORE_RESULTSETS then
         bindL (readQueryResponse h i mode False) (\<lambda>state. retL (state, True))
       else retL (state, False))"

partial_function (option) discard_loop ::
  "penv \<Rightarrow> nat \<Rightarrow> read_packet_mode \<Rightarrow> int \<Rightarrow> bool \<Rightarrow> protocol_state \<Rightarrow> protocol_state pl" where
  "discard_loop h i mode okType onlyRows state r =
     (case discard_round h i mode okType onlyRows state r of
        None \<Rightarrow> None
      | Some (Inl e, r') \<Rightarrow> Some (Inl e, r')
      | Some (Inr (state', again), r') \<Rightarrow>
          if again then discard_loop h i mode okType onlyRows state' r' else Some (Inr state', r'))"

text \<open>The resultsets are read to the end; a prepared statement keeps its protocol, for the next execution.\<close>

definition finish_resultsets :: "nat \<Rightarrow> int \<Rightarrow> unit pl" where
  "finish_resultsets i stmtId =
     bindL (updL i (\<lambda>s. s\<lparr>s_hasProtocol := s_hasProtocol s \<and> \<not> stmtId < 0, s_hasMore := False\<rparr>)) (\<lambda>_.
       setL (\<lambda>r. r\<lparr>p_curResultsets := None\<rparr>))"

definition type_error :: exn where "type_error = js_error ''TypeError''"

text \<open>The resultsets that the protocol is at; without them, reading a field is a TypeError.\<close>

definition cur_resultsets :: "nat pl" where
  "cur_resultsets = bindL (getL p_curResultsets) (\<lambda>c. case c of Some i \<Rightarrow> retL i | None \<Rightarrow> throwL type_error)"

definition doDiscard :: "penv \<Rightarrow> protocol_state \<Rightarrow> bool \<Rightarrow> protocol_state pl" where
  "doDiscard h state onlyRows =
     bindL cur_resultsets (\<lambda>i. bindL (getL (cur i)) (\<lambda>s.
       let mode = (if s_isPreparedStmt s then ROWS_OR_PREPARED_STMT else REGULAR);
           okType = (if s_isPreparedStmt s then PACKET_EOF else PACKET_OK)
       in bindL (discard_loop h i mode okType onlyRows state) (\<lambda>state.
          bindL (whenL (state = IDLE) (finish_resultsets i (s_stmtId s))) (\<lambda>_. retL state))))"

section \<open>Queries\<close>

record query_options =
  q_rowType :: row_type
  q_letReturnUndefined :: bool
  q_multiStatements :: int
  q_noConvertError :: bool
  q_maxColumnLen :: int
  q_retryLockWaitTimeout :: bool
  q_jsonAsString :: bool
  q_datesAsString :: bool
  q_correctDates :: bool

definition new_resultsets :: "query_options \<Rightarrow> resultsets" where
  "new_resultsets q =
     \<lparr>s_rowType = q_rowType q, s_maxColumnLen = q_maxColumnLen q, s_jsonAsString = q_jsonAsString q,
      s_datesAsString = q_datesAsString q, s_correctDates = q_correctDates q, s_hasProtocol = False,
      s_isPreparedStmt = False, s_stmtId = -1, s_hasMore = False, s_columns = [], s_lastInsertId = 0, s_affectedRows = 0,
      s_foundRows = 0, s_warnings = 0, s_statusInfo = [], s_noGoodIndexUsed = False, s_noIndexUsed = False,
      s_isSlowQuery = False, s_nPlaceholders = 0\<rparr>"

definition newL :: "resultsets \<Rightarrow> nat pl" where
  "newL s = bindL (getL (\<lambda>r. length (p_resultsets r)))
     (\<lambda>i. bindL (setL (\<lambda>r. r\<lparr>p_resultsets := p_resultsets r @ [s]\<rparr>)) (\<lambda>_. retL i))"

text \<open>The result of a packet that is read in a \<open>try\<close> block, after which the function goes on.\<close>

definition read_result :: "penv \<Rightarrow> unit pl \<Rightarrow> exn option \<Rightarrow> exn option pl" where
  "read_result h onOk error =
     tryL (bindL (readPacket h REGULAR) (\<lambda>_. bindL onOk (\<lambda>_. retL error))) (\<lambda>e. retL (Some e))"

text \<open>What a query begins with: pending commands, the query, and the results of the commands before it.\<close>

definition query_send :: "penv \<Rightarrow> sql_source \<Rightarrow> query_options \<Rightarrow> exn option pl" where
  "query_send h sql q =
     bindL (doPendingAll h) (\<lambda>_. bindL maybeInitDb (\<lambda>wantInitDb. bindL (maybeSetOption (q_multiStatements q)) (\<lambda>wantSetOption.
     bindL (total_of (new_command COM_QUERY)) (\<lambda>_. bindL (sendWithData (e_cz h) False sql) (\<lambda>_.
     bindL (if wantInitDb then read_result h (retL ()) None else retL None) (\<lambda>error.
       if wantSetOption then
         read_result h (setL (\<lambda>r. r\<lparr>p_curMultiStatements := q_multiStatements q\<rparr>)) error
       else retL error))))))"

text \<open>The resultsets become those that the protocol is at, unless the response had none.\<close>

definition attach_resultsets :: "penv \<Rightarrow> query_options \<Rightarrow> nat \<Rightarrow> protocol_state \<Rightarrow> protocol_state pl" where
  "attach_resultsets h q i state =
     (if state = IDLE then retL state
      else
        bindL (updL i (\<lambda>s. s\<lparr>s_hasProtocol := True, s_hasMore := True\<rparr>)) (\<lambda>_.
        bindL (setL (\<lambda>r. r\<lparr>p_curResultsets := Some i\<rparr>)) (\<lambda>_.
          if q_rowType q = ROW_VOID then doDiscard h state False else retL state)))"

text \<open>The rest of the \<open>try\<close> block: the response is read also when a command before the query failed.\<close>

definition query_response :: "penv \<Rightarrow> query_options \<Rightarrow> exn option \<Rightarrow> nat pl" where
  "query_response h q error =
     bindL (newL (new_resultsets q)) (\<lambda>i.
     bindL (readQueryResponse h i REGULAR False) (\<lambda>state.
     bindL (attach_resultsets h q i state) (\<lambda>state.
     bindL (setL (setState state)) (\<lambda>_. case error of Some e \<Rightarrow> throwL e | None \<Rightarrow> retL i))))"

definition first_error :: "exn option \<Rightarrow> exn \<Rightarrow> exn" where
  "first_error error e = (case error of Some e0 \<Rightarrow> e0 | None \<Rightarrow> e)"

definition query_attempt :: "penv \<Rightarrow> sql_source \<Rightarrow> query_options \<Rightarrow> nat pl" where
  "query_attempt h sql q =
     bindL (query_send h sql q) (\<lambda>error. tryL (query_response h q error) (\<lambda>e. throwL (first_error error e)))"

text \<open>The \<open>catch\<close> block, and the loop over the attempts; \<open>None\<close> is \<open>undefined\<close>.\<close>

fun query_loop :: "penv \<Rightarrow> sql_source \<Rightarrow> query_options \<Rightarrow> bool \<Rightarrow> nat \<Rightarrow> nat option pl" where
  "query_loop h sql q isFromPool retryQueryTimes =
     tryL (bindL (query_attempt h sql q) (\<lambda>i. retL (Some i)))
       (\<lambda>e. if wants_retry retryQueryTimes (q_retryLockWaitTimeout q) e then
              (case retryQueryTimes of
                 Suc n \<Rightarrow> query_loop h sql q isFromPool n
               | 0 \<Rightarrow> throwL e)
            else if q_noConvertError q then throwL e
            else bindL (rethrowErrorIfFatal e (isFromPool \<and> q_letReturnUndefined q)) (\<lambda>_. retL None))"

declare query_loop.simps [simp del]

definition sendComQuery :: "penv \<Rightarrow> sql_source \<Rightarrow> query_options \<Rightarrow> nat \<Rightarrow> nat option pl" where
  "sendComQuery h sql q retryQueryTimes =
     bindL setQueryingState (\<lambda>isFromPool. query_loop h sql q isFromPool retryQueryTimes)"

text \<open>The defaults of the parameters, from the DSN.\<close>

definition default_options :: "proto \<Rightarrow> row_type \<Rightarrow> query_options" where
  "default_options r rowType =
     \<lparr>q_rowType = rowType, q_letReturnUndefined = False, q_multiStatements = NO_MATTER, q_noConvertError = False,
      q_maxColumnLen = p_maxColumnLen r, q_retryLockWaitTimeout = n_retryLockWaitTimeout (p_dsn r),
      q_jsonAsString = n_jsonAsString (p_dsn r), q_datesAsString = n_datesAsString (p_dsn r),
      q_correctDates = n_correctDates (p_dsn r)\<rparr>"

section \<open>Prepared statements\<close>

definition prepare_attempt :: "penv \<Rightarrow> sql_source \<Rightarrow> query_options \<Rightarrow> bool \<Rightarrow> nat pl" where
  "prepare_attempt h sql q skipColumns =
     bindL (doPendingAll h) (\<lambda>_. bindL maybeInitDb (\<lambda>wantInitDb.
     bindL (total_of (new_command COM_STMT_PREPARE)) (\<lambda>_. bindL (sendWithData (e_cz h) False sql) (\<lambda>_.
     bindL (if wantInitDb then read_result h (retL ()) None else retL None) (\<lambda>error.
     bindL (newL (new_resultsets q)) (\<lambda>i.
     bindL (readQueryResponse h i ROWS_OR_PREPARED_STMT skipColumns) (\<lambda>_.
     bindL (updL i (\<lambda>s. s\<lparr>s_hasProtocol := True\<rparr>)) (\<lambda>_.
     bindL (setL (setState IDLE)) (\<lambda>_. case error of Some e \<Rightarrow> throwL e | None \<Rightarrow> retL i)))))))))"

definition sendComStmtPrepare :: "penv \<Rightarrow> sql_source \<Rightarrow> query_options \<Rightarrow> bool \<Rightarrow> nat option pl" where
  "sendComStmtPrepare h sql q skipColumns =
     bindL setQueryingState (\<lambda>isFromPool.
       tryL (bindL (prepare_attempt h sql q skipColumns) (\<lambda>i. retL (Some i)))
         (\<lambda>e. bindL (rethrowErrorIfFatal e (isFromPool \<and> q_letReturnUndefined q)) (\<lambda>_. retL None)))"

definition disposePreparedStmt :: "int \<Rightarrow> proto \<Rightarrow> proto" where
  "disposePreparedStmt stmtId r =
     (if p_state r \<noteq> ERROR_STATE \<and> p_state r \<noteq> TERMINATED then
        r\<lparr>p_pendingCloseStmts := p_pendingCloseStmts r @ [stmtId]\<rparr>
      else r)"

section \<open>Rows\<close>

text \<open>
  The row of \<open>fetch()\<close> with the reader of the last column set in it. The reader is used by one caller at a time.
\<close>

definition fetch_row :: "penv \<Rightarrow> read_options \<Rightarrow> row option pl" where
  "fetch_row h p =
     bindL cur_resultsets (\<lambda>i. bindL (getL (cur i)) (\<lambda>s.
     bindL (readPacket h ROWS_OR_PREPARED_STMT) (\<lambda>typ.
       if typ = PACKET_EOF then
         bindL (getL (\<lambda>r. has_status r SERVER_MORE_RESULTS_EXISTS)) (\<lambda>more.
         bindL (if more then setL (setState HAS_MORE_RESULTSETS)
                else bindL (finish_resultsets i (s_stmtId s)) (\<lambda>_. setL (setState IDLE))) (\<lambda>_. retL None))
       else
         bindL getTimezoneMsecOffset (\<lambda>tz.
         bindL (if \<not> s_isPreparedStmt s then
                  bindL (setL (unput (word_of_int (typ AND 0xFF)))) (\<lambda>_.
                    deserializeRowText (env.truncate h) (conn_rd h) p tz (map column.truncate (s_columns s)))
                else deserializeRowBinary (env.truncate h) (conn_rd h) p tz (map column.truncate (s_columns s)))
           (\<lambda>(row, lastColumnReaderLen).
              bindL (if is_last_reader p then
                       setL (\<lambda>r. r\<lparr>p_lastColumn := Some \<lparr>l_remaining = lastColumnReaderLen,
                         l_inPacket = min lastColumnReaderLen (r_payloadLength r - r_packetOffset r)\<rparr>\<rparr>)
                     else setL (setState HAS_MORE_ROWS)) (\<lambda>_. retL (Some row)))))))"

definition fetch :: "penv \<Rightarrow> read_options \<Rightarrow> row option pl" where
  "fetch h p =
     bindL (getL p_state) (\<lambda>state.
       if state \<in> {IDLE, IDLE_IN_POOL, HAS_MORE_RESULTSETS} then retL None
       else if state = QUERYING then throwL (busy ''Previous operation is still in progress'')
       else if state = TERMINATED then throwL connection_terminated
       else bindL (setL (\<lambda>r. r\<lparr>p_state := QUERYING\<rparr>)) (\<lambda>_. tryL (fetch_row h p) rethrowError))"

text \<open>
  One turn of the loop of the reader of the last column, for a view of \<open>len\<close> bytes: the bytes, \<open>None\<close> at the end of the
  value, and whether the loop goes on.
\<close>

definition last_column_round :: "penv \<Rightarrow> nat \<Rightarrow> (byte list option \<times> bool) pl" where
  "last_column_round h len =
     bindL (getL (\<lambda>r. (p_lastColumn r, r_payloadLength r))) (\<lambda>(lastColumn, payloadLength).
       case lastColumn of
         None \<Rightarrow> retL (None, False)
       | Some l \<Rightarrow>
           if l_remaining l \<le> 0 then
             bindL (whenL (payloadLength = 0xFFFFFF) (get_header h)) (\<lambda>_.
             bindL (doDiscard h HAS_MORE_ROWS False) (\<lambda>_.
             bindL (setL (\<lambda>r. setState IDLE (r\<lparr>p_lastColumn := None\<rparr>))) (\<lambda>_.
             bindL (getL p_onEndSession) (\<lambda>ending. if ending \<noteq> None then throwL connection_terminated else retL (None, False)))))
           else
             bindL (if l_inPacket l \<le> 0 then
                      bindL (get_header h) (\<lambda>_. getL (\<lambda>r. min (l_remaining l) (r_payloadLength r - r_packetOffset r)))
                    else retL (l_inPacket l)) (\<lambda>inPacket.
               let n = min (int len) inPacket
               in bindL (readBytesToBuffer (conn_rd h) (nat n)) (\<lambda>bytes.
                  bindL (setL (\<lambda>r. r\<lparr>p_lastColumn := Some \<lparr>l_remaining = l_remaining l - n, l_inPacket = inPacket - n\<rparr>\<rparr>)) (\<lambda>_.
                  bindL (getL p_onEndSession) (\<lambda>ending. retL (Some bytes, ending \<noteq> None))))))"

partial_function (option) last_column_loop :: "penv \<Rightarrow> nat \<Rightarrow> byte list option pl" where
  "last_column_loop h len r =
     (case last_column_round h len r of
        None \<Rightarrow> None
      | Some (Inl e, r') \<Rightarrow> Some (Inl e, r')
      | Some (Inr (bytes, again), r') \<Rightarrow> if again then last_column_loop h len r' else Some (Inr bytes, r'))"

definition last_column_read :: "penv \<Rightarrow> nat \<Rightarrow> byte list option pl" where
  "last_column_read h len = tryL (last_column_loop h len) rethrowError"

section \<open>The next resultset\<close>

definition reset_fields :: "resultsets \<Rightarrow> resultsets" where
  "reset_fields s =
     s\<lparr>s_lastInsertId := 0, s_affectedRows := 0, s_foundRows := 0, s_warnings := 0, s_statusInfo := [],
       s_noGoodIndexUsed := False, s_noIndexUsed := False, s_isSlowQuery := False\<rparr>"

definition next_response :: "penv \<Rightarrow> protocol_state pl" where
  "next_response h =
     bindL (setL (\<lambda>r. r\<lparr>p_state := QUERYING\<rparr>)) (\<lambda>_. bindL cur_resultsets (\<lambda>i. bindL (getL (cur i)) (\<lambda>s.
     bindL (updL i reset_fields) (\<lambda>_.
     bindL (readQueryResponse h i (if s_isPreparedStmt s then ROWS_OR_PREPARED_STMT else REGULAR) False) (\<lambda>state.
     bindL (whenL (state = IDLE) (finish_resultsets i (s_stmtId s))) (\<lambda>_. retL state))))))"

definition nextResultset :: "penv \<Rightarrow> bool \<Rightarrow> bool pl" where
  "nextResultset h ignoreTerminated =
     bindL (getL p_state) (\<lambda>state.
       if state \<in> {IDLE, IDLE_IN_POOL} then retL False
       else if state = QUERYING then throwL (busy ''Previous operation is still in progress'')
       else if state = ERROR_STATE then throwL (js_error ''Protocol error'')
       else if state = TERMINATED then (if ignoreTerminated then retL False else throwL connection_terminated)
       else
         tryL
           (bindL (if state = HAS_MORE_ROWS then
                     bindL (setL (\<lambda>r. r\<lparr>p_state := QUERYING\<rparr>)) (\<lambda>_. doDiscard h state True)
                   else retL state) (\<lambda>state.
            bindL (if state = HAS_MORE_RESULTSETS then next_response h else retL state) (\<lambda>state'.
            bindL (setL (setState state')) (\<lambda>_. retL (state = HAS_MORE_RESULTSETS)))))
           rethrowError)"

section \<open>The end of a session\<close>

definition sendComQuit :: "penv \<Rightarrow> unit pm" where
  "sendComQuit h = bindM (new_command COM_QUIT) (\<lambda>_. send (e_cz h))"

text \<open>The result says whether the server knows COM_RESET_CONNECTION.\<close>

definition sendComResetConnectionAndInitDb :: "penv \<Rightarrow> jsstr \<Rightarrow> bool pl" where
  "sendComResetConnectionAndInitDb h schema =
     bindL (total_of (new_command COM_RESET_CONNECTION)) (\<lambda>_.
     bindL (whenL (schema \<noteq> []) (total_of (writeComInitDb schema))) (\<lambda>_.
     bindL (total_of (send (e_cz h))) (\<lambda>_.
     bindL (tryL (bindL (readPacket h REGULAR) (\<lambda>_. retL (True, None)))
              (\<lambda>e. if \<not> is_SqlError e then throwL e
                   else if exn_message e = js ''Unknown command'' then retL (False, None)
                   else retL (True, Some e))) (\<lambda>(isOk, error).
     bindL (whenL (schema \<noteq> []) (bindL (readPacket h REGULAR) (\<lambda>_. retL ()))) (\<lambda>_.
       case error of Some e \<Rightarrow> throwL e | None \<Rightarrow> retL isOk)))))"

definition forceImmediateDisconnect :: "proto \<Rightarrow> bool \<times> proto" where
  "forceImmediateDisconnect r =
     (p_state r = QUERYING,
      if p_state r \<noteq> ERROR_STATE \<and> p_state r \<noteq> TERMINATED then (closer_dispose r)\<lparr>p_state := ERROR_STATE\<rparr> else r)"

text \<open>The new object that goes on with the connection.\<close>

definition recycled_protocol :: "penv \<Rightarrow> proto \<Rightarrow> proto \<times> proto" where
  "recycled_protocol h r =
     (let (useBuffer, r) = recycleBuffer r
      in (r\<lparr>r_buffer := (case useBuffer of Some b \<Rightarrow> b | None \<Rightarrow> replicate BUFFER_LEN 0), r_bufferStart := 0, r_bufferEnd := 0,
            r_sequenceId := 0, r_payloadLength := 0, r_packetOffset := 0, r_totalBytesInPacket := 0,
            r_decoder := e_textDecoder h (js ''utf-8''), w_commandStarts := [],
            r_src := (r_src r)\<lparr>c_compressedSeqId := 0, c_inflated := None, c_verbatimRemaining := 0, c_frameBuffer := None\<rparr>,
            p_statusFlags := 0, p_schema := [],
            p_warnings := 0, p_affectedRows := 0, p_lastInsertId := 0, p_statusInfo := [], p_timezone := None,
            p_state := IDLE, p_resultsets := [], p_curResultsets := None, p_pendingCloseStmts := [],
            p_pendingChangeSchema := [], p_lastColumn := None, p_onEndSession := None\<rparr>, r))"

definition recycle :: "penv \<Rightarrow> bool pl" where
  "recycle h =
     bindL (getL id) (\<lambda>r.
     bindL (sendComResetConnectionAndInitDb h (n_schema (p_dsn r))) (\<lambda>isOk.
       if isOk then
         bindL (if n_initSql (p_dsn r) \<noteq> [] then
                  bindL (sendComQuery h (SqlString (n_initSql (p_dsn r)))
                    (default_options r ROW_VOID\<lparr>q_multiStatements := MULTI_STATEMENTS_ON\<rparr>) (p_retryQueryTimes r)) (\<lambda>_. retL ())
                else retL ()) (\<lambda>_.
         bindL (setL (\<lambda>r. r\<lparr>p_state := IDLE_IN_POOL\<rparr>)) (\<lambda>_. retL True))
       else retL False))"

text \<open>
  The first part of \<open>end()\<close>: when the last column is being read, it is read to its end, and the state is the one that
  the reader reports. A promise that nobody resolves is \<open>None\<close>.
\<close>

partial_function (option) drain_last_column :: "penv \<Rightarrow> unit pl" where
  "drain_last_column h r =
     (if p_lastColumn r = None then Some (Inr (), r)
      else case last_column_read h (8 * 1024) r of
        None \<Rightarrow> None
      | Some (Inl e, r') \<Rightarrow> Some (Inl e, r')
      | Some (Inr bytes, r') \<Rightarrow>
          (case bytes of None \<Rightarrow> Some (Inr (), r') | Some [] \<Rightarrow> Some (Inr (), r') | _ \<Rightarrow> drain_last_column h r'))"

definition end_wait :: "penv \<Rightarrow> protocol_state \<Rightarrow> protocol_state pl" where
  "end_wait h state =
     (if state = QUERYING then
        bindL (setL (\<lambda>r. r\<lparr>p_onEndSession := Some None\<rparr>)) (\<lambda>_.
        bindL (tryL (drain_last_column h) (\<lambda>_. retL ())) (\<lambda>_ r.
          case p_onEndSession r of
            Some (Some state) \<Rightarrow> Some (Inr state, r\<lparr>p_onEndSession := None\<rparr>)
          | _ \<Rightarrow> None))
      else retL state)"

text \<open>Unread resultsets are discarded and marked as cancelled; the result is the state, and whether to recycle.\<close>

definition end_discard :: "penv \<Rightarrow> protocol_state \<Rightarrow> bool \<Rightarrow> (protocol_state \<times> bool) pl" where
  "end_discard h state recycleConnection =
     bindL (getL p_curResultsets) (\<lambda>c.
       case c of
         None \<Rightarrow> retL (state, recycleConnection)
       | Some i \<Rightarrow>
           tryL (bindL (doDiscard h state False) (\<lambda>state. bindL (updL i (\<lambda>s. s\<lparr>s_hasMore := True\<rparr>)) (\<lambda>_.
                   retL (state, recycleConnection))))
                (\<lambda>_. bindL (setL (\<lambda>r. r\<lparr>p_curResultsets := None\<rparr>)) (\<lambda>_. retL (state, False))))"

definition xa_query :: "string \<Rightarrow> jsstr \<Rightarrow> sql_source" where
  "xa_query command xaId = SqlString (js command @ js [CHR 0x27] @ xaId @ js [CHR 0x27])"

definition end_rollback :: "penv \<Rightarrow> jsstr \<Rightarrow> unit pl" where
  "end_rollback h xaId =
     bindL (getL id) (\<lambda>r.
       whenL (xaId \<noteq> [])
         (bindL (tryL (bindL (sendComQuery h (xa_query ''XA END '' xaId) (default_options r ROW_VOID) (p_retryQueryTimes r))
                         (\<lambda>_. retL ())) (\<lambda>_. retL ())) (\<lambda>_.
          tryL (bindL (sendComQuery h (xa_query ''XA ROLLBACK '' xaId)
                         (default_options r ROW_VOID\<lparr>q_noConvertError := True\<rparr>) (p_retryQueryTimes r)) (\<lambda>_. retL ()))
            (\<lambda>_. retL ()))))"

text \<open>The connection is shared by the old and the new object.\<close>

definition share_connection :: "proto \<Rightarrow> proto \<Rightarrow> proto" where
  "share_connection new old =
     old\<lparr>r_src := (r_src old)\<lparr>c_chunks := c_chunks (r_src new)\<rparr>, w_sent := w_sent new, w_fail := w_fail new, p_closed := p_closed new\<rparr>"

definition end_recycle :: "penv \<Rightarrow> proto option pl" where
  "end_recycle h r =
     (let (new, old) = recycled_protocol h r
      in case recycle h new of
           None \<Rightarrow> None
         | Some (Inr True, new') \<Rightarrow> Some (Inr (Some new'), share_connection new' old)
         | Some (_, new') \<Rightarrow> Some (Inr None, (share_connection new' old)\<lparr>r_buffer := r_buffer new'\<rparr>))"

definition end_disconnect :: "penv \<Rightarrow> protocol_state \<Rightarrow> unit pl" where
  "end_disconnect h state =
     whenL (state \<noteq> ERROR_STATE \<and> state \<noteq> TERMINATED)
       (bindL (tryL (total_of (sendComQuit h)) (\<lambda>_. retL ())) (\<lambda>_. setL closer_dispose))"

datatype end_result = Recycled proto | RecycledBuffer "byte list option"

definition end_session :: "penv \<Rightarrow> jsstr \<Rightarrow> bool \<Rightarrow> end_result pl" where
  "end_session h rollbackPreparedXaId recycleConnection =
     bindL (getL p_state) (\<lambda>state.
     bindL (if state = TERMINATED then retL None
            else
              bindL (setL (\<lambda>r. r\<lparr>p_state := TERMINATED\<rparr>)) (\<lambda>_.
              bindL (end_wait h state) (\<lambda>state.
              bindL (end_discard h state recycleConnection) (\<lambda>(state, recycleConnection).
              bindL (end_rollback h rollbackPreparedXaId) (\<lambda>_.
              bindL (setL (\<lambda>r. r\<lparr>p_lastColumn := None, p_onEndSession := None\<rparr>)) (\<lambda>_.
              bindL (if recycleConnection \<and> state \<in> {IDLE, IDLE_IN_POOL} then end_recycle h else retL None) (\<lambda>new.
              case new of
                Some p \<Rightarrow> retL (Some p)
              | None \<Rightarrow> bindL (end_disconnect h state) (\<lambda>_. retL None))))))))
       (\<lambda>new. case new of
          Some p \<Rightarrow> retL (Recycled p)
        | None \<Rightarrow> (\<lambda>r. let (buffer, r) = recycleBuffer r in Some (Inr (RecycledBuffer buffer), r))))"

end
