(* ===== verification/Execute.thy ===== *)
theory Execute
  imports Commands
begin

text \<open>
  The execution of prepared statements and the queries that are sent together: \<open>#sendComStmtExecute()\<close>, \<open>execStmt()\<close> and
  \<open>sendThreeQueries()\<close> of \<open>src/private/my_protocol.ts\<close>.
\<close>

section \<open>Parameters\<close>

text \<open>
  The kinds of values that the code tells apart: nothing (\<open>null\<close>, \<open>undefined\<close>, functions and symbols), typed arrays, streams
  and readers with the chunks that they give, and other objects with the text that \<open>JSON.stringify\<close> makes of them.
\<close>

datatype param =
    PNull | PBool bool | PNum num | PBigInt int | PStr jsstr | PDate num | PBytes "byte list"
  | PStream "byte list list" | PReader "byte list list" | PObject jsstr

definition is_int32 :: "num \<Rightarrow> bool" where
  "is_int32 x =
     (case x of None \<Rightarrow> False | Some q \<Rightarrow> of_int (trunc q) = q \<and> - 0x80000000 \<le> q \<and> q \<le> 0x7FFFFFFF)"

text \<open>\<open>Date.getMilliseconds()\<close> as a condition: neither 0 nor NaN.\<close>

definition has_fraction :: "env \<Rightarrow> num \<Rightarrow> bool" where
  "has_fraction e t \<longleftrightarrow> e_date_fields e t ! 6 \<noteq> Some 0 \<and> e_date_fields e t ! 6 \<noteq> None"

text \<open>Strings and blobs that are written into the packet itself.\<close>

definition short_string :: "jsstr \<Rightarrow> bool" where "short_string s \<longleftrightarrow> length s < 0xFB div 4"
definition short_bytes :: "byte list \<Rightarrow> bool" where "short_bytes bs \<longleftrightarrow> length bs < 0xFB"

text \<open>What the value of a parameter adds to the length of the packet.\<close>

fun param_length :: "env \<Rightarrow> param \<Rightarrow> nat" where
  "param_length e (PBool b) = 1"
| "param_length e (PNum x) = (if is_int32 x then 4 else 8)"
| "param_length e (PBigInt n) = 8"
| "param_length e (PStr s) = (if short_string s then 1 + utf8StringLength s else 0)"
| "param_length e (PDate t) = (if has_fraction e t then 12 else 8)"
| "param_length e (PBytes bs) = (if short_bytes bs then 1 + length bs else 0)"
| "param_length e _ = 0"

section \<open>Long data\<close>

definition long_data_header :: "int \<Rightarrow> nat \<Rightarrow> unit pm" where
  "long_data_header stmtId i =
     bindM (new_command COM_STMT_SEND_LONG_DATA) (\<lambda>_. bindM (writeUint32 stmtId) (\<lambda>_. writeUint16 (int i)))"

definition send_long_data :: "penv \<Rightarrow> int \<Rightarrow> nat \<Rightarrow> sql_source \<Rightarrow> unit pl" where
  "send_long_data h stmtId i data =
     bindL (total_of (long_data_header stmtId i)) (\<lambda>_. bindL (sendWithData (e_cz h) True data) (\<lambda>_. retL ()))"

text \<open>One chunk of a stream or of a reader, as a command of its own; \<open>None\<close> at its end.\<close>

definition send_long_chunk :: "penv \<Rightarrow> int \<Rightarrow> nat \<Rightarrow> bool \<Rightarrow> byte list list \<Rightarrow> byte list list option pl" where
  "send_long_chunk h stmtId i isStream chunks =
     bindL (total_of (long_data_header stmtId i)) (\<lambda>_.
     bindL (getL (\<lambda>r. file_read (length (r_buffer r) - r_bufferEnd r) chunks)) (\<lambda>(v, chunks').
       case v of
         None \<Rightarrow> bindL (setL discardPacket) (\<lambda>_. retL None)
       | Some bs \<Rightarrow>
           bindL (total_of (if isStream then writeShortBytes bs else bindM (writeReadChunk (Some bs)) (\<lambda>_. ret ()))) (\<lambda>_.
           bindL (total_of (send (e_cz h))) (\<lambda>_. retL (Some chunks')))))"

text \<open>The loop over the chunks; the result is \<open>isNotEmpty\<close>.\<close>

partial_function (option) send_long_chunks :: "penv \<Rightarrow> int \<Rightarrow> nat \<Rightarrow> bool \<Rightarrow> byte list list \<Rightarrow> bool \<Rightarrow> bool pl" where
  "send_long_chunks h stmtId i isStream chunks isNotEmpty r =
     (case send_long_chunk h stmtId i isStream chunks r of
        None \<Rightarrow> None
      | Some (Inl e, r') \<Rightarrow> Some (Inl e, r')
      | Some (Inr None, r') \<Rightarrow> Some (Inr isNotEmpty, r')
      | Some (Inr (Some chunks'), r') \<Rightarrow> send_long_chunks h stmtId i isStream chunks' True r')"

text \<open>What is sent before the execution for parameter \<open>i\<close>; the result says that it is an empty stream.\<close>

fun send_long_param :: "penv \<Rightarrow> int \<Rightarrow> nat \<Rightarrow> param \<Rightarrow> bool pl" where
  "send_long_param h stmtId i (PStr s) =
     (if short_string s then retL False else bindL (send_long_data h stmtId i (SqlString s)) (\<lambda>_. retL False))"
| "send_long_param h stmtId i (PBytes bs) =
     (if short_bytes bs then retL False else bindL (send_long_data h stmtId i (SqlBytes bs)) (\<lambda>_. retL False))"
| "send_long_param h stmtId i (PStream chunks) =
     bindL (send_long_chunks h stmtId i True chunks False) (\<lambda>isNotEmpty. retL (\<not> isNotEmpty))"
| "send_long_param h stmtId i (PReader chunks) =
     bindL (send_long_chunks h stmtId i False chunks False) (\<lambda>isNotEmpty. retL (\<not> isNotEmpty))"
| "send_long_param h stmtId i (PObject json) = bindL (send_long_data h stmtId i (SqlString json)) (\<lambda>_. retL False)"
| "send_long_param h stmtId i _ = retL False"

text \<open>The first loop: the parameters from number \<open>i\<close> on, each with what \<open>emptyBlobs\<close> says of it.\<close>

fun send_long_params :: "penv \<Rightarrow> int \<Rightarrow> nat \<Rightarrow> param list \<Rightarrow> (param \<times> bool) list pl" where
  "send_long_params h stmtId i [] = retL []"
| "send_long_params h stmtId i (p # ps) =
     bindL (send_long_param h stmtId i p) (\<lambda>isEmpty.
     bindL (send_long_params h stmtId (i + 1) ps) (\<lambda>rest. retL ((p, isEmpty) # rest)))"

section \<open>The packet of the execution\<close>

text \<open>Sends what is in the buffer unless \<open>n\<close> bytes and one more fit behind it.\<close>

definition flush_unless :: "compressor \<Rightarrow> nat \<Rightarrow> unit pm" where
  "flush_unless cz n r =
     (if length (r_buffer r) \<le> r_bufferEnd r + n then
        bindM (\<lambda>r. sendPackets cz (r_bufferEnd r) r) (\<lambda>_. modifyM (\<lambda>r. r\<lparr>r_bufferStart := 0, r_bufferEnd := 0\<rparr>)) r
      else (Inr (), r))"

fun write_null_bits :: "compressor \<Rightarrow> byte \<Rightarrow> byte \<Rightarrow> param list \<Rightarrow> unit pm" where
  "write_null_bits cz nullBits nullBitMask [] =
     (if nullBitMask \<noteq> 1 then modifyM (write_element nullBits) else ret ())"
| "write_null_bits cz nullBits nullBitMask (p # ps) =
     (let nullBits = (if p = PNull then nullBits OR nullBitMask else nullBits)
      in if nullBitMask \<noteq> 0x80 then write_null_bits cz nullBits (push_bit 1 nullBitMask) ps
         else bindM (flush_unless cz 3) (\<lambda>_. bindM (modifyM (write_element nullBits)) (\<lambda>_. write_null_bits cz 0 1 ps)))"

fun param_type :: "param \<Rightarrow> nat" where
  "param_type (PBool b) = MYSQL_TYPE_TINY"
| "param_type (PNum x) = (if is_int32 x then MYSQL_TYPE_LONG else MYSQL_TYPE_DOUBLE)"
| "param_type (PBigInt n) = (if 0x7FFFFFFFFFFFFFFF < n then MYSQL_TYPE_LONGLONG + 0x8000 else MYSQL_TYPE_LONGLONG)"
| "param_type (PDate t) = MYSQL_TYPE_DATETIME"
| "param_type (PBytes bs) = MYSQL_TYPE_LONG_BLOB"
| "param_type (PStream chunks) = MYSQL_TYPE_LONG_BLOB"
| "param_type (PReader chunks) = MYSQL_TYPE_LONG_BLOB"
| "param_type _ = MYSQL_TYPE_STRING"

fun write_types :: "compressor \<Rightarrow> param list \<Rightarrow> unit pm" where
  "write_types cz [] = ret ()"
| "write_types cz (p # ps) =
     bindM (flush_unless cz 2) (\<lambda>_. bindM (writeUint16 (int (param_type p))) (\<lambda>_. write_types cz ps))"

definition write_date_param :: "env \<Rightarrow> num \<Rightarrow> num \<Rightarrow> unit pm" where
  "write_date_param e tz t =
     (let t = (if tz \<noteq> Some 0 then num_add t tz else t); f = e_date_fields e t; frac = has_fraction e t
      in bindM (writeUint8 (if frac then 11 else 7)) (\<lambda>_. bindM (write_num writeUint16 (f ! 0)) (\<lambda>_.
         bindM (write_num writeUint8 (num_add (f ! 1) (Some 1))) (\<lambda>_. bindM (write_num writeUint8 (f ! 2)) (\<lambda>_.
         bindM (write_num writeUint8 (f ! 3)) (\<lambda>_. bindM (write_num writeUint8 (f ! 4)) (\<lambda>_.
         bindM (write_num writeUint8 (f ! 5)) (\<lambda>_.
           if frac then write_num writeUint32 (num_mul (f ! 6) (Some 1000)) else ret ()))))))))"

text \<open>The value of one parameter, with the flag of empty streams; \<open>tz\<close> is the offset that dates are corrected by.\<close>

fun write_param :: "env \<Rightarrow> num \<Rightarrow> bool \<Rightarrow> param \<Rightarrow> unit pm" where
  "write_param e tz isEmpty (PBool b) = writeUint8 (if b then 1 else 0)"
| "write_param e tz isEmpty (PNum x) = (if is_int32 x then write_num writeUint32 x else writeDouble (e_f64_bits e x))"
| "write_param e tz isEmpty (PBigInt n) = writeUint64 n"
| "write_param e tz isEmpty (PStr s) = (if short_string s then writeShortLenencString s else ret ())"
| "write_param e tz isEmpty (PDate t) = write_date_param e tz t"
| "write_param e tz isEmpty (PBytes bs) = (if short_bytes bs then writeShortLenencBytes bs else ret ())"
| "write_param e tz isEmpty (PStream chunks) = (if isEmpty then writeUint8 0 else ret ())"
| "write_param e tz isEmpty (PReader chunks) = (if isEmpty then writeUint8 0 else ret ())"
| "write_param e tz isEmpty _ = ret ()"

fun write_params :: "env \<Rightarrow> compressor \<Rightarrow> num \<Rightarrow> (param \<times> bool) list \<Rightarrow> unit pm" where
  "write_params e cz tz [] = ret ()"
| "write_params e cz tz ((p, isEmpty) # ps) =
     bindM (flush_unless cz 0xFB) (\<lambda>_. bindM (write_param e tz isEmpty p) (\<lambda>_. write_params e cz tz ps))"

definition execute_length :: "env \<Rightarrow> (param \<times> bool) list \<Rightarrow> nat" where
  "execute_length e ps =
     (let n = length ps
      in 11 + n div 8 + (if n mod 8 \<noteq> 0 then 1 else 0) + 2 * n + sum_list (map (param_length e \<circ> fst) ps) +
         length (filter snd ps))"

definition too_many_params :: exn where
  "too_many_params = js_error (''Couldn'' @ [CHR 0x27] @ ''t send so many parameters'')"

text \<open>The packet; what is left in the buffer is sent at the end.\<close>

definition write_execute :: "env \<Rightarrow> compressor \<Rightarrow> int \<Rightarrow> num \<Rightarrow> (param \<times> bool) list \<Rightarrow> unit pm" where
  "write_execute e cz stmtId tz ps =
     bindM (startWritingNewPacket True) (\<lambda>_. bindM (setHeader (execute_length e ps)) (\<lambda>_.
     bindM (writeUint8 COM_STMT_EXECUTE) (\<lambda>_. bindM (writeUint32 stmtId) (\<lambda>_. bindM (writeUint8 0) (\<lambda>_.
     bindM (writeUint32 1) (\<lambda>_. bindM (write_null_bits cz 0 1 (map fst ps)) (\<lambda>_. bindM (writeUint8 1) (\<lambda>_.
     bindM (write_types cz (map fst ps)) (\<lambda>_. bindM (write_params e cz tz ps) (\<lambda>_ r.
       if 0 < r_bufferEnd r then
         bindM (sendPackets cz (r_bufferEnd r)) (\<lambda>_. modifyM (\<lambda>r. r\<lparr>r_bufferStart := 0, r_bufferEnd := 0\<rparr>)) r
       else (Inr (), r)))))))))))"

text \<open>Parameters that the caller did not give are \<open>undefined\<close>.\<close>

definition placeholders :: "nat \<Rightarrow> param list \<Rightarrow> param list" where
  "placeholders n params = take n (params @ replicate n PNull)"

fun is_date :: "param \<Rightarrow> bool" where
  "is_date (PDate t) = True"
| "is_date _ = False"

text \<open>The offset of the time zone is asked for at the first date.\<close>

definition sendComStmtExecute :: "penv \<Rightarrow> int \<Rightarrow> nat \<Rightarrow> param list \<Rightarrow> bool \<Rightarrow> unit pl" where
  "sendComStmtExecute h stmtId nPlaceholders params correctDates =
     bindL (send_long_params h stmtId 0 (placeholders nPlaceholders params)) (\<lambda>ps.
       if 0xFFFFFF \<le> execute_length (env.truncate h) ps then throwL too_many_params
       else
         bindL (if correctDates \<and> list_ex (is_date \<circ> fst) ps then getTimezoneMsecOffset else retL (Some 0)) (\<lambda>tz.
           total_of (write_execute (env.truncate h) (e_cz h) stmtId tz ps)))"

section \<open>The execution of a prepared statement\<close>

definition not_prepared :: "bool \<Rightarrow> exn" where
  "not_prepared isPreparedStmt =
     new_SqlError (js (if isPreparedStmt then ''This prepared statement disposed'' else ''Not a prepared statement'')) 0 [] False False"

text \<open>The number of columns, when the first byte of the packet was the beginning of a longer number.\<close>

definition read_n_columns :: "penv \<Rightarrow> int \<Rightarrow> int pl" where
  "read_n_columns h rowNColumns =
     (if 0xFB \<le> rowNColumns then
        bindL (setL (unput (word_of_int rowNColumns))) (\<lambda>_. bindL (get_lenenc h) (\<lambda>n.
          if MAX_SAFE_INTEGER < n then throwL (too_many_columns n) else retL n))
      else retL rowNColumns)"

text \<open>The rest of an OK packet whose first byte is read already.\<close>

definition read_ok_continuation :: "penv \<Rightarrow> unit pl \<Rightarrow> unit pl" where
  "read_ok_continuation h after =
     bindL (getL isAtEndOfPacket) (\<lambda>atEnd.
       whenL (\<not> atEnd) (bindL (readPacket h PREPARED_STMT_OK_CONTINUATION) (\<lambda>_. after)))"

definition exec_response :: "penv \<Rightarrow> nat \<Rightarrow> unit pl" where
  "exec_response h i =
     bindL (readPacket h ROWS_OR_PREPARED_STMT) (\<lambda>typ.
     bindL (read_n_columns h (typ AND 0xFF)) (\<lambda>rowNColumns.
     bindL (getL (\<lambda>r. has_status r SERVER_MORE_RESULTS_EXISTS)) (\<lambda>more.
       if 0 < rowNColumns then
         bindL (readColumnDefinitionPackets h (nat rowNColumns)) (\<lambda>columns.
         bindL (updL i (\<lambda>s. s\<lparr>s_columns := columns, s_hasProtocol := True, s_hasMore := True\<rparr>)) (\<lambda>_.
           setL (\<lambda>r. setState HAS_MORE_ROWS (r\<lparr>p_curResultsets := Some i\<rparr>))))
       else if more then
         bindL (updL i (\<lambda>s. s\<lparr>s_hasProtocol := True, s_hasMore := True\<rparr>)) (\<lambda>_.
         bindL (read_ok_continuation h (initResultsets i)) (\<lambda>_.
           setL (\<lambda>r. setState HAS_MORE_RESULTSETS (r\<lparr>p_curResultsets := Some i\<rparr>))))
       else bindL (read_ok_continuation h (initResultsets i)) (\<lambda>_. setL (setState IDLE)))))"

definition execStmt :: "penv \<Rightarrow> nat \<Rightarrow> param list \<Rightarrow> bool \<Rightarrow> unit pl" where
  "execStmt h i params correctDates =
     bindL (getL (cur i)) (\<lambda>s.
       if s_stmtId s < 0 then throwL (not_prepared (s_isPreparedStmt s))
       else
         bindL setQueryingState (\<lambda>_.
           tryL (bindL (doPendingAll h) (\<lambda>_.
                 bindL (sendComStmtExecute h (s_stmtId s) (nat (s_nPlaceholders s)) params correctDates) (\<lambda>_.
                   exec_response h i)))
             rethrowError))"

section \<open>Queries that are sent together\<close>

text \<open>
  A prepared statement to execute first (\<open>t_preStmt\<close>, with its parameters) and a query to send before the query
  itself (\<open>t_prequery\<close>).
\<close>

record three_queries =
  t_preStmt :: "(int \<times> param list) option"
  t_prequery :: "sql_source option"
  t_ignorePrequeryError :: bool

definition three_send :: "penv \<Rightarrow> three_queries \<Rightarrow> sql_source \<Rightarrow> query_options \<Rightarrow> (bool \<times> bool) pl" where
  "three_send h t sql q =
     bindL (doPendingAll h) (\<lambda>_. bindL maybeInitDb (\<lambda>wantInitDb.
     bindL (case t_preStmt t of
              None \<Rightarrow> retL ()
            | Some (stmtId, params) \<Rightarrow> sendComStmtExecute h stmtId (length params) params (q_correctDates q)) (\<lambda>_.
     bindL (case t_prequery t of
              None \<Rightarrow> retL False
            | Some prequery \<Rightarrow> bindL (total_of (new_command COM_QUERY)) (\<lambda>_. sendWithData (e_cz h) True prequery)) (\<lambda>_.
     bindL (maybeSetOption (q_multiStatements q)) (\<lambda>wantSetOption.
     bindL (total_of (new_command COM_QUERY)) (\<lambda>_. bindL (sendWithData (e_cz h) False sql) (\<lambda>_.
       retL (wantInitDb, wantSetOption))))))))"

definition read_pre_stmt :: "penv \<Rightarrow> unit pl" where
  "read_pre_stmt h = bindL (readPacket h ROWS_OR_PREPARED_STMT) (\<lambda>_. read_ok_continuation h (retL ()))"

text \<open>The result of the query before: an error of the server may be ignored.\<close>

definition read_prequery :: "penv \<Rightarrow> nat \<Rightarrow> bool \<Rightarrow> exn option \<Rightarrow> (protocol_state \<times> exn option) pl" where
  "read_prequery h i ignoreError error =
     tryL (bindL (readQueryResponse h i REGULAR False) (\<lambda>state. retL (state, error)))
       (\<lambda>e. retL (IDLE, if ignoreError \<and> is_SqlError e then error else Some e))"

definition three_response ::
  "penv \<Rightarrow> three_queries \<Rightarrow> query_options \<Rightarrow> bool \<Rightarrow> exn option \<Rightarrow> nat pl" where
  "three_response h t q wantSetOption error =
     bindL (tryL (whenL (t_preStmt t \<noteq> None) (read_pre_stmt h)) (\<lambda>e. throwL (first_error error e))) (\<lambda>_.
     bindL (newL (new_resultsets q)) (\<lambda>i.
     bindL (if t_prequery t \<noteq> None then read_prequery h i (t_ignorePrequeryError t) error else retL (IDLE, error)) (\<lambda>(state, error).
     bindL (if wantSetOption then
              read_result h (setL (\<lambda>r. r\<lparr>p_curMultiStatements := q_multiStatements q\<rparr>)) error
            else retL error) (\<lambda>error.
     bindL (tryL (bindL (readQueryResponse h i REGULAR False) (\<lambda>state. retL (state, error))) (\<lambda>e. retL (state, Some e))) (\<lambda>(state, error).
       case error of
         Some e \<Rightarrow> throwL e
       | None \<Rightarrow> bindL (attach_resultsets h q i state) (\<lambda>state. bindL (setL (setState state)) (\<lambda>_. retL i)))))))"

text \<open>
  The error that the \<open>catch\<close> block sees is the one that COM_INIT_DB left when the prepared statement fails too; errors that are
  recorded later are thrown at the end of the block.
\<close>

definition three_attempt :: "penv \<Rightarrow> three_queries \<Rightarrow> sql_source \<Rightarrow> query_options \<Rightarrow> nat pl" where
  "three_attempt h t sql q =
     bindL (three_send h t sql q) (\<lambda>(wantInitDb, wantSetOption).
     bindL (if wantInitDb then read_result h (retL ()) None else retL None) (\<lambda>error.
       three_response h t q wantSetOption error))"

text \<open>A repetition sends only the query.\<close>

fun three_loop :: "penv \<Rightarrow> three_queries \<Rightarrow> sql_source \<Rightarrow> query_options \<Rightarrow> bool \<Rightarrow> nat \<Rightarrow> nat option pl" where
  "three_loop h t sql q isFromPool retryQueryTimes =
     tryL (bindL (three_attempt h t sql q) (\<lambda>i. retL (Some i)))
       (\<lambda>e. if wants_retry retryQueryTimes (q_retryLockWaitTimeout q) e then
              (case retryQueryTimes of
                 Suc n \<Rightarrow> three_loop h (t\<lparr>t_preStmt := None, t_prequery := None\<rparr>) sql q isFromPool n
               | 0 \<Rightarrow> throwL e)
            else bindL (rethrowErrorIfFatal e (isFromPool \<and> q_letReturnUndefined q)) (\<lambda>_. retL None))"

declare three_loop.simps [simp del]

definition sendThreeQueries :: "penv \<Rightarrow> three_queries \<Rightarrow> sql_source \<Rightarrow> query_options \<Rightarrow> nat \<Rightarrow> nat option pl" where
  "sendThreeQueries h t sql q retryQueryTimes =
     bindL setQueryingState (\<lambda>isFromPool. three_loop h t sql q isFromPool retryQueryTimes)"

end
