(* ===== verification/XaId.thy ===== *)
theory XaId
  imports Doubles
begin

text \<open>
  The identifiers of distributed transactions, \<open>src/private/xa_id_gen.ts\<close>: generating them, and finding the time, the
  process and the connection in one. The specification is that \<open>decode\<close> inverts what is generated, and that no identifier is
  given twice while the clock does not go back.
\<close>

section \<open>Numbers in a base\<close>

text \<open>\<open>Number.prototype.toString(base)\<close> of a natural number.\<close>

definition base_char :: "nat \<Rightarrow> 16 word" where
  "base_char d = word_of_nat (if d < 10 then 48 + d else 87 + d)"

function to_base :: "nat \<Rightarrow> nat \<Rightarrow> jsstr" where
  "to_base b n = (if b < 2 \<or> n < b then [base_char n] else to_base b (n div b) @ [base_char (n mod b)])"
  by auto
termination
  by (relation "measure snd") auto

declare to_base.simps [simp del]

definition is_digit10 :: "16 word \<Rightarrow> bool" where "is_digit10 c \<longleftrightarrow> 48 \<le> c \<and> c \<le> 57"
definition is_alnum :: "16 word \<Rightarrow> bool" where "is_alnum c \<longleftrightarrow> is_digit10 c \<or> 97 \<le> c \<and> c \<le> 122"

definition digit_of :: "16 word \<Rightarrow> nat" where
  "digit_of c = (if is_digit10 c then unat c - 48 else unat c - 87)"

text \<open>\<open>parseInt(text, base)\<close> of a text that has only digits of the base; without any the result is NaN.\<close>

definition digits_value :: "nat \<Rightarrow> jsstr \<Rightarrow> nat" where
  "digits_value b s = foldl (\<lambda>n c. n * b + digit_of c) 0 s"

definition parseInt :: "jsstr \<Rightarrow> nat \<Rightarrow> num" where
  "parseInt s b = (if s = [] then None else Some (double (of_nat (digits_value b s))))"

section \<open>The generator\<close>

record xa_gen =
  g_lastTime :: nat
  g_lastEnum :: nat

definition new_xa_gen :: xa_gen where
  "new_xa_gen = \<lparr>g_lastTime = 0, g_lastEnum = 0\<rparr>"

definition sep_dot :: "16 word" where "sep_dot = 46"
definition sep_at :: "16 word" where "sep_at = 64"
definition sep_minus :: "16 word" where "sep_minus = 45"

text \<open>\<open>now\<close> is \<open>Date.now()\<close> in milliseconds.\<close>

definition xa_next :: "nat \<Rightarrow> nat \<Rightarrow> xa_gen \<Rightarrow> jsstr \<times> xa_gen" where
  "xa_next pid now g =
     (let curTime = now div 1000;
          (curEnum, g) = (if curTime = g_lastTime g then (g_lastEnum g + 1, g\<lparr>g_lastEnum := g_lastEnum g + 1\<rparr>)
                          else (0, g\<lparr>g_lastTime := curTime, g_lastEnum := 0\<rparr>))
      in (to_base 36 curTime @ [sep_dot] @ to_base 36 curEnum @ [sep_at] @ to_base 36 pid @ [sep_minus], g))"

section \<open>Decoding\<close>

text \<open>
  The regular expression: at least five letters and digits, a dot, letters and digits, an at sign, letters and digits, a minus sign, and
  digits up to the end. The separators are not in the classes, so there is one way to match.
\<close>

definition match_xa_id :: "jsstr \<Rightarrow> (jsstr \<times> jsstr \<times> jsstr) option" where
  "match_xa_id s =
     (let time = takeWhile is_alnum s; s = dropWhile is_alnum s
      in if length time < 5 \<or> s = [] \<or> hd s \<noteq> sep_dot then None
         else
           let enum = takeWhile is_alnum (tl s); s = dropWhile is_alnum (tl s)
           in if enum = [] \<or> s = [] \<or> hd s \<noteq> sep_at then None
              else
                let pid = takeWhile is_alnum (tl s); s = dropWhile is_alnum (tl s)
                in if pid = [] \<or> s = [] \<or> hd s \<noteq> sep_minus \<or> \<not> list_all is_digit10 (tl s) then None
                   else Some (time, pid, tl s))"

definition xa_decode :: "jsstr \<Rightarrow> (num \<times> num \<times> num) option" where
  "xa_decode xaId =
     (case match_xa_id xaId of
        None \<Rightarrow> None
      | Some (time36, pid36, connectionId10) \<Rightarrow>
          let time = parseInt time36 36; pid = parseInt pid36 36; connectionId = parseInt connectionId10 10
          in if time \<noteq> None \<and> pid \<noteq> None \<and> connectionId \<noteq> None then Some (time, pid, connectionId) else None)"

section \<open>Lemmas\<close>

lemma unat_base_char: "d < 36 \<Longrightarrow> unat (base_char d) = (if d < 10 then 48 + d else 87 + d)"
  by (simp add: base_char_def unat_of_nat del: of_nat_add)

lemma base_char_digit: "d < 10 \<Longrightarrow> is_digit10 (base_char d)"
  by (simp add: is_digit10_def word_le_nat_alt unat_base_char)

lemma base_char_alnum: "d < 36 \<Longrightarrow> is_alnum (base_char d)"
  by (auto simp: is_alnum_def is_digit10_def word_le_nat_alt unat_base_char)

lemma base_of_char: "d < 36 \<Longrightarrow> digit_of (base_char d) = d"
  by (auto simp: digit_of_def is_digit10_def word_le_nat_alt unat_base_char)

lemma to_base_digits:
  assumes "2 \<le> b" "b \<le> 36"
  shows "to_base b n \<noteq> [] \<and> list_all is_alnum (to_base b n) \<and> (b \<le> 10 \<longrightarrow> list_all is_digit10 (to_base b n)) \<and>
    digits_value b (to_base b n) = n"
proof (induction n rule: less_induct)
  case (less n)
  show ?case
  proof (cases "n < b")
    case True
    then show ?thesis
      using assms by (simp add: to_base.simps [of b n] base_char_alnum base_char_digit digits_value_def base_of_char)
  next
    case False
    then have "n div b < n" using assms by (intro div_less_dividend) simp_all
    moreover have "n mod b < b" "n mod b < 36"
      using assms mod_less_divisor [of b n] by linarith+
    moreover have "b \<le> 10 \<Longrightarrow> n mod b < 10"
      using calculation(2) by simp
    ultimately show ?thesis
      using assms False less [of "n div b"]
      by (simp add: to_base.simps [of b n] base_char_alnum base_char_digit digits_value_def base_of_char)
  qed
qed

lemma to_base_inj: "2 \<le> b \<Longrightarrow> b \<le> 36 \<Longrightarrow> to_base b m = to_base b n \<Longrightarrow> m = n"
  using to_base_digits by metis

lemma length_to_base:
  assumes "2 \<le> b" "b ^ k \<le> n"
  shows "Suc k \<le> length (to_base b n)"
  using assms(2)
proof (induction k arbitrary: n)
  case 0
  show ?case by (subst to_base.simps) simp
next
  case (Suc k)
  have "b \<le> n"
  proof -
    have "b * 1 \<le> b * b ^ k" using assms(1) by (intro mult_left_mono) simp_all
    also have "\<dots> \<le> n" using Suc(2) by simp
    finally show ?thesis by simp
  qed
  moreover have "b ^ k \<le> n div b"
    using Suc(2) assms(1) by (simp add: less_eq_div_iff_mult_less_eq mult.commute)
  ultimately show ?case
    using Suc(1) [of "n div b"] assms(1) by (subst to_base.simps) simp
qed

lemma parse_to_base: "2 \<le> b \<Longrightarrow> b \<le> 36 \<Longrightarrow> n < 2 ^ 53 \<Longrightarrow> parseInt (to_base b n) b = Some (of_nat n)"
  using to_base_digits [of b n] by (simp add: parseInt_def double_nat)

lemma no_alnum: "\<not> is_alnum sep_dot" "\<not> is_alnum sep_at" "\<not> is_alnum sep_minus"
  by (simp_all add: is_alnum_def is_digit10_def sep_dot_def sep_at_def sep_minus_def)

lemma span_alnum:
  assumes "list_all is_alnum s" "\<not> is_alnum c"
  shows "takeWhile is_alnum (s @ c # t) = s" "dropWhile is_alnum (s @ c # t) = c # t"
  using assms by (induction s) simp_all

lemma match_parts:
  assumes "list_all is_alnum t" "5 \<le> length t" "list_all is_alnum e" "e \<noteq> []" "list_all is_alnum p" "p \<noteq> []"
    "list_all is_digit10 d"
  shows "match_xa_id (t @ sep_dot # e @ sep_at # p @ sep_minus # d) = Some (t, p, d)"
  using assms by (simp add: match_xa_id_def span_alnum no_alnum)

text \<open>What is generated, with the decimal id of the connection behind it, is decoded.\<close>

lemma xa_next_decoded:
  assumes "36 ^ 4 \<le> now div 1000" "now div 1000 < 2 ^ 53" "pid < 2 ^ 53" "connectionId < 2 ^ 53"
  shows "xa_decode (fst (xa_next pid now g) @ to_base 10 connectionId) =
    Some (Some (of_nat (now div 1000)), Some (of_nat pid), Some (of_nat connectionId))"
proof -
  define e where "e = (if now div 1000 = g_lastTime g then g_lastEnum g + 1 else 0)"
  have s: "fst (xa_next pid now g) @ to_base 10 connectionId =
      to_base 36 (now div 1000) @ sep_dot # to_base 36 e @ sep_at # to_base 36 pid @ sep_minus # to_base 10 connectionId"
    by (simp add: xa_next_def e_def Let_def)
  have len: "5 \<le> length (to_base 36 (now div 1000))"
    using length_to_base [of 36 4 "now div 1000"] assms(1) by simp
  have "match_xa_id (fst (xa_next pid now g) @ to_base 10 connectionId) =
      Some (to_base 36 (now div 1000), to_base 36 pid, to_base 10 connectionId)"
    unfolding s by (rule match_parts) (use to_base_digits len in simp_all)
  then show ?thesis
    using assms by (simp add: xa_decode_def parse_to_base Let_def)
qed

text \<open>The time and the number of an identifier.\<close>

lemma xa_next_inj:
  assumes "fst (xa_next pid now g) = fst (xa_next pid now' g')"
  shows "(g_lastTime (snd (xa_next pid now g)), g_lastEnum (snd (xa_next pid now g))) =
    (g_lastTime (snd (xa_next pid now' g')), g_lastEnum (snd (xa_next pid now' g')))"
proof -
  have shape: "fst (xa_next pid n h) = to_base 36 (g_lastTime (snd (xa_next pid n h))) @ sep_dot #
      to_base 36 (g_lastEnum (snd (xa_next pid n h))) @ sep_at # to_base 36 pid @ [sep_minus]" for n h
    by (simp add: xa_next_def Let_def)
  note span = span_alnum [OF conjunct1 [OF conjunct2 [OF to_base_digits]]]
  let ?t = "g_lastTime (snd (xa_next pid now g))" and ?t' = "g_lastTime (snd (xa_next pid now' g'))"
  let ?e = "g_lastEnum (snd (xa_next pid now g))" and ?e' = "g_lastEnum (snd (xa_next pid now' g'))"
  have eq: "to_base 36 ?t @ sep_dot # to_base 36 ?e @ sep_at # to_base 36 pid @ [sep_minus] =
      to_base 36 ?t' @ sep_dot # to_base 36 ?e' @ sep_at # to_base 36 pid @ [sep_minus]"
    using assms unfolding shape by simp
  have t: "to_base 36 ?t = to_base 36 ?t'"
    using arg_cong [OF eq, of "takeWhile is_alnum"] by (simp add: span no_alnum)
  then have "to_base 36 ?e @ sep_at # to_base 36 pid @ [sep_minus] = to_base 36 ?e' @ sep_at # to_base 36 pid @ [sep_minus]"
    using eq by simp
  from arg_cong [OF this, of "takeWhile is_alnum"] have "to_base 36 ?e = to_base 36 ?e'"
    by (simp add: span no_alnum)
  with t show ?thesis
    using to_base_inj [of 36] by simp
qed

text \<open>The identifiers of a run, one for each reading of the clock.\<close>

fun xa_ids :: "nat \<Rightarrow> xa_gen \<Rightarrow> nat list \<Rightarrow> jsstr list" where
  "xa_ids pid g [] = []"
| "xa_ids pid g (now # clock) = fst (xa_next pid now g) # xa_ids pid (snd (xa_next pid now g)) clock"

definition gen_le :: "xa_gen \<Rightarrow> xa_gen \<Rightarrow> bool" where
  "gen_le g g' \<longleftrightarrow> g_lastTime g < g_lastTime g' \<or> g_lastTime g = g_lastTime g' \<and> g_lastEnum g < g_lastEnum g'"

lemma xa_next_advances: "g_lastTime g \<le> now div 1000 \<Longrightarrow> gen_le g (snd (xa_next pid now g))"
  by (auto simp: gen_le_def xa_next_def Let_def)

lemma xa_next_time: "g_lastTime (snd (xa_next pid now g)) = now div 1000"
  by (simp add: xa_next_def Let_def)

lemma xa_ids_later:
  "sorted clock \<Longrightarrow> (\<And>t. t \<in> set clock \<Longrightarrow> g_lastTime g \<le> t div 1000) \<Longrightarrow> s \<in> set (xa_ids pid g clock) \<Longrightarrow>
   \<exists>now g'. s = fst (xa_next pid now g') \<and> gen_le g (snd (xa_next pid now g'))"
proof (induction clock arbitrary: g)
  case (Cons now clock)
  let ?g = "snd (xa_next pid now g)"
  have g: "gen_le g ?g"
    using Cons.prems(2) by (intro xa_next_advances) simp
  show ?case
  proof (cases "s = fst (xa_next pid now g)")
    case True
    then show ?thesis using g by blast
  next
    case False
    have later: "g_lastTime ?g \<le> t div 1000" if "t \<in> set clock" for t
      using Cons.prems(1) that by (auto simp: xa_next_time div_le_mono)
    obtain now' g' where "s = fst (xa_next pid now' g')" "gen_le ?g (snd (xa_next pid now' g'))"
      using Cons.IH [of ?g] Cons.prems later False by auto
    moreover have "gen_le g (snd (xa_next pid now' g'))"
      using g calculation(2) by (auto simp: gen_le_def)
    ultimately show ?thesis by blast
  qed
qed simp

lemma xa_ids_distinct:
  "sorted clock \<Longrightarrow> (\<And>t. t \<in> set clock \<Longrightarrow> g_lastTime g \<le> t div 1000) \<Longrightarrow> distinct (xa_ids pid g clock)"
proof (induction clock arbitrary: g)
  case (Cons now clock)
  let ?g = "snd (xa_next pid now g)"
  have later: "g_lastTime ?g \<le> t div 1000" if "t \<in> set clock" for t
    using Cons.prems(1) that by (auto simp: xa_next_time div_le_mono)
  have "fst (xa_next pid now g) \<notin> set (xa_ids pid ?g clock)"
  proof
    assume "fst (xa_next pid now g) \<in> set (xa_ids pid ?g clock)"
    then obtain now' g' where "fst (xa_next pid now g) = fst (xa_next pid now' g')" "gen_le ?g (snd (xa_next pid now' g'))"
      using xa_ids_later [of clock ?g "fst (xa_next pid now g)" pid] Cons.prems(1) later by auto
    with xa_next_inj [OF this(1)] show False
      by (simp add: gen_le_def)
  qed
  then show ?case
    using Cons.IH [of ?g] Cons.prems(1) later by simp
qed simp

lemma xa_ids_nth:
  "i < length clock \<Longrightarrow> \<exists>g'. xa_ids pid g clock ! i = fst (xa_next pid (clock ! i) g')"
proof (induction clock arbitrary: g i)
  case (Cons now clock)
  then show ?case
    by (cases i) auto
qed simp

lemma length_xa_ids: "length (xa_ids pid g clock) = length clock"
  by (induction clock arbitrary: g) simp_all

end
