(* ===== verification/Resultsets.thy ===== *)
theory Resultsets
  imports Execute XaId
begin

text \<open>
  The operations of \<open>ResultsetsInternal\<close> of \<open>src/private/resultsets.ts\<close> that work on the connection: executing again, reading
  rows and resultsets, discarding what is not read, and disposing of a prepared statement. An object is an index \<open>i\<close> of the
  store \<open>p_resultsets\<close>; that it is attached to its connection is \<open>s_hasProtocol\<close>. Resultsets that are stored in memory or
  in a file (\<open>store()\<close>) are not modelled.
\<close>

definition wrong_params :: "nat \<Rightarrow> int \<Rightarrow> exn" where
  "wrong_params n nPlaceholders =
     JsError (js ''Number of passed parameters ('' @ to_base 10 n @
       js ('') doesn'' @ [CHR 0x27] @ ''t match the number of query placeholders ('') @ to_base 10 (nat nPlaceholders) @ js '')'')"

text \<open>\<open>nextResultset()\<close> of the object.\<close>

definition rs_nextResultset :: "penv \<Rightarrow> nat \<Rightarrow> bool pl" where
  "rs_nextResultset h i =
     bindL (getL (cur i)) (\<lambda>s.
       if \<not> s_hasMore s then retL False
       else if \<not> s_hasProtocol s then throwL connection_terminated
       else nextResultset h False)"

text \<open>The loop of \<open>discardProtocol()\<close>.\<close>

partial_function (option) discard_all :: "penv \<Rightarrow> nat \<Rightarrow> unit pl" where
  "discard_all h i r =
     (if s_hasProtocol (cur i r) then
        (case nextResultset h True r of
           None \<Rightarrow> None
         | Some (Inl e, r') \<Rightarrow> Some (Inl e, r')
         | Some (Inr again, r') \<Rightarrow> if again then discard_all h i r' else Some (Inr (), r'))
      else Some (Inr (), r))"

definition discardProtocol :: "penv \<Rightarrow> nat \<Rightarrow> unit pl" where
  "discardProtocol h i = bindL (getL (cur i)) (\<lambda>s. whenL (s_hasMore s) (discard_all h i))"

definition rs_disposePreparedStmt :: "nat \<Rightarrow> proto \<Rightarrow> proto" where
  "rs_disposePreparedStmt i r =
     (let s = cur i r
      in if s_hasProtocol s then
           disposePreparedStmt (s_stmtId s)
             (r\<lparr>p_resultsets := (p_resultsets r)[i := s\<lparr>s_stmtId := -1, s_hasProtocol := s_hasMore s\<rparr>]\<rparr>)
         else r)"

text \<open>\<open>[Symbol.asyncDispose]()\<close>.\<close>

definition rs_dispose :: "penv \<Rightarrow> nat \<Rightarrow> unit pl" where
  "rs_dispose h i =
     bindL (getL (cur i)) (\<lambda>s.
     bindL (whenL (s_stmtId s \<noteq> -1) (setL (rs_disposePreparedStmt i))) (\<lambda>_. discardProtocol h i))"

definition rs_exec :: "penv \<Rightarrow> nat \<Rightarrow> param list \<Rightarrow> unit pl" where
  "rs_exec h i params =
     bindL (getL (cur i)) (\<lambda>s.
       if int (length params) \<noteq> s_nPlaceholders s then throwL (wrong_params (length params) (s_nPlaceholders s))
       else if \<not> s_hasProtocol s then throwL connection_terminated
       else bindL (execStmt h i params (s_correctDates s)) (\<lambda>_. whenL (s_rowType s = ROW_VOID) (discardProtocol h i)))"

section \<open>Rows\<close>

definition rs_options :: "resultsets \<Rightarrow> read_options" where
  "rs_options s =
     \<lparr>o_rowType = s_rowType s, o_jsonAsString = s_jsonAsString s, o_datesAsString = s_datesAsString s,
      o_maxColumnLen = s_maxColumnLen s, o_isForSerialize = False\<rparr>"

definition rs_row :: "penv \<Rightarrow> nat \<Rightarrow> row option pl" where
  "rs_row h i =
     bindL (getL (cur i)) (\<lambda>s.
       if \<not> s_hasProtocol s then throwL connection_terminated
       else bindL (setL (\<lambda>r. r\<lparr>r_totalBytesInPacket := 0\<rparr>)) (\<lambda>_. fetch h (rs_options s)))"

text \<open>What the \<open>finally\<close> block of the iterator does when the caller stops early.\<close>

partial_function (option) rs_drain :: "penv \<Rightarrow> nat \<Rightarrow> unit pl" where
  "rs_drain h i r =
     (if s_hasProtocol (cur i r) then
        (case fetch h (rs_options (cur i r)) r of
           None \<Rightarrow> None
         | Some (Inl e, r') \<Rightarrow> Some (Inl e, r')
         | Some (Inr None, r') \<Rightarrow> Some (Inr (), r')
         | Some (Inr (Some row), r') \<Rightarrow> rs_drain h i r')
      else Some (Inr (), r))"

text \<open>At most \<open>n\<close> rows.\<close>

fun rs_take :: "penv \<Rightarrow> nat \<Rightarrow> nat \<Rightarrow> row list pl" where
  "rs_take h i 0 = retL []"
| "rs_take h i (Suc n) =
     bindL (rs_row h i) (\<lambda>row.
       case row of None \<Rightarrow> retL [] | Some x \<Rightarrow> bindL (rs_take h i n) (\<lambda>rows. retL (x # rows)))"

text \<open>The iterator, for a caller that takes at most \<open>n\<close> rows; errors of the body pass through the \<open>finally\<close> block.\<close>

definition rs_iterate :: "penv \<Rightarrow> nat \<Rightarrow> nat \<Rightarrow> row list pl" where
  "rs_iterate h i n =
     bindL (getL (cur i)) (\<lambda>s.
       if s_hasMore s then
         bindL (tryL (rs_take h i n)
                  (\<lambda>e. bindL (getL (cur i)) (\<lambda>s. bindL (whenL (s_hasMore s) (rs_drain h i)) (\<lambda>_. throwL e)))) (\<lambda>rows.
         bindL (getL (cur i)) (\<lambda>s. bindL (whenL (s_hasMore s) (rs_drain h i)) (\<lambda>_. retL rows)))
       else retL [])"

text \<open>\<open>all()\<close>: the loop over all rows.\<close>

partial_function (option) rs_all_loop :: "penv \<Rightarrow> nat \<Rightarrow> row list \<Rightarrow> row list pl" where
  "rs_all_loop h i rows r =
     (case rs_row h i r of
        None \<Rightarrow> None
      | Some (Inl e, r') \<Rightarrow> Some (Inl e, r')
      | Some (Inr None, r') \<Rightarrow> Some (Inr rows, r')
      | Some (Inr (Some row), r') \<Rightarrow> rs_all_loop h i (rows @ [row]) r')"

definition rs_all :: "penv \<Rightarrow> nat \<Rightarrow> row list pl" where
  "rs_all h i =
     bindL (getL (cur i)) (\<lambda>s.
       if s_hasMore s then
         bindL (tryL (rs_all_loop h i [])
                  (\<lambda>e. bindL (getL (cur i)) (\<lambda>s. bindL (whenL (s_hasMore s) (rs_drain h i)) (\<lambda>_. throwL e)))) (\<lambda>rows.
         bindL (getL (cur i)) (\<lambda>s. bindL (whenL (s_hasMore s) (rs_drain h i)) (\<lambda>_. retL rows)))
       else retL [])"

text \<open>\<open>first()\<close> reads all rows and gives the first.\<close>

definition rs_first :: "penv \<Rightarrow> nat \<Rightarrow> row option pl" where
  "rs_first h i = bindL (rs_all h i) (\<lambda>rows. retL (case rows of [] \<Rightarrow> None | row # _ \<Rightarrow> Some row))"

section \<open>Lemmas\<close>

text \<open>The statement is closed once.\<close>

lemma disposed_once:
  assumes "i < length (p_resultsets r)" "\<not> s_hasMore (cur i r)"
  shows "rs_disposePreparedStmt i (rs_disposePreparedStmt i r) = rs_disposePreparedStmt i r"
  using assms by (simp add: rs_disposePreparedStmt_def disposePreparedStmt_def cur_def Let_def)

lemma disposed_no_exec:
  assumes "i < length (p_resultsets r)" "\<not> s_hasMore (cur i r)" "int (length params) = s_nPlaceholders (cur i r)"
  shows "rs_exec h i params (rs_disposePreparedStmt i r) = Some (Inl connection_terminated, rs_disposePreparedStmt i r)"
  using assms
  by (simp add: rs_exec_def rs_disposePreparedStmt_def disposePreparedStmt_def cur_def getL_def bindL_def Let_def)

end
