(* ===== verification/NamedParams.thy ===== *)
theory NamedParams
  imports XaId Utf8
begin

text \<open>
  The queries of named parameters, \<open>#getNamedParamsQueries()\<close> of \<open>src/private/my_conn.ts\<close>: \<open>SET @_yl_fk=?,...\<close>, that a
  prepared statement is made of, and \<open>SET @`name`=@_yl_fk,@_yl_fk=NULL,...\<close>. Both are written byte by byte into arrays whose
  length is computed before; as always in JavaScript, what is written beyond the end of a typed array is lost.
\<close>

section \<open>Writing\<close>

definition code_bytes :: "string \<Rightarrow> byte list" where "code_bytes = map of_char"

text \<open>\<open>array[k++] = c\<close> for each of the bytes.\<close>

fun put_bytes :: "byte list \<Rightarrow> nat \<times> byte list \<Rightarrow> nat \<times> byte list" where
  "put_bytes [] (k, q) = (k, q)"
| "put_bytes (c # cs) (k, q) = put_bytes cs (k + 1, q[k := c])"

definition C_BACKTICK :: "16 word" where "C_BACKTICK = 96"

definition double_backticks :: "jsstr \<Rightarrow> jsstr" where
  "double_backticks s = concat (map (\<lambda>c. if c = C_BACKTICK then [c, c] else [c]) s)"

text \<open>The loop that writes a name, and makes the array longer until it fits.\<close>

lemma encode_into_fails:
  assumes "fst (encode_into s cap) \<noteq> length s"
  shows "cap < length (utf8_encode s)"
proof (rule ccontr)
  assume "\<not> ?thesis"
  then show False using assms encode_into_all [of s cap] by simp
qed

lemma encode_into_le: "length (snd (encode_into s cap)) \<le> cap"
  using encode_into_split [of s cap "fst (encode_into s cap)" "snd (encode_into s cap)"] by simp

lemma length_encoded: "length (arr_set q k (snd (encode_into s (length q - k)))) = length q"
  using encode_into_le [of s "length q - k"] by (cases "k \<le> length q") (auto simp: arr_set_def)

function put_name :: "jsstr \<Rightarrow> nat \<times> byte list \<Rightarrow> nat \<times> byte list" where
  "put_name param (k, q) =
     (let r = encode_into param (length q - k); q = arr_set q k (snd r)
      in if fst r = length param then (k + length (snd r), q)
         else put_name param (k, arr_set (replicate (length q * 2 + 25) 0) 0 q))"
  by pat_completeness auto
termination
proof (relation "measure (\<lambda>(param, k, q). k + length (utf8_encode param) - length q)")
  fix param :: jsstr and k :: nat and q q1 :: "byte list" and r
  assume r: "r = encode_into param (length q - k)" and q1: "q1 = arr_set q k (snd r)" and no: "fst r \<noteq> length param"
  have "length q - k < length (utf8_encode param)"
    using no r by (intro encode_into_fails) simp
  moreover have "length q1 = length q"
    using length_encoded [of q k param] r q1 by simp
  ultimately show "((param, k, arr_set (replicate (length q1 * 2 + 25) 0) 0 q1), param, k, q)
      \<in> measure (\<lambda>(param, k, q). k + length (utf8_encode param) - length q)"
    by (auto simp: arr_set_def)
qed simp

declare put_name.simps [simp del]

section \<open>The names of the variables\<close>

definition CODE_ZERO :: byte where "CODE_ZERO = 48"
definition CODE_A :: byte where "CODE_A = 97"

text \<open>\<open>n\<close> is a number of four digits in base 36; \<open>36 ** 4 - 0x10000\<close> is where it begins. The loop runs from the last digit.\<close>

definition first_name :: "byte list" where "first_name = code_bytes ''ylfk''"

fun inc_digits :: "byte list \<Rightarrow> byte list" where
  "inc_digits [] = []"
| "inc_digits (c # cs) =
     (let c = c + 1 in if c = CODE_ZERO + 10 then CODE_A # cs else if c = CODE_A + 26 then CODE_ZERO # inc_digits cs else c # cs)"

definition inc_name :: "byte list \<Rightarrow> byte list" where
  "inc_name n = rev (inc_digits (rev n))"

definition variable :: "byte list \<Rightarrow> byte list" where
  "variable n = code_bytes ''@_'' @ [n ! 0, n ! 1] @ code_bytes ''_'' @ [n ! 2, n ! 3]"

section \<open>The queries\<close>

text \<open>One turn for each query: the placeholder number \<open>i\<close>, and the parameter of this number.\<close>

definition put_placeholder :: "byte list \<Rightarrow> nat \<times> byte list \<Rightarrow> nat \<times> byte list" where
  "put_placeholder n = put_bytes (code_bytes '','' @ variable n @ code_bytes ''=?'')"

definition put_assignment :: "byte list \<Rightarrow> jsstr \<Rightarrow> nat \<times> byte list \<Rightarrow> nat \<times> byte list" where
  "put_assignment n key st =
     put_bytes (code_bytes ''`='' @ variable n @ code_bytes '','' @ variable n @ code_bytes ''=NULL'')
       (put_name (double_backticks key) (put_bytes (code_bytes '',@`'') st))"

text \<open>The loop over the placeholders; \<open>query0\<close> is only there when the statement is to be prepared.\<close>

fun named_loop :: "nat \<Rightarrow> jsstr list \<Rightarrow> byte list \<Rightarrow> (nat \<times> byte list) option \<Rightarrow> nat \<times> byte list \<Rightarrow>
    (nat \<times> byte list) option \<times> nat \<times> byte list" where
  "named_loop 0 keys n query0 query1 = (query0, query1)"
| "named_loop (Suc m) keys n query0 query1 =
     (let query0 = map_option (put_placeholder n) query0
      in case keys of
           key # keys \<Rightarrow> named_loop m keys (inc_name n) query0 (put_assignment n key query1)
         | [] \<Rightarrow> if query0 = None then (query0, query1) else named_loop m [] (inc_name n) query0 query1)"

definition n_placeholders :: "jsstr list \<Rightarrow> nat" where
  "n_placeholders keys = ((length keys - 1) div 8 + 1) * 8"

definition query1_length :: "jsstr list \<Rightarrow> nat" where
  "query1_length keys = 3 + sum_list (map (\<lambda>key. 12 + length key + 13) keys)"

definition write_set :: "byte list \<Rightarrow> byte list" where
  "write_set q = snd (put_bytes (code_bytes ''SET '') (0, q))"

text \<open>The queries for the given names; \<open>with_prepare\<close> says that the statement is to be prepared.\<close>

definition named_queries :: "jsstr list \<Rightarrow> bool \<Rightarrow> byte list option \<times> byte list" where
  "named_queries keys with_prepare =
     (let n = n_placeholders keys;
          query0 = (if with_prepare then Some (3, replicate (3 + 10 * n) 0) else None);
          (query0, query1) = named_loop n keys first_name query0 (3, replicate (query1_length keys) 0)
      in (map_option (\<lambda>(j, q). write_set q) query0, write_set (snd query1)))"

section \<open>What they should be\<close>

definition var_name :: "nat \<Rightarrow> byte list" where
  "var_name i = (inc_name ^^ i) first_name"

fun assignments :: "nat \<Rightarrow> jsstr list \<Rightarrow> byte list" where
  "assignments i [] = []"
| "assignments i (key # keys) =
     code_bytes '',@`'' @ utf8_encode (double_backticks key) @ code_bytes ''`='' @ variable (var_name i) @ code_bytes '','' @
     variable (var_name i) @ code_bytes ''=NULL'' @ assignments (Suc i) keys"

fun markers :: "nat \<Rightarrow> nat \<Rightarrow> byte list" where
  "markers i 0 = []"
| "markers i (Suc m) = code_bytes '','' @ variable (var_name i) @ code_bytes ''=?'' @ markers (Suc i) m"

definition set_query :: "byte list \<Rightarrow> byte list" where
  "set_query list' = code_bytes ''SET '' @ tl list'"

section \<open>Lemmas\<close>

lemma length_code_bytes [simp]: "length (code_bytes s) = length s"
  by (simp add: code_bytes_def)

lemma length_variable [simp]: "length (variable n) = 7"
  by (simp add: variable_def)

lemma put_bytes_fst: "fst (put_bytes cs st) = fst st + length cs"
  by (induction cs st rule: put_bytes.induct) simp_all

lemma put_bytes_length: "length (snd (put_bytes cs st)) = length (snd st)"
  by (induction cs st rule: put_bytes.induct) simp_all

lemma put_bytes_take:
  "fst st + length cs \<le> length (snd st) \<Longrightarrow> take (fst st + length cs) (snd (put_bytes cs st)) = take (fst st) (snd st) @ cs"
proof (induction cs st rule: put_bytes.induct)
  case (2 c cs k q)
  have "take (Suc k) (q[k := c]) = take k q @ [c]"
    using 2(2) by (simp add: take_Suc_conv_app_nth)
  then show ?case
    using 2 by simp
qed simp

text \<open>Writing goes on where it stopped, and keeps what is written.\<close>

definition written :: "nat \<times> byte list \<Rightarrow> byte list" where "written st = take (fst st) (snd st)"
definition room :: "nat \<times> byte list \<Rightarrow> nat" where "room st = length (snd st) - fst st"
definition in_range :: "nat \<times> byte list \<Rightarrow> bool" where "in_range st \<longleftrightarrow> fst st \<le> length (snd st)"

definition puts :: "(nat \<times> byte list \<Rightarrow> nat \<times> byte list) \<Rightarrow> byte list \<Rightarrow> bool" where
  "puts f cs \<longleftrightarrow> (\<forall>st. in_range st \<longrightarrow> length cs \<le> room st \<longrightarrow>
     written (f st) = written st @ cs \<and> length (snd (f st)) = length (snd st) \<and> fst (f st) = fst st + length cs)"

lemma putsD:
  assumes "puts f cs" "in_range st" "length cs \<le> room st"
  shows "written (f st) = written st @ cs" "length (snd (f st)) = length (snd st)" "fst (f st) = fst st + length cs"
  using assms unfolding puts_def by blast+

lemma puts_bytes: "puts (put_bytes cs) cs"
  by (auto simp: puts_def written_def room_def in_range_def put_bytes_fst put_bytes_length put_bytes_take)

lemma puts_seq:
  assumes "puts f cs" "puts g ds"
  shows "puts (\<lambda>st. g (f st)) (cs @ ds)"
  unfolding puts_def
proof (intro allI impI)
  fix st assume st: "in_range st" "length (cs @ ds) \<le> room st"
  then have f: "written (f st) = written st @ cs" "length (snd (f st)) = length (snd st)" "fst (f st) = fst st + length cs"
    using putsD [OF assms(1), of st] by simp_all
  have "in_range (f st)" "length ds \<le> room (f st)"
    using st f by (simp_all add: in_range_def room_def)
  then have "written (g (f st)) = written (f st) @ ds" "length (snd (g (f st))) = length (snd (f st))"
    "fst (g (f st)) = fst (f st) + length ds"
    using putsD [OF assms(2), of "f st"] by simp_all
  with f show "written (g (f st)) = written st @ cs @ ds \<and> length (snd (g (f st))) = length (snd st) \<and>
      fst (g (f st)) = fst st + length (cs @ ds)"
    by simp
qed

lemma puts_nothing: "puts (\<lambda>st. st) []"
  by (simp add: puts_def)

lemma puts_name: "puts (put_name s) (utf8_encode s)"
proof -
  have "put_name s (k, q) = (k + length (utf8_encode s), arr_set q k (utf8_encode s))"
    if "length (utf8_encode s) \<le> length q - k" for k q
    using encode_into_all [OF that] by (simp add: put_name.simps)
  then show ?thesis
    by (auto simp: puts_def written_def room_def in_range_def arr_set_def min_def)
qed

lemma puts_assignment:
  "puts (put_assignment n key) (code_bytes '',@`'' @ utf8_encode (double_backticks key) @
     code_bytes ''`='' @ variable n @ code_bytes '','' @ variable n @ code_bytes ''=NULL'')"
  unfolding put_assignment_def [abs_def] using puts_seq [OF puts_seq [OF puts_bytes puts_name] puts_bytes] by simp

lemma puts_placeholder: "puts (put_placeholder n) (code_bytes '','' @ variable n @ code_bytes ''=?'')"
  unfolding put_placeholder_def by (rule puts_bytes)

lemma var_name_Suc: "inc_name (var_name i) = var_name (Suc i)"
  by (simp add: var_name_def)

lemma named_loop_nil: "snd (named_loop m [] n query0 st) = st"
  by (induction m arbitrary: n query0) (simp_all add: Let_def)

lemma named_loop_single: "snd (named_loop (Suc m) [key] n query0 st) = put_assignment n key st"
  by (simp add: Let_def named_loop_nil)

lemma named_loop_puts:
  "length keys \<le> m \<Longrightarrow> puts (\<lambda>st. snd (named_loop m keys (var_name i) query0 st)) (assignments i keys)"
proof (induction keys arbitrary: m i query0)
  case Nil
  then show ?case by (simp add: named_loop_nil puts_nothing)
next
  case (Cons key keys)
  then obtain m' where m: "m = Suc m'" "length keys \<le> m'"
    by (cases m) simp_all
  show ?case
    using puts_seq [OF puts_assignment [of "var_name i" key] Cons.IH [OF m(2), of "Suc i" "map_option (put_placeholder (var_name i)) query0"]]
    by (simp add: m(1) var_name_Suc Let_def)
qed

fun put_markers :: "nat \<Rightarrow> nat \<Rightarrow> nat \<times> byte list \<Rightarrow> nat \<times> byte list" where
  "put_markers i 0 st = st"
| "put_markers i (Suc m) st = put_markers (Suc i) m (put_placeholder (var_name i) st)"

lemma named_loop_markers: "fst (named_loop m keys (var_name i) (Some st0) st) = Some (put_markers i m st0)"
proof (induction m arbitrary: i keys st0 st)
  case (Suc m)
  then show ?case by (cases keys) (simp_all add: var_name_Suc Let_def)
qed simp

lemma puts_markers: "puts (put_markers i m) (markers i m)"
proof (induction m arbitrary: i)
  case 0
  then show ?case using puts_nothing by (simp add: fun_eq_iff [symmetric] id_def)
next
  case (Suc m)
  have "put_markers i (Suc m) = (\<lambda>st. put_markers (Suc i) m (put_placeholder (var_name i) st))"
    by (simp add: fun_eq_iff)
  then show ?case
    using puts_seq [OF puts_placeholder [of "var_name i"] Suc.IH [of "Suc i"]] by simp
qed

lemma length_markers: "length (markers i m) = 10 * m"
  by (induction m arbitrary: i) simp_all

lemma write_set_full:
  assumes "puts f cs" "cs \<noteq> []" "fst st = 3" "length (snd st) = 3 + length cs"
  shows "write_set (snd (f st)) = set_query cs"
proof -
  have f: "written (f st) = written st @ cs" "length (snd (f st)) = 3 + length cs" "fst (f st) = 3 + length cs"
    using putsD [OF assms(1), of st] assms(3,4) by (simp_all add: in_range_def room_def)
  then have q: "snd (f st) = take 3 (snd st) @ cs"
    using assms(3) by (simp add: written_def)
  obtain c cs' where c: "cs = c # cs'"
    using assms(2) by (cases cs) auto
  obtain a b d where "take 3 (snd st) = [a, b, d]"
    using assms(4) by (cases "snd st" rule: list.exhaust; cases "tl (snd st)"; cases "tl (tl (snd st))") (auto simp: numeral_3_eq_3)
  then show ?thesis
    by (simp add: q write_set_def set_query_def code_bytes_def c)
qed

lemma length_assignments:
  "(\<And>key. key \<in> set keys \<Longrightarrow> length (utf8_encode (double_backticks key)) = length key) \<Longrightarrow>
   length (assignments i keys) = query1_length keys - 3"
  by (induction keys arbitrary: i) (simp_all add: query1_length_def)

text \<open>Names that are as long in the query as they are in JavaScript.\<close>

lemma named_queries_exact:
  assumes "keys \<noteq> []" "\<And>key. key \<in> set keys \<Longrightarrow> length (utf8_encode (double_backticks key)) = length key"
  shows "named_queries keys True = (Some (set_query (markers 0 (n_placeholders keys))), set_query (assignments 0 keys))"
    "named_queries keys False = (None, set_query (assignments 0 keys))"
proof -
  let ?n = "n_placeholders keys"
  have n: "length keys \<le> ?n" "0 < ?n"
    using div_mult_mod_eq [of "length keys - 1" 8] mod_less_divisor [of 8 "length keys - 1"]
    by (simp_all add: n_placeholders_def)
  have first: "first_name = var_name 0"
    by (simp add: var_name_def)
  have len: "length (assignments 0 keys) = query1_length keys - 3" "3 < query1_length keys"
    using length_assignments [of keys 0] assms by (auto simp: query1_length_def neq_Nil_conv)
  then have ne: "assignments 0 keys \<noteq> []"
    by auto
  have q1: "write_set (snd (snd (named_loop ?n keys (var_name 0) query0 (3, replicate (query1_length keys) 0)))) =
      set_query (assignments 0 keys)" for query0
    by (rule write_set_full [OF named_loop_puts [OF n(1)] ne]) (use len in simp_all)
  have q0: "write_set (snd (put_markers 0 ?n (3, replicate (3 + 10 * ?n) 0))) = set_query (markers 0 ?n)"
    by (rule write_set_full [OF puts_markers]) (use n(2) length_markers [of 0 ?n] in auto)
  have m: "fst (named_loop ?n keys (var_name 0) None st) = None" for st
  proof -
    have "fst (named_loop m keys' n' None st') = None" for m keys' n' st'
      by (induction m arbitrary: keys' n' st') (simp_all add: Let_def split: list.split)
    then show ?thesis .
  qed
  show "named_queries keys True = (Some (set_query (markers 0 ?n)), set_query (assignments 0 keys))"
    using q1 q0 by (simp add: named_queries_def first Let_def case_prod_unfold named_loop_markers)
  show "named_queries keys False = (None, set_query (assignments 0 keys))"
    using q1 m by (simp add: named_queries_def first Let_def case_prod_unfold)
qed

section \<open>Each placeholder has a variable of its own\<close>

definition digit36 :: "byte \<Rightarrow> bool" where
  "digit36 c \<longleftrightarrow> CODE_ZERO \<le> c \<and> c < CODE_ZERO + 10 \<or> CODE_A \<le> c \<and> c < CODE_A + 26"

definition value36 :: "byte \<Rightarrow> nat" where
  "value36 c = (if c < CODE_ZERO + 10 then unat c - 48 else unat c - 87)"

text \<open>The number, from its last digit.\<close>

fun number36 :: "byte list \<Rightarrow> nat" where
  "number36 [] = 0"
| "number36 (c # cs) = value36 c + 36 * number36 cs"

lemma digit36_unat: "digit36 c \<longleftrightarrow> 48 \<le> unat c \<and> unat c < 58 \<or> 97 \<le> unat c \<and> unat c < 123"
  by (simp add: digit36_def CODE_ZERO_def CODE_A_def word_le_nat_alt word_less_nat_alt)

lemma value36_unat: "value36 c = (if unat c < 58 then unat c - 48 else unat c - 87)"
  by (simp add: value36_def CODE_ZERO_def word_less_nat_alt)

lemma digit36_cases:
  assumes "digit36 c"
  shows "c + 1 = CODE_ZERO + 10 \<Longrightarrow> value36 c = 9" "c + 1 = CODE_A + 26 \<Longrightarrow> value36 c = 35"
    "c + 1 \<noteq> CODE_ZERO + 10 \<Longrightarrow> c + 1 \<noteq> CODE_A + 26 \<Longrightarrow> digit36 (c + 1) \<and> value36 (c + 1) = value36 c + 1"
proof -
  have c: "unat c < 123" using assms by (auto simp: digit36_unat)
  then have u: "unat (c + 1) = unat c + 1"
    by (simp add: unat_word_ariths(1))
  have e: "c + 1 = CODE_ZERO + 10 \<longleftrightarrow> unat (c + 1) = 58" "c + 1 = CODE_A + 26 \<longleftrightarrow> unat (c + 1) = 123"
    by (simp_all only: word_unat_eq_iff) (simp_all add: CODE_ZERO_def CODE_A_def)
  show "c + 1 = CODE_ZERO + 10 \<Longrightarrow> value36 c = 9" "c + 1 = CODE_A + 26 \<Longrightarrow> value36 c = 35"
    "c + 1 \<noteq> CODE_ZERO + 10 \<Longrightarrow> c + 1 \<noteq> CODE_A + 26 \<Longrightarrow> digit36 (c + 1) \<and> value36 (c + 1) = value36 c + 1"
    using assms by (auto simp: e u digit36_unat value36_unat)
qed

lemma inc_digits_number:
  "list_all digit36 cs \<Longrightarrow> list_all digit36 (inc_digits cs) \<and> length (inc_digits cs) = length cs \<and>
     (number36 cs + 1 < 36 ^ length cs \<longrightarrow> number36 (inc_digits cs) = number36 cs + 1)"
proof (induction cs)
  case (Cons c cs)
  have c: "digit36 c" "digit36 CODE_A" "digit36 CODE_ZERO" "value36 CODE_A = 10" "value36 CODE_ZERO = 0" "CODE_A + 26 \<noteq> CODE_ZERO + 10"
    using Cons.prems by (simp_all add: digit36_def value36_def CODE_A_def CODE_ZERO_def)
  show ?case
    using Cons c digit36_cases [OF c(1)] by (auto simp: Let_def)
qed simp

lemma var_name_number:
  "i < 0x10000 \<Longrightarrow> list_all digit36 (rev (var_name i)) \<and> length (var_name i) = 4 \<and>
     number36 (rev (var_name i)) = 36 ^ 4 - 0x10000 + i"
proof (induction i)
  case 0
  show ?case
    by (simp add: var_name_def first_name_def code_bytes_def digit36_def value36_def CODE_ZERO_def CODE_A_def)
next
  case (Suc i)
  then have i: "list_all digit36 (rev (var_name i))" "length (var_name i) = 4" "number36 (rev (var_name i)) = 36 ^ 4 - 0x10000 + i"
    by simp_all
  have "rev (var_name (Suc i)) = inc_digits (rev (var_name i))"
    by (simp add: var_name_Suc [symmetric] inc_name_def)
  then show ?case
    using inc_digits_number [OF i(1)] i(2,3) Suc.prems length_rev [of "var_name (Suc i)"] by simp
qed

lemma length4: "length xs = 4 \<Longrightarrow> xs = [xs ! 0, xs ! 1, xs ! 2, xs ! 3]"
  by (auto simp: length_Suc_conv numeral_eq_Suc)

lemma variables_distinct:
  assumes "i < 0x10000" "j < 0x10000" "variable (var_name i) = variable (var_name j)"
  shows "i = j"
proof -
  have l: "length (var_name i) = 4" "length (var_name j) = 4"
    using var_name_number [OF assms(1)] var_name_number [OF assms(2)] by blast+
  have "var_name i = var_name j"
    using assms(3) length4 [OF l(1)] length4 [OF l(2)] by (simp add: variable_def)
  then have "36 ^ 4 - 0x10000 + i = 36 ^ 4 - 0x10000 + (j :: nat)"
    using var_name_number [OF assms(1)] var_name_number [OF assms(2)] by metis
  then show ?thesis by (rule add_left_imp_eq)
qed

section \<open>Names that are longer in the query\<close>

lemma put_bytes_beyond: "length q \<le> k \<Longrightarrow> snd (put_bytes cs (k, q)) = q"
  by (induction cs arbitrary: k) (simp_all add: list_update_beyond)

lemma put_bytes_truncates:
  "k \<le> length q \<Longrightarrow> snd (put_bytes cs (k, q)) = take (length q) (take k q @ cs @ drop (k + length cs) q)"
proof (induction cs arbitrary: k q)
  case (Cons c cs)
  show ?case
  proof (cases "k < length q")
    case True
    then show ?thesis
      using Cons.IH [of "Suc k" "q[k := c]"] by (simp add: take_Suc_conv_app_nth min_def)
  next
    case False
    then show ?thesis
      using Cons.prems put_bytes_beyond [of q "Suc k" cs] by (simp add: list_update_beyond)
  qed
qed simp

text \<open>
  One name whose encoding has up to 22 bytes more than the name has code units: the name fits, so the array is not made
  longer, and the end of the query is lost.
\<close>

lemma named_query_truncated:
  assumes x: "length (utf8_encode (double_backticks key)) = length key + x" "x \<le> 22"
  shows "snd (named_queries [key] p) = take (28 + length key) (set_query (assignments 0 [key]))"
proof -
  let ?name = "utf8_encode (double_backticks key)"
  let ?tail = "code_bytes ''`='' @ variable (var_name 0) @ code_bytes '','' @ variable (var_name 0) @ code_bytes ''=NULL''"
  define q where "q = replicate (28 + length key) (0 :: byte)"
  have l: "query1_length [key] = 28 + length key" "n_placeholders [key] = Suc 7"
    by (simp_all add: query1_length_def n_placeholders_def)
  let ?st = "put_name (double_backticks key) (put_bytes (code_bytes '',@`'') (3, q))"
  have "puts (\<lambda>st. put_name (double_backticks key) (put_bytes (code_bytes '',@`'') st)) (code_bytes '',@`'' @ ?name)"
    by (rule puts_seq [OF puts_bytes puts_name])
  then have st: "written ?st = take 3 q @ code_bytes '',@`'' @ ?name" "length (snd ?st) = 28 + length key" "fst ?st = 6 + length ?name"
    using putsD [of _ _ "(3, q)"] x by (fastforce simp: in_range_def room_def written_def q_def)+
  have tail: "length ?tail = 22"
    by simp
  have q3: "take 3 q = [0, 0, 0]"
    by (simp add: q_def numeral_3_eq_3)
  obtain k q' where kq: "?st = (k, q')" by fastforce
  have "snd (put_assignment (var_name 0) key (3, q)) = take (28 + length key) (take k q' @ ?tail @ drop (k + 22) q')"
    using put_bytes_truncates [of k q' ?tail] st(2,3) x kq by (simp add: put_assignment_def)
  also have "take k q' = [0, 0, 0] @ code_bytes '',@`'' @ ?name"
    using st(1) kq q3 by (simp add: written_def)
  also have "drop (k + 22) q' = []"
    using st(2,3) x kq by simp
  finally have a: "snd (put_assignment (var_name 0) key (3, q)) = take (28 + length key) ([0, 0, 0] @ assignments 0 [key])"
    by simp
  have "snd (named_queries [key] p) = write_set (snd (put_assignment first_name key (3, q)))"
    by (simp only: named_queries_def l Let_def case_prod_unfold named_loop_single q_def snd_conv)
  then have "snd (named_queries [key] p) = write_set (take (28 + length key) ([0, 0, 0] @ assignments 0 [key]))"
    using a by (simp add: var_name_def)
  then show ?thesis
    by (simp add: write_set_def set_query_def code_bytes_def take_update_swap [symmetric])
qed

end
