(* ===== verification/Conn.thy ===== *)
theory Conn
  imports Resultsets NamedParams
begin

text \<open>
  \<open>MyConn\<close> of \<open>src/private/my_conn.ts\<close>: the connection object of the application around the protocol. It takes a
  protocol from the pool when it first needs one, keeps the commands of a transaction until the first query
  (\<open>pendingTrxSql\<close>), and repeats a query on another connection when one from the pool turns out to be dead.
\<close>

section \<open>State\<close>

text \<open>
  Beside the fields of the object: what was given back to the pool with the identifier of the prepared transaction to roll
  back, the requests to the pool with the schema that they asked for, how many protocols the object was given, and the
  queries that were passed to protocols, from the first to the last, each with the number of the protocol (the first one
  that the object was given has number 1).
\<close>

record my_conn =
  c_protocol :: "proto option"
  c_isConnecting :: bool
  c_savepointEnum :: nat
  c_curXaId :: jsstr
  c_curXaIdAppendConn :: bool
  c_isXaPrepared :: bool
  c_pendingChangeSchema :: jsstr
  c_pendingTrxSql :: "jsstr list"
  c_preparedStmtsForParams :: "int list"
  c_isDisposed :: bool
  c_returned :: "(proto \<times> jsstr) list"
  c_requests :: "jsstr list"
  c_given :: nat
  c_log :: "(nat \<times> sql_source) list"
  c_beforeCommits :: nat

text \<open>The queries alone.\<close>

abbreviation c_asked :: "my_conn \<Rightarrow> sql_source list" where
  "c_asked c \<equiv> map snd (c_log c)"

definition new_conn_object :: my_conn where
  "new_conn_object =
     \<lparr>c_protocol = None, c_isConnecting = False, c_savepointEnum = 0, c_curXaId = [], c_curXaIdAppendConn = False,
      c_isXaPrepared = False, c_pendingChangeSchema = [], c_pendingTrxSql = [], c_preparedStmtsForParams = [],
      c_isDisposed = False, c_returned = [], c_requests = [], c_given = 0, c_log = [],
      c_beforeCommits = 0\<rparr>"

text \<open>
  The options of the DSN, where \<open>None\<close> stands for NaN; \<open>Pool.getProtocol()\<close>, which depends on the other users of the pool
  and on the network: for the \<open>n\<close>-th request of this object it gives a protocol or throws, and \<open>True\<close> says that the
  application called \<open>end()\<close> while it was waiting; and the \<open>onBeforeCommit\<close> handler, if there is one.
\<close>

record conn_env =
  e_penv :: penv
  e_maxColumnLen :: "int option"
  e_retryLockWaitTimeout :: bool
  e_retryQueryTimes :: "nat option"
  e_jsonAsString :: bool
  e_datesAsString :: bool
  e_correctDates :: bool
  e_maxConns :: nat
  e_getProtocol :: "nat \<Rightarrow> jsstr \<Rightarrow> (exn + proto) \<times> bool"
  e_onBeforeCommit :: "(nat \<Rightarrow> exn option) option"

definition DEFAULT_MAX_CONNS :: nat where "DEFAULT_MAX_CONNS = 250"
definition SERVER_STATUS_IN_TRANS_READONLY :: int where "SERVER_STATUS_IN_TRANS_READONLY = 0x2000"
definition SAVEPOINT_ENUM_SESSION_FROM :: nat where "SAVEPOINT_ENUM_SESSION_FROM = 0x40000000"

section \<open>Methods\<close>

type_synonym 'a cl = "(my_conn, exn, 'a) loopm"

abbreviation retC :: "'a \<Rightarrow> 'a cl" where "retC a \<equiv> total_of (ret a)"
abbreviation throwC :: "exn \<Rightarrow> 'a cl" where "throwC e \<equiv> total_of (throw e)"
definition getC :: "(my_conn \<Rightarrow> 'a) \<Rightarrow> 'a cl" where "getC f c = Some (Inr (f c), c)"
definition setC :: "(my_conn \<Rightarrow> my_conn) \<Rightarrow> unit cl" where "setC f c = Some (Inr (), f c)"
definition whenC :: "bool \<Rightarrow> unit cl \<Rightarrow> unit cl" where "whenC b m = (if b then m else retC ())"

definition tryC :: "'a cl \<Rightarrow> (exn \<Rightarrow> 'a cl) \<Rightarrow> 'a cl" where
  "tryC m handler c =
     (case m c of None \<Rightarrow> None | Some (Inl e, c') \<Rightarrow> handler e c' | Some (Inr a, c') \<Rightarrow> Some (Inr a, c'))"

text \<open>A call to the protocol that the object has, with the queries that it is given.\<close>

definition on_protocol :: "sql_source list \<Rightarrow> 'a pl \<Rightarrow> 'a cl" where
  "on_protocol sqls m c =
     (case c_protocol c of
        None \<Rightarrow> Some (Inl type_error, c)
      | Some p \<Rightarrow>
          (case m p of
             None \<Rightarrow> None
           | Some (x, p') \<Rightarrow> Some (x, c\<lparr>c_protocol := Some p', c_log := c_log c @ map (Pair (c_given c)) sqls\<rparr>)))"

lemma map_snd_Pair [simp]: "map (snd \<circ> Pair k) xs = xs"
  by (simp add: o_def)

text \<open>\<open>protocol.sendComQuery(sql)\<close> and \<open>protocol.sendThreeQueries(-1, undefined, prequery, ignore, sql)\<close> with the defaults.\<close>

definition send_query :: "conn_env \<Rightarrow> jsstr \<Rightarrow> bool \<Rightarrow> nat option cl" where
  "send_query e sql letReturnUndefined =
     on_protocol [SqlString sql]
       (bindL (getL id) (\<lambda>r.
          sendComQuery (e_penv e) (SqlString sql) ((default_options r ROW_VOID)\<lparr>q_letReturnUndefined := letReturnUndefined\<rparr>)
            (p_retryQueryTimes r)))"

definition send_two :: "conn_env \<Rightarrow> jsstr \<Rightarrow> bool \<Rightarrow> jsstr \<Rightarrow> nat option cl" where
  "send_two e prequery ignorePrequeryError sql =
     on_protocol [SqlString prequery, SqlString sql]
       (bindL (getL id) (\<lambda>r.
          sendThreeQueries (e_penv e)
            \<lparr>t_preStmt = None, t_prequery = Some (SqlString prequery), t_ignorePrequeryError = ignorePrequeryError\<rparr>
            (SqlString sql) (default_options r ROW_VOID) (p_retryQueryTimes r)))"

definition in_transaction :: "my_conn \<Rightarrow> bool" where
  "in_transaction c =
     (case c_protocol c of None \<Rightarrow> False | Some p \<Rightarrow> has_status p SERVER_STATUS_IN_TRANS)"

definition inTrxReadonly :: "my_conn \<Rightarrow> bool" where
  "inTrxReadonly c =
     (case c_protocol c of None \<Rightarrow> False | Some p \<Rightarrow> has_status p SERVER_STATUS_IN_TRANS_READONLY)"

definition inTrx :: "my_conn \<Rightarrow> bool" where
  "inTrx c \<longleftrightarrow> c_pendingTrxSql c \<noteq> [] \<or> in_transaction c"

definition inXa :: "my_conn \<Rightarrow> bool" where "inXa c \<longleftrightarrow> c_curXaId c \<noteq> []"

definition conn_xaId :: "my_conn \<Rightarrow> jsstr" where
  "conn_xaId c = (if c_curXaIdAppendConn c then [] else c_curXaId c)"

section \<open>Connecting and ending\<close>

text \<open>\<open>#doEnd()\<close> without a forced disconnect.\<close>

definition conn_doEnd :: "bool \<Rightarrow> my_conn \<Rightarrow> my_conn" where
  "conn_doEnd noResetPending c =
     (let preparedXaId = (if c_isXaPrepared c then c_curXaId c else []);
          c' = c\<lparr>c_isConnecting := False, c_savepointEnum := 0, c_isXaPrepared := False, c_preparedStmtsForParams := [],
                c_protocol := None\<rparr>;
          c' = (if noResetPending then c' else c'\<lparr>c_pendingTrxSql := [], c_curXaId := [], c_curXaIdAppendConn := False\<rparr>)
      in case c_protocol c of
           None \<Rightarrow> c'
         | Some p \<Rightarrow> c'\<lparr>c_pendingChangeSchema := p_schema p, c_returned := c_returned c @ [(p, preparedXaId)]\<rparr>)"

definition conn_end :: "my_conn \<Rightarrow> my_conn" where "conn_end = conn_doEnd False"

definition conn_dispose :: "my_conn \<Rightarrow> my_conn" where
  "conn_dispose c = conn_doEnd False (c\<lparr>c_isDisposed := True\<rparr>)"

text \<open>
  The status that \<open>forceImmediateDisconnect()\<close> gives: whether a query was running and which prepared transaction is left; the
  pool is told to roll that back unless the caller opts out.
\<close>

definition conn_forceImmediateDisconnect :: "bool \<Rightarrow> my_conn \<Rightarrow> (bool \<times> jsstr) option \<times> my_conn" where
  "conn_forceImmediateDisconnect noRollbackCurXa c =
     (let preparedXaId = (if c_isXaPrepared c then c_curXaId c else []);
          c' = conn_doEnd False (c\<lparr>c_protocol := None\<rparr>)
      in case c_protocol c of
           None \<Rightarrow> (None, c')
         | Some p \<Rightarrow>
             (let (wasInQueryingState, p') = forceImmediateDisconnect p
              in (Some (wasInQueryingState, preparedXaId),
                  c'\<lparr>c_pendingChangeSchema := p_schema p,
                     c_returned := c_returned c @ [(p', if noRollbackCurXa then [] else preparedXaId)]\<rparr>)))"

definition connection_disposed :: exn where
  "connection_disposed = js_error ''This connection object is already disposed of''"

definition end_while_connecting :: exn where
  "end_while_connecting = CanceledError (js ''Operation cancelled: end() called during connection process'')"

definition conn_connect :: "conn_env \<Rightarrow> unit cl" where
  "conn_connect e c =
     (if c_isConnecting c then Some (Inl (busy ''Previous operation is still in progress''), c)
      else if c_protocol c \<noteq> None then Some (Inr (), c)
      else if c_isDisposed c then Some (Inl connection_disposed, c)
      else
        let schema = c_pendingChangeSchema c;
            c = c\<lparr>c_isConnecting := True, c_pendingChangeSchema := []\<rparr>;
            (res, ended) = e_getProtocol e (length (c_requests c)) schema;
            c = (if ended then conn_end c else c)\<lparr>c_requests := c_requests c @ [schema]\<rparr>
        in case res of
             Inl ex \<Rightarrow> Some (Inl ex, c\<lparr>c_isConnecting := False\<rparr>)
           | Inr p \<Rightarrow>
               if \<not> c_isConnecting c then Some (Inl end_while_connecting, c\<lparr>c_returned := c_returned c @ [(p, [])]\<rparr>)
               else Some (Inr (), c\<lparr>c_protocol := Some p, c_given := c_given c + 1, c_isConnecting := False\<rparr>))"

definition conn_use :: "jsstr \<Rightarrow> my_conn \<Rightarrow> my_conn" where
  "conn_use schema c =
     (case c_protocol c of
        None \<Rightarrow> c\<lparr>c_pendingChangeSchema := schema\<rparr>
      | Some p \<Rightarrow> c\<lparr>c_protocol := Some (use_schema schema p)\<rparr>)"

section \<open>Queries\<close>

definition quoted :: "string \<Rightarrow> jsstr \<Rightarrow> jsstr" where
  "quoted command xaId' = js command @ js [CHR 0x27] @ xaId' @ js [CHR 0x27]"

text \<open>
  One of the pending commands; the empty string stands for XA START with an identifier that the id of the connection is to be
  appended to.
\<close>

definition pending_sql :: "jsstr \<Rightarrow> jsstr cl" where
  "pending_sql sql c =
     (if sql \<noteq> [] then Some (Inr sql, c)
      else
        let c' = (if c_curXaIdAppendConn c then
                    c\<lparr>c_curXaId := c_curXaId c @ (case c_protocol c of None \<Rightarrow> [] | Some p \<Rightarrow> to_base 10 (nat (p_connectionId p))),
                      c_curXaIdAppendConn := False\<rparr>
                  else c)
        in Some (Inr (quoted ''XA START '' (c_curXaId c')), c'))"

text \<open>The loop over the pending commands: the tries that remain, and whether all were sent.\<close>

fun send_pending :: "conn_env \<Rightarrow> jsstr list \<Rightarrow> int \<Rightarrow> (int \<times> bool) cl" where
  "send_pending e [] n = retC (n, True)"
| "send_pending e (sql # sqls) n =
     bindL (pending_sql sql) (\<lambda>sql. bindL (send_query e sql (0 < n)) (\<lambda>res.
       if res = None then retC (n - 1, False) else send_pending e sqls (n - 1)))"

datatype query_params = NoParams | PrepareOnly | Positional "param list" | Named "(jsstr \<times> param) list"

text \<open>The options of one call; those that are not given come from the DSN, or are left to the protocol.\<close>

record conn_options =
  o_maxColumnLen' :: "int option"
  o_retryLockWaitTimeout :: "bool option"
  o_retryQueryTimes :: "nat option"
  o_jsonAsString' :: "bool option"
  o_datesAsString' :: "bool option"
  o_correctDates :: "bool option"

definition or_else :: "'a option \<Rightarrow> 'a \<Rightarrow> 'a" where
  "or_else x d = (case x of None \<Rightarrow> d | Some a \<Rightarrow> a)"

definition query_opts :: "conn_env \<Rightarrow> conn_options \<Rightarrow> row_type \<Rightarrow> bool \<Rightarrow> int \<Rightarrow> proto \<Rightarrow> query_options" where
  "query_opts e o' rowType letReturnUndefined multiStatements r =
     \<lparr>q_rowType = rowType, q_letReturnUndefined = letReturnUndefined, q_multiStatements = multiStatements,
      q_noConvertError = False,
      q_maxColumnLen = (case o_maxColumnLen' o' of Some n \<Rightarrow> n | None \<Rightarrow> or_else (e_maxColumnLen e) (p_maxColumnLen r)),
      q_retryLockWaitTimeout = or_else (o_retryLockWaitTimeout o') (e_retryLockWaitTimeout e),
      q_jsonAsString = or_else (o_jsonAsString' o') (e_jsonAsString e),
      q_datesAsString = or_else (o_datesAsString' o') (e_datesAsString e),
      q_correctDates = or_else (o_correctDates o') (e_correctDates e)\<rparr>"

definition retry_times :: "conn_env \<Rightarrow> conn_options \<Rightarrow> proto \<Rightarrow> nat" where
  "retry_times e o' r =
     (case o_retryQueryTimes o' of Some n \<Rightarrow> n | None \<Rightarrow> or_else (e_retryQueryTimes e) (p_retryQueryTimes r))"

text \<open>\<open>sendComStmtPrepare(sql, putParamsTo, ...)\<close>: the list that would take the parameters in a template is not modelled.\<close>

definition send_prepare :: "conn_env \<Rightarrow> sql_source \<Rightarrow> (proto \<Rightarrow> query_options) \<Rightarrow> bool \<Rightarrow> nat option cl" where
  "send_prepare e sql opts skipColumns =
     on_protocol [] (bindL (getL id) (\<lambda>r. sendComStmtPrepare (e_penv e) sql (opts r) skipColumns))"

text \<open>A block with a \<open>finally\<close> clause that does not throw.\<close>

definition finally_do :: "'a pl \<Rightarrow> (proto \<Rightarrow> proto) \<Rightarrow> 'a pl" where
  "finally_do m f =
     bindL (tryL (bindL m (\<lambda>a. bindL (setL f) (\<lambda>_. retL (Inr a)))) (\<lambda>e. bindL (setL f) (\<lambda>_. retL (Inl e))))
       (\<lambda>x. case x of Inl e \<Rightarrow> throwL e | Inr a \<Rightarrow> retL a)"

definition too_many_names :: exn where
  "too_many_names = new_SqlError (js ''Too many query parameters. The maximum of 65535 is supported'') 0 [] False False"

text \<open>The statements that are prepared for 8, 16, ... placeholders.\<close>

definition stmt_for :: "nat \<Rightarrow> my_conn \<Rightarrow> int option" where
  "stmt_for pos c =
     (if pos < length (c_preparedStmtsForParams c) \<and> c_preparedStmtsForParams c ! pos \<noteq> -1
      then Some (c_preparedStmtsForParams c ! pos) else None)"

definition set_stmt_for :: "nat \<Rightarrow> int \<Rightarrow> my_conn \<Rightarrow> my_conn" where
  "set_stmt_for pos stmtId c =
     (let xs = c_preparedStmtsForParams c; xs = xs @ replicate (pos - length xs) (-1)
      in c\<lparr>c_preparedStmtsForParams := (if pos < length xs then xs[pos := stmtId] else xs @ [stmtId])\<rparr>)"

text \<open>
  \<open>#getNamedParamsQueries()\<close>: the id of the prepared statement, the values for its placeholders, and the query that names
  the variables; \<open>None\<close> when the connection is dead.
\<close>

definition getNamedParamsQueries ::
  "conn_env \<Rightarrow> (jsstr \<times> param) list \<Rightarrow> bool \<Rightarrow> (int \<times> param list \<times> byte list option) option cl" where
  "getNamedParamsQueries e params letReturnUndefined =
     (let keys = map fst params; pos = (length keys - 1) div 8; n = n_placeholders keys;
          vals = map snd params @ replicate (n - length keys) PNull
      in if keys = [] then retC (Some (-1, [], None))
         else if 0xFFFF < length keys then throwC too_many_names
         else
           bindL (getC (stmt_for pos)) (\<lambda>stmt.
             let (query0, query1) = named_queries keys (stmt = None)
             in case query0 of
                  None \<Rightarrow> retC (Some (or_else stmt (-1), vals, Some query1))
                | Some query0 \<Rightarrow>
                    bindL (send_prepare e (SqlBytes query0)
                             (\<lambda>r. (default_options r ROW_VOID)\<lparr>q_letReturnUndefined := letReturnUndefined\<rparr>) True) (\<lambda>res.
                      case res of
                        None \<Rightarrow> retC None
                      | Some i \<Rightarrow>
                          bindL (on_protocol [] (getL (\<lambda>r. s_stmtId (cur i r)))) (\<lambda>stmtId.
                          bindL (setC (set_stmt_for pos stmtId)) (\<lambda>_. retC (Some (stmtId, vals, Some query1)))))))"

definition cannot_prepare :: "string \<Rightarrow> exn" where
  "cannot_prepare s = js_error (''Cannot prepare multiple statements'' @ s)"

text \<open>One try of the query on the connection that there is; \<open>n\<close> is the number of tries that remain.\<close>

definition try_query ::
  "conn_env \<Rightarrow> sql_source \<Rightarrow> query_params \<Rightarrow> conn_options \<Rightarrow> row_type \<Rightarrow> int \<Rightarrow> int \<Rightarrow> nat option cl" where
  "try_query e sql params o' rowType multiStatements n =
     (let opts = query_opts e o' rowType (0 < n) multiStatements
      in case params of
           NoParams \<Rightarrow>
             on_protocol [sql] (bindL (getL id) (\<lambda>r. sendComQuery (e_penv e) sql (opts r) (retry_times e o' r)))
         | PrepareOnly \<Rightarrow>
             if multiStatements = MULTI_STATEMENTS_ON then throwC (cannot_prepare [])
             else send_prepare e sql opts False
         | Positional ps \<Rightarrow>
             if multiStatements = MULTI_STATEMENTS_ON then throwC (cannot_prepare '' (however you can use named parameters)'')
             else
               bindL (send_prepare e sql opts True) (\<lambda>res.
                 case res of
                   None \<Rightarrow> retC None
                 | Some i \<Rightarrow>
                     bindL (on_protocol [sql] (finally_do (rs_exec (e_penv e) i ps) (rs_disposePreparedStmt i))) (\<lambda>_. retC (Some i)))
         | Named ps \<Rightarrow>
             bindL (getNamedParamsQueries e ps (0 < n)) (\<lambda>queries.
               case queries of
                 None \<Rightarrow> retC None
               | Some (stmtId, vals, None) \<Rightarrow>
                   on_protocol [sql] (bindL (getL id) (\<lambda>r. sendComQuery (e_penv e) sql (opts r) (retry_times e o' r)))
               | Some (stmtId, vals, Some query1) \<Rightarrow>
                   on_protocol [SqlBytes query1, sql] (bindL (getL id) (\<lambda>r.
                     sendThreeQueries (e_penv e)
                       \<lparr>t_preStmt = (if 0 \<le> stmtId then Some (stmtId, vals) else None), t_prequery = Some (SqlBytes query1),
                        t_ignorePrequeryError = False\<rparr>
                       sql (opts r) (retry_times e o' r)))))"

definition end_during_query :: exn where
  "end_during_query = CanceledError (js ''Operation cancelled: end() called during query'')"

text \<open>One turn of the loop: the result, or the number of tries that remain.\<close>

definition query_turn ::
  "conn_env \<Rightarrow> sql_source \<Rightarrow> query_params \<Rightarrow> conn_options \<Rightarrow> row_type \<Rightarrow> int \<Rightarrow> int \<Rightarrow> (int + nat) cl" where
  "query_turn e sql params o' rowType multiStatements n =
     bindL (conn_connect e) (\<lambda>_. bindL (getC id) (\<lambda>c.
       if c_protocol c = None then throwC end_during_query
       else
         bindL (send_pending e (c_pendingTrxSql c) n) (\<lambda>(n, ok).
           if \<not> ok then bindL (setC (conn_doEnd True)) (\<lambda>_. retC (Inl n))
           else
             bindL (setC (\<lambda>c. c\<lparr>c_pendingTrxSql := []\<rparr>)) (\<lambda>_.
             bindL (try_query e sql params o' rowType multiStatements n) (\<lambda>res.
               case res of
                 Some i \<Rightarrow> retC (Inr i)
               | None \<Rightarrow> bindL (setC (conn_doEnd False)) (\<lambda>_. retC (Inl (n - 1))))))))"

partial_function (option) query_turns ::
  "conn_env \<Rightarrow> sql_source \<Rightarrow> query_params \<Rightarrow> conn_options \<Rightarrow> row_type \<Rightarrow> int \<Rightarrow> int \<Rightarrow> nat cl" where
  "query_turns e sql params o' rowType multiStatements n c =
     (case query_turn e sql params o' rowType multiStatements n c of
        None \<Rightarrow> None
      | Some (Inl ex, c') \<Rightarrow> Some (Inl ex, c')
      | Some (Inr (Inr i), c') \<Rightarrow> Some (Inr i, c')
      | Some (Inr (Inl n'), c') \<Rightarrow> query_turns e sql params o' rowType multiStatements n' c')"

definition max_conns :: "conn_env \<Rightarrow> nat" where
  "max_conns e = (if e_maxConns e = 0 then DEFAULT_MAX_CONNS else e_maxConns e)"

definition doQuery ::
  "conn_env \<Rightarrow> sql_source \<Rightarrow> query_params \<Rightarrow> conn_options \<Rightarrow> row_type \<Rightarrow> int \<Rightarrow> nat cl" where
  "doQuery e sql params o' rowType multiStatements =
     query_turns e sql params o' rowType multiStatements (int (max_conns e))"

definition no_options :: conn_options where
  "no_options =
     \<lparr>o_maxColumnLen' = None, o_retryLockWaitTimeout = None, o_retryQueryTimes = None, o_jsonAsString' = None,
      o_datesAsString' = None, o_correctDates = None\<rparr>"

section \<open>Transactions\<close>

definition call_beforeCommit :: "conn_env \<Rightarrow> unit cl" where
  "call_beforeCommit e c =
     (case e_onBeforeCommit e of
        None \<Rightarrow> Some (Inr (), c)
      | Some handler \<Rightarrow>
          let c' = c\<lparr>c_beforeCommits := c_beforeCommits c + 1\<rparr>
          in case handler (c_beforeCommits c) of None \<Rightarrow> Some (Inr (), c') | Some ex \<Rightarrow> Some (Inl ex, c'))"

definition sql_error :: "string \<Rightarrow> exn" where
  "sql_error message = new_SqlError (js message) 0 [] False False"

definition disconnected :: "exn \<Rightarrow> exn" where
  "disconnected e = ServerDisconnectedError (exn_message e) 0"

text \<open>The fields of a transaction that is over.\<close>

definition trx_over :: "my_conn \<Rightarrow> my_conn" where
  "trx_over c = c\<lparr>c_curXaId := [], c_curXaIdAppendConn := False, c_isXaPrepared := False, c_pendingTrxSql := []\<rparr>"

definition has_transaction :: "my_conn \<Rightarrow> bool" where
  "has_transaction c \<longleftrightarrow> c_protocol c \<noteq> None \<and> (in_transaction c \<or> c_isXaPrepared c)"

text \<open>The command that commits, and if it fails the one that rolls back; the result is the error of the first.\<close>

definition commit_or_rollback :: "conn_env \<Rightarrow> jsstr \<Rightarrow> jsstr \<Rightarrow> exn option cl" where
  "commit_or_rollback e sql rollbackSql =
     tryC (bindL (send_query e sql False) (\<lambda>_. retC None))
       (\<lambda>ex. tryC (bindL (send_query e rollbackSql False) (\<lambda>_. retC (Some ex)))
                (\<lambda>ex2. bindL (setC (conn_doEnd False)) (\<lambda>_. throwC (disconnected ex))))"

definition conn_commit :: "conn_env \<Rightarrow> bool \<Rightarrow> unit cl" where
  "conn_commit e andChain =
     bindL (getC id) (\<lambda>c.
     bindL (if has_transaction c then
              if c_curXaId c \<noteq> [] then
                if \<not> c_isXaPrepared c then throwC (sql_error ''Please, prepare commit first'')
                else
                  bindL (commit_or_rollback e (quoted ''XA COMMIT '' (c_curXaId c)) (quoted ''XA ROLLBACK '' (c_curXaId c))) (\<lambda>error.
                    retC (if error = None \<and> andChain then Some (sql_error ''Cannot chain XA'') else error))
              else
                bindL (call_beforeCommit e) (\<lambda>_.
                  commit_or_rollback e (js (if andChain then ''COMMIT AND CHAIN'' else ''COMMIT''))
                    (js (if andChain then ''ROLLBACK AND CHAIN'' else ''ROLLBACK'')))
            else retC None) (\<lambda>error.
     bindL (setC trx_over) (\<lambda>_. case error of None \<Rightarrow> retC () | Some ex \<Rightarrow> throwC ex)))"

text \<open>An absent option is the empty string.\<close>

record trx_options =
  x_readonly :: bool
  x_xaId :: jsstr
  x_xaId1 :: jsstr

definition no_trx_options :: trx_options where "no_trx_options = \<lparr>x_readonly = False, x_xaId = [], x_xaId1 = []\<rparr>"

definition invalid_xa_id :: "jsstr \<Rightarrow> exn" where "invalid_xa_id xa = JsError (js ''Invalid XA ID: '' @ xa)"

definition bad_xa_id :: "jsstr \<Rightarrow> bool" where
  "bad_xa_id xa \<longleftrightarrow> of_char (CHR 0x27) \<in> set xa \<or> of_char (CHR 0x5C) \<in> set xa"

definition begin_trx :: "trx_options \<Rightarrow> my_conn \<Rightarrow> my_conn" where
  "begin_trx o' c =
     (let c' = (if x_xaId o' \<noteq> [] then
                  c\<lparr>c_curXaId := x_xaId o', c_curXaIdAppendConn := False, c_pendingTrxSql := [quoted ''XA START '' (x_xaId o')]\<rparr>
                else if x_xaId1 o' \<noteq> [] then
                  (case c_protocol c of
                     None \<Rightarrow> c\<lparr>c_curXaId := x_xaId1 o', c_curXaIdAppendConn := True, c_pendingTrxSql := [[]]\<rparr>
                   | Some p \<Rightarrow>
                       let xa = x_xaId1 o' @ to_base 10 (nat (p_connectionId p))
                       in c\<lparr>c_curXaId := xa, c_curXaIdAppendConn := False, c_pendingTrxSql := [quoted ''XA START '' xa]\<rparr>)
                else
                  c\<lparr>c_curXaId := [], c_curXaIdAppendConn := False,
                    c_pendingTrxSql := [js (if x_readonly o' then ''START TRANSACTION READ ONLY'' else ''START TRANSACTION'')]\<rparr>)
      in c'\<lparr>c_savepointEnum := 0\<rparr>)"

definition conn_startTrx :: "conn_env \<Rightarrow> trx_options \<Rightarrow> unit cl" where
  "conn_startTrx e o' =
     bindL (getC id) (\<lambda>c.
     bindL (if in_transaction c then
              if c_curXaId c \<noteq> [] then throwC (sql_error (''There'' @ [CHR 0x27] @ ''s already an active Distributed Transaction''))
              else conn_commit e False
            else retC ()) (\<lambda>_.
       let someXaId = (if x_xaId o' \<noteq> [] then x_xaId o' else x_xaId1 o')
       in if someXaId \<noteq> [] \<and> bad_xa_id someXaId then throwC (invalid_xa_id someXaId) else setC (begin_trx o')))"

definition conn_savepoint :: "my_conn \<Rightarrow> nat \<times> my_conn" where
  "conn_savepoint c =
     (let pointId = c_savepointEnum c + 1
      in (pointId, c\<lparr>c_savepointEnum := pointId, c_pendingTrxSql := c_pendingTrxSql c @ [js ''SAVEPOINT p'' @ to_base 10 pointId]\<rparr>))"

definition sessionSavepoint :: "nat \<Rightarrow> my_conn \<Rightarrow> my_conn" where
  "sessionSavepoint pointId c =
     c\<lparr>c_pendingTrxSql := c_pendingTrxSql c @ [js ''SAVEPOINT s'' @ to_base 10 pointId]\<rparr>"

definition conn_prepareCommit :: "conn_env \<Rightarrow> unit cl" where
  "conn_prepareCommit e =
     bindL (getC id) (\<lambda>c.
       if in_transaction c \<and> c_curXaId c \<noteq> [] \<and> \<not> c_isXaPrepared c then
         bindL (call_beforeCommit e) (\<lambda>_.
         bindL (send_two e (quoted ''XA END '' (c_curXaId c)) False (quoted ''XA PREPARE '' (c_curXaId c))) (\<lambda>_.
           setC (\<lambda>c. c\<lparr>c_isXaPrepared := True\<rparr>)))
       else retC ())"

text \<open>
  The loop over the pending commands from the last, which stops at the first that is not a savepoint of the kind; the result
  is what is left of them when the savepoint is found.
\<close>

fun unsent_savepoint :: "jsstr \<Rightarrow> nat \<Rightarrow> jsstr list \<Rightarrow> jsstr list option" where
  "unsent_savepoint prefix pointId [] = None"
| "unsent_savepoint prefix pointId (sql # before) =
     (if take (length prefix) sql \<noteq> prefix then None
      else if digits_value 10 (drop 11 sql) = pointId then Some (rev before)
      else unsent_savepoint prefix pointId before)"

definition no_savepoint :: "nat \<Rightarrow> exn" where
  "no_savepoint n = JsError (js ''No such SAVEPOINT: '' @ to_base 10 n)"

definition rollback_to :: "conn_env \<Rightarrow> nat \<Rightarrow> unit cl" where
  "rollback_to e toPointId =
     (let isOfSession = SAVEPOINT_ENUM_SESSION_FROM \<le> toPointId;
          pointId = (if isOfSession then toPointId - SAVEPOINT_ENUM_SESSION_FROM else toPointId)
      in bindL (getC id) (\<lambda>c.
           case unsent_savepoint (js (if isOfSession then ''SAVEPOINT s'' else ''SAVEPOINT p'')) pointId (rev (c_pendingTrxSql c)) of
             Some sqls \<Rightarrow> setC (\<lambda>c. c\<lparr>c_pendingTrxSql := sqls\<rparr>)
           | None \<Rightarrow>
               if in_transaction c then
                 bindL (doQuery e (SqlString (js (if isOfSession then ''ROLLBACK TO s'' else ''ROLLBACK TO p'') @ to_base 10 pointId))
                          NoParams no_options ROW_VOID NO_MATTER) (\<lambda>_. retC ())
               else throwC (no_savepoint toPointId)))"

text \<open>\<open>and_chain\<close> is \<open>toPointId === 0\<close>.\<close>

definition rollback_all :: "conn_env \<Rightarrow> bool \<Rightarrow> unit cl" where
  "rollback_all e and_chain =
     bindL (getC id) (\<lambda>c.
     bindL (if has_transaction c then
              tryC (bindL (if and_chain then send_query e (js ''ROLLBACK AND CHAIN'') False
                           else if c_curXaId c = [] then send_query e (js ''ROLLBACK'') False
                           else if c_isXaPrepared c then send_query e (quoted ''XA ROLLBACK '' (c_curXaId c)) False
                           else send_two e (quoted ''XA END '' (c_curXaId c)) True (quoted ''XA ROLLBACK '' (c_curXaId c)))
                      (\<lambda>_. retC ()))
                (\<lambda>ex. bindL (getC inTrxReadonly) (\<lambda>readonly. bindL (setC (conn_doEnd False)) (\<lambda>_.
                      bindL (whenC and_chain (conn_startTrx e (no_trx_options\<lparr>x_readonly := readonly\<rparr>))) (\<lambda>_.
                        throwC (disconnected ex)))))
            else retC ()) (\<lambda>_. setC trx_over))"

definition conn_rollback :: "conn_env \<Rightarrow> nat option \<Rightarrow> unit cl" where
  "conn_rollback e toPointId =
     (case toPointId of
        None \<Rightarrow> rollback_all e False
      | Some n \<Rightarrow> if n \<noteq> 0 then rollback_to e n else rollback_all e True)"

definition ER_NO_SUCH_THREAD :: nat where "ER_NO_SUCH_THREAD = 1094"

fun is_no_such_thread :: "exn \<Rightarrow> bool" where
  "is_no_such_thread (SqlError m code state' retry) = (code = ER_NO_SUCH_THREAD)"
| "is_no_such_thread _ = False"

text \<open>KILL QUERY goes over another connection of the pool.\<close>

definition killQuery :: "conn_env \<Rightarrow> bool cl" where
  "killQuery e c =
     (case c_protocol c of
        None \<Rightarrow> Some (Inr True, c)
      | Some p \<Rightarrow>
          let res = fst (e_getProtocol e (length (c_requests c)) []); c = c\<lparr>c_requests := c_requests c @ [[]]\<rparr>
          in case res of
               Inl ex \<Rightarrow> Some (Inr (is_no_such_thread ex), c)
             | Inr q \<Rightarrow>
                 (case sendComQuery (e_penv e) (SqlString (js ''KILL QUERY '' @ to_base 10 (nat (p_connectionId p))))
                         (default_options q ROW_VOID) (p_retryQueryTimes q) q of
                    None \<Rightarrow> None
                  | Some (x, q') \<Rightarrow>
                      Some (Inr (case x of Inl ex \<Rightarrow> is_no_such_thread ex | Inr _ \<Rightarrow> True),
                            c\<lparr>c_returned := c_returned c @ [(q', [])]\<rparr>)))"

end
