(* ===== verification/Session.thy ===== *)
theory Session
  imports Conn
begin

text \<open>
  \<open>MySession\<close> of \<open>src/private/my_session.ts\<close>: several connections with one transaction, which is committed in two phases when it
  is distributed. \<open>Promise.allSettled()\<close> over the connections runs one after another here: each of the promises works on a
  connection of its own.
\<close>

section \<open>State\<close>

text \<open>Each connection with the name of its DSN; the options of the transaction are \<open>readonly\<close> and \<open>xaId1\<close>.\<close>

record session =
  z_conns :: "(jsstr \<times> my_conn) list"
  z_savepointEnum :: nat
  z_trxOptions :: "(bool \<times> jsstr) option"
  z_isDisposed :: bool
  z_xaIdGen :: xa_gen
  z_beforeCommits :: nat

definition new_session :: session where
  "new_session =
     \<lparr>z_conns = [], z_savepointEnum = 0, z_trxOptions = None, z_isDisposed = False, z_xaIdGen = new_xa_gen, z_beforeCommits = 0\<rparr>"

text \<open>The pool as a session sees it: what a connection to each DSN gets, the handler, the process and the clock.\<close>

record session_env =
  y_conn_env :: "jsstr \<Rightarrow> conn_env"
  y_onBeforeCommit :: "(nat \<Rightarrow> exn option) option"
  y_pid :: nat
  y_now :: nat

type_synonym 'a sl = "(session, exn, 'a) loopm"

abbreviation retS :: "'a \<Rightarrow> 'a sl" where "retS a \<equiv> total_of (ret a)"
abbreviation throwS :: "exn \<Rightarrow> 'a sl" where "throwS e \<equiv> total_of (throw e)"
definition getS :: "(session \<Rightarrow> 'a) \<Rightarrow> 'a sl" where "getS f z = Some (Inr (f z), z)"
definition setS :: "(session \<Rightarrow> session) \<Rightarrow> unit sl" where "setS f z = Some (Inr (), f z)"

definition tryS :: "'a sl \<Rightarrow> (exn \<Rightarrow> 'a sl) \<Rightarrow> 'a sl" where
  "tryS m handler z =
     (case m z of None \<Rightarrow> None | Some (Inl e, z') \<Rightarrow> handler e z' | Some (Inr a, z') \<Rightarrow> Some (Inr a, z'))"

section \<open>All connections\<close>

text \<open>The errors of the connections, in their order; an operation that does not return keeps the others waiting.\<close>

fun for_conns :: "(jsstr \<Rightarrow> unit cl) \<Rightarrow> (jsstr \<times> my_conn) list \<Rightarrow> (exn list \<times> (jsstr \<times> my_conn) list) option" where
  "for_conns f [] = Some ([], [])"
| "for_conns f ((dsn, c) # conns) =
     (case f dsn c of
        None \<Rightarrow> None
      | Some (x, c') \<Rightarrow>
          (case for_conns f conns of
             None \<Rightarrow> None
           | Some (errors, conns') \<Rightarrow>
               Some ((case x of Inl ex \<Rightarrow> ex # errors | Inr _ \<Rightarrow> errors), (dsn, c') # conns')))"

text \<open>\<open>#doAll()\<close>: the first error, if there is one.\<close>

definition doAll :: "(jsstr \<Rightarrow> unit cl) \<Rightarrow> exn option sl" where
  "doAll f z =
     (case for_conns f (z_conns z) of
        None \<Rightarrow> None
      | Some (errors, conns) \<Rightarrow> Some (Inr (case errors of [] \<Rightarrow> None | ex # _ \<Rightarrow> Some ex), z\<lparr>z_conns := conns\<rparr>))"

definition throw_error :: "exn option \<Rightarrow> unit sl" where
  "throw_error error = (case error of None \<Rightarrow> retS () | Some ex \<Rightarrow> throwS ex)"

section \<open>Transactions\<close>

definition session_error :: "string \<Rightarrow> exn" where "session_error s = JsError (js s)"

definition conn_options_of :: "bool \<times> jsstr \<Rightarrow> trx_options" where
  "conn_options_of o' = \<lparr>x_readonly = fst o', x_xaId = [], x_xaId1 = snd o'\<rparr>"

text \<open>What a function leaves whose promise nobody waits for.\<close>

definition unawaited :: "unit cl \<Rightarrow> my_conn \<Rightarrow> my_conn" where
  "unawaited m c = (case m c of None \<Rightarrow> c | Some (x, c') \<Rightarrow> c')"

definition add_savepoints :: "nat \<Rightarrow> my_conn \<Rightarrow> my_conn" where
  "add_savepoints n c = fold sessionSavepoint [1..<Suc n] c"

definition new_session_conn :: "session_env \<Rightarrow> jsstr \<Rightarrow> session \<Rightarrow> my_conn" where
  "new_session_conn y dsn z =
     add_savepoints (z_savepointEnum z)
       (case z_trxOptions z of
          None \<Rightarrow> new_conn_object
        | Some o' \<Rightarrow> unawaited (conn_startTrx (y_conn_env y dsn) (conn_options_of o')) new_conn_object)"

text \<open>\<open>conn()\<close>: the number of the connection.\<close>

fun find_conn :: "jsstr \<Rightarrow> (jsstr \<times> my_conn) list \<Rightarrow> nat \<Rightarrow> nat option" where
  "find_conn dsn [] i = None"
| "find_conn dsn ((d, c) # conns) i = (if d = dsn then Some i else find_conn dsn conns (Suc i))"

definition session_conn :: "session_env \<Rightarrow> jsstr \<Rightarrow> bool \<Rightarrow> nat sl" where
  "session_conn y dsn fresh =
     bindL (getS id) (\<lambda>z.
       if z_isDisposed z then throwS (session_error ''This session object is already disposed of'')
       else
         case (if fresh then None else find_conn dsn (z_conns z) 0) of
           Some i \<Rightarrow> retS i
         | None \<Rightarrow>
             bindL (setS (\<lambda>z. z\<lparr>z_conns := z_conns z @ [(dsn, new_session_conn y dsn z)]\<rparr>)) (\<lambda>_. retS (length (z_conns z))))"

definition session_dispose :: "session \<Rightarrow> (jsstr \<times> my_conn) list \<times> session" where
  "session_dispose z =
     (map (\<lambda>(dsn, c). (dsn, conn_dispose c)) (z_conns z), z\<lparr>z_isDisposed := True, z_conns := []\<rparr>)"

text \<open>\<open>rollback()\<close> of all connections, with what becomes of the options and the number of savepoints.\<close>

definition rollback_conns :: "session_env \<Rightarrow> nat option \<Rightarrow> exn option sl" where
  "rollback_conns y toPointId = doAll (\<lambda>dsn. conn_rollback (y_conn_env y dsn) toPointId)"

definition session_rollback_end :: "session_env \<Rightarrow> exn option sl" where
  "session_rollback_end y =
     bindL (setS (\<lambda>z. z\<lparr>z_trxOptions := None, z_savepointEnum := 0\<rparr>)) (\<lambda>_. rollback_conns y None)"

definition before_commit :: "session_env \<Rightarrow> unit sl" where
  "before_commit y z =
     (case y_onBeforeCommit y of
        None \<Rightarrow> Some (Inr (), z)
      | Some handler \<Rightarrow>
          let z' = z\<lparr>z_beforeCommits := z_beforeCommits z + 1\<rparr>
          in case handler (z_beforeCommits z) of None \<Rightarrow> Some (Inr (), z') | Some ex \<Rightarrow> Some (Inl ex, z'))"

definition prepare_conn :: "session_env \<Rightarrow> jsstr \<Rightarrow> unit cl" where
  "prepare_conn y dsn = bindL (getC inXa) (\<lambda>xa. whenC xa (conn_prepareCommit (y_conn_env y dsn)))"

text \<open>
  \<open>commit()\<close>, where \<open>roll\<close> is the rollback after a failure and \<open>chain\<close> what is done at the end with the options of
  the transaction.
\<close>

definition commit_with :: "session_env \<Rightarrow> unit sl \<Rightarrow> ((bool \<times> jsstr) option \<Rightarrow> unit sl) \<Rightarrow> unit sl" where
  "commit_with y roll chain =
     bindL (getS z_trxOptions) (\<lambda>trxOptions.
     bindL (setS (\<lambda>z. z\<lparr>z_trxOptions := None, z_savepointEnum := 0\<rparr>)) (\<lambda>_. bindL (getS z_conns) (\<lambda>conns.
       if conns = [] then retS ()
       else
         let roll_and_throw = (\<lambda>ex. bindL (tryS roll (\<lambda>_. retS ())) (\<lambda>_. throwS ex))
         in bindL (tryS (before_commit y) roll_and_throw) (\<lambda>_.
            bindL (doAll (prepare_conn y)) (\<lambda>error.
            bindL (case error of None \<Rightarrow> retS () | Some ex \<Rightarrow> roll_and_throw ex) (\<lambda>_.
            bindL (doAll (\<lambda>dsn. conn_commit (y_conn_env y dsn) False)) (\<lambda>error.
            bindL (throw_error error) (\<lambda>_. chain trxOptions))))))))"

definition session_commit_end :: "session_env \<Rightarrow> unit sl" where
  "session_commit_end y = commit_with y (bindL (session_rollback_end y) throw_error) (\<lambda>_. retS ())"

definition begin_all :: "session_env \<Rightarrow> bool \<times> jsstr \<Rightarrow> session \<Rightarrow> session" where
  "begin_all y o' z =
     z\<lparr>z_trxOptions := Some o', z_savepointEnum := 0,
       z_conns := map (\<lambda>(dsn, c). (dsn, unawaited (conn_startTrx (y_conn_env y dsn) (conn_options_of o')) c)) (z_conns z)\<rparr>"

definition session_startTrx :: "session_env \<Rightarrow> bool \<Rightarrow> bool \<Rightarrow> unit sl" where
  "session_startTrx y readonly xa =
     bindL (getS z_conns) (\<lambda>conns. bindL (if conns \<noteq> [] then session_commit_end y else retS ()) (\<lambda>_.
     bindL (getS z_xaIdGen) (\<lambda>g.
       let (xaId1, g) = (if xa then xa_next (y_pid y) (y_now y) g else ([], g))
       in setS (\<lambda>z. begin_all y (readonly \<and> \<not> xa, xaId1) (z\<lparr>z_xaIdGen := g\<rparr>)))))"

definition session_savepoint :: "session \<Rightarrow> nat \<times> session" where
  "session_savepoint z =
     (let pointId = z_savepointEnum z + 1
      in (SAVEPOINT_ENUM_SESSION_FROM + pointId,
          z\<lparr>z_savepointEnum := pointId, z_conns := map (\<lambda>(dsn, c). (dsn, sessionSavepoint pointId c)) (z_conns z)\<rparr>))"

definition session_rollback :: "session_env \<Rightarrow> nat option \<Rightarrow> unit sl" where
  "session_rollback y toPointId =
     (case toPointId of
        None \<Rightarrow> bindL (session_rollback_end y) throw_error
      | Some n \<Rightarrow>
          if n = 0 then
            bindL (getS z_trxOptions) (\<lambda>trxOptions.
              case trxOptions of
                Some (readonly, xaId1) \<Rightarrow>
                  if xaId1 \<noteq> [] then
                    bindL (session_rollback_end y) (\<lambda>error.
                    bindL (tryS (bindL (session_startTrx y False True) (\<lambda>_. retS error)) (\<lambda>ex. retS (case error of None \<Rightarrow> Some ex | Some ex \<Rightarrow> Some ex)))
                      throw_error)
                  else bindL (setS (\<lambda>z. z\<lparr>z_savepointEnum := 0\<rparr>)) (\<lambda>_. bindL (rollback_conns y (Some 0)) throw_error)
              | None \<Rightarrow> bindL (setS (\<lambda>z. z\<lparr>z_savepointEnum := 0\<rparr>)) (\<lambda>_. bindL (rollback_conns y (Some 0)) throw_error))
          else if n \<le> SAVEPOINT_ENUM_SESSION_FROM then throwS (no_savepoint n)
          else
            bindL (setS (\<lambda>z. z\<lparr>z_savepointEnum := n - (SAVEPOINT_ENUM_SESSION_FROM + 1)\<rparr>)) (\<lambda>_.
            bindL (rollback_conns y (Some n)) throw_error))"

definition session_commit :: "session_env \<Rightarrow> bool \<Rightarrow> unit sl" where
  "session_commit y andChain =
     (if andChain then
        commit_with y (session_rollback y (Some 0))
          (\<lambda>trxOptions.
             case trxOptions of
               None \<Rightarrow> session_startTrx y False False
             | Some (readonly, xaId1) \<Rightarrow> session_startTrx y readonly (xaId1 \<noteq> []))
      else session_commit_end y)"

text \<open>\<open>forceImmediateDisconnect()\<close>: what was disconnected.\<close>

definition session_forceImmediateDisconnect :: "bool \<Rightarrow> session \<Rightarrow> (bool \<times> jsstr) list \<times> session" where
  "session_forceImmediateDisconnect noRollbackCurXa z =
     (let res = map (\<lambda>(dsn, c). (dsn, conn_forceImmediateDisconnect noRollbackCurXa c)) (z_conns z)
      in (List.map_filter (\<lambda>(dsn, info, c). info) res, z\<lparr>z_conns := map (\<lambda>(dsn, info, c). (dsn, c)) res\<rparr>))"

end
