(* ===== verification/ReaderSpec.thy ===== *)
theory ReaderSpec
  imports Reader
begin

text \<open>
  What the reader promises, whatever the pieces in which the bytes come and wherever the packets are cut.
  The specification is the logical payload: the bytes up to the end of the packet, with the packets that
  follow a packet of the maximal length joined to it. Each operation takes its value from the front of the
  logical payload and leaves the rest of it, and the bytes behind the payload, untouched.

  The lemmas are proved once in the locale \<open>byte_source\<close>, so they hold for the ordinary and for the
  compressed protocol.
\<close>

section \<open>The logical payload\<close>

text \<open>\<open>k\<close> bytes of the current packet remain; \<open>full\<close> says that its length is \<open>0xFFFFFF\<close>.\<close>

function payload :: "bool \<Rightarrow> nat \<Rightarrow> byte list \<Rightarrow> byte list" where
  "payload full k s =
     (if full \<and> k + 4 \<le> length s then
        take k s @ (let n = le_nat (take 3 (drop k s)) in payload (n = 0xFFFFFF) n (drop (k + 4) s))
      else take k s)"
  by auto
termination
  by (relation "measure (\<lambda>(full, k, s). length s)") auto

function after_payload :: "bool \<Rightarrow> nat \<Rightarrow> byte list \<Rightarrow> byte list" where
  "after_payload full k s =
     (if full \<and> k + 4 \<le> length s then
        (let n = le_nat (take 3 (drop k s)) in after_payload (n = 0xFFFFFF) n (drop (k + 4) s))
      else drop k s)"
  by auto
termination
  by (relation "measure (\<lambda>(full, k, s). length s)") auto

declare payload.simps [simp del] after_payload.simps [simp del]

lemma payload_take:
  assumes "n \<le> k" "n \<le> length s"
  shows "take n (payload full k s) = take n s"
    and "payload full (k - n) (drop n s) = drop n (payload full k s)"
    and "after_payload full (k - n) (drop n s) = after_payload full k s"
proof -
  have c: "k - n + 4 \<le> length (drop n s) \<longleftrightarrow> k + 4 \<le> length s"
    and d: "drop (k - n) (drop n s) = drop k s" "drop (k - n + 4) (drop n s) = drop (k + 4) s"
    using assms by (auto simp: add.commute)
  have t: "take k s = take n s @ take (k - n) (drop n s)"
    using assms by (metis le_add_diff_inverse take_add)
  have l: "length (take n s) = n"
    using assms by simp
  show "take n (payload full k s) = take n s"
    using assms l by (subst payload.simps) (simp add: Let_def t)
  show "payload full (k - n) (drop n s) = drop n (payload full k s)"
    unfolding payload.simps [of full k s] payload.simps [of full "k - n" "drop n s"] c d
    using l by (simp add: t)
  show "after_payload full (k - n) (drop n s) = after_payload full k s"
    unfolding after_payload.simps [of full k s] after_payload.simps [of full "k - n" "drop n s"] c d
    by simp
qed

text \<open>Cutting a header out of the stream joins the packet with the next one.\<close>

lemma payload_join:
  assumes "k + 4 \<le> length s"
  defines "n \<equiv> le_nat (take 3 (drop k s))"
  shows "payload (n = 0xFFFFFF) (k + n) (take k s @ drop (k + 4) s) = payload True k s"
    and "after_payload (n = 0xFFFFFF) (k + n) (take k s @ drop (k + 4) s) = after_payload True k s"
proof -
  let ?s = "take k s @ drop (k + 4) s"
  have "take k (payload (n = 0xFFFFFF) (k + n) ?s) = take k s"
    using payload_take(1) [of k "k + n" ?s "n = 0xFFFFFF"] assms(1) by simp
  moreover have "drop k (payload (n = 0xFFFFFF) (k + n) ?s) = payload (n = 0xFFFFFF) n (drop (k + 4) s)"
    using payload_take(2) [of k "k + n" ?s "n = 0xFFFFFF"] assms(1) by simp
  ultimately have "payload (n = 0xFFFFFF) (k + n) ?s = take k s @ payload (n = 0xFFFFFF) n (drop (k + 4) s)"
    by (metis append_take_drop_id)
  then show "payload (n = 0xFFFFFF) (k + n) ?s = payload True k s"
    using assms(1) by (simp add: payload.simps [of True k s] Let_def n_def)
  show "after_payload (n = 0xFFFFFF) (k + n) ?s = after_payload True k s"
    using payload_take(3) [of k "k + n" ?s "n = 0xFFFFFF"] assms(1)
    by (simp add: after_payload.simps [of True k s] Let_def n_def)
qed

lemma length_payload_le: "length (payload full k s) \<le> length s"
proof (induction full k s rule: payload.induct)
  case (1 full k s)
  then show ?case
    by (subst payload.simps) (auto simp: Let_def min_def)
qed

text \<open>Where the packet is not full, or the rest of it is long enough, the next \<open>n\<close> bytes are in it.\<close>

lemma payload_enough:
  assumes "n \<le> length (payload full k s)" "\<not> full \<or> n \<le> k"
  shows "n \<le> k" "n \<le> length s"
  using assms length_payload_le [of full k s] by (auto simp: payload.simps [of False k s])

text \<open>The stream holds the packet, and the packets that continue it, to the end.\<close>

function complete :: "bool \<Rightarrow> nat \<Rightarrow> byte list \<Rightarrow> bool" where
  "complete full k s =
     (if full then
        if k + 4 \<le> length s then
          (let n = le_nat (take 3 (drop k s)) in complete (n = 0xFFFFFF) n (drop (k + 4) s))
        else False
      else k \<le> length s)"
  by auto
termination
  by (relation "measure (\<lambda>(full, k, s). length s)") auto

declare complete.simps [simp del]

lemma complete_True:
  "complete True k s \<longleftrightarrow>
     k + 4 \<le> length s \<and>
     complete (le_nat (take 3 (drop k s)) = 0xFFFFFF) (le_nat (take 3 (drop k s))) (drop (k + 4) s)"
  by (subst complete.simps) (simp add: Let_def)

lemma complete_False: "complete False k s \<longleftrightarrow> k \<le> length s"
  by (subst complete.simps) simp

lemma complete_drop: "complete full k s \<Longrightarrow> n \<le> k \<Longrightarrow> complete full (k - n) (drop n s)"
  by (cases full) (auto simp: complete_True complete_False)

lemma complete_join:
  assumes "complete True k s"
  defines "n \<equiv> le_nat (take 3 (drop k s))"
  shows "complete (n = 0xFFFFFF) (k + n) (take k s @ drop (k + 4) s)"
proof -
  let ?t = "drop (k + 4) s"
  have k: "k + 4 \<le> length s" and c: "complete (n = 0xFFFFFF) n ?t"
    using assms by (auto simp: complete_True)
  then have "complete (n = 0xFFFFFF) (k + n) (take k s @ ?t) \<longleftrightarrow> complete (n = 0xFFFFFF) n ?t"
    by (cases "n = 0xFFFFFF") (auto simp: complete_True complete_False)
  with c show ?thesis by simp
qed

section \<open>Well-formed readers\<close>

definition stream :: "('c \<Rightarrow> byte list) \<Rightarrow> ('c, 'z) reader_scheme \<Rightarrow> byte list" where
  "stream rest r = avail r @ rest (r_src r)"

definition is_full :: "('c, 'z) reader_scheme \<Rightarrow> bool" where
  "is_full r \<longleftrightarrow> r_payloadLength r = 0xFFFFFF"

definition logical :: "('c \<Rightarrow> byte list) \<Rightarrow> ('c, 'z) reader_scheme \<Rightarrow> byte list" where
  "logical rest r = payload (is_full r) (nat (lenInCurPacket r)) (stream rest r)"

definition behind :: "('c \<Rightarrow> byte list) \<Rightarrow> ('c, 'z) reader_scheme \<Rightarrow> byte list" where
  "behind rest r = after_payload (is_full r) (nat (lenInCurPacket r)) (stream rest r)"

definition buffer_wf :: "('c \<Rightarrow> bool) \<Rightarrow> ('c, 'z) reader_scheme \<Rightarrow> bool" where
  "buffer_wf ok r \<longleftrightarrow>
     ok (r_src r) \<and> r_bufferStart r \<le> r_bufferEnd r \<and> r_bufferEnd r \<le> length (r_buffer r) \<and>
     BUFFER_LEN \<le> length (r_buffer r)"

definition reader_wf :: "('c \<Rightarrow> bool) \<Rightarrow> ('c, 'z) reader_scheme \<Rightarrow> bool" where
  "reader_wf ok r \<longleftrightarrow>
     buffer_wf ok r \<and> r_packetOffset r \<le> r_payloadLength r \<and> r_payloadLength r \<le> 0xFFFFFF \<and>
     0 \<le> r_payloadLength r"

definition reader_inv :: "('c \<Rightarrow> byte list) \<Rightarrow> ('c \<Rightarrow> bool) \<Rightarrow> ('c, 'z) reader_scheme \<Rightarrow> bool" where
  "reader_inv rest ok r \<longleftrightarrow>
     reader_wf ok r \<and> complete (is_full r) (nat (lenInCurPacket r)) (stream rest r)"

text \<open>
  The promise of an operation: it returns \<open>v\<close>, and takes \<open>n\<close> bytes from the front of the payload.
\<close>

definition takes :: "('c \<Rightarrow> byte list) \<Rightarrow> ('c \<Rightarrow> bool) \<Rightarrow> ('c, 'z, 'a) rdm \<Rightarrow>
    ('c, 'z) reader_scheme \<Rightarrow> nat \<Rightarrow> 'a \<Rightarrow> bool" where
  "takes rest ok m r n v \<longleftrightarrow>
     (\<exists>r'. m r = (Inr v, r') \<and> reader_inv rest ok r' \<and> logical rest r' = drop n (logical rest r) \<and>
        behind rest r' = behind rest r \<and> r_decoder r' = r_decoder r \<and> reader.more r' = reader.more r \<and>
        length (r_buffer r') = length (r_buffer r))"

lemma takesI:
  assumes "m r = (Inr v, r')" "reader_inv rest ok r'" "logical rest r' = drop n (logical rest r)"
    "behind rest r' = behind rest r" "r_decoder r' = r_decoder r" "reader.more r' = reader.more r"
    "length (r_buffer r') = length (r_buffer r)"
  shows "takes rest ok m r n v"
  using assms by (auto simp: takes_def)

lemma takesE:
  assumes "takes rest ok m r n v"
  obtains r' where "m r = (Inr v, r')" "reader_inv rest ok r'" "logical rest r' = drop n (logical rest r)"
    "behind rest r' = behind rest r" "r_decoder r' = r_decoder r" "reader.more r' = reader.more r"
    "length (r_buffer r') = length (r_buffer r)"
  using assms by (auto simp: takes_def)

text \<open>Operations in sequence.\<close>

lemma takes_bind:
  assumes "takes rest ok m r n a"
    and "\<And>r'. reader_inv rest ok r' \<Longrightarrow> logical rest r' = drop n (logical rest r) \<Longrightarrow>
      r_decoder r' = r_decoder r \<Longrightarrow> length (r_buffer r') = length (r_buffer r) \<Longrightarrow> takes rest ok (f a) r' k v"
  shows "takes rest ok (bindM m f) r (n + k) v"
proof -
  obtain r1 where r1: "m r = (Inr a, r1)" "reader_inv rest ok r1" "logical rest r1 = drop n (logical rest r)"
    "behind rest r1 = behind rest r" "r_decoder r1 = r_decoder r" "reader.more r1 = reader.more r"
    "length (r_buffer r1) = length (r_buffer r)"
    using assms(1) by (rule takesE)
  with assms(2) [of r1] show ?thesis
    by (auto simp: takes_def add.commute)
qed

lemma takes_bind_pure:
  assumes "takes rest ok m r n a" "\<And>r'. r_decoder r' = r_decoder r \<Longrightarrow> f a r' = (Inr v, r')"
  shows "takes rest ok (bindM m f) r n v"
  using assms by (auto simp: takes_def)

lemma takes_ret: "reader_inv rest ok r \<Longrightarrow> takes rest ok (ret a) r 0 a"
  by (auto simp: takes_def)

lemma takes_or_await:
  assumes "\<And>v r'. sync r = (Inr (Some v), r') \<Longrightarrow> takes rest ok sync r n (Some a)"
    and "sync r \<noteq> (Inr None, r) \<Longrightarrow> takes rest ok sync r n (Some a)"
    and "sync r = (Inr None, r) \<Longrightarrow> takes rest ok async r n a"
  shows "takes rest ok (or_await sync async) r n a"
proof (cases "sync r = (Inr None, r)")
  case True
  then show ?thesis
    using assms(3) by (simp add: or_await_def takes_def)
next
  case False
  from assms(2) [OF this] show ?thesis
    by (auto simp: or_await_def takes_def)
qed

text \<open>The same for an operation with a loop: it returns, and what it returns is \<open>v\<close>.\<close>

definition takesL :: "('c \<Rightarrow> byte list) \<Rightarrow> ('c \<Rightarrow> bool) \<Rightarrow>
    (('c, 'z) reader_scheme, exn, 'a) loopm \<Rightarrow> ('c, 'z) reader_scheme \<Rightarrow> nat \<Rightarrow> 'a \<Rightarrow> bool" where
  "takesL rest ok m r n v \<longleftrightarrow>
     (\<exists>r'. m r = Some (Inr v, r') \<and> reader_inv rest ok r' \<and> logical rest r' = drop n (logical rest r) \<and>
        behind rest r' = behind rest r \<and> r_decoder r' = r_decoder r \<and> reader.more r' = reader.more r \<and>
        length (r_buffer r') = length (r_buffer r))"

lemma takesL_step:
  assumes "takes rest ok m r n a" "\<And>r1. m r = (Inr a, r1) \<Longrightarrow> loop r = loop' r1"
    and "\<And>r1. reader_inv rest ok r1 \<Longrightarrow> logical rest r1 = drop n (logical rest r) \<Longrightarrow> takesL rest ok loop' r1 k v"
  shows "takesL rest ok loop r (n + k) v"
proof -
  obtain r1 where r1: "m r = (Inr a, r1)" "reader_inv rest ok r1" "logical rest r1 = drop n (logical rest r)"
    "behind rest r1 = behind rest r" "r_decoder r1 = r_decoder r" "reader.more r1 = reader.more r"
    "length (r_buffer r1) = length (r_buffer r)"
    using assms(1) by (rule takesE)
  have loop: "loop r = loop' r1"
    by (rule assms(2)) (rule r1)
  obtain r' where r': "loop' r1 = Some (Inr v, r')" "reader_inv rest ok r'" "logical rest r' = drop k (logical rest r1)"
    "behind rest r' = behind rest r1" "r_decoder r' = r_decoder r1" "reader.more r' = reader.more r1"
    "length (r_buffer r') = length (r_buffer r1)"
    using assms(3) [OF r1(2,3)] unfolding takesL_def by blast
  show ?thesis
    unfolding takesL_def loop using r' r1 by (intro exI [of _ r']) (simp add: add.commute)
qed

text \<open>Nothing but the buffer and the source differ.\<close>

definition same_packet :: "('c, 'z) reader_scheme \<Rightarrow> ('c, 'z) reader_scheme \<Rightarrow> bool" where
  "same_packet r r' \<longleftrightarrow>
     r_sequenceId r' = r_sequenceId r \<and> r_payloadLength r' = r_payloadLength r \<and>
     r_packetOffset r' = r_packetOffset r \<and> r_totalBytesInPacket r' = r_totalBytesInPacket r \<and>
     r_decoder r' = r_decoder r \<and> reader.more r' = reader.more r \<and>
     length (r_buffer r') = length (r_buffer r)"

lemma same_packet_refl [simp]: "same_packet r r"
  by (simp add: same_packet_def)

lemma same_packet_trans [trans]: "same_packet r r' \<Longrightarrow> same_packet r' r'' \<Longrightarrow> same_packet r r''"
  by (simp add: same_packet_def)

lemma same_packetD:
  assumes "same_packet r r'"
  shows "r_sequenceId r' = r_sequenceId r" "r_payloadLength r' = r_payloadLength r"
    "r_packetOffset r' = r_packetOffset r" "length (r_buffer r') = length (r_buffer r)"
    "lenInCurPacket r' = lenInCurPacket r" "is_full r' = is_full r" "r_decoder r' = r_decoder r"
  using assms by (auto simp: same_packet_def lenInCurPacket_def is_full_def)

lemma length_avail: "r_bufferEnd r \<le> length (r_buffer r) \<Longrightarrow> length (avail r) = haveBytes r"
  by (auto simp: avail_def haveBytes_def arr_simps)

lemma avail_consumed:
  assumes "n \<le> haveBytes r" "r_bufferEnd r \<le> length (r_buffer r)"
  shows "subarray (r_buffer r) (r_bufferStart r) (r_bufferStart r + n) = take n (avail r)"
    and "avail (r\<lparr>r_bufferStart := r_bufferStart r + n\<rparr>) = drop n (avail r)"
  using assms by (simp_all add: avail_def haveBytes_def take_subarray drop_subarray)

lemma move_to_start_facts:
  assumes "r_bufferStart r \<le> r_bufferEnd r" "r_bufferEnd r \<le> length (r_buffer r)"
  shows "avail (move_to_start r) = avail r" "same_packet r (move_to_start r)"
    "r_bufferStart (move_to_start r) = 0" "r_bufferEnd (move_to_start r) = haveBytes r"
    "haveBytes (move_to_start r) = haveBytes r" "r_src (move_to_start r) = r_src r"
    "length (r_buffer (move_to_start r)) = length (r_buffer r)"
  using assms copy_within_to_start [OF assms]
  by (auto simp: move_to_start_def avail_def haveBytes_def same_packet_def length_copy_within)

section \<open>Filling the buffer\<close>

context byte_source
begin

lemma fill_buffer_more:
  assumes wf: "buffer_wf ok r" and room: "r_bufferEnd r < length (r_buffer r)"
    and more: "rest (r_src r) \<noteq> []"
  shows "\<exists>k r'. fill_buffer rd r = (Inr (Some k), r') \<and> 0 < k \<and> buffer_wf ok r' \<and>
           same_packet r r' \<and> stream rest r' = stream rest r \<and> r_bufferStart r' = r_bufferStart r \<and>
           r_bufferEnd r' = r_bufferEnd r + k \<and> avail r' = avail r @ take k (rest (r_src r))"
proof -
  let ?n = "length (r_buffer r) - r_bufferEnd r"
  obtain v c where v: "rd ?n (r_src r) = (Inr (Some v), c)" "v \<noteq> []" "length v \<le> ?n"
    "rest (r_src r) = v @ rest c" "ok c"
    using rd_more [of "r_src r" ?n] assms by (auto simp: buffer_wf_def)
  define r' where "r' = r\<lparr>r_src := c, r_buffer := arr_set (r_buffer r) (r_bufferEnd r) v,
      r_bufferEnd := r_bufferEnd r + length v\<rparr>"
  have len: "length (arr_set (r_buffer r) (r_bufferEnd r) v) = length (r_buffer r)"
    using v(3) room by (simp add: length_arr_set)
  have "fill_buffer rd r = (Inr (Some (length v)), r')"
    using v by (simp add: fill_buffer_def Let_def r'_def)
  moreover have "buffer_wf ok r'"
    using wf v len room by (simp add: buffer_wf_def r'_def)
  moreover have "same_packet r r'"
    using len by (auto simp: same_packet_def r'_def)
  moreover have av: "avail r' = avail r @ v"
    using wf subarray_arr_set_extend [of "r_bufferStart r" "r_bufferEnd r" "r_buffer r" v]
    by (simp add: avail_def r'_def buffer_wf_def)
  moreover have "stream rest r' = stream rest r"
    using av v by (simp add: stream_def r'_def)
  ultimately show ?thesis
    using v by (intro exI [of _ "length v"] exI [of _ r']) (simp add: r'_def)
qed

lemma fill_buffer_eof:
  assumes "buffer_wf ok r" "r_bufferEnd r < length (r_buffer r)" "rest (r_src r) = []"
  shows "\<exists>c. fill_buffer rd r = (Inr None, r\<lparr>r_src := c\<rparr>)"
  using rd_eof [of "r_src r" "length (r_buffer r) - r_bufferEnd r"] assms
  by (auto simp: fill_buffer_def buffer_wf_def)

lemma recv_loop_more:
  "buffer_wf ok r \<Longrightarrow> to \<le> length (r_buffer r) \<Longrightarrow> r_bufferStart r \<le> to \<Longrightarrow>
   to - r_bufferStart r \<le> length (stream rest r) \<Longrightarrow>
   \<exists>r'. recv_loop rd to canEof r = (Inr True, r') \<and> buffer_wf ok r' \<and> same_packet r r' \<and>
     stream rest r' = stream rest r \<and> to - r_bufferStart r \<le> haveBytes r'"
proof (induction "to - r_bufferEnd r" arbitrary: r rule: less_induct)
  case (less r)
  note prems = less.prems
  show ?case
  proof (cases "r_bufferEnd r < to")
    case False
    then show ?thesis
      using prems by (subst recv_loop.simps) (auto simp: haveBytes_def)
  next
    case True
    have "length (avail r) < to - r_bufferStart r"
      using True prems by (auto simp: length_avail buffer_wf_def haveBytes_def)
    then have "rest (r_src r) \<noteq> []"
      using prems(4) by (auto simp: stream_def)
    then obtain k r1 where r1: "fill_buffer rd r = (Inr (Some k), r1)" "buffer_wf ok r1" "0 < k"
      "same_packet r r1" "stream rest r1 = stream rest r" "r_bufferStart r1 = r_bufferStart r"
      "r_bufferEnd r1 = r_bufferEnd r + k"
      using fill_buffer_more [OF prems(1)] True prems(2) by auto
    have "\<exists>r'. recv_loop rd to canEof r1 = (Inr True, r') \<and> buffer_wf ok r' \<and> same_packet r1 r' \<and>
        stream rest r' = stream rest r1 \<and> to - r_bufferStart r1 \<le> haveBytes r'"
      using r1 prems True by (intro less.hyps) (simp_all add: same_packetD)
    moreover have "recv_loop rd to canEof r = recv_loop rd to canEof r1"
      using True r1(1) by (subst recv_loop.simps) simp
    ultimately show ?thesis
      using r1 same_packet_trans by auto
  qed
qed

lemma recv_loop_eof:
  "buffer_wf ok r \<Longrightarrow> to \<le> length (r_buffer r) \<Longrightarrow>
   length (stream rest r) < to - r_bufferStart r \<Longrightarrow>
   \<exists>r'. recv_loop rd to False r = (Inl lost_connection, r') \<and> same_packet r r'"
proof (induction "to - r_bufferEnd r" arbitrary: r rule: less_induct)
  case (less r)
  note prems = less.prems
  have True: "r_bufferEnd r < to"
    using prems by (auto simp: stream_def length_avail buffer_wf_def haveBytes_def)
  show ?case
  proof (cases "rest (r_src r) = []")
    case eof: True
    then obtain c where "fill_buffer rd r = (Inr None, r\<lparr>r_src := c\<rparr>)"
      using fill_buffer_eof [OF prems(1)] True prems(2) by auto
    then show ?thesis
      using True by (subst recv_loop.simps) (simp add: same_packet_def)
  next
    case False
    then obtain k r1 where r1: "fill_buffer rd r = (Inr (Some k), r1)" "buffer_wf ok r1" "0 < k"
      "same_packet r r1" "stream rest r1 = stream rest r" "r_bufferStart r1 = r_bufferStart r"
      "r_bufferEnd r1 = r_bufferEnd r + k"
      using fill_buffer_more [OF prems(1)] True prems(2) by auto
    have "\<exists>r'. recv_loop rd to False r1 = (Inl lost_connection, r') \<and> same_packet r1 r'"
      using r1 prems True by (intro less.hyps) (simp_all add: same_packetD)
    moreover have "recv_loop rd to False r = recv_loop rd to False r1"
      using True r1(1) by (subst recv_loop.simps) simp
    ultimately show ?thesis
      using r1(4) by (auto simp: same_packet_def)
  qed
qed

text \<open>The two cases of \<open>#recvAtLeast()\<close>: enough bytes are still to come, or the stream ends too early.\<close>

lemma recvAtLeast_prepared:
  assumes "buffer_wf ok r" "n \<le> length (r_buffer r)"
  shows "\<exists>r1. recvAtLeast rd n canEof r = recv_loop rd (r_bufferStart r1 + n) canEof r1 \<and>
    buffer_wf ok r1 \<and> same_packet r r1 \<and> stream rest r1 = stream rest r \<and>
    r_bufferStart r1 + n \<le> length (r_buffer r1)"
proof -
  have b: "r_bufferStart r \<le> r_bufferEnd r" "r_bufferEnd r \<le> length (r_buffer r)"
    using assms(1) by (auto simp: buffer_wf_def)
  consider (empty) "r_bufferStart r = r_bufferEnd r"
    | (move) "r_bufferStart r \<noteq> r_bufferEnd r" "length (r_buffer r) < r_bufferStart r + n"
    | (room) "r_bufferStart r \<noteq> r_bufferEnd r" "r_bufferStart r + n \<le> length (r_buffer r)"
    by linarith
  then show ?thesis
  proof cases
    case empty
    then show ?thesis
      using assms by (intro exI [of _ "r\<lparr>r_bufferStart := 0, r_bufferEnd := 0\<rparr>"])
        (auto simp: recvAtLeast_def buffer_wf_def same_packet_def stream_def avail_def)
  next
    case move
    then show ?thesis
      using assms b move_to_start_facts [OF b]
      by (intro exI [of _ "move_to_start r"])
        (auto simp: recvAtLeast_def buffer_wf_def stream_def haveBytes_def)
  next
    case room
    then show ?thesis
      using assms by (intro exI [of _ r]) (simp add: recvAtLeast_def)
  qed
qed

lemma recvAtLeast_more:
  assumes "buffer_wf ok r" "n \<le> length (r_buffer r)" "n \<le> length (stream rest r)"
  shows "\<exists>r'. recvAtLeast rd n canEof r = (Inr True, r') \<and> buffer_wf ok r' \<and> same_packet r r' \<and>
           stream rest r' = stream rest r \<and> n \<le> haveBytes r'"
proof -
  obtain r1 where r1: "recvAtLeast rd n canEof r = recv_loop rd (r_bufferStart r1 + n) canEof r1"
    "buffer_wf ok r1" "same_packet r r1" "stream rest r1 = stream rest r"
    "r_bufferStart r1 + n \<le> length (r_buffer r1)"
    using recvAtLeast_prepared assms by blast
  then show ?thesis
    using recv_loop_more [of r1 "r_bufferStart r1 + n" canEof] assms(3) same_packet_trans by auto
qed

lemma recvAtLeast_eof:
  assumes "buffer_wf ok r" "n \<le> length (r_buffer r)" "length (stream rest r) < n"
  shows "\<exists>r'. recvAtLeast rd n False r = (Inl lost_connection, r') \<and> same_packet r r'"
proof -
  obtain r1 where r1: "recvAtLeast rd n False r = recv_loop rd (r_bufferStart r1 + n) False r1"
    "buffer_wf ok r1" "same_packet r r1" "stream rest r1 = stream rest r" "r_bufferStart r1 + n \<le> length (r_buffer r1)"
    using recvAtLeast_prepared [of r n False] assms by blast
  then show ?thesis
    using recv_loop_eof [of r1 "r_bufferStart r1 + n"] assms(3) by (auto simp: same_packet_def)
qed

lemma near_loop_more:
  "buffer_wf ok r \<Longrightarrow> n \<le> BUFFER_LEN \<Longrightarrow> n \<le> length (stream rest r) \<Longrightarrow>
   \<exists>r'. near_loop rd n r = (Inr (), r') \<and> buffer_wf ok r' \<and> same_packet r r' \<and>
     stream rest r' = stream rest r \<and> n \<le> haveBytes r'"
proof (induction "n - haveBytes r" arbitrary: r rule: less_induct)
  case (less r)
  note prems = less.prems
  show ?case
  proof (cases "haveBytes r < n")
    case False
    then show ?thesis
      using prems by (subst near_loop.simps) auto
  next
    case True
    have b: "r_bufferStart r \<le> r_bufferEnd r" "r_bufferEnd r \<le> length (r_buffer r)"
      using prems by (auto simp: buffer_wf_def)
    note m = move_to_start_facts [OF b]
    have wf: "buffer_wf ok (move_to_start r)" and st: "stream rest (move_to_start r) = stream rest r"
      using prems m b by (auto simp: buffer_wf_def stream_def haveBytes_def)
    have "rest (r_src (move_to_start r)) \<noteq> []"
      using prems True length_avail [OF b(2)] m by (auto simp: stream_def)
    moreover have "r_bufferEnd (move_to_start r) < length (r_buffer (move_to_start r))"
      using prems True m by (simp add: buffer_wf_def)
    ultimately obtain k r1 where r1: "fill_buffer rd (move_to_start r) = (Inr (Some k), r1)"
      "buffer_wf ok r1" "0 < k" "same_packet (move_to_start r) r1"
      "stream rest r1 = stream rest r" "r_bufferStart r1 = 0" "r_bufferEnd r1 = haveBytes r + k"
      using fill_buffer_more [OF wf] st m by auto
    have "\<exists>r'. near_loop rd n r1 = (Inr (), r') \<and> buffer_wf ok r' \<and> same_packet r1 r' \<and>
        stream rest r' = stream rest r1 \<and> n \<le> haveBytes r'"
      using r1 prems True by (intro less.hyps) (simp_all add: haveBytes_def [of r1])
    moreover have "near_loop rd n r = near_loop rd n r1"
      using True r1(1) by (subst near_loop.simps) simp
    moreover have "same_packet r r1"
      using same_packet_trans [OF m(2) r1(4)] .
    ultimately show ?thesis
      using r1 same_packet_trans by auto
  qed
qed

lemma same_packet_inv:
  assumes "same_packet r r'" "buffer_wf ok r'" "stream rest r' = stream rest r" "reader_inv rest ok r"
  shows "reader_inv rest ok r'" "logical rest r' = logical rest r" "behind rest r' = behind rest r"
    "r_decoder r' = r_decoder r" "reader.more r' = reader.more r"
    "length (r_buffer r') = length (r_buffer r)" "lenInCurPacket r' = lenInCurPacket r"
  using assms
  by (simp_all add: reader_inv_def reader_wf_def logical_def behind_def same_packetD)
    (simp_all add: same_packet_def)

lemma consume_takes:
  assumes inv: "reader_inv rest ok r" and n: "n \<le> haveBytes r" "int n \<le> lenInCurPacket r"
  shows "takes rest ok (consume n) r n (take n (logical rest r))"
proof -
  define r' where "r' = r\<lparr>r_bufferStart := r_bufferStart r + n, r_packetOffset := r_packetOffset r + int n\<rparr>"
  have b: "r_bufferEnd r \<le> length (r_buffer r)" and wf: "buffer_wf ok r"
    using inv by (auto simp: reader_inv_def reader_wf_def buffer_wf_def)
  have av: "n \<le> length (avail r)"
    using n length_avail [OF b] by simp
  have st: "stream rest r' = drop n (stream rest r)"
    using av avail_consumed(2) [OF n(1) b]
    by (simp add: stream_def r'_def avail_def)
  have k: "nat (lenInCurPacket r') = nat (lenInCurPacket r) - n" and f: "is_full r' = is_full r"
    by (auto simp: r'_def lenInCurPacket_def is_full_def)
  have nk: "n \<le> nat (lenInCurPacket r)" "n \<le> length (stream rest r)"
    using n av by (auto simp: stream_def)
  note p = payload_take [OF nk, of "is_full r"]
  have "consume n r = (Inr (take n (logical rest r)), r')"
    using p(1) av avail_consumed(1) [OF n(1) b]
    by (simp add: consume_def r'_def logical_def stream_def)
  moreover have "reader_inv rest ok r'"
    using inv n complete_drop [of "is_full r" _ _ n] nk wf
    by (simp add: reader_inv_def st k f) (auto simp: reader_wf_def buffer_wf_def r'_def haveBytes_def lenInCurPacket_def)
  moreover have "logical rest r' = drop n (logical rest r)" "behind rest r' = behind rest r"
    using p by (simp_all add: logical_def behind_def st k f)
  ultimately show ?thesis
    by (intro takesI [of _ _ _ r']) (simp_all add: r'_def)
qed

text \<open>A result that was taken from the buffer is the one of the specification.\<close>

lemma enough_in_packet:
  assumes "reader_inv rest ok r" "n \<le> length (logical rest r)" "\<not> is_full r \<or> int n \<le> lenInCurPacket r"
  shows "int n \<le> lenInCurPacket r" "n \<le> length (stream rest r)"
proof -
  have "0 \<le> lenInCurPacket r"
    using assms(1) by (simp add: reader_inv_def reader_wf_def lenInCurPacket_def)
  moreover from this have "\<not> is_full r \<or> n \<le> nat (lenInCurPacket r)"
    using assms(3) by linarith
  note payload_enough [OF assms(2) [unfolded logical_def] this]
  ultimately show "int n \<le> lenInCurPacket r" "n \<le> length (stream rest r)"
    by simp_all
qed

lemma correctNear_joins:
  assumes inv: "reader_inv rest ok r" and near: "lenInCurPacket r \<le> 9" and full: "is_full r"
  shows "takes rest ok (correctNearPacketBoundary rd) r 0 ()"
    and "\<And>r' v. correctNearPacketBoundary rd r = (v, r') \<Longrightarrow>
      \<not> is_full r' \<or> lenInCurPacket r' = lenInCurPacket r + 0xFFFFFF"
proof -
  define k where "k = nat (lenInCurPacket r)"
  define s where "s = stream rest r"
  have k: "int k = lenInCurPacket r" "k \<le> 9"
    using inv near by (auto simp: k_def reader_inv_def reader_wf_def lenInCurPacket_def)
  have comp: "complete True k s" and wf: "buffer_wf ok r"
    using inv full by (auto simp: reader_inv_def reader_wf_def k_def s_def)
  then have ks: "k + 4 \<le> length s"
    by (simp add: complete_True)
  obtain r1 where r1: "near_loop rd (k + 4) r = (Inr (), r1)" "buffer_wf ok r1" "same_packet r r1"
    "stream rest r1 = s" "k + 4 \<le> haveBytes r1"
    using near_loop_more [OF wf, of "k + 4"] k ks by (auto simp: BUFFER_LEN_def s_def)
  let ?b = "r_buffer r1" and ?st = "r_bufferStart r1" and ?e = "r_bufferEnd r1"
  define n where "n = le_nat (take 3 (drop k s))"
  have b1: "?st \<le> ?e" "?e \<le> length ?b" "?st + k + 4 \<le> ?e"
    using r1 by (auto simp: buffer_wf_def haveBytes_def)
  have av: "length (avail r1) = ?e - ?st" "k + 4 \<le> length (avail r1)"
    using length_avail [OF b1(2)] r1(5) by (simp_all add: haveBytes_def)
  have s1: "s = avail r1 @ rest (r_src r1)"
    using r1(4) by (simp add: stream_def)
  have hd: "subarray ?b (?st + k) (?st + k + 4) = take 4 (drop k (avail r1))"
    using b1 by (simp add: avail_def subarray_def drop_take min_def add.commute)
  then have n: "le_nat (take 3 (subarray ?b (?st + k) (?st + k + 4))) = n"
    using av by (simp add: n_def s1)
  define buf where "buf = copy_within ?b (?st + 4) ?st (?st + k)"
  have buf: "length buf = length ?b"
    using b1 by (simp add: buf_def length_copy_within)
  have "subarray buf (?st + 4) ?e = subarray ?b ?st (?st + k) @ subarray ?b (?st + k + 4) ?e"
    using copy_within_cut [OF b1(3,2)] by (simp add: buf_def)
  moreover have "subarray ?b ?st (?st + k) = take k (avail r1)"
    and "subarray ?b (?st + k + 4) ?e = drop (k + 4) (avail r1)"
    using av by (simp_all add: avail_def take_subarray drop_subarray add.assoc)
  ultimately have "subarray buf (?st + 4) ?e = take k (avail r1) @ drop (k + 4) (avail r1)"
    by simp
  note bufav = this
  define r' where "r' = (take_header (subarray ?b (?st + k) (?st + k + 4)) (- int k) r1)
      \<lparr>r_buffer := buf, r_bufferStart := ?st + 4\<rparr>"
  have run: "correctNearPacketBoundary rd r = (Inr (), r')"
    using full r1(1) by (simp add: correctNearPacketBoundary_def is_full_def Let_def r'_def buf_def take_header_def flip: k_def)
  have n3: "n \<le> 0xFFFFFF"
    using le_nat_less [of "take 3 (drop k s)"] ks by (simp add: n_def)
  have st': "stream rest r' = take k s @ drop (k + 4) s"
    using bufav av by (simp add: stream_def avail_def r'_def take_header_def s1)
  have fl: "is_full r' \<longleftrightarrow> n = 0xFFFFFF" and ln: "lenInCurPacket r' = int (k + n)"
    using n by (auto simp: is_full_def lenInCurPacket_def r'_def take_header_def)
  then have nl: "nat (lenInCurPacket r') = k + n"
    by simp
  have "reader_wf ok r'"
    using b1 r1(2) buf n n3 by (simp add: reader_wf_def buffer_wf_def r'_def take_header_def)
  then have inv': "reader_inv rest ok r'"
    using complete_join [OF comp] by (simp add: reader_inv_def fl nl st' n_def)
  have "logical rest r' = logical rest r" "behind rest r' = behind rest r"
    using payload_join [OF ks] full by (simp_all add: logical_def behind_def fl nl st' n_def flip: k_def s_def)
  then show "takes rest ok (correctNearPacketBoundary rd) r 0 ()"
    using run inv' r1(3) buf
    by (intro takesI [of _ _ _ r']) (simp_all add: r'_def take_header_def same_packet_def)
  show "\<not> is_full r'' \<or> lenInCurPacket r'' = lenInCurPacket r + 0xFFFFFF"
    if "correctNearPacketBoundary rd r = (v, r'')" for r'' v
    using that run fl ln k by auto
qed

lemma correctIfNear_spec:
  assumes inv: "reader_inv rest ok r" and n: "n \<le> 9"
  shows "\<exists>r'. correctIfNear rd n r = (Inr (), r') \<and> reader_inv rest ok r' \<and>
    logical rest r' = logical rest r \<and> behind rest r' = behind rest r \<and> r_decoder r' = r_decoder r \<and>
    reader.more r' = reader.more r \<and> length (r_buffer r') = length (r_buffer r) \<and>
    (is_full r' \<longrightarrow> int n \<le> lenInCurPacket r')"
proof (cases "r_packetOffset r > 0xFFFFFF - int n \<and> is_full r")
  case True
  then have "lenInCurPacket r \<le> 9" "0 \<le> lenInCurPacket r"
    using n inv by (auto simp: lenInCurPacket_def is_full_def reader_inv_def reader_wf_def)
  note j = correctNear_joins [OF inv this(1)] True
  from j obtain r' where "correctNearPacketBoundary rd r = (Inr (), r')"
    "reader_inv rest ok r'" "logical rest r' = logical rest r" "behind rest r' = behind rest r"
    "r_decoder r' = r_decoder r" "reader.more r' = reader.more r" "length (r_buffer r') = length (r_buffer r)"
    by (auto elim!: takesE)
  moreover from this j have "is_full r' \<longrightarrow> int n \<le> lenInCurPacket r'"
    using n \<open>0 \<le> lenInCurPacket r\<close> by fastforce
  ultimately show ?thesis
    using True by (simp add: correctIfNear_def)
next
  case False
  then have "correctIfNear rd n r = (Inr (), r)"
    by (auto simp: correctIfNear_def correctNearPacketBoundary_def is_full_def)
  moreover have "is_full r \<longrightarrow> int n \<le> lenInCurPacket r"
    using False by (auto simp: is_full_def lenInCurPacket_def)
  ultimately show ?thesis
    using inv by auto
qed

lemma correctIfNear_takes:
  assumes "reader_inv rest ok r" "n \<le> 9"
    and "\<And>r'. reader_inv rest ok r' \<Longrightarrow> logical rest r' = logical rest r \<Longrightarrow> r_decoder r' = r_decoder r \<Longrightarrow>
      length (r_buffer r') = length (r_buffer r) \<Longrightarrow> is_full r' \<longrightarrow> int n \<le> lenInCurPacket r' \<Longrightarrow>
      takes rest ok (f ()) r' k v"
  shows "takes rest ok (bindM (correctIfNear rd n) f) r k v"
proof -
  obtain r' where r': "correctIfNear rd n r = (Inr (), r')" "reader_inv rest ok r'"
    "logical rest r' = logical rest r" "behind rest r' = behind rest r" "r_decoder r' = r_decoder r"
    "reader.more r' = reader.more r" "length (r_buffer r') = length (r_buffer r)"
    "is_full r' \<longrightarrow> int n \<le> lenInCurPacket r'"
    using correctIfNear_spec [OF assms(1,2)] by blast
  then show ?thesis
    using assms(3) [of r'] by (auto simp: takes_def)
qed

text \<open>\<open>#recvAtLeast()\<close> in front of an operation.\<close>

lemma recvAtLeast_takes:
  assumes inv: "reader_inv rest ok r" and n: "n \<le> length (r_buffer r)" "n \<le> length (stream rest r)"
    and step: "\<And>r'. reader_inv rest ok r' \<Longrightarrow> logical rest r' = logical rest r \<Longrightarrow> r_decoder r' = r_decoder r \<Longrightarrow>
      length (r_buffer r') = length (r_buffer r) \<Longrightarrow> lenInCurPacket r' = lenInCurPacket r \<Longrightarrow>
      is_full r' = is_full r \<Longrightarrow> stream rest r' = stream rest r \<Longrightarrow> n \<le> haveBytes r' \<Longrightarrow>
      takes rest ok (f True) r' k v"
  shows "takes rest ok (bindM (recvAtLeast rd n e) f) r k v"
proof -
  have "buffer_wf ok r"
    using inv by (simp add: reader_inv_def reader_wf_def)
  then obtain r' where r': "recvAtLeast rd n e r = (Inr True, r')" "buffer_wf ok r'" "same_packet r r'"
    "stream rest r' = stream rest r" "n \<le> haveBytes r'"
    using recvAtLeast_more [of r n e] n by blast
  note same_packet_inv [OF r'(3,2,4) inv]
  with r' step [of r'] same_packetD [OF r'(3)] show ?thesis
    by (auto simp: takes_def)
qed

lemma consume_then:
  assumes "reader_inv rest ok r" "n \<le> haveBytes r" "int n \<le> lenInCurPacket r"
  shows "takes rest ok (bindM (consume n) (\<lambda>bytes. ret (f bytes))) r n (f (take n (logical rest r)))"
  by (rule takes_bind_pure [OF consume_takes [OF assms]]) simp

text \<open>The numbers of fixed size.\<close>

lemma fixed_takes:
  assumes inv: "reader_inv rest ok r" and n: "n \<le> 9" "n \<le> length (logical rest r)"
  shows "takes rest ok (or_await (readFixed n get) (readFixedAsync rd n get)) r n (get (take n (logical rest r)))"
proof (cases "n \<le> haveBytes r \<and> r_packetOffset r \<le> 0xFFFFFF - int n")
  case True
  then have "\<not> is_full r \<or> int n \<le> lenInCurPacket r"
    by (auto simp: is_full_def lenInCurPacket_def)
  then have "takes rest ok (readFixed n get) r n (Some (get (take n (logical rest r))))"
    using True consume_then [OF inv, of n "\<lambda>b. Some (get b)"] enough_in_packet [OF inv n(2)]
    by (simp add: readFixed_def takes_def)
  then show ?thesis
    by (auto simp: or_await_def takes_def)
next
  case False
  then have "or_await (readFixed n get) (readFixedAsync rd n get) r = readFixedAsync rd n get r"
    by (auto simp: or_await_def readFixed_def)
  moreover have "takes rest ok (readFixedAsync rd n get) r n (get (take n (logical rest r)))"
    unfolding readFixedAsync_def
  proof (rule correctIfNear_takes [OF inv n(1)])
    fix r' assume r': "reader_inv rest ok r'" "logical rest r' = logical rest r"
      "is_full r' \<longrightarrow> int n \<le> lenInCurPacket r'"
    have e: "int n \<le> lenInCurPacket r'" "n \<le> length (stream rest r')"
      using enough_in_packet [OF r'(1), of n] r' n by auto
    show "takes rest ok (bindM (recvAtLeast rd n False) (\<lambda>_. bindM (consume n) (\<lambda>bytes. ret (get bytes)))) r' n
        (get (take n (logical rest r)))"
    proof (rule recvAtLeast_takes [OF r'(1) _ e(2)])
      show "n \<le> length (r_buffer r')"
        using n r'(1) by (auto simp: reader_inv_def reader_wf_def buffer_wf_def BUFFER_LEN_def)
    next
      fix r'' assume "reader_inv rest ok r''" "logical rest r'' = logical rest r'" "n \<le> haveBytes r''"
        "lenInCurPacket r'' = lenInCurPacket r'"
      then show "takes rest ok (bindM (consume n) (\<lambda>bytes. ret (get bytes))) r'' n (get (take n (logical rest r)))"
        using consume_then [of r'' n get] e r' by simp
    qed
  qed
  ultimately show ?thesis
    by (simp add: takes_def)
qed

text \<open>Length-encoded integers.\<close>

lemma first_available:
  assumes "reader_inv rest ok r" "0 < haveBytes r" "0 < lenInCurPacket r"
  shows "r_buffer r ! r_bufferStart r = hd (logical rest r)"
proof -
  have b: "r_bufferEnd r \<le> length (r_buffer r)" "r_bufferStart r < r_bufferEnd r"
    using assms by (auto simp: reader_inv_def reader_wf_def buffer_wf_def haveBytes_def)
  then have av: "avail r \<noteq> []" "hd (avail r) = r_buffer r ! r_bufferStart r"
    by (auto simp: avail_def subarray_def hd_drop_conv_nth hd_take)
  then have "take 1 (logical rest r) = take 1 (avail r)"
    using assms payload_take(1) [of 1 "nat (lenInCurPacket r)" "stream rest r" "is_full r"]
    by (simp add: logical_def stream_def Suc_le_eq)
  then have "hd (logical rest r) = hd (avail r)"
    by (metis hd_take zero_less_one)
  then show ?thesis
    using av by simp
qed

lemma lenenc_size_bounds: "1 \<le> lenenc_size b" "lenenc_size b \<le> 9"
  by (simp_all add: lenenc_size_def)

lemma lenenc_takes:
  fixes r
  defines "n \<equiv> lenenc_size (hd (logical rest r))"
  assumes inv: "reader_inv rest ok r" and n: "n \<le> length (logical rest r)" "0 < length (logical rest r)"
  shows "takes rest ok (or_await readLenencInt (readLenencIntAsync rd)) r n (lenenc_value (take n (logical rest r)))"
proof -
  have n9: "1 \<le> n" "n \<le> 9"
    using lenenc_size_bounds by (auto simp: n_def)
  have async: "takes rest ok (readLenencIntAsync rd) r n (lenenc_value (take n (logical rest r)))"
    unfolding readLenencIntAsync_def
  proof (rule correctIfNear_takes [OF inv])
    fix r1 assume r1: "reader_inv rest ok r1" "logical rest r1 = logical rest r"
      "is_full r1 \<longrightarrow> int 9 \<le> lenInCurPacket r1"
    have e: "int n \<le> lenInCurPacket r1" "n \<le> length (stream rest r1)"
      using enough_in_packet [OF r1(1), of n] r1 n n9 by auto
    have big: "9 \<le> length (r_buffer r')" if "reader_inv rest ok r'" for r'
      using that by (auto simp: reader_inv_def reader_wf_def buffer_wf_def BUFFER_LEN_def)
    let ?tail = "\<lambda>_ r. let n = lenenc_size (r_buffer r ! r_bufferStart r)
       in bindM (if 1 < n then recvAtLeast rd n False else ret True) (\<lambda>_.
            bindM (consume n) (\<lambda>bytes. ret (lenenc_value bytes))) r"
    have tail: "takes rest ok (?tail u) r2 n (lenenc_value (take n (logical rest r)))"
      if r2: "reader_inv rest ok r2" "logical rest r2 = logical rest r" "0 < haveBytes r2"
        "int n \<le> lenInCurPacket r2" "n \<le> length (stream rest r2)" for r2 u
    proof -
      have "0 < lenInCurPacket r2"
        using r2 n9 by linarith
      then have sz: "lenenc_size (r_buffer r2 ! r_bufferStart r2) = n"
        using first_available [OF r2(1,3)] r2(2) by (simp add: n_def)
      have "takes rest ok (bindM (if 1 < n then recvAtLeast rd n False else ret True) (\<lambda>_.
            bindM (consume n) (\<lambda>bytes. ret (lenenc_value bytes)))) r2 n (lenenc_value (take n (logical rest r)))"
      proof (cases "1 < n")
        case True
        show ?thesis
          unfolding if_P [OF True]
        proof (rule recvAtLeast_takes [OF r2(1) _ r2(5)])
          show "n \<le> length (r_buffer r2)"
            using big [OF r2(1)] n9 by simp
        next
          fix r3 assume "reader_inv rest ok r3" "logical rest r3 = logical rest r2" "n \<le> haveBytes r3"
            "lenInCurPacket r3 = lenInCurPacket r2"
          then show "takes rest ok (bindM (consume n) (\<lambda>bytes. ret (lenenc_value bytes))) r3 n
              (lenenc_value (take n (logical rest r)))"
            using consume_then [of r3 n lenenc_value] r2 by simp
        qed
      next
        case False
        then have "n = 1" using n9 by simp
        then show ?thesis
          using consume_then [OF r2(1), of 1 lenenc_value] r2 by (simp add: takes_def)
      qed
      then show ?thesis
        by (simp add: takes_def sz)
    qed
    show "takes rest ok (bindM (\<lambda>r. if r_bufferEnd r = r_bufferStart r then recvAtLeast rd 1 False r
        else (Inr True, r)) ?tail) r1 n (lenenc_value (take n (logical rest r)))"
    proof (cases "r_bufferEnd r1 = r_bufferStart r1")
      case True
      have "takes rest ok (bindM (recvAtLeast rd 1 False) ?tail) r1 n (lenenc_value (take n (logical rest r)))"
      proof (rule recvAtLeast_takes [OF r1(1)])
        show "1 \<le> length (r_buffer r1)" "1 \<le> length (stream rest r1)"
          using big [OF r1(1)] e n9 by simp_all
      next
        fix r2 assume "reader_inv rest ok r2" "logical rest r2 = logical rest r1" "1 \<le> haveBytes r2"
          "lenInCurPacket r2 = lenInCurPacket r1" "stream rest r2 = stream rest r1"
        then show "takes rest ok (?tail True) r2 n (lenenc_value (take n (logical rest r)))"
          using e r1 by (intro tail) simp_all
      qed
      then show ?thesis
        using True by (simp add: takes_def bindM_def)
    next
      case False
      have "r_bufferStart r1 \<le> r_bufferEnd r1"
        using r1(1) by (auto simp: reader_inv_def reader_wf_def buffer_wf_def)
      with False tail [OF r1(1,2) _ e] show ?thesis
        by (simp add: takes_def haveBytes_def)
    qed
  qed simp
  show ?thesis
  proof (cases "r_bufferEnd r > r_bufferStart r \<and> r_packetOffset r \<le> 0xFFFFFF - 9")
    case False
    then have "or_await readLenencInt (readLenencIntAsync rd) r = readLenencIntAsync rd r"
      by (auto simp: or_await_def readLenencInt_def)
    with async show ?thesis by (simp add: takes_def)
  next
    case True
    then have full: "\<not> is_full r \<or> int n \<le> lenInCurPacket r"
      using n9 by (auto simp: is_full_def lenInCurPacket_def)
    note e = enough_in_packet [OF inv n(1) full]
    have "0 < lenInCurPacket r" "0 < haveBytes r"
      using e n9 True by (auto simp: haveBytes_def)
    then have sz: "lenenc_size (r_buffer r ! r_bufferStart r) = n"
      using first_available [OF inv] by (simp add: n_def)
    show ?thesis
    proof (cases "haveBytes r < n")
      case less: True
      with True sz have "or_await readLenencInt (readLenencIntAsync rd) r = readLenencIntAsync rd r"
        by (auto simp: or_await_def readLenencInt_def)
      with async show ?thesis by (simp add: takes_def)
    next
      case False
      have "takes rest ok readLenencInt r n (Some (lenenc_value (take n (logical rest r))))"
        using consume_then [OF inv, of n "\<lambda>b. Some (lenenc_value b)"] e True False sz
        by (simp add: readLenencInt_def takes_def)
      then show ?thesis
        by (auto simp: or_await_def takes_def)
    qed
  qed
qed

text \<open>The header of the packet that continues a full one, behind the last \<open>k\<close> bytes of it.\<close>

lemma next_header:
  assumes inv: "reader_inv rest ok r" and full: "is_full r" and hv: "lenInCurPacket r + 4 \<le> int (haveBytes r)"
  defines "k \<equiv> nat (lenInCurPacket r)"
  shows "\<exists>r'. readPacketHeader (r\<lparr>r_bufferStart := nat (int (r_bufferStart r) + lenInCurPacket r)\<rparr>) = (Inr True, r') \<and>
      reader_inv rest ok r' \<and> logical rest r' = drop k (logical rest r) \<and> behind rest r' = behind rest r \<and>
      r_decoder r' = r_decoder r \<and> reader.more r' = reader.more r \<and>
      length (r_buffer r') = length (r_buffer r) \<and> haveBytes r' = haveBytes r - (k + 4) \<and>
      (is_full r' \<longrightarrow> lenInCurPacket r' = 0xFFFFFF)"
    and "subarray (r_buffer r) (r_bufferStart r) (nat (int (r_bufferStart r) + lenInCurPacket r)) =
         take k (logical rest r)"
proof -
  let ?b = "r_buffer r" and ?st = "r_bufferStart r" and ?e = "r_bufferEnd r"
  have "0 \<le> lenInCurPacket r" and wf: "buffer_wf ok r"
    using inv by (auto simp: reader_inv_def reader_wf_def lenInCurPacket_def)
  then have k: "lenInCurPacket r = int k" by (simp add: k_def)
  define s where "s = stream rest r"
  define n where "n = le_nat (take 3 (drop k s))"
  have comp: "complete True k s"
    using inv full by (simp add: reader_inv_def k_def s_def)
  have b: "?st \<le> ?e" "?e \<le> length ?b" "?st + k + 4 \<le> ?e"
    using wf hv k by (auto simp: buffer_wf_def haveBytes_def)
  have av: "length (avail r) = ?e - ?st" "s = avail r @ rest (r_src r)"
    using length_avail [OF b(2)] by (simp_all add: haveBytes_def s_def stream_def)
  have hd: "subarray ?b (?st + k) (?st + k + 4) = take 4 (drop k s)"
  proof -
    have "take 4 (drop k s) = take 4 (drop k (avail r))"
      using b av by simp
    also have "\<dots> = subarray ?b (?st + k) (?st + k + 4)"
      using b by (simp add: avail_def drop_subarray take_subarray)
    finally show ?thesis ..
  qed
  then have n: "le_nat (take 3 (subarray ?b (?st + k) (?st + k + 4))) = n"
    by (simp add: n_def)
  define r' where "r' = take_header (subarray ?b (?st + k) (?st + k + 4)) 0 (r\<lparr>r_bufferStart := ?st + k + 4\<rparr>)"
  have nat: "nat (int ?st + lenInCurPacket r) = ?st + k"
    by (simp add: k)
  have run: "readPacketHeader (r\<lparr>r_bufferStart := nat (int ?st + lenInCurPacket r)\<rparr>) = (Inr True, r')"
    using b unfolding nat by (simp add: readPacketHeader_def haveBytes_def r'_def)
  have n3: "n \<le> 0xFFFFFF"
  proof -
    have "length (take 3 (drop k s)) = 3"
      using comp by (auto simp: complete_True)
    then show ?thesis
      using le_nat_less [of "take 3 (drop k s)"] by (simp add: n_def)
  qed
  have st: "stream rest r' = drop (k + 4) s"
    using b av by (simp add: stream_def avail_def r'_def take_header_def drop_subarray add.assoc)
  have fl: "is_full r' \<longleftrightarrow> n = 0xFFFFFF" and ln: "lenInCurPacket r' = int n"
    using n by (auto simp: is_full_def lenInCurPacket_def r'_def take_header_def)
  have "reader_wf ok r'"
    using b wf n n3 by (simp add: reader_wf_def buffer_wf_def r'_def take_header_def)
  then have "reader_inv rest ok r'"
    using comp by (simp add: reader_inv_def fl ln st n_def complete_True)
  moreover have "k + 4 \<le> length s"
    using comp by (simp add: complete_True)
  then have "logical rest r' = drop k (logical rest r)" "behind rest r' = behind rest r"
    using full by (simp_all add: logical_def behind_def fl ln st Let_def n_def flip: k_def s_def
        add: payload.simps [of True k s] after_payload.simps [of True k s])
  ultimately show "\<exists>r'. readPacketHeader (r\<lparr>r_bufferStart := nat (int ?st + lenInCurPacket r)\<rparr>) = (Inr True, r') \<and>
      reader_inv rest ok r' \<and> logical rest r' = drop k (logical rest r) \<and> behind rest r' = behind rest r \<and>
      r_decoder r' = r_decoder r \<and> reader.more r' = reader.more r \<and>
      length (r_buffer r') = length ?b \<and> haveBytes r' = haveBytes r - (k + 4) \<and>
      (is_full r' \<longrightarrow> lenInCurPacket r' = 0xFFFFFF)"
    using run fl ln by (intro exI [of _ r']) (simp add: r'_def take_header_def haveBytes_def)
  have "take k (payload True k s) = take k (avail r)"
    using payload_take(1) [of k k s True] b av by simp
  then show "subarray ?b ?st (nat (int ?st + lenInCurPacket r)) = take k (logical rest r)"
    using full b unfolding nat by (simp add: logical_def avail_def take_subarray flip: k_def s_def)
qed

lemma finish_takes:
  assumes "reader_inv rest ok r" "n \<le> haveBytes r" "int n \<le> lenInCurPacket r" "0 \<le> at"
  shows "takes rest ok (finish_across first at n) r n (first @ take n (logical rest r))"
  using consume_then [OF assms(1-3), of "\<lambda>b. first @ b"] assms(4)
  by (simp add: finish_across_def takes_def)

lemma takes_cong: "m r = m' r \<Longrightarrow> takes rest ok m r n v = takes rest ok m' r n v"
  by (simp add: takes_def)

lemma header_then:
  assumes inv: "reader_inv rest ok r" and full: "is_full r" and hv: "lenInCurPacket r + 4 \<le> int (haveBytes r)"
    and step: "\<And>r'. reader_inv rest ok r' \<Longrightarrow> logical rest r' = drop (nat (lenInCurPacket r)) (logical rest r) \<Longrightarrow>
      length (r_buffer r') = length (r_buffer r) \<Longrightarrow>
      haveBytes r' = haveBytes r - (nat (lenInCurPacket r) + 4) \<Longrightarrow>
      (is_full r' \<longrightarrow> lenInCurPacket r' = 0xFFFFFF) \<Longrightarrow> takes rest ok f r' j v"
  shows "takes rest ok (\<lambda>r. bindM readPacketHeader (\<lambda>_. f)
      (r\<lparr>r_bufferStart := nat (int (r_bufferStart r) + lenInCurPacket r)\<rparr>)) r (nat (lenInCurPacket r) + j) v"
proof -
  from next_header(1) [OF inv full hv] obtain r' where r':
    "readPacketHeader (r\<lparr>r_bufferStart := nat (int (r_bufferStart r) + lenInCurPacket r)\<rparr>) = (Inr True, r')"
    "reader_inv rest ok r'" "logical rest r' = drop (nat (lenInCurPacket r)) (logical rest r)"
    "behind rest r' = behind rest r" "r_decoder r' = r_decoder r" "reader.more r' = reader.more r"
    "length (r_buffer r') = length (r_buffer r)" "haveBytes r' = haveBytes r - (nat (lenInCurPacket r) + 4)"
    "is_full r' \<longrightarrow> lenInCurPacket r' = 0xFFFFFF"
    by blast
  from step [OF r'(2,3,7-9)] r' show ?thesis
    by (auto simp: takes_def add.commute)
qed

lemma take_pieces: "k \<le> n \<Longrightarrow> take k l @ take (n - k) (drop k l) = take n l"
  by (metis le_add_diff_inverse take_add)

text \<open>Blobs, within a packet and across the boundary of two.\<close>

lemma short_bytes_inside:
  assumes inv: "reader_inv rest ok r" and len: "len + 4 \<le> length (r_buffer r)" "len \<le> length (logical rest r)"
    and inside: "int len \<le> lenInCurPacket r"
  shows "takes rest ok (or_await (readShortBytes len) (readShortBytesAsync rd len)) r len (take len (logical rest r))"
proof (cases "len \<le> haveBytes r")
  case True
  have "takes rest ok (readShortBytes len) r len (Some (take len (logical rest r)))"
    using consume_then [OF inv True inside, of Some] len inside True
    by (simp add: readShortBytes_def takes_def)
  then show ?thesis by (auto simp: or_await_def takes_def)
next
  case False
  have "takes rest ok (bindM (recvAtLeast rd len False) (\<lambda>_. consume len)) r len (take len (logical rest r))"
  proof (rule recvAtLeast_takes [OF inv])
    show "len \<le> length (r_buffer r)" "len \<le> length (stream rest r)"
      using len enough_in_packet [OF inv len(2)] inside by auto
    fix r' assume "reader_inv rest ok r'" "logical rest r' = logical rest r" "len \<le> haveBytes r'"
      "lenInCurPacket r' = lenInCurPacket r"
    then show "takes rest ok (consume len) r' len (take len (logical rest r))"
      using consume_takes [of r' len] inside by simp
  qed
  then show ?thesis
    using False inside len by (simp add: or_await_def readShortBytes_def readShortBytesAsync_def takes_def)
qed

lemma short_bytes_across:
  fixes r :: "('c, 'z) reader_scheme"
  assumes inv: "reader_inv rest ok r" and len: "len + 4 \<le> length (r_buffer r)" "len \<le> length (logical rest r)"
    and small: "len \<le> 0xFFFFFF" and across: "lenInCurPacket r < int len"
  shows "takes rest ok (or_await (readShortBytes len) (readShortBytesAsync rd len)) r len (take len (logical rest r))"
proof -
  define k where "k = nat (lenInCurPacket r)"
  have full: "is_full r"
    using enough_in_packet [OF inv len(2)] across by auto
  have "0 \<le> lenInCurPacket r"
    using inv by (auto simp: reader_inv_def reader_wf_def lenInCurPacket_def)
  then have k: "lenInCurPacket r = int k" "k < len"
    using across by (auto simp: k_def)
  have nd: "nat (int len - int k) = len - k" "nat (int k + 4) = k + 4"
    by simp_all
  have inside: "int (len - k) \<le> lenInCurPacket r2"
    if "reader_inv rest ok r2" "logical rest r2 = drop k (logical rest r)"
      "is_full r2 \<longrightarrow> lenInCurPacket r2 = 0xFFFFFF" for r2 :: "('c, 'z) reader_scheme"
    using enough_in_packet(1) [OF that(1), of "len - k"] that len small by auto
  show ?thesis
  proof (cases "len + 4 \<le> haveBytes r")
    case True
    have hv: "lenInCurPacket r + 4 \<le> int (haveBytes r)"
      using True k by simp
    note nh = next_header(2) [OF inv full hv]
    define f :: "('c, 'z, byte list option) rdm" where "f = bindM (finish_across (take k (logical rest r)) (int k) (len - k)) (\<lambda>bytes. ret (Some bytes))"
    have "takes rest ok (\<lambda>r. bindM readPacketHeader (\<lambda>_. f)
        (r\<lparr>r_bufferStart := nat (int (r_bufferStart r) + lenInCurPacket r)\<rparr>)) r
        (nat (lenInCurPacket r) + (len - k)) (Some (take len (logical rest r)))"
    proof (rule header_then [OF inv full hv])
      fix r2 :: "('c, 'z) reader_scheme" assume r2: "reader_inv rest ok r2" "logical rest r2 = drop (nat (lenInCurPacket r)) (logical rest r)"
        "haveBytes r2 = haveBytes r - (nat (lenInCurPacket r) + 4)" "is_full r2 \<longrightarrow> lenInCurPacket r2 = 0xFFFFFF"
      have "takes rest ok (finish_across (take k (logical rest r)) (int k) (len - k)) r2 (len - k)
          (take k (logical rest r) @ take (len - k) (logical rest r2))"
        using r2 True k inside [of r2] by (intro finish_takes) simp_all
      then have "takes rest ok (finish_across (take k (logical rest r)) (int k) (len - k)) r2 (len - k)
          (take len (logical rest r))"
        using r2(2) take_pieces [of k len "logical rest r"] k by simp
      then show "takes rest ok f r2 (len - k) (Some (take len (logical rest r)))"
        unfolding f_def by (rule takes_bind_pure) simp
    qed
    moreover have "readShortBytes len r = bindM readPacketHeader (\<lambda>_. f)
        (r\<lparr>r_bufferStart := nat (int (r_bufferStart r) + lenInCurPacket r)\<rparr>)"
      using True len across k nh by (simp add: readShortBytes_def Let_def f_def nd)
    ultimately have "takes rest ok (readShortBytes len) r len (Some (take len (logical rest r)))"
      using k by (simp add: takes_def)
    then show ?thesis by (auto simp: or_await_def takes_def)
  next
    case False
    have "readShortBytes len r = (Inr None, r)"
      using False across len by (auto simp: readShortBytes_def Let_def)
    moreover have "takes rest ok (readShortBytesAsync rd len) r len (take len (logical rest r))"
    proof -
      define cont :: "bool \<Rightarrow> ('c, 'z, byte list) rdm" where "cont = (\<lambda>_ :: bool. \<lambda>r. let start = r_bufferStart r;
                    first = subarray (r_buffer r) start (nat (int start + int k)); rest = len - k
                in bindM readPacketHeader (\<lambda>_. bindM (recvAtLeast rd rest False) (\<lambda>_.
                     finish_across first (int k) rest))
                     (r\<lparr>r_bufferStart := nat (int start + int k)\<rparr>))"
      have "takes rest ok (bindM (recvAtLeast rd (k + 4) False) cont) r len (take len (logical rest r))"
      proof (rule recvAtLeast_takes [OF inv])
        show "k + 4 \<le> length (r_buffer r)" using k len by simp
        show "k + 4 \<le> length (stream rest r)"
          using inv full k by (simp add: reader_inv_def complete_True)
      next
        fix r1 :: "('c, 'z) reader_scheme" assume r1: "reader_inv rest ok r1" "logical rest r1 = logical rest r" "k + 4 \<le> haveBytes r1"
          "length (r_buffer r1) = length (r_buffer r)"
          "lenInCurPacket r1 = lenInCurPacket r" "is_full r1 = is_full r"
        have hv: "is_full r1" "lenInCurPacket r1 + 4 \<le> int (haveBytes r1)"
          using r1 full k by simp_all
        define f :: "('c, 'z, byte list) rdm" where "f = bindM (recvAtLeast rd (len - k) False) (\<lambda>_.
            finish_across (take k (logical rest r)) (int k) (len - k))"
        have "takes rest ok (\<lambda>r. bindM readPacketHeader (\<lambda>_. f)
            (r\<lparr>r_bufferStart := nat (int (r_bufferStart r) + lenInCurPacket r)\<rparr>)) r1
            (nat (lenInCurPacket r1) + (len - k)) (take len (logical rest r))"
        proof (rule header_then [OF r1(1) hv])
          fix r2 :: "('c, 'z) reader_scheme" assume r2: "reader_inv rest ok r2" "logical rest r2 = drop (nat (lenInCurPacket r1)) (logical rest r1)"
            "length (r_buffer r2) = length (r_buffer r1)" "is_full r2 \<longrightarrow> lenInCurPacket r2 = 0xFFFFFF"
          have l2: "logical rest r2 = drop k (logical rest r)"
            using r2(2) r1 k by simp
          note ins = inside [OF r2(1) l2 r2(4)]
          show "takes rest ok f r2 (len - k) (take len (logical rest r))"
            unfolding f_def
          proof (rule recvAtLeast_takes [OF r2(1)])
            show "len - k \<le> length (r_buffer r2)" using r2 r1 len by simp
            show "len - k \<le> length (stream rest r2)"
              using enough_in_packet(2) [OF r2(1), of "len - k"] l2 len ins by auto
          next
            fix r3 :: "('c, 'z) reader_scheme" assume r3: "reader_inv rest ok r3" "logical rest r3 = logical rest r2" "len - k \<le> haveBytes r3"
              "lenInCurPacket r3 = lenInCurPacket r2"
            have "takes rest ok (finish_across (take k (logical rest r)) (int k) (len - k)) r3 (len - k)
                (take k (logical rest r) @ take (len - k) (logical rest r3))"
              using r3 ins by (intro finish_takes) simp_all
            then show "takes rest ok (finish_across (take k (logical rest r)) (int k) (len - k)) r3 (len - k)
                (take len (logical rest r))"
              using r3(2) l2 take_pieces [of k len "logical rest r"] k by simp
          qed
        qed
        moreover have "cont True r1 = bindM readPacketHeader (\<lambda>_. f)
            (r1\<lparr>r_bufferStart := nat (int (r_bufferStart r1) + lenInCurPacket r1)\<rparr>)"
          using next_header(2) [OF r1(1) hv] r1 k by (simp add: cont_def f_def Let_def)
        ultimately show "takes rest ok (cont True) r1 len (take len (logical rest r))"
          using r1 k by (simp add: takes_def)
      qed
      moreover have "readShortBytesAsync rd len r = bindM (recvAtLeast rd (k + 4) False) cont r"
        using across k by (simp add: readShortBytesAsync_def Let_def cont_def nd)
      ultimately show ?thesis
        by (simp add: takes_def)
    qed
    ultimately show ?thesis
      by (simp add: or_await_def takes_def)
  qed
qed

lemmas short_bytes_takes = short_bytes_inside short_bytes_across

text \<open>The rest of a packet, up to its end.\<close>

lemma logical_last:
  assumes "reader_inv rest ok r" "\<not> is_full r"
  shows "length (logical rest r) = nat (lenInCurPacket r)"
  using assms by (auto simp: logical_def payload.simps [of False] reader_inv_def complete_False)

lemma eof_bytes_takes:
  assumes inv: "reader_inv rest ok r" and last: "\<not> is_full r"
    and small: "length (logical rest r) \<le> length (r_buffer r)"
  shows "takes rest ok (or_await readShortEofBytes (readShortEofBytesAsync rd)) r
      (length (logical rest r)) (strip_nul (logical rest r))"
proof -
  define n where "n = nat (lenInCurPacket r)"
  have n: "length (logical rest r) = n" "int n \<le> lenInCurPacket r"
    using logical_last [OF inv last] inv
    by (auto simp: n_def reader_inv_def reader_wf_def lenInCurPacket_def)
  show ?thesis
  proof (cases "n \<le> haveBytes r")
    case True
    have "takes rest ok readShortEofBytes r n (Some (strip_nul (logical rest r)))"
      using consume_then [OF inv True n(2), of "\<lambda>b. Some (strip_nul b)"] True n(1)
      by (simp add: readShortEofBytes_def takes_def flip: n_def)
    then show ?thesis
      using n by (auto simp: or_await_def takes_def)
  next
    case False
    have "takes rest ok (bindM (recvAtLeast rd n False) (\<lambda>_. bindM (consume n) (\<lambda>b. ret (strip_nul b)))) r n
        (strip_nul (logical rest r))"
    proof (rule recvAtLeast_takes [OF inv])
      show "n \<le> length (r_buffer r)" "n \<le> length (stream rest r)"
        using small n enough_in_packet [OF inv, of n] last by auto
      fix r' assume "reader_inv rest ok r'" "logical rest r' = logical rest r" "n \<le> haveBytes r'"
        "lenInCurPacket r' = lenInCurPacket r"
      then show "takes rest ok (bindM (consume n) (\<lambda>b. ret (strip_nul b))) r' n (strip_nul (logical rest r))"
        using consume_then [of r' n strip_nul] n by simp
    qed
    then show ?thesis
      using False n by (simp add: or_await_def readShortEofBytes_def readShortEofBytesAsync_def takes_def flip: n_def)
  qed
qed

subsection \<open>Long blobs\<close>

lemma readHeader_takes:
  assumes inv: "reader_inv rest ok r" and full: "is_full r" and zero: "lenInCurPacket r = 0"
  shows "takes rest ok (readHeader rd) r 0 ()"
    and "\<And>v r'. readHeader rd r = (v, r') \<Longrightarrow> is_full r' \<longrightarrow> lenInCurPacket r' = 0xFFFFFF"
proof -
  have sync: "\<exists>r'. readPacketHeader r1 = (Inr True, r') \<and> takes rest ok (\<lambda>_. (Inr (), r')) r1 0 () \<and>
      (is_full r' \<longrightarrow> lenInCurPacket r' = 0xFFFFFF)"
    if "reader_inv rest ok r1" "is_full r1" "lenInCurPacket r1 = 0" "4 \<le> haveBytes r1" for r1 :: "('c, 'z) reader_scheme"
    using next_header(1) [of r1] that by (auto simp: takes_def)
  have "\<exists>r'. readHeader rd r = (Inr (), r') \<and> takes rest ok (\<lambda>_. (Inr (), r')) r 0 () \<and>
      (is_full r' \<longrightarrow> lenInCurPacket r' = 0xFFFFFF)"
  proof (cases "4 \<le> haveBytes r")
    case True
    then show ?thesis
      using sync [OF inv full zero] by (auto simp: readHeader_def)
  next
    case False
    have "buffer_wf ok r" "4 \<le> length (stream rest r)" "4 \<le> length (r_buffer r)"
      using inv full zero
      by (auto simp: reader_inv_def reader_wf_def complete_True buffer_wf_def BUFFER_LEN_def)
    then obtain r1 where r1: "recvAtLeast rd 4 False r = (Inr True, r1)" "buffer_wf ok r1" "same_packet r r1"
      "stream rest r1 = stream rest r" "4 \<le> haveBytes r1"
      using recvAtLeast_more [of r 4 False] by blast
    note i1 = same_packet_inv [OF r1(3,2,4) inv] same_packetD [OF r1(3)]
    obtain r' where r': "readPacketHeader r1 = (Inr True, r')" "takes rest ok (\<lambda>_. (Inr (), r')) r1 0 ()"
      "is_full r' \<longrightarrow> lenInCurPacket r' = 0xFFFFFF"
      using sync [OF i1(1)] i1 full zero r1(5) by auto
    have "readHeader rd r = (Inr (), r')"
      using False r1(1,5) r'(1) by (simp add: readHeader_def readPacketHeader_def readPacketHeaderAsync_def)
    moreover have "takes rest ok (\<lambda>_. (Inr (), r')) r 0 ()"
      using r'(2) i1 by (simp add: takes_def)
    ultimately show ?thesis using r'(3) by blast
  qed
  then obtain r' where r': "readHeader rd r = (Inr (), r')" "takes rest ok (\<lambda>_. (Inr (), r')) r 0 ()"
      "is_full r' \<longrightarrow> lenInCurPacket r' = 0xFFFFFF" by blast
  then show "takes rest ok (readHeader rd) r 0 ()"
    by (simp add: takes_def)
  show "is_full r'' \<longrightarrow> lenInCurPacket r'' = 0xFFFFFF" if "readHeader rd r = (v, r'')" for v r''
    using r' that by simp
qed

lemma direct_loop_takes:
  "reader_inv rest ok r \<Longrightarrow> length acc \<le> len \<Longrightarrow>
   (0 < lenInCurPacket r \<and> length acc < len \<longrightarrow> haveBytes r = 0) \<Longrightarrow>
   j = min (nat (lenInCurPacket r)) (len - length acc) \<Longrightarrow>
   takes rest ok (direct_loop rd len acc) r j (acc @ take j (logical rest r))"
proof (induction "len - length acc" arbitrary: acc r j rule: less_induct)
  case (less acc r j)
  note prems = less.prems
  show ?case
  proof (cases "0 < lenInCurPacket r \<and> length acc < len")
    case False
    then have "j = 0" "direct_loop rd len acc r = (Inr acc, r)"
      using prems by (auto simp: direct_loop.simps)
    then show ?thesis
      using prems by (simp add: takes_def)
  next
    case True
    define n where "n = min (nat (lenInCurPacket r)) (len - length acc)"
    have wf: "buffer_wf ok r" and comp: "complete (is_full r) (nat (lenInCurPacket r)) (stream rest r)"
      using prems(1) by (auto simp: reader_inv_def reader_wf_def)
    have av: "avail r = []"
      using prems(3) True length_avail [of r] wf by (auto simp: buffer_wf_def)
    have "nat (lenInCurPacket r) \<le> length (stream rest r)"
      using comp by (cases "is_full r") (auto simp: complete_True complete_False)
    then have "rest (r_src r) \<noteq> []"
      using True av by (auto simp: stream_def)
    then obtain v c where v: "rd n (r_src r) = (Inr (Some v), c)" "v \<noteq> []" "length v \<le> n"
      "rest (r_src r) = v @ rest c" "ok c"
      using rd_more [of "r_src r" n] True wf by (auto simp: n_def buffer_wf_def)
    define r1 where "r1 = r\<lparr>r_src := c, r_packetOffset := r_packetOffset r + int (length v),
                         r_bufferStart := 0, r_bufferEnd := 0\<rparr>"
    have step: "direct_loop rd len acc r = direct_loop rd len (acc @ v) r1"
      using True v by (subst direct_loop.simps) (simp add: Let_def r1_def flip: n_def)
    have vn: "length v \<le> nat (lenInCurPacket r)" "length acc + length v \<le> len" "0 < length v"
      using v(2,3) True by (auto simp: n_def)
    have st: "stream rest r = v @ stream rest r1" "stream rest r1 = drop (length v) (stream rest r)"
      using v av by (simp_all add: stream_def r1_def avail_def)
    have fl: "is_full r1 = is_full r" and ln: "nat (lenInCurPacket r1) = nat (lenInCurPacket r) - length v"
      by (auto simp: is_full_def r1_def lenInCurPacket_def)
    have len: "length v \<le> length (stream rest r)" and tk: "take (length v) (stream rest r) = v"
      by (subst st(1), simp)+
    note p = payload_take [OF vn(1) len, of "is_full r"]
    have l1: "logical rest r1 = drop (length v) (logical rest r)" "behind rest r1 = behind rest r"
      and tv: "take (length v) (logical rest r) = v"
      using p tk by (simp_all add: logical_def behind_def fl ln st(2))
    have "reader_wf ok r1"
      using prems(1) v vn True
      by (auto simp: reader_inv_def reader_wf_def buffer_wf_def r1_def lenInCurPacket_def)
    then have i1: "reader_inv rest ok r1"
      using complete_drop [OF comp vn(1)] by (simp add: reader_inv_def fl ln st(2))
    define j1 where "j1 = min (nat (lenInCurPacket r1)) (len - length (acc @ v))"
    have "takes rest ok (direct_loop rd len (acc @ v)) r1 j1 ((acc @ v) @ take j1 (logical rest r1))"
    proof (rule less.hyps [OF _ i1])
      show "len - length (acc @ v) < len - length acc"
        unfolding length_append using vn(3) True by linarith
    qed (use vn in \<open>auto simp: j1_def haveBytes_def r1_def\<close>)
    moreover have j: "j = length v + j1"
      using vn by (simp add: prems(4) j1_def ln)
    moreover have "(acc @ v) @ take j1 (logical rest r1) = acc @ take j (logical rest r)"
      unfolding j take_add l1 tv by simp
    ultimately show ?thesis
      using step l1 by (auto simp: takes_def r1_def add.commute)
  qed
qed

lemma readBytes_round_takes:
  fixes r :: "('c, 'z) reader_scheme"
  assumes inv: "reader_inv rest ok r" and acc: "length acc < len"
    and enough: "len - length acc \<le> length (logical rest r)"
  shows "\<exists>j. 0 < j \<and> j \<le> len - length acc \<and>
    takes rest ok (readBytes_round rd len acc) r j (acc @ take j (logical rest r))"
proof -
  define m where "m = (\<lambda>r :: ('c, 'z) reader_scheme. if lenInCurPacket r = 0 then readHeader rd r else (Inr (), r))"
  have "\<exists>r1. m r = (Inr (), r1) \<and> takes rest ok (\<lambda>_. (Inr (), r1)) r 0 () \<and> 0 < lenInCurPacket r1"
  proof (cases "lenInCurPacket r = 0")
    case True
    have "is_full r"
      using enough_in_packet(1) [OF inv, of 1] enough acc True by fastforce
    from readHeader_takes [OF inv this True] obtain r1 where r1: "readHeader rd r = (Inr (), r1)"
      "takes rest ok (\<lambda>_. (Inr (), r1)) r 0 ()" "is_full r1 \<longrightarrow> lenInCurPacket r1 = 0xFFFFFF"
      by (auto simp: takes_def)
    have i1: "reader_inv rest ok r1" "logical rest r1 = logical rest r"
      using r1(2) by (auto simp: takes_def)
    have "0 < lenInCurPacket r1"
      using enough_in_packet(1) [OF i1(1), of 1] r1(3) enough acc i1(2) by fastforce
    with r1 True show ?thesis by (simp add: m_def)
  next
    case False
    have "0 \<le> lenInCurPacket r"
      using inv by (auto simp: reader_inv_def reader_wf_def lenInCurPacket_def)
    with False show ?thesis
      using inv by (simp add: m_def takes_def)
  qed
  then obtain r1 where r1: "m r = (Inr (), r1)" "takes rest ok (\<lambda>_. (Inr (), r1)) r 0 ()" "0 < lenInCurPacket r1"
    by blast
  have i1: "reader_inv rest ok r1" "logical rest r1 = logical rest r"
    using r1(2) by (auto simp: takes_def)
  define k where "k = (if 0 < haveBytes r1 then min (haveBytes r1) (min (nat (lenInCurPacket r1)) (len - length acc)) else 0)"
  have kl: "int k \<le> lenInCurPacket r1" "k \<le> haveBytes r1" "k \<le> len - length acc"
    using r1(3) by (auto simp: k_def min_def)
  have copy: "takes rest ok (copy_available len acc) r1 k (acc @ take k (logical rest r))"
    using consume_then [OF i1(1) kl(2,1), of "\<lambda>b. acc @ b"] r1(3) acc i1
    by (auto simp: copy_available_def takes_def k_def)
  then obtain r2 where r2: "copy_available len acc r1 = (Inr (acc @ take k (logical rest r)), r2)"
    "reader_inv rest ok r2" "logical rest r2 = drop k (logical rest r1)"
    "behind rest r2 = behind rest r1" "r_decoder r2 = r_decoder r1" "reader.more r2 = reader.more r1"
    "length (r_buffer r2) = length (r_buffer r1)"
    by (rule takesE)
  have r2x: "lenInCurPacket r2 = lenInCurPacket r1 - int k \<and> haveBytes r2 = haveBytes r1 - k"
    using r2(1) acc r1(3) by (auto simp: copy_available_def k_def consume_def lenInCurPacket_def haveBytes_def Let_def)
  have lk: "length (take k (logical rest r)) = k"
    using kl(3) enough by simp
  define j where "j = min (nat (lenInCurPacket r2)) (len - length (acc @ take k (logical rest r)))"
  have dl: "takes rest ok (direct_loop rd len (acc @ take k (logical rest r))) r2 j
      ((acc @ take k (logical rest r)) @ take j (logical rest r2))"
  proof (rule direct_loop_takes [OF r2(2)])
    show "length (acc @ take k (logical rest r)) \<le> len"
      using lk kl acc by simp
    show "0 < lenInCurPacket r2 \<and> length (acc @ take k (logical rest r)) < len \<longrightarrow> haveBytes r2 = 0"
      using r2x lk kl acc by (auto simp: k_def min_def split: if_splits)
  qed (simp add: j_def)
  obtain r3 where r3: "direct_loop rd len (acc @ take k (logical rest r)) r2 =
      (Inr ((acc @ take k (logical rest r)) @ take j (logical rest r2)), r3)"
    "reader_inv rest ok r3" "logical rest r3 = drop j (logical rest r2)"
    "behind rest r3 = behind rest r2" "r_decoder r3 = r_decoder r2" "reader.more r3 = reader.more r2"
    "length (r_buffer r3) = length (r_buffer r2)"
    using dl by (rule takesE)
  have "logical rest r3 = drop (k + j) (logical rest r)"
    using r3(3) r2(3) i1(2) by (simp add: add.commute)
  moreover have "readBytes_round rd len acc r = (Inr (acc @ take (k + j) (logical rest r)), r3)"
    using r1(1) r2(1) r3(1) r2(3) i1(2) by (simp add: readBytes_round_def take_add flip: m_def)
  ultimately have "takes rest ok (readBytes_round rd len acc) r (k + j) (acc @ take (k + j) (logical rest r))"
    using r3 r2 r1(2) by (intro takesI [of _ _ _ r3]) (simp_all add: takes_def)
  moreover have "0 < k + j \<and> k + j \<le> len - length acc"
  proof -
    have "j \<le> len - (length acc + k)"
      using lk by (simp add: j_def)
    moreover have "0 < j" if "k = 0"
      using r2x r1(3) acc that by (simp add: j_def)
    ultimately show ?thesis
      using kl(3) acc by linarith
  qed
  ultimately show ?thesis by blast
qed

lemma readBytes_loop_takes:
  fixes r :: "('c, 'z) reader_scheme"
  shows "reader_inv rest ok r \<Longrightarrow> length acc \<le> len \<Longrightarrow> len - length acc \<le> length (logical rest r) \<Longrightarrow>
   takesL rest ok (readBytes_loop rd len acc) r (len - length acc)
     (acc @ take (len - length acc) (logical rest r))"
proof (induction "len - length acc" arbitrary: acc r rule: less_induct)
  case (less acc r)
  note prems = less.prems
  show ?case
  proof (cases "length acc < len")
    case False
    then show ?thesis
      using prems by (subst takesL_def, subst readBytes_loop.simps) simp
  next
    case True
    obtain j where j: "0 < j" "j \<le> len - length acc"
      "takes rest ok (readBytes_round rd len acc) r j (acc @ take j (logical rest r))"
      using readBytes_round_takes [OF prems(1) True prems(3)] by blast
    define acc' where "acc' = acc @ take j (logical rest r)"
    have la: "length acc' = length acc + j"
      using j prems by (simp add: acc'_def)
    have "takesL rest ok (readBytes_loop rd len acc) r (j + (len - length acc'))
        (acc @ take (len - length acc) (logical rest r))"
    proof (rule takesL_step [OF j(3)])
      fix r1 :: "('c, 'z) reader_scheme" assume "readBytes_round rd len acc r = (Inr (acc @ take j (logical rest r)), r1)"
      then show "readBytes_loop rd len acc r = readBytes_loop rd len acc' r1"
        using True by (subst readBytes_loop.simps) (simp add: acc'_def)
    next
      fix r1 :: "('c, 'z) reader_scheme" assume r1: "reader_inv rest ok r1" "logical rest r1 = drop j (logical rest r)"
      have "takesL rest ok (readBytes_loop rd len acc') r1 (len - length acc')
          (acc' @ take (len - length acc') (logical rest r1))"
      proof (rule less.hyps [OF _ r1(1)])
        show "len - length acc' < len - length acc"
          using la j True by linarith
        show "length acc' \<le> len" "len - length acc' \<le> length (logical rest r1)"
          using la j prems r1(2) by auto
      qed
      moreover have "acc' @ take (len - length acc') (logical rest r1) = acc @ take (len - length acc) (logical rest r)"
        using take_pieces [of j "len - length acc" "logical rest r"] j r1(2)
        by (simp add: la) (simp add: acc'_def)
      ultimately show "takesL rest ok (readBytes_loop rd len acc') r1 (len - length acc')
          (acc @ take (len - length acc) (logical rest r))"
        by simp
    qed
    moreover have "j + (len - length acc') = len - length acc"
      using j(2) la by linarith
    ultimately show ?thesis by simp
  qed
qed

text \<open>\<open>readBytesToBuffer()\<close> returns, over any number of packets.\<close>

lemma readBytesToBuffer_takes:
  assumes "reader_inv rest ok r" "len \<le> length (logical rest r)"
  shows "takesL rest ok (readBytesToBuffer rd len) r len (take len (logical rest r))"
  using readBytes_loop_takes [OF assms(1), of "[]" len] assms(2) by (simp add: readBytesToBuffer_def)

subsection \<open>Skipping\<close>

lemma void_inner_spec:
  "ok (r_src r) \<Longrightarrow> r_buffer r \<noteq> [] \<Longrightarrow> 0 < k \<Longrightarrow> nat k \<le> length (rest (r_src r)) \<Longrightarrow>
   \<exists>k' c b e. void_inner rd k r = (Inr k', r\<lparr>r_src := c, r_buffer := b, r_bufferEnd := e\<rparr>) \<and>
     k' \<le> 0 \<and> - k' \<le> int e \<and> e \<le> length b \<and> length b = length (r_buffer r) \<and> ok c \<and>
     subarray b (nat (int e + k')) e @ rest c = drop (nat k) (rest (r_src r))"
proof (induction "nat k" arbitrary: k r rule: less_induct)
  case (less k r)
  note prems = less.prems
  define n where "n = length (r_buffer r)"
  have "0 < n" "rest (r_src r) \<noteq> []"
    using prems by (auto simp: n_def)
  then obtain v c where v: "rd n (r_src r) = (Inr (Some v), c)" "v \<noteq> []" "length v \<le> n"
    "rest (r_src r) = v @ rest c" "ok c"
    using rd_more [of "r_src r" n] prems(1) by auto
  define b where "b = arr_set (r_buffer r) 0 v"
  have b: "length b = length (r_buffer r)" "take (length v) b = v"
    using v(3) subarray_arr_set_extend [of 0 0 "r_buffer r" v]
    by (simp_all add: b_def n_def length_arr_set)
  define r1 where "r1 = r\<lparr>r_src := c, r_buffer := b, r_bufferEnd := length v\<rparr>"
  have step: "void_inner rd k r = void_inner rd (k - int (length v)) r1"
    using prems(3) v by (subst void_inner.simps) (simp add: Let_def r1_def b_def n_def)
  have lv: "0 < length v" using v(2) by simp
  show ?case
  proof (cases "0 < k - int (length v)")
    case True
    have "\<exists>k' c' b' e. void_inner rd (k - int (length v)) r1 =
        (Inr k', r1\<lparr>r_src := c', r_buffer := b', r_bufferEnd := e\<rparr>) \<and>
      k' \<le> 0 \<and> - k' \<le> int e \<and> e \<le> length b' \<and> length b' = length (r_buffer r1) \<and> ok c' \<and>
      subarray b' (nat (int e + k')) e @ rest c' = drop (nat (k - int (length v))) (rest (r_src r1))"
    proof (rule less.hyps [OF _ _ _ True])
      show "nat (k - int (length v)) < nat k"
        using lv prems(3) by linarith
      show "ok (r_src r1)" "r_buffer r1 \<noteq> []"
        using v(5) b(1) \<open>0 < n\<close> by (auto simp: r1_def n_def)
      show "nat (k - int (length v)) \<le> length (rest (r_src r1))"
        using prems(4) v(4) True by (simp add: r1_def)
    qed
    then obtain k' c' b' e where *: "void_inner rd (k - int (length v)) r1 =
        (Inr k', r1\<lparr>r_src := c', r_buffer := b', r_bufferEnd := e\<rparr>)"
      "k' \<le> 0" "- k' \<le> int e" "e \<le> length b'" "length b' = length (r_buffer r1)" "ok c'"
      "subarray b' (nat (int e + k')) e @ rest c' = drop (nat (k - int (length v))) (rest (r_src r1))"
      by blast
    have "drop (nat (k - int (length v))) (rest c) = drop (nat k) (rest (r_src r))"
      using True by (simp add: v(4) nat_diff_distrib)
    then show ?thesis
      using * b(1) unfolding step
      by (intro exI [of _ k'] exI [of _ c'] exI [of _ b'] exI [of _ e]) (simp add: r1_def)
  next
    case False
    have "subarray b (nat k) (length v) = drop (nat k) v"
      using b(2) drop_subarray [of "nat k" b 0 "length v"] by simp
    then have "subarray b (nat (int (length v) + (k - int (length v)))) (length v) @ rest c = drop (nat k) (rest (r_src r))"
      using False by (simp add: v(4))
    moreover have "void_inner rd k r = (Inr (k - int (length v)), r1)"
      using False unfolding step by (subst void_inner.simps) simp
    ultimately show ?thesis
      using False v(3,5) b prems(3)
      by (intro exI [of _ "k - int (length v)"] exI [of _ c] exI [of _ b] exI [of _ "length v"])
        (simp add: r1_def n_def)
  qed
qed

lemma readVoid_round_takes:
  assumes inv: "reader_inv rest ok r" and len: "0 < len" "nat len \<le> length (logical rest r)"
  shows "\<exists>j. 0 < j \<and> int j \<le> len \<and> takes rest ok (readVoid_round rd len) r j (len - int j)"
proof -
  obtain r1 where r1: "correctIfNear rd 1 r = (Inr (), r1)" "reader_inv rest ok r1"
    "logical rest r1 = logical rest r" "behind rest r1 = behind rest r" "r_decoder r1 = r_decoder r"
    "reader.more r1 = reader.more r" "length (r_buffer r1) = length (r_buffer r)"
    "is_full r1 \<longrightarrow> int 1 \<le> lenInCurPacket r1"
    using correctIfNear_spec [OF inv, of 1] by auto
  define j where "j = nat (min len (lenInCurPacket r1))"
  have pos: "1 \<le> lenInCurPacket r1"
    using enough_in_packet(1) [OF r1(2), of 1] r1(3,8) len by fastforce
  then have j: "0 < j" "int j \<le> len" "int j \<le> lenInCurPacket r1" "min len (lenInCurPacket r1) = int j"
    using len by (auto simp: j_def)
  have wf: "buffer_wf ok r1" and comp: "complete (is_full r1) (nat (lenInCurPacket r1)) (stream rest r1)"
    using r1(2) by (auto simp: reader_inv_def reader_wf_def)
  have ls: "j \<le> length (stream rest r1)"
    using comp j(3) by (cases "is_full r1") (auto simp: complete_True complete_False)
  have b: "r_bufferStart r1 \<le> r_bufferEnd r1" "r_bufferEnd r1 \<le> length (r_buffer r1)"
    using wf by (auto simp: buffer_wf_def)
  note la = length_avail [OF b(2)]
  define r2 where "r2 = r1\<lparr>r_packetOffset := r_packetOffset r1 + int j\<rparr>"
  have "\<exists>c buf st e. bindM (void_inner rd (int j - int (haveBytes r1))) (\<lambda>k r.
      (Inr (len - int j), r\<lparr>r_bufferStart := nat (int (r_bufferEnd r) + k)\<rparr>)) r2 =
        (Inr (len - int j), r2\<lparr>r_src := c, r_buffer := buf, r_bufferEnd := e, r_bufferStart := st\<rparr>) \<and>
      st \<le> e \<and> e \<le> length buf \<and> length buf = length (r_buffer r1) \<and> ok c \<and>
      subarray buf st e @ rest c = drop j (stream rest r1)"
  proof (cases "int j - int (haveBytes r1) \<le> 0")
    case True
    have "void_inner rd (int j - int (haveBytes r1)) r2 = (Inr (int j - int (haveBytes r1)), r2)"
      using True by (subst void_inner.simps) simp
    moreover have "nat (int (r_bufferEnd r1) + (int j - int (haveBytes r1))) = r_bufferStart r1 + j"
      using b(1) by (simp add: haveBytes_def)
    moreover have "subarray (r_buffer r1) (r_bufferStart r1 + j) (r_bufferEnd r1) @ rest (r_src r1) = drop j (stream rest r1)"
      using True la by (simp add: stream_def avail_def drop_subarray)
    ultimately show ?thesis
      using True b wf
      by (intro exI [of _ "r_src r1"] exI [of _ "r_buffer r1"] exI [of _ "r_bufferStart r1 + j"] exI [of _ "r_bufferEnd r1"])
        (simp add: r2_def buffer_wf_def haveBytes_def)
  next
    case False
    define k where "k = int j - int (haveBytes r1)"
    have "0 < k" "nat k = j - haveBytes r1"
      using False by (auto simp: k_def)
    moreover have "nat k \<le> length (rest (r_src r2))"
      using ls la False by (simp add: stream_def r2_def k_def)
    moreover have "ok (r_src r2)" "r_buffer r2 \<noteq> []"
      using wf by (auto simp: buffer_wf_def r2_def BUFFER_LEN_def)
    ultimately obtain k' c buf e where *: "void_inner rd k r2 = (Inr k', r2\<lparr>r_src := c, r_buffer := buf, r_bufferEnd := e\<rparr>)"
      "k' \<le> 0" "- k' \<le> int e" "e \<le> length buf" "length buf = length (r_buffer r2)" "ok c"
      "subarray buf (nat (int e + k')) e @ rest c = drop (nat k) (rest (r_src r2))"
      using void_inner_spec [of r2 k] by blast
    have "drop (nat k) (rest (r_src r1)) = drop j (stream rest r1)"
      using False la \<open>nat k = j - haveBytes r1\<close> by (simp add: stream_def)
    then show ?thesis
      using * by (intro exI [of _ c] exI [of _ buf] exI [of _ "nat (int e + k')"] exI [of _ e])
        (simp add: r2_def flip: k_def)
  qed
  then obtain c buf st e where run: "bindM (void_inner rd (int j - int (haveBytes r1))) (\<lambda>k r.
      (Inr (len - int j), r\<lparr>r_bufferStart := nat (int (r_bufferEnd r) + k)\<rparr>)) r2 =
        (Inr (len - int j), r2\<lparr>r_src := c, r_buffer := buf, r_bufferEnd := e, r_bufferStart := st\<rparr>)"
    and st: "st \<le> e" "e \<le> length buf" "length buf = length (r_buffer r1)" "ok c"
      "subarray buf st e @ rest c = drop j (stream rest r1)"
    by blast
  define r3 where "r3 = r2\<lparr>r_src := c, r_buffer := buf, r_bufferEnd := e, r_bufferStart := st\<rparr>"
  have "haveBytes r2 = haveBytes r1" "\<not> r_bufferStart r1 < r_bufferEnd r1 \<Longrightarrow> haveBytes r1 = 0"
    by (simp_all add: r2_def haveBytes_def)
  then have round: "readVoid_round rd len r = (Inr (len - int j), r3)"
    using r1(1) run
    by (cases "r_bufferStart r1 < r_bufferEnd r1") (simp_all add: readVoid_round_def Let_def j(4) r3_def flip: r2_def)
  have s3: "stream rest r3 = drop j (stream rest r1)"
    using st(5) by (simp add: stream_def r3_def avail_def r2_def)
  have fl: "is_full r3 = is_full r1" and ln: "nat (lenInCurPacket r3) = nat (lenInCurPacket r1) - j"
    by (auto simp: r3_def r2_def is_full_def lenInCurPacket_def)
  have jn: "j \<le> nat (lenInCurPacket r1)" using j(3) by linarith
  note p = payload_take [OF jn ls, of "is_full r1"]
  have "reader_wf ok r3"
    using r1(2) st j(3) by (auto simp: reader_inv_def reader_wf_def buffer_wf_def r3_def r2_def lenInCurPacket_def)
  then have "reader_inv rest ok r3"
    using complete_drop [OF comp jn] by (simp add: reader_inv_def fl ln s3)
  moreover have "logical rest r3 = drop j (logical rest r)" "behind rest r3 = behind rest r"
    using p r1(3,4) by (simp_all add: logical_def behind_def fl ln s3)
  ultimately have "takes rest ok (readVoid_round rd len) r j (len - int j)"
    using round r1(5-7) st(3) by (intro takesI [of _ _ _ r3]) (simp_all add: r3_def r2_def)
  with j show ?thesis by blast
qed

lemma readVoidAsync_takes:
  fixes r :: "('c, 'z) reader_scheme"
  shows "reader_inv rest ok r \<Longrightarrow> nat len \<le> length (logical rest r) \<Longrightarrow>
   takesL rest ok (readVoidAsync rd len) r (nat len) ()"
proof (induction "nat len" arbitrary: len r rule: less_induct)
  case (less len r)
  note prems = less.prems
  show ?case
  proof (cases "0 < len")
    case False
    then show ?thesis
      using prems by (subst takesL_def, subst readVoidAsync.simps) simp
  next
    case True
    obtain j where j: "0 < j" "int j \<le> len" "takes rest ok (readVoid_round rd len) r j (len - int j)"
      using readVoid_round_takes [OF prems(1) True prems(2)] by blast
    have "takesL rest ok (readVoidAsync rd len) r (j + nat (len - int j)) ()"
    proof (rule takesL_step [OF j(3)])
      fix r1 :: "('c, 'z) reader_scheme" assume "readVoid_round rd len r = (Inr (len - int j), r1)"
      then show "readVoidAsync rd len r = readVoidAsync rd (len - int j) r1"
        using True by (subst readVoidAsync.simps) simp
    next
      fix r1 :: "('c, 'z) reader_scheme" assume r1: "reader_inv rest ok r1" "logical rest r1 = drop j (logical rest r)"
      show "takesL rest ok (readVoidAsync rd (len - int j)) r1 (nat (len - int j)) ()"
        by (rule less.hyps [OF _ r1(1)]) (use j True r1(2) prems(2) in auto)
    qed
    moreover have "j + nat (len - int j) = nat len"
      using j by linarith
    ultimately show ?thesis by simp
  qed
qed

text \<open>Skipping returns, in one or over several packets.\<close>

lemma skipBytes_takes:
  assumes inv: "reader_inv rest ok r" and len: "0 \<le> len" "nat len \<le> length (logical rest r)"
  shows "takesL rest ok (skipBytes rd len) r (nat len) ()"
proof (cases "len \<le> int (haveBytes r) \<and> r_packetOffset r \<le> 0xFFFFFF - len")
  case False
  then have "readVoid len r = (Inr False, r)"
    by (auto simp: readVoid_def)
  then show ?thesis
    using readVoidAsync_takes [OF inv len(2)] by (simp add: skipBytes_def takesL_def bindL_def)
next
  case True
  then have "\<not> is_full r \<or> int (nat len) \<le> lenInCurPacket r"
    using len(1) by (auto simp: is_full_def lenInCurPacket_def)
  note e = enough_in_packet [OF inv len(2) this]
  have "takes rest ok (consume (nat len)) r (nat len) (take (nat len) (logical rest r))"
    using consume_takes [OF inv _ e(1)] True len(1) by (simp add: nat_le_iff)
  then obtain r' where r': "consume (nat len) r = (Inr (take (nat len) (logical rest r)), r')"
    "reader_inv rest ok r'" "logical rest r' = drop (nat len) (logical rest r)"
    "behind rest r' = behind rest r" "r_decoder r' = r_decoder r" "reader.more r' = reader.more r"
    "length (r_buffer r') = length (r_buffer r)"
    by (rule takesE)
  have "readVoid len r = (Inr True, r')"
    using True len(1) r'(1) by (auto simp: consume_def readVoid_def nat_add_distrib)
  then have "skipBytes rd len r = Some (Inr (), r')"
    by (simp add: skipBytes_def bindL_def)
  with r' show ?thesis
    by (simp add: takesL_def)
qed

end

section \<open>A packet that is too short\<close>

text \<open>
  \<open>readVoidAsync()\<close> is asked to skip more bytes than are in the packet, and the packet is not continued.
  No round of the loop changes anything then, and no round waits for the connection: it never returns.
\<close>

lemma readVoid_round_stuck:
  assumes "0 < len" "r_payloadLength r \<noteq> 0xFFFFFF" "lenInCurPacket r = 0" "r_bufferStart r \<le> r_bufferEnd r"
  shows "readVoid_round rd len r = (Inr len, r)"
proof -
  have "correctIfNear rd 1 r = (Inr (), r)"
    using assms(2) by (simp add: correctIfNear_def correctNearPacketBoundary_def)
  moreover have "(if r_bufferStart r < r_bufferEnd r then - int (haveBytes r) else 0) = - int (haveBytes r)"
    and "nat (int (r_bufferEnd r) - int (haveBytes r)) = r_bufferStart r"
    using assms(4) by (auto simp: haveBytes_def)
  moreover have "r\<lparr>r_packetOffset := r_packetOffset r\<rparr> = r" "r\<lparr>r_bufferStart := r_bufferStart r\<rparr> = r"
    by simp_all
  moreover have "min len 0 = 0"
    using assms(1) by simp
  ultimately show ?thesis
    using assms(3) by (simp add: readVoid_round_def Let_def void_inner.simps)
qed

lemma readVoidAsync_returns_only:
  "readVoidAsync rd len r = Some y \<Longrightarrow>
   \<not> (0 < len \<and> r_payloadLength r \<noteq> 0xFFFFFF \<and> lenInCurPacket r = 0 \<and> r_bufferStart r \<le> r_bufferEnd r)"
proof (erule readVoidAsync.raw_induct [where P = "\<lambda>rd len r y. \<not> (0 < len \<and> r_payloadLength r \<noteq> 0xFFFFFF \<and>
    lenInCurPacket r = 0 \<and> r_bufferStart r \<le> r_bufferEnd r)", rotated])
  fix f :: "'a rd \<Rightarrow> int \<Rightarrow> (('a, 'b) reader_scheme, exn, unit) loopm"
    and rd :: "'a rd" and len :: int and r :: "('a, 'b) reader_scheme" and y
  assume IH: "\<And>rd len r y. f rd len r = Some y \<Longrightarrow> \<not> (0 < len \<and> r_payloadLength r \<noteq> 0xFFFFFF \<and>
      lenInCurPacket r = 0 \<and> r_bufferStart r \<le> r_bufferEnd r)"
    and step: "(if 0 < len then case readVoid_round rd len r of (Inl e, r') \<Rightarrow> Some (Inl e, r')
        | (Inr len', r') \<Rightarrow> f rd len' r' else Some (Inr (), r)) = Some y"
  show "\<not> (0 < len \<and> r_payloadLength r \<noteq> 0xFFFFFF \<and> lenInCurPacket r = 0 \<and> r_bufferStart r \<le> r_bufferEnd r)"
  proof
    assume stuck: "0 < len \<and> r_payloadLength r \<noteq> 0xFFFFFF \<and> lenInCurPacket r = 0 \<and> r_bufferStart r \<le> r_bufferEnd r"
    then have "f rd len r = Some y"
      using step readVoid_round_stuck [of len r rd] by simp
    with IH [of rd len r y] stuck show False by blast
  qed
qed

lemma readVoidAsync_hangs:
  assumes "0 < len" "r_payloadLength r \<noteq> 0xFFFFFF" "lenInCurPacket r = 0" "r_bufferStart r \<le> r_bufferEnd r"
  shows "readVoidAsync rd len r = None"
  using readVoidAsync_returns_only [of rd len r] assms by (cases "readVoidAsync rd len r") auto

end
