(* ===== verification/SendSpec.thy ===== *)
theory SendSpec
  imports SendData ReaderSpec
begin

text \<open>
  What \<open>sendWithData()\<close> promises: the bytes that go to the connection are the packets that were waiting in the
  buffer, and then the payload cut into packets of \<open>0xFFFFFF\<close> bytes, each under its header with the next
  sequence number, the last one shorter than that. The reader's joined payload of those packets is the
  payload again.
\<close>

section \<open>Headers\<close>

definition header_bytes :: "nat \<Rightarrow> int \<Rightarrow> byte list" where
  "header_bytes n seq = le_bytes 3 n @ [word_of_int seq]"

lemma length_header_bytes [simp]: "length (header_bytes n seq) = 4"
  by (simp add: header_bytes_def)

lemma le_bytes_snoc: "le_bytes (Suc n) v = le_bytes n v @ [word_of_nat (v div 256 ^ n)]"
proof (induction n arbitrary: v)
  case (Suc n)
  have "le_bytes (Suc (Suc n)) v = word_of_nat (v mod 256) # le_bytes (Suc n) (v div 256)"
    by (rule le_bytes.simps)
  also have "\<dots> = le_bytes (Suc n) v @ [word_of_nat (v div 256 div 256 ^ n)]"
    by (subst Suc.IH) simp
  finally show ?case
    by (simp add: div_mult2_eq del: le_bytes.simps)
qed simp

lemma le_bytes_mod: "le_bytes n (v mod 256 ^ n) = le_bytes n v"
proof -
  have "nat (int v mod 256 ^ n) = v mod 256 ^ n"
    by (metis nat_int of_nat_mod of_nat_numeral of_nat_power)
  then show ?thesis
    using le_bytes_int_nat [of n v] by (simp add: le_bytes_int_def)
qed

lemma header_word_bytes:
  assumes "n < 2 ^ 24"
  shows "le_bytes 4 (unat (header_word n seq)) = header_bytes n seq"
proof -
  let ?a = "word_of_nat n :: 32 word" and ?b = "push_bit 24 (word_of_int seq) :: 32 word"
  have "take_bit 24 ?a = ?a"
    using assms by (simp add: take_bit_of_nat take_bit_nat_eq_self)
  then have "\<not> bit ?a i" if "24 \<le> i" for i
    using that by (metis bit_take_bit_iff not_le)
  then have ab: "?a OR ?b = ?a + ?b"
    by (intro disjunctive_add [symmetric]) (auto simp: bit_push_bit_iff not_le)
  have "header_word n seq = ?a + word_of_int (2 ^ 24 * seq)"
    unfolding header_word_def ab by (simp add: push_bit_eq_mult)
  then have hw: "header_word n seq = word_of_int (int n + 2 ^ 24 * seq)"
    by simp
  have "uint (header_word n seq) = (int n + 2 ^ 24 * seq) mod 2 ^ 32"
    unfolding hw by (simp add: unsigned_of_int take_bit_eq_mod del: of_int_add of_int_mult)
  then have u: "int (unat (header_word n seq)) = (int n + 2 ^ 24 * seq) mod 2 ^ 32"
    by simp
  define h where "h = unat (header_word n seq)"
  have m: "h mod 256 ^ 3 = n"
  proof -
    have "int (h mod 256 ^ 3) = (int n + 2 ^ 24 * seq) mod 2 ^ 32 mod 2 ^ 24"
      using u by (simp add: h_def zmod_int)
    also have "\<dots> = (int n + 2 ^ 24 * seq) mod 2 ^ 24"
      by (rule mod_mod_cancel) simp
    also have "\<dots> = int n"
      using assms by simp
    finally show ?thesis by simp
  qed
  have d: "int (h div 256 ^ 3) = seq mod 256"
  proof -
    have "int (h div 256 ^ 3) = (int n + 2 ^ 24 * seq) mod (2 ^ 24 * 256) div 2 ^ 24"
      using u by (simp add: h_def zdiv_int)
    also have "\<dots> = (int n + 2 ^ 24 * seq) div 2 ^ 24 mod 256"
      by (subst zmod_zmult2_eq) (simp_all only: mult.commute, simp_all)
    also have "(int n + 2 ^ 24 * seq) div 2 ^ 24 = seq"
      using assms by simp
    finally show ?thesis .
  qed
  have "(word_of_nat (h div 256 ^ 3) :: byte) = word_of_int (seq mod 256)"
    by (simp flip: d)
  also have "\<dots> = word_of_int seq"
    by (simp add: word_of_int_eq_iff take_bit_eq_mod)
  finally have "le_bytes 4 h = le_bytes 3 h @ [word_of_int seq]"
    using le_bytes_snoc [of 3 h] by simp
  moreover have "le_bytes 3 h = le_bytes 3 n"
    using le_bytes_mod [of 3 h] m by simp
  ultimately show ?thesis
    by (simp add: header_bytes_def h_def)
qed

section \<open>Packets of a payload\<close>

function packetize :: "int \<Rightarrow> byte list \<Rightarrow> byte list" where
  "packetize seq p =
     (if length p < 0xFFFFFF then header_bytes (length p) seq @ p
      else header_bytes 0xFFFFFF seq @ take 0xFFFFFF p @ packetize (seq + 1) (drop 0xFFFFFF p))"
  by auto
termination
  by (relation "measure (\<lambda>(seq, p). length p)") auto

declare packetize.simps [simp del]

lemma le_nat_header: "n < 2 ^ 24 \<Longrightarrow> le_nat (take 3 (header_bytes n seq @ tail)) = n"
  by (simp add: header_bytes_def le_nat_le_bytes)

text \<open>The reader joins them again: header by header, payload and what is behind it.\<close>

lemma payload_packetize:
  fixes seq tail
  defines "n p \<equiv> min (length p) 0xFFFFFF"
  shows "payload (n p = 0xFFFFFF) (n p) (drop 4 (packetize seq p @ tail)) = p \<and>
    after_payload (n p = 0xFFFFFF) (n p) (drop 4 (packetize seq p @ tail)) = tail \<and>
    complete (n p = 0xFFFFFF) (n p) (drop 4 (packetize seq p @ tail)) \<and>
    le_nat (take 3 (packetize seq p @ tail)) = n p \<and>
    packetize seq p ! 3 = word_of_int seq \<and> 4 \<le> length (packetize seq p)"
proof (induction seq p rule: packetize.induct)
  case (1 seq p)
  show ?case
  proof (cases "length p < 0xFFFFFF")
    case True
    then have e: "packetize seq p = header_bytes (length p) seq @ p" "n p = length p"
      by (simp_all add: packetize.simps [of seq p] n_def)
    then show ?thesis
      using True le_nat_header [of "length p" seq "p @ tail"]
      by (simp add: payload.simps [of False] after_payload.simps [of False] complete_False
          header_bytes_def nth_append)
  next
    case False
    let ?q = "drop 0xFFFFFF p" and ?t = "packetize (seq + 1) (drop 0xFFFFFF p) @ tail"
    have e: "packetize seq p @ tail = header_bytes 0xFFFFFF seq @ take 0xFFFFFF p @ ?t" "n p = 0xFFFFFF"
      using False by (simp_all add: packetize.simps [of seq p] n_def)
    have lt: "length (take 0xFFFFFF p) = 0xFFFFFF"
      using False by simp
    note IH = 1 [OF False]
    have d: "drop 4 (packetize seq p @ tail) = take 0xFFFFFF p @ ?t"
      unfolding e(1) by simp
    have s: "drop (0xFFFFFF + 4) (take 0xFFFFFF p @ ?t) = drop 4 ?t" "drop 0xFFFFFF (take 0xFFFFFF p @ ?t) = ?t"
      "take 0xFFFFFF (take 0xFFFFFF p @ ?t) = take 0xFFFFFF p"
      using lt by simp_all
    have l4: "0xFFFFFF + 4 \<le> length (take 0xFFFFFF p @ ?t)"
      using lt IH by simp
    have "payload True 0xFFFFFF (take 0xFFFFFF p @ ?t) = take 0xFFFFFF p @ ?q"
      by (subst payload.simps) (simp only: s l4 IH if_True Let_def simp_thms)
    moreover have "after_payload True 0xFFFFFF (take 0xFFFFFF p @ ?t) = tail"
      by (subst after_payload.simps) (simp only: s l4 IH if_True Let_def simp_thms)
    moreover have "complete True 0xFFFFFF (take 0xFFFFFF p @ ?t)"
      by (simp only: complete_True s l4 IH simp_thms)
    moreover have "le_nat (take 3 (packetize seq p @ tail)) = 0xFFFFFF"
      unfolding e(1) by (rule le_nat_header) simp
    moreover have "packetize seq p ! 3 = word_of_int seq" "4 \<le> length (packetize seq p)"
      using False by (simp_all add: packetize.simps [of seq p] header_bytes_def nth_append)
    ultimately show ?thesis
      by (simp only: d e(2) simp_thms append_take_drop_id)
  qed
qed


section \<open>What is in the buffer\<close>

text \<open>The packets that wait in the buffer before the current one, and the payload of the current packet.\<close>

definition waiting :: "('c, 'z) reader_scheme \<Rightarrow> byte list" where
  "waiting r = take (r_bufferStart r) (r_buffer r)"

definition body :: "('c, 'z) reader_scheme \<Rightarrow> byte list" where
  "body r = subarray (r_buffer r) (r_bufferStart r + 4) (r_bufferEnd r)"

definition sent :: "'z rw_scheme \<Rightarrow> byte list" where
  "sent r = concat (w_sent r)"

text \<open>A packet is being written, in the ordinary protocol, over a connection that works.\<close>

definition writing :: "'z rw_scheme \<Rightarrow> bool" where
  "writing r \<longleftrightarrow> \<not> is_compressed r \<and> w_fail r = None \<and> r_bufferStart r + 4 \<le> r_bufferEnd r \<and>
     r_bufferEnd r \<le> length (r_buffer r) \<and> filled r \<le> 0xFFFFFF"

lemma length_body: "writing r \<Longrightarrow> length (body r) = filled r"
  by (auto simp: body_def writing_def filled_def arr_simps)

lemma setHeader_in_buffer:
  assumes "writing r" "n < 2 ^ 24"
  obtains b where "setHeader n r = (Inr (), r\<lparr>r_sequenceId := r_sequenceId r + 1, r_buffer := b\<rparr>)"
    "take (r_bufferEnd r) b = waiting r @ header_bytes n (r_sequenceId r) @ body r"
    "length b = length (r_buffer r)"
proof -
  let ?b = "arr_set (r_buffer r) (r_bufferStart r) (header_bytes n (r_sequenceId r))"
  have w: "r_bufferStart r + 4 \<le> r_bufferEnd r" "r_bufferEnd r \<le> length (r_buffer r)"
    using assms by (simp_all add: writing_def)
  then have "4 \<le> r_bufferEnd r - r_bufferStart r" by linarith
  then have "take (r_bufferEnd r) ?b = waiting r @ header_bytes n (r_sequenceId r) @ body r"
    using w by (simp add: arr_set_def waiting_def body_def subarray_def min_def)
  then show thesis
    using w header_word_bytes [OF assms(2), of "r_sequenceId r"]
    by (intro that [of ?b]) (simp_all add: setHeader_def Let_def arr_simps)
qed

lemma sendPackets_plain:
  "\<not> is_compressed r \<Longrightarrow> w_fail r = None \<Longrightarrow>
   sendPackets cz n r = (Inr (), r\<lparr>w_sent := w_sent r @ [take n (r_buffer r)]\<rparr>)"
  by (simp add: sendPackets_def conn_write_def)

lemma sendData_plain:
  "\<not> is_compressed r \<Longrightarrow> w_fail r = None \<Longrightarrow> sendData cz w d r = (Inr (), r\<lparr>w_sent := w_sent r @ [d]\<rparr>)"
  by (simp add: sendData_def conn_write_def)

lemma send_header:
  assumes "writing r" "n < 2 ^ 24"
  obtains r2 where "bindM (setHeader n) (\<lambda>_ r. sendPackets cz (r_bufferEnd r) r) r = (Inr (), r2)"
    "sent r2 = sent r @ waiting r @ header_bytes n (r_sequenceId r) @ body r"
    "r_sequenceId r2 = r_sequenceId r + 1" "length (r_buffer r2) = length (r_buffer r)"
    "r_bufferStart r2 = r_bufferStart r" "r_bufferEnd r2 = r_bufferEnd r" "w_fail r2 = None" "\<not> is_compressed r2"
    "w_commandStarts r2 = w_commandStarts r"
proof -
  obtain b where b: "setHeader n r = (Inr (), r\<lparr>r_sequenceId := r_sequenceId r + 1, r_buffer := b\<rparr>)"
    "take (r_bufferEnd r) b = waiting r @ header_bytes n (r_sequenceId r) @ body r" "length b = length (r_buffer r)"
    using setHeader_in_buffer [OF assms] .
  let ?r = "r\<lparr>r_sequenceId := r_sequenceId r + 1, r_buffer := b\<rparr>"
  show thesis
    using b assms(1)
    by (intro that [of "?r\<lparr>w_sent := w_sent r @ [take (r_bufferEnd r) b]\<rparr>"])
      (simp_all add: bindM_def sendPackets_plain sent_def is_compressed_def writing_def)
qed

section \<open>Bytes\<close>

text \<open>The loop of the full packets: what has been sent, with what remains to be sent, is the stream of packets.\<close>

lemma full_packets_sends:
  "writing r \<Longrightarrow> \<exists>rest r2. full_packets cz data r = (Inr rest, r2) \<and> writing r2 \<and>
     filled r2 + length rest < 0xFFFFFF \<and>
     sent r2 @ waiting r2 @ packetize (r_sequenceId r2) (body r2 @ rest) =
     sent r @ waiting r @ packetize (r_sequenceId r) (body r @ data) \<and>
     length (r_buffer r2) = length (r_buffer r) \<and> w_commandStarts r2 = w_commandStarts r"
proof (induction "filled r + length data" arbitrary: data r rule: less_induct)
  case (less data r)
  show ?case
  proof (cases "0xFFFFFF \<le> filled r + length data")
    case False
    then show ?thesis
      using less(2) by (subst full_packets.simps) simp
  next
    case True
    let ?n = "0xFFFFFF - filled r"
    obtain r2 where r2: "bindM (setHeader 0xFFFFFF) (\<lambda>_ r. sendPackets cz (r_bufferEnd r) r) r = (Inr (), r2)"
      "sent r2 = sent r @ waiting r @ header_bytes 0xFFFFFF (r_sequenceId r) @ body r"
      "r_sequenceId r2 = r_sequenceId r + 1" "length (r_buffer r2) = length (r_buffer r)"
      "r_bufferStart r2 = r_bufferStart r" "r_bufferEnd r2 = r_bufferEnd r" "w_fail r2 = None" "\<not> is_compressed r2"
      "w_commandStarts r2 = w_commandStarts r"
      by (rule send_header [OF less(2), where n = "0xFFFFFF" and cz = cz]) simp_all
    define r3 where "r3 = r2\<lparr>w_sent := w_sent r2 @ [take ?n data], r_bufferStart := 0, r_bufferEnd := 4\<rparr>"
    have step: "full_packets cz data r = full_packets cz (drop ?n data) r3"
      using True r2(1,7,8)
      by (subst full_packets.simps)
        (auto simp: bindM_def sendData_plain r3_def Let_def split: prod.splits sum.splits)
    have w3: "writing r3" and f3: "filled r3 = 0" "waiting r3 = []" "body r3 = []"
      using less(2) r2(4,7,8)
      by (auto simp: r3_def writing_def filled_def is_compressed_def waiting_def body_def)
    have le: "filled r \<le> 0xFFFFFF" "length (body r) = filled r"
      using less(2) length_body by (simp_all add: writing_def)
    have split: "body r @ take ?n data = take 0xFFFFFF (body r @ data)" "drop ?n data = drop 0xFFFFFF (body r @ data)"
      using le by simp_all
    have "filled r3 + length (drop ?n data) < filled r + length data"
      using True le f3 by simp
    then obtain rest r4 where r4: "full_packets cz (drop ?n data) r3 = (Inr rest, r4)" "writing r4"
      "filled r4 + length rest < 0xFFFFFF"
      "sent r4 @ waiting r4 @ packetize (r_sequenceId r4) (body r4 @ rest) =
       sent r3 @ waiting r3 @ packetize (r_sequenceId r3) (body r3 @ drop ?n data)"
      "length (r_buffer r4) = length (r_buffer r3)" "w_commandStarts r4 = w_commandStarts r3"
      using less(1) [OF _ w3] by blast
    have "\<not> length (body r @ data) < 0xFFFFFF"
      using True le by simp
    then have "packetize (r_sequenceId r) (body r @ data) =
        header_bytes 0xFFFFFF (r_sequenceId r) @ (body r @ take ?n data) @ packetize (r_sequenceId r3) (drop ?n data)"
      unfolding split by (subst packetize.simps) (simp add: r3_def r2(3) split)
    moreover have "sent r3 = sent r2 @ take ?n data"
      by (simp add: r3_def sent_def)
    ultimately show ?thesis
      using r4 r2(2,4,9) f3 unfolding step by (simp add: r3_def)
  qed
qed

text \<open>The last packet, without waiting.\<close>

lemma last_packet_sends:
  assumes "writing r" "filled r + length data < 0xFFFFFF"
  obtains r2 where "last_packet cz False data r = (Inr False, r2)"
    "sent r2 = sent r @ waiting r @ header_bytes (filled r + length data) (r_sequenceId r) @ body r @ data"
    "r_sequenceId r2 = r_sequenceId r + 1" "length (r_buffer r2) = length (r_buffer r)"
    "w_commandStarts r2 = w_commandStarts r" "w_fail r2 = None" "\<not> is_compressed r2"
proof (cases "r_bufferStart r + 4 + (filled r + length data) \<le> length (r_buffer r)")
  case True
  let ?r = "r\<lparr>r_buffer := arr_set (r_buffer r) (r_bufferEnd r) data, r_bufferEnd := r_bufferEnd r + length data\<rparr>"
  have w: "r_bufferEnd r + length data \<le> length (r_buffer r)" "r_bufferStart r + 4 \<le> r_bufferEnd r"
    using assms True by (auto simp: writing_def filled_def)
  then have wr: "writing ?r" and same: "waiting ?r = waiting r" "sent ?r = sent r" "body ?r = body r @ data"
    using assms
    by (auto simp: writing_def is_compressed_def arr_simps filled_def waiting_def sent_def body_def
        take_arr_set subarray_arr_set_extend)
  obtain r2 where r2: "bindM (setHeader (filled r + length data)) (\<lambda>_ r. sendPackets cz (r_bufferEnd r) r) ?r = (Inr (), r2)"
    "sent r2 = sent ?r @ waiting ?r @ header_bytes (filled r + length data) (r_sequenceId ?r) @ body ?r"
    "r_sequenceId r2 = r_sequenceId ?r + 1" "length (r_buffer r2) = length (r_buffer ?r)"
    "w_fail r2 = None" "\<not> is_compressed r2" "w_commandStarts r2 = w_commandStarts ?r"
    using send_header [OF wr, of "filled r + length data" cz] assms(2) by auto
  show thesis
    using True r2 w unfolding same
    by (intro that [of r2]) (auto simp: last_packet_def Let_def bindM_def ret_def arr_simps split: prod.splits sum.splits)
next
  case False
  obtain r2 where r2: "bindM (setHeader (filled r + length data)) (\<lambda>_ r. sendPackets cz (r_bufferEnd r) r) r = (Inr (), r2)"
    "sent r2 = sent r @ waiting r @ header_bytes (filled r + length data) (r_sequenceId r) @ body r"
    "r_sequenceId r2 = r_sequenceId r + 1" "length (r_buffer r2) = length (r_buffer r)"
    "w_fail r2 = None" "\<not> is_compressed r2" "w_commandStarts r2 = w_commandStarts r"
    using send_header [OF assms(1), of "filled r + length data" cz] assms(2) by auto
  show thesis
    using False r2
    by (intro that [of "r2\<lparr>w_sent := w_sent r2 @ [data]\<rparr>"])
      (auto simp: last_packet_def Let_def bindM_def ret_def sendData_plain sent_def is_compressed_def
        split: prod.splits sum.splits)
qed

text \<open>\<open>sendWithData()\<close> of bytes: the waiting packets and then the payload as packets.\<close>

lemma send_bytes_sends:
  assumes "writing r"
  obtains r2 where "send_bytes cz False data r = (Inr False, r2)"
    "sent r2 = sent r @ waiting r @ packetize (r_sequenceId r) (body r @ data)"
    "r_bufferStart r2 = 0" "r_bufferEnd r2 = 0" "length (r_buffer r2) = length (r_buffer r)"
proof -
  obtain rest r2 where f: "full_packets cz data r = (Inr rest, r2)" "writing r2"
    "filled r2 + length rest < 0xFFFFFF"
    "sent r2 @ waiting r2 @ packetize (r_sequenceId r2) (body r2 @ rest) =
     sent r @ waiting r @ packetize (r_sequenceId r) (body r @ data)"
    "length (r_buffer r2) = length (r_buffer r)"
    using full_packets_sends [OF assms] by blast
  obtain r3 where l: "last_packet cz False rest r2 = (Inr False, r3)"
    "sent r3 = sent r2 @ waiting r2 @ header_bytes (filled r2 + length rest) (r_sequenceId r2) @ body r2 @ rest"
    "length (r_buffer r3) = length (r_buffer r2)"
    using last_packet_sends [OF f(2,3)] by metis
  have "packetize (r_sequenceId r2) (body r2 @ rest) =
      header_bytes (filled r2 + length rest) (r_sequenceId r2) @ body r2 @ rest"
    using f(3) length_body [OF f(2)] by (subst packetize.simps) simp
  with f l show thesis
    by (intro that [of "r3\<lparr>r_bufferStart := 0, r_bufferEnd := 0\<rparr>"])
      (simp_all add: send_bytes_def bindM_def as_SendWithDataError_def catchM_def ready_for_reader_def sent_def)
qed

text \<open>
  A packet that may wait (\<open>canWait\<close>) and does not fit: its header goes out, its tail is put at the beginning
  of the buffer. But the next \<open>startWritingNewPacket()\<close> finds \<open>bufferEnd == bufferStart\<close> and takes
  the buffer for empty: the tail is never sent, though the header has announced it.
\<close>

lemma deferred_tail_lost:
  assumes "writing r" "filled r + length data < 0xFFFFFF"
    "length (r_buffer r) < r_bufferEnd r + length data"
    "length data + MAX_CAN_WAIT_PACKET_PRELUDE_BYTES \<le> length (r_buffer r)"
  obtains r2 where
    "bindM (send_bytes cz True data) (\<lambda>w. bindM (startWritingNewPacket True) (\<lambda>_. bindM (send cz) (\<lambda>_. ret w))) r = (Inr True, r2)"
    "sent r2 = sent r @ waiting r @ header_bytes (filled r + length data) (r_sequenceId r) @ body r @ header_bytes 0 0"
proof -
  obtain r2 where r2: "bindM (setHeader (filled r + length data)) (\<lambda>_ r. sendPackets cz (r_bufferEnd r) r) r = (Inr (), r2)"
    "sent r2 = sent r @ waiting r @ header_bytes (filled r + length data) (r_sequenceId r) @ body r"
    "r_sequenceId r2 = r_sequenceId r + 1" "length (r_buffer r2) = length (r_buffer r)"
    "w_fail r2 = None" "\<not> is_compressed r2" "w_commandStarts r2 = w_commandStarts r"
    using send_header [OF assms(1), of "filled r + length data" cz] assms(2) by auto
  let ?r3 = "r2\<lparr>r_buffer := arr_set (r_buffer r2) 0 data, r_bufferStart := length data, r_bufferEnd := length data\<rparr>"
  have "\<not> r_bufferStart r + 4 + (filled r + length data) \<le> length (r_buffer r)"
    using assms(1,3) by (auto simp: writing_def filled_def)
  then have "send_bytes cz True data r = (Inr True, ?r3)"
    using r2(1,4,6) assms(2,4)
    by (auto simp: send_bytes_def as_SendWithDataError_def catchM_def full_packets.simps [of cz data r] ready_for_reader_def
        last_packet_def Let_def bindM_def split: prod.splits sum.splits)
  moreover
  let ?r4 = "?r3\<lparr>r_bufferStart := 0, r_bufferEnd := 4, w_commandStarts := [], r_sequenceId := 0\<rparr>"
  have "startWritingNewPacket True ?r3 = (Inr (), ?r4)"
    using r2(6) by (simp add: startWritingNewPacket_def bindM_def modifyM_def is_compressed_def)
  moreover obtain r5 where "send cz ?r4 = (Inr (), r5)" "sent r5 = sent r2 @ header_bytes 0 0"
  proof -
    have w: "writing ?r4"
      using assms(1,4) r2(4,5,6) by (auto simp: writing_def is_compressed_def filled_def arr_simps)
    obtain b where b: "setHeader 0 ?r4 = (Inr (), ?r4\<lparr>r_sequenceId := r_sequenceId ?r4 + 1, r_buffer := b\<rparr>)"
      "take (r_bufferEnd ?r4) b = waiting ?r4 @ header_bytes 0 (r_sequenceId ?r4) @ body ?r4"
      using setHeader_in_buffer [OF w, of 0] by auto
    then show thesis
      using r2(5,6)
      by (intro that [of "?r4\<lparr>r_sequenceId := 1, r_buffer := b, r_bufferStart := 0, r_bufferEnd := 0,
            w_sent := w_sent r2 @ [header_bytes 0 0]\<rparr>"])
        (simp_all add: send_def Let_def bindM_def modifyM_def sendPackets_plain is_compressed_def waiting_def body_def sent_def)
  qed
  ultimately show thesis
    using r2(2) by (intro that [of r5]) (simp_all add: bindM_def)
qed


section \<open>Reading the packets again\<close>

lemma take_header_facts:
  fixes r :: "('c, 'z) reader_scheme" and rest :: "'c \<Rightarrow> byte list"
  assumes b: "r_bufferEnd r \<le> length (r_buffer r)" and h: "4 \<le> haveBytes r" and wf: "buffer_wf ok r"
  defines "n \<equiv> le_nat (take 3 (stream rest r))"
  defines "r2 \<equiv> take_header (subarray (r_buffer r) (r_bufferStart r) (r_bufferStart r + 4)) 0
      (r\<lparr>r_bufferStart := r_bufferStart r + 4\<rparr>)"
  shows "stream rest r2 = drop 4 (stream rest r)" "is_full r2 = (n = 0xFFFFFF)" "lenInCurPacket r2 = int n"
    "buffer_wf ok r2" "r_packetOffset r2 = 0" "r_payloadLength r2 = int n"
    "r_decoder r2 = r_decoder r" "length (r_buffer r2) = length (r_buffer r)" "reader.more r2 = reader.more r"
proof -
  have av: "4 \<le> length (avail r)"
    using h length_avail [OF b] by simp
  have hd: "subarray (r_buffer r) (r_bufferStart r) (r_bufferStart r + 4) = take 4 (stream rest r)"
    using avail_consumed(1) [OF h b] av by (simp add: stream_def)
  have t: "take 3 (take 4 (stream rest r)) = take 3 (stream rest r)"
    by simp
  show "stream rest r2 = drop 4 (stream rest r)"
    using av avail_consumed(2) [OF h b] by (simp add: stream_def r2_def take_header_def avail_def)
  show "is_full r2 = (n = 0xFFFFFF)" "lenInCurPacket r2 = int n" "r_packetOffset r2 = 0" "r_payloadLength r2 = int n"
    unfolding r2_def take_header_def hd t n_def by (simp_all add: is_full_def lenInCurPacket_def)
  show "buffer_wf ok r2"
    using wf h by (auto simp: buffer_wf_def r2_def take_header_def haveBytes_def)
qed (simp_all add: r2_def take_header_def)

context byte_source
begin

lemma first_header:
  fixes r :: "('c, 'z) reader_scheme"
  assumes wf: "buffer_wf ok r" and four: "4 \<le> length (stream rest r)"
    and n: "n = le_nat (take 3 (stream rest r))" "n \<le> 0xFFFFFF"
    and c: "complete (n = 0xFFFFFF) n (drop 4 (stream rest r))"
  shows "\<exists>r2. readHeader rd r = (Inr (), r2) \<and> reader_inv rest ok r2 \<and>
     logical rest r2 = payload (n = 0xFFFFFF) n (drop 4 (stream rest r)) \<and>
     behind rest r2 = after_payload (n = 0xFFFFFF) n (drop 4 (stream rest r)) \<and>
     r_decoder r2 = r_decoder r \<and> length (r_buffer r2) = length (r_buffer r)"
proof -
  have *: "\<exists>r2. readPacketHeader r1 = (Inr True, r2) \<and> reader_inv rest ok r2 \<and>
     logical rest r2 = payload (n = 0xFFFFFF) n (drop 4 (stream rest r)) \<and>
     behind rest r2 = after_payload (n = 0xFFFFFF) n (drop 4 (stream rest r)) \<and>
     r_decoder r2 = r_decoder r1 \<and> length (r_buffer r2) = length (r_buffer r1)"
    if r1: "buffer_wf ok r1" "4 \<le> haveBytes r1" "stream rest r1 = stream rest r" for r1 :: "('c, 'z) reader_scheme"
  proof -
    have b: "r_bufferEnd r1 \<le> length (r_buffer r1)" using r1(1) by (simp add: buffer_wf_def)
    note f = take_header_facts(1,2,3,6) [OF b r1(2,1), where rest = rest, unfolded r1(3)]
      take_header_facts(4,5,7-9) [OF b r1(2,1)]
    show ?thesis
      using r1(2) n c f by (auto simp: readPacketHeader_def reader_inv_def reader_wf_def logical_def behind_def r1(3))
  qed
  show ?thesis
  proof (cases "4 \<le> haveBytes r")
    case True
    from * [OF wf True refl] show ?thesis by (auto simp: readHeader_def)
  next
    case False
    have "4 \<le> length (r_buffer r)"
      using wf by (auto simp: buffer_wf_def BUFFER_LEN_def)
    then obtain r1 where r1: "recvAtLeast rd 4 False r = (Inr True, r1)" "buffer_wf ok r1" "same_packet r r1"
      "stream rest r1 = stream rest r" "4 \<le> haveBytes r1"
      using recvAtLeast_more [OF wf _ four, of False] by blast
    with * [OF r1(2,5,4)] False same_packetD [OF r1(3)] show ?thesis
      by (auto simp: readHeader_def readPacketHeader_def readPacketHeaderAsync_def)
  qed
qed

lemma packets_received:
  fixes r :: "('c, 'z) reader_scheme"
  assumes "buffer_wf ok r" "stream rest r = packetize seq p @ tail"
  shows "\<exists>r2. readHeader rd r = (Inr (), r2) \<and> reader_inv rest ok r2 \<and> logical rest r2 = p \<and> behind rest r2 = tail \<and>
     r_decoder r2 = r_decoder r \<and> length (r_buffer r2) = length (r_buffer r)"
proof -
  let ?n = "min (length p) 0xFFFFFF"
  note p = payload_packetize [where seq = seq and p = p and tail = tail, folded assms(2)]
  have s: "drop 4 (packetize seq p @ tail) = drop 4 (stream rest r)"
    by (simp only: assms(2))
  have "4 \<le> length (stream rest r)"
    using p by (simp only: assms(2) length_append) simp
  from first_header [OF assms(1) this, of ?n] p show ?thesis
    by (simp only: s)
qed

end

end
