(* ===== verification/SerializerSpec.thy ===== *)
theory SerializerSpec
  imports Serializer SendSpec
begin

text \<open>
  A row that is serialized is read back: the bytes that the writer appends for a row of storable values are
  what the reader turns into the same values. The format is given once, as a function from values to bytes.
\<close>

section \<open>The format\<close>

definition int_width :: "nat \<Rightarrow> nat" where
  "int_width typ =
     (if typ = MYSQL_TYPE_TINY then 1 else if typ = MYSQL_TYPE_SHORT \<or> typ = MYSQL_TYPE_YEAR then 2
      else if typ = MYSQL_TYPE_LONGLONG then 8 else 4)"

definition int_in_range :: "column \<Rightarrow> int \<Rightarrow> bool" where
  "int_in_range c n \<longleftrightarrow>
     (if is_unsigned c then 0 \<le> n \<and> n < 256 ^ int_width (c_typeId c)
      else - (256 ^ int_width (c_typeId c)) \<le> 2 * n \<and> 2 * n < 256 ^ int_width (c_typeId c))"

definition is_blob_type :: "nat \<Rightarrow> bool" where
  "is_blob_type typ \<longleftrightarrow> typ \<notin> int_types \<union> date_types \<union>
     {MYSQL_TYPE_FLOAT, MYSQL_TYPE_DOUBLE, MYSQL_TYPE_TIME, MYSQL_TYPE_BIT, MYSQL_TYPE_JSON}"

text \<open>The values that the format can hold exactly, column by column, and the bytes that stand for them.\<close>

definition storable :: "env \<Rightarrow> (byte list \<Rightarrow> jsstr) \<Rightarrow> column \<Rightarrow> js_value \<Rightarrow> bool" where
  "storable e dec c v \<longleftrightarrow>
     (let typ = c_typeId c
      in case v of
           VNull \<Rightarrow> True
         | VNum x \<Rightarrow>
             typ \<in> int_types \<and> (\<exists>n. x = Some (of_int n) \<and> int_in_range c n \<and> \<bar>n\<bar> \<le> MAX_SAFE_INTEGER) \<or>
             typ = MYSQL_TYPE_FLOAT \<and> e_f32_bits e x < 256 ^ 4 \<and> e_f32_value e (e_f32_bits e x) = x \<or>
             typ = MYSQL_TYPE_DOUBLE \<and> e_f64_bits e x < 256 ^ 8 \<and> e_f64_value e (e_f64_bits e x) = x
         | VBigInt n \<Rightarrow> typ = MYSQL_TYPE_LONGLONG \<and> int_in_range c n \<and> MAX_SAFE_INTEGER < \<bar>n\<bar>
         | VBool b \<Rightarrow> typ = MYSQL_TYPE_BIT
         | VStr s \<Rightarrow> is_blob_type typ \<and> \<not> is_binary c \<and> dec (utf8_encode s) = s
         | VBytes bs \<Rightarrow> is_blob_type typ \<and> is_binary c
         | _ \<Rightarrow> False)"

definition value_bytes :: "env \<Rightarrow> column \<Rightarrow> js_value \<Rightarrow> byte list" where
  "value_bytes e c v =
     (let typ = c_typeId c
      in case v of
           VNull \<Rightarrow> []
         | VNum x \<Rightarrow>
             if typ = MYSQL_TYPE_FLOAT then le_bytes 4 (e_f32_bits e x)
             else if typ = MYSQL_TYPE_DOUBLE then le_bytes 8 (e_f64_bits e x)
             else le_bytes_int (int_width typ) (to_integer x)
         | VBigInt n \<Rightarrow> le_bytes_int 8 n
         | VBool b \<Rightarrow> [1, if b then 1 else 0]
         | _ \<Rightarrow> lenenc_bytes (length (blob_of v)) @ blob_of v)"

fun mask_bytes :: "byte \<Rightarrow> nat \<Rightarrow> js_value list \<Rightarrow> byte list" where
  "mask_bytes m k [] = (if k \<noteq> 0 then [m] else [])"
| "mask_bytes m k (v # vs) =
     (let m = (if v = VNull then m OR push_bit k 1 else m)
      in if k = 7 then m # mask_bytes 0 0 vs else mask_bytes m (Suc k) vs)"

definition row_bytes :: "env \<Rightarrow> column list \<Rightarrow> js_value list \<Rightarrow> byte list" where
  "row_bytes e cs vs = mask_bytes 0 2 vs @ concat (map (\<lambda>(c, v). value_bytes e c v) (zip cs vs))"

lemma length_mask_bytes: "k < 8 \<Longrightarrow> length (mask_bytes m k vs) = (length vs + k + 7) div 8"
  by (induction m k vs rule: mask_bytes.induct) (auto simp: Let_def)

section \<open>The null bits\<close>

lemma bit_flag: "bit (push_bit k 1 :: byte) j \<longleftrightarrow> j = k \<and> k < 8"
  by (auto simp: bit_push_bit_iff bit_1_iff simp del: push_bit_of_1)

lemma mask_head_keeps:
  "j < k \<Longrightarrow> k < 8 \<Longrightarrow> mask_bytes m k vs \<noteq> [] \<and> bit (hd (mask_bytes m k vs)) j = bit m j"
proof (induction m k vs rule: mask_bytes.induct)
  case (2 m k v vs)
  then show ?case
    by (cases "k = 7"; cases "v = VNull") (auto simp: Let_def bit_or_iff bit_flag simp del: push_bit_of_1)
qed auto

lemma mask_head:
  assumes "k < 8" "\<And>j. k \<le> j \<Longrightarrow> \<not> bit m j"
  shows "mask_bytes m k (v # vs) \<noteq> [] \<and> bit (hd (mask_bytes m k (v # vs))) k = (v = VNull)"
proof -
  let ?m = "if v = VNull then m OR push_bit k 1 else m"
  have b: "bit ?m k = (v = VNull)"
    using assms by (simp add: bit_or_iff bit_flag del: push_bit_of_1)
  show ?thesis
  proof (cases "k = 7")
    case True
    then have "mask_bytes m k (v # vs) = ?m # mask_bytes 0 0 vs" by (simp add: Let_def del: push_bit_of_1)
    then show ?thesis using b by (simp del: mask_bytes.simps push_bit_of_1)
  next
    case False
    then show ?thesis
      using b mask_head_keeps [of k "Suc k" ?m vs] assms(1) by (simp add: Let_def del: push_bit_of_1)
  qed
qed

lemma null_mask_loop_eq:
  "k < 8 \<Longrightarrow> null_mask_loop m (push_bit k 1) vs r = foldl (\<lambda>r b. write_element b r) r (mask_bytes m k vs)"
proof (induction m k vs arbitrary: r rule: mask_bytes.induct)
  case (1 m k)
  have "push_bit k (1 :: byte) \<noteq> 1" if "k \<noteq> 0"
    using that 1 bit_flag [of k k] by (auto simp: bit_1_iff simp del: push_bit_of_1)
  then show ?case by auto
next
  case (2 m k v vs)
  show ?case
  proof (cases "k = 7")
    case True
    then show ?thesis using 2(1) [OF refl True] by (simp add: Let_def push_bit_eq_mult)
  next
    case False
    have "push_bit k (1 :: byte) \<noteq> 0x80"
      using bit_flag [of k 7] False by (auto simp del: push_bit_of_1)
    then show ?thesis
      using 2(2) [OF refl False] 2(3) False by (simp add: Let_def push_bit_push_bit del: push_bit_of_1)
  qed
qed


section \<open>Reading a value\<close>

text \<open>Options under which every column is read into a value of its own type.\<close>

definition plain_options :: "read_options \<Rightarrow> bool" where
  "plain_options p \<longleftrightarrow> o_rowType p \<in> {ROW_OBJECT, ROW_MAP, ROW_ARRAY} \<and> \<not> o_isForSerialize p"

lemma bindL_total_of: "bindL (total_of m) (\<lambda>a. total_of (f a)) = total_of (bindM m f)"
  by (auto simp: fun_eq_iff bindL_def bindM_def split: sum.splits prod.splits)

lemma takesL_total: "takes rest ok m r n v \<Longrightarrow> takesL rest ok (total_of m) r n v"
  by (auto simp: takes_def takesL_def)

lemma takesL_bind:
  assumes "takesL rest ok m r n a"
    and "\<And>r'. reader_inv rest ok r' \<Longrightarrow> logical rest r' = drop n (logical rest r) \<Longrightarrow>
      r_decoder r' = r_decoder r \<Longrightarrow> length (r_buffer r') = length (r_buffer r) \<Longrightarrow> takesL rest ok (f a) r' k v"
  shows "takesL rest ok (bindL m f) r (n + k) v"
proof -
  obtain r1 where r1: "m r = Some (Inr a, r1)" "reader_inv rest ok r1" "logical rest r1 = drop n (logical rest r)"
    "behind rest r1 = behind rest r" "r_decoder r1 = r_decoder r" "reader.more r1 = reader.more r"
    "length (r_buffer r1) = length (r_buffer r)"
    using assms(1) by (auto simp: takesL_def)
  with assms(2) [of r1] show ?thesis
    by (auto simp: takesL_def add.commute)
qed

lemma takes_map:
  "takes rest ok m r n a \<Longrightarrow> f a = b \<Longrightarrow> takes rest ok (bindM m (\<lambda>x. ret (f x))) r n b"
  by (auto intro: takes_bind_pure)

lemma takesL_map:
  "takesL rest ok m r n a \<Longrightarrow> f a = b \<Longrightarrow> takesL rest ok (bindL m (\<lambda>x. total_of (ret (f x)))) r n b"
  by (auto simp: takesL_def)

context byte_source
begin

lemma fixed_front:
  assumes "reader_inv rest ok r" "logical rest r = bs @ ts" "length bs \<le> 9" "n = length bs"
  shows "takes rest ok (or_await (readFixed n get) (readFixedAsync rd n get)) r (length bs) (get bs)"
  using fixed_takes [OF assms(1), of n get] assms by simp

lemma lenenc_front:
  assumes "reader_inv rest ok r" "logical rest r = lenenc_bytes v @ ts" "v < 2 ^ 64"
  shows "takes rest ok (or_await readLenencInt (readLenencIntAsync rd)) r (length (lenenc_bytes v)) (int v)"
proof -
  have "lenenc_bytes v \<noteq> []" by (auto simp: lenenc_bytes_def)
  moreover have "lenenc_size (hd (lenenc_bytes v)) = length (lenenc_bytes v)" "lenenc_value (lenenc_bytes v) = int v"
    using lenenc_roundtrip [OF assms(3)] lenenc_bytes_size by auto
  ultimately show ?thesis
    using lenenc_takes [OF assms(1)] assms(2) by simp
qed

lemma bytes_front:
  assumes "reader_inv rest ok r" "logical rest r = bs @ ts" "length bs \<le> 0xFFFFFF"
    "length bs + 4 \<le> length (r_buffer r)"
  shows "takes rest ok (or_await (readShortBytes (length bs)) (readShortBytesAsync rd (length bs))) r (length bs) bs"
  using short_bytes_inside [OF assms(1,4)] short_bytes_across [OF assms(1,4)] assms
  by (cases "int (length bs) \<le> lenInCurPacket r") (simp_all add: not_le)

text \<open>One column: the bytes of a storable value give the value.\<close>

lemma int_front:
  assumes inv: "reader_inv rest ok r" and l: "logical rest r = le_bytes_int n v @ ts" and n: "n \<le> 8"
  shows "0 \<le> v \<Longrightarrow> v < 256 ^ n \<Longrightarrow>
      takes rest ok (or_await (readFixed n get_uint) (readFixedAsync rd n get_uint)) r n v"
    and "- (256 ^ n) \<le> 2 * v \<Longrightarrow> 2 * v < 256 ^ n \<Longrightarrow>
      takes rest ok (or_await (readFixed n le_int) (readFixedAsync rd n le_int)) r n v"
  using fixed_front [OF inv l, of n get_uint] fixed_front [OF inv l, of n le_int] n
  by (simp_all add: get_uint_def le_simps)

lemmas fixed_defs =
  readUint8_def readUint8Async_def readInt8_def readInt8Async_def readUint16_def readUint16Async_def
  readInt16_def readInt16Async_def readUint32_def readUint32Async_def readInt32_def readInt32Async_def
  readUint64_def readUint64Async_def readInt64_def readInt64Async_def rd_u8_def rd_u16_def rd_u32_def
  readFloat_def readFloatAsync_def readDouble_def readDoubleAsync_def

lemma read_int_front:
  assumes inv: "reader_inv rest ok r" and l: "logical rest r = le_bytes_int (int_width (c_typeId c)) n @ ts"
    and t: "c_typeId c \<in> int_types - {MYSQL_TYPE_LONGLONG}" and n: "int_in_range c n"
  shows "takes rest ok (read_int rd c) r (int_width (c_typeId c)) (VNum (Some (of_int n)))"
proof -
  have "int_width (c_typeId c) \<le> 8" by (simp add: int_width_def)
  note f = int_front [OF inv l this]
  show ?thesis
    unfolding read_int_def Let_def
    using n f t
    by (intro takes_map [where a = n]) (auto simp: int_in_range_def int_width_def fixed_defs int_types_def split: if_splits)
qed

lemma read_longlong_front:
  assumes inv: "reader_inv rest ok r" and l: "logical rest r = le_bytes_int 8 n @ ts"
    and t: "c_typeId c = MYSQL_TYPE_LONGLONG" and n: "int_in_range c n"
  shows "takes rest ok (read_longlong rd c) r 8 (safe_bigint n)"
  unfolding read_longlong_def
  using n t int_front [OF inv l]
  by (intro takes_map [where a = n]) (auto simp: int_in_range_def int_width_def fixed_defs split: if_splits)

lemma read_bit_front:
  assumes inv: "reader_inv rest ok r" and l: "logical rest r = [1, b] @ ts"
  shows "takes rest ok (read_bit rd) r 2 (VBool (b \<noteq> 0))"
proof -
  have "takes rest ok (or_await readLenencInt (readLenencIntAsync rd)) r 1 1"
    using lenenc_front [OF inv, of 1 "b # ts"] l by (simp add: lenenc_bytes_def)
  then have "takes rest ok (rd_len rd) r 1 1"
    unfolding rd_len_def by (rule takes_bind_pure) (simp add: MAX_SAFE_INTEGER_def)
  then have "takes rest ok (read_bit rd) r (1 + 1) (VBool (b \<noteq> 0))"
    unfolding read_bit_def
  proof (rule takes_bind)
    fix r' assume r': "reader_inv rest ok r'" "logical rest r' = drop 1 (logical rest r)"
      "length (r_buffer r') = length (r_buffer r)"
    then have "BUFFER_LEN \<le> length (r_buffer r')"
      by (simp add: reader_inv_def reader_wf_def buffer_wf_def)
    then have "takes rest ok (rd_bytes rd 1) r' 1 [b]"
      using bytes_front [OF r'(1), of "[b]" ts] r' l by (simp add: rd_bytes_def takes_def BUFFER_LEN_def)
    then show "takes rest ok (bindM (rd_bytes rd 1) (\<lambda>bytes. ret (VBool (list_ex (\<lambda>b. b \<noteq> 0) bytes)))) r' 1
        (VBool (b \<noteq> 0))"
      by (rule takes_map) simp
  qed
  then show ?thesis by (simp only: one_add_one)
qed

lemma read_blob_front:
  assumes inv: "reader_inv rest ok r" and l: "logical rest r = lenenc_bytes (length bs) @ bs @ ts"
    and bs: "length bs \<le> 0xFFFFFF" "int (length bs) \<le> o_maxColumnLen p" and p: "plain_options p"
    and c: "c_typeId c \<noteq> MYSQL_TYPE_JSON"
  shows "takesL rest ok (read_blob_column e rd p isLast c) r (length (lenenc_bytes (length bs)) + length bs)
      (if is_binary c then VBytes bs else VStr (r_decoder r bs), None)"
proof -
  have "takes rest ok (or_await readLenencInt (readLenencIntAsync rd)) r (length (lenenc_bytes (length bs)))
      (int (length bs))"
    using lenenc_front [OF inv l] bs(1) by simp
  then have "takes rest ok (rd_len rd) r (length (lenenc_bytes (length bs))) (int (length bs))"
    unfolding rd_len_def by (rule takes_bind_pure) (use bs in \<open>simp add: MAX_SAFE_INTEGER_def\<close>)
  then show ?thesis
    unfolding read_blob_column_def
  proof (rule takesL_bind [OF takesL_total])
    fix r1 assume r1: "reader_inv rest ok r1" "logical rest r1 = drop (length (lenenc_bytes (length bs))) (logical rest r)"
      "r_decoder r1 = r_decoder r"
    then have l1: "logical rest r1 = bs @ ts"
      using l by simp
    have no: "\<not> (is_last_reader p \<and> isLast)" "\<not> (o_maxColumnLen p < int (length bs) \<or> o_rowType p = ROW_VOID)"
      "\<not> o_isForSerialize p"
      using p bs by (auto simp: plain_options_def is_last_reader_def)
    have blob: "takesL rest ok (rd_blob rd (int (length bs))) r1 (length bs) bs"
      using readBytesToBuffer_takes [OF r1(1), of "length bs"] l1 by (simp add: rd_blob_def)
    have chars: "takesL rest ok (rd_text rd (int (length bs))) r1 (length bs) (r_decoder r1 bs)"
    proof (cases "int (length bs) \<le> int (length (r_buffer r1)) - 4")
      case True
      have "takes rest ok (rd_bytes rd (int (length bs))) r1 (length bs) bs"
        using bytes_front [OF r1(1) l1 bs(1)] True by (simp add: rd_bytes_def takes_def)
      then show ?thesis
        using True by (auto simp: takes_def takesL_def rd_text_def decode_with_def)
    next
      case False
      then show ?thesis
        using blob by (auto simp: takesL_def rd_text_def)
    qed
    show "takesL rest ok
       (if is_last_reader p \<and> isLast then total_of (ret (VNull, Some (int (length bs))))
        else if o_maxColumnLen p < int (length bs) \<or> o_rowType p = ROW_VOID then
          bindL (skipBytes rd (int (length bs))) (\<lambda>_. total_of (ret (VNull, None)))
        else if is_binary c \<or> o_isForSerialize p then
          bindL (rd_blob rd (int (length bs))) (\<lambda>bs. total_of (ret (VBytes bs, None)))
        else bindL (rd_text rd (int (length bs))) (\<lambda>s.
            if c_typeId c = MYSQL_TYPE_JSON \<and> \<not> o_jsonAsString p then
              (case h_json_parse e s of Inl err \<Rightarrow> total_of (throw err) | Inr j \<Rightarrow> total_of (ret (VJson j, None)))
            else total_of (ret (VStr s, None)))) r1 (length bs)
       (if is_binary c then VBytes bs else VStr (r_decoder r bs), None)"
      using c r1(3) by (auto simp: no intro: takesL_map [OF blob] takesL_map [OF chars])
  qed
qed

lemma read_column_front:
  assumes inv: "reader_inv rest ok r" and l: "logical rest r = value_bytes e c v @ ts"
    and v: "storable e (r_decoder r) c v" "v \<noteq> VNull"
    and len: "length (value_bytes e c v) \<le> 0xFFFFFF" "int (length (value_bytes e c v)) \<le> o_maxColumnLen p"
    and p: "plain_options p"
  shows "takesL rest ok (read_column e rd p tz isLast c) r (length (value_bytes e c v)) (v, None)"
proof -
  have simple: "takesL rest ok (total_of (bindM m (\<lambda>v. ret (v, None)))) r n (v, None :: int option)"
    if "takes rest ok m r n v" for m n
    using that by (intro takesL_total takes_map) simp_all
  have types: "c_typeId c \<notin> int_types" "c_typeId c \<notin> date_types" "c_typeId c \<noteq> MYSQL_TYPE_LONGLONG"
      "c_typeId c \<noteq> MYSQL_TYPE_FLOAT" "c_typeId c \<noteq> MYSQL_TYPE_DOUBLE" "c_typeId c \<noteq> MYSQL_TYPE_TIME"
      "c_typeId c \<noteq> MYSQL_TYPE_BIT" "c_typeId c \<noteq> MYSQL_TYPE_JSON" if "is_blob_type (c_typeId c)"
    using that by (auto simp: is_blob_type_def int_types_def)
  have blob: "takesL rest ok (read_column e rd p tz isLast c) r (length (lenenc_bytes (length bs)) + length bs) (v, None)"
    if "is_blob_type (c_typeId c)" "logical rest r = lenenc_bytes (length bs) @ bs @ ts" "length bs \<le> 0xFFFFFF"
      "int (length bs) \<le> o_maxColumnLen p" "(if is_binary c then VBytes bs else VStr (r_decoder r bs)) = v" for bs
    using read_blob_front [OF inv that(2-4) p, of c e isLast] that(5) types [OF that(1)]
    by (simp add: read_column_def Let_def)
  show ?thesis
  proof (cases v)
    case (VBool b)
    then have t: "c_typeId c = MYSQL_TYPE_BIT" "value_bytes e c v = [1, if b then 1 else 0]"
      using v by (simp_all add: storable_def value_bytes_def)
    then have "takes rest ok (read_bit rd) r 2 v"
      using read_bit_front [OF inv, of "if b then 1 else 0" ts] l VBool by (cases b) simp_all
    then show ?thesis
      using simple t by (simp add: read_column_def int_types_def date_types_def type_ids numeral_2_eq_2)
  next
    case (VBigInt n)
    then have t: "c_typeId c = MYSQL_TYPE_LONGLONG" "value_bytes e c v = le_bytes_int 8 n" "int_in_range c n"
      "safe_bigint n = v"
      using v by (simp_all add: storable_def value_bytes_def safe_bigint_def)
    then have "takes rest ok (read_longlong rd c) r 8 v"
      using read_longlong_front [OF inv, of n ts c] l by simp
    then show ?thesis
      using simple t by (simp add: read_column_def Let_def)
  next
    case (VStr s)
    then show ?thesis
      using blob [of "utf8_encode s"] v l len by (simp add: storable_def value_bytes_def blob_of_def)
  next
    case (VBytes bs)
    then show ?thesis
      using blob [of bs] v l len by (simp add: storable_def value_bytes_def blob_of_def)
  next
    case (VNum x)
    then consider (i) n where "c_typeId c \<in> int_types" "x = Some (of_int n)" "int_in_range c n" "\<bar>n\<bar> \<le> MAX_SAFE_INTEGER"
      | (f) "c_typeId c = MYSQL_TYPE_FLOAT" "e_f32_bits e x < 256 ^ 4" "e_f32_value e (e_f32_bits e x) = x"
      | (d) "c_typeId c = MYSQL_TYPE_DOUBLE" "e_f64_bits e x < 256 ^ 8" "e_f64_value e (e_f64_bits e x) = x"
      using v by (auto simp: storable_def Let_def)
    then show ?thesis
    proof cases
      case i
      have vb: "value_bytes e c v = le_bytes_int (int_width (c_typeId c)) n"
        using i(1) by (auto simp: value_bytes_def VNum i(2) int_types_def type_ids to_integer_def)
      show ?thesis
      proof (cases "c_typeId c = MYSQL_TYPE_LONGLONG")
        case True
        have "safe_bigint n = v" using i by (simp add: safe_bigint_def VNum)
        then have "takes rest ok (read_longlong rd c) r 8 v"
          using read_longlong_front [OF inv _ True i(3), of ts] l True vb by (simp add: int_width_def type_ids)
        then show ?thesis
          using simple True vb by (simp add: read_column_def Let_def int_width_def type_ids)
      next
        case False
        then have "takes rest ok (read_int rd c) r (int_width (c_typeId c)) v"
          using read_int_front [OF inv _ _ i(3), of ts] i l vb by (simp add: VNum)
        then show ?thesis
          using simple False i vb by (simp add: read_column_def Let_def)
      qed
    next
      case f
      have vb: "value_bytes e c v = le_bytes 4 (e_f32_bits e x)"
        by (simp add: value_bytes_def VNum f(1))
      then have "takes rest ok (or_await readFloat (readFloatAsync rd)) r 4 (e_f32_bits e x)"
        using fixed_front [OF inv, of "le_bytes 4 (e_f32_bits e x)" ts 4 le_nat] l f(2)
        by (simp add: fixed_defs le_simps)
      from takes_map [OF this, of "\<lambda>x. VNum (e_f32_value e x)" v] show ?thesis
        using simple vb f by (simp add: read_column_def VNum int_types_def type_ids)
    next
      case d
      have vb: "value_bytes e c v = le_bytes 8 (e_f64_bits e x)"
        by (simp add: value_bytes_def VNum d(1) type_ids)
      then have "takes rest ok (or_await readDouble (readDoubleAsync rd)) r 8 (e_f64_bits e x)"
        using fixed_front [OF inv, of "le_bytes 8 (e_f64_bits e x)" ts 8 le_nat] l d(2)
        by (simp add: fixed_defs le_simps)
      from takes_map [OF this, of "\<lambda>x. VNum (e_f64_value e x)" v] show ?thesis
        using simple vb d by (simp add: read_column_def VNum int_types_def type_ids)
    qed
  qed (use v in \<open>auto simp: storable_def\<close>)
qed

end

text \<open>The loop over the columns follows the null bits.\<close>

definition values_bytes :: "env \<Rightarrow> column list \<Rightarrow> js_value list \<Rightarrow> byte list" where
  "values_bytes e cs vs = concat (map (\<lambda>(c, v). value_bytes e c v) (zip cs vs))"

lemma values_bytes_simps [simp]:
  "values_bytes e [] vs = []"
  "values_bytes e (c # cs) (v # vs) = value_bytes e c v @ values_bytes e cs vs"
  by (simp_all add: values_bytes_def)

fun put_values :: "row_type \<Rightarrow> nat \<Rightarrow> column list \<Rightarrow> js_value list \<Rightarrow> row \<Rightarrow> row" where
  "put_values t i (c # cs) (v # vs) row = put_values t (Suc i) cs vs (put_value t i (c_name c) v row)"
| "put_values t i cs vs row = row"

lemma value_bytes_VNull [simp]: "value_bytes e c VNull = []"
  by (simp add: value_bytes_def)

context byte_source
begin

lemma binary_columns_front:
  fixes r :: "('c, 'z) reader_scheme"
  assumes "list_all2 (storable e (r_decoder r)) cs vs"
    and "reader_inv rest ok r" "logical rest r = values_bytes e cs vs @ ts"
    and "k < 8" "\<And>j. k \<le> j \<Longrightarrow> \<not> bit m j"
    and "length (values_bytes e cs vs) \<le> 0xFFFFFF" "int (length (values_bytes e cs vs)) \<le> o_maxColumnLen p"
    and "plain_options p"
  shows "takesL rest ok (binary_columns e rd p tz (mask_bytes m k vs) (push_bit k 1) i row x cs) r
      (length (values_bytes e cs vs)) (put_values (o_rowType p) i cs vs row, x)"
  using assms
proof (induction cs arbitrary: vs r k m i row)
  case Nil
  then have "takesL rest ok (total_of (ret (row, x))) r 0 (row, x)"
    by (intro takesL_total takes_ret) simp
  with Nil show ?case by (simp add: takesL_def)
next
  case (Cons c cs)
  obtain v vs' where vs: "vs = v # vs'" "storable e (r_decoder r) c v" "list_all2 (storable e (r_decoder r)) cs vs'"
    using Cons.prems(1) by (auto simp: list_all2_Cons1)
  let ?nb = "mask_bytes m k vs"
  define m' where "m' = (if v = VNull then m OR push_bit k 1 else m)"
  obtain b bs where nb: "?nb = b # bs"
    using mask_head [OF Cons.prems(4,5), of v vs'] vs by (cases ?nb) auto
  have isNull: "(case ?nb of b # _ \<Rightarrow> b | [] \<Rightarrow> 0) AND push_bit k 1 \<noteq> 0 \<longleftrightarrow> v = VNull"
    using mask_head [OF Cons.prems(4,5), of v vs'] vs nb by (simp add: bit_iff_and_push_bit_not_eq_0)
  define k' where "k' = (if k = 7 then 0 else Suc k)"
  define m2 where "m2 = (if k = 7 then 0 else m')"
  have nxt: "(if push_bit k (1 :: byte) \<noteq> 0x80 then (?nb, push_bit 1 (push_bit k 1)) else (tl ?nb, 1)) =
      (mask_bytes m2 k' vs', push_bit k' 1)"
  proof (cases "k = 7")
    case True
    then show ?thesis using vs by (simp add: k'_def m2_def m'_def Let_def)
  next
    case False
    then have "push_bit k (1 :: byte) \<noteq> 0x80"
      using bit_flag [of k 7] by (auto simp del: push_bit_of_1)
    then show ?thesis
      using False vs by (simp add: k'_def m2_def m'_def Let_def push_bit_push_bit del: push_bit_of_1)
  qed
  have "k' < 8" using Cons.prems(4) by (auto simp: k'_def)
  moreover have "\<not> bit m2 j" if "k' \<le> j" for j
    using Cons.prems(4,5) that
    by (auto simp: k'_def m2_def m'_def bit_or_iff bit_flag simp del: push_bit_of_1 split: if_splits)
  ultimately have k2: "k' < 8" "\<And>j. k' \<le> j \<Longrightarrow> \<not> bit m2 j" by blast+
  have run: "binary_columns e rd p tz ?nb (push_bit k 1) i row x (c # cs) =
      bindL (if v = VNull then total_of (ret (VNull, None)) else read_column e rd p tz (cs = []) c) (\<lambda>(v, len).
        binary_columns e rd p tz (mask_bytes m2 k' vs') (push_bit k' 1) (Suc i) (put_value (o_rowType p) i (c_name c) v row)
          (case len of Some n \<Rightarrow> n | None \<Rightarrow> x) cs)"
    unfolding binary_columns.simps Let_def nxt isNull prod.case ..
  have "takesL rest ok (if v = VNull then total_of (ret (VNull, None)) else read_column e rd p tz (cs = []) c) r
      (length (value_bytes e c v)) (v, None)"
  proof (cases "v = VNull")
    case True
    then show ?thesis
      using takesL_total [OF takes_ret [OF Cons.prems(2), of "(VNull, None)"]] by simp
  next
    case False
    then show ?thesis
      using read_column_front [OF Cons.prems(2) _ vs(2) False, of "values_bytes e cs vs' @ ts" p] Cons.prems vs
      by simp
  qed
  then have "takesL rest ok (binary_columns e rd p tz ?nb (push_bit k 1) i row x (c # cs)) r
      (length (value_bytes e c v) + length (values_bytes e cs vs'))
      (put_values (o_rowType p) (Suc i) cs vs' (put_value (o_rowType p) i (c_name c) v row), x)"
    unfolding run
  proof (rule takesL_bind)
    fix r' :: "('c, 'z) reader_scheme"
    assume "reader_inv rest ok r'" "logical rest r' = drop (length (value_bytes e c v)) (logical rest r)"
      "r_decoder r' = r_decoder r"
    then show "takesL rest ok (case (v, None) of (v, len) \<Rightarrow>
        binary_columns e rd p tz (mask_bytes m2 k' vs') (push_bit k' 1) (Suc i) (put_value (o_rowType p) i (c_name c) v row)
          (case len of Some n \<Rightarrow> n | None \<Rightarrow> x) cs) r' (length (values_bytes e cs vs'))
        (put_values (o_rowType p) (Suc i) cs vs' (put_value (o_rowType p) i (c_name c) v row), x)"
      using Cons.IH [of r' vs' k' m2 "Suc i"] Cons.prems vs k2 by simp
  qed
  then show ?case using vs by simp
qed

text \<open>\<open>deserializeRow()\<close> of the binary format: the row, and exactly its bytes.\<close>

theorem deserializeRowBinary_front:
  assumes "list_all2 (storable e (r_decoder r)) cs vs"
    and "reader_inv rest ok r" "logical rest r = row_bytes e cs vs @ ts"
    and "length (row_bytes e cs vs) \<le> 0xFFFFFF" "int (length (row_bytes e cs vs)) \<le> o_maxColumnLen p"
    and "plain_options p" "length cs \<le> 0x8000"
  shows "takesL rest ok (deserializeRowBinary e rd p tz cs) r (length (row_bytes e cs vs))
      (put_values (o_rowType p) 0 cs vs (empty_row (o_rowType p)), 0)"
proof -
  have n: "length cs = length vs" by (rule list_all2_lengthD [OF assms(1)])
  have m: "length (mask_bytes 0 2 vs) = (length cs + 2 + 7) div 8"
    using length_mask_bytes [of 2 0 vs] n by simp
  have r: "row_bytes e cs vs = mask_bytes 0 2 vs @ values_bytes e cs vs"
    by (simp add: row_bytes_def values_bytes_def)
  have "BUFFER_LEN \<le> length (r_buffer r)"
    using assms(2) by (simp add: reader_inv_def reader_wf_def buffer_wf_def)
  then have "length (mask_bytes 0 2 vs) + 4 \<le> length (r_buffer r)"
    using m assms(7) by (simp add: BUFFER_LEN_def)
  then have "takes rest ok (or_await (readShortBytes (length (mask_bytes 0 2 vs)))
      (readShortBytesAsync rd (length (mask_bytes 0 2 vs)))) r (length (mask_bytes 0 2 vs)) (mask_bytes 0 2 vs)"
    using bytes_front [OF assms(2), of "mask_bytes 0 2 vs" "values_bytes e cs vs @ ts"] assms(3,4) r by simp
  from takesL_total [OF this] have
    "takesL rest ok (deserializeRowBinary e rd p tz cs) r (length (mask_bytes 0 2 vs) + length (values_bytes e cs vs))
      (put_values (o_rowType p) 0 cs vs (empty_row (o_rowType p)), 0)"
    unfolding deserializeRowBinary_def Let_def m
  proof (rule takesL_bind)
    fix r' assume "reader_inv rest ok r'" "logical rest r' = drop ((length cs + 2 + 7) div 8) (logical rest r)"
      "r_decoder r' = r_decoder r"
    then show "takesL rest ok (binary_columns e rd p tz (mask_bytes 0 2 vs) 4 0 (empty_row (o_rowType p)) 0 cs) r'
        (length (values_bytes e cs vs)) (put_values (o_rowType p) 0 cs vs (empty_row (o_rowType p)), 0)"
      using binary_columns_front [of e r' cs vs ts 2 0 p tz 0 "empty_row (o_rowType p)" 0] assms r m by simp
  qed
  then show ?thesis by (simp add: r)
qed

end

section \<open>Writing a row\<close>

lemma appends_nothing: "appends (ret ()) r []"
  by (simp add: appends_def subarray_def exI [of _ "r_buffer r"])

lemma write_elements_append:
  "r_bufferEnd r + length bs \<le> length (r_buffer r) \<Longrightarrow> appends (modifyM (\<lambda>r. foldl (\<lambda>r b. write_element b r) r bs)) r bs"
proof (induction bs arbitrary: r)
  case Nil
  then show ?case using appends_nothing [of r] by (simp add: appends_def)
next
  case (Cons b bs)
  have "modifyM (\<lambda>r. foldl (\<lambda>r b. write_element b r) r (b # bs)) r =
      bindM (modifyM (write_element b)) (\<lambda>_. modifyM (\<lambda>r. foldl (\<lambda>r b. write_element b r) r bs)) r"
    by simp
  moreover have "appends (bindM (modifyM (write_element b)) (\<lambda>_. modifyM (\<lambda>r. foldl (\<lambda>r b. write_element b r) r bs))) r
      ([b] @ bs)"
    by (rule appends_bind) (use Cons.prems in \<open>auto intro!: write_element_appends Cons.IH\<close>)
  ultimately show ?case by (simp add: appends_def)
qed

lemma null_mask_appends:
  fixes r :: "('c, 'z) reader_scheme"
  assumes "r_bufferEnd r + length (mask_bytes 0 2 vs) \<le> length (r_buffer r)"
  shows "appends (modifyM (null_mask_loop 0 4 vs)) r (mask_bytes 0 2 vs)"
proof -
  have "null_mask_loop 0 4 vs = (\<lambda>r :: ('c, 'z) reader_scheme. foldl (\<lambda>r b. write_element b r) r (mask_bytes 0 2 vs))"
  proof
    show "null_mask_loop 0 4 vs r = foldl (\<lambda>r b. write_element b r) r (mask_bytes 0 2 vs)"
      for r :: "('c, 'z) reader_scheme"
      using null_mask_loop_eq [of 2 0 vs r] by simp
  qed
  with write_elements_append [OF assms] show ?thesis by (simp only:)
qed

lemma le_bytes_int_1: "le_bytes_int 1 v = [word_of_int v]"
proof -
  have "(word_of_nat (nat (v mod 256)) :: byte) = word_of_int (v mod 256)"
    by (simp add: word_of_nat_eq_iff word_of_int_eq_iff flip: of_nat_nat)
  also have "\<dots> = word_of_int v"
    by (simp add: word_of_int_eq_iff take_bit_eq_mod)
  finally show ?thesis
    by (simp add: le_bytes_int_def)
qed

lemma write_int_appends:
  assumes "r_bufferEnd r + n \<le> length (r_buffer r)"
  shows "n = 1 \<Longrightarrow> appends (writeUint8 v) r (le_bytes_int n v)"
    "appends (write_bytes (le_bytes_int n v)) r (le_bytes_int n v)"
  using assms write_element_appends [of r] write_bytes_appends [of r "le_bytes_int n v"]
  by (auto simp: writeUint8_def le_bytes_int_1 simp del: One_nat_def)

lemma write_column_appends:
  fixes r :: "'z rw_scheme"
  assumes v: "storable e dec c v" and room: "r_bufferEnd r + length (value_bytes e c v) \<le> length (r_buffer r)"
    and len: "length (value_bytes e c v) < 2 ^ 64"
  shows "appends (write_column e cz ds tz isLast c v) r (value_bytes e c v)"
proof -
  have blob: "appends (write_blob cz isLast bs) r (lenenc_bytes (length bs) @ bs)"
    if "r_bufferEnd r + length (lenenc_bytes (length bs) @ bs) \<le> length (r_buffer r)" "length bs < 2 ^ 64" for bs
    unfolding write_blob_def
  proof (rule appends_bind)
    show "appends (writeLenencInt (int (length bs))) r (lenenc_bytes (length bs))"
      using that by (intro writeLenencInt_appends) simp_all
    fix r' :: "'z rw_scheme"
    assume "r_bufferEnd r' = r_bufferEnd r + length (lenenc_bytes (length bs))"
      "length (r_buffer r') = length (r_buffer r)"
    then show "appends (\<lambda>r. if r_bufferEnd r + length bs \<le> length (r_buffer r) then write_bytes bs r
        else if \<not> isLast then write_bytes bs (ensureRoom (length bs) r)
        else bindM (send_bytes cz False bs) (\<lambda>_. startWritingNewPacket False) r) r' bs"
      using that write_bytes_appends [of r' bs] by (simp add: appends_def)
  qed
  have is_blob: "write_column e cz ds tz isLast c v r = write_blob cz isLast (blob_of v) r"
    if "is_blob_type (c_typeId c)" "v \<noteq> VNull"
    using that by (auto simp: is_blob_type_def int_types_def write_column_def Let_def)
  show ?thesis
  proof (cases v)
    case VNull
    then show ?thesis using appends_nothing by (simp add: write_column_def)
  next
    case (VStr s)
    then show ?thesis
      using v room len blob [of "blob_of v"] is_blob
      by (simp add: storable_def value_bytes_def appends_def)
  next
    case (VBytes bs)
    then show ?thesis
      using v room len blob [of "blob_of v"] is_blob
      by (simp add: storable_def value_bytes_def appends_def)
  next
    case (VBool b)
    then have "c_typeId c = MYSQL_TYPE_BIT" using v by (simp add: storable_def)
    moreover have "le_bytes_int 2 0x0101 = [1, 1]" "le_bytes_int 2 1 = [1, 0]"
      by code_simp+
    ultimately show ?thesis
      using VBool room write_int_appends(2) [of r 2 "if b then 0x0101 else 0x0001"]
      by (cases b) (simp_all add: write_column_def writeUint16_def value_bytes_def date_types_def type_ids)
  next
    case (VBigInt n)
    then have "c_typeId c = MYSQL_TYPE_LONGLONG" using v by (simp add: storable_def)
    then show ?thesis
      using VBigInt room write_int_appends(2) [of r 8 n]
      by (simp add: write_column_def write_bigint_def writeUint64_def writeInt64_def value_bytes_def type_ids)
  next
    case (VNum x)
    have num: "value_bytes e c v = le_bytes_int (int_width (c_typeId c)) n" if "c_typeId c \<in> int_types" "x = Some (of_int n)" for n
      using that by (auto simp: value_bytes_def VNum int_types_def type_ids to_integer_def)
    from VNum consider (i) n where "c_typeId c \<in> int_types" "x = Some (of_int n)"
      | (f) "c_typeId c = MYSQL_TYPE_FLOAT" | (d) "c_typeId c = MYSQL_TYPE_DOUBLE"
      using v by (auto simp: storable_def Let_def)
    then show ?thesis
    proof cases
      case i
      note w = write_int_appends [of r "int_width (c_typeId c)" n]
      show ?thesis
        using i(1) w room num [OF i] VNum i(2)
        by (auto simp: int_types_def type_ids int_width_def write_column_def write_num_def write_bigint_def to_integer_def
            writeInt8_def writeUint16_def writeInt16_def writeUint32_def writeInt32_def writeUint64_def writeInt64_def
            simp del: One_nat_def)
    next
      case f
      then show ?thesis
        using VNum room write_bytes_appends [of r "le_bytes 4 (e_f32_bits e x)"]
        by (simp add: write_column_def writeFloat_def value_bytes_def type_ids)
    next
      case d
      then show ?thesis
        using VNum room write_bytes_appends [of r "le_bytes 8 (e_f64_bits e x)"]
        by (simp add: write_column_def writeDouble_def value_bytes_def type_ids)
    qed
  qed (use v in \<open>auto simp: storable_def\<close>)
qed

lemma write_columns_appends:
  fixes r :: "'z rw_scheme"
  shows "list_all2 (storable e dec) cs vs \<Longrightarrow> r_bufferEnd r + length (values_bytes e cs vs) \<le> length (r_buffer r) \<Longrightarrow>
    length (values_bytes e cs vs) < 2 ^ 64 \<Longrightarrow>
    appends (write_columns e cz ds tz (zip cs vs)) r (values_bytes e cs vs)"
proof (induction cs vs arbitrary: r rule: list_all2_induct)
  case Nil
  then show ?case using appends_nothing [of r] by (simp add: appends_def)
next
  case (Cons c cs v vs)
  have "appends (bindM (write_column e cz ds tz (zip cs vs = []) c v) (\<lambda>_. write_columns e cz ds tz (zip cs vs))) r
      (value_bytes e c v @ values_bytes e cs vs)"
    using Cons by (intro appends_bind write_column_appends) auto
  then show ?case by simp
qed

theorem serializeRowBinary_writes:
  fixes w :: "'z rw_scheme"
  assumes "list_all2 (storable e dec) cs vs" "r_bufferEnd w + length (row_bytes e cs vs) \<le> length (r_buffer w)"
    "length (row_bytes e cs vs) < 2 ^ 64"
  obtains w1 where "serializeRowBinary e cz vs cs ds tz w = maybe_flush cz w1"
    "appends (\<lambda>r. (Inr (), w1)) w (row_bytes e cs vs)"
proof -
  have r: "row_bytes e cs vs = mask_bytes 0 2 vs @ values_bytes e cs vs"
    by (simp add: row_bytes_def values_bytes_def)
  have "appends (bindM (modifyM (null_mask_loop 0 4 vs)) (\<lambda>_. write_columns e cz ds tz (zip cs vs))) w
      (mask_bytes 0 2 vs @ values_bytes e cs vs)"
    using assms by (intro appends_bind null_mask_appends write_columns_appends) (auto simp: r)
  then show thesis
    by (auto simp: appends_def serializeRowBinary_def r bindM_def intro!: that)
qed

text \<open>\<open>serializeEnd()\<close> sends the written packet with its header.\<close>

lemma serializeEnd_sends:
  assumes "writing w" "r_bufferStart w = 0" "sent w = []" "body w \<noteq> []" "length (body w) < 0xFFFFFF"
  obtains w2 where "serializeEnd cz w = (Inr (), w2)" "sent w2 = packetize (r_sequenceId w) (body w)"
proof -
  have n: "r_bufferEnd w - r_bufferStart w - 4 = length (body w)"
    using assms(1) by (auto simp: length_body filled_def)
  have e: "4 < r_bufferEnd w"
    using assms(2,4) n by (metis add_diff_inverse_nat diff_zero gr0I length_greater_0_conv zero_less_diff)
  obtain b where b: "setHeader (length (body w)) w = (Inr (), w\<lparr>r_sequenceId := r_sequenceId w + 1, r_buffer := b\<rparr>)"
    "take (r_bufferEnd w) b = waiting w @ header_bytes (length (body w)) (r_sequenceId w) @ body w"
    using setHeader_in_buffer [OF assms(1), of "length (body w)"] assms(5) by auto
  let ?w = "w\<lparr>r_sequenceId := r_sequenceId w + 1, r_buffer := b, r_bufferStart := 0, r_bufferEnd := 0\<rparr>"
  have "\<not> is_compressed ?w" "w_fail ?w = None"
    using assms(1) by (simp_all add: writing_def is_compressed_def)
  note p = sendPackets_plain [OF this, of cz "r_bufferEnd w"]
  have "serializeEnd cz w = (Inr (), ?w\<lparr>w_sent := w_sent w @ [take (r_bufferEnd w) b]\<rparr>)"
    using e b(1) p n by (simp add: serializeEnd_def send_def Let_def)
  moreover have "sent (?w\<lparr>w_sent := w_sent w @ [take (r_bufferEnd w) b]\<rparr>) = packetize (r_sequenceId w) (body w)"
    using assms(2,3,5) b(2) by (simp add: sent_def waiting_def packetize.simps [of _ "body w"])
  ultimately show thesis by (rule that)
qed

text \<open>A row that fills less than half of the buffer is sent as one packet.\<close>

lemma serialized_row_sends:
  fixes w :: "'z rw_scheme"
  assumes "list_all2 (storable e dec) cs vs"
    and n: "n = length (row_bytes e cs vs)" "n < 0xFFFFFF" "2 * n < length (r_buffer w)" "4 + n \<le> length (r_buffer w)"
    and w: "writing w" "sent w = []" "r_bufferStart w = 0" "r_bufferEnd w = 4"
  obtains w2 where "bindM (serializeRowBinary e cz vs cs ds tz) (\<lambda>_. serializeEnd cz) w = (Inr (), w2)"
    "sent w2 = packetize (r_sequenceId w) (row_bytes e cs vs)"
proof -
  obtain w1 where w1: "serializeRowBinary e cz vs cs ds tz w = maybe_flush cz w1"
    "appends (\<lambda>r. (Inr (), w1)) w (row_bytes e cs vs)"
    by (rule serializeRowBinary_writes [OF assms(1), of w cz ds tz]) (use n w in auto)
  obtain b where b: "w1 = w\<lparr>r_buffer := b, r_bufferEnd := 4 + n\<rparr>" "length b = length (r_buffer w)"
    "subarray b 4 (4 + n) = row_bytes e cs vs"
    using w1(2) w(4) n(1) by (auto simp: appends_def)
  have flush: "maybe_flush cz w1 = (Inr (), w1)"
    using b n by (simp add: maybe_flush_def)
  have "row_bytes e cs vs \<noteq> []"
    using length_mask_bytes [of 2 0 vs] by (auto simp: row_bytes_def)
  moreover have wr: "writing w1" "r_bufferStart w1 = 0" "sent w1 = []" "body w1 = row_bytes e cs vs"
    using w b n by (simp_all add: writing_def is_compressed_def filled_def sent_def body_def)
  ultimately obtain w2 where w2: "serializeEnd cz w1 = (Inr (), w2)"
    "sent w2 = packetize (r_sequenceId w1) (row_bytes e cs vs)"
    using serializeEnd_sends [OF wr(1-3), of cz] n by auto
  show thesis
    by (rule that [of w2]) (use w1(1) flush w2 b(1) in simp_all)
qed

section \<open>No room for a number\<close>

text \<open>
  The numbers of fixed size are written without a check of the room: behind a value that ends where the buffer
  ends, the view of the buffer throws.
\<close>

lemma long_without_room:
  fixes r :: "'z rw_scheme"
  assumes "c_typeId c = MYSQL_TYPE_LONG" "length (r_buffer r) < r_bufferEnd r + 4"
  shows "write_column e cz ds tz isLast c (VNum x) r = (Inl range_error, r)"
  using assms
  by (simp add: write_column_def type_ids write_num_def writeUint32_def writeInt32_def write_bytes_def)

section \<open>Fractions of dates and times\<close>

definition digit_unit :: "16 word \<Rightarrow> bool" where
  "digit_unit c \<longleftrightarrow> 48 \<le> unat c \<and> unat c \<le> 57"

lemma char_digit_10: "digit_unit c \<Longrightarrow> char_digit 10 c = Some (unat c - 48)"
  by (auto simp: digit_unit_def char_digit_def Let_def)

lemma parse_digits_le: "list_all digit_unit ds \<Longrightarrow> parse_digits 10 acc ds < (acc + 1) * 10 ^ length ds"
proof (induction ds arbitrary: acc)
  case (Cons c ds)
  have "parse_digits 10 (acc * 10 + (unat c - 48)) ds < (acc * 10 + (unat c - 48) + 1) * 10 ^ length ds"
    using Cons by simp
  also have "\<dots> \<le> ((acc + 1) * 10) * 10 ^ length ds"
    using Cons.prems by (intro mult_right_mono) (auto simp: digit_unit_def)
  finally show ?case using Cons.prems by (simp add: char_digit_10 algebra_simps)
qed simp

lemma parseInt_digits:
  assumes "list_all digit_unit ds" "ds \<noteq> []"
  shows "parseInt ds = Some (double (of_nat (parse_digits 10 0 ds)))"
proof -
  obtain c cs where ds: "ds = c # cs" "digit_unit c" using assms by (cases ds) auto
  have c: "\<not> is_space c" "unat c \<noteq> 45" "unat c \<noteq> 43"
    using ds(2) by (auto simp: digit_unit_def is_space_def)
  have x: "take 2 ds \<noteq> js ''0x''" "take 2 ds \<noteq> js ''0X''"
    using assms ds by (cases cs; auto simp: digit_unit_def js_def of_char_def)+
  have "take 1 ds \<noteq> js ''-''" "take 1 ds \<noteq> js ''+''"
    using c ds by (auto simp: js_def)
  then show ?thesis
    using c x ds by (simp add: parseInt_def Let_def sign_def parse_number_def char_digit_10)
qed

text \<open>249 microseconds as the reader makes them of a TIME value, and what the writer takes them for.\<close>

definition micros :: "int \<Rightarrow> num" where
  "micros n = num_add (Some 0) (num_div (Some (of_int n)) (Some 1000000))"

context byte_source
begin

lemma u8_front: "reader_inv rest ok r \<Longrightarrow> logical rest r = b # ts \<Longrightarrow> takes rest ok (rd_u8 rd) r 1 (int (unat b))"
  using fixed_front [of r "[b]" ts 1 get_uint] by (simp add: fixed_defs get_uint_def)

lemma u32_front:
  "reader_inv rest ok r \<Longrightarrow> logical rest r = le_bytes_int 4 n @ ts \<Longrightarrow> 0 \<le> n \<Longrightarrow> n < 256 ^ 4 \<Longrightarrow>
    takes rest ok (rd_u32 rd) r 4 n"
  using int_front(1) [of r 4 n ts] by (simp add: fixed_defs)

lemma u8_step:
  fixes r :: "('c, 'z) reader_scheme"
  assumes "reader_inv rest ok r" "logical rest r = b # ts"
    "\<And>r' :: ('c, 'z) reader_scheme. reader_inv rest ok r' \<Longrightarrow> logical rest r' = ts \<Longrightarrow> takes rest ok (f (int (unat b))) r' k v"
  shows "takes rest ok (bindM (rd_u8 rd) f) r (1 + k) v"
proof (rule takes_bind)
  show "takes rest ok (rd_u8 rd) r 1 (int (unat b))"
    by (rule u8_front [OF assms(1,2)])
qed (use assms in simp)

lemma u32_step:
  fixes r :: "('c, 'z) reader_scheme"
  assumes "reader_inv rest ok r" "logical rest r = le_bytes_int 4 n @ ts" "0 \<le> n" "n < 256 ^ 4"
    "\<And>r' :: ('c, 'z) reader_scheme. reader_inv rest ok r' \<Longrightarrow> logical rest r' = ts \<Longrightarrow> takes rest ok (f n) r' k v"
  shows "takes rest ok (bindM (rd_u32 rd) f) r (4 + k) v"
proof (rule takes_bind)
  show "takes rest ok (rd_u32 rd) r 4 n"
    by (rule u32_front [OF assms(1-4)])
qed (use assms in simp)

text \<open>A TIME value of \<open>n\<close> microseconds.\<close>

lemma read_time_front:
  fixes r :: "('c, 'z) reader_scheme"
  assumes inv: "reader_inv rest ok r" and l: "logical rest r = 12 # 0 # le_bytes_int 4 0 @ 0 # 0 # 0 # le_bytes_int 4 n @ ts"
    and n: "0 \<le> n" "n < 256 ^ 4"
  shows "takes rest ok (read_time rd) r (1 + (1 + (4 + (1 + (1 + (1 + (4 + 0))))))) (VNum (micros n))"
proof -
  have len: "(8 \<le> int (unat (12 :: byte))) = True" "(12 \<le> int (unat (12 :: byte))) = True"
    by simp_all
  have ret: "takes rest ok (ret (VNum (sign (int (unat (0 :: byte)) \<noteq> 0)
      (num_add (Some (of_int (int (unat (0 :: byte)) + (int (unat (0 :: byte)) + (int (unat (0 :: byte)) + 0 * 24) * 60) * 60)))
         (num_div (Some (of_int n)) (Some 1000000)))))) r' 0 (VNum (micros n))" if "reader_inv rest ok r'" for r' :: "('c, 'z) reader_scheme"
    using takes_ret [OF that] by (simp add: micros_def sign_def)
  show ?thesis
    unfolding read_time_def Let_def
    apply (rule u8_step [OF inv l])
    unfolding len if_True
    apply (rule u8_step, assumption, assumption)
    apply (rule u32_step, assumption, assumption, simp, simp)
    apply (rule u8_step, assumption, assumption)+
    apply (rule u32_step, assumption, assumption, rule n, rule n)
    by (rule ret)
qed

end

lemma micros_249:
  "micros 249 = Some (2296619637176839 / 9223372036854775808)"
  "num_mul (Some (2296619637176839 / 9223372036854775808)) (Some 1000000) = Some (8760908650119167 / 35184372088832)"
  by code_simp+

lemma zero_time_parts:
  "num_mod (Some 0) 60 = Some 0" "num_mod (Some 0) 24 = Some 0"
  "num_trunc (num_div (Some 0) (Some 60)) = Some 0" "num_trunc (num_div (Some 0) (Some 24)) = Some 0"
  by code_simp+

lemma write_249_microseconds:
  "write_time (micros 249) =
     bindM (writeUint8 12) (\<lambda>_. bindM (writeUint8 0) (\<lambda>_. bindM (writeUint32 0) (\<lambda>_. bindM (writeUint8 0) (\<lambda>_.
     bindM (writeUint8 0) (\<lambda>_. bindM (writeUint8 0) (\<lambda>_. writeUint32 248))))))"
proof -
  have "num_trunc (micros 249) = Some 0" "num_mod (num_trunc (num_mul (micros 249) (Some 1000000))) 1000000 = Some 248"
    "(case micros 249 of Some q \<Rightarrow> q < 0 | None \<Rightarrow> False) = False"
    unfolding micros_249 by (simp_all add: num_trunc_def num_mod_def trunc_def floor_eq_iff)
  note parts = this
  have "micros 249 \<noteq> Some 0"
    by (simp add: micros_249(1))
  then show ?thesis
    unfolding write_time_def Let_def parts if_False zero_time_parts
    by (simp add: write_num_def to_integer_def trunc_def)
qed

end
