(* ===== verification/PacketSpec.thy ===== *)
theory PacketSpec
  imports SerializerSpec Commands
begin

text \<open>
  What the reader does inside one packet that is not of the maximal length: each operation takes its bytes from the front
  of the stream and moves the offset, whatever the network does. On this rest the packets of the protocol (OK, EOF, ERR)
  and what the protocol makes of them.
\<close>

section \<open>Reading inside a packet\<close>

definition near_end :: int where "near_end = 0xFFFFFF - 9"

definition reads :: "('c \<Rightarrow> byte list) \<Rightarrow> ('c \<Rightarrow> bool) \<Rightarrow> ('c, 'z, 'a) rdm \<Rightarrow> ('c, 'z) reader_scheme \<Rightarrow> nat \<Rightarrow> 'a \<Rightarrow> bool" where
  "reads rest ok m r n v \<longleftrightarrow>
     (\<exists>r'. m r = (Inr v, r') \<and> buffer_wf ok r' \<and> stream rest r' = drop n (stream rest r) \<and>
        r_payloadLength r' = r_payloadLength r \<and> r_packetOffset r' = r_packetOffset r + int n \<and>
        r_decoder r' = r_decoder r \<and> reader.more r' = reader.more r \<and> length (r_buffer r') = length (r_buffer r))"

lemma reads_or_await:
  assumes "sync r = (Inr None, r) \<or> reads rest ok sync r n (Some v)" "sync r = (Inr None, r) \<Longrightarrow> reads rest ok async r n v"
  shows "reads rest ok (or_await sync async) r n v"
  using assms by (auto simp: or_await_def reads_def)

lemma reads_map: "reads rest ok m r n a \<Longrightarrow> f a = b \<Longrightarrow> reads rest ok (bindM m (\<lambda>x. ret (f x))) r n b"
  by (auto simp: reads_def)

lemma reads_bind:
  fixes r :: "('c, 'z) reader_scheme"
  assumes "reads rest ok m r n a"
    and "\<And>r' :: ('c, 'z) reader_scheme. buffer_wf ok r' \<Longrightarrow> stream rest r' = drop n (stream rest r) \<Longrightarrow>
      r_packetOffset r' = r_packetOffset r + int n \<Longrightarrow> r_payloadLength r' = r_payloadLength r \<Longrightarrow>
      length (r_buffer r') = length (r_buffer r) \<Longrightarrow> reads rest ok (f a) r' k v"
  shows "reads rest ok (bindM m f) r (n + k) v"
proof -
  obtain r1 where r1: "m r = (Inr a, r1)" "buffer_wf ok r1" "stream rest r1 = drop n (stream rest r)"
    "r_payloadLength r1 = r_payloadLength r" "r_packetOffset r1 = r_packetOffset r + int n"
    "r_decoder r1 = r_decoder r" "reader.more r1 = reader.more r" "length (r_buffer r1) = length (r_buffer r)"
    using assms(1) by (auto simp: reads_def)
  with assms(2) [of r1] show ?thesis
    by (auto simp: reads_def add.commute add.assoc)
qed

context byte_source
begin

lemma consume_reads:
  assumes wf: "buffer_wf ok r" and n: "n \<le> haveBytes r"
  shows "reads rest ok (consume n) r n (take n (stream rest r))"
proof -
  have e: "r_bufferStart r \<le> r_bufferEnd r" "r_bufferEnd r \<le> length (r_buffer r)"
    using wf by (auto simp: buffer_wf_def)
  have a: "length (avail r) = haveBytes r"
    by (rule length_avail [OF e(2)])
  have "stream rest (r\<lparr>r_bufferStart := r_bufferStart r + n, r_packetOffset := r_packetOffset r + int n\<rparr>) = drop n (stream rest r)"
    using avail_consumed(2) [OF n e(2)] n a by (simp add: stream_def avail_def)
  then show ?thesis
    using wf n avail_consumed(1) [OF n e(2)] a
    by (auto simp: reads_def consume_def buffer_wf_def haveBytes_def stream_def)
qed

lemma recv_reads:
  fixes r :: "('c, 'z) reader_scheme"
  assumes "buffer_wf ok r" "n \<le> length (r_buffer r)" "n \<le> length (stream rest r)"
    and "\<And>r' :: ('c, 'z) reader_scheme. buffer_wf ok r' \<Longrightarrow> stream rest r' = stream rest r \<Longrightarrow> n \<le> haveBytes r' \<Longrightarrow>
      r_packetOffset r' = r_packetOffset r \<Longrightarrow> r_payloadLength r' = r_payloadLength r \<Longrightarrow>
      length (r_buffer r') = length (r_buffer r) \<Longrightarrow> reads rest ok (f True) r' k v"
  shows "reads rest ok (bindM (recvAtLeast rd n False) f) r k v"
proof -
  obtain r1 where r1: "recvAtLeast rd n False r = (Inr True, r1)" "buffer_wf ok r1" "same_packet r r1"
    "stream rest r1 = stream rest r" "n \<le> haveBytes r1"
    using recvAtLeast_more assms(1-3) by blast
  show ?thesis
    using assms(4) [OF r1(2,4,5)] r1 same_packetD [OF r1(3)] by (auto simp: reads_def same_packet_def)
qed

lemma fixed_reads:
  assumes wf: "buffer_wf ok r" and o': "r_packetOffset r \<le> near_end" and n: "n \<le> 9" "n \<le> length (stream rest r)"
  shows "reads rest ok (or_await (readFixed n get) (readFixedAsync rd n get)) r n (get (take n (stream rest r)))"
proof (rule reads_or_await)
  have small: "r_packetOffset r \<le> 0xFFFFFF - int n" and b: "n \<le> length (r_buffer r)"
    using o' n(1) wf by (auto simp: near_end_def buffer_wf_def BUFFER_LEN_def)
  show "readFixed n get r = (Inr None, r) \<or> reads rest ok (readFixed n get) r n (Some (get (take n (stream rest r))))"
    using reads_map [OF consume_reads [OF wf], of n "\<lambda>b. Some (get b)"] small
    by (auto simp: readFixed_def reads_def)
  have "reads rest ok (bindM (recvAtLeast rd n False) (\<lambda>_. bindM (consume n) (\<lambda>b. ret (get b)))) r n (get (take n (stream rest r)))"
    by (rule recv_reads [OF wf b n(2)]) (metis reads_map consume_reads)
  then show "reads rest ok (readFixedAsync rd n get) r n (get (take n (stream rest r)))"
    using small by (simp add: readFixedAsync_def correctIfNear_def reads_def)
qed

lemma lenenc_reads:
  assumes wf: "buffer_wf ok r" and o': "r_packetOffset r \<le> near_end" and s: "stream rest r = lenenc_bytes v @ ts" "v < 2 ^ 64"
  shows "reads rest ok (or_await readLenencInt (readLenencIntAsync rd)) r (length (lenenc_bytes v)) (int v)"
proof (rule reads_or_await)
  let ?n = "length (lenenc_bytes v)"
  have n: "?n \<le> 9" "1 \<le> ?n" "?n \<le> length (stream rest r)" "take ?n (stream rest r) = lenenc_bytes v"
    using s(1) by (auto simp: lenenc_bytes_def)
  have ne: "lenenc_bytes v \<noteq> []" by (auto simp: lenenc_bytes_def)
  have size: "lenenc_size (r_buffer q ! r_bufferStart q) = ?n"
    if "buffer_wf ok q" "stream rest q = stream rest r" "0 < haveBytes q" for q :: "('c, 'a) reader_scheme"
  proof -
    have b: "r_bufferEnd q \<le> length (r_buffer q)" "r_bufferStart q < r_bufferEnd q"
      using that by (auto simp: buffer_wf_def haveBytes_def)
    then have "avail q \<noteq> []" "hd (avail q) = r_buffer q ! r_bufferStart q"
      by (auto simp: avail_def subarray_def hd_drop_conv_nth hd_take)
    then have "r_buffer q ! r_bufferStart q = hd (stream rest r)"
      using that(2) by (metis hd_append2 stream_def)
    then show ?thesis
      using s(1) ne lenenc_bytes_size [of v] by simp
  qed
  have val: "lenenc_value (take ?n (stream rest r)) = int v"
    using n(4) lenenc_roundtrip [OF s(2)] by simp
  have near: "r_packetOffset r \<le> 0xFFFFFF - 9"
    using o' by (simp add: near_end_def)
  show "readLenencInt r = (Inr None, r) \<or> reads rest ok readLenencInt r ?n (Some (int v))"
    using size [OF wf refl] near val reads_map [OF consume_reads [OF wf, of ?n], of "\<lambda>b. Some (lenenc_value b)"]
    by (auto simp: readLenencInt_def haveBytes_def reads_def Let_def)
  define tail where "tail = (\<lambda>(_ :: bool) q :: ('c, 'a) reader_scheme.
     let k = lenenc_size (r_buffer q ! r_bufferStart q)
     in bindM (if 1 < k then recvAtLeast rd k False else ret True) (\<lambda>_. bindM (consume k) (\<lambda>bytes. ret (lenenc_value bytes))) q)"
  have tail: "reads rest ok (tail u) q ?n (int v)"
    if q: "buffer_wf ok q" "stream rest q = stream rest r" "0 < haveBytes q" for q u
  proof -
    have l: "?n \<le> length (r_buffer q)"
      using n(1) q(1) by (auto simp: buffer_wf_def BUFFER_LEN_def)
    have fin: "reads rest ok (bindM (consume ?n) (\<lambda>bytes. ret (lenenc_value bytes))) q' ?n (int v)"
      if "buffer_wf ok q'" "stream rest q' = stream rest r" "?n \<le> haveBytes q'" for q' :: "('c, 'a) reader_scheme"
      using reads_map [OF consume_reads [OF that(1,3)], of lenenc_value] that(2) val by simp
    have "reads rest ok (bindM (if 1 < ?n then recvAtLeast rd ?n False else ret True)
        (\<lambda>_. bindM (consume ?n) (\<lambda>bytes. ret (lenenc_value bytes)))) q ?n (int v)"
    proof (cases "1 < ?n")
      case True
      then show ?thesis
        using recv_reads [OF q(1) l, of "\<lambda>_. bindM (consume ?n) (\<lambda>bytes. ret (lenenc_value bytes))" ?n "int v"] fin q n(3) by simp
    next
      case False
      then show ?thesis
        using fin [OF q(1,2)] q(3) n(2) by (simp add: reads_def)
    qed
    moreover have "tail u q = bindM (if 1 < ?n then recvAtLeast rd ?n False else ret True)
        (\<lambda>_. bindM (consume ?n) (\<lambda>bytes. ret (lenenc_value bytes))) q"
      using size [OF q] by (simp add: tail_def Let_def)
    ultimately show ?thesis
      unfolding reads_def by simp
  qed
  have "reads rest ok (bindM (\<lambda>r. if r_bufferEnd r = r_bufferStart r then recvAtLeast rd 1 False r else (Inr True, r)) tail) r ?n (int v)"
  proof (cases "r_bufferEnd r = r_bufferStart r")
    case True
    have "1 \<le> length (r_buffer r)" "1 \<le> length (stream rest r)"
      using n wf by (auto simp: buffer_wf_def BUFFER_LEN_def)
    then have "reads rest ok (bindM (recvAtLeast rd 1 False) tail) r ?n (int v)"
      by (rule recv_reads [OF wf]) (simp add: tail)
    with True show ?thesis by (simp add: reads_def bindM_def)
  next
    case False
    then show ?thesis
      using tail [OF wf refl] wf by (simp add: reads_def bindM_def haveBytes_def buffer_wf_def)
  qed
  then show "reads rest ok (readLenencIntAsync rd) r ?n (int v)"
    using near by (simp add: readLenencIntAsync_def correctIfNear_def reads_def tail_def [abs_def])
qed

text \<open>The header of a packet.\<close>

lemma header_reads:
  fixes r :: "('c, 'z) reader_scheme"
  assumes wf: "buffer_wf ok r" and s: "stream rest r = header_bytes n seq @ ts" and n: "n < 2 ^ 24"
  obtains r' where "readHeader rd r = (Inr (), r')" "buffer_wf ok r'" "stream rest r' = ts" "r_payloadLength r' = int n"
    "r_packetOffset r' = 0" "r_decoder r' = r_decoder r" "reader.more r' = reader.more r" "length (r_buffer r') = length (r_buffer r)"
proof -
  have four: "4 \<le> length (stream rest r)" "4 \<le> length (r_buffer r)" "4 \<le> length (header_bytes n seq)"
    using s wf by (auto simp: buffer_wf_def BUFFER_LEN_def)
  obtain q where q: "readHeader rd r = (Inr (), take_header (subarray (r_buffer q) (r_bufferStart q) (r_bufferStart q + 4)) 0
        (q\<lparr>r_bufferStart := r_bufferStart q + 4\<rparr>))" "buffer_wf ok q" "same_packet r q" "stream rest q = stream rest r" "4 \<le> haveBytes q"
  proof (cases "4 \<le> haveBytes r")
    case True
    then show ?thesis using that [of r] wf by (simp add: readHeader_def readPacketHeader_def)
  next
    case False
    obtain r1 where r1: "recvAtLeast rd 4 False r = (Inr True, r1)" "buffer_wf ok r1" "same_packet r r1"
      "stream rest r1 = stream rest r" "4 \<le> haveBytes r1"
      using recvAtLeast_more [OF wf four(2,1)] by blast
    then show ?thesis
      using that [of r1] False by (simp add: readHeader_def readPacketHeader_def readPacketHeaderAsync_def)
  qed
  let ?h = "subarray (r_buffer q) (r_bufferStart q) (r_bufferStart q + 4)"
  have e: "r_bufferEnd q \<le> length (r_buffer q)"
    using q(2) by (simp add: buffer_wf_def)
  have h: "?h = take 4 (stream rest q)"
    using avail_consumed(1) [OF q(5) e] q(5) length_avail [OF e] by (simp add: stream_def)
  then have l: "le_nat (take 3 ?h) = n"
    using s q(4) le_nat_header [OF n, of seq ts] by (simp add: take_take)
  have "stream rest (q\<lparr>r_bufferStart := r_bufferStart q + 4\<rparr>) = drop 4 (stream rest q)"
    using avail_consumed(2) [OF q(5) e] q(5) length_avail [OF e] by (simp add: stream_def)
  then have "stream rest (q\<lparr>r_bufferStart := r_bufferStart q + 4\<rparr>) = ts"
    using s q(4) by simp
  then have "stream rest (take_header ?h 0 (q\<lparr>r_bufferStart := r_bufferStart q + 4\<rparr>)) = ts"
    by (simp add: take_header_def stream_def avail_def)
  moreover have "buffer_wf ok (take_header ?h 0 (q\<lparr>r_bufferStart := r_bufferStart q + 4\<rparr>))"
    using q(2,5) by (auto simp: take_header_def buffer_wf_def haveBytes_def)
  ultimately show thesis
    using that [OF q(1)] q(3) l by (simp add: take_header_def same_packet_def)
qed

text \<open>A blob inside the packet.\<close>

lemma bytes_reads:
  fixes r :: "('c, 'z) reader_scheme"
  assumes wf: "buffer_wf ok r" and s: "stream rest r = bs @ ts" "length bs + 4 \<le> length (r_buffer r)"
    and inside: "r_packetOffset r + int (length bs) \<le> r_payloadLength r"
  shows "reads rest ok (or_await (readShortBytes (length bs)) (readShortBytesAsync rd (length bs))) r (length bs) bs"
proof (rule reads_or_await)
  let ?n = "length bs"
  have lenIn: "int ?n \<le> lenInCurPacket r" using inside by (simp add: lenInCurPacket_def)
  show "readShortBytes ?n r = (Inr None, r) \<or> reads rest ok (readShortBytes ?n) r ?n (Some bs)"
    using reads_map [OF consume_reads [OF wf], of ?n Some "Some bs"] s lenIn
    by (auto simp: readShortBytes_def reads_def Let_def)
  have "reads rest ok (bindM (recvAtLeast rd ?n False) (\<lambda>_. consume ?n)) r ?n bs"
  proof (rule recv_reads [OF wf])
    show "?n \<le> length (r_buffer r)" "?n \<le> length (stream rest r)" using s by auto
    show "reads rest ok (consume ?n) r' ?n bs" if "buffer_wf ok r'" "stream rest r' = stream rest r" "?n \<le> haveBytes r'"
      for r' :: "('c, 'z) reader_scheme"
      using consume_reads [OF that(1,3)] s(1) that(2) by simp
  qed
  then show "reads rest ok (readShortBytesAsync rd ?n) r ?n bs"
    using lenIn by (simp add: readShortBytesAsync_def reads_def)
qed

text \<open>The rest of the packet.\<close>

lemma eof_reads:
  fixes r :: "('c, 'z) reader_scheme"
  assumes wf: "buffer_wf ok r" and s: "stream rest r = bs @ ts" "length bs \<le> length (r_buffer r)"
    and last: "r_packetOffset r + int (length bs) = r_payloadLength r"
  shows "reads rest ok (or_await readShortEofBytes (readShortEofBytesAsync rd)) r (length bs) (strip_nul bs)"
proof (rule reads_or_await)
  let ?n = "length bs"
  have lenIn: "nat (lenInCurPacket r) = ?n" using last by (simp add: lenInCurPacket_def)
  show "readShortEofBytes r = (Inr None, r) \<or> reads rest ok readShortEofBytes r ?n (Some (strip_nul bs))"
    using reads_map [OF consume_reads [OF wf], of ?n "\<lambda>b. Some (strip_nul b)" "Some (strip_nul bs)"] s lenIn
    by (auto simp: readShortEofBytes_def reads_def Let_def)
  have "reads rest ok (bindM (recvAtLeast rd ?n False) (\<lambda>_. bindM (consume ?n) (\<lambda>b. ret (strip_nul b)))) r ?n (strip_nul bs)"
  proof (rule recv_reads [OF wf])
    show "?n \<le> length (r_buffer r)" "?n \<le> length (stream rest r)" using s by auto
    show "reads rest ok (bindM (consume ?n) (\<lambda>b. ret (strip_nul b))) r' ?n (strip_nul bs)"
      if "buffer_wf ok r'" "stream rest r' = stream rest r" "?n \<le> haveBytes r'" for r' :: "('c, 'z) reader_scheme"
      using reads_map [OF consume_reads [OF that(1,3)], of strip_nul] s(1) that(2) by simp
  qed
  then show "reads rest ok (readShortEofBytesAsync rd) r ?n (strip_nul bs)"
    using lenIn by (simp add: readShortEofBytesAsync_def reads_def Let_def)
qed

text \<open>A number behind the end of the data: the connection is lost.\<close>

lemma fixed_lost:
  assumes wf: "buffer_wf ok r" and o': "r_packetOffset r \<le> near_end" and n: "n \<le> 9" "length (stream rest r) < n"
  shows "\<exists>r'. or_await (readFixed n get) (readFixedAsync rd n get) r = (Inl lost_connection, r') \<and> same_packet r r'"
proof -
  have "haveBytes r \<le> length (stream rest r)"
    using wf length_avail [of r] by (simp add: buffer_wf_def stream_def)
  then have "readFixed n get r = (Inr None, r)"
    using n(2) by (simp add: readFixed_def)
  moreover have "n \<le> length (r_buffer r)"
    using n(1) wf by (auto simp: buffer_wf_def BUFFER_LEN_def)
  then obtain r' where "recvAtLeast rd n False r = (Inl lost_connection, r')" "same_packet r r'"
    using recvAtLeast_eof [OF wf _ n(2)] by blast
  ultimately show ?thesis
    using o' n(1) by (auto simp: or_await_def readFixedAsync_def correctIfNear_def near_end_def)
qed

end

section \<open>The protocol above the reader\<close>

text \<open>Nothing that belongs to the protocol differs, and the decoder is the same.\<close>

definition same_proto :: "proto \<Rightarrow> proto \<Rightarrow> bool" where
  "same_proto q r \<longleftrightarrow> reader.more r = reader.more q \<and> r_decoder r = r_decoder q"

lemma same_proto_refl [simp]: "same_proto r r"
  by (simp add: same_proto_def)

lemma same_proto_update:
  assumes "same_proto q r"
  shows "same_proto (q\<lparr>p_affectedRows := a\<rparr>) (r\<lparr>p_affectedRows := a\<rparr>)"
    "same_proto (q\<lparr>p_lastInsertId := a\<rparr>) (r\<lparr>p_lastInsertId := a\<rparr>)"
    "same_proto (q\<lparr>p_statusFlags := a\<rparr>) (r\<lparr>p_statusFlags := a\<rparr>)"
    "same_proto (q\<lparr>p_warnings := a\<rparr>) (r\<lparr>p_warnings := a\<rparr>)"
    "same_proto (q\<lparr>p_resultsets := b\<rparr>) (r\<lparr>p_resultsets := b\<rparr>)"
  using assms by (cases q; cases r; simp add: same_proto_def)+

lemma same_proto_fields:
  assumes "same_proto q r"
  shows "p_capabilityFlags r = p_capabilityFlags q" "p_statusFlags r = p_statusFlags q" "p_resultsets r = p_resultsets q"
    "p_state r = p_state q" "p_warnings r = p_warnings q" "p_affectedRows r = p_affectedRows q"
    "p_lastInsertId r = p_lastInsertId q" "p_statusInfo r = p_statusInfo q" "p_mariadbFlags r = p_mariadbFlags q"
    "p_curResultsets r = p_curResultsets q" "p_onEndSession r = p_onEndSession q" "w_sent r = w_sent q"
    "p_pendingCloseStmts r = p_pendingCloseStmts q" "p_pendingChangeSchema r = p_pendingChangeSchema q"
    "p_dsn r = p_dsn q" "p_closed r = p_closed q"
  using assms by (cases q; cases r; simp add: same_proto_def)+

text \<open>The reader is at offset \<open>o\<close> of a packet of length \<open>p\<close>, with \<open>ts\<close> to come; \<open>q\<close> is the state of the protocol.\<close>

definition at_pos ::
  "(conn \<Rightarrow> byte list) \<Rightarrow> (conn \<Rightarrow> bool) \<Rightarrow> proto \<Rightarrow> proto \<Rightarrow> byte list \<Rightarrow> nat \<Rightarrow> nat \<Rightarrow> bool" where
  "at_pos rest ok q r ts off p \<longleftrightarrow>
     same_proto q r \<and> buffer_wf ok r \<and> stream rest r = ts \<and> r_packetOffset r = int off \<and> r_payloadLength r = int p"

lemma at_pos_set:
  "at_pos rest ok q r ts off p \<Longrightarrow> same_proto (g q) (g r) \<Longrightarrow> r_src (g r) = r_src r \<Longrightarrow> r_buffer (g r) = r_buffer r \<Longrightarrow>
   r_bufferStart (g r) = r_bufferStart r \<Longrightarrow> r_bufferEnd (g r) = r_bufferEnd r \<Longrightarrow> r_packetOffset (g r) = r_packetOffset r \<Longrightarrow>
   r_payloadLength (g r) = r_payloadLength r \<Longrightarrow> at_pos rest ok (g q) (g r) ts off p"
  by (simp add: at_pos_def buffer_wf_def stream_def avail_def)

text \<open>The operation returns or throws, and what it gives satisfies \<open>Q\<close>.\<close>

definition ends :: "('e + 'a \<Rightarrow> proto \<Rightarrow> bool) \<Rightarrow> (('e + 'a) \<times> proto) option \<Rightarrow> bool" where
  "ends Q x \<longleftrightarrow> (\<exists>a r'. x = Some (a, r') \<and> Q a r')"

lemma bind_step:
  assumes "ends (\<lambda>x r'. case x of Inl e \<Rightarrow> Q (Inl e) r' | Inr a \<Rightarrow> ends Q (f a r')) (m r)"
  shows "ends Q (bindL m f r)"
proof -
  obtain x r' where "m r = Some (x, r')" "case x of Inl e \<Rightarrow> Q (Inl e) r' | Inr a \<Rightarrow> ends Q (f a r')"
    using assms unfolding ends_def by blast
  then show ?thesis by (cases x) (simp_all add: ends_def bindL_def)
qed

lemma try_step:
  assumes "ends (\<lambda>x r'. case x of Inl e \<Rightarrow> ends Q (handler e r') | Inr a \<Rightarrow> Q (Inr a) r') (m r)"
  shows "ends Q (tryL m handler r)"
proof -
  obtain x r' where "m r = Some (x, r')" "case x of Inl e \<Rightarrow> ends Q (handler e r') | Inr a \<Rightarrow> Q (Inr a) r'"
    using assms unfolding ends_def by blast
  then show ?thesis by (cases x) (simp_all add: ends_def tryL_def)
qed

lemma ends_mono: "ends Q x \<Longrightarrow> (\<And>a r'. Q a r' \<Longrightarrow> Q' a r') \<Longrightarrow> ends Q' x"
  by (auto simp: ends_def)

lemma setL_step: "ends Q (f () (g r)) \<Longrightarrow> ends Q (bindL (setL g) f r)"
  by (simp add: bindL_def setL_def)

lemma getL_step: "ends Q (f (g r) r) \<Longrightarrow> ends Q (bindL (getL g) f r)"
  by (simp add: bindL_def getL_def)

lemma retL_step: "ends Q (f a r) \<Longrightarrow> ends Q (bindL (retL a) f r)"
  by (simp add: bindL_def)

lemma if_step: "c \<Longrightarrow> ends Q (bindL m f r) \<Longrightarrow> ends Q (bindL (if c then m else m') f r)"
  by simp

lemma bindL_assoc: "bindL (bindL m f) g = bindL m (\<lambda>a. bindL (f a) g)"
  by (auto simp: fun_eq_iff bindL_def split: option.splits sum.splits)

locale proto_source = byte_source "readFromConn (e_dz h)" rest ok
  for h :: penv and rest :: "conn \<Rightarrow> byte list" and ok :: "conn \<Rightarrow> bool"
begin

abbreviation is_at :: "proto \<Rightarrow> proto \<Rightarrow> byte list \<Rightarrow> nat \<Rightarrow> nat \<Rightarrow> bool" where
  "is_at \<equiv> at_pos rest ok"

lemma reads_step:
  assumes "is_at q r ts off p" "reads rest ok m r n v"
    "\<And>r'. is_at q r' (drop n ts) (off + n) p \<Longrightarrow> length (r_buffer r') = length (r_buffer r) \<Longrightarrow> ends Q (f v r')"
  shows "ends Q (bindL (total_of m) f r)"
proof -
  obtain r' where r': "m r = (Inr v, r')" "buffer_wf ok r'" "stream rest r' = drop n (stream rest r)"
    "r_payloadLength r' = r_payloadLength r" "r_packetOffset r' = r_packetOffset r + int n"
    "r_decoder r' = r_decoder r" "reader.more r' = reader.more r" "length (r_buffer r') = length (r_buffer r)"
    using assms(2) by (auto simp: reads_def)
  have "is_at q r' (drop n ts) (off + n) p"
    using assms(1) r' by (simp add: at_pos_def same_proto_def)
  with assms(3) r' show ?thesis by (simp add: bindL_def)
qed

lemma u8_next:
  assumes "is_at q r (b # ts) off p" "int off \<le> near_end" "\<And>r'. is_at q r' ts (off + 1) p \<Longrightarrow> ends Q (f (int (unat b)) r')"
  shows "ends Q (bindL (get_u8 h) f r)"
proof -
  have "reads rest ok (rd_u8 (readFromConn (e_dz h))) r 1 (int (unat b))"
    using fixed_reads [of r 1 get_uint] assms(1,2) by (simp add: fixed_defs get_uint_def at_pos_def)
  then show ?thesis
    unfolding get_u8_def by (rule reads_step [OF assms(1)]) (use assms(1,3) in simp)
qed

lemma u16_next:
  assumes "is_at q r (le_bytes 2 v @ ts) off p" "v < 2 ^ 16" "int off \<le> near_end"
    "\<And>r'. is_at q r' ts (off + 2) p \<Longrightarrow> ends Q (f (int v) r')"
  shows "ends Q (bindL (get_u16 h) f r)"
proof -
  have "reads rest ok (rd_u16 (readFromConn (e_dz h))) r 2 (int v)"
    using fixed_reads [of r 2 get_uint] assms(1-3) by (simp add: fixed_defs get_uint_def at_pos_def le_simps)
  then show ?thesis
    unfolding get_u16_def by (rule reads_step [OF assms(1)]) (use assms(1,4) in simp)
qed

text \<open>A number that the data does not have: the protocol is as it was.\<close>

lemma u16_lost:
  assumes "is_at q r ts off p" "length ts < 2" "int off \<le> near_end"
    "\<And>r'. same_proto q r' \<Longrightarrow> Q (Inl lost_connection) r'"
  shows "ends Q (bindL (get_u16 h) f r)"
proof -
  have r: "same_proto q r" "buffer_wf ok r" "stream rest r = ts" "r_packetOffset r = int off"
    using assms(1) by (simp_all add: at_pos_def)
  obtain r' where r': "rd_u16 (readFromConn (e_dz h)) r = (Inl lost_connection, r')" "same_packet r r'"
    using fixed_lost [of r 2 get_uint] r(2-4) assms(2,3) by (auto simp: fixed_defs)
  have "same_proto q r'"
    using r(1) r'(2) by (simp add: same_proto_def same_packet_def)
  then show ?thesis
    using r'(1) assms(4) by (auto simp: get_u16_def bindL_def ends_def)
qed

lemma u32_next:
  assumes "is_at q r (le_bytes 4 v @ ts) off p" "v < 2 ^ 32" "int off \<le> near_end"
    "\<And>r'. is_at q r' ts (off + 4) p \<Longrightarrow> ends Q (f (int v) r')"
  shows "ends Q (bindL (get_u32 h) f r)"
proof -
  have "reads rest ok (rd_u32 (readFromConn (e_dz h))) r 4 (int v)"
    using fixed_reads [of r 4 get_uint] assms(1-3) by (simp add: fixed_defs get_uint_def at_pos_def le_simps)
  then show ?thesis
    unfolding get_u32_def by (rule reads_step [OF assms(1)]) (use assms(1,4) in simp)
qed

lemma lenenc_next:
  assumes "is_at q r (lenenc_bytes v @ ts) off p" "v < 2 ^ 64" "int off \<le> near_end"
    "\<And>r'. is_at q r' ts (off + length (lenenc_bytes v)) p \<Longrightarrow> ends Q (f (int v) r')"
  shows "ends Q (bindL (get_lenenc h) f r)"
proof -
  have "reads rest ok (or_await readLenencInt (readLenencIntAsync (readFromConn (e_dz h)))) r (length (lenenc_bytes v)) (int v)"
    using lenenc_reads [of r v ts] assms(1-3) by (simp add: at_pos_def)
  then show ?thesis
    unfolding get_lenenc_def by (rule reads_step [OF assms(1)]) (use assms(1,4) in simp)
qed

lemma eof_string_next:
  assumes "is_at q r (bs @ ts) off p" "off + length bs = p" "length bs \<le> length (r_buffer r)"
    "\<And>r'. is_at q r' ts p p \<Longrightarrow> ends Q (f (r_decoder q (strip_nul bs)) r')"
  shows "ends Q (bindL (get_eof_string h) f r)"
proof -
  have 1: "reads rest ok (or_await readShortEofBytes (readShortEofBytesAsync (readFromConn (e_dz h)))) r (length bs) (strip_nul bs)"
    using eof_reads [of r bs ts] assms(1-3) by (simp add: at_pos_def)
  have d: "or_await readShortEofString (readShortEofStringAsync rd) r =
      bindM (or_await readShortEofBytes (readShortEofBytesAsync rd)) (\<lambda>b r. (Inr (r_decoder r b), r)) r" for rd
    by (auto simp: or_await_def readShortEofString_def readShortEofStringAsync_def decode_opt_def decode_with_def bindM_def
        split: prod.splits sum.splits option.splits)
  have "reads rest ok (or_await readShortEofString (readShortEofStringAsync (readFromConn (e_dz h)))) r (length bs)
      (r_decoder q (strip_nul bs))"
    using 1 assms(1) d [of "readFromConn (e_dz h)"] by (auto simp: reads_def at_pos_def same_proto_def)
  then show ?thesis
    unfolding get_eof_string_def by (rule reads_step [OF assms(1)]) (use assms(2,4) in simp)
qed

lemma string_next:
  assumes "is_at q r (bs @ ts) off p" "off + length bs \<le> p" "length bs + 4 \<le> length (r_buffer r)" "n = int (length bs)"
    "\<And>r'. is_at q r' ts (off + length bs) p \<Longrightarrow> length (r_buffer r') = length (r_buffer r) \<Longrightarrow> ends Q (f (r_decoder q bs) r')"
  shows "ends Q (bindL (get_string h n) f r)"
proof -
  have "reads rest ok (rd_bytes (readFromConn (e_dz h)) n) r (length bs) bs"
    using bytes_reads [of r bs ts] assms(1-4) by (simp add: at_pos_def rd_bytes_def reads_def)
  then have "reads rest ok (decode_with (rd_bytes (readFromConn (e_dz h)) n)) r (length bs) (r_decoder q bs)"
    using assms(1) by (auto simp: reads_def decode_with_def bindM_def at_pos_def same_proto_def)
  then show ?thesis
    unfolding get_string_def by (rule reads_step [OF assms(1)]) (use assms(1,5) in simp)
qed

lemma header_next:
  assumes wf: "buffer_wf ok r" and s: "stream rest r = header_bytes n seq @ ts" and n: "n < 2 ^ 24"
    and Q: "\<And>r'. is_at r r' ts 0 n \<Longrightarrow> length (r_buffer r') = length (r_buffer r) \<Longrightarrow> ends Q (f () r')"
  shows "ends Q (bindL (get_header h) f r)"
proof -
  obtain r' where r': "readHeader (readFromConn (e_dz h)) r = (Inr (), r')" "is_at r r' ts 0 n"
    "length (r_buffer r') = length (r_buffer r)"
    by (rule header_reads [OF wf s n]) (simp add: at_pos_def same_proto_def)
  then show ?thesis
    using Q [OF r'(2,3)] by (simp add: get_header_def bindL_def)
qed

end

text \<open>The contract holds for the ordinary and for the compressed protocol.\<close>

interpretation plain_proto: proto_source h pending plain_ok for h ..

interpretation framed_proto: proto_source h "frame_rest (e_dz h)" "frame_ok (e_dz h)" for h ..

section \<open>OK and ERR packets\<close>

definition ok_payload :: "nat \<Rightarrow> nat \<Rightarrow> nat \<Rightarrow> nat \<Rightarrow> byte list" where
  "ok_payload affected insertId status warnings =
     0 # lenenc_bytes affected @ lenenc_bytes insertId @ le_bytes 2 status @ le_bytes 2 warnings"

definition err_payload :: "nat \<Rightarrow> byte list \<Rightarrow> byte list \<Rightarrow> byte list" where
  "err_payload code state' msg = 0xFF # le_bytes 2 code @ state' @ msg"

definition after_ok :: "nat \<Rightarrow> nat \<Rightarrow> nat \<Rightarrow> nat \<Rightarrow> proto \<Rightarrow> proto" where
  "after_ok affected insertId status warnings r =
     r\<lparr>p_affectedRows := int affected, p_lastInsertId := int insertId, p_statusFlags := int status, p_warnings := int warnings\<rparr>"

text \<open>The error that an ERR packet makes in state \<open>q\<close>.\<close>

definition server_error :: "proto \<Rightarrow> nat \<Rightarrow> byte list \<Rightarrow> byte list \<Rightarrow> exn" where
  "server_error q code sqlState msg =
     new_SqlError (r_decoder q (strip_nul msg)) code (r_decoder q sqlState)
       (has_status q SERVER_STATUS_AUTOCOMMIT) (has_status q SERVER_STATUS_IN_TRANS)"

lemma length_lenenc_bytes: "length (lenenc_bytes v) \<le> 9"
  by (simp add: lenenc_bytes_def)

lemma length_ok_payload: "length (ok_payload a i s w) \<le> 23"
  using length_lenenc_bytes [of a] length_lenenc_bytes [of i] by (simp add: ok_payload_def)

context proto_source
begin

lemma set_next:
  assumes "is_at q r ts off p" "\<And>r'. is_at (g q) r' ts off p \<Longrightarrow> ends Q (f () r')"
    and "g = p_affectedRows_update (\<lambda>_. a) \<or> g = p_lastInsertId_update (\<lambda>_. a) \<or> g = p_statusFlags_update (\<lambda>_. a) \<or>
      g = p_warnings_update (\<lambda>_. a) \<or> g = p_resultsets_update (\<lambda>_. b)"
  shows "ends Q (bindL (setL g) f r)"
proof -
  have "same_proto q r" using assms(1) by (simp add: at_pos_def)
  then have "is_at (g q) (g r) ts off p"
    using assms(3) by (intro at_pos_set [OF assms(1)]) (auto intro: same_proto_update)
  from assms(2) [OF this] show ?thesis
    by (rule setL_step)
qed

lemma at_pos_caps: "is_at q r ts off p \<Longrightarrow> p_capabilityFlags r = p_capabilityFlags q"
  by (simp add: at_pos_def same_proto_fields)

lemma at_pos_status: "is_at q r ts off p \<Longrightarrow> p_statusFlags r = p_statusFlags q"
  by (simp add: at_pos_def same_proto_fields)

lemma caps_next:
  assumes "is_at q r ts off p" "ends Q (f (p_capabilityFlags q) r)"
  shows "ends Q (bindL (getL p_capabilityFlags) f r)"
  by (rule getL_step) (use assms at_pos_caps [OF assms(1)] in simp)

text \<open>The body of an OK packet without an info string.\<close>

lemma ok_body_next:
  assumes pos: "is_at q r (lenenc_bytes a @ lenenc_bytes i @ le_bytes 2 st @ le_bytes 2 w @ ts) off n"
    and n: "n = off + length (lenenc_bytes a) + length (lenenc_bytes i) + 4" "off \<le> 100"
    and caps: "has_cap q CLIENT_PROTOCOL_41" and v: "a < 2 ^ 64" "i < 2 ^ 64" "st < 2 ^ 16" "w < 2 ^ 16"
    and Q: "\<And>r'. is_at (after_ok a i st w q) r' ts n n \<Longrightarrow> ends Q (f () r')"
  shows "ends Q (bindL (read_ok_packet h) f r)"
proof -
  have l: "length (lenenc_bytes a) \<le> 9" "length (lenenc_bytes i) \<le> 9"
    by (rule length_lenenc_bytes)+
  have near: "int k \<le> near_end" if "k \<le> 200" for k :: nat
    using that by (simp add: near_end_def)
  have at_end: "ends Q (bindL (read_ok_info h) f r')" if "is_at (after_ok a i st w q) r' ts k n" "k = n" for r' k
    using Q [of r'] that by (simp add: read_ok_info_def at_pos_def isAtEndOfPacket_def bindL_def getL_def)
  show ?thesis
    unfolding read_ok_packet_def bindL_assoc
    apply (rule lenenc_next [OF pos v(1) near], use n(2) in simp)
    apply (rule set_next, assumption)
    apply (rule lenenc_next, assumption, rule v, rule near, use l n(2) in simp)
    apply (rule set_next, assumption)
    apply (rule caps_next, assumption)
    apply (rule if_step, use caps in simp)
    unfolding bindL_assoc
    apply (rule u16_next, assumption, rule v, rule near, use l n(2) in simp)
    apply (rule set_next, assumption)
    apply (rule u16_next, assumption, rule v, rule near, use l n(2) in simp)
    apply (rule set_next, assumption)
    apply (rule at_end, simp add: after_ok_def, simp add: n(1))
    by blast+
qed

lemma ok_packet_read:
  assumes wf: "buffer_wf ok r" and s: "stream rest r = header_bytes n seq @ ok_payload a i st w @ ts"
    and n: "n = length (ok_payload a i st w)" and caps: "has_cap r CLIENT_PROTOCOL_41"
    and v: "a < 2 ^ 64" "i < 2 ^ 64" "st < 2 ^ 16" "w < 2 ^ 16"
  shows "ends (\<lambda>x r'. x = Inr PACKET_OK \<and> is_at (after_ok a i st w r) r' ts n n) (readPacket h REGULAR r)"
proof -
  have small: "n < 2 ^ 24" using n length_ok_payload [of a i st w] by simp
  have s': "stream rest r = header_bytes n seq @ 0 # lenenc_bytes a @ lenenc_bytes i @ le_bytes 2 st @ le_bytes 2 w @ ts"
    using s by (simp add: ok_payload_def)
  have rp: "readPacket h REGULAR = bindL (get_header h) (\<lambda>_. bindL (get_u8 h) (packet_of_type h REGULAR))"
    by (simp add: readPacket_def)
  have pt: "packet_of_type h REGULAR (int (unat (0 :: byte))) r' = bindL (read_ok_packet h) (\<lambda>_. retL PACKET_OK) r'" for r'
    by (simp add: packet_of_type_def PACKET_EOF_def PACKET_OK_def bindL_def getL_def)
  show ?thesis
    unfolding rp
    apply (rule header_next [OF wf s' small])
    apply (rule u8_next, assumption, simp add: near_end_def)
    unfolding pt
    apply (rule ok_body_next [OF _ _ _ caps v], assumption)
    using n by (simp_all add: ok_payload_def ends_def)
qed

text \<open>The body of an ERR packet, behind its first byte.\<close>

lemma throw_step: "ends Q (Some (Inl e, r)) \<Longrightarrow> ends Q (throwL e r)"
  by simp

lemma err_body_throws:
  assumes pos: "is_at q r (le_bytes 2 code @ sqlState @ msg @ ts) off p"
    and p: "p = off + 2 + length sqlState + length msg" "off \<le> 100" and caps: "has_cap q CLIENT_PROTOCOL_41"
    and v: "code < 2 ^ 16" "length sqlState = 6" "length msg \<le> BUFFER_LEN"
    and Q: "\<And>r'. is_at q r' ts p p \<Longrightarrow> Q (Inl (server_error q code sqlState msg)) r'"
  shows "ends Q (read_err_packet h r)"
proof -
  have near: "int off \<le> near_end"
    using p(2) by (simp add: near_end_def)
  have b: "BUFFER_LEN \<le> length (r_buffer r')" if "is_at q r' ts' off' p" for r' ts' off'
    using that by (simp add: at_pos_def buffer_wf_def)
  have room: "length sqlState + 4 \<le> length (r_buffer r')" if "is_at q r' ts' off' p" for r' ts' off'
    using b [OF that] v(2) by (simp add: BUFFER_LEN_def)
  show ?thesis
    unfolding read_err_packet_def
    apply (rule u16_next [OF pos v(1) near])
    apply (rule getL_step)
    apply (subst at_pos_caps, assumption)
    apply (rule if_step [OF caps])
    apply (rule string_next, assumption)
       apply (use p in simp)
      apply (erule room)
     apply (use v(2) in simp)
    apply (rule eof_string_next, assumption)
      apply (use p in simp)
     apply (use b v(3) in \<open>fastforce intro: order_trans\<close>)
    apply (rule getL_step)
    apply (subst at_pos_status, assumption)+
    apply (simp add: ends_def Q server_error_def [symmetric])
    done
qed

lemma err_packet_throws:
  assumes wf: "buffer_wf ok r" and s: "stream rest r = header_bytes n seq @ err_payload code sqlState msg @ ts"
    and n: "n = length (err_payload code sqlState msg)" and caps: "has_cap r CLIENT_PROTOCOL_41"
    and v: "code < 2 ^ 16" "length sqlState = 6" "length msg \<le> BUFFER_LEN" and mode: "mode \<noteq> PREPARED_STMT_OK_CONTINUATION"
  shows "ends (\<lambda>x r'. x = Inl (server_error r code sqlState msg) \<and> is_at r r' ts n n) (readPacket h mode r)"
proof -
  have len: "n = 1 + 2 + length sqlState + length msg" and small: "n < 2 ^ 24"
    using n v by (simp_all add: err_payload_def BUFFER_LEN_def)
  have s': "stream rest r = header_bytes n seq @ 0xFF # le_bytes 2 code @ sqlState @ msg @ ts"
    using s by (simp add: err_payload_def)
  have rp: "readPacket h mode = bindL (get_header h) (\<lambda>_. bindL (get_u8 h) (packet_of_type h mode))"
    using mode by (simp add: readPacket_def)
  have pt: "packet_of_type h mode (int (unat (0xFF :: byte))) = read_err_packet h"
    by (simp add: fun_eq_iff packet_of_type_def PACKET_EOF_def PACKET_OK_def PACKET_ERR_def bindL_def getL_def)
  have one: "0 + 1 \<le> (100 :: nat)" by simp
  show ?thesis
    unfolding rp
    apply (rule header_next [OF wf s' small])
    apply (rule u8_next, assumption, simp add: near_end_def)
    unfolding pt
    by (rule err_body_throws [OF _ _ one caps v]) (simp_all add: len)
qed

end

section \<open>The answer to a command without a result\<close>

text \<open>The fields of the resultsets after an OK packet.\<close>

definition upd :: "nat \<Rightarrow> (resultsets \<Rightarrow> resultsets) \<Rightarrow> proto \<Rightarrow> proto" where
  "upd i f q = q\<lparr>p_resultsets := (p_resultsets q)[i := f (cur i q)]\<rparr>"

definition ok_fields :: "proto \<Rightarrow> resultsets \<Rightarrow> resultsets" where
  "ok_fields q s =
     (let s = s\<lparr>s_lastInsertId := p_lastInsertId q, s_warnings := p_warnings q, s_statusInfo := p_statusInfo q,
                s_noGoodIndexUsed := has_status q SERVER_STATUS_NO_GOOD_INDEX_USED,
                s_noIndexUsed := has_status q SERVER_STATUS_NO_INDEX_USED, s_isSlowQuery := has_status q SERVER_QUERY_WAS_SLOW\<rparr>
      in if has_cap q CLIENT_FOUND_ROWS then s\<lparr>s_foundRows := p_affectedRows q\<rparr> else s\<lparr>s_affectedRows := p_affectedRows q\<rparr>)"

definition ok_result :: "nat \<Rightarrow> proto \<Rightarrow> proto" where
  "ok_result i q = upd i (\<lambda>s. s\<lparr>s_nPlaceholders := 0, s_columns := []\<rparr>) (upd i (ok_fields q) q)"

lemma upd_upd: "upd i f (upd i g q) = upd i (\<lambda>s. f (g s)) q"
  by (cases "i < length (p_resultsets q)") (simp_all add: upd_def cur_def list_update_beyond)

lemma upd_status [simp]: "p_statusFlags (upd i f q) = p_statusFlags q"
  by (simp add: upd_def)

context proto_source
begin

lemma upd_next:
  assumes "is_at q r ts off p" "\<And>r'. is_at (upd i g q) r' ts off p \<Longrightarrow> ends Q (f () r')"
  shows "ends Q (bindL (updL i g) f r)"
proof -
  have same: "same_proto q r" using assms(1) by (simp add: at_pos_def)
  have "is_at (upd i g q) (upd i g r) ts off p"
    using same_proto_fields(3) [OF same] same_proto_update(5) [OF same]
    by (intro at_pos_set [OF assms(1)]) (auto simp: upd_def cur_def)
  from assms(2) [OF this] show ?thesis
    unfolding updL_def upd_def by (rule setL_step)
qed

lemma init_next:
  assumes "is_at q r ts off p" "\<And>r'. is_at (upd i (ok_fields q) q) r' ts off p \<Longrightarrow> ends Q (f () r')"
  shows "ends Q (bindL (initResultsets i) f r)"
proof -
  have "same_proto q r" using assms(1) by (simp add: at_pos_def)
  note same = same_proto_fields [OF this]
  have "bindL (initResultsets i) f r = bindL (updL i (ok_fields q)) f r"
    by (simp add: initResultsets_def bindL_def getL_def updL_def setL_def ok_fields_def [abs_def] same Let_def id_def)
  then show ?thesis
    using upd_next [OF assms(1), of i "ok_fields q" Q f] assms(2) by simp
qed

lemma ok_response_read:
  assumes wf: "buffer_wf ok r" and s: "stream rest r = header_bytes n seq @ ok_payload a ii st w @ ts"
    and n: "n = length (ok_payload a ii st w)" and caps: "has_cap r CLIENT_PROTOCOL_41"
    and v: "a < 2 ^ 64" "ii < 2 ^ 64" "st < 2 ^ 16" "w < 2 ^ 16"
  defines "q \<equiv> after_ok a ii st w r"
  shows "ends (\<lambda>x r'. x = Inr (if has_status q SERVER_MORE_RESULTS_EXISTS then HAS_MORE_RESULTSETS else IDLE) \<and>
      is_at (ok_result i q) r' ts n n) (readQueryResponse h i REGULAR False r)"
proof -
  let ?k = "\<lambda>(nColumns, nPlaceholders).
      if MAX_SAFE_INTEGER < nColumns then throwL (too_many_columns nColumns)
       else
         bindL (whenL (0 < nPlaceholders) (skipColumnDefinitionPackets h (nat nPlaceholders))) (\<lambda>_.
         bindL (updL i (\<lambda>s. s\<lparr>s_nPlaceholders := nPlaceholders\<rparr>)) (\<lambda>_.
         bindL (if nColumns = 0 then retL []
                else if False then bindL (skipColumnDefinitionPackets h (nat nColumns)) (\<lambda>_. retL [])
                else readColumnDefinitionPackets h (nat nColumns)) (\<lambda>columns.
         bindL (updL i (\<lambda>s. s\<lparr>s_columns := columns\<rparr>)) (\<lambda>_.
         getL (state_after_response nColumns)))))"
  have round: "ends (\<lambda>x r'. x = Inr (Some (0, 0)) \<and> is_at (upd i (ok_fields q) q) r' ts n n) (response_round h i REGULAR r)"
    unfolding response_round_def
    apply (rule bind_step, rule ends_mono [OF ok_packet_read [OF wf s n caps v]])
    apply (auto simp: q_def intro!: init_next)
    apply (simp add: ends_def)
    done
  have head: "ends (\<lambda>x r'. x = Inr (0, 0) \<and> is_at (upd i (ok_fields q) q) r' ts n n) (response_head h i REGULAR r)"
    using round by (auto simp: ends_def response_head.simps [of h i REGULAR r])
  have tail: "ends (\<lambda>x r'. x = Inr (if has_status q SERVER_MORE_RESULTS_EXISTS then HAS_MORE_RESULTSETS else IDLE) \<and>
      is_at (ok_result i q) r' ts n n) (?k (0, 0) r1)"
    if r1: "is_at (upd i (ok_fields q) q) r1 ts n n" for r1
  proof -
    have "\<not> MAX_SAFE_INTEGER < 0" by (simp add: MAX_SAFE_INTEGER_def)
    then show ?thesis
      apply (simp only: prod.case if_False whenL_def less_irrefl refl if_True)
      apply (rule retL_step, rule upd_next [OF r1], rule retL_step, rule upd_next, assumption)
      apply (simp add: ends_def getL_def state_after_response_def at_pos_status ok_result_def upd_upd)
      done
  qed
  show ?thesis
    unfolding readQueryResponse_def
    by (rule bind_step, rule ends_mono [OF head]) (use tail in auto)
qed

end

end
