(* ===== verification/QuerySpec.thy ===== *)
theory QuerySpec
  imports PacketSpec
begin

text \<open>
  What a query does from its beginning to its end, in the ordinary protocol and with a query that fits the buffer: the
  bytes that go out, the state of the connection afterwards, and what the resultsets hold.
\<close>

section \<open>Sending a command\<close>

text \<open>A connection between two commands, with nothing to be sent before the next one.\<close>

definition between_commands :: "proto \<Rightarrow> bool" where
  "between_commands r \<longleftrightarrow> \<not> is_compressed r \<and> w_fail r = None \<and> r_bufferStart r = r_bufferEnd r \<and>
     buffer_wf plain_ok r \<and> p_onEndSession r = None \<and> p_pendingCloseStmts r = [] \<and> p_pendingChangeSchema r = []"

lemma between_commands_stream: "between_commands r \<Longrightarrow> stream pending r = pending (r_src r)"
  by (simp add: between_commands_def stream_def avail_def)

text \<open>A packet of less than the maximal length.\<close>

definition packet :: "int \<Rightarrow> byte list \<Rightarrow> byte list" where
  "packet seq p = header_bytes (length p) seq @ p"

text \<open>The state after a command of one packet.\<close>

definition command_packet :: "int \<Rightarrow> byte list \<Rightarrow> byte list" where
  "command_packet c bs = header_bytes (1 + length bs) 0 @ word_of_int c # bs"

definition after_command :: "byte list \<Rightarrow> byte list \<Rightarrow> proto \<Rightarrow> proto" where
  "after_command buffer bytes r =
     r\<lparr>r_buffer := buffer, r_bufferStart := 0, r_bufferEnd := 0, r_sequenceId := 1, w_commandStarts := [],
       w_sent := w_sent r @ [bytes]\<rparr>"

lemma command_sent:
  assumes "between_commands r" "length bs + 5 \<le> length (r_buffer r)" "length bs + 1 < 0xFFFFFF"
  obtains b where "bindM (new_command c) (\<lambda>_. send_bytes cz False bs) r = (Inr False, after_command b (command_packet c bs) r)"
    "length b = length (r_buffer r)"
proof -
  have r: "\<not> is_compressed r" "w_fail r = None" "r_bufferEnd r = r_bufferStart r"
    using assms(1) by (simp_all add: between_commands_def)
  define r1 where "r1 = r\<lparr>r_bufferStart := 0, r_bufferEnd := 5, w_commandStarts := [], r_sequenceId := 0,
    r_buffer := (r_buffer r)[4 := word_of_int c]\<rparr>"
  have c: "new_command c r = (Inr (), r1)"
    using r by (simp add: new_command_def startWritingNewPacket_def bindM_def modifyM_def is_compressed_def writeUint8_def
        write_element_def r1_def)
  define r2 where "r2 = r1\<lparr>r_buffer := arr_set (r_buffer r1) 5 bs, r_bufferEnd := 5 + length bs\<rparr>"
  have w: "writing r2"
    using r assms(2,3) by (simp add: writing_def r2_def r1_def is_compressed_def filled_def arr_simps)
  have f: "filled r1 + length bs = length bs + 1"
    by (simp add: r1_def filled_def)
  obtain b where b: "setHeader (length bs + 1) r2 = (Inr (), r2\<lparr>r_sequenceId := r_sequenceId r2 + 1, r_buffer := b\<rparr>)"
    "take (r_bufferEnd r2) b = waiting r2 @ header_bytes (length bs + 1) (r_sequenceId r2) @ body r2"
    "length b = length (r_buffer r2)"
    by (rule setHeader_in_buffer [OF w, of "length bs + 1"]) (use assms(3) in auto)
  have body: "waiting r2 = []" "body r2 = word_of_int c # bs" "r_sequenceId r2 = 0"
  proof -
    have "take (Suc 4) ((r_buffer r)[4 := word_of_int c]) = take 4 (r_buffer r) @ [word_of_int c]"
      using assms(2) by (subst take_Suc_conv_app_nth) simp_all
    then show "body r2 = word_of_int c # bs"
      using assms(2) by (simp add: body_def r2_def r1_def subarray_def arr_set_def eval_nat_numeral(3) numeral_eq_Suc)
  qed (simp_all add: waiting_def r2_def r1_def)
  have "send_bytes cz False bs r1 = (Inr False, after_command b (command_packet c bs) r)"
  proof -
    have "full_packets cz bs r1 = (Inr bs, r1)"
      using f assms(3) by (simp add: full_packets.simps)
    moreover have "last_packet cz False bs r1 = (Inr False, r2\<lparr>r_sequenceId := 1, r_buffer := b,
        w_sent := w_sent r @ [take (r_bufferEnd r2) b]\<rparr>)"
      using f b(1) assms(2) r by (simp add: last_packet_def Let_def bindM_def r2_def r1_def sendPackets_plain is_compressed_def)
    ultimately show ?thesis
      unfolding b(2) body
      by (simp add: send_bytes_def bindM_def as_SendWithDataError_def catchM_def ready_for_reader_def after_command_def
          command_packet_def r2_def r1_def)
  qed
  then show thesis
    using that [of b] c b(3) assms(2) by (simp add: bindM_def r2_def r1_def arr_simps)
qed

text \<open>Nothing is sent before the query, and no answer of an earlier command is read.\<close>

lemma query_sent:
  assumes "between_commands r" "length bs + 5 \<le> length (r_buffer r)" "length bs + 1 < 0xFFFFFF"
    and "q_multiStatements q = NO_MATTER"
  obtains b where "query_send h (SqlBytes bs) q r = Some (Inr None, after_command b (command_packet COM_QUERY bs) r)"
    "length b = length (r_buffer r)"
proof -
  obtain b where b: "bindM (new_command COM_QUERY) (\<lambda>_. send_bytes (e_cz h) False bs) r =
      (Inr False, after_command b (command_packet COM_QUERY bs) r)" "length b = length (r_buffer r)"
    by (rule command_sent [OF assms(1-3)])
  then have sent: "bindL (total_of (new_command COM_QUERY)) (\<lambda>_. bindL (sendWithData (e_cz h) False (SqlBytes bs)) f) r =
      f False (after_command b (command_packet COM_QUERY bs) r)" for f :: "bool \<Rightarrow> exn option pl"
    by (auto simp: bindM_def bindL_def split: prod.splits sum.splits)
  have "p_pendingCloseStmts r = []" "p_pendingChangeSchema r = []"
    using assms(1) by (simp_all add: between_commands_def)
  then have "doPendingAll h r = Some (Inr (), r)" "maybeInitDb r = Some (Inr False, r)"
    "maybeSetOption (q_multiStatements q) r = Some (Inr False, r)"
    using assms(4) by (simp_all add: doPendingAll.simps doPending_def maybeInitDb_def maybeSetOption_def bindL_def getL_def
        MULTI_STATEMENTS_ON_def MULTI_STATEMENTS_OFF_def)
  then have "query_send h (SqlBytes bs) q r =
      bindL (total_of (new_command COM_QUERY)) (\<lambda>_. bindL (sendWithData (e_cz h) False (SqlBytes bs)) (\<lambda>_. bindL (retL None) retL)) r"
    by (simp add: query_send_def bindL_def)
  then show thesis
    unfolding sent using that [OF _ b(2)] by (simp add: bindL_def)
qed

section \<open>The answer\<close>

definition with_new :: "query_options \<Rightarrow> proto \<Rightarrow> proto" where
  "with_new q r = r\<lparr>p_resultsets := p_resultsets r @ [new_resultsets q]\<rparr>"

lemma query_response_new:
  "query_response h q error r =
     bindL (readQueryResponse h (length (p_resultsets r)) REGULAR False) (\<lambda>state.
     bindL (attach_resultsets h q (length (p_resultsets r)) state) (\<lambda>state.
     bindL (setL (setState state)) (\<lambda>_. case error of Some e \<Rightarrow> throwL e | None \<Rightarrow> retL (length (p_resultsets r))))) (with_new q r)"
  by (simp add: query_response_def newL_def bindL_def getL_def setL_def with_new_def)

lemma query_response_ok:
  assumes "buffer_wf plain_ok r" "stream pending r = header_bytes n seq @ ok_payload a ii st w"
    and "n = length (ok_payload a ii st w)" "has_cap r CLIENT_PROTOCOL_41"
    and "a < 2 ^ 64" "ii < 2 ^ 64" "st < 2 ^ 16" "w < 2 ^ 16" "\<not> flag (int st) SERVER_MORE_RESULTS_EXISTS"
    and "p_onEndSession r = None"
  shows "\<exists>r'. query_response h q None r = Some (Inr (length (p_resultsets r)), r'\<lparr>p_state := IDLE\<rparr>) \<and>
    at_pos pending plain_ok (ok_result (length (p_resultsets r)) (after_ok a ii st w (with_new q r))) r' [] n n"
proof -
  let ?r = "with_new q r"
  have "ends (\<lambda>x r'. x = Inr IDLE \<and>
      at_pos pending plain_ok (ok_result (length (p_resultsets r)) (after_ok a ii st w ?r)) r' [] n n)
      (readQueryResponse h (length (p_resultsets r)) REGULAR False ?r)"
    using plain_proto.ok_response_read [where h = h and r = ?r and n = n and seq = seq and a = a and ii = ii and st = st and w = w and
        ts = "[]" and i = "length (p_resultsets r)"] assms
    by (simp add: with_new_def buffer_wf_def stream_def avail_def after_ok_def)
  then obtain r' where r': "readQueryResponse h (length (p_resultsets r)) REGULAR False ?r = Some (Inr IDLE, r')"
    "at_pos pending plain_ok (ok_result (length (p_resultsets r)) (after_ok a ii st w ?r)) r' [] n n"
    by (auto simp: ends_def)
  have "p_onEndSession r' = None"
    using same_proto_fields(11) [of "ok_result (length (p_resultsets r)) (after_ok a ii st w ?r)" r'] r'(2) assms(10)
    by (simp add: at_pos_def ok_result_def upd_def after_ok_def with_new_def)
  with r' show ?thesis
    by (auto simp: query_response_new attach_resultsets_def bindL_def setL_def setState_def)
qed

lemma query_response_err:
  assumes "buffer_wf plain_ok r" "stream pending r = header_bytes n seq @ err_payload code sqlState msg"
    and "n = length (err_payload code sqlState msg)" "has_cap r CLIENT_PROTOCOL_41"
    and "code < 2 ^ 16" "length sqlState = 6" "length msg \<le> BUFFER_LEN"
  shows "\<exists>r'. query_response h q error r = Some (Inl (server_error r code sqlState msg), r') \<and>
    at_pos pending plain_ok (with_new q r) r' [] n n"
proof -
  let ?r = "with_new q r"
  have "server_error ?r = server_error r"
    by (simp add: fun_eq_iff server_error_def with_new_def)
  then have "ends (\<lambda>x r'. x = Inl (server_error r code sqlState msg) \<and> at_pos pending plain_ok ?r r' [] n n)
      (readPacket h REGULAR ?r)"
    using plain_proto.err_packet_throws [where h = h and r = ?r and n = n and seq = seq and code = code and
        sqlState = sqlState and msg = msg and mode = REGULAR and ts = "[]"] assms
    by (simp add: with_new_def buffer_wf_def stream_def avail_def)
  then obtain r' where "readPacket h REGULAR ?r = Some (Inl (server_error r code sqlState msg), r')"
    "at_pos pending plain_ok ?r r' [] n n"
    by (auto simp: ends_def)
  then show ?thesis
    by (auto simp: query_response_new readQueryResponse_def response_head.simps response_round_def bindL_def)
qed

section \<open>The whole query\<close>

text \<open>What is read to its end in a connection with no data left is ready for the next command.\<close>

lemma same_proto_w_fail: "same_proto q r \<Longrightarrow> w_fail r = w_fail q"
  by (cases q; cases r; simp add: same_proto_def)

lemma between_commandsI:
  assumes "at_pos pending plain_ok q r [] n n" "w_fail q = None"
    "p_onEndSession q = None" "p_pendingCloseStmts q = []" "p_pendingChangeSchema q = []"
  shows "between_commands (r\<lparr>p_state := s\<rparr>)"
proof -
  have r: "same_proto q r" "buffer_wf plain_ok r" "stream pending r = []"
    using assms(1) by (simp_all add: at_pos_def)
  have b: "r_bufferStart r \<le> r_bufferEnd r" "r_bufferEnd r \<le> length (r_buffer r)" "avail r = []" "plain_ok (r_src r)"
    using r by (simp_all add: stream_def buffer_wf_def)
  then have "r_bufferStart r = r_bufferEnd r"
    using length_avail [OF b(2)] by (simp add: haveBytes_def)
  then show ?thesis
    using assms(2-5) r b same_proto_fields(11,13,14) [OF r(1)] same_proto_w_fail [OF r(1)]
    by (simp add: between_commands_def is_compressed_def buffer_wf_def plain_ok_def)
qed

lemma query_started:
  assumes "p_state r = IDLE \<or> p_state r = IDLE_IN_POOL"
  shows "sendComQuery h sql q k r = query_loop h sql q (p_state r = IDLE_IN_POOL) k (r\<lparr>p_state := QUERYING\<rparr>)"
  using assms by (auto simp: sendComQuery_def setQueryingState_def bindL_def getL_def setL_def)

text \<open>An OK packet ends the query.\<close>

lemma query_with_ok:
  assumes "between_commands r" "p_state r = IDLE \<or> p_state r = IDLE_IN_POOL" "has_cap r CLIENT_PROTOCOL_41"
    and "length sql + 5 \<le> length (r_buffer r)" "length sql + 1 < 0xFFFFFF" "q_multiStatements q = NO_MATTER"
    and "pending (r_src r) = header_bytes n seq @ ok_payload a ii st w" "n = length (ok_payload a ii st w)"
    and "a < 2 ^ 64" "ii < 2 ^ 64" "st < 2 ^ 16" "w < 2 ^ 16" "\<not> flag (int st) SERVER_MORE_RESULTS_EXISTS"
  shows "\<exists>r' b. sendComQuery h (SqlBytes sql) q k r = Some (Inr (Some (length (p_resultsets r))), r'\<lparr>p_state := IDLE\<rparr>) \<and>
    at_pos pending plain_ok (ok_result (length (p_resultsets r)) (after_ok a ii st w (with_new q
      (after_command b (command_packet COM_QUERY sql) (r\<lparr>p_state := QUERYING\<rparr>))))) r' [] n n"
proof -
  let ?r = "r\<lparr>p_state := QUERYING\<rparr>"
  have bc: "between_commands ?r"
    using assms(1) by (simp add: between_commands_def is_compressed_def buffer_wf_def)
  obtain b where b: "query_send h (SqlBytes sql) q ?r = Some (Inr None, after_command b (command_packet COM_QUERY sql) ?r)"
    "length b = length (r_buffer ?r)"
    by (rule query_sent [OF bc]) (use assms(4-6) in auto)
  let ?s = "after_command b (command_packet COM_QUERY sql) ?r"
  have s: "buffer_wf plain_ok ?s" "stream pending ?s = pending (r_src r)" "p_onEndSession ?s = None"
    "has_cap ?s CLIENT_PROTOCOL_41" "p_resultsets ?s = p_resultsets r"
    using bc b(2) assms(3) by (simp_all add: after_command_def between_commands_def buffer_wf_def stream_def avail_def)
  obtain r' where "query_response h q None ?s = Some (Inr (length (p_resultsets r)), r'\<lparr>p_state := IDLE\<rparr>)"
    "at_pos pending plain_ok (ok_result (length (p_resultsets r)) (after_ok a ii st w (with_new q ?s))) r' [] n n"
    using query_response_ok [OF s(1) _ assms(8) s(4) assms(9-13) s(3)] s(2,5) assms(7) by metis
  with b(1) show ?thesis
    by (auto simp: query_started [OF assms(2)] query_loop.simps query_attempt_def bindL_def tryL_def)
qed

text \<open>An ERR packet ends the attempt.\<close>

lemma attempt_with_err:
  assumes "between_commands r" "has_cap r CLIENT_PROTOCOL_41"
    and "length sql + 5 \<le> length (r_buffer r)" "length sql + 1 < 0xFFFFFF" "q_multiStatements q = NO_MATTER"
    and "pending (r_src r) = header_bytes n seq @ err_payload code sqlState msg" "n = length (err_payload code sqlState msg)"
    and "code < 2 ^ 16" "length sqlState = 6" "length msg \<le> BUFFER_LEN"
  shows "\<exists>r' b. query_attempt h (SqlBytes sql) q r = Some (Inl (server_error r code sqlState msg), r') \<and>
    at_pos pending plain_ok (with_new q (after_command b (command_packet COM_QUERY sql) r)) r' [] n n"
proof -
  obtain b where b: "query_send h (SqlBytes sql) q r = Some (Inr None, after_command b (command_packet COM_QUERY sql) r)"
    "length b = length (r_buffer r)"
    by (rule query_sent [OF assms(1)]) (use assms(3-5) in auto)
  let ?s = "after_command b (command_packet COM_QUERY sql) r"
  have s: "buffer_wf plain_ok ?s" "stream pending ?s = pending (r_src r)" "has_cap ?s CLIENT_PROTOCOL_41"
    "server_error ?s = server_error r"
    using assms(1,2) b(2)
    by (simp_all add: fun_eq_iff after_command_def between_commands_def buffer_wf_def stream_def avail_def server_error_def)
  obtain r' where "query_response h q None ?s = Some (Inl (server_error r code sqlState msg), r')"
    "at_pos pending plain_ok (with_new q ?s) r' [] n n"
    using query_response_err [OF s(1) _ assms(7) s(3) assms(8-10)] s(2,4) assms(6) by metis
  with b(1) show ?thesis
    by (auto simp: query_attempt_def bindL_def tryL_def first_error_def)
qed

text \<open>If it is not to be retried, the query throws.\<close>

lemma query_with_err:
  assumes "between_commands r" "p_state r = IDLE \<or> p_state r = IDLE_IN_POOL" "has_cap r CLIENT_PROTOCOL_41"
    and "length sql + 5 \<le> length (r_buffer r)" "length sql + 1 < 0xFFFFFF" "q_multiStatements q = NO_MATTER"
    and "pending (r_src r) = header_bytes n seq @ err_payload code sqlState msg" "n = length (err_payload code sqlState msg)"
    and "code < 2 ^ 16" "length sqlState = 6" "length msg \<le> BUFFER_LEN"
    and "\<not> wants_retry k (q_retryLockWaitTimeout q) (server_error r code sqlState msg)" "\<not> q_noConvertError q"
  shows "\<exists>r' b. sendComQuery h (SqlBytes sql) q k r = Some (Inl (server_error r code sqlState msg), r'\<lparr>p_state := IDLE\<rparr>) \<and>
    at_pos pending plain_ok (with_new q (after_command b (command_packet COM_QUERY sql) (r\<lparr>p_state := QUERYING\<rparr>))) r' [] n n"
proof -
  let ?r = "r\<lparr>p_state := QUERYING\<rparr>"
  have bc: "between_commands ?r" and e: "server_error ?r = server_error r"
    using assms(1) by (simp_all add: fun_eq_iff between_commands_def is_compressed_def buffer_wf_def server_error_def)
  obtain r' b where r': "query_attempt h (SqlBytes sql) q ?r = Some (Inl (server_error r code sqlState msg), r')"
    "at_pos pending plain_ok (with_new q (after_command b (command_packet COM_QUERY sql) ?r)) r' [] n n"
    using attempt_with_err [OF bc _ _ assms(5,6) _ assms(8-11), of seq h] assms(3,4,7) e by auto
  have "p_onEndSession r' = None"
    using same_proto_fields(11) [of "with_new q (after_command b (command_packet COM_QUERY sql) ?r)" r'] r'(2) assms(1)
    by (simp add: at_pos_def with_new_def after_command_def between_commands_def)
  then have fatal: "rethrowErrorIfFatal (server_error r code sqlState msg) f r' =
      Some (Inl (server_error r code sqlState msg), r'\<lparr>p_state := IDLE\<rparr>)" for f
    by (simp add: rethrowErrorIfFatal_def server_error_def new_SqlError_def bindL_def setL_def setState_def)
  show ?thesis
    using r' fatal assms(12,13)
    by (auto simp: query_started [OF assms(2)] query_loop.simps bindL_def tryL_def)
qed

section \<open>The status of a prepared CALL\<close>

text \<open>
  An OK packet that is read in the mode of rows and prepared statements is taken for the answer to COM_STMT_PREPARE: the
  number of affected rows, the insert id and the status flags become the id of the statement, the number of warnings becomes
  the number of columns, and more is expected.
\<close>

definition misread :: "nat \<Rightarrow> int \<Rightarrow> proto \<Rightarrow> proto" where
  "misread i v q = upd i (\<lambda>s. s\<lparr>s_isPreparedStmt := True, s_stmtId := v\<rparr>) q"

lemma small_lenenc: "v < 251 \<Longrightarrow> lenenc_bytes v = [word_of_nat v]"
  by (simp add: lenenc_bytes_def)

lemma status_as_stmt_id:
  assumes "a < 251" "ii < 251" "st < 2 ^ 16"
  shows "word_of_nat a # word_of_nat ii # le_bytes 2 st = le_bytes 4 (a + 256 * ii + 65536 * st)"
proof -
  have e: "a + 256 * ii + 65536 * st = a + 256 * (ii + 256 * st)"
    by simp
  have m: "(x + 256 * k) div 256 = k" "(x + 256 * k) mod 256 = x" if "x < 251" for x k :: nat
    using that by simp_all
  have "le_bytes (Suc (Suc 2)) (a + 256 * (ii + 256 * st)) = word_of_nat a # word_of_nat ii # le_bytes 2 st"
    by (simp only: le_bytes.simps m [OF assms(1), of "ii + 256 * st"] m [OF assms(2), of st])
  then show ?thesis
    unfolding e by simp
qed

lemma bindL_Some: "m r = Some (Inr a, r') \<Longrightarrow> bindL m f r = f a r'"
  by (simp add: bindL_def)

context proto_source
begin

lemma status_misread:
  assumes wf: "buffer_wf ok r" and s: "stream rest r = packet seq (ok_payload a ii st w)"
    and v: "a < 251" "ii < 251" "st < 2 ^ 16" "w < 2 ^ 16"
  shows "ends (\<lambda>x r'. x = Inl lost_connection \<and> same_proto (misread i (int (a + 256 * ii + 65536 * st)) r) r')
    (readQueryResponse h i ROWS_OR_PREPARED_STMT skip r)"
proof -
  let ?id = "a + 256 * ii + 65536 * st"
  have s': "stream rest r = header_bytes 7 seq @ 0 # le_bytes 4 ?id @ le_bytes 2 w @ []"
    using s v by (simp add: packet_def ok_payload_def small_lenenc status_as_stmt_id [OF v(1-3), symmetric])
  have id: "?id < 2 ^ 32"
    using v by simp
  have pt: "packet_of_type h ROWS_OR_PREPARED_STMT (int (unat (0 :: byte))) r' = retL PACKET_NOT_READ_BIT r'" for r'
    by (simp add: packet_of_type_def PACKET_EOF_def PACKET_OK_def bindL_def getL_def)
  have rp: "readPacket h ROWS_OR_PREPARED_STMT =
      bindL (get_header h) (\<lambda>_. bindL (get_u8 h) (packet_of_type h ROWS_OR_PREPARED_STMT))"
    by (simp add: readPacket_def)
  have near: "int k \<le> near_end" if "k \<le> 200" for k :: nat
    using that by (simp add: near_end_def)
  have no_ok: "PACKET_NOT_READ_BIT \<noteq> PACKET_OK"
    by (simp add: PACKET_NOT_READ_BIT_def PACKET_OK_def)
  have kind: "ends (\<lambda>x r'. x = Inr PACKET_NOT_READ_BIT \<and> is_at r r' (le_bytes 4 ?id @ le_bytes 2 w @ []) (0 + 1) 7)
      (readPacket h ROWS_OR_PREPARED_STMT r)"
    unfolding rp
    apply (rule header_next [OF wf s'], simp)
    apply (rule u8_next, assumption, simp add: near_end_def)
    unfolding pt by (simp add: ends_def)
  then obtain r1 where r1: "readPacket h ROWS_OR_PREPARED_STMT r = Some (Inr PACKET_NOT_READ_BIT, r1)"
    "is_at r r1 (le_bytes 4 ?id @ le_bytes 2 w @ []) (0 + 1) 7"
    by (auto simp: ends_def)
  have "ends (\<lambda>x r'. x = Inl lost_connection \<and> same_proto (misread i (int ?id) r) r')
      (response_round h i ROWS_OR_PREPARED_STMT r)"
    unfolding response_round_def bindL_Some [where m = "readPacket h ROWS_OR_PREPARED_STMT" and r = r, OF r1(1)]
    apply (subst if_not_P [OF no_ok], subst if_P [OF refl])
    apply (rule upd_next [OF r1(2)])
    apply (rule u32_next, assumption, rule id, simp add: near_end_def)
    apply (rule upd_next, assumption)
    apply (rule u16_next, assumption, rule v, simp add: near_end_def)
    apply (rule u16_lost, assumption, simp, simp add: near_end_def)
    by (simp add: misread_def upd_upd)
  then have "ends (\<lambda>x r'. x = Inl lost_connection \<and> same_proto (misread i (int ?id) r) r')
      (response_head h i ROWS_OR_PREPARED_STMT r)"
    by (auto simp: ends_def response_head.simps [of h i ROWS_OR_PREPARED_STMT r])
  then show ?thesis
    by (auto simp: readQueryResponse_def ends_def bindL_def)
qed

lemma next_status_misread:
  assumes wf: "buffer_wf ok r" and s: "stream rest r = packet seq (ok_payload a ii st w)"
    and v: "a < 251" "ii < 251" "st < 2 ^ 16" "w < 2 ^ 16"
    and r: "p_state r = HAS_MORE_RESULTSETS" "p_curResultsets r = Some i" "i < length (p_resultsets r)"
      "s_isPreparedStmt (cur i r)" "p_onEndSession r = None"
  shows "\<exists>r'. nextResultset h ig r = Some (Inl lost_connection, r') \<and> p_state r' = ERROR_STATE \<and>
    p_closed r' = p_closed r + 1 \<and> s_stmtId (cur i r') = int (a + 256 * ii + 65536 * st)"
proof -
  let ?r = "upd i reset_fields (r\<lparr>p_state := QUERYING\<rparr>)"
  have "buffer_wf ok ?r" "stream rest ?r = stream rest r"
    using wf by (simp_all add: upd_def buffer_wf_def stream_def avail_def)
  then obtain r' where r': "readQueryResponse h i ROWS_OR_PREPARED_STMT False ?r = Some (Inl lost_connection, r')"
    "same_proto (misread i (int (a + 256 * ii + 65536 * st)) ?r) r'"
    using status_misread [of ?r seq a ii st w i False] s v by (auto simp: ends_def)
  have "next_response h r = Some (Inl lost_connection, r')"
    using r r'(1) by (simp add: next_response_def bindL_def setL_def getL_def cur_resultsets_def updL_def upd_def cur_def)
  then have "nextResultset h ig r = rethrowError lost_connection r'"
    using r(1) by (simp add: nextResultset_def bindL_def getL_def tryL_def)
  moreover have "p_state r' = QUERYING" "p_onEndSession r' = None" "p_closed r' = p_closed r"
    "s_stmtId (cur i r') = int (a + 256 * ii + 65536 * st)"
    using same_proto_fields [OF r'(2)] r by (simp_all add: misread_def upd_def cur_def)
  ultimately show ?thesis
    by (simp add: rethrowError_def bindL_def setL_def setState_def closer_dispose_def lost_connection_def cur_def)
qed

end

section \<open>The end of a session\<close>

lemma terminated_refuses: "p_state r = TERMINATED \<Longrightarrow> sendComQuery h sql q k r = Some (Inl connection_terminated, r)"
  by (simp add: sendComQuery_def setQueryingState_def bindL_def getL_def)

lemma end_rollback_terminated: "p_state r = TERMINATED \<Longrightarrow> end_rollback h xaId r = Some (Inr (), r)"
  by (simp add: end_rollback_def whenL_def bindL_def getL_def tryL_def terminated_refuses)

section \<open>The extended metadata of a column\<close>

definition attr_block :: "(byte \<times> byte list) list \<Rightarrow> byte list" where
  "attr_block attrs = concat (map (\<lambda>(k, v). k # word_of_nat (length v) # v) attrs)"

lemma json_bytes:
  "(length v = 4 \<and> (pre @ v @ ts) ! length pre = of_char (CHR ''j'') \<and> (pre @ v @ ts) ! (length pre + 1) = of_char (CHR ''s'') \<and>
    (pre @ v @ ts) ! (length pre + 2) = of_char (CHR ''o'') \<and> (pre @ v @ ts) ! (length pre + 3) = of_char (CHR ''n'')) =
   (v = ascii ''json'')" (is "?l = ?r")
proof
  assume l: ?l
  then obtain a b c d where "v = [a, b, c, d]"
    by (auto simp: numeral_eq_Suc length_Suc_conv)
  with l show ?r
    by (simp add: nth_append ascii_def)
qed (simp add: nth_append ascii_def)

lemma format_is_json_block:
  "\<forall>(k, v) \<in> set attrs. length v < 256 \<Longrightarrow>
   format_is_json (pre @ attr_block attrs) (length pre) =
     (case find (\<lambda>(k, v). unat k = FORMAT_NAME) attrs of Some (k, v) \<Rightarrow> v = ascii ''json'' | None \<Rightarrow> False)"
proof (induction attrs arbitrary: pre)
  case Nil
  then show ?case by (simp add: format_is_json.simps attr_block_def)
next
  case (Cons kv attrs)
  obtain k v where kv: "kv = (k, v)" by (cases kv)
  let ?pre = "pre @ [k, word_of_nat (length v)]"
  have len: "unat (word_of_nat (length v) :: byte) = length v"
    using Cons.prems kv by (simp add: unat_of_nat)
  have b: "pre @ attr_block (kv # attrs) = ?pre @ v @ attr_block attrs"
    by (simp add: attr_block_def kv)
  have step: "format_is_json (pre @ attr_block (kv # attrs)) (length pre) =
      (if unat k = FORMAT_NAME then v = ascii ''json'' else format_is_json ((?pre @ v) @ attr_block attrs) (length (?pre @ v)))"
    unfolding b using json_bytes [of v ?pre "attr_block attrs"]
    by (subst format_is_json.simps) (simp add: Let_def nth_append len)
  show ?case
    unfolding step using Cons.IH [of "?pre @ v"] Cons.prems by (simp add: kv)
qed

end
