(* ===== verification/ExecuteSpec.thy ===== *)
theory ExecuteSpec
  imports Execute QuerySpec
begin

text \<open>
  What the execution of a prepared statement sends: one packet, whose header announces exactly its length, however often
  the buffer is flushed on the way.
\<close>

section \<open>Writing with flushes\<close>

text \<open>A writer of the ordinary protocol over a connection that works, and what has left it or is in its buffer.\<close>

definition wr :: "proto \<Rightarrow> bool" where
  "wr r \<longleftrightarrow> \<not> is_compressed r \<and> w_fail r = None \<and> r_bufferStart r = 0 \<and> r_bufferEnd r \<le> length (r_buffer r)"

definition out :: "proto \<Rightarrow> byte list" where
  "out r = sent r @ take (r_bufferEnd r) (r_buffer r)"

text \<open>\<open>m\<close> adds \<open>bs\<close> to that, and changes nothing but the buffer and what is sent.\<close>

definition emits :: "unit pm \<Rightarrow> proto \<Rightarrow> byte list \<Rightarrow> bool" where
  "emits m r bs \<longleftrightarrow>
     (\<exists>b e w. let r' = r\<lparr>r_buffer := b, r_bufferEnd := e, w_sent := w\<rparr>
       in m r = (Inr (), r') \<and> out r' = out r @ bs \<and> length b = length (r_buffer r) \<and> e \<le> length b)"

lemma emitsE:
  assumes "emits m r bs"
  obtains b e w where "m r = (Inr (), r\<lparr>r_buffer := b, r_bufferEnd := e, w_sent := w\<rparr>)"
    "out (r\<lparr>r_buffer := b, r_bufferEnd := e, w_sent := w\<rparr>) = out r @ bs"
    "length b = length (r_buffer r)" "e \<le> length b"
  using assms by (auto simp: emits_def Let_def)

lemma wr_update: "wr r \<Longrightarrow> e \<le> length b \<Longrightarrow> wr (r\<lparr>r_buffer := b, r_bufferEnd := e, w_sent := w\<rparr>)"
  by (simp add: wr_def is_compressed_def)

lemma emits_nothing: "wr r \<Longrightarrow> emits (ret ()) r []"
  unfolding emits_def Let_def
  by (rule exI [of _ "r_buffer r"], rule exI [of _ "r_bufferEnd r"], rule exI [of _ "w_sent r"])
    (simp add: wr_def)

lemma emits_bind:
  assumes "emits m r bs" "wr r"
    and "\<And>r'. wr r' \<Longrightarrow> length (r_buffer r') = length (r_buffer r) \<Longrightarrow> emits (f ()) r' cs"
  shows "emits (bindM m f) r (bs @ cs)"
proof -
  obtain b e w where m: "m r = (Inr (), r\<lparr>r_buffer := b, r_bufferEnd := e, w_sent := w\<rparr>)"
    "out (r\<lparr>r_buffer := b, r_bufferEnd := e, w_sent := w\<rparr>) = out r @ bs"
    "length b = length (r_buffer r)" "e \<le> length b"
    by (rule emitsE [OF assms(1)])
  let ?r = "r\<lparr>r_buffer := b, r_bufferEnd := e, w_sent := w\<rparr>"
  have "emits (f ()) ?r cs"
    by (rule assms(3) [OF wr_update [OF assms(2) m(4)]]) (simp add: m(3))
  then obtain b' e' w' where f: "f () ?r = (Inr (), ?r\<lparr>r_buffer := b', r_bufferEnd := e', w_sent := w'\<rparr>)"
    "out (?r\<lparr>r_buffer := b', r_bufferEnd := e', w_sent := w'\<rparr>) = out ?r @ cs"
    "length b' = length (r_buffer ?r)" "e' \<le> length b'"
    by (rule emitsE)
  show ?thesis
    unfolding emits_def Let_def
    by (rule exI [of _ b'], rule exI [of _ e'], rule exI [of _ w']) (use m f in \<open>simp add: bindM_def\<close>)
qed

lemma emits_appends:
  assumes "appends m r bs" "wr r"
  shows "emits m r bs"
proof -
  obtain b where b: "m r = (Inr (), r\<lparr>r_buffer := b, r_bufferEnd := r_bufferEnd r + length bs\<rparr>)"
    "length b = length (r_buffer r)" "take (r_bufferEnd r) b = take (r_bufferEnd r) (r_buffer r)"
    "subarray b (r_bufferEnd r) (r_bufferEnd r + length bs) = bs"
    using assms(1) by (auto simp: appends_def)
  have e: "r_bufferEnd r \<le> length (r_buffer r)"
    using assms(2) by (simp add: wr_def)
  then have le: "r_bufferEnd r + length bs \<le> length b"
    using arg_cong [OF b(4), of length] b(2) by (simp add: arr_simps)
  have "take (r_bufferEnd r + length bs) b = take (r_bufferEnd r) (r_buffer r) @ bs"
    using subarray_split [of 0 "r_bufferEnd r" "r_bufferEnd r + length bs" b] b(3,4) by simp
  then show ?thesis
    unfolding emits_def Let_def using b(1,2) le
    by (intro exI [of _ b] exI [of _ "r_bufferEnd r + length bs"] exI [of _ "w_sent r"])
      (simp add: out_def sent_def)
qed

text \<open>After a flush there is room.\<close>

lemma emits_flush:
  assumes "wr r" "n < length (r_buffer r)"
    and "\<And>r'. wr r' \<Longrightarrow> length (r_buffer r') = length (r_buffer r) \<Longrightarrow> r_bufferEnd r' + n < length (r_buffer r') \<Longrightarrow> emits m r' bs"
  shows "emits (bindM (flush_unless cz n) (\<lambda>_. m)) r bs"
proof (cases "length (r_buffer r) \<le> r_bufferEnd r + n")
  case False
  then show ?thesis
    using assms(3) [of r] assms(1) by (simp add: emits_def flush_unless_def bindM_def)
next
  case True
  let ?r = "r\<lparr>r_bufferEnd := 0, w_sent := w_sent r @ [take (r_bufferEnd r) (r_buffer r)]\<rparr>"
  have "r\<lparr>r_bufferStart := 0\<rparr> = r"
    using assms(1) by (cases r) (simp add: wr_def)
  then have "flush_unless cz n r = (Inr (), ?r)"
    using True assms(1) arg_cong [of "r\<lparr>r_bufferStart := 0\<rparr>" r "\<lambda>r. r\<lparr>r_bufferEnd := 0, w_sent := w_sent r @ [take (r_bufferEnd r) (r_buffer r)]\<rparr>"]
    by (simp add: flush_unless_def bindM_def modifyM_def sendPackets_plain wr_def)
  moreover have "emits m ?r bs"
    by (rule assms(3)) (use assms(1,2) in \<open>simp_all add: wr_def is_compressed_def\<close>)
  moreover have "out ?r = out r"
    by (simp add: out_def sent_def)
  ultimately show ?thesis
    by (auto simp: emits_def Let_def bindM_def intro: exI)
qed

lemma emits_append_bind:
  assumes "appends m r bs" "wr r"
    and "\<And>r'. wr r' \<Longrightarrow> r_bufferEnd r' = r_bufferEnd r + length bs \<Longrightarrow> length (r_buffer r') = length (r_buffer r) \<Longrightarrow>
      emits (f ()) r' cs"
  shows "emits (bindM m f) r (bs @ cs)"
proof -
  obtain b where b: "m r = (Inr (), r\<lparr>r_buffer := b, r_bufferEnd := r_bufferEnd r + length bs\<rparr>)"
    using assms(1) by (auto simp: appends_def)
  obtain b1 e1 w1 where m: "m r = (Inr (), r\<lparr>r_buffer := b1, r_bufferEnd := e1, w_sent := w1\<rparr>)"
    "out (r\<lparr>r_buffer := b1, r_bufferEnd := e1, w_sent := w1\<rparr>) = out r @ bs"
    "length b1 = length (r_buffer r)" "e1 \<le> length b1"
    by (rule emitsE [OF emits_appends [OF assms(1,2)]])
  let ?r = "r\<lparr>r_buffer := b1, r_bufferEnd := e1, w_sent := w1\<rparr>"
  have "e1 = r_bufferEnd r + length bs"
    using arg_cong [OF b, of "\<lambda>x. r_bufferEnd (snd x)"] m(1) by simp
  then have "emits (f ()) ?r cs"
    using assms(2) m by (intro assms(3) wr_update) simp_all
  then show ?thesis
    using m by (auto simp: emits_def Let_def bindM_def intro: exI)
qed

lemma bindM_assoc: "bindM (bindM m f) g = bindM m (\<lambda>a. bindM (f a) g)"
  by (auto simp: fun_eq_iff bindM_def split: prod.splits sum.splits)

lemma ret_bind: "bindM (ret a) f = f a"
  by (simp add: fun_eq_iff bindM_def)

section \<open>The parts of the packet\<close>

definition null_flags :: "param list \<Rightarrow> js_value list" where
  "null_flags ps = map (\<lambda>p. if p = PNull then VNull else VBool True) ps"

lemma u8_appends: "r_bufferEnd r < length (r_buffer r) \<Longrightarrow> appends (writeUint8 v) r [word_of_int v]"
  using write_int_appends(1) [of r 1 v] by (simp only: le_bytes_int_1)

text \<open>The bits of the nulls with the flag behind them: there is always room for the last byte and the flag.\<close>

lemma null_bits_emitted:
  "wr r \<Longrightarrow> 4 \<le> length (r_buffer r) \<Longrightarrow> r_bufferEnd r + 2 \<le> length (r_buffer r) \<Longrightarrow> k < 8 \<Longrightarrow>
   emits (bindM (write_null_bits cz m (push_bit k 1) ps) (\<lambda>_. writeUint8 1)) r (mask_bytes m k (null_flags ps) @ [1])"
proof (induction ps arbitrary: r m k)
  case Nil
  have one: "emits (writeUint8 1) r' [1]" if "wr r'" "r_bufferEnd r' < length (r_buffer r')" for r'
    using emits_appends [OF u8_appends, of r' 1] that by simp
  have "push_bit k (1 :: byte) \<noteq> 1" if "k \<noteq> 0"
    using that Nil(4) bit_flag [of k k] by (auto simp: bit_1_iff simp del: push_bit_of_1)
  then show ?case
    using Nil one [of r] emits_append_bind [OF write_element_appends Nil(1), of m "\<lambda>_. writeUint8 1" "[1]"] one
    by (cases "k = 0") (simp_all add: null_flags_def ret_bind del: push_bit_of_1 bindM_Inr ret_run modifyM_run)
next
  case (Cons p ps)
  define m' where "m' = (if p = PNull then m OR push_bit k 1 else m)"
  show ?case
  proof (cases "k = 7")
    case False
    have "push_bit k (1 :: byte) \<noteq> 0x80"
      using bit_flag [of k 7] False by (auto simp del: push_bit_of_1)
    then show ?thesis
      using Cons.IH [of r "Suc k" m'] Cons.prems False
      by (cases "p = PNull")
        (simp_all add: null_flags_def m'_def Let_def push_bit_push_bit del: push_bit_of_1 bindM_Inr ret_run modifyM_run)
  next
    case True
    have k: "push_bit 7 (1 :: byte) = 0x80" by simp
    have "emits (bindM (flush_unless cz 3) (\<lambda>_. bindM (modifyM (write_element m'))
        (\<lambda>_. bindM (write_null_bits cz 0 1 ps) (\<lambda>_. writeUint8 1)))) r ([m'] @ mask_bytes 0 0 (null_flags ps) @ [1])"
    proof (rule emits_flush [OF Cons.prems(1)])
      fix r' assume r': "wr r'" "length (r_buffer r') = length (r_buffer r)" "r_bufferEnd r' + 3 < length (r_buffer r')"
      show "emits (bindM (modifyM (write_element m')) (\<lambda>_. bindM (write_null_bits cz 0 1 ps) (\<lambda>_. writeUint8 1))) r'
          ([m'] @ mask_bytes 0 0 (null_flags ps) @ [1])"
        by (rule emits_append_bind [OF write_element_appends r'(1)])
          (use r' Cons.IH [of _ 0 0] in simp_all)
    qed (use Cons.prems(2) in simp)
    then show ?thesis
      using True
      by (cases "p = PNull")
        (simp_all add: null_flags_def m'_def Let_def bindM_assoc k del: push_bit_of_1 bindM_Inr ret_run modifyM_run)
  qed
qed

fun param_bytes :: "env \<Rightarrow> num \<Rightarrow> param \<times> bool \<Rightarrow> byte list" where
  "param_bytes e tz (PBool b, isEmpty) = [if b then 1 else 0]"
| "param_bytes e tz (PNum x, isEmpty) = (if is_int32 x then le_bytes_int 4 (to_integer x) else le_bytes 8 (e_f64_bits e x))"
| "param_bytes e tz (PBigInt n, isEmpty) = le_bytes_int 8 n"
| "param_bytes e tz (PStr s, isEmpty) =
     (if short_string s then lenenc_bytes (length (utf8_encode s)) @ utf8_encode s else [])"
| "param_bytes e tz (PDate t, isEmpty) =
     (let t = (if tz \<noteq> Some 0 then num_add t tz else t); f = e_date_fields e t; frac = has_fraction e t
      in [if frac then 11 else 7] @ le_bytes_int 2 (to_integer (f ! 0)) @ [word_of_int (to_integer (num_add (f ! 1) (Some 1)))] @
         [word_of_int (to_integer (f ! 2))] @ [word_of_int (to_integer (f ! 3))] @ [word_of_int (to_integer (f ! 4))] @
         [word_of_int (to_integer (f ! 5))] @ (if frac then le_bytes_int 4 (to_integer (num_mul (f ! 6) (Some 1000))) else []))"
| "param_bytes e tz (PBytes bs, isEmpty) = (if short_bytes bs then lenenc_bytes (length bs) @ bs else [])"
| "param_bytes e tz (PStream cs, isEmpty) = (if isEmpty then [0] else [])"
| "param_bytes e tz (PReader cs, isEmpty) = (if isEmpty then [0] else [])"
| "param_bytes e tz (PNull, isEmpty) = []"
| "param_bytes e tz (PObject json, isEmpty) = []"

text \<open>Correcting a date by the offset of the time zone leaves it with or without milliseconds.\<close>

definition keeps_fraction :: "env \<Rightarrow> num \<Rightarrow> num \<Rightarrow> bool" where
  "keeps_fraction e tz t \<longleftrightarrow> (tz \<noteq> Some 0 \<longrightarrow> has_fraction e (num_add t tz) = has_fraction e t)"

text \<open>Only streams and readers can be known to be empty.\<close>

fun flag_ok :: "param \<times> bool \<Rightarrow> bool" where
  "flag_ok (PStream cs, isEmpty) = True"
| "flag_ok (PReader cs, isEmpty) = True"
| "flag_ok (p, isEmpty) = (\<not> isEmpty)"

fun date_param_ok :: "env \<Rightarrow> num \<Rightarrow> param \<Rightarrow> bool" where
  "date_param_ok e tz (PDate t) = keeps_fraction e tz t"
| "date_param_ok e tz _ = True"

lemma short_string_bytes: "short_string s \<Longrightarrow> length (utf8_encode s) \<le> 244"
  using utf8StringLength_le [of s] by (simp add: short_string_def utf8StringLength_eq)

lemma lenenc_bytes_short: "n < 0xFB \<Longrightarrow> length (lenenc_bytes n) = 1"
  by (simp add: lenenc_bytes_def)

lemma short_string_lenenc: "short_string s \<Longrightarrow> length (lenenc_bytes (length (utf8_encode s))) = 1"
  using short_string_bytes [of s] by (simp add: lenenc_bytes_short)

lemma length_param_bytes:
  assumes "flag_ok x" "date_param_ok e tz (fst x)"
  shows "length (param_bytes e tz x) = param_length e (fst x) + (if snd x then 1 else 0)"
proof -
  obtain p b where x: "x = (p, b)" by fastforce
  show ?thesis
    using assms
    by (cases p) (auto simp: x utf8StringLength_eq short_string_lenenc lenenc_bytes_short short_bytes_def keeps_fraction_def Let_def)
qed

lemma param_bytes_le: "length (param_bytes e tz x) \<le> 0xFB"
proof -
  obtain p b where x: "x = (p, b)" by fastforce
  show ?thesis
    by (cases p) (auto dest: short_string_bytes simp: x short_string_lenenc lenenc_bytes_short short_bytes_def Let_def)
qed

definition type_bytes :: "param list \<Rightarrow> byte list" where
  "type_bytes ps = concat (map (\<lambda>p. le_bytes_int 2 (int (param_type p))) ps)"

definition execute_bytes :: "env \<Rightarrow> int \<Rightarrow> num \<Rightarrow> (param \<times> bool) list \<Rightarrow> byte list" where
  "execute_bytes e stmtId tz ps =
     [word_of_int COM_STMT_EXECUTE] @ le_bytes_int 4 stmtId @ [0] @ le_bytes_int 4 1 @
     mask_bytes 0 0 (null_flags (map fst ps)) @ [1] @ type_bytes (map fst ps) @ concat (map (param_bytes e tz) ps)"

lemma length_type_bytes: "length (type_bytes ps) = 2 * length ps"
  by (induction ps) (simp_all add: type_bytes_def)

text \<open>The length that the header announces is the length of the packet.\<close>

lemma length_execute_bytes:
  assumes "list_all flag_ok ps" "list_all (date_param_ok e tz \<circ> fst) ps"
  shows "length (execute_bytes e stmtId tz ps) = execute_length e ps"
proof -
  have "length (concat (map (param_bytes e tz) ps)) = sum_list (map (param_length e \<circ> fst) ps) + length (filter snd ps)"
    using assms by (induction ps) (auto simp: length_param_bytes)
  moreover have "(n + 7) div 8 = n div 8 + (if n mod 8 \<noteq> 0 then 1 else 0)" for n :: nat
    by presburger
  ultimately show ?thesis
    by (simp add: execute_bytes_def execute_length_def length_mask_bytes length_type_bytes null_flags_def Let_def)
qed

section \<open>The packet is sent\<close>

lemma nothing_appended: "appends (ret ()) r []"
  by (auto simp: appends_def intro!: exI [of _ "r_buffer r"])

lemma date_appended:
  assumes "r_bufferEnd r + 0xFB < length (r_buffer r)" "keeps_fraction e tz t"
  shows "appends (write_date_param e tz t) r (param_bytes e tz (PDate t, b))"
proof -
  define t' where "t' = (if tz \<noteq> Some 0 then num_add t tz else t)"
  have f: "has_fraction e t' = has_fraction e t"
    using assms(2) by (auto simp: keeps_fraction_def t'_def)
  have last: "appends (if has_fraction e t then writeUint32 x else ret ()) r'
      (if has_fraction e t then le_bytes_int 4 x else [])" if "r_bufferEnd r' + 4 \<le> length (r_buffer r')" for x r'
    using that by (simp add: writeUint32_def write_bytes_appends nothing_appended)
  have kind: "appends (writeUint8 (if has_fraction e t then 11 else 7)) r' [if has_fraction e t then 11 else 7]"
    if "r_bufferEnd r' < length (r_buffer r')" for r'
    using u8_appends [OF that, of 11] u8_appends [OF that, of 7] by simp
  show ?thesis
    unfolding write_date_param_def param_bytes.simps Let_def t'_def [symmetric] f write_num_def writeUint16_def
    by (intro appends_bind kind u8_appends write_bytes_appends last) (use assms(1) in simp_all)
qed

lemma param_appended:
  assumes "r_bufferEnd r + 0xFB < length (r_buffer r)" "flag_ok (p, isEmpty)" "date_param_ok e tz p"
  shows "appends (write_param e tz isEmpty p) r (param_bytes e tz (p, isEmpty))"
proof -
  have s: "appends (writeShortLenencString s) r (lenenc_bytes (length (utf8_encode s)) @ utf8_encode s)"
    if "short_string s" for s
    by (rule lenenc_string_short) (use assms(1) that short_string_bytes [of s] in \<open>simp_all add: short_string_def\<close>)
  have b: "appends (writeShortLenencBytes bs) r (lenenc_bytes (length bs) @ bs)" if "short_bytes bs" for bs
    by (rule writeShortLenencBytes_appends) (use assms(1) that in \<open>simp_all add: short_bytes_def lenenc_bytes_short\<close>)
  have u: "appends (writeUint8 v) r [word_of_int v]" for v
    by (rule u8_appends) (use assms(1) in simp)
  have w: "length bs \<le> 8 \<Longrightarrow> appends (write_bytes bs) r bs" for bs
    by (rule write_bytes_appends) (use assms(1) in simp)
  show ?thesis
    using u [of 1] u [of 0] s b w nothing_appended date_appended [OF assms(1)] assms(2,3)
    by (cases p) (auto simp: write_num_def writeUint32_def writeUint64_def writeDouble_def simp del: ret_run)
qed

lemma params_emitted:
  "wr r \<Longrightarrow> 0xFB < length (r_buffer r) \<Longrightarrow> list_all flag_ok ps \<Longrightarrow> list_all (date_param_ok e tz \<circ> fst) ps \<Longrightarrow>
   emits (write_params e cz tz ps) r (concat (map (param_bytes e tz) ps))"
proof (induction ps arbitrary: r)
  case (Cons x ps)
  obtain p b where x: "x = (p, b)" by fastforce
  have "emits (bindM (flush_unless cz 0xFB) (\<lambda>_. bindM (write_param e tz b p) (\<lambda>_. write_params e cz tz ps))) r
      (param_bytes e tz (p, b) @ concat (map (param_bytes e tz) ps))"
  proof (rule emits_flush [OF Cons.prems(1,2)])
    fix r' assume r': "wr r'" "length (r_buffer r') = length (r_buffer r)" "r_bufferEnd r' + 0xFB < length (r_buffer r')"
    show "emits (bindM (write_param e tz b p) (\<lambda>_. write_params e cz tz ps)) r'
        (param_bytes e tz (p, b) @ concat (map (param_bytes e tz) ps))"
      by (rule emits_bind [OF emits_appends [OF param_appended]])
        (use r' Cons in \<open>simp_all add: x\<close>)
  qed
  then show ?case by (simp add: x)
qed (simp add: emits_nothing del: ret_run)

lemma types_emitted:
  "wr r \<Longrightarrow> 4 < length (r_buffer r) \<Longrightarrow> emits (write_types cz ps) r (type_bytes ps)"
proof (induction ps arbitrary: r)
  case (Cons p ps)
  have "emits (bindM (flush_unless cz 2) (\<lambda>_. bindM (writeUint16 (int (param_type p))) (\<lambda>_. write_types cz ps))) r
      (le_bytes_int 2 (int (param_type p)) @ type_bytes ps)"
  proof (rule emits_flush [OF Cons.prems(1)])
    fix r' assume r': "wr r'" "length (r_buffer r') = length (r_buffer r)" "r_bufferEnd r' + 2 < length (r_buffer r')"
    show "emits (bindM (writeUint16 (int (param_type p))) (\<lambda>_. write_types cz ps)) r'
        (le_bytes_int 2 (int (param_type p)) @ type_bytes ps)"
      unfolding writeUint16_def
      by (rule emits_bind [OF emits_appends [OF write_bytes_appends]]) (use r' Cons in simp_all)
  qed (use Cons.prems(2) in simp)
  then show ?case by (simp add: type_bytes_def)
qed (simp add: emits_nothing type_bytes_def del: ret_run)

text \<open>Behind the header.\<close>

definition execute_rest :: "env \<Rightarrow> compressor \<Rightarrow> int \<Rightarrow> num \<Rightarrow> (param \<times> bool) list \<Rightarrow> unit pm" where
  "execute_rest e cz stmtId tz ps =
     bindM (writeUint8 COM_STMT_EXECUTE) (\<lambda>_. bindM (writeUint32 stmtId) (\<lambda>_. bindM (writeUint8 0) (\<lambda>_.
     bindM (writeUint32 1) (\<lambda>_. bindM (bindM (write_null_bits cz 0 1 (map fst ps)) (\<lambda>_. writeUint8 1)) (\<lambda>_.
     bindM (write_types cz (map fst ps)) (\<lambda>_. write_params e cz tz ps))))))"

lemma rest_emitted:
  assumes "wr r" "0xFF < length (r_buffer r)" "r_bufferEnd r = 4" "list_all flag_ok ps" "list_all (date_param_ok e tz \<circ> fst) ps"
  shows "emits (execute_rest e cz stmtId tz ps) r (execute_bytes e stmtId tz ps)"
proof -
  note nb = null_bits_emitted [where k = 0 and m = 0, simplified]
  have five: "0 \<noteq> (1 :: byte)" by simp
  have "emits (execute_rest e cz stmtId tz ps) r
     ([word_of_int COM_STMT_EXECUTE] @ le_bytes_int 4 stmtId @ [word_of_int 0] @ le_bytes_int 4 1 @
      (mask_bytes 0 0 (null_flags (map fst ps)) @ [1]) @ type_bytes (map fst ps) @ concat (map (param_bytes e tz) ps))"
    unfolding execute_rest_def writeUint32_def
    by (rule emits_append_bind [OF u8_appends], use assms in simp, rule assms,
        rule emits_append_bind [OF write_bytes_appends], use assms in simp, assumption,
        rule emits_append_bind [OF u8_appends], use assms in simp, assumption,
        rule emits_append_bind [OF write_bytes_appends], use assms in simp, assumption,
        rule emits_bind [OF nb], assumption, use assms in simp, use assms in simp, assumption,
        rule emits_bind [OF types_emitted], assumption, use assms in simp, assumption,
        rule params_emitted, assumption, use assms in simp, rule assms, rule assms)
  then show ?thesis by (simp add: execute_bytes_def)
qed

lemma write_execute_sends:
  assumes r: "\<not> is_compressed r" "w_fail r = None" "r_bufferStart r = r_bufferEnd r" "0xFF < length (r_buffer r)"
    and ps: "list_all flag_ok ps" "list_all (date_param_ok e tz \<circ> fst) ps" "execute_length e ps < 0xFFFFFF"
  obtains b w where
    "write_execute e cz stmtId tz ps r =
       (Inr (), r\<lparr>r_buffer := b, r_bufferStart := 0, r_bufferEnd := 0, r_sequenceId := 1, w_commandStarts := [], w_sent := w\<rparr>)"
    "concat w = sent r @ packet 0 (execute_bytes e stmtId tz ps)" "length b = length (r_buffer r)"
proof -
  let ?n = "execute_length e ps" and ?bs = "execute_bytes e stmtId tz ps"
  define r1 where "r1 = r\<lparr>r_bufferStart := 0, r_bufferEnd := 4, w_commandStarts := [], r_sequenceId := 0\<rparr>"
  have s: "startWritingNewPacket True r = (Inr (), r1)"
    using r by (simp add: startWritingNewPacket_def bindM_def modifyM_def is_compressed_def r1_def)
  have w1: "writing r1"
    using r by (simp add: writing_def r1_def is_compressed_def filled_def)
  have "?n < 2 ^ 24" using ps(3) by simp
  obtain b0 where b0: "setHeader ?n r1 = (Inr (), r1\<lparr>r_sequenceId := r_sequenceId r1 + 1, r_buffer := b0\<rparr>)"
    "take (r_bufferEnd r1) b0 = waiting r1 @ header_bytes ?n (r_sequenceId r1) @ body r1" "length b0 = length (r_buffer r1)"
    by (rule setHeader_in_buffer [OF w1 \<open>?n < 2 ^ 24\<close>])
  define r2 where "r2 = r1\<lparr>r_sequenceId := 1, r_buffer := b0\<rparr>"
  have r2: "wr r2" "0xFF < length (r_buffer r2)" "r_bufferEnd r2 = 4"
    using r b0(3) by (simp_all add: wr_def r2_def r1_def is_compressed_def)
  have o2: "out r2 = sent r @ header_bytes ?n 0"
    using b0(2) by (simp add: out_def r2_def r1_def sent_def waiting_def body_def subarray_def)
  obtain b' e' w' where x: "execute_rest e cz stmtId tz ps r2 =
      (Inr (), r2\<lparr>r_buffer := b', r_bufferEnd := e', w_sent := w'\<rparr>)"
    "out (r2\<lparr>r_buffer := b', r_bufferEnd := e', w_sent := w'\<rparr>) = out r2 @ ?bs"
    "length b' = length (r_buffer r2)" "e' \<le> length b'"
    by (rule emitsE [OF rest_emitted [OF r2 ps(1,2)]])
  let ?r3 = "r2\<lparr>r_buffer := b', r_bufferEnd := e', w_sent := w'\<rparr>"
  define fin where "fin = (\<lambda>r. if 0 < r_bufferEnd r then
      bindM (sendPackets cz (r_bufferEnd r)) (\<lambda>_. modifyM (\<lambda>r. r\<lparr>r_bufferStart := 0, r_bufferEnd := 0\<rparr>)) r
    else (Inr (), r :: proto))"
  have all: "write_execute e cz stmtId tz ps =
      bindM (startWritingNewPacket True) (\<lambda>_. bindM (setHeader ?n) (\<lambda>_. bindM (execute_rest e cz stmtId tz ps) (\<lambda>_. fin)))"
    by (simp only: write_execute_def execute_rest_def fin_def bindM_assoc)
  have run: "write_execute e cz stmtId tz ps r = fin ?r3"
    using s b0(1) x(1) unfolding all by (simp add: bindM_def r2_def r1_def)
  have o3: "concat w' @ take e' b' = sent r @ packet 0 ?bs"
    using x(2) o2 length_execute_bytes [OF ps(1,2), of stmtId]
    by (simp add: out_def sent_def packet_def)
  show thesis
  proof (cases "e' = 0")
    case True
    show ?thesis
      by (rule that [where b = b' and w = w'])
        (use True o3 x(3) b0(3) r in \<open>simp_all add: run fin_def r2_def r1_def\<close>)
  next
    case False
    show ?thesis
      by (rule that [where b = b' and w = "w' @ [take e' b']"])
        (use False o3 x(3) b0(3) r in \<open>simp_all add: run fin_def bindM_def modifyM_def sendPackets_plain r2_def r1_def is_compressed_def\<close>)
  qed
qed

text \<open>Which parameters are null can be read off the packet.\<close>

lemma mask_bit:
  "k < 8 \<Longrightarrow> (\<And>j. k \<le> j \<Longrightarrow> \<not> bit m j) \<Longrightarrow> i < length vs \<Longrightarrow>
   bit (mask_bytes m k vs ! ((k + i) div 8)) ((k + i) mod 8) = (vs ! i = VNull)"
proof (induction m k vs arbitrary: i rule: mask_bytes.induct)
  case (2 m k v vs)
  show ?case
  proof (cases i)
    case 0
    then show ?thesis
      using mask_head [OF 2(3,4), of v vs] hd_conv_nth [of "mask_bytes m k (v # vs)"] 2(3) by (simp del: mask_bytes.simps)
  next
    case (Suc j)
    define m' where "m' = (if v = VNull then m OR push_bit k 1 else m)"
    have m': "\<not> bit m' l" if "Suc k \<le> l" for l
      using 2(4) [of l] that 2(3) by (auto simp: m'_def bit_or_iff bit_flag simp del: push_bit_of_1)
    show ?thesis
    proof (cases "k = 7")
      case True
      then show ?thesis
        using 2(1) [OF m'_def, of j] 2(5) Suc by (simp add: Let_def del: push_bit_of_1)
    next
      case False
      then have "Suc k < 8" using 2(3) by simp
      then show ?thesis
        using 2(2) [OF m'_def False _ m', of j] 2(5) Suc False by (simp add: Let_def m'_def del: push_bit_of_1)
    qed
  qed
qed simp

lemma null_bits_tell:
  assumes "i < length ps"
  shows "bit (execute_bytes e stmtId tz ps ! (10 + i div 8)) (i mod 8) = (fst (ps ! i) = PNull)"
proof -
  let ?f = "null_flags (map fst ps)"
  have l: "length (mask_bytes 0 0 ?f) = (length ps + 7) div 8"
    by (simp add: length_mask_bytes null_flags_def)
  have "i div 8 < (length ps + 7) div 8"
    using assms by linarith
  then have "execute_bytes e stmtId tz ps ! (10 + i div 8) = mask_bytes 0 0 ?f ! (i div 8)"
    using l by (simp add: execute_bytes_def nth_append)
  then show ?thesis
    using mask_bit [of 0 0 i ?f] assms by (simp add: null_flags_def)
qed

lemma execute_bytes_values:
  "drop (10 + (length ps + 7) div 8) (execute_bytes e stmtId tz ps) =
     [1] @ type_bytes (map fst ps) @ concat (map (param_bytes e tz) ps)"
proof -
  let ?head = "[word_of_int COM_STMT_EXECUTE] @ le_bytes_int 4 stmtId @ [0] @ le_bytes_int 4 1 @
    mask_bytes 0 0 (null_flags (map fst ps))"
  have "length ?head = 10 + (length ps + 7) div 8"
    by (simp add: length_mask_bytes null_flags_def)
  moreover have "execute_bytes e stmtId tz ps = ?head @ [1] @ type_bytes (map fst ps) @ concat (map (param_bytes e tz) ps)"
    by (simp add: execute_bytes_def)
  ultimately show ?thesis
    using append_eq_conv_conj by metis
qed

section \<open>The answer to an execution without rows\<close>

text \<open>
  The state that the code goes to is decided before the OK packet is read, by the status of the command before: \<open>q\<close> is the
  connection when the answer arrives.
\<close>

definition exec_result :: "nat \<Rightarrow> nat \<Rightarrow> nat \<Rightarrow> nat \<Rightarrow> nat \<Rightarrow> proto \<Rightarrow> proto" where
  "exec_result i a ii st w q =
     (let more = has_status q SERVER_MORE_RESULTS_EXISTS;
          q = (if more then upd i (\<lambda>s. s\<lparr>s_hasProtocol := True, s_hasMore := True\<rparr>) q else q);
          q = after_ok a ii st w q
      in upd i (ok_fields q) q)"

lemma exec_result_idle:
  "\<not> has_status q SERVER_MORE_RESULTS_EXISTS \<Longrightarrow>
   exec_result i a ii st w q = upd i (ok_fields (after_ok a ii st w q)) (after_ok a ii st w q)"
  by (simp add: exec_result_def Let_def)

lemma exec_result_more:
  "has_status q SERVER_MORE_RESULTS_EXISTS \<Longrightarrow>
   exec_result i a ii st w q =
     (let q = after_ok a ii st w (upd i (\<lambda>s. s\<lparr>s_hasProtocol := True, s_hasMore := True\<rparr>) q) in upd i (ok_fields q) q)"
  by (simp add: exec_result_def)

context proto_source
begin

lemma ok_continuation_next:
  assumes pos: "is_at q r (lenenc_bytes a @ lenenc_bytes ii @ le_bytes 2 st @ le_bytes 2 w @ ts) 1 n"
    and n: "n = length (ok_payload a ii st w)" and caps: "has_cap q CLIENT_PROTOCOL_41"
    and v: "a < 2 ^ 64" "ii < 2 ^ 64" "st < 2 ^ 16" "w < 2 ^ 16"
    and Q: "\<And>r'. is_at (upd i (ok_fields (after_ok a ii st w q)) (after_ok a ii st w q)) r' ts n n \<Longrightarrow> ends Q (f () r')"
  shows "ends Q (bindL (read_ok_continuation h (initResultsets i)) f r)"
proof -
  have not_end: "\<not> isAtEndOfPacket r"
    using pos n by (simp add: at_pos_def isAtEndOfPacket_def ok_payload_def)
  have pt: "readPacket h PREPARED_STMT_OK_CONTINUATION = bindL (read_ok_packet h) (\<lambda>_. retL 0)"
    by (simp add: fun_eq_iff readPacket_def packet_of_type_def PACKET_EOF_def PACKET_OK_def bindL_def getL_def)
  have len: "n = 1 + length (lenenc_bytes a) + length (lenenc_bytes ii) + 4"
    using n by (simp add: ok_payload_def)
  have one: "1 \<le> (100 :: nat)" by simp
  show ?thesis
    unfolding read_ok_continuation_def bindL_assoc
    apply (rule getL_step)
    apply (simp only: not_end not_False_eq_True whenL_def if_True bindL_assoc pt)
    apply (rule ok_body_next [OF pos len one caps v])
    apply (rule retL_step)
    apply (rule init_next, assumption)
    by (rule Q)
qed

lemma exec_ok_read:
  assumes wf: "buffer_wf ok r" and s: "stream rest r = packet seq (ok_payload a ii st w) @ ts"
    and caps: "has_cap r CLIENT_PROTOCOL_41" and v: "a < 2 ^ 64" "ii < 2 ^ 64" "st < 2 ^ 16" "w < 2 ^ 16"
  defines "n \<equiv> length (ok_payload a ii st w)"
  shows "\<exists>r'. exec_response h i r = Some (Inr (),
       if has_status r SERVER_MORE_RESULTS_EXISTS then setState HAS_MORE_RESULTSETS (r'\<lparr>p_curResultsets := Some i\<rparr>)
       else setState IDLE r') \<and> is_at (exec_result i a ii st w r) r' ts n n"
proof -
  let ?more = "has_status r SERVER_MORE_RESULTS_EXISTS"
  have n: "n = length (ok_payload a ii st w)" by (simp add: n_def)
  have small: "n < 2 ^ 24" using n length_ok_payload [of a ii st w] by simp
  have s': "stream rest r = header_bytes n seq @ 0 # lenenc_bytes a @ lenenc_bytes ii @ le_bytes 2 st @ le_bytes 2 w @ ts"
    using s by (simp add: ok_payload_def packet_def n_def)
  have rp: "readPacket h ROWS_OR_PREPARED_STMT = bindL (get_header h) (\<lambda>_. bindL (get_u8 h) (packet_of_type h ROWS_OR_PREPARED_STMT))"
    by (simp add: readPacket_def)
  have pt: "packet_of_type h ROWS_OR_PREPARED_STMT (int (unat (0 :: byte))) = retL PACKET_NOT_READ_BIT"
    by (simp add: fun_eq_iff packet_of_type_def PACKET_EOF_def PACKET_OK_def bindL_def getL_def)
  have zero: "PACKET_NOT_READ_BIT AND 0xFF = 0"
    by (simp add: PACKET_NOT_READ_BIT_def)
  have no_columns: "read_n_columns h 0 = retL 0"
    by (simp add: read_n_columns_def)
  have "ends (\<lambda>x r''. \<exists>r'. x = Inr () \<and> r'' = (if ?more then setState HAS_MORE_RESULTSETS (r'\<lparr>p_curResultsets := Some i\<rparr>)
      else setState IDLE r') \<and> is_at (exec_result i a ii st w r) r' ts n n) (exec_response h i r)"
    unfolding exec_response_def rp bindL_assoc
    apply (rule header_next [OF wf s' small])
    apply (rule u8_next, assumption, simp add: near_end_def)
    unfolding pt
    apply (rule retL_step)
    unfolding zero no_columns
    apply (rule retL_step)
    apply (rule getL_step)
    apply (subst at_pos_status, assumption)
    apply (cases ?more)
     apply (simp only: less_irrefl if_False if_True)
     apply (rule upd_next, assumption)
     apply (rule ok_continuation_next [OF _ n _ v], simp)
       apply (use caps in \<open>simp add: upd_def\<close>)
     apply (simp add: ends_def setL_def exec_result_def Let_def, blast)
    apply (simp only: less_irrefl if_False)
    apply (rule ok_continuation_next [OF _ n caps v], simp)
    apply (simp add: ends_def setL_def exec_result_def Let_def, blast)
    done
  then show ?thesis by (auto simp: ends_def)
qed

end

section \<open>The whole execution\<close>

text \<open>Parameters whose values are all in the packet of the execution.\<close>

fun inline_param :: "param \<Rightarrow> bool" where
  "inline_param (PStr s) = short_string s"
| "inline_param (PBytes bs) = short_bytes bs"
| "inline_param (PStream cs) = False"
| "inline_param (PReader cs) = False"
| "inline_param (PObject json) = False"
| "inline_param _ = True"

definition inline_params :: "param list \<Rightarrow> (param \<times> bool) list" where
  "inline_params ps = map (\<lambda>p. (p, False)) ps"

lemma inline_fst: "map fst (inline_params ps) = ps"
  by (induction ps) (simp_all add: inline_params_def)

lemma inline_flags: "list_all inline_param ps \<Longrightarrow> list_all flag_ok (inline_params ps)"
proof (induction ps)
  case (Cons p ps)
  then show ?case by (cases p) (simp_all add: inline_params_def)
qed (simp add: inline_params_def)

lemma date_param_utc: "date_param_ok e (Some 0) p"
  by (cases p) (simp_all add: keeps_fraction_def)

lemma inline_dates: "list_all (date_param_ok e (Some 0) \<circ> fst) ps"
  by (induction ps) (simp_all add: date_param_utc)

lemma no_long_data:
  "list_all inline_param ps \<Longrightarrow> send_long_params h stmtId i ps r = Some (Inr (inline_params ps), r)"
proof (induction ps arbitrary: i)
  case (Cons p ps)
  then show ?case by (cases p) (simp_all add: inline_params_def bindL_def)
qed (simp add: inline_params_def)

definition after_execute :: "byte list \<Rightarrow> byte list list \<Rightarrow> proto \<Rightarrow> proto" where
  "after_execute b w r =
     r\<lparr>r_buffer := b, r_bufferStart := 0, r_bufferEnd := 0, r_sequenceId := 1, w_commandStarts := [], w_sent := w\<rparr>"

lemma execute_sent:
  assumes r: "between_commands r" and ps: "list_all inline_param (placeholders n params)"
    and len: "execute_length (env.truncate h) (inline_params (placeholders n params)) < 0xFFFFFF"
    and dates: "\<not> (correctDates \<and> list_ex is_date (placeholders n params))"
  obtains b w where "sendComStmtExecute h stmtId n params correctDates r = Some (Inr (), after_execute b w r)"
    "concat w = sent r @ packet 0 (execute_bytes (env.truncate h) stmtId (Some 0) (inline_params (placeholders n params)))"
    "length b = length (r_buffer r)"
proof -
  let ?ps = "inline_params (placeholders n params)" and ?e = "env.truncate h"
  have bc: "\<not> is_compressed r" "w_fail r = None" "r_bufferStart r = r_bufferEnd r" "0xFF < length (r_buffer r)"
    using r by (simp_all add: between_commands_def buffer_wf_def BUFFER_LEN_def)
  have dates': "\<not> (correctDates \<and> list_ex (is_date \<circ> fst) ?ps)"
    using dates inline_fst [of "placeholders n params"] by (auto simp: list_ex_iff inline_params_def)
  obtain b w where "write_execute ?e (e_cz h) stmtId (Some 0) ?ps r = (Inr (), after_execute b w r)"
    "concat w = sent r @ packet 0 (execute_bytes ?e stmtId (Some 0) ?ps)" "length b = length (r_buffer r)"
    using write_execute_sends [OF bc inline_flags [OF ps] inline_dates len] unfolding after_execute_def by metis
  then show thesis
    using that dates' len by (auto simp: sendComStmtExecute_def no_long_data [OF ps] bindL_def)
qed

lemma exec_stmt_ok:
  assumes r: "between_commands r" "p_state r = IDLE \<or> p_state r = IDLE_IN_POOL" "has_cap r CLIENT_PROTOCOL_41"
    and stmt: "0 \<le> s_stmtId (cur i r)" "placeholders (nat (s_nPlaceholders (cur i r))) params = ps"
    and ps: "list_all inline_param ps" "execute_length (env.truncate h) (inline_params ps) < 0xFFFFFF"
      "\<not> (correctDates \<and> list_ex is_date ps)"
    and answer: "pending (r_src r) = packet seq (ok_payload a ii st w)"
    and v: "a < 2 ^ 64" "ii < 2 ^ 64" "st < 2 ^ 16" "w < 2 ^ 16"
  shows "\<exists>r' b ws n. execStmt h i params correctDates r = Some (Inr (),
      if has_status r SERVER_MORE_RESULTS_EXISTS then setState HAS_MORE_RESULTSETS (r'\<lparr>p_curResultsets := Some i\<rparr>)
      else setState IDLE r') \<and>
    concat ws = sent r @ packet 0 (execute_bytes (env.truncate h) (s_stmtId (cur i r)) (Some 0) (inline_params ps)) \<and>
    at_pos pending plain_ok (exec_result i a ii st w (after_execute b ws (r\<lparr>p_state := QUERYING\<rparr>))) r' [] n n"
proof -
  let ?r = "r\<lparr>p_state := QUERYING\<rparr>"
  have bc: "between_commands ?r"
    using r(1) by (simp add: between_commands_def is_compressed_def buffer_wf_def)
  obtain b ws where sent: "sendComStmtExecute h (s_stmtId (cur i r)) (nat (s_nPlaceholders (cur i r))) params correctDates ?r =
      Some (Inr (), after_execute b ws ?r)"
    "concat ws = sent ?r @ packet 0 (execute_bytes (env.truncate h) (s_stmtId (cur i r)) (Some 0) (inline_params ps))"
    "length b = length (r_buffer ?r)"
    using execute_sent [OF bc, of "nat (s_nPlaceholders (cur i r))" params h correctDates "s_stmtId (cur i r)"] ps
    unfolding stmt(2) by blast
  let ?s = "after_execute b ws ?r"
  have s: "buffer_wf plain_ok ?s" "stream pending ?s = packet seq (ok_payload a ii st w) @ []" "has_cap ?s CLIENT_PROTOCOL_41"
    using bc sent(3) r(3) answer by (simp_all add: after_execute_def between_commands_def buffer_wf_def stream_def avail_def)
  obtain r' where r': "exec_response h i ?s = Some (Inr (),
      if has_status ?s SERVER_MORE_RESULTS_EXISTS then setState HAS_MORE_RESULTSETS (r'\<lparr>p_curResultsets := Some i\<rparr>)
      else setState IDLE r')"
    "at_pos pending plain_ok (exec_result i a ii st w ?s) r' [] (length (ok_payload a ii st w)) (length (ok_payload a ii st w))"
    using plain_proto.exec_ok_read [OF s v, of h i] by blast
  have started: "setQueryingState r = Some (Inr (p_state r = IDLE_IN_POOL), ?r)"
    using r(2) by (auto simp: setQueryingState_def bindL_def getL_def setL_def)
  have no_pending: "doPendingAll h ?r = Some (Inr (), ?r)"
    using bc by (simp add: doPendingAll.simps doPending_def between_commands_def bindL_def getL_def)
  have "execStmt h i params correctDates r = exec_response h i ?s"
  proof -
    let ?send = "sendComStmtExecute h (s_stmtId (cur i r)) (nat (s_nPlaceholders (cur i r))) params correctDates"
    have "bindL (doPendingAll h) (\<lambda>_. bindL ?send (\<lambda>_. exec_response h i)) ?r = exec_response h i ?s"
      by (simp add: bindL_def no_pending sent(1))
    then show ?thesis
      using stmt(1) r'(1)
      by (simp add: execStmt_def bindL_Some [where m = setQueryingState, OF started] bindL_Some [where m = "getL (cur i)" and r = r and r' = r] getL_def tryL_def)
  qed
  then show ?thesis
    using r' sent(2) by (fastforce simp: after_execute_def sent_def)
qed

end
