(* ===== verification/ProtoStates.thy ===== *)
theory ProtoStates
  imports Resultsets
begin

text \<open>
  The states of a protocol: what is left of a connection after any command, whatever the server answers and however the
  writes fail. Reading and writing packets changes neither the state nor what waits for the end of the session.
\<close>

section \<open>What reading and writing leaves alone\<close>

definition frame :: "proto \<Rightarrow> protocol_state \<times> protocol_state option option \<times> int \<times> nat" where
  "frame r = (p_state r, p_onEndSession r, p_connectionId r, p_closed r)"

definition keptM :: "protocol_state \<times> protocol_state option option \<times> int \<times> nat \<Rightarrow> 'x \<times> proto \<Rightarrow> bool" where
  "keptM k p \<longleftrightarrow> frame (snd p) = k"

definition keptL :: "protocol_state \<times> protocol_state option option \<times> int \<times> nat \<Rightarrow> ('x \<times> proto) option \<Rightarrow> bool" where
  "keptL k p \<longleftrightarrow> (case p of None \<Rightarrow> True | Some q \<Rightarrow> keptM k q)"

named_theorems frames \<open>operations that leave the state alone\<close>

lemma keptM_pair [frames]: "keptM k (x, r) \<longleftrightarrow> frame r = k"
  by (simp add: keptM_def)

lemma keptL_Some [frames]: "keptL k (Some p) \<longleftrightarrow> keptM k p"
  by (simp add: keptL_def)

lemma keptL_None [frames]: "keptL k None"
  by (simp add: keptL_def)

lemma keptM_bind [frames]:
  "keptM k (m s) \<Longrightarrow> (\<And>a s'. m s = (Inr a, s') \<Longrightarrow> frame s' = k \<Longrightarrow> keptM k (g a s')) \<Longrightarrow> keptM k (bindM m g s)"
  by (auto simp: keptM_def bindM_def split: prod.splits sum.splits)

lemma keptM_catch [frames]:
  "keptM k (m s) \<Longrightarrow> (\<And>e s'. frame s' = k \<Longrightarrow> keptM k (g e s')) \<Longrightarrow> keptM k (catchM m g s)"
  by (auto simp: keptM_def catchM_def split: prod.splits sum.splits)

lemma keptM_D: "keptM k p \<Longrightarrow> p = (x, s) \<Longrightarrow> frame s = k"
  by (simp add: frames)

lemma keptL_D: "keptL k p \<Longrightarrow> p = Some (x, s) \<Longrightarrow> frame s = k"
  by (simp add: frames)

lemma keptL_bind [frames]:
  assumes "keptL k (m s)" "\<And>a s'. m s = Some (Inr a, s') \<Longrightarrow> frame s' = k \<Longrightarrow> keptL k (g a s')"
  shows "keptL k (bindL m g s)"
proof (cases "m s")
  case (Some p)
  obtain x s' where p: "p = (x, s')"
    by (cases p)
  have "frame s' = k"
    using keptL_D [OF assms(1)] Some p by blast
  with assms(2) Some p show ?thesis
    by (cases x) (simp_all add: frames)
qed (simp add: bindL_def frames)

lemma keptL_try [frames]:
  assumes "keptL k (m s)" "\<And>e s'. frame s' = k \<Longrightarrow> keptL k (g e s')"
  shows "keptL k (tryL m g s)"
proof (cases "m s")
  case (Some p)
  obtain x s' where p: "p = (x, s')"
    by (cases p)
  have "frame s' = k"
    using keptL_D [OF assms(1)] Some p by blast
  with assms(2) Some p show ?thesis
    by (cases x) (simp_all add: frames tryL_def)
qed (simp add: tryL_def frames)

lemma keptL_total [frames]: "keptM k (m s) \<Longrightarrow> keptL k (total_of m s)"
  by (simp add: keptL_def)

lemma keptL_catchL [frames]: "keptL k (m s) \<Longrightarrow> keptL k (catchL m h s)"
  by (auto simp: keptL_def keptM_def catchL_def split: option.splits prod.splits sum.splits)

lemma keptL_basic [frames]:
  "keptL k (getL f r) \<longleftrightarrow> frame r = k" "keptL k (setL f' r) \<longleftrightarrow> frame (f' r) = k"
  by (simp_all add: keptL_def keptM_def getL_def setL_def)

lemma keptL_when [frames]: "(b \<Longrightarrow> keptL k (m r)) \<Longrightarrow> frame r = k \<Longrightarrow> keptL k (whenL b m r)"
  by (simp add: whenL_def frames)

lemma frame_reader [frames]:
  "frame (r\<lparr>r_src := a1\<rparr>) = frame r" "frame (r\<lparr>r_buffer := a2\<rparr>) = frame r" "frame (r\<lparr>r_bufferStart := a3\<rparr>) = frame r"
  "frame (r\<lparr>r_bufferEnd := a4\<rparr>) = frame r" "frame (r\<lparr>r_sequenceId := a5\<rparr>) = frame r" "frame (r\<lparr>r_payloadLength := a6\<rparr>) = frame r"
  "frame (r\<lparr>r_packetOffset := a7\<rparr>) = frame r" "frame (r\<lparr>r_totalBytesInPacket := a8\<rparr>) = frame r" "frame (r\<lparr>r_decoder := a9\<rparr>) = frame r"
  by (simp_all add: frame_def)

lemma frame_writer [frames]:
  "frame (r\<lparr>w_sent := a1\<rparr>) = frame r" "frame (r\<lparr>w_fail := a2\<rparr>) = frame r" "frame (r\<lparr>w_commandStarts := a3\<rparr>) = frame r"
  by (simp_all add: frame_def)

lemma frame_proto [frames]:
  "frame (r\<lparr>p_statusFlags := a1\<rparr>) = frame r" "frame (r\<lparr>p_schema := a2\<rparr>) = frame r" "frame (r\<lparr>p_warnings := a3\<rparr>) = frame r"
  "frame (r\<lparr>p_affectedRows := a4\<rparr>) = frame r" "frame (r\<lparr>p_lastInsertId := a5\<rparr>) = frame r" "frame (r\<lparr>p_statusInfo := a6\<rparr>) = frame r"
  "frame (r\<lparr>p_timezone := a7\<rparr>) = frame r" "frame (r\<lparr>p_curMultiStatements := a8\<rparr>) = frame r" "frame (r\<lparr>p_resultsets := a9\<rparr>) = frame r"
  "frame (r\<lparr>p_curResultsets := b1\<rparr>) = frame r" "frame (r\<lparr>p_pendingCloseStmts := b2\<rparr>) = frame r"
  "frame (r\<lparr>p_pendingChangeSchema := b3\<rparr>) = frame r" "frame (r\<lparr>p_lastColumn := b4\<rparr>) = frame r"
  by (simp_all add: frame_def)

section \<open>Reading\<close>

lemma kept_fill [frames]: "frame r = k \<Longrightarrow> keptM k (fill_buffer rd r)"
  by (simp add: fill_buffer_def Let_def frames split: prod.split sum.split option.split)

lemma kept_recv_loop [frames]: "frame r = k \<Longrightarrow> keptM k (recv_loop rd to canEof r)"
proof (induction rd to canEof r rule: recv_loop.induct)
  case (1 rd to canEof r)
  then show ?case
    by (subst recv_loop.simps) (auto intro!: keptM_bind split: option.split simp: frames)
qed

lemma kept_to_nul_loop [frames]: "frame r = k \<Longrightarrow> keptM k (recvToNul_loop rd r)"
proof (induction rd r rule: recvToNul_loop.induct)
  case (1 rd r)
  then show ?case
    by (subst recvToNul_loop.simps) (auto intro!: keptM_bind split: option.split simp: frames)
qed

lemma kept_near_loop [frames]: "frame r = k \<Longrightarrow> keptM k (near_loop rd n r)"
proof (induction rd n r rule: near_loop.induct)
  case (1 rd n r)
  then show ?case
    by (subst near_loop.simps) (auto intro!: keptM_bind split: option.split simp: frames move_to_start_def)
qed

lemma kept_recv [frames]:
  assumes "frame r = k"
  shows "keptM k (recvAtLeast rd n canEof r)" "keptM k (recvToNul rd r)"
  using assms by (simp_all add: recvAtLeast_def recvToNul_def move_to_start_def Let_def frames)

lemma kept_consume [frames]: "frame r = k \<Longrightarrow> keptM k (consume n r)"
  by (simp add: consume_def frames)

lemma kept_ret [frames]: "frame r = k \<Longrightarrow> keptM k (ret a r)" "frame r = k \<Longrightarrow> keptM k (throw e r)"
  "frame (f r) = k \<Longrightarrow> keptM k (modifyM f r)"
  by (simp_all add: frames)

lemma frame_header [frames]: "frame (take_header bs offset r) = frame r"
  by (simp add: take_header_def frames)

lemma kept_header [frames]: "frame r = k \<Longrightarrow> keptM k (readPacketHeader r)" "frame r = k \<Longrightarrow> keptM k (readPacketHeaderAsync rd r)"
  by (simp_all add: readPacketHeader_def readPacketHeaderAsync_def frames)

lemma kept_readHeader [frames]: "frame r = k \<Longrightarrow> keptM k (readHeader rd r)"
  by (simp add: readHeader_def frames)

lemma kept_near [frames]: "frame r = k \<Longrightarrow> keptM k (correctNearPacketBoundary rd r)"
  by (simp add: correctNearPacketBoundary_def Let_def frames)

lemma kept_correct [frames]: "frame r = k \<Longrightarrow> keptM k (correctIfNear rd n r)"
  by (simp add: correctIfNear_def frames)

lemma kept_or_await [frames]:
  "(\<And>s. frame s = k \<Longrightarrow> keptM k (m s)) \<Longrightarrow> (\<And>s. frame s = k \<Longrightarrow> keptM k (m' s)) \<Longrightarrow> frame r = k \<Longrightarrow> keptM k (or_await m m' r)"
  by (simp add: or_await_def frames split: option.split)

lemma kept_fixed [frames]: "frame r = k \<Longrightarrow> keptM k (readFixed n get r)" "frame r = k \<Longrightarrow> keptM k (readFixedAsync rd n get r)"
  by (simp_all add: readFixed_def readFixedAsync_def frames)

lemmas fixed_defs = readUint8_def readUint8Async_def readInt8_def readInt8Async_def readUint16_def readUint16Async_def
  readInt16_def readInt16Async_def readUint24_def readUint24Async_def readUint32_def readUint32Async_def readInt32_def
  readInt32Async_def readUint64_def readUint64Async_def readInt64_def readInt64Async_def

lemma kept_lenenc [frames]: "frame r = k \<Longrightarrow> keptM k (readLenencInt r)" "frame r = k \<Longrightarrow> keptM k (readLenencIntAsync rd r)"
  by (simp_all add: readLenencInt_def readLenencIntAsync_def Let_def frames)

lemma kept_across [frames]: "frame r = k \<Longrightarrow> keptM k (finish_across bs offset len r)"
  by (simp add: finish_across_def frames)

lemma kept_short_bytes [frames]: "frame r = k \<Longrightarrow> keptM k (readShortBytes n r)" "frame r = k \<Longrightarrow> keptM k (readShortBytesAsync rd n r)"
  by (simp_all add: readShortBytes_def readShortBytesAsync_def Let_def frames)

lemma kept_nul_bytes [frames]: "frame r = k \<Longrightarrow> keptM k (readShortNulBytes r)" "frame r = k \<Longrightarrow> keptM k (readShortNulBytesAsync rd r)"
  by (simp_all add: readShortNulBytes_def readShortNulBytesAsync_def frames split: option.split)

lemma kept_lenenc_bytes [frames]: "frame r = k \<Longrightarrow> keptM k (readShortLenencBytes r)"
    "frame r = k \<Longrightarrow> keptM k (readShortLenencBytesAsync rd r)"
  by (simp_all add: readShortLenencBytes_def readShortLenencBytesAsync_def Let_def frames)

lemma kept_eof_bytes [frames]: "frame r = k \<Longrightarrow> keptM k (readShortEofBytes r)" "frame r = k \<Longrightarrow> keptM k (readShortEofBytesAsync rd r)"
  by (simp_all add: readShortEofBytes_def readShortEofBytesAsync_def Let_def frames)

lemma kept_decode [frames]:
  "(\<And>s. frame s = k \<Longrightarrow> keptM k (m s)) \<Longrightarrow> frame r = k \<Longrightarrow> keptM k (decode_with m r)"
  "(\<And>s. frame s = k \<Longrightarrow> keptM k (m' s)) \<Longrightarrow> frame r = k \<Longrightarrow> keptM k (decode_opt m' r)"
  by (simp_all add: decode_with_def decode_opt_def frames)

lemma kept_strings [frames]:
  assumes "frame r = k"
  shows "keptM k (readShortNulString r)" "keptM k (readShortNulStringAsync rd r)" "keptM k (readShortEofString r)"
    "keptM k (readShortEofStringAsync rd r)" "keptM k (readShortLenencString r)" "keptM k (readShortLenencStringAsync rd r)"
    "keptM k (rd_bytes rd len r)"
  using assms
  by (simp_all add: readShortNulString_def readShortNulStringAsync_def readShortEofString_def readShortEofStringAsync_def
      readShortLenencString_def readShortLenencStringAsync_def rd_bytes_def frames)

lemma kept_void [frames]: "frame r = k \<Longrightarrow> keptM k (readVoid len r)" "frame r = k \<Longrightarrow> keptM k (gotoEndOfPacket r)"
  by (simp_all add: readVoid_def gotoEndOfPacket_def frames)

lemma kept_void_inner [frames]: "frame r = k \<Longrightarrow> keptM k (void_inner rd n r)"
proof (induction rd n r rule: void_inner.induct)
  case (1 rd n r)
  then show ?case
    by (subst void_inner.simps) (auto simp: frames Let_def split: sum.split prod.split option.split)
qed

lemma kept_void_round [frames]: "frame r = k \<Longrightarrow> keptM k (readVoid_round rd len r)"
  by (simp add: readVoid_round_def Let_def frames)

text \<open>A loop without a bound keeps the state when what its body gives does.\<close>

lemma kept_void_async_some: "readVoidAsync rd len r = Some p \<Longrightarrow> keptM (frame r) p"
  by (erule readVoidAsync.raw_induct [where P = "\<lambda>rd len r p. keptM (frame r) p", rotated])
    (auto simp: keptM_pair split: if_splits prod.splits sum.splits dest!: keptM_D [OF kept_void_round [OF refl]])

lemma kept_void_async [frames]: "frame r = k \<Longrightarrow> keptL k (readVoidAsync rd len r)"
  using kept_void_async_some by (cases "readVoidAsync rd len r") (auto simp: frames)

lemma kept_getters [frames]:
  assumes "frame r = k"
  shows "keptL k (get_u8 h r)" "keptL k (get_u16 h r)" "keptL k (get_u24 h r)" "keptL k (get_u32 h r)" "keptL k (get_u64 h r)"
    "keptL k (get_lenenc h r)" "keptL k (get_bytes h n r)" "keptL k (get_string h n r)" "keptL k (get_eof_string h r)"
    "keptL k (get_lenenc_bytes h r)" "keptL k (get_lenenc_string h r)" "keptL k (get_header h r)"
  using assms
  by (simp_all add: get_u8_def get_u16_def get_u24_def get_u32_def get_u64_def get_lenenc_def get_bytes_def get_string_def
      get_eof_string_def get_lenenc_bytes_def get_lenenc_string_def get_header_def rd_u8_def rd_u16_def rd_u32_def fixed_defs
      frames)

lemma kept_goto_end [frames]: "frame r = k \<Longrightarrow> keptL k (goto_end h r)"
  by (simp add: goto_end_def gotoEndOfPacketAsync_def frames)

section \<open>Writing\<close>

lemma kept_write [frames]:
  assumes "frame r = k"
  shows "keptM k (write_bytes bs r)" "keptM k (setHeader n r)" "keptM k (startWritingNewPacket b r)" "keptM k (conn_write bs r)"
  using assms
  by (simp_all add: write_bytes_def setHeader_def startWritingNewPacket_def conn_write_def Let_def frames
      split: option.split nat.split prod.split)

lemma frame_write [frames]:
  "frame (write_element b r) = frame r" "frame (writeShortString s r) = frame r" "frame (discardPacket r) = frame r"
  by (simp_all add: write_element_def writeShortString_def discardPacket_def frames split: prod.split)

lemma kept_compressed [frames]: "frame r = k \<Longrightarrow> keptM k (toCompressedPackets cz bs w starts r)"
  by (simp add: toCompressedPackets_def Let_def frames split: sum.split prod.split)

lemma kept_send [frames]:
  assumes "frame r = k"
  shows "keptM k (sendPackets cz n r)" "keptM k (sendData cz w bs r)" "keptM k (send cz r)"
  using assms by (simp_all add: sendPackets_def sendData_def send_def Let_def frames)

lemma kept_chunk [frames]: "frame r = k \<Longrightarrow> keptM k (writeReadChunk v r)"
  by (simp add: writeReadChunk_def Let_def frames split: option.split)

lemma kept_as_error [frames]: "keptM k (m r) \<Longrightarrow> keptM k (as_SendWithDataError n m r)"
  by (simp add: as_SendWithDataError_def frames)

lemma kept_ready [frames]: "frame r = k \<Longrightarrow> keptM k (ready_for_reader b r)"
  by (simp add: ready_for_reader_def frames)

lemma kept_full_packets [frames]: "frame r = k \<Longrightarrow> keptM k (full_packets cz bs r)"
proof (induction cz bs r rule: full_packets.induct)
  case (1 cz bs r)
  then show ?case
    by (subst full_packets.simps) (auto intro!: keptM_bind simp: frames Let_def)
qed

lemma kept_send_bytes [frames]: "frame r = k \<Longrightarrow> keptM k (send_bytes cz canWait bs r)"
  by (simp add: send_bytes_def last_packet_def Let_def frames)

lemma kept_string_chunk [frames]: "frame r = k \<Longrightarrow> keptM k (string_chunk cz n carry s r)"
proof (induction cz n carry s r rule: string_chunk.induct)
  case (1 cz n carry s r)
  then show ?case
    by (subst string_chunk.simps) (auto intro!: keptM_bind simp: frames Let_def split: prod.split option.split)
qed

lemma kept_full_string_packets [frames]: "frame r = k \<Longrightarrow> keptM k (full_string_packets cz n carry s r)"
proof (induction cz n carry s r rule: full_string_packets.induct)
  case (1 cz n carry s r)
  then show ?case
    by (subst full_string_packets.simps) (auto intro!: keptM_bind simp: frames Let_def split: prod.split)
qed

lemma kept_pieces_some: "string_pieces cz n s r = Some p \<Longrightarrow> keptM (frame r) p"
  by (erule string_pieces.raw_induct [where P = "\<lambda>cz n s r p. keptM (frame r) p", rotated])
    (auto simp: frames split: if_splits prod.splits sum.splits dest!: keptM_D [OF kept_send(2) [OF refl]])

lemma kept_pieces [frames]: "frame r = k \<Longrightarrow> keptL k (string_pieces cz n s r)"
  using kept_pieces_some by (cases "string_pieces cz n s r") (auto simp: frames)

lemma kept_send_string [frames]: "frame r = k \<Longrightarrow> keptL k (send_string cz canWait s r)"
  by (simp add: send_string_def last_string_packet_def Let_def frames split: prod.split)

lemma kept_pipe [frames]: "frame r = k \<Longrightarrow> keptM k (pipe_stream cz len n m chunks r)"
proof (induction cz len n m chunks r rule: pipe_stream.induct)
  case (1 cz len n m chunks r)
  then show ?case
    by (subst pipe_stream.simps) (auto intro!: keptM_bind simp: frames Let_def split: prod.split sum.split)
qed

lemma kept_send_stream [frames]: "frame r = k \<Longrightarrow> keptM k (send_stream cz canWait n chunks r)"
  by (simp add: send_stream_def Let_def frames)

lemma kept_sendWithData [frames]: "frame r = k \<Longrightarrow> keptL k (sendWithData cz canWait sql r)"
  by (cases sql) (simp_all add: frames)

section \<open>Packets and responses\<close>

lemma kept_charsets [frames]:
  "frame r = k \<Longrightarrow> keptL k (setCharacterSetClient v r)" "frame r = k \<Longrightarrow> keptL k (setCharacterSetResults h v r)"
  "frame r = k \<Longrightarrow> keptL k (setTimeZone h v r)" "frame r = k \<Longrightarrow> keptL k (getTimezoneMsecOffset r)"
  by (simp_all add: setCharacterSetClient_def setCharacterSetResults_def setTimeZone_def getTimezoneMsecOffset_def frames
      split: option.split)

lemma kept_session_change [frames]: "frame r = k \<Longrightarrow> keptL k (session_change h r)"
  by (simp add: session_change_def frames)

lemma kept_session_some: "session_loop h to r = Some p \<Longrightarrow> keptM (frame r) p"
  by (erule session_loop.raw_induct [where P = "\<lambda>h to r p. keptM (frame r) p", rotated])
    (auto simp: keptM_pair split: if_splits option.splits prod.splits sum.splits
      dest!: keptL_D [OF kept_session_change [OF refl]])

lemma kept_session [frames]: "frame r = k \<Longrightarrow> keptL k (session_loop h to r)"
  using kept_session_some by (cases "session_loop h to r") (auto simp: frames)

lemma kept_ok_info [frames]: "frame r = k \<Longrightarrow> keptL k (read_ok_info h r)"
  by (simp add: read_ok_info_def frames split: prod.split)

lemma kept_packets [frames]:
  "frame r = k \<Longrightarrow> keptL k (read_ok_packet h r)" "frame r = k \<Longrightarrow> keptL k (read_eof_packet h r)"
  "frame r = k \<Longrightarrow> keptL k (read_err_packet h r)"
  by (simp_all add: read_ok_packet_def read_eof_packet_def read_err_packet_def frames split: prod.split)

lemma kept_packet_of_type [frames]: "frame r = k \<Longrightarrow> keptL k (packet_of_type h mode typ r)"
  by (simp add: packet_of_type_def frames split: prod.split)

lemma kept_readPacket [frames]: "frame r = k \<Longrightarrow> keptL k (readPacket h mode r)"
  by (simp add: readPacket_def frames)

lemma kept_repeat [frames]:
  assumes "\<And>s. frame s = k \<Longrightarrow> keptL k (m s)"
  shows "frame r = k \<Longrightarrow> keptL k (repeatL n m r)"
  by (induction n arbitrary: r) (simp_all add: frames assms)

lemma kept_columns [frames]:
  "frame r = k \<Longrightarrow> keptL k (skipColumnDefinitionPackets h n r)" "frame r = k \<Longrightarrow> keptL k (readColumnDefinitionPackets h n r)"
  by (simp_all add: skipColumnDefinitionPackets_def readColumnDefinitionPackets_def read_eof_after_columns_def
      read_column41_def read_column320_def readMariadbExtendedTypeInfo_def frames)

lemma kept_file_packet [frames]: "frame r = k \<Longrightarrow> keptL k (send_file_packet h isStream chunks r)"
  by (simp add: send_file_packet_def writeShortBytes_def frames split: prod.split option.split)

lemma kept_file_some: "send_file h isStream chunks r = Some p \<Longrightarrow> keptM (frame r) p"
  by (erule send_file.raw_induct [where P = "\<lambda>h isStream chunks r p. keptM (frame r) p", rotated])
    (auto simp: keptM_pair split: option.splits prod.splits sum.splits dest!: keptL_D [OF kept_file_packet [OF refl]])

lemma kept_file [frames]: "frame r = k \<Longrightarrow> keptL k (send_file h isStream chunks r)"
  using kept_file_some by (cases "send_file h isStream chunks r") (auto simp: frames)

lemma kept_infile [frames]: "frame r = k \<Longrightarrow> keptL k (local_infile h r)"
  by (simp add: local_infile_def frames split: option.split sum.split local_file.split)

lemma kept_upd [frames]: "frame r = k \<Longrightarrow> keptL k (updL i f r)" "frame r = k \<Longrightarrow> keptL k (initResultsets i r)"
  by (simp_all add: updL_def initResultsets_def frames)

lemma kept_round [frames]: "frame r = k \<Longrightarrow> keptL k (response_round h i mode r)"
  by (simp add: response_round_def frames)

lemma kept_head_some: "response_head h i mode r = Some p \<Longrightarrow> keptM (frame r) p"
  by (erule response_head.raw_induct [where P = "\<lambda>h i mode r p. keptM (frame r) p", rotated])
    (auto simp: keptM_pair split: option.splits prod.splits sum.splits dest!: keptL_D [OF kept_round [OF refl]])

lemma kept_head [frames]: "frame r = k \<Longrightarrow> keptL k (response_head h i mode r)"
  using kept_head_some by (cases "response_head h i mode r") (auto simp: frames)

lemma kept_response [frames]: "frame r = k \<Longrightarrow> keptL k (readQueryResponse h i mode skip r)"
  by (simp add: readQueryResponse_def frames split: prod.split)

section \<open>Commands\<close>

lemma kept_numbers [frames]:
  assumes "frame r = k"
  shows "keptM k (writeUint8 v r)" "keptM k (writeUint16 v r)" "keptM k (writeUint32 v r)" "keptM k (writeUint64 v r)"
    "keptM k (writeDouble n r)" "keptM k (new_command c r)"
  using assms
  by (simp_all add: writeUint8_def writeUint16_def writeUint32_def writeUint64_def writeDouble_def new_command_def frames)

lemma kept_lenenc_write [frames]: "frame r = k \<Longrightarrow> keptM k (writeLenencInt v r)"
  by (simp add: writeLenencInt_def frames)

lemma kept_short_write [frames]:
  "frame r = k \<Longrightarrow> keptM k (writeShortLenencBytes bs r)" "frame r = k \<Longrightarrow> keptM k (writeShortLenencString s r)"
  by (simp_all add: writeShortLenencBytes_def writeShortLenencString_def writeShortBytes_def Let_def frames)

lemma kept_close_stmts [frames]: "frame r = k \<Longrightarrow> keptM k (close_stmts ids r)"
  by (induction ids r rule: close_stmts.induct) (auto intro!: keptM_bind simp: frames)

lemma kept_doPending [frames]: "frame r = k \<Longrightarrow> keptL k (doPending h r)"
  by (simp add: doPending_def frames)

lemma kept_pending_some: "doPendingAll h r = Some p \<Longrightarrow> keptM (frame r) p"
  by (erule doPendingAll.raw_induct [where P = "\<lambda>h r p. keptM (frame r) p", rotated])
    (auto simp: keptM_pair split: if_splits option.splits prod.splits sum.splits dest!: keptL_D [OF kept_doPending [OF refl]])

lemma kept_doPendingAll [frames]: "frame r = k \<Longrightarrow> keptL k (doPendingAll h r)"
  using kept_pending_some by (cases "doPendingAll h r") (auto simp: frames)

lemma kept_before_query [frames]:
  "frame r = k \<Longrightarrow> keptL k (maybeInitDb r)" "frame r = k \<Longrightarrow> keptL k (maybeSetOption n r)" "frame r = k \<Longrightarrow> keptL k (newL s r)"
  by (simp_all add: maybeInitDb_def writeComInitDb_def maybeSetOption_def newL_def frames)

lemma kept_read_result [frames]:
  "(\<And>s. frame s = k \<Longrightarrow> keptL k (m s)) \<Longrightarrow> frame r = k \<Longrightarrow> keptL k (read_result h m error r)"
  by (simp add: read_result_def frames)

lemma kept_query_send [frames]: "frame r = k \<Longrightarrow> keptL k (query_send h sql q r)"
  by (simp add: query_send_def frames)

lemma kept_row: "frame r = k \<Longrightarrow> keptL k (bindL (readPacket h mode) (\<lambda>typ. bindL (goto_end h) (\<lambda>_. retL typ)) r)"
  by (simp add: frames)

lemma kept_discard_rows_some: "discard_rows h mode okType r = Some p \<Longrightarrow> keptM (frame r) p"
  by (erule discard_rows.raw_induct [where P = "\<lambda>h mode okType r p. keptM (frame r) p", rotated])
    (auto simp: keptM_pair split: if_splits option.splits prod.splits sum.splits dest!: keptL_D [OF kept_row [OF refl]])

lemma kept_discard_rows [frames]: "frame r = k \<Longrightarrow> keptL k (discard_rows h mode okType r)"
  using kept_discard_rows_some by (cases "discard_rows h mode okType r") (auto simp: frames)

lemma kept_discard_round [frames]: "frame r = k \<Longrightarrow> keptL k (discard_round h i mode okType onlyRows state r)"
  by (simp add: discard_round_def frames)

lemma kept_discard_some: "discard_loop h i mode okType onlyRows state r = Some p \<Longrightarrow> keptM (frame r) p"
  by (erule discard_loop.raw_induct [where P = "\<lambda>h i mode okType onlyRows state r p. keptM (frame r) p", rotated])
    (auto simp: keptM_pair split: if_splits option.splits prod.splits sum.splits dest!: keptL_D [OF kept_discard_round [OF refl]])

lemma kept_discard [frames]: "frame r = k \<Longrightarrow> keptL k (discard_loop h i mode okType onlyRows state r)"
  using kept_discard_some by (cases "discard_loop h i mode okType onlyRows state r") (auto simp: frames)

lemma kept_doDiscard [frames]: "frame r = k \<Longrightarrow> keptL k (doDiscard h state onlyRows r)"
  by (simp add: doDiscard_def cur_resultsets_def finish_resultsets_def Let_def frames split: option.split)

lemma kept_attach [frames]: "frame r = k \<Longrightarrow> keptL k (attach_resultsets h q i state r)"
  by (simp add: attach_resultsets_def frames)

lemma kept_long_chunk [frames]: "frame r = k \<Longrightarrow> keptL k (send_long_chunk h stmtId i isStream chunks r)"
  by (simp add: send_long_chunk_def long_data_header_def writeShortBytes_def frames split: prod.split option.split)

lemma kept_long_chunks_some: "send_long_chunks h stmtId i isStream chunks b r = Some p \<Longrightarrow> keptM (frame r) p"
  by (erule send_long_chunks.raw_induct [where P = "\<lambda>h stmtId i isStream chunks b r p. keptM (frame r) p", rotated])
    (auto simp: keptM_pair split: option.splits prod.splits sum.splits dest!: keptL_D [OF kept_long_chunk [OF refl]])

lemma kept_long_chunks [frames]: "frame r = k \<Longrightarrow> keptL k (send_long_chunks h stmtId i isStream chunks b r)"
  using kept_long_chunks_some by (cases "send_long_chunks h stmtId i isStream chunks b r") (auto simp: frames)

lemma kept_long_param [frames]: "frame r = k \<Longrightarrow> keptL k (send_long_param h stmtId i p r)"
  by (cases p) (simp_all add: send_long_data_def long_data_header_def frames)

lemma kept_long_params [frames]: "frame r = k \<Longrightarrow> keptL k (send_long_params h stmtId i ps r)"
  by (induction ps arbitrary: i r) (simp_all add: frames)

lemma kept_flush [frames]: "frame r = k \<Longrightarrow> keptM k (flush_unless cz n r)"
  by (simp add: flush_unless_def frames)

lemma kept_null_bits [frames]: "frame r = k \<Longrightarrow> keptM k (write_null_bits cz b m ps r)"
  by (induction ps arbitrary: b m r) (simp_all add: Let_def frames)

lemma kept_types [frames]: "frame r = k \<Longrightarrow> keptM k (write_types cz ps r)"
  by (induction ps arbitrary: r) (simp_all add: frames)

lemma kept_num [frames]: "(\<And>v s. frame s = k \<Longrightarrow> keptM k (m v s)) \<Longrightarrow> frame r = k \<Longrightarrow> keptM k (write_num m x r)"
  by (simp add: write_num_def)

lemma kept_param [frames]: "frame r = k \<Longrightarrow> keptM k (write_param e tz b p r)"
  by (cases p) (simp_all add: write_date_param_def Let_def frames)

lemma kept_params [frames]: "frame r = k \<Longrightarrow> keptM k (write_params e cz tz ps r)"
  by (induction ps arbitrary: r) (auto intro!: keptM_bind simp: frames)

lemma kept_execute [frames]: "frame r = k \<Longrightarrow> keptL k (sendComStmtExecute h stmtId n params correctDates r)"
  by (simp add: sendComStmtExecute_def write_execute_def frames)

lemma kept_three_send [frames]: "frame r = k \<Longrightarrow> keptL k (three_send h t sql q r)"
  by (simp add: three_send_def frames split: option.split prod.split)

section \<open>The state after a command\<close>

lemma bindL_E:
  assumes "bindL m g s = Some (x, s')"
  obtains (throws) e where "m s = Some (Inl e, s')" "x = Inl e" | (returns) a s1 where "m s = Some (Inr a, s1)" "g a s1 = Some (x, s')"
  using assms by (auto simp: bindL_def split: option.splits prod.splits sum.splits)

lemma tryL_E:
  assumes "tryL m g s = Some (x, s')"
  obtains (throws) e s1 where "m s = Some (Inl e, s1)" "g e s1 = Some (x, s')" | (returns) a where "m s = Some (Inr a, s')" "x = Inr a"
  using assms by (auto simp: tryL_def split: option.splits prod.splits sum.splits)

text \<open>The states in which a protocol has a response.\<close>

definition responded :: "protocol_state \<Rightarrow> bool" where
  "responded state \<longleftrightarrow> state \<in> {IDLE, HAS_MORE_ROWS, HAS_MORE_RESULTSETS}"

lemma response_state: "readQueryResponse h i mode skip r = Some (Inr state, r') \<Longrightarrow> responded state"
  unfolding readQueryResponse_def
  by (auto elim!: bindL_E split: prod.splits if_splits simp: state_after_response_def responded_def getL_def)

lemma discard_rows_state: "discard_rows h mode okType r = Some p \<Longrightarrow> fst p = Inr state \<Longrightarrow> responded state"
  by (erule discard_rows.raw_induct [where P = "\<lambda>h mode okType r p. fst p = Inr state \<longrightarrow> responded state", rotated, rule_format])
    (auto simp: responded_def split: if_splits option.splits prod.splits sum.splits)

lemma discard_round_state:
  "discard_round h i mode okType onlyRows s r = Some (Inr (state, b), r') \<Longrightarrow> responded s \<Longrightarrow> responded state"
  unfolding discard_round_def
  by (auto elim!: bindL_E split: if_splits dest!: response_state discard_rows_state)

lemma discard_loop_state:
  "discard_loop h i mode okType onlyRows s r = Some p \<Longrightarrow> responded s \<Longrightarrow> fst p = Inr state \<Longrightarrow> responded state"
  by (erule discard_loop.raw_induct [where P = "\<lambda>h i mode okType onlyRows s r p.
      responded s \<longrightarrow> fst p = Inr state \<longrightarrow> responded state", rotated, rule_format])
    (auto split: if_splits option.splits prod.splits sum.splits dest!: discard_round_state)

lemma doDiscard_state: "doDiscard h s onlyRows r = Some (Inr state, r') \<Longrightarrow> responded s \<Longrightarrow> responded state"
  unfolding doDiscard_def Let_def
  by (auto elim!: bindL_E dest!: discard_loop_state)

lemma attach_state: "attach_resultsets h q i s r = Some (Inr state, r') \<Longrightarrow> responded s \<Longrightarrow> responded state"
  unfolding attach_resultsets_def
  by (auto elim!: bindL_E split: if_splits dest!: doDiscard_state)

text \<open>A part of a command: it may set the state, and a result means that there is a response.\<close>

definition attempted :: "protocol_state \<times> protocol_state option option \<times> int \<times> nat \<Rightarrow> ((exn + 'a) \<times> proto) option \<Rightarrow> bool" where
  "attempted k p \<longleftrightarrow>
     (case p of None \<Rightarrow> True
      | Some (x, r') \<Rightarrow>
          snd (frame r') = snd k \<and>
          (case x of Inl e \<Rightarrow> p_state r' = fst k \<or> responded (p_state r') | Inr a \<Rightarrow> responded (p_state r')))"

lemma setState_plain: "p_onEndSession r = None \<Longrightarrow> setState state r = r\<lparr>p_state := state\<rparr>"
  by (simp add: setState_def)

lemma attempted_bind:
  assumes "keptL k (m s)" "\<And>a s'. m s = Some (Inr a, s') \<Longrightarrow> frame s' = k \<Longrightarrow> attempted k (g a s')"
  shows "attempted k (bindL m g s)"
proof (cases "m s")
  case (Some p)
  obtain x s' where p: "p = (x, s')"
    by (cases p)
  have "frame s' = k"
    using keptL_D [OF assms(1)] Some p by blast
  with assms(2) Some p show ?thesis
    by (cases x) (auto simp: attempted_def frame_def)
qed (simp add: bindL_def attempted_def)

lemma attempted_rethrow: "attempted k (m s) \<Longrightarrow> attempted k (tryL m (\<lambda>e. throwL (f e)) s)"
  by (auto simp: attempted_def tryL_def split: option.splits sum.splits)

lemma attempted_end:
  "responded state \<Longrightarrow> frame r = k \<Longrightarrow> fst (snd k) = None \<Longrightarrow>
   attempted k (bindL (setL (setState state)) (\<lambda>_. case error of Some e \<Rightarrow> throwL e | None \<Rightarrow> retL a) r)"
  by (auto simp: attempted_def frame_def setL_def bindL_def setState_plain split: option.split)

lemma attempted_inl: "frame r = k \<Longrightarrow> attempted k (Some (Inl e, r))"
  by (auto simp: attempted_def frame_def)

lemma query_attempted: "frame r = k \<Longrightarrow> fst (snd k) = None \<Longrightarrow> attempted k (query_attempt h sql q r)"
  unfolding query_attempt_def query_response_def
  by (intro attempted_bind attempted_rethrow attempted_end) (auto simp: frames dest: response_state attach_state)

lemma attempted_done:
  "responded state \<Longrightarrow> frame r = k \<Longrightarrow> fst (snd k) = None \<Longrightarrow> attempted k (bindL (setL (setState state)) (\<lambda>_. retL a) r)"
  by (auto simp: attempted_def frame_def setL_def bindL_def setState_plain)

lemma prepare_attempted: "frame r = k \<Longrightarrow> fst (snd k) = None \<Longrightarrow> attempted k (prepare_attempt h sql q skip r)"
  unfolding prepare_attempt_def
  by (intro attempted_bind attempted_end) (auto simp: frames responded_def)

lemma kept_prequery [frames]: "frame r = k \<Longrightarrow> keptL k (read_prequery h i b error r)"
  by (simp add: read_prequery_def frames)

lemma prequery_state: "read_prequery h i b error r = Some (Inr (state, e), r') \<Longrightarrow> responded state"
  unfolding read_prequery_def by (auto elim!: tryL_E bindL_E dest: response_state simp: responded_def)

lemma last_response_state:
  "tryL (bindL (readQueryResponse h i REGULAR False) (\<lambda>state. retL (state, error))) (\<lambda>e. retL (s, Some e)) r =
     Some (Inr (state, e'), r') \<Longrightarrow> responded s \<Longrightarrow> responded state"
  by (auto elim!: tryL_E bindL_E dest: response_state)

lemma kept_pre_stmt [frames]: "frame r = k \<Longrightarrow> keptL k (read_pre_stmt h r)"
  by (simp add: read_pre_stmt_def read_ok_continuation_def frames)

lemma attach_attempted:
  assumes "responded state" "frame r = k" "fst (snd k) = None"
  shows "attempted k (bindL (attach_resultsets h q i state) (\<lambda>state. bindL (setL (setState state)) (\<lambda>_. retL i)) r)"
  using assms by (intro attempted_bind attempted_done) (auto simp: frames dest: attach_state)

lemma last_response_attempted:
  assumes "responded state" "frame r = k" "fst (snd k) = None"
  shows "attempted k (bindL (tryL (bindL (readQueryResponse h i REGULAR False) (\<lambda>state. retL (state, error))) (\<lambda>e. retL (state, Some e)))
    (\<lambda>(state, error). case error of Some e \<Rightarrow> throwL e
       | None \<Rightarrow> bindL (attach_resultsets h q i state) (\<lambda>state. bindL (setL (setState state)) (\<lambda>_. retL i))) r)"
proof (rule attempted_bind)
  fix p s assume run: "tryL (bindL (readQueryResponse h i REGULAR False) (\<lambda>state. retL (state, error))) (\<lambda>e. retL (state, Some e)) r =
      Some (Inr p, s)" and s: "frame s = k"
  obtain state' error' where p: "p = (state', error')"
    by (cases p)
  have "responded state'"
    by (rule last_response_state [OF run [unfolded p] assms(1)])
  then show "attempted k ((case p of (state, error) \<Rightarrow> (case error of Some e \<Rightarrow> throwL e
      | None \<Rightarrow> bindL (attach_resultsets h q i state) (\<lambda>state. bindL (setL (setState state)) (\<lambda>_. retL i)))) s)"
    using attach_attempted [OF _ s assms(3)] s by (auto simp: p attempted_inl split: option.split)
qed (simp add: assms frames)

lemma three_response_attempted:
  assumes "frame r = k" "fst (snd k) = None"
  shows "attempted k (three_response h t q wantSetOption error r)"
proof -
  have "responded state" if "(if t_prequery t \<noteq> None then read_prequery h i (t_ignorePrequeryError t) error
      else retL (IDLE, error)) s = Some (Inr (state, e), s')" for i s s' state e
    using that by (auto simp: responded_def split: if_splits dest: prequery_state)
  then show ?thesis
    using assms unfolding three_response_def case_prod_unfold
    by (intro attempted_bind last_response_attempted [unfolded case_prod_unfold])
      (simp_all add: frames flip: case_prod_unfold, fastforce)
qed

lemma three_attempted: "frame r = k \<Longrightarrow> fst (snd k) = None \<Longrightarrow> attempted k (three_attempt h t sql q r)"
  unfolding three_attempt_def
  by (auto simp: frames split: prod.split intro!: attempted_bind three_response_attempted)

text \<open>
  A command that has begun ends in one of three ways: with a result and a state in which there is a response; with an error of
  the server, and idle; or with another error, which closes the connection. When the connection came from the pool and the
  caller allows it, the last is reported as no result.
\<close>

definition settled :: "proto \<Rightarrow> bool \<Rightarrow> ((exn + 'a option) \<times> proto) option \<Rightarrow> bool" where
  "settled r quiet p \<longleftrightarrow>
     (case p of None \<Rightarrow> True
      | Some (x, r') \<Rightarrow>
          p_onEndSession r' = None \<and> p_connectionId r' = p_connectionId r \<and>
          (case x of
             Inr (Some a) \<Rightarrow> responded (p_state r') \<and> p_closed r' = p_closed r
           | Inr None \<Rightarrow> quiet \<and> p_state r' = ERROR_STATE \<and> p_closed r' = Suc (p_closed r)
           | Inl e \<Rightarrow>
               if is_SqlError e then p_state r' = IDLE \<and> p_closed r' = p_closed r
               else p_state r' = ERROR_STATE \<and> p_closed r' = Suc (p_closed r)))"

lemma settled_rethrow:
  "p_onEndSession r = None \<Longrightarrow> settled r quiet (bindL (rethrowErrorIfFatal e quiet) (\<lambda>_. retL None) r)"
  by (auto simp: settled_def rethrowErrorIfFatal_def bindL_def setL_def setState_plain closer_dispose_def)

lemma settled_same: "settled s quiet p \<Longrightarrow> snd (frame s) = snd (frame r) \<Longrightarrow> settled r quiet p"
  by (auto simp: settled_def frame_def split: option.splits sum.splits if_splits)

text \<open>The \<open>try\<close> block with its handler.\<close>

lemma settled_try:
  assumes "attempted (frame r) (m r)" "p_onEndSession r = None"
    and "\<And>e s. snd (frame s) = snd (frame r) \<Longrightarrow> settled s quiet (g e s)"
  shows "settled r quiet (tryL (bindL m (\<lambda>i. retL (Some i))) g r)"
proof (cases "m r")
  case (Some p)
  obtain x s where p: "p = (x, s)"
    by (cases p)
  have s: "snd (frame s) = snd (frame r)" "\<forall>a. x = Inr a \<longrightarrow> responded (p_state s)"
    using assms(1) Some p by (auto simp: attempted_def)
  show ?thesis
  proof (cases x)
    case (Inl e)
    have "settled r quiet (g e s)"
      by (rule settled_same [OF assms(3) [OF s(1)] s(1)])
    then show ?thesis using Some p Inl by (simp add: tryL_def)
  next
    case (Inr a)
    then show ?thesis using Some p s assms(2) by (simp add: tryL_def settled_def frame_def)
  qed
qed (simp add: tryL_def bindL_def settled_def)

lemma query_settled:
  "p_onEndSession r = None \<Longrightarrow> \<not> q_noConvertError q \<Longrightarrow>
   settled r (isFromPool \<and> q_letReturnUndefined q) (query_loop h sql q isFromPool n r)"
proof (induction n arbitrary: r)
  case 0
  then show ?case
    by (subst query_loop.simps)
      (intro settled_try query_attempted, auto simp: frame_def wants_retry_def intro: settled_rethrow)
next
  case (Suc n)
  then show ?case
    by (subst query_loop.simps)
      (intro settled_try query_attempted, auto simp: frame_def intro: settled_rethrow)
qed

lemma three_settled:
  "p_onEndSession r = None \<Longrightarrow> settled r (isFromPool \<and> q_letReturnUndefined q) (three_loop h t sql q isFromPool n r)"
proof (induction n arbitrary: t r)
  case 0
  then show ?case
    by (subst three_loop.simps)
      (intro settled_try three_attempted, auto simp: frame_def wants_retry_def intro: settled_rethrow)
next
  case (Suc n)
  then show ?case
    by (subst three_loop.simps)
      (intro settled_try three_attempted, auto simp: frame_def intro: settled_rethrow)
qed

text \<open>A command is refused when there is something to read before it or the connection is over; else it settles.\<close>

definition may_begin :: "proto \<Rightarrow> bool" where
  "may_begin r \<longleftrightarrow> p_state r = IDLE \<or> p_state r = IDLE_IN_POOL"

definition command_settled :: "proto \<Rightarrow> bool \<Rightarrow> ((exn + 'a option) \<times> proto) option \<Rightarrow> bool" where
  "command_settled r letReturnUndefined p \<longleftrightarrow>
     (if may_begin r then settled r (p_state r = IDLE_IN_POOL \<and> letReturnUndefined) p else \<exists>e. p = Some (Inl e, r))"

lemma querying_settled:
  assumes "\<And>isFromPool s. snd (frame s) = snd (frame r) \<Longrightarrow> p_state s = QUERYING \<Longrightarrow> isFromPool = (p_state r = IDLE_IN_POOL) \<Longrightarrow>
      settled s (isFromPool \<and> letReturnUndefined) (m isFromPool s)"
  shows "command_settled r letReturnUndefined (bindL setQueryingState m r)"
proof (cases "may_begin r")
  case True
  let ?s = "r\<lparr>p_state := QUERYING\<rparr>"
  have "bindL setQueryingState m r = m (p_state r = IDLE_IN_POOL) ?s"
    using True by (auto simp: may_begin_def setQueryingState_def bindL_def getL_def setL_def)
  moreover have "settled r (p_state r = IDLE_IN_POOL \<and> letReturnUndefined) (m (p_state r = IDLE_IN_POOL) ?s)"
    by (rule settled_same [OF assms]) (simp_all add: frame_def)
  ultimately show ?thesis
    using True by (simp add: command_settled_def)
next
  case False
  then show ?thesis
    by (cases "p_state r") (simp_all add: may_begin_def command_settled_def setQueryingState_def bindL_def getL_def)
qed

lemma commands_settled:
  assumes "p_onEndSession r = None"
  shows "\<not> q_noConvertError q \<Longrightarrow> command_settled r (q_letReturnUndefined q) (sendComQuery h sql q n r)"
    and "command_settled r (q_letReturnUndefined q) (sendThreeQueries h t sql q n r)"
    and "command_settled r (q_letReturnUndefined q) (sendComStmtPrepare h sql q skip r)"
  unfolding sendComQuery_def sendThreeQueries_def sendComStmtPrepare_def
  using assms
  by (auto simp: frame_def intro!: querying_settled query_settled three_settled settled_try prepare_attempted settled_rethrow)

lemma attempted_set:
  "frame (f r) = k \<Longrightarrow> fst (snd k) = None \<Longrightarrow> responded state \<Longrightarrow> attempted k (setL (\<lambda>r. setState state (f r)) r)"
  by (auto simp: attempted_def setL_def setState_plain frame_def)

lemma kept_n_columns [frames]: "frame r = k \<Longrightarrow> keptL k (read_n_columns h n r)"
  by (simp add: read_n_columns_def unput_def frames)

lemma kept_continuation [frames]:
  "(\<And>s. frame s = k \<Longrightarrow> keptL k (m s)) \<Longrightarrow> frame r = k \<Longrightarrow> keptL k (read_ok_continuation h m r)"
  by (simp add: read_ok_continuation_def frames)

lemma exec_attempted:
  assumes "frame r = k" "fst (snd k) = None"
  shows "attempted k (exec_response h i r)"
proof -
  have "attempted k ((if 0 < n then
         bindL (readColumnDefinitionPackets h (nat n)) (\<lambda>columns.
         bindL (updL i (\<lambda>s. s\<lparr>s_columns := columns, s_hasProtocol := True, s_hasMore := True\<rparr>)) (\<lambda>_.
           setL (\<lambda>r. setState HAS_MORE_ROWS (r\<lparr>p_curResultsets := Some i\<rparr>))))
       else if more then
         bindL (updL i (\<lambda>s. s\<lparr>s_hasProtocol := True, s_hasMore := True\<rparr>)) (\<lambda>_.
         bindL (read_ok_continuation h (initResultsets i)) (\<lambda>_.
           setL (\<lambda>r. setState HAS_MORE_RESULTSETS (r\<lparr>p_curResultsets := Some i\<rparr>))))
       else bindL (read_ok_continuation h (initResultsets i)) (\<lambda>_. setL (setState IDLE))) s)"
    if s: "frame s = k" for n more s
    using s assms(2) attempted_set [where f = "\<lambda>r. r"]
    by (cases "0 < n"; cases more)
      (auto simp: frames responded_def intro!: attempted_bind attempted_set)
  then show ?thesis
    using assms unfolding exec_response_def by (intro attempted_bind) (simp_all add: frames)
qed

definition execution_settled :: "proto \<Rightarrow> ((exn + unit) \<times> proto) option \<Rightarrow> bool" where
  "execution_settled r p \<longleftrightarrow>
     (case p of None \<Rightarrow> True
      | Some (x, r') \<Rightarrow>
          r' = r \<and> (\<exists>e. x = Inl e) \<or>
          may_begin r \<and> p_onEndSession r' = None \<and> p_connectionId r' = p_connectionId r \<and>
          (case x of
             Inr _ \<Rightarrow> responded (p_state r') \<and> p_closed r' = p_closed r
           | Inl e \<Rightarrow>
               if is_SqlError e then p_state r' = IDLE \<and> p_closed r' = p_closed r
               else p_state r' = ERROR_STATE \<and> p_closed r' = Suc (p_closed r)))"

lemma execution_try:
  assumes "attempted (frame s) (m s)" "p_onEndSession s = None" "p_state s = QUERYING" "may_begin r" "snd (frame s) = snd (frame r)"
  shows "execution_settled r (tryL m rethrowError s)"
proof (cases "m s")
  case (Some p)
  obtain x s' where p: "p = (x, s')"
    by (cases p)
  show ?thesis
    using assms Some p
    by (cases x) (auto simp: attempted_def tryL_def execution_settled_def frame_def rethrowError_def bindL_def setL_def
        setState_plain closer_dispose_def responded_def)
qed (simp add: tryL_def execution_settled_def)

lemma execStmt_settled:
  assumes "p_onEndSession r = None"
  shows "execution_settled r (execStmt h i params correctDates r)"
proof (cases "0 \<le> s_stmtId (cur i r) \<and> may_begin r")
  case True
  let ?s = "r\<lparr>p_state := QUERYING\<rparr>"
  let ?m = "bindL (doPendingAll h) (\<lambda>_.
    bindL (sendComStmtExecute h (s_stmtId (cur i r)) (nat (s_nPlaceholders (cur i r))) params correctDates) (\<lambda>_. exec_response h i))"
  have "attempted (frame ?s) (?m ?s)"
    using assms by (intro attempted_bind exec_attempted) (simp_all add: frames, simp_all add: frame_def)
  then have "execution_settled r (tryL ?m rethrowError ?s)"
    using assms True by (intro execution_try) (simp_all add: frame_def)
  moreover have "execStmt h i params correctDates r = tryL ?m rethrowError ?s"
    using True by (auto simp: execStmt_def setQueryingState_def bindL_def getL_def setL_def may_begin_def)
  ultimately show ?thesis by simp
next
  case False
  then show ?thesis
    by (cases "p_state r")
      (auto simp: execStmt_def setQueryingState_def bindL_def getL_def may_begin_def execution_settled_def)
qed

end
