(* ===== verification/TrxSpec.thy ===== *)
theory TrxSpec
  imports Session ExecuteSpec ProtoStates
begin

text \<open>
  Transactions of connections and sessions: which commands are passed to the protocol, whatever the servers answer and
  whether or not the connections work.
\<close>

section \<open>What a connection is asked\<close>

text \<open>Whenever the operation returns or throws, the queries that it passed to the protocol satisfy \<open>P\<close>.\<close>

definition asks :: "(sql_source \<Rightarrow> bool) \<Rightarrow> 'a cl \<Rightarrow> bool" where
  "asks P m \<longleftrightarrow> (\<forall>c x c'. m c = Some (x, c') \<longrightarrow> (\<exists>sqls. c_asked c' = c_asked c @ sqls \<and> list_all P sqls))"

lemma asksD: "asks P m \<Longrightarrow> m c = Some (x, c') \<Longrightarrow> \<exists>sqls. c_asked c' = c_asked c @ sqls \<and> list_all P sqls"
  by (auto simp: asks_def)

named_theorems asks_intros \<open>what operations ask the protocol\<close>

lemma asks_ret [asks_intros]: "asks P (retC a)"
  by (auto simp: asks_def)

lemma asks_throw [asks_intros]: "asks P (throwC e)"
  by (auto simp: asks_def)

lemma asks_getC [asks_intros]: "asks P (getC f)"
  by (auto simp: asks_def getC_def)

lemma asks_setC [asks_intros]: "(\<And>c. c_asked (f c) = c_asked c) \<Longrightarrow> asks P (setC f)"
  by (auto simp: asks_def setC_def)

lemma asks_bind [asks_intros]:
  assumes "asks P m" "\<And>a. asks P (f a)"
  shows "asks P (bindL m f)"
  unfolding asks_def
proof (intro allI impI)
  fix c x c' assume run: "bindL m f c = Some (x, c')"
  then obtain y c1 where m: "m c = Some (y, c1)"
    by (cases "m c") (auto simp: bindL_def)
  obtain s1 where s1: "c_asked c1 = c_asked c @ s1" "list_all P s1"
    using asksD [OF assms(1) m] by blast
  show "\<exists>sqls. c_asked c' = c_asked c @ sqls \<and> list_all P sqls"
  proof (cases y)
    case (Inl e)
    then show ?thesis using run m s1 by (auto simp: bindL_def)
  next
    case (Inr a)
    then have "f a c1 = Some (x, c')"
      using run m by (simp add: bindL_def)
    from asksD [OF assms(2) this] show ?thesis
      using s1 by auto
  qed
qed

lemma asks_try [asks_intros]:
  assumes "asks P m" "\<And>e. asks P (handler e)"
  shows "asks P (tryC m handler)"
  unfolding asks_def
proof (intro allI impI)
  fix c x c' assume run: "tryC m handler c = Some (x, c')"
  then obtain y c1 where m: "m c = Some (y, c1)"
    by (cases "m c") (auto simp: tryC_def)
  obtain s1 where s1: "c_asked c1 = c_asked c @ s1" "list_all P s1"
    using asksD [OF assms(1) m] by blast
  show "\<exists>sqls. c_asked c' = c_asked c @ sqls \<and> list_all P sqls"
  proof (cases y)
    case (Inr a)
    then show ?thesis using run m s1 by (auto simp: tryC_def)
  next
    case (Inl e)
    then have "handler e c1 = Some (x, c')"
      using run m by (simp add: tryC_def)
    from asksD [OF assms(2) this] show ?thesis
      using s1 by auto
  qed
qed

lemma asks_if [asks_intros]: "(b \<Longrightarrow> asks P m) \<Longrightarrow> (\<not> b \<Longrightarrow> asks P m') \<Longrightarrow> asks P (if b then m else m')"
  by simp

lemma asks_whenC [asks_intros]: "(b \<Longrightarrow> asks P m) \<Longrightarrow> asks P (whenC b m)"
  by (simp add: whenC_def asks_ret)

lemma asks_protocol: "list_all P sqls \<Longrightarrow> asks P (on_protocol sqls m)"
  by (auto simp: asks_def on_protocol_def split: option.splits)

lemma asks_send_query [asks_intros]: "P (SqlString sql) \<Longrightarrow> asks P (send_query e sql b)"
  by (simp add: send_query_def asks_protocol)

lemma asks_send_two [asks_intros]: "P (SqlString prequery) \<Longrightarrow> P (SqlString sql) \<Longrightarrow> asks P (send_two e prequery b sql)"
  by (simp add: send_two_def asks_protocol)

lemma asks_beforeCommit [asks_intros]: "asks P (call_beforeCommit e)"
  by (auto simp: asks_def call_beforeCommit_def Let_def split: option.splits)

lemma asked_trx_over [simp]: "c_asked (trx_over c) = c_asked c"
  by (simp add: trx_over_def)

lemma asked_doEnd [simp]: "c_asked (conn_doEnd b c) = c_asked c"
  by (simp add: conn_doEnd_def Let_def split: option.split)

lemma asked_begin [simp]: "c_asked (begin_trx o' c) = c_asked c"
  by (simp add: begin_trx_def Let_def split: option.split)

section \<open>Commands\<close>

definition commits :: "sql_source \<Rightarrow> bool" where
  "commits sql \<longleftrightarrow> (\<exists>s. sql = SqlString s \<and> (take 6 s = js ''COMMIT'' \<or> take 9 s = js ''XA COMMIT''))"

lemma no_commits [simp]:
  "\<not> commits (SqlString (quoted ''XA END '' x))" "\<not> commits (SqlString (quoted ''XA PREPARE '' x))"
  "\<not> commits (SqlString (quoted ''XA ROLLBACK '' x))" "\<not> commits (SqlString (js ''ROLLBACK''))"
  "\<not> commits (SqlString (js ''ROLLBACK AND CHAIN''))"
  by (simp_all add: commits_def quoted_def js_def)

lemma rollback_no_commit: "asks (\<lambda>s. \<not> commits s) (rollback_all e False)"
  unfolding rollback_all_def by (intro asks_intros) (simp_all add: whenC_def asks_ret)

lemma prepare_no_commit: "asks (\<lambda>s. \<not> commits s) (prepare_conn y dsn)"
  unfolding prepare_conn_def conn_prepareCommit_def by (intro asks_intros) simp_all

section \<open>All connections of a session\<close>

lemma for_conns_run:
  "for_conns f conns = Some (errors, conns') \<Longrightarrow>
     list_all2 (\<lambda>(d, c) (d', c'). d' = d \<and> (\<exists>x. f d c = Some (x, c'))) conns conns' \<and>
     (errors = [] \<longleftrightarrow> (\<forall>(d, c) \<in> set conns. \<forall>ex c'. f d c \<noteq> Some (Inl ex, c')))"
proof (induction f conns arbitrary: errors conns' rule: for_conns.induct)
  case (2 f dsn c conns)
  obtain x c1 where c1: "f dsn c = Some (x, c1)"
    using 2(2) by (cases "f dsn c") auto
  obtain es cs where cs: "for_conns f conns = Some (es, cs)"
    using 2(2) c1 by (cases "for_conns f conns") auto
  have r: "errors = (case x of Inl ex \<Rightarrow> ex # es | Inr _ \<Rightarrow> es)" "conns' = (dsn, c1) # cs"
    using 2(2) c1 cs by simp_all
  show ?case
    using 2(1) [OF c1 refl cs] c1 by (auto simp: r split: sum.splits)
qed simp

text \<open>Each connection is asked more, and what it is asked in addition satisfies \<open>P\<close>.\<close>

definition asked_more :: "(sql_source \<Rightarrow> bool) \<Rightarrow> jsstr \<times> my_conn \<Rightarrow> jsstr \<times> my_conn \<Rightarrow> bool" where
  "asked_more P x y \<longleftrightarrow> fst y = fst x \<and> (\<exists>sqls. c_asked (snd y) = c_asked (snd x) @ sqls \<and> list_all P sqls)"

lemma session_roll:
  assumes "tryS (bindL (session_rollback_end y) throw_error) (\<lambda>_. retS ()) z = Some (x, z')"
  shows "x = Inr () \<and> list_all2 (\<lambda>(d, c) (d', c'). d' = d \<and> (\<exists>x. rollback_all (y_conn_env y d) False c = Some (x, c')))
    (z_conns z) (z_conns z') \<and> z_trxOptions z' = None"
proof -
  let ?z = "z\<lparr>z_trxOptions := None, z_savepointEnum := 0\<rparr>"
  have run: "session_rollback_end y z = rollback_conns y None ?z"
    by (simp add: session_rollback_end_def bindL_def setS_def)
  then obtain es cs where f: "for_conns (\<lambda>dsn. conn_rollback (y_conn_env y dsn) None) (z_conns z) = Some (es, cs)"
    using assms
    by (cases "for_conns (\<lambda>dsn. conn_rollback (y_conn_env y dsn) None) (z_conns z)")
      (auto simp: tryS_def bindL_def rollback_conns_def doAll_def)
  have "session_rollback_end y z = Some (Inr (case es of [] \<Rightarrow> None | ex # _ \<Rightarrow> Some ex), ?z\<lparr>z_conns := cs\<rparr>)"
    using f by (simp add: run rollback_conns_def doAll_def)
  then have "x = Inr ()" "z' = ?z\<lparr>z_conns := cs\<rparr>"
    using assms by (auto simp: tryS_def bindL_def throw_error_def split: list.splits)
  then show ?thesis
    using for_conns_run [OF f] by (simp add: conn_rollback_def case_prod_unfold)
qed

lemma before_commit_passes:
  assumes "\<And>handler. y_onBeforeCommit y = Some handler \<Longrightarrow> handler (z_beforeCommits z) = None"
  obtains n where "before_commit y z = Some (Inr (), z\<lparr>z_beforeCommits := n\<rparr>)"
proof (cases "y_onBeforeCommit y")
  case None
  then show ?thesis using that [of "z_beforeCommits z"] by (simp add: before_commit_def)
next
  case (Some handler)
  then show ?thesis using that [of "z_beforeCommits z + 1"] assms [OF Some] by (simp add: before_commit_def)
qed

text \<open>A transaction that is prepared is rolled back by its identifier.\<close>

lemma prepared_rolled_back:
  assumes "rollback_all e False c = Some (x, c')" "c_isXaPrepared c" "c_curXaId c \<noteq> []" "c_protocol c \<noteq> None"
  shows "SqlString (quoted ''XA ROLLBACK '' (c_curXaId c)) \<in> set (drop (length (c_asked c)) (c_asked c'))"
proof -
  obtain p where p: "c_protocol c = Some p" using assms(4) by blast
  let ?sql = "quoted ''XA ROLLBACK '' (c_curXaId c)"
  obtain y c1 where c1: "send_query e ?sql False c = Some (y, c1)" "c_asked c1 = c_asked c @ [SqlString ?sql]"
    using assms p
    by (cases "send_query e ?sql False c")
      (auto simp: rollback_all_def bindL_def getC_def has_transaction_def tryC_def send_query_def on_protocol_def split: option.splits)
  have "c_asked c' = c_asked c1"
    using assms p c1(1)
    by (cases y) (auto simp: rollback_all_def bindL_def getC_def setC_def has_transaction_def tryC_def whenC_def split: sum.splits)
  with c1(2) show ?thesis by simp
qed

lemma commit_fails_to_prepare:
  assumes run: "commit_with y roll chain z = Some (res, z')"
    and handler: "\<And>handler. y_onBeforeCommit y = Some handler \<Longrightarrow> handler (z_beforeCommits z) = None"
    and fails: "(d, c) \<in> set (z_conns z)" "prepare_conn y d c = Some (Inl ex, c1)"
  obtains z1 ex1 x1 where "tryS roll (\<lambda>_. retS ()) z1 = Some (x1, z')" "res = (case x1 of Inl e \<Rightarrow> Inl e | Inr _ \<Rightarrow> Inl ex1)"
    "z_trxOptions z1 = None"
    "list_all2 (\<lambda>(d, c) (d', c'). d' = d \<and> (\<exists>x. prepare_conn y d c = Some (x, c'))) (z_conns z) (z_conns z1)"
proof -
  let ?z = "z\<lparr>z_trxOptions := None, z_savepointEnum := 0\<rparr>"
  obtain n where n: "before_commit y ?z = Some (Inr (), ?z\<lparr>z_beforeCommits := n\<rparr>)"
    by (rule before_commit_passes [of y ?z]) (use handler in auto)
  let ?z1 = "?z\<lparr>z_beforeCommits := n\<rparr>"
  have ne: "z_conns z \<noteq> []" using fails(1) by auto
  then obtain es cs where f: "for_conns (prepare_conn y) (z_conns z) = Some (es, cs)"
    using run n
    by (cases "for_conns (prepare_conn y) (z_conns z)")
      (auto simp: commit_with_def bindL_def getS_def setS_def tryS_def doAll_def Let_def)
  note r = for_conns_run [OF f]
  have "es \<noteq> []"
  proof
    assume "es = []"
    then have "\<forall>(d, c) \<in> set (z_conns z). \<forall>ex c'. prepare_conn y d c \<noteq> Some (Inl ex, c')"
      using r by simp
    from bspec [OF this fails(1)] show False
      using fails(2) by simp
  qed
  then obtain e1 es' where es: "es = e1 # es'"
    by (cases es) auto
  let ?z2 = "?z1\<lparr>z_conns := cs\<rparr>"
  have e: "commit_with y roll chain z = bindL (tryS roll (\<lambda>_. retS ())) (\<lambda>_. throwS e1) ?z2"
    using n ne f es
    by (simp add: commit_with_def bindL_def getS_def setS_def tryS_def doAll_def Let_def split: option.split prod.split sum.split)
  then obtain x1 z2 where "tryS roll (\<lambda>_. retS ()) ?z2 = Some (x1, z2)" "res = (case x1 of Inl e \<Rightarrow> Inl e | Inr _ \<Rightarrow> Inl e1)" "z2 = z'"
    using run by (cases "tryS roll (\<lambda>_. retS ()) ?z2") (auto simp: bindL_def split: sum.splits)
  then show thesis
    using that [of ?z2 x1 e1] r by simp
qed

text \<open>
  When the first phase fails on one connection, no connection is asked to commit, and those that are prepared are asked to roll
  back.
\<close>

lemma two_phases:
  assumes run: "session_commit_end y z = Some (res, z')"
    and handler: "\<And>handler. y_onBeforeCommit y = Some handler \<Longrightarrow> handler (z_beforeCommits z) = None"
    and fails: "(d, c) \<in> set (z_conns z)" "prepare_conn y d c = Some (Inl ex, c1)"
  shows "(\<exists>ex. res = Inl ex) \<and> list_all2 (asked_more (\<lambda>s. \<not> commits s)) (z_conns z) (z_conns z') \<and>
    list_all2 (\<lambda>(d, c) (d', c'). \<forall>c1. prepare_conn y d c = Some (Inr (), c1) \<and> c_isXaPrepared c1 \<and> inXa c1 \<and> c_protocol c1 \<noteq> None \<longrightarrow>
      SqlString (quoted ''XA ROLLBACK '' (c_curXaId c1)) \<in> set (drop (length (c_asked c)) (c_asked c'))) (z_conns z) (z_conns z')"
proof -
  obtain z1 ex1 x1 where z1: "tryS (bindL (session_rollback_end y) throw_error) (\<lambda>_. retS ()) z1 = Some (x1, z')"
    "res = (case x1 of Inl e \<Rightarrow> Inl e | Inr _ \<Rightarrow> Inl ex1)"
    "list_all2 (\<lambda>(d, c) (d', c'). d' = d \<and> (\<exists>x. prepare_conn y d c = Some (x, c'))) (z_conns z) (z_conns z1)"
    by (rule commit_fails_to_prepare [OF run [unfolded session_commit_end_def] _ fails]) (use handler in auto)
  note roll = session_roll [OF z1(1)]
  have both: "list_all2 (\<lambda>(d, c) (d', c'). d' = d \<and> (\<exists>x c1 x'. prepare_conn y d c = Some (x, c1) \<and>
      rollback_all (y_conn_env y d) False c1 = Some (x', c'))) (z_conns z) (z_conns z')"
    by (rule list_all2_trans [OF _ z1(3) conjunct1 [OF conjunct2 [OF roll]]]) auto
  have "asked_more (\<lambda>s. \<not> commits s) (d, c) (d', c')"
    if r: "d' = d" "prepare_conn y d c = Some (x, c1)" "rollback_all (y_conn_env y d) False c1 = Some (x', c')" for d c d' c' x c1 x'
    using asksD [OF prepare_no_commit r(2)] asksD [OF rollback_no_commit r(3)] r(1) by (auto simp: asked_more_def)
  moreover have "SqlString (quoted ''XA ROLLBACK '' (c_curXaId c1)) \<in> set (drop (length (c_asked c)) (c_asked c'))"
    if r: "prepare_conn y d c = Some (Inr (), c1)" "rollback_all (y_conn_env y d) False c1 = Some (x', c')"
      "c_isXaPrepared c1" "inXa c1" "c_protocol c1 \<noteq> None" for d c c' c1 x'
  proof -
    obtain sqls where "c_asked c1 = c_asked c @ sqls"
      using asksD [OF prepare_no_commit r(1)] by blast
    moreover have "SqlString (quoted ''XA ROLLBACK '' (c_curXaId c1)) \<in> set (drop (length (c_asked c1)) (c_asked c'))"
      by (rule prepared_rolled_back [OF r(2,3)]) (use r(4,5) in \<open>simp_all add: inXa_def\<close>)
    ultimately show ?thesis
      using set_drop_subset_set_drop [of "length (c_asked c)" "length (c_asked c1)" "c_asked c'"] by auto
  qed
  ultimately show ?thesis
    using roll z1(2) by (auto intro!: list_all2_mono [OF both])
qed

section \<open>Pending commands\<close>

text \<open>What a call to the protocol does to the object.\<close>

lemma on_protocol_E:
  assumes "on_protocol sqls m c = Some (x, c')"
  obtains (no) "c_protocol c = None" "x = Inl type_error" "c' = c"
    | (yes) p p' where "c_protocol c = Some p" "m p = Some (x, p')" "c' = c\<lparr>c_protocol := Some p', c_log := c_log c @ map (Pair (c_given c)) sqls\<rparr>"
  using assms by (auto simp: on_protocol_def split: option.splits)

text \<open>The protocol is not one that comes from the pool, and no session is ending.\<close>

definition plain :: "my_conn \<Rightarrow> bool" where
  "plain c \<longleftrightarrow> (\<forall>p. c_protocol c = Some p \<longrightarrow> p_onEndSession p = None)"

definition live :: "my_conn \<Rightarrow> bool" where
  "live c \<longleftrightarrow> (\<exists>p. c_protocol c = Some p \<and> p_onEndSession p = None \<and> p_state p \<noteq> IDLE_IN_POOL)"

lemma live_plain: "live c \<Longrightarrow> plain c"
  by (auto simp: live_def plain_def)

lemma settled_live:
  assumes "command_settled p quiet (Some (Inr i, p'))" "p_onEndSession p = None"
  shows "(i = None \<longrightarrow> p_state p = IDLE_IN_POOL) \<and>
    (i \<noteq> None \<longrightarrow> p_onEndSession p' = None \<and> p_state p' \<noteq> IDLE_IN_POOL \<and> p_connectionId p' = p_connectionId p)"
  using assms by (cases i) (auto simp: command_settled_def settled_def responded_def split: if_splits)

text \<open>The connection that an object has, by the identifier that the server gave it.\<close>

definition conn_id :: "my_conn \<Rightarrow> int option" where
  "conn_id c = map_option p_connectionId (c_protocol c)"

lemma on_command:
  assumes "on_protocol sqls m c = Some (Inr i, c')" "plain c"
    and "\<And>p. p_onEndSession p = None \<Longrightarrow> command_settled p (quiet p) (m p)"
  shows "c_asked c' = c_asked c @ sqls \<and> (i \<noteq> None \<longrightarrow> live c' \<and> conn_id c' = conn_id c) \<and> (i = None \<longrightarrow> \<not> live c)"
  using assms(1)
proof (cases rule: on_protocol_E)
  case (yes p p')
  then have "p_onEndSession p = None"
    using assms(2) by (simp add: plain_def)
  with settled_live [of p "quiet p" i p'] assms(3) [of p] yes show ?thesis
    by (auto simp: live_def conn_id_def)
qed simp

lemma query_on_protocol:
  "p_onEndSession p = None \<Longrightarrow> \<not> q_noConvertError (q p) \<Longrightarrow>
   command_settled p (q_letReturnUndefined (q p)) (bindL (getL id) (\<lambda>r. sendComQuery h sql (q r) (k r)) p)"
  by (simp add: getL_def commands_settled)

lemma send_query_live:
  assumes "send_query e sql b c = Some (Inr i, c')" "plain c"
  shows "c_asked c' = c_asked c @ [SqlString sql] \<and> (i \<noteq> None \<longrightarrow> live c' \<and> conn_id c' = conn_id c) \<and> (i = None \<longrightarrow> \<not> live c)"
  by (rule on_command [OF assms(1) [unfolded send_query_def] assms(2) query_on_protocol]) (simp_all add: default_options_def)

text \<open>What is left alone: what was given back to the pool, the pending commands, and the identifier of the transaction.\<close>

definition trx_frame :: "my_conn \<Rightarrow> (proto \<times> jsstr) list \<times> jsstr list \<times> jsstr \<times> bool \<times> bool" where
  "trx_frame c = (c_returned c, c_pendingTrxSql c, c_curXaId c, c_curXaIdAppendConn c, c_isXaPrepared c)"

definition steady :: "'a cl \<Rightarrow> bool" where
  "steady m \<longleftrightarrow> (\<forall>c x c'. m c = Some (x, c') \<longrightarrow> trx_frame c' = trx_frame c)"

lemma steadyD: "steady m \<Longrightarrow> m c = Some (x, c') \<Longrightarrow> trx_frame c' = trx_frame c"
  by (auto simp: steady_def)

lemma steady_basic: "steady (retC a)" "steady (throwC e)" "steady (getC f)" "steady (on_protocol sqls m)"
  by (auto simp: steady_def getC_def on_protocol_def trx_frame_def split: option.splits)

lemma steady_set: "(\<And>c. trx_frame (f c) = trx_frame c) \<Longrightarrow> steady (setC f)"
  by (auto simp: steady_def setC_def)

lemma steady_bind: "steady m \<Longrightarrow> (\<And>a. steady (g a)) \<Longrightarrow> steady (bindL m g)"
  unfolding steady_def by (metis bindL_E)

lemma steady_send: "steady (send_query e sql b)"
  by (simp add: send_query_def steady_basic)

lemma steady_named: "steady (getNamedParamsQueries e ps b)"
  unfolding getNamedParamsQueries_def send_prepare_def
  by (auto simp: Let_def steady_basic trx_frame_def set_stmt_for_def split: prod.split option.split intro!: steady_bind steady_set)

lemma steady_try: "steady (try_query e sql params o' rowType ms n)"
  unfolding try_query_def send_prepare_def Let_def
  by (auto simp: steady_basic steady_named split: query_params.split option.split prod.split intro!: steady_bind)

text \<open>A pending command as it is sent: the empty string is XA START with the identifier of the transaction.\<close>

definition as_sent :: "jsstr \<Rightarrow> jsstr \<Rightarrow> jsstr" where
  "as_sent xa sql = (if sql = [] then quoted ''XA START '' xa else sql)"

lemma pending_sql_result:
  assumes "pending_sql sql c = Some (x, c')"
  shows "x = Inr (as_sent (c_curXaId c') sql) \<and> c_asked c' = c_asked c \<and> c_protocol c' = c_protocol c \<and>
    c_returned c' = c_returned c \<and> c_pendingTrxSql c' = c_pendingTrxSql c \<and>
    (c_curXaId c' = c_curXaId c \<or> sql = [] \<and> \<not> c_curXaIdAppendConn c') \<and>
    (c_curXaIdAppendConn c \<or> c_curXaIdAppendConn c' = c_curXaIdAppendConn c \<and> c_curXaId c' = c_curXaId c) \<and>
    (sql = [] \<longrightarrow> \<not> c_curXaIdAppendConn c')"
  using assms by (auto simp: pending_sql_def as_sent_def Let_def split: if_splits)

lemma send_pending_E:
  assumes "send_pending e (sql # sqls) n c = Some (Inr (m, ok), c')"
  obtains c1 c2 i where "pending_sql sql c = Some (Inr (as_sent (c_curXaId c1) sql), c1)"
    "send_query e (as_sent (c_curXaId c1) sql) (0 < n) c1 = Some (Inr i, c2)"
    "if i = None then \<not> ok \<and> c' = c2 else send_pending e sqls (n - 1) c2 = Some (Inr (m, ok), c')"
proof -
  obtain a c1 where 1: "pending_sql sql c = Some (Inr a, c1)"
    "bindL (send_query e a (0 < n)) (\<lambda>res. if res = None then retC (n - 1, False) else send_pending e sqls (n - 1)) c1 =
       Some (Inr (m, ok), c')"
    using assms by (auto elim!: bindL_E)
  have a: "a = as_sent (c_curXaId c1) sql"
    using pending_sql_result [OF 1(1)] by simp
  show thesis
    using 1(2) that 1(1) by (auto simp: a elim!: bindL_E split: if_splits)
qed

text \<open>The loop over the pending commands: all of them are sent in their order to one connection.\<close>

lemma send_pending_sent:
  assumes "send_pending e sqls n c = Some (Inr (m, True), c')" "plain c"
  shows "c_asked c' = c_asked c @ map (SqlString \<circ> as_sent (c_curXaId c')) sqls \<and> conn_id c' = conn_id c \<and> plain c' \<and>
    (sqls \<noteq> [] \<or> live c \<longrightarrow> live c') \<and> c_returned c' = c_returned c \<and> c_pendingTrxSql c' = c_pendingTrxSql c \<and>
    (c_curXaIdAppendConn c \<or> \<not> c_curXaIdAppendConn c' \<and> c_curXaId c' = c_curXaId c) \<and>
    ([] \<in> set sqls \<or> c_curXaId c' = c_curXaId c)"
  using assms
proof (induction sqls arbitrary: n c)
  case (Cons sql sqls)
  obtain c1 c2 i where 1: "pending_sql sql c = Some (Inr (as_sent (c_curXaId c1) sql), c1)"
    and 2: "send_query e (as_sent (c_curXaId c1) sql) (0 < n) c1 = Some (Inr i, c2)" "i \<noteq> None"
      "send_pending e sqls (n - 1) c2 = Some (Inr (m, True), c')"
    by (rule send_pending_E [OF Cons.prems(1)]) (auto intro: that split: if_splits)
  note p1 = pending_sql_result [OF 1]
  have "plain c1" "conn_id c1 = conn_id c"
    using Cons.prems(2) p1 by (simp_all add: plain_def conn_id_def)
  note s = send_query_live [OF 2(1) \<open>plain c1\<close>] and f = steadyD [OF steady_send 2(1)]
  have "live c2" "plain c2"
    using s 2(2) live_plain by blast+
  note IH = Cons.IH [OF 2(3) \<open>plain c2\<close>]
  have "as_sent (c_curXaId c1) sql = as_sent (c_curXaId c') sql"
    using p1 f IH by (auto simp: as_sent_def trx_frame_def)
  then show ?case
    using p1 s f IH 2(2) \<open>live c2\<close> \<open>conn_id c1 = conn_id c\<close> by (auto simp: trx_frame_def)
qed simp

lemma send_pending_dead:
  assumes "send_pending e sqls n c = Some (Inr (m, False), c')"
  shows "c_pendingTrxSql c' = c_pendingTrxSql c"
  using assms
proof (induction sqls arbitrary: n c)
  case (Cons sql sqls)
  obtain c1 c2 i where 1: "pending_sql sql c = Some (Inr (as_sent (c_curXaId c1) sql), c1)"
    and 2: "send_query e (as_sent (c_curXaId c1) sql) (0 < n) c1 = Some (Inr i, c2)"
      "if i = None then c' = c2 else send_pending e sqls (n - 1) c2 = Some (Inr (m, False), c')"
    by (rule send_pending_E [OF Cons.prems]) (auto intro: that split: if_splits)
  show ?case
    using pending_sql_result [OF 1] steadyD [OF steady_send 2(1)] 2(2) Cons.IH [of "n - 1" c2]
    by (auto simp: trx_frame_def split: if_splits)
qed simp

text \<open>On a connection that has answered a command, the query is not taken for one on a dead connection of the pool.\<close>

lemma send_prepare_live:
  assumes "send_prepare e sql opts skip c = Some (Inr i, c')" "live c"
  shows "i \<noteq> None \<and> live c'"
proof -
  have "c_asked c' = c_asked c @ [] \<and> (i \<noteq> None \<longrightarrow> live c' \<and> conn_id c' = conn_id c) \<and> (i = None \<longrightarrow> \<not> live c)"
    by (rule on_command [OF assms(1) [unfolded send_prepare_def] live_plain [OF assms(2)],
          where quiet = "\<lambda>p. q_letReturnUndefined (opts p)"])
      (simp add: getL_def commands_settled)
  with assms(2) show ?thesis by blast
qed

lemma live_pure: "on_protocol [] (getL f) c = Some (x, c') \<Longrightarrow> live c \<Longrightarrow> live c'"
  by (auto elim!: on_protocol_E simp: getL_def live_def)

lemma live_set: "setC (set_stmt_for pos stmtId) c = Some (x, c') \<Longrightarrow> live c \<Longrightarrow> live c'"
  by (auto simp: setC_def live_def set_stmt_for_def Let_def)

lemma named_live:
  assumes "getNamedParamsQueries e ps b c = Some (Inr r, c')" "live c"
  shows "r \<noteq> None \<and> live c'"
  using assms unfolding getNamedParamsQueries_def Let_def
  by (auto simp: getC_def split: if_splits prod.splits option.splits elim!: bindL_E
      dest!: send_prepare_live live_pure live_set)

lemma query_live:
  assumes "on_protocol sqls (bindL (getL id) (\<lambda>r. sendComQuery h sql (query_opts e o' rowType b ms r) (k r))) c = Some (Inr i, c')" "live c"
  shows "i \<noteq> None \<and> live c' \<and> conn_id c' = conn_id c"
  using on_command [OF assms(1) live_plain [OF assms(2)] query_on_protocol] assms(2) by (auto simp: query_opts_def)

lemma three_live:
  assumes "on_protocol sqls (bindL (getL id) (\<lambda>r. sendThreeQueries h (t r) sql (query_opts e o' rowType b ms r) (k r))) c = Some (Inr i, c')"
    "live c"
  shows "i \<noteq> None"
proof -
  have "c_asked c' = c_asked c @ sqls \<and> (i \<noteq> None \<longrightarrow> live c' \<and> conn_id c' = conn_id c) \<and> (i = None \<longrightarrow> \<not> live c)"
    by (rule on_command [OF assms(1) live_plain [OF assms(2)], where quiet = "\<lambda>p. b"])
      (use commands_settled(2) [of _ "query_opts e o' rowType b ms _"] in \<open>auto simp: getL_def query_opts_def\<close>)
  with assms(2) show ?thesis by blast
qed

lemma try_not_dead:
  assumes "try_query e sql params o' rowType ms n c = Some (Inr i, c')" "live c"
  shows "i \<noteq> None"
proof (cases params)
  case NoParams
  then show ?thesis using assms query_live by (auto simp: try_query_def Let_def)
next
  case PrepareOnly
  then show ?thesis using assms send_prepare_live by (auto simp: try_query_def Let_def split: if_splits)
next
  case (Positional ps)
  then show ?thesis
    using assms by (auto simp: try_query_def Let_def split: if_splits option.splits elim!: bindL_E dest!: send_prepare_live)
next
  case (Named ps)
  let ?b = "0 < n"
  obtain r c1 where r: "getNamedParamsQueries e ps ?b c = Some (Inr r, c1)"
    and run: "(case r of None \<Rightarrow> retC None
               | Some (stmtId, vals, None) \<Rightarrow>
                   on_protocol [sql] (bindL (getL id) (\<lambda>r. sendComQuery (e_penv e) sql (query_opts e o' rowType ?b ms r) (retry_times e o' r)))
               | Some (stmtId, vals, Some query1) \<Rightarrow>
                   on_protocol [SqlBytes query1, sql] (bindL (getL id) (\<lambda>r.
                     sendThreeQueries (e_penv e)
                       \<lparr>t_preStmt = (if 0 \<le> stmtId then Some (stmtId, vals) else None), t_prequery = Some (SqlBytes query1),
                        t_ignorePrequeryError = False\<rparr>
                       sql (query_opts e o' rowType ?b ms r) (retry_times e o' r)))) c1 = Some (Inr i, c')"
    using assms(1) Named by (auto simp: try_query_def Let_def elim!: bindL_E)
  obtain stmtId vals q where q: "r = Some (stmtId, vals, q)" and c1: "live c1"
    using named_live [OF r assms(2)] by auto
  show ?thesis
  proof (cases q)
    case None
    then show ?thesis using run query_live [OF _ c1] by (auto simp: q)
  next
    case (Some query1)
    then show ?thesis using run three_live [OF _ c1] by (auto simp: q)
  qed
qed

section \<open>Queries in a transaction\<close>

text \<open>The protocols of the pool are not at the end of a session.\<close>

definition plain_pool :: "conn_env \<Rightarrow> bool" where
  "plain_pool e \<longleftrightarrow> (\<forall>n schema p b. e_getProtocol e n schema = (Inr p, b) \<longrightarrow> p_onEndSession p = None)"

lemma connect_result:
  assumes "conn_connect e c = Some (Inr (), c1)" "plain_pool e" "plain c"
  shows "plain c1 \<and> c_protocol c1 \<noteq> None \<and> c_pendingTrxSql c1 = c_pendingTrxSql c \<and> c_log c1 = c_log c \<and>
    c_given c1 = c_given c + (if c_protocol c = None then 1 else 0)"
proof (cases "c_protocol c")
  case None
  define c0 where "c0 = c\<lparr>c_isConnecting := True, c_pendingChangeSchema := []\<rparr>"
  obtain res ended where g: "e_getProtocol e (length (c_requests c0)) (c_pendingChangeSchema c) = (res, ended)"
    by fastforce
  have "\<not> ended" "\<exists>p. res = Inr p"
    using assms(1) None g by (auto simp: conn_connect_def Let_def c0_def conn_end_def conn_doEnd_def split: if_splits sum.splits)
  then obtain p where p: "res = Inr p" "\<not> ended" by blast
  then have "p_onEndSession p = None"
    using assms(2) g unfolding plain_pool_def by blast
  then show ?thesis
    using assms(1) None g p by (auto simp: conn_connect_def Let_def c0_def plain_def split: if_splits)
next
  case (Some p)
  then show ?thesis using assms by (auto simp: conn_connect_def split: if_splits)
qed

text \<open>What is passed to the protocol that the object has, and to no other one; the object keeps it.\<close>

definition on_one :: "'a cl \<Rightarrow> bool" where
  "on_one m \<longleftrightarrow> (\<forall>c x c'. m c = Some (x, c') \<longrightarrow> c_given c' = c_given c \<and> (c_protocol c' = None \<longleftrightarrow> c_protocol c = None) \<and>
     (\<exists>sqls. c_log c' = c_log c @ map (Pair (c_given c)) sqls))"

lemma on_oneD: "on_one m \<Longrightarrow> m c = Some (x, c') \<Longrightarrow> c_given c' = c_given c \<and> (c_protocol c' = None \<longleftrightarrow> c_protocol c = None) \<and>
    (\<exists>sqls. c_log c' = c_log c @ map (Pair (c_given c)) sqls)"
  by (auto simp: on_one_def)

named_theorems one_intros \<open>operations on one protocol\<close>

lemma one_basic [one_intros]: "on_one (retC a)" "on_one (throwC e)" "on_one (getC f)"
  by (auto simp: on_one_def getC_def)

lemma one_protocol [one_intros]: "on_one (on_protocol sqls m)"
  by (auto simp: on_one_def on_protocol_def split: option.splits)

lemma one_set [one_intros]: "on_one (setC (set_stmt_for pos i))"
  by (auto simp: on_one_def setC_def set_stmt_for_def Let_def)

lemma one_bind [one_intros]:
  assumes "on_one m" "\<And>a. on_one (f a)"
  shows "on_one (bindL m f)"
  unfolding on_one_def
proof (intro allI impI)
  fix c x c' assume "bindL m f c = Some (x, c')"
  then show "c_given c' = c_given c \<and> (c_protocol c' = None \<longleftrightarrow> c_protocol c = None) \<and>
      (\<exists>sqls. c_log c' = c_log c @ map (Pair (c_given c)) sqls)"
  proof (cases rule: bindL_E)
    case (returns a c1)
    obtain s1 where s1: "c_given c1 = c_given c" "c_protocol c1 = None \<longleftrightarrow> c_protocol c = None"
      "c_log c1 = c_log c @ map (Pair (c_given c)) s1"
      using on_oneD [OF assms(1) returns(1)] by auto
    obtain s2 where s2: "c_given c' = c_given c1" "c_protocol c' = None \<longleftrightarrow> c_protocol c1 = None"
      "c_log c' = c_log c1 @ map (Pair (c_given c1)) s2"
      using on_oneD [OF assms(2) returns(2)] by auto
    show ?thesis
      using s1 s2 by (intro conjI exI [of _ "s1 @ s2"]) simp_all
  qed (use on_oneD [OF assms(1)] in auto)
qed

lemma one_send_query [one_intros]: "on_one (send_query e sql b)"
  by (simp add: send_query_def one_protocol)

lemma one_send_prepare [one_intros]: "on_one (send_prepare e sql q b)"
  by (simp add: send_prepare_def one_protocol)

lemma one_pending [one_intros]: "on_one (pending_sql sql)"
  by (auto simp: on_one_def pending_sql_def Let_def)

lemma one_send_pending: "on_one (send_pending e sqls n)"
  by (induction sqls arbitrary: n) (auto intro!: one_intros)

lemma one_named [one_intros]: "on_one (getNamedParamsQueries e ps b)"
  unfolding getNamedParamsQueries_def
  by (auto simp: Let_def split: prod.split option.split intro!: one_intros)

lemma one_try_query: "on_one (try_query e sql params o' rowType ms n)"
  unfolding try_query_def Let_def
  by (auto split: query_params.split option.split prod.split intro!: one_intros)

text \<open>
  The pending commands, in their order, and then the query (a query with parameters may take several) are passed to the
  protocol that the object has at the end; what was passed before (\<open>pre\<close>) went to protocols that the object had earlier; nothing
  is pending afterwards.
\<close>

definition sent_in_order :: "sql_source \<Rightarrow> query_params \<Rightarrow> jsstr list \<Rightarrow> my_conn \<Rightarrow> my_conn \<Rightarrow> bool" where
  "sent_in_order sql params trx c c' \<longleftrightarrow>
     (\<exists>pre post. c_log c' = c_log c @ pre @ map (Pair (c_given c')) (map (SqlString \<circ> as_sent (c_curXaId c')) trx @ post) \<and>
        (\<forall>x \<in> set pre. fst x < c_given c') \<and> (params = NoParams \<longrightarrow> post = [sql])) \<and>
     c_given c + (if c_protocol c = None then 1 else 0) \<le> c_given c' \<and> c_protocol c' \<noteq> None \<and> c_pendingTrxSql c' = []"

lemma asks_protocol_any: "asks (\<lambda>_. True) (on_protocol sqls m)"
  by (rule asks_protocol) (simp add: list_all_iff)

lemma asks_named: "asks (\<lambda>_. True) (getNamedParamsQueries e ps b)"
  unfolding getNamedParamsQueries_def send_prepare_def
  by (auto simp: Let_def asks_protocol_any set_stmt_for_def split: prod.split option.split intro!: asks_intros)

lemma asks_try_query: "asks (\<lambda>_. True) (try_query e sql params o' rowType ms n)"
  unfolding try_query_def send_prepare_def Let_def
  by (auto simp: asks_protocol_any asks_named split: query_params.split option.split prod.split intro!: asks_intros)

lemma asks_connect: "asks P (conn_connect e)"
  by (auto simp: asks_def conn_connect_def conn_end_def Let_def split: prod.splits sum.splits)

lemma asks_pending: "asks P (pending_sql sql)"
  using pending_sql_result by (fastforce simp: asks_def)

lemma asks_send_pending: "asks (\<lambda>_. True) (send_pending e sqls n)"
  by (induction sqls arbitrary: n) (auto intro!: asks_intros asks_pending)

lemma asks_turn: "asks (\<lambda>_. True) (query_turn e sql params o' rowType ms n)"
  unfolding query_turn_def
  by (auto split: option.split intro!: asks_intros asks_connect asks_send_pending asks_try_query)

lemma query_turn_E:
  assumes "query_turn e sql params o' rowType ms n c = Some (Inr r, c')"
  obtains (dead) c1 m c2 where "conn_connect e c = Some (Inr (), c1)" "send_pending e (c_pendingTrxSql c1) n c1 = Some (Inr (m, False), c2)"
      "r = Inl m" "c' = conn_doEnd True c2"
    | (tried) c1 m c2 res c3 where "conn_connect e c = Some (Inr (), c1)" "send_pending e (c_pendingTrxSql c1) n c1 = Some (Inr (m, True), c2)"
      "try_query e sql params o' rowType ms m (c2\<lparr>c_pendingTrxSql := []\<rparr>) = Some (Inr res, c3)"
      "case res of Some i \<Rightarrow> r = Inr i \<and> c' = c3 | None \<Rightarrow> r = Inl (m - 1) \<and> c' = conn_doEnd False c3"
  using assms unfolding query_turn_def
  by (auto simp: getC_def setC_def split: if_splits prod.splits option.splits elim!: bindL_E)

lemma doEnd_plain [simp]: "plain (conn_doEnd b c)" "c_pendingTrxSql (conn_doEnd b c) = (if b then c_pendingTrxSql c else [])"
  by (simp_all add: conn_doEnd_def plain_def Let_def split: option.split)

lemma doEnd_log [simp]: "c_log (conn_doEnd b c) = c_log c" "c_given (conn_doEnd b c) = c_given c" "c_protocol (conn_doEnd b c) = None"
  by (simp_all add: conn_doEnd_def Let_def split: option.split)

text \<open>A turn after which the loop goes on: the protocol has been given back.\<close>

lemma turn_again:
  assumes "query_turn e sql params o' rowType ms n c = Some (Inr (Inl n'), c')" "plain_pool e" "plain c"
  shows "c_pendingTrxSql c' = c_pendingTrxSql c \<and> plain c' \<and> c_protocol c' = None \<and>
    c_given c + (if c_protocol c = None then 1 else 0) \<le> c_given c' \<and>
    (\<exists>sqls. c_log c' = c_log c @ map (Pair (c_given c')) sqls)"
  using assms(1)
proof (cases rule: query_turn_E)
  case (dead c1 m c2)
  then show ?thesis
    using connect_result [OF dead(1) assms(2,3)] send_pending_dead [OF dead(2)] on_oneD [OF one_send_pending dead(2)] by simp
next
  case (tried c1 m c2 res c3)
  note c1 = connect_result [OF tried(1) assms(2,3)]
  have res: "res = None" "c' = conn_doEnd False c3"
    using tried(4) by (auto split: option.splits)
  have "\<not> live (c2\<lparr>c_pendingTrxSql := []\<rparr>)"
    using try_not_dead [OF tried(3)] res by blast
  then have none: "c_pendingTrxSql c1 = []"
    using send_pending_sent [OF tried(2)] c1 by (auto simp: live_def)
  then have "c2 = c1"
    using tried(2) by (simp add: ret_def)
  then show ?thesis
    using c1 none on_oneD [OF one_try_query tried(3)] by (simp add: res)
qed

lemma turn_result:
  assumes "query_turn e sql params o' rowType ms n c = Some (Inr (Inr i), c')" "plain_pool e" "plain c"
  shows "sent_in_order sql params (c_pendingTrxSql c) c c'"
  using assms(1)
proof (cases rule: query_turn_E)
  case (tried c1 m c2 res c3)
  note c1 = connect_result [OF tried(1) assms(2,3)]
  have res: "res = Some i" "c' = c3"
    using tried(4) by (auto split: option.splits)
  let ?c2 = "c2\<lparr>c_pendingTrxSql := []\<rparr>"
  have c1p: "plain c1" using c1 by simp
  note s = send_pending_sent [OF tried(2) c1p]
  have c2: "plain ?c2" "conn_id ?c2 = conn_id c1"
    using s by (simp_all add: plain_def conn_id_def)
  note f = steadyD [OF steady_try tried(3)]
  obtain sqls where sqls: "c_given c2 = c_given c1" "c_log c2 = c_log c1 @ map (Pair (c_given c1)) sqls"
    using on_oneD [OF one_send_pending tried(2)] by blast
  obtain post where post: "c_given c3 = c_given c2" "c_log c3 = c_log c2 @ map (Pair (c_given c2)) post" "c_protocol c3 \<noteq> None"
    using on_oneD [OF one_try_query tried(3)] on_oneD [OF one_send_pending tried(2)] c1 by auto
  have "sqls = map (SqlString \<circ> as_sent (c_curXaId c2)) (c_pendingTrxSql c1)"
    using s sqls(2) by simp
  moreover have "c_curXaId c3 = c_curXaId c2" using f by (simp add: trx_frame_def)
  moreover have "post = [sql]" if "params = NoParams"
    using on_command [OF tried(3) [unfolded that try_query_def Let_def query_params.case res] c2(1) query_on_protocol]
      post(2) by (auto simp: query_opts_def)
  ultimately show ?thesis
    unfolding sent_in_order_def using sqls post c1 f
    by (intro conjI exI [of _ "[]"] exI [of _ post]) (simp_all add: res trx_frame_def)
qed simp

text \<open>The loop, whatever the turns before the last one.\<close>

lemma query_turns_in_order:
  assumes "query_turns e sql params o' rowType ms n c = Some (x, c')" "x = Inr i" "plain_pool e" "plain c"
  shows "sent_in_order sql params (c_pendingTrxSql c) c c'"
proof -
  let ?P = "\<lambda>e sql params o' rowType ms n c p. \<forall>i. fst p = Inr i \<longrightarrow> plain_pool e \<longrightarrow> plain c \<longrightarrow>
    sent_in_order sql params (c_pendingTrxSql c) c (snd p)"
  have "?P e sql params o' rowType ms n c (x, c')"
  proof (rule query_turns.raw_induct [where P = ?P, OF _ assms(1)], intro allI impI)
    fix f e sql params o' rowType ms n c p i
    assume IH: "\<And>e sql params o' rowType ms n c p. f e sql params o' rowType ms n c = Some p \<Longrightarrow> ?P e sql params o' rowType ms n c p"
      and step: "(case query_turn e sql params o' rowType ms n c of None \<Rightarrow> None
        | Some (Inl ex, c') \<Rightarrow> Some (Inl ex, c')
        | Some (Inr (Inr i), c') \<Rightarrow> Some (Inr i, c')
        | Some (Inr (Inl n'), c') \<Rightarrow> f e sql params o' rowType ms n' c') = Some p"
      and p: "fst p = Inr i" and ok: "plain_pool e" "plain c"
    obtain r c2 where t: "query_turn e sql params o' rowType ms n c = Some (Inr r, c2)"
      using step p by (auto split: option.splits prod.splits sum.splits)
    show "sent_in_order sql params (c_pendingTrxSql c) c (snd p)"
    proof (cases r)
      case (Inr k)
      have "snd p = c2"
        using step t Inr by auto
      with turn_result [OF t [unfolded Inr] ok] show ?thesis by simp
    next
      case (Inl n')
      have "f e sql params o' rowType ms n' c2 = Some p"
        using step t Inl by simp
      note again = turn_again [OF t [unfolded Inl] ok]
      have later: "sent_in_order sql params (c_pendingTrxSql c2) c2 (snd p)"
        using IH [OF \<open>f e sql params o' rowType ms n' c2 = Some p\<close>] again p ok(1) by simp
      obtain sqls where sqls: "c_log c2 = c_log c @ map (Pair (c_given c2)) sqls"
        using again by blast
      obtain pre post where pp: "c_log (snd p) = c_log c2 @ pre @ map (Pair (c_given (snd p)))
          (map (SqlString \<circ> as_sent (c_curXaId (snd p))) (c_pendingTrxSql c) @ post)"
        "\<forall>x \<in> set pre. fst x < c_given (snd p)" "params = NoParams \<longrightarrow> post = [sql]"
        and l: "c_given c2 < c_given (snd p)" "c_protocol (snd p) \<noteq> None" "c_pendingTrxSql (snd p) = []"
        using later again unfolding sent_in_order_def by auto
      show ?thesis
        unfolding sent_in_order_def using pp l sqls again
        by (intro conjI exI [of _ "map (Pair (c_given c2)) sqls @ pre"] exI [of _ post]) auto
    qed
  qed
  then show ?thesis using assms(2-4) by simp
qed

end
