(* ===== verification/ConnSpec.thy ===== *)
theory ConnSpec
  imports TrxSpec
begin

text \<open>
  The fields of a connection object fit together after every operation, and savepoints that were not sent yet are taken back
  without a command.
\<close>

section \<open>Well-formed connections\<close>

text \<open>
  Between two operations the object is not connecting; a prepared transaction and prepared statements belong to a protocol; and
  an identifier that waits for the id of the connection belongs to XA START as the first pending command, which stands for
  an identifier wherever it is.
\<close>

definition conn_wf :: "my_conn \<Rightarrow> bool" where
  "conn_wf c \<longleftrightarrow>
     \<not> c_isConnecting c \<and>
     (c_protocol c = None \<longrightarrow> \<not> c_isXaPrepared c \<and> c_preparedStmtsForParams c = []) \<and>
     (c_curXaIdAppendConn c \<longrightarrow> c_pendingTrxSql c \<noteq> [] \<and> hd (c_pendingTrxSql c) = []) \<and>
     ([] \<in> set (c_pendingTrxSql c) \<longrightarrow> c_curXaId c \<noteq> [] \<and> [] \<notin> set (tl (c_pendingTrxSql c)))"

definition keeps_wf :: "'a cl \<Rightarrow> bool" where
  "keeps_wf m \<longleftrightarrow> (\<forall>c x c'. conn_wf c \<longrightarrow> m c = Some (x, c') \<longrightarrow> conn_wf c')"

lemma keeps_wfD: "keeps_wf m \<Longrightarrow> conn_wf c \<Longrightarrow> m c = Some (x, c') \<Longrightarrow> conn_wf c'"
  unfolding keeps_wf_def by blast

named_theorems wf_intros \<open>operations that keep the fields fitting together\<close>

lemma wf_ret [wf_intros]: "keeps_wf (retC a)"
  by (auto simp: keeps_wf_def)

lemma wf_throw [wf_intros]: "keeps_wf (throwC e)"
  by (auto simp: keeps_wf_def)

lemma wf_getC [wf_intros]: "keeps_wf (getC f)"
  by (auto simp: keeps_wf_def getC_def)

lemma wf_setC [wf_intros]: "(\<And>c. conn_wf c \<Longrightarrow> conn_wf (f c)) \<Longrightarrow> keeps_wf (setC f)"
  by (auto simp: keeps_wf_def setC_def)

lemma wf_bind [wf_intros]: "keeps_wf m \<Longrightarrow> (\<And>a. keeps_wf (g a)) \<Longrightarrow> keeps_wf (bindL m g)"
  unfolding keeps_wf_def by (blast elim: bindL_E)

lemma tryC_E:
  assumes "tryC m g c = Some (x, c')"
  obtains (throws) e c1 where "m c = Some (Inl e, c1)" "g e c1 = Some (x, c')" | (returns) a where "m c = Some (Inr a, c')" "x = Inr a"
  using assms by (auto simp: tryC_def split: option.splits prod.splits sum.splits)

lemma wf_try [wf_intros]: "keeps_wf m \<Longrightarrow> (\<And>e. keeps_wf (g e)) \<Longrightarrow> keeps_wf (tryC m g)"
  unfolding keeps_wf_def by (blast elim: tryC_E)

lemma wf_if [wf_intros]: "(b \<Longrightarrow> keeps_wf m) \<Longrightarrow> (\<not> b \<Longrightarrow> keeps_wf m') \<Longrightarrow> keeps_wf (if b then m else m')"
  by simp

lemma wf_whenC [wf_intros]: "(b \<Longrightarrow> keeps_wf m) \<Longrightarrow> keeps_wf (whenC b m)"
  by (simp add: whenC_def wf_ret)

lemma wf_protocol [wf_intros]: "keeps_wf (on_protocol sqls m)"
  by (auto simp: keeps_wf_def on_protocol_def conn_wf_def split: option.splits)

lemma wf_beforeCommit [wf_intros]: "keeps_wf (call_beforeCommit e)"
  by (auto simp: keeps_wf_def call_beforeCommit_def conn_wf_def Let_def split: option.splits)

lemma wf_send [wf_intros]: "keeps_wf (send_query e sql b)" "keeps_wf (send_two e s1 b s2)" "keeps_wf (send_prepare e src opts skip)"
  by (simp_all add: send_query_def send_two_def send_prepare_def wf_protocol)

subsection \<open>Ending and connecting\<close>

lemma wf_new: "conn_wf new_conn_object"
  by (simp add: conn_wf_def new_conn_object_def)

lemma wf_doEnd: "conn_wf c \<Longrightarrow> conn_wf (conn_doEnd b c)"
  by (simp add: conn_wf_def conn_doEnd_def Let_def split: option.split)

lemma wf_doEnd_pending: "conn_wf (conn_doEnd False c)"
  by (simp add: conn_wf_def conn_doEnd_def Let_def split: option.split)

lemma wf_end: "conn_wf (conn_end c)" "conn_wf (conn_dispose c)" "conn_wf (snd (conn_forceImmediateDisconnect b c))"
  by (simp_all add: conn_end_def conn_dispose_def conn_forceImmediateDisconnect_def wf_doEnd_pending Let_def split: option.split prod.split)
    (simp_all add: conn_wf_def conn_doEnd_def Let_def)

lemma wf_use: "conn_wf c \<Longrightarrow> conn_wf (conn_use schema c)"
  by (simp add: conn_use_def conn_wf_def split: option.split)

lemma wf_connect [wf_intros]: "keeps_wf (conn_connect e)"
  unfolding keeps_wf_def conn_connect_def Let_def conn_end_def conn_doEnd_def
  by (auto simp: conn_wf_def split: if_splits prod.splits sum.splits)

lemma wf_kill [wf_intros]: "keeps_wf (killQuery e)"
  unfolding keeps_wf_def killQuery_def Let_def
  by (auto simp: conn_wf_def split: option.splits sum.splits)

subsection \<open>Queries\<close>

lemma wf_pending [wf_intros]: "keeps_wf (pending_sql sql)"
  by (auto simp: keeps_wf_def pending_sql_def conn_wf_def Let_def split: if_splits option.splits)

lemma wf_send_pending [wf_intros]: "keeps_wf (send_pending e sqls n)"
  by (induction sqls arbitrary: n) (auto intro!: wf_intros)

lemma wf_stmt: "keeps_wf (bindL (on_protocol [] (getL f)) (\<lambda>i. bindL (setC (set_stmt_for pos i)) (\<lambda>_. retC (g i))))"
  by (auto simp: keeps_wf_def bindL_def on_protocol_def getL_def setC_def set_stmt_for_def conn_wf_def Let_def split: option.splits)

lemma wf_named [wf_intros]: "keeps_wf (getNamedParamsQueries e ps b)"
  unfolding getNamedParamsQueries_def
  by (auto simp: Let_def split: prod.split option.split intro!: wf_intros wf_stmt)

lemma wf_try_query [wf_intros]: "keeps_wf (try_query e sql params o' rowType ms n)"
  unfolding try_query_def Let_def
  by (auto split: query_params.split option.split prod.split intro!: wf_intros)

lemma append_sent:
  assumes "send_pending e sqls n c = Some (Inr (m, True), c')" "c_curXaIdAppendConn c'"
  shows "c_curXaIdAppendConn c \<and> [] \<notin> set sqls"
  using assms
proof (induction sqls arbitrary: n c)
  case (Cons sql sqls)
  obtain c1 c2 i where 1: "pending_sql sql c = Some (Inr (as_sent (c_curXaId c1) sql), c1)"
    and 2: "send_query e (as_sent (c_curXaId c1) sql) (0 < n) c1 = Some (Inr i, c2)"
      "send_pending e sqls (n - 1) c2 = Some (Inr (m, True), c')"
    by (rule send_pending_E [OF Cons.prems(1)]) (auto intro: that split: if_splits)
  show ?case
    using pending_sql_result [OF 1] steadyD [OF steady_send 2(1)] Cons.IH [OF 2(2) Cons.prems(2)]
    by (auto simp: trx_frame_def)
qed simp

lemma wf_sent:
  assumes "send_pending e (c_pendingTrxSql c) n c = Some (Inr (m, ok), c')" "conn_wf c"
  shows "conn_wf c' \<and> (ok \<longrightarrow> conn_wf (c'\<lparr>c_pendingTrxSql := []\<rparr>))"
proof -
  have wf: "conn_wf c'" by (rule keeps_wfD [OF wf_send_pending assms(2,1)])
  have "\<not> c_curXaIdAppendConn c'" if ok
    using append_sent [of e "c_pendingTrxSql c" n c m c'] assms that by (cases "c_pendingTrxSql c") (auto simp: conn_wf_def)
  with wf show ?thesis by (simp add: conn_wf_def)
qed

lemma wf_not_sent: "send_pending e sqls n c = Some (Inl ex, c') \<Longrightarrow> conn_wf c \<Longrightarrow> conn_wf c'"
  by (rule keeps_wfD [OF wf_send_pending])

lemma wf_turn [wf_intros]: "keeps_wf (query_turn e sql params o' rowType ms n)"
  unfolding keeps_wf_def query_turn_def
  by (auto simp: getC_def setC_def wf_doEnd split: if_splits prod.splits option.splits elim!: bindL_E
      dest!: wf_sent keeps_wfD [OF wf_connect, rotated] wf_not_sent keeps_wfD [OF wf_try_query, rotated])

lemma wf_turns [wf_intros]: "keeps_wf (query_turns e sql params o' rowType ms n)"
proof -
  have "query_turns e sql params o' rowType ms n c = Some p \<Longrightarrow> conn_wf c \<longrightarrow> conn_wf (snd p)" for c p
    by (erule query_turns.raw_induct [where P = "\<lambda>e sql params o' rowType ms n c p. conn_wf c \<longrightarrow> conn_wf (snd p)", rotated])
      (auto split: option.splits prod.splits sum.splits dest: keeps_wfD [OF wf_turn])
  then show ?thesis
    unfolding keeps_wf_def by fastforce
qed

lemma wf_doQuery [wf_intros]: "keeps_wf (doQuery e sql params o' rowType ms)"
  by (simp add: doQuery_def wf_turns)

subsection \<open>Transactions\<close>

lemma wf_over: "conn_wf c \<Longrightarrow> conn_wf (trx_over c)"
  by (simp add: conn_wf_def trx_over_def)

lemma wf_commit_or_rollback [wf_intros]: "keeps_wf (commit_or_rollback e sql rollbackSql)"
  unfolding commit_or_rollback_def by (intro wf_intros wf_doEnd)

lemma wf_commit [wf_intros]: "keeps_wf (conn_commit e andChain)"
  unfolding conn_commit_def by (intro wf_intros wf_over) (auto intro!: wf_intros split: option.split)

lemma wf_begin: "conn_wf c \<Longrightarrow> conn_wf (begin_trx o' c)"
  by (auto simp: conn_wf_def begin_trx_def Let_def quoted_def js_def split: option.split)

lemma wf_startTrx [wf_intros]: "keeps_wf (conn_startTrx e o')"
  unfolding conn_startTrx_def Let_def by (intro wf_intros wf_begin)

lemma wf_savepoint: "conn_wf c \<Longrightarrow> conn_wf (snd (conn_savepoint c))" "conn_wf c \<Longrightarrow> conn_wf (sessionSavepoint n c)"
  by (auto simp: conn_wf_def conn_savepoint_def sessionSavepoint_def js_def Let_def hd_append tl_append split: list.split)

lemma wf_prepared: "keeps_wf (bindL (send_two e s1 b s2) (\<lambda>_. setC (\<lambda>c. c\<lparr>c_isXaPrepared := True\<rparr>)))"
  by (auto simp: keeps_wf_def send_two_def setC_def conn_wf_def elim!: bindL_E on_protocol_E)

lemma wf_prepareCommit [wf_intros]: "keeps_wf (conn_prepareCommit e)"
  unfolding conn_prepareCommit_def by (intro wf_intros wf_prepared)

text \<open>What is left of the pending commands is the part before the savepoint.\<close>

lemma unsent_prefix:
  "unsent_savepoint prefix n sqls = Some rest \<Longrightarrow> \<exists>sql tail. rev sqls = rest @ sql # tail \<and> take (length prefix) sql = prefix"
  by (induction sqls) (auto split: if_splits)

lemma wf_unsent:
  assumes "unsent_savepoint prefix n (rev (c_pendingTrxSql c)) = Some rest" "prefix \<noteq> []" "conn_wf c"
  shows "conn_wf (c\<lparr>c_pendingTrxSql := rest\<rparr>)"
proof -
  obtain sql tail where p: "c_pendingTrxSql c = rest @ sql # tail" "sql \<noteq> []"
    using unsent_prefix [OF assms(1)] assms(2) by force
  then show ?thesis
    using assms(3) by (cases rest) (auto simp: conn_wf_def)
qed

lemma wf_rollback_to [wf_intros]: "keeps_wf (rollback_to e n)"
  unfolding keeps_wf_def rollback_to_def Let_def
  by (auto simp: getC_def setC_def js_def split: if_splits option.splits elim!: bindL_E intro: wf_unsent
      dest!: keeps_wfD [OF wf_doQuery, rotated])

lemma wf_rollback_all [wf_intros]: "keeps_wf (rollback_all e chain)"
  unfolding rollback_all_def by (intro wf_intros wf_over wf_doEnd)

lemma wf_rollback [wf_intros]: "keeps_wf (conn_rollback e n)"
  unfolding conn_rollback_def by (auto intro!: wf_intros split: option.split)

section \<open>Savepoints that were not sent\<close>

text \<open>\<open>k\<close> calls of \<open>savepoint()\<close>.\<close>

definition savepoints :: "nat \<Rightarrow> my_conn \<Rightarrow> my_conn" where
  "savepoints k c = ((\<lambda>c. snd (conn_savepoint c)) ^^ k) c"

abbreviation sql_savepoint :: "nat \<Rightarrow> jsstr" where
  "sql_savepoint n \<equiv> js ''SAVEPOINT p'' @ to_base 10 n"

lemma savepoints_fields:
  "savepoints k c = c\<lparr>c_savepointEnum := c_savepointEnum c + k,
     c_pendingTrxSql := c_pendingTrxSql c @ map sql_savepoint [Suc (c_savepointEnum c) ..< Suc (c_savepointEnum c) + k]\<rparr>"
  by (induction k) (simp_all add: savepoints_def conn_savepoint_def)

lemma savepoint_number: "digits_value 10 (to_base 10 n) = n"
  using to_base_digits [of 10 n] by simp

lemma unsent_found:
  "a \<le> n \<Longrightarrow> n < b \<Longrightarrow> unsent_savepoint (js ''SAVEPOINT p'') n (rev (map sql_savepoint [a ..< b]) @ rest) =
     Some (rev rest @ map sql_savepoint [a ..< n])"
  by (induction b) (auto simp: savepoint_number less_Suc_eq)

lemma rollback_unsent:
  assumes "c_savepointEnum c < n" "n \<le> c_savepointEnum c + k" "n < SAVEPOINT_ENUM_SESSION_FROM"
  shows "conn_rollback e (Some n) (savepoints k c) =
    Some (Inr (), (savepoints k c)\<lparr>c_pendingTrxSql := c_pendingTrxSql c @ map sql_savepoint [Suc (c_savepointEnum c) ..< n]\<rparr>)"
  using assms unsent_found [of "Suc (c_savepointEnum c)" n "Suc (c_savepointEnum c) + k" "rev (c_pendingTrxSql c)"]
  by (simp add: conn_rollback_def rollback_to_def Let_def bindL_def getC_def setC_def savepoints_fields)

text \<open>The savepoints of the session stand between a savepoint of the connection and its rollback.\<close>

lemma savepoints_interfere:
  assumes "\<not> in_transaction c" "c_savepointEnum c + 1 < SAVEPOINT_ENUM_SESSION_FROM"
  shows "conn_rollback e (Some (fst (conn_savepoint c))) (sessionSavepoint m (snd (conn_savepoint c))) =
    Some (Inl (no_savepoint (c_savepointEnum c + 1)), sessionSavepoint m (snd (conn_savepoint c)))"
  using assms
  by (simp add: conn_rollback_def rollback_to_def Let_def bindL_def getC_def conn_savepoint_def sessionSavepoint_def js_def
      in_transaction_def)

lemma unsent_none: "\<forall>sql \<in> set sqls. take (length prefix) sql \<noteq> prefix \<Longrightarrow> unsent_savepoint prefix n sqls = None"
  by (cases sqls) simp_all

lemma length_savepoint: "length (js ''SAVEPOINT p'') = 11"
  by simp

text \<open>In SQL a savepoint is still there after a rollback to it. Here a second rollback does not find it.\<close>

lemma rollback_twice:
  assumes "\<not> in_transaction c" "c_savepointEnum c + 1 < SAVEPOINT_ENUM_SESSION_FROM"
    and "\<forall>sql \<in> set (c_pendingTrxSql c). take 11 sql \<noteq> js ''SAVEPOINT p''"
  shows "let (n, c1) = conn_savepoint c; rollback = conn_rollback e (Some n)
    in bindL rollback (\<lambda>_. rollback) c1 = Some (Inl (no_savepoint n), c1\<lparr>c_pendingTrxSql := c_pendingTrxSql c\<rparr>)"
proof -
  let ?n = "c_savepointEnum c + 1" and ?c1 = "savepoints 1 c"
  have c1: "conn_savepoint c = (?n, ?c1)"
    by (simp add: conn_savepoint_def savepoints_fields)
  have r: "conn_rollback e (Some ?n) ?c1 = Some (Inr (), ?c1\<lparr>c_pendingTrxSql := c_pendingTrxSql c\<rparr>)"
    using rollback_unsent [of c ?n 1] assms(2) by simp
  have "unsent_savepoint (js ''SAVEPOINT p'') ?n (rev (c_pendingTrxSql c)) = None"
    by (rule unsent_none) (use assms(3) in \<open>simp only: length_savepoint set_rev\<close>)
  moreover have "\<not> in_transaction (?c1\<lparr>c_pendingTrxSql := c_pendingTrxSql c\<rparr>)"
    using assms(1) by (simp add: in_transaction_def savepoints_fields)
  ultimately have "conn_rollback e (Some ?n) (?c1\<lparr>c_pendingTrxSql := c_pendingTrxSql c\<rparr>) =
      Some (Inl (no_savepoint ?n), ?c1\<lparr>c_pendingTrxSql := c_pendingTrxSql c\<rparr>)"
    using assms(2) by (simp add: conn_rollback_def rollback_to_def Let_def bindL_def getC_def)
  with r show ?thesis
    by (simp add: c1 bindL_def)
qed

section \<open>A new transaction after a prepared one\<close>

text \<open>
  When the server detaches a transaction that is prepared, the status does not have SERVER_STATUS_IN_TRANS, and \<open>startTrx()\<close>
  begins another transaction: the identifier of the prepared one is lost, and the mark that it is prepared stays with the
  new one. That is then not prepared, and its commit names a transaction that was not prepared.
\<close>

lemma prepared_lost:
  assumes "c_isXaPrepared c" "\<not> in_transaction c" "c_protocol c \<noteq> None" "xa \<noteq> []" "\<not> bad_xa_id xa"
  shows "\<exists>c'. conn_startTrx e (no_trx_options\<lparr>x_xaId := xa\<rparr>) c = Some (Inr (), c') \<and> c_asked c' = c_asked c \<and>
    c_isXaPrepared c' \<and> c_curXaId c' = xa \<and> conn_prepareCommit e c' = Some (Inr (), c') \<and> c_returned (conn_end c') =
      c_returned c @ [(the (c_protocol c), xa)]"
  using assms
  by (auto simp: conn_startTrx_def bindL_def getC_def setC_def no_trx_options_def begin_trx_def in_transaction_def
      conn_prepareCommit_def conn_end_def conn_doEnd_def Let_def)

section \<open>Reachable connections\<close>

text \<open>The states of an object that the application and the session can bring about, by any calls in any order.\<close>

inductive conn_reachable :: "conn_env \<Rightarrow> my_conn \<Rightarrow> bool" for e where
  created: "conn_reachable e new_conn_object"
| connected: "conn_reachable e c \<Longrightarrow> conn_connect e c = Some (x, c') \<Longrightarrow> conn_reachable e c'"
| queried: "conn_reachable e c \<Longrightarrow> doQuery e sql params o' rowType ms c = Some (x, c') \<Longrightarrow> conn_reachable e c'"
| killed: "conn_reachable e c \<Longrightarrow> killQuery e c = Some (x, c') \<Longrightarrow> conn_reachable e c'"
| used: "conn_reachable e c \<Longrightarrow> conn_reachable e (conn_use schema c)"
| started: "conn_reachable e c \<Longrightarrow> conn_startTrx e t c = Some (x, c') \<Longrightarrow> conn_reachable e c'"
| saved: "conn_reachable e c \<Longrightarrow> conn_reachable e (snd (conn_savepoint c))"
| session_saved: "conn_reachable e c \<Longrightarrow> conn_reachable e (sessionSavepoint n c)"
| prepared: "conn_reachable e c \<Longrightarrow> conn_prepareCommit e c = Some (x, c') \<Longrightarrow> conn_reachable e c'"
| committed: "conn_reachable e c \<Longrightarrow> conn_commit e chain c = Some (x, c') \<Longrightarrow> conn_reachable e c'"
| rolled_back: "conn_reachable e c \<Longrightarrow> conn_rollback e point c = Some (x, c') \<Longrightarrow> conn_reachable e c'"
| ended: "conn_reachable e c \<Longrightarrow> conn_reachable e (conn_end c)"
| disposed: "conn_reachable e c \<Longrightarrow> conn_reachable e (conn_dispose c)"
| disconnected: "conn_reachable e c \<Longrightarrow> conn_reachable e (snd (conn_forceImmediateDisconnect b c))"

lemma reachable_wf: "conn_reachable e c \<Longrightarrow> conn_wf c"
  by (induction rule: conn_reachable.induct)
    (assumption | rule wf_new wf_end | erule wf_use wf_savepoint keeps_wfD [OF wf_connect, rotated] keeps_wfD [OF wf_doQuery, rotated]
      keeps_wfD [OF wf_kill, rotated] keeps_wfD [OF wf_startTrx, rotated] keeps_wfD [OF wf_prepareCommit, rotated]
      keeps_wfD [OF wf_commit, rotated] keeps_wfD [OF wf_rollback, rotated])+

end
