(* ===== verification/ReallocAppend.thy ===== *)
theory ReallocAppend
  imports Prelude
begin

text \<open>
  \<open>reallocAppend()\<close> of \<open>src/private/realloc_append.ts\<close>: append to a view of an array buffer, in place when the
  buffer has room behind the view, else by moving the view to the beginning of the buffer, else in a new
  buffer. The buffer is explicit, because the data to append may be a view of the same buffer.
\<close>

text \<open>A \<open>Uint8Array\<close>: the whole buffer under it, the offset and the length of the view.\<close>

record u8view =
  view_buffer :: "byte list"
  byteOffset :: nat
  view_length :: nat

definition view_bytes :: "u8view \<Rightarrow> byte list" where
  "view_bytes v = subarray (view_buffer v) (byteOffset v) (byteOffset v + view_length v)"

definition view_wf :: "u8view \<Rightarrow> bool" where
  "view_wf v \<longleftrightarrow> byteOffset v + view_length v \<le> length (view_buffer v)"

text \<open>The data: an array with a buffer of its own, or a view (offset, length) of the buffer of \<open>arr\<close>.\<close>

datatype append_data = Separate "byte list" | SameBuffer nat nat

fun data_length :: "append_data \<Rightarrow> nat" where
  "data_length (Separate d) = length d"
| "data_length (SameBuffer off len) = len"

text \<open>What reading the data array yields while the shared buffer holds \<open>buf\<close>.\<close>

fun data_bytes :: "append_data \<Rightarrow> byte list \<Rightarrow> byte list" where
  "data_bytes (Separate d) buf = d"
| "data_bytes (SameBuffer off len) buf = subarray buf off (off + len)"

fun data_wf :: "append_data \<Rightarrow> byte list \<Rightarrow> bool" where
  "data_wf (Separate d) buf = True"
| "data_wf (SameBuffer off len) buf = (off + len \<le> length buf)"

text \<open>The copy \<open>new Uint8Array(data)\<close> that is taken when moving the view would overwrite the data.\<close>

fun snapshot_if_overlaps :: "append_data \<Rightarrow> nat \<Rightarrow> byte list \<Rightarrow> append_data" where
  "snapshot_if_overlaps (Separate d) len buf = Separate d"
| "snapshot_if_overlaps (SameBuffer off n) len buf =
     (if off < len then Separate (subarray buf off (off + n)) else SameBuffer off n)"

definition reallocAppend :: "u8view \<Rightarrow> append_data \<Rightarrow> bool \<Rightarrow> u8view" where
  "reallocAppend arr data withCapacity =
     (let buf = view_buffer arr; off = byteOffset arr; len = view_length arr;
          dataLen = data_length data;
          space = length buf - len - off
      in if dataLen \<le> space then
           arr\<lparr>view_buffer := arr_set buf (off + len) (data_bytes data buf), view_length := len + dataLen\<rparr>
         else if dataLen \<le> space + off then
           (let data' = snapshot_if_overlaps data len buf;
                buf1 = copy_within buf 0 off (off + len);
                buf2 = arr_set buf1 len (data_bytes data' buf1)
            in \<lparr>view_buffer = buf2, byteOffset = 0, view_length = len + dataLen\<rparr>)
         else
           (let cap = (if \<not> withCapacity then len + dataLen
                       else max (len + dataLen + len div 2) (len * 2));
                res = arr_set (replicate cap 0) 0 (view_bytes arr);
                res' = arr_set res len (data_bytes data buf)
            in \<lparr>view_buffer = res', byteOffset = 0, view_length = len + dataLen\<rparr>))"

lemma length_data_bytes [simp]: "data_wf d buf \<Longrightarrow> length (data_bytes d buf) = data_length d"
  by (cases d) (simp_all add: subarray_def)

lemma data_length_snapshot [simp]:
  "data_wf d buf \<Longrightarrow> data_length (snapshot_if_overlaps d n buf) = data_length d"
  by (cases d) (simp_all add: subarray_def)

text \<open>After the move, the (possibly copied) data still reads as before.\<close>

lemma data_bytes_after_move:
  assumes "data_wf d buf" "len \<le> length buf"
    and "length (subarray buf off (off + len)) = len"
  shows "data_bytes (snapshot_if_overlaps d len buf) (copy_within buf 0 off (off + len)) = data_bytes d buf"
proof (cases d)
  case (Separate x)
  then show ?thesis by simp
next
  case (SameBuffer o' n)
  show ?thesis
  proof (cases "o' < len")
    case True
    then show ?thesis using SameBuffer by simp
  next
    case False
    have "copy_within buf 0 off (off + len) = subarray buf off (off + len) @ drop len buf"
      using assms by (simp add: copy_within_def Let_def)
    then have "drop o' (copy_within buf 0 off (off + len)) = drop o' buf"
      using False assms(3) by simp
    then show ?thesis
      using False SameBuffer by (simp add: subarray_def)
  qed
qed

lemma reallocAppend_appends:
  assumes "view_wf arr" "data_wf data (view_buffer arr)"
  shows "view_wf (reallocAppend arr data withCapacity) \<and>
    view_bytes (reallocAppend arr data withCapacity) = view_bytes arr @ data_bytes data (view_buffer arr)"
proof -
  obtain buf off len where arr: "arr = \<lparr>view_buffer = buf, byteOffset = off, view_length = len\<rparr>"
    by (cases arr)
  let ?d = "data_bytes data buf" and ?n = "data_length data"
  have wf: "off + len \<le> length buf" and dwf: "data_wf data buf"
    using assms by (simp_all add: arr view_wf_def)
  have dlen: "length ?d = ?n"
    using dwf by simp
  have vlen: "length (subarray buf off (off + len)) = len"
    using wf by (simp add: subarray_def)
  consider (inplace) "?n \<le> length buf - len - off"
    | (shift) "\<not> ?n \<le> length buf - len - off" "?n \<le> length buf - len - off + off"
    | (grow) "\<not> ?n \<le> length buf - len - off + off"
    by linarith
  then show ?thesis
  proof cases
    case inplace
    then have fits: "off + len + length ?d \<le> length buf"
      using wf dlen by simp
    have "subarray (arr_set buf (off + len) ?d) off (off + len + length ?d) = subarray buf off (off + len) @ ?d"
      using wf by (intro subarray_arr_set_extend) simp_all
    then show ?thesis
      using inplace fits dlen
      by (simp add: arr reallocAppend_def Let_def view_bytes_def view_wf_def arr_simps add.assoc)
  next
    case shift
    let ?b1 = "copy_within buf 0 off (off + len)"
    have d': "data_bytes (snapshot_if_overlaps data len buf) ?b1 = ?d"
      using dwf wf vlen by (intro data_bytes_after_move) simp_all
    have l1: "length ?b1 = length buf"
      by (simp add: arr_simps)
    have room: "len + length ?d \<le> length buf"
      using shift wf dlen by simp
    have "subarray (arr_set ?b1 len ?d) 0 (len + length ?d) = subarray ?b1 0 len @ ?d"
      using room l1 by (intro subarray_arr_set_extend) simp_all
    moreover have "subarray ?b1 0 len = subarray buf off (off + len)"
      using copy_within_to_start [of off "off + len" buf] wf by simp
    ultimately show ?thesis
      using shift room dlen d' l1
      by (simp add: arr reallocAppend_def Let_def view_bytes_def view_wf_def arr_simps)
  next
    case grow
    let ?cap = "if \<not> withCapacity then len + ?n else max (len + ?n + len div 2) (len * 2)"
    let ?v = "subarray buf off (off + len)"
    let ?r = "arr_set (replicate ?cap (0::byte)) 0 ?v"
    have lr: "length ?r = ?cap"
      using vlen by (simp add: arr_simps)
    have "subarray ?r 0 len = ?v"
      using subarray_arr_set_extend [of 0 0 "replicate ?cap (0::byte)" ?v] vlen by simp
    moreover have "subarray (arr_set ?r len ?d) 0 (len + length ?d) = subarray ?r 0 len @ ?d"
      using lr by (intro subarray_arr_set_extend) auto
    moreover have "length (arr_set ?r len ?d) = ?cap"
      using lr dlen by (subst length_arr_set) auto
    ultimately show ?thesis
      using grow dlen
      by (auto simp: arr reallocAppend_def Let_def view_bytes_def view_wf_def)
  qed
qed

text \<open>No allocation while the old buffer has room for both, wherever the view stands in it.\<close>

lemma reallocAppend_buffer_length:
  assumes "view_wf arr" "data_wf data (view_buffer arr)"
  shows "length (view_buffer (reallocAppend arr data withCapacity)) =
    (if view_length arr + data_length data \<le> length (view_buffer arr) then length (view_buffer arr)
     else if withCapacity then
       max (view_length arr + data_length data + view_length arr div 2) (view_length arr * 2)
     else view_length arr + data_length data)"
proof -
  obtain buf off len where arr: "arr = \<lparr>view_buffer = buf, byteOffset = off, view_length = len\<rparr>"
    by (cases arr)
  have wf: "off + len \<le> length buf" and dwf: "data_wf data buf"
    using assms by (simp_all add: arr view_wf_def)
  have vlen: "length (view_bytes arr) = len"
    using wf by (simp add: arr view_bytes_def subarray_def)
  have d': "length (data_bytes (snapshot_if_overlaps data len buf) (copy_within buf 0 off (off + len))) =
      data_length data"
    using data_bytes_after_move [of data buf len off] wf dwf by (simp add: subarray_def)
  show ?thesis
    using wf dwf vlen d'
    by (auto simp: arr reallocAppend_def Let_def arr_simps length_arr_set)
qed

end
