(* ===== verification/HealthStatus.thy ===== *)
theory HealthStatus
  imports Prelude
begin

text \<open>
  \<open>HealthStatus\<close> of \<open>src/private/health_status.ts\<close>: the outcomes of the connection attempts of the last 60
  seconds, one 32-bit cell per second in a ring, with the number of successes in the low and of failures in
  the high half. The specification is a function from seconds to the two counts, and the main lemma says
  that the ring implements a sliding window over it while no count reaches \<open>0x8000\<close>.
\<close>

section \<open>The ring\<close>

definition PERIOD_SEC :: nat where "PERIOD_SEC = 60"

record health =
  h_data :: "32 word list"
  h_i :: nat
  h_iSec :: int

definition new_health :: health where
  "new_health = \<lparr>h_data = replicate PERIOD_SEC 0, h_i = 0, h_iSec = 0\<rparr>"

text \<open>\<open>value & 0xFFFF\<close> and \<open>value >> 16\<close>. The shift works on the value as a signed 32-bit integer.\<close>

definition low16 :: "32 word \<Rightarrow> int" where
  "low16 v = uint (v AND 0xFFFF)"

definition shr16 :: "32 word \<Rightarrow> int" where
  "shr16 v = sint v div 65536"

text \<open>\<open>Math.trunc(now/1000)\<close> for a time in milliseconds since 1970.\<close>

definition to_sec :: "nat \<Rightarrow> int" where
  "to_sec now = int (now div 1000)"

text \<open>The loop that clears the cells of the seconds in which nothing was logged; \<open>n = iEnd - i\<close>.\<close>

fun advance :: "nat \<Rightarrow> nat \<Rightarrow> 32 word list \<Rightarrow> nat \<times> 32 word list" where
  "advance 0 i data = (i, data)"
| "advance (Suc n) i data =
     (let i' = (if i + 1 = PERIOD_SEC then 0 else i + 1) in advance n i' (data[i' := 0]))"

definition bump_cell :: "bool \<Rightarrow> 32 word \<Rightarrow> 32 word" where
  "bump_cell ok value =
     (if (if ok then low16 value else shr16 value) < 0xFFFF then value + (if ok then 1 else 0x10000)
      else if (if ok then shr16 value else low16 value) \<ge> 0x10000 div 2 then
        value - (if ok then 0x10000 else 1)
      else value)"

definition health_log :: "bool \<Rightarrow> nat \<Rightarrow> health \<Rightarrow> health" where
  "health_log ok now h =
     (let sec = to_sec now; diff = sec - h_iSec h
      in if 0 \<le> diff then
           (let (i, data) =
                  (if int PERIOD_SEC \<le> diff then (h_i h, map (\<lambda>_. 0) (h_data h))
                   else advance (nat diff) (h_i h) (h_data h))
            in \<lparr>h_data = data[i := bump_cell ok (data ! i)], h_i = i, h_iSec = sec\<rparr>)
         else h)"

definition health_isEmpty :: "nat \<Rightarrow> health \<Rightarrow> bool" where
  "health_isEmpty now h = (to_sec now - h_iSec h > int PERIOD_SEC)"

text \<open>The counting loop runs \<open>n\<close> times from cell \<open>i\<close> downwards.\<close>

fun count_back :: "nat \<Rightarrow> nat \<Rightarrow> 32 word list \<Rightarrow> int \<times> int \<Rightarrow> int \<times> int" where
  "count_back 0 i data acc = acc"
| "count_back (Suc n) i data (nOk, nFail) =
     (let value = data ! i; i' = (if i = 0 then PERIOD_SEC - 1 else i - 1)
      in count_back n i' data (nOk + low16 value, nFail + shr16 value))"

text \<open>
  \<open>getHealthStatusForPeriod()\<close>: \<open>None\<close> is the early \<open>NaN\<close>; \<open>Some (a, b)\<close> stands for the quotient \<open>a / b\<close> of
  JavaScript numbers (which is \<open>NaN\<close> too for \<open>0 / 0\<close>).
\<close>

definition getHealthStatusForPeriod :: "int \<Rightarrow> nat \<Rightarrow> health \<Rightarrow> (int \<times> int) option" where
  "getHealthStatusForPeriod periodSec now h =
     (let diff = to_sec now - h_iSec h;
          p = (if int PERIOD_SEC < periodSec then int PERIOD_SEC else periodSec) - diff
      in if p \<le> 0 then None
         else (let (nOk, nFail) = count_back (nat p) (h_i h) (h_data h) (0, 0) in Some (nOk, nOk + nFail)))"

section \<open>The specification: counts per second\<close>

type_synonym counts = "int \<Rightarrow> nat \<times> nat"

definition spec_log :: "bool \<Rightarrow> int \<Rightarrow> counts \<Rightarrow> counts" where
  "spec_log ok sec c =
     c(sec := (if ok then (fst (c sec) + 1, snd (c sec)) else (fst (c sec), snd (c sec) + 1)))"

definition small_counts :: "counts \<Rightarrow> bool" where
  "small_counts c \<longleftrightarrow> (\<forall>s. fst (c s) < 0x8000 \<and> snd (c s) < 0x8000)"

definition cell :: "nat \<times> nat \<Rightarrow> 32 word" where
  "cell p = word_of_nat (fst p + 65536 * snd p)"

text \<open>Cell \<open>i - k\<close> of the ring holds the counts of second \<open>iSec - k\<close>; nothing was logged later.\<close>

definition ring_back :: "nat \<Rightarrow> nat \<Rightarrow> nat" where
  "ring_back i k = (i + PERIOD_SEC - k) mod PERIOD_SEC"

definition health_rep :: "health \<Rightarrow> counts \<Rightarrow> bool" where
  "health_rep h c \<longleftrightarrow>
     length (h_data h) = PERIOD_SEC \<and> h_i h < PERIOD_SEC \<and>
     (\<forall>k < PERIOD_SEC. h_data h ! ring_back (h_i h) k = cell (c (h_iSec h - int k))) \<and>
     (\<forall>s > h_iSec h. c s = (0, 0))"

lemma sint_small: "uint (v :: 32 word) < 2 ^ 31 \<Longrightarrow> sint v = uint v"
  using signed_take_bit_int_eq_self [of 31 "uint v"] uint_ge_0 [of v] by (simp add: sint_uint del: uint_ge_0)

lemma cell_halves:
  assumes "a < 0x8000" "b < 0x8000"
  shows "low16 (cell (a, b)) = int a" and "shr16 (cell (a, b)) = int b"
proof -
  have lt: "a + 65536 * b < 2 ^ 31"
    using assms by simp
  then have "take_bit 32 (a + 65536 * b) = a + 65536 * b"
    by (intro take_bit_nat_eq_self) simp
  then have "unat (cell (a, b)) = a + 65536 * b"
    unfolding cell_def fst_conv snd_conv unsigned_of_nat by simp
  then have u: "uint (cell (a, b)) = int a + 65536 * int b"
    by (simp add: uint_nat)
  have "v AND 0xFFFF = take_bit 16 v" for v :: "32 word"
    by (simp add: take_bit_eq_mask mask_eq_exp_minus_1)
  then have "low16 (cell (a, b)) = take_bit 16 (uint (cell (a, b)))"
    by (simp only: low16_def unsigned_take_bit_eq)
  also have "\<dots> = uint (cell (a, b)) mod 65536"
    by (simp add: take_bit_eq_mod)
  also have "\<dots> = int a"
    using assms by (simp add: u)
  finally show "low16 (cell (a, b)) = int a" .
  have "uint (cell (a, b)) < 2 ^ 31"
    using assms by (simp add: u)
  then have "sint (cell (a, b)) = int a + 65536 * int b"
    using u by (simp add: sint_small)
  then show "shr16 (cell (a, b)) = int b"
    using assms by (simp add: shr16_def)
qed

lemma bump_cell_counts:
  assumes "fst p < 0x8000" "snd p < 0x8000"
  shows "bump_cell True (cell p) = cell (fst p + 1, snd p)"
    and "bump_cell False (cell p) = cell (fst p, snd p + 1)"
  using cell_halves [of "fst p" "snd p"] assms
  by (simp_all add: bump_cell_def) (simp_all add: cell_def algebra_simps)

section \<open>The ring implements the counts\<close>

lemma ring_back_lt [simp]: "ring_back i k < PERIOD_SEC"
  by (simp add: ring_back_def PERIOD_SEC_def)

lemma ring_back_0 [simp]: "i < PERIOD_SEC \<Longrightarrow> ring_back i 0 = i"
  by (simp add: ring_back_def PERIOD_SEC_def)

lemma ring_back_step:
  assumes "i < PERIOD_SEC" "k < PERIOD_SEC"
  shows "ring_back (if i + 1 = PERIOD_SEC then 0 else i + 1) k =
         (if k = 0 then (if i + 1 = PERIOD_SEC then 0 else i + 1) else ring_back i (k - 1))"
  using assms by (auto simp: ring_back_def PERIOD_SEC_def mod_if split: if_splits)

lemma ring_back_inj:
  assumes "i < PERIOD_SEC" "k < PERIOD_SEC" "j < PERIOD_SEC" "ring_back i k = ring_back i j"
  shows "k = j"
  using assms by (auto simp: ring_back_def PERIOD_SEC_def mod_if split: if_splits)

lemma ring_back_pred:
  "i < PERIOD_SEC \<Longrightarrow> k + 1 < PERIOD_SEC \<Longrightarrow>
   ring_back (if i = 0 then PERIOD_SEC - 1 else i - 1) k = ring_back i (Suc k)"
  by (auto simp: ring_back_def PERIOD_SEC_def mod_if split: if_splits)

definition window :: "nat \<Rightarrow> int \<Rightarrow> 32 word list \<Rightarrow> counts \<Rightarrow> bool" where
  "window i sec data c \<longleftrightarrow>
     length data = PERIOD_SEC \<and> i < PERIOD_SEC \<and>
     (\<forall>k < PERIOD_SEC. data ! ring_back i k = cell (c (sec - int k))) \<and> (\<forall>s > sec. c s = (0, 0))"

lemma health_rep_window: "health_rep h c \<longleftrightarrow> window (h_i h) (h_iSec h) (h_data h) c"
  by (simp add: health_rep_def window_def)

lemma window_step:
  assumes "window i sec data c"
  defines "i' \<equiv> (if i + 1 = PERIOD_SEC then 0 else i + 1)"
  shows "window i' (sec + 1) (data[i' := 0]) c"
proof -
  have len: "length data = PERIOD_SEC" and i: "i < PERIOD_SEC"
    and cells: "\<And>k. k < PERIOD_SEC \<Longrightarrow> data ! ring_back i k = cell (c (sec - int k))"
    and later: "\<And>s. sec < s \<Longrightarrow> c s = (0, 0)"
    using assms(1) by (auto simp: window_def)
  have i': "i' < PERIOD_SEC"
    using i by (auto simp: i'_def PERIOD_SEC_def)
  have "data[i' := 0] ! ring_back i' k = cell (c (sec + 1 - int k))" if k: "k < PERIOD_SEC" for k
  proof (cases k)
    case 0
    then show ?thesis
      using i' len later [of "sec + 1"] by (simp add: cell_def)
  next
    case (Suc j)
    have "ring_back i' k \<noteq> ring_back i' 0"
      using ring_back_inj [OF i' k, of 0] Suc by (auto simp: PERIOD_SEC_def)
    then have "data[i' := 0] ! ring_back i' k = data ! ring_back i' k"
      using i' by simp
    moreover have "ring_back i' k = ring_back i j"
      unfolding i'_def using ring_back_step [OF i k] Suc by simp
    ultimately have "data[i' := 0] ! ring_back i' k = data ! ring_back i j"
      by simp
    then show ?thesis
      using cells [of j] k Suc by (simp add: algebra_simps)
  qed
  then show ?thesis
    using len i' later by (simp add: window_def)
qed

lemma window_advance:
  "window i sec data c \<Longrightarrow> advance n i data = (i', data') \<Longrightarrow> window i' (sec + int n) data' c"
proof (induction n arbitrary: i sec data)
  case 0
  then show ?case by simp
next
  case (Suc n)
  have "window i' ((sec + 1) + int n) data' c"
    by (rule Suc.IH [OF window_step [OF Suc.prems(1)]])
      (use Suc.prems(2) in \<open>simp add: Let_def\<close>)
  then show ?case
    by (simp add: algebra_simps)
qed

lemma window_bump:
  assumes "window i sec data c" "small_counts c"
  shows "window i sec (data[i := bump_cell ok (data ! i)]) (spec_log ok sec c)"
proof -
  have len: "length data = PERIOD_SEC" and i: "i < PERIOD_SEC"
    and cells: "\<And>k. k < PERIOD_SEC \<Longrightarrow> data ! ring_back i k = cell (c (sec - int k))"
    using assms(1) by (auto simp: window_def)
  have top: "data ! i = cell (c sec)"
    using cells [of 0] i by (simp add: PERIOD_SEC_def)
  have "bump_cell ok (data ! i) = cell (spec_log ok sec c sec)"
    using assms(2) bump_cell_counts [of "c sec"] by (cases ok) (simp_all add: top spec_log_def small_counts_def)
  then have "data[i := bump_cell ok (data ! i)] ! ring_back i k = cell (spec_log ok sec c (sec - int k))"
    if "k < PERIOD_SEC" for k
  proof (cases "k = 0")
    case False
    then have "i \<noteq> ring_back i k"
      using ring_back_inj [OF i that, of 0] i by (auto simp: PERIOD_SEC_def)
    then show ?thesis
      using cells [OF that] False by (simp add: spec_log_def)
  qed (use i len in simp)
  then show ?thesis
    using assms(1) by (auto simp: window_def spec_log_def)
qed

lemma window_cleared:
  assumes "window i sec data c" "sec + int PERIOD_SEC \<le> sec'"
  shows "window i sec' (map (\<lambda>_. 0) data) c"
  using assms by (auto simp: window_def cell_def)

lemma health_log_rep:
  assumes "health_rep h c" "small_counts c" "h_iSec h \<le> to_sec now"
  shows "health_rep (health_log ok now h) (spec_log ok (to_sec now) c)"
proof -
  obtain i data where e:
    "(if int PERIOD_SEC \<le> to_sec now - h_iSec h then (h_i h, map (\<lambda>_. 0) (h_data h))
      else advance (nat (to_sec now - h_iSec h)) (h_i h) (h_data h)) = (i, data)"
    by fastforce
  have "window i (to_sec now) data c"
  proof (cases "int PERIOD_SEC \<le> to_sec now - h_iSec h")
    case True
    then show ?thesis
      using e window_cleared [of "h_i h" "h_iSec h" "h_data h" c "to_sec now"] assms(1)
      by (simp add: health_rep_window)
  next
    case False
    then show ?thesis
      using e window_advance [of "h_i h" "h_iSec h" "h_data h" c "nat (to_sec now - h_iSec h)" i data] assms
      by (simp add: health_rep_window)
  qed
  from window_bump [OF this assms(2)] show ?thesis
    using assms(3) e by (simp add: health_rep_window health_log_def Let_def)
qed

text \<open>A call with a time before the last one changes nothing.\<close>

lemma health_log_late: "to_sec now < h_iSec h \<Longrightarrow> health_log ok now h = h"
  by (simp add: health_log_def Let_def)

lemma new_health_rep: "health_rep new_health (\<lambda>_. (0, 0))"
  by (simp add: health_rep_def new_health_def cell_def PERIOD_SEC_def)
    (simp add: ring_back_def PERIOD_SEC_def)

definition total :: "('a \<Rightarrow> nat) \<Rightarrow> 'a list \<Rightarrow> int" where
  "total f xs = int (sum_list (map f xs))"

lemma count_back_sum:
  assumes "window i sec data c" "small_counts c" "k + n \<le> PERIOD_SEC"
  shows "count_back n (ring_back i k) data (a, b) =
         (a + total (\<lambda>j. fst (c (sec - int j))) [k..<k + n],
          b + total (\<lambda>j. snd (c (sec - int j))) [k..<k + n])"
  using assms(3)
proof (induction n arbitrary: k a b)
  case 0
  then show ?case by (simp add: total_def)
next
  case (Suc n)
  have i: "i < PERIOD_SEC" and k: "k < PERIOD_SEC"
    and cells: "data ! ring_back i k = cell (c (sec - int k))"
    using assms(1) Suc.prems by (auto simp: window_def)
  have halves: "low16 (data ! ring_back i k) = int (fst (c (sec - int k)))"
    "shr16 (data ! ring_back i k) = int (snd (c (sec - int k)))"
    using assms(2) cell_halves [of "fst (c (sec - int k))" "snd (c (sec - int k))"]
    by (simp_all add: cells small_counts_def)
  have range: "[k..<k + Suc n] = k # [Suc k..<Suc k + n]"
    by (simp add: upt_rec)
  have prev: "n = 0 \<or>
     (if ring_back i k = 0 then PERIOD_SEC - 1 else ring_back i k - 1) = ring_back i (Suc k)"
    using i Suc.prems by (auto simp: ring_back_def PERIOD_SEC_def mod_if)
  show ?case
  proof (cases "n = 0")
    case True
    then show ?thesis by (simp add: Let_def halves total_def)
  next
    case False
    with prev have p: "(if ring_back i k = 0 then PERIOD_SEC - 1 else ring_back i k - 1) = ring_back i (Suc k)"
      by simp
    have "Suc k + n \<le> PERIOD_SEC"
      using Suc.prems by simp
    from Suc.IH [OF this] show ?thesis
      unfolding count_back.simps Let_def p halves range by (simp add: total_def)
  qed
qed

text \<open>The answer counts exactly the attempts of the seconds after \<open>now - periodSec\<close>.\<close>

lemma health_status_counts:
  assumes "health_rep h c" "small_counts c" "h_iSec h \<le> to_sec now" "0 < p"
  defines "m \<equiv> nat (min (int PERIOD_SEC) p)"
  defines "ok \<equiv> total (\<lambda>j. fst (c (to_sec now - int j))) [0..<m]"
  defines "bad \<equiv> total (\<lambda>j. snd (c (to_sec now - int j))) [0..<m]"
  shows "getHealthStatusForPeriod p now h =
         (if h_iSec h \<le> to_sec now - int m then None else Some (ok, ok + bad))"
proof -
  define d where "d = nat (to_sec now - h_iSec h)"
  have d: "int d = to_sec now - h_iSec h"
    using assms(3) by (simp add: d_def)
  have w: "window (h_i h) (h_iSec h) (h_data h) c"
    using assms(1) by (simp add: health_rep_window)
  then have later: "\<And>s. h_iSec h < s \<Longrightarrow> c s = (0, 0)" and i: "h_i h < PERIOD_SEC"
    by (auto simp: window_def)
  have m: "int m = min (int PERIOD_SEC) p"
    using assms(4) by (simp add: m_def)
  show ?thesis
  proof (cases "m \<le> d")
    case True
    then show ?thesis
      using d m by (auto simp: getHealthStatusForPeriod_def Let_def min_def split: if_splits)
  next
    case False
    have shift: "total (\<lambda>j. f (c (to_sec now - int j))) [0..<m] =
                 total (\<lambda>j. f (c (h_iSec h - int j))) [0..<m - d]" if "f (0, 0) = 0" for f
    proof -
      have "[0..<m] = [0..<d] @ [d..<m]"
        using False upt_add_eq_append [of 0 d "m - d"] by simp
      moreover have "total (\<lambda>j. f (c (to_sec now - int j))) [0..<d] = 0"
        using d by (auto simp: total_def later that)
      moreover have "[d..<m] = map (\<lambda>j. j + d) [0..<m - d]"
        using False by (simp add: map_add_upt)
      moreover have "to_sec now - (int j + int d) = h_iSec h - int j" for j
        using d by simp
      moreover have "total g (xs @ ys) = total g xs + total g ys"
        and "total g (map (\<lambda>j. j + d) zs) = total (\<lambda>j. g (j + d)) zs" for g :: "nat \<Rightarrow> nat" and xs ys zs
        by (simp_all add: total_def o_def)
      ultimately show ?thesis
        by (simp only: add_0 of_nat_add)
    qed
    have "m - d \<le> PERIOD_SEC" "nat ((if int PERIOD_SEC < p then int PERIOD_SEC else p) - (to_sec now - h_iSec h)) = m - d"
      using m d False by (auto simp: min_def split: if_splits)
    moreover have "\<not> (if int PERIOD_SEC < p then int PERIOD_SEC else p) - (to_sec now - h_iSec h) \<le> 0"
      using m d False by (auto simp: min_def split: if_splits)
    moreover have "\<not> h_iSec h \<le> to_sec now - int m"
      using d False by simp
    ultimately show ?thesis
      using count_back_sum [OF w assms(2), of 0 "m - d" 0 0] i
      by (simp add: getHealthStatusForPeriod_def Let_def ok_def bad_def shift)
  qed
qed

section \<open>Logs of many attempts\<close>

text \<open>A log is a list of outcomes with their times, in the order of the calls.\<close>

definition log_all :: "(bool \<times> nat) list \<Rightarrow> health \<Rightarrow> health" where
  "log_all es h = foldl (\<lambda>h (ok, t). health_log ok t h) h es"

definition count_all :: "(bool \<times> nat) list \<Rightarrow> counts" where
  "count_all es = foldl (\<lambda>c (ok, t). spec_log ok (to_sec t) c) (\<lambda>_. (0, 0)) es"

definition in_period :: "nat \<Rightarrow> int \<Rightarrow> bool \<Rightarrow> bool \<times> nat \<Rightarrow> bool" where
  "in_period m sec b e \<longleftrightarrow> fst e = b \<and> sec - int m < to_sec (snd e) \<and> to_sec (snd e) \<le> sec"

lemma count_all_small: "fst (count_all es s) + snd (count_all es s) \<le> length es"
proof (induction es rule: rev_induct)
  case (snoc e es)
  then show ?case
    by (cases e) (auto simp: count_all_def spec_log_def)
qed (simp add: count_all_def)

lemma to_sec_mono: "t \<le> u \<Longrightarrow> to_sec t \<le> to_sec u"
  by (simp add: to_sec_def div_le_mono)

lemma log_all_rep:
  assumes "sorted (map snd es)" "length es < 0x8000"
  shows "health_rep (log_all es new_health) (count_all es) \<and>
    (\<forall>now. (\<forall>e \<in> set es. snd e \<le> now) \<longrightarrow> h_iSec (log_all es new_health) \<le> to_sec now)"
  using assms
proof (induction es rule: rev_induct)
  case Nil
  show ?case
    using new_health_rep by (simp add: log_all_def count_all_def new_health_def to_sec_def)
next
  case (snoc e es)
  obtain ok t where e: "e = (ok, t)" by (cases e)
  have IH: "health_rep (log_all es new_health) (count_all es)"
    "\<And>now. (\<forall>e \<in> set es. snd e \<le> now) \<Longrightarrow> h_iSec (log_all es new_health) \<le> to_sec now"
    using snoc by (auto simp: sorted_append)
  have "small_counts (count_all es)"
    unfolding small_counts_def
  proof
    fix s
    show "fst (count_all es s) < 0x8000 \<and> snd (count_all es s) < 0x8000"
      using count_all_small [of es s] snoc.prems(2) by simp
  qed
  moreover have "h_iSec (log_all es new_health) \<le> to_sec t"
    using snoc.prems(1) e by (intro IH(2)) (auto simp: sorted_append)
  ultimately have "health_rep (health_log ok t (log_all es new_health)) (spec_log ok (to_sec t) (count_all es))"
    using IH(1) by (intro health_log_rep)
  moreover have "h_iSec (health_log ok t (log_all es new_health)) \<le> max (h_iSec (log_all es new_health)) (to_sec t)"
    by (auto simp: health_log_def Let_def split: prod.splits)
  ultimately show ?case
    using IH(2) to_sec_mono by (fastforce simp: e log_all_def count_all_def)
qed

lemma total_update:
  "total (\<lambda>j. f (sec - int j) + (if sec - int j = s then 1 else 0)) [0..<m] =
   total (\<lambda>j. f (sec - int j)) [0..<m] + (if sec - int m < s \<and> s \<le> sec then 1 else 0)"
  by (induction m) (auto simp: total_def)

lemma count_all_total:
  "total (\<lambda>j. fst (count_all es (sec - int j))) [0..<m] = int (length (filter (in_period m sec True) es)) \<and>
   total (\<lambda>j. snd (count_all es (sec - int j))) [0..<m] = int (length (filter (in_period m sec False) es))"
proof (induction es rule: rev_induct)
  case Nil
  show ?case by (simp add: count_all_def total_def)
next
  case (snoc e es)
  obtain ok t where e: "e = (ok, t)" by (cases e)
  have c: "count_all (es @ [(ok, t)]) s =
      (fst (count_all es s) + (if ok then (if s = to_sec t then 1 else 0) else 0),
       snd (count_all es s) + (if ok then 0 else (if s = to_sec t then 1 else 0)))" for s ok t
    by (cases "count_all es s") (auto simp: count_all_def spec_log_def)
  note u = total_update [of "\<lambda>s. fst (count_all es s)" sec "to_sec t" m]
    total_update [of "\<lambda>s. snd (count_all es s)" sec "to_sec t" m]
  show ?case
    using snoc u unfolding e by (cases ok) (auto simp: c in_period_def)
qed

text \<open>\<open>n\<close> failures in one second put \<open>n\<close> into the high half of the cell, up to \<open>0x8000\<close> of them.\<close>

lemma many_failures:
  assumes "n \<le> 0x8000" "1000 * 60 \<le> now"
  shows "log_all (replicate n (False, now)) (health_log True now new_health) =
    \<lparr>h_data = (replicate PERIOD_SEC 0)[0 := word_of_nat (65536 * n + 1)], h_i = 0, h_iSec = to_sec now\<rparr>"
  using assms(1)
proof (induction n)
  case 0
  have "60 \<le> now div 1000"
    using assms(2) by simp
  then show ?case
    by (simp add: log_all_def health_log_def Let_def new_health_def to_sec_def PERIOD_SEC_def bump_cell_def low16_def)
next
  case (Suc n)
  have "bump_cell False (word_of_nat (65536 * n + 1)) = word_of_nat (65536 * n + 1) + 0x10000"
  proof -
    have u: "uint (word_of_nat k :: 32 word) = int k" if "k < 2 ^ 32" for k
      using that by (simp add: unsigned_of_nat take_bit_nat_eq_self)
    have "uint (word_of_nat (65536 * n + 1) :: 32 word) = 65536 * int n + 1"
      using Suc.prems by (subst u) simp_all
    then have "sint (word_of_nat (65536 * n + 1) :: 32 word) = 65536 * int n + 1"
      using Suc.prems by (intro trans [OF sint_small]) simp_all
    then show ?thesis
      using Suc.prems by (simp add: bump_cell_def shr16_def)
  qed
  also have "\<dots> = word_of_nat (65536 * Suc n + 1)"
    by simp
  finally have b: "bump_cell False (word_of_nat (65536 * n + 1)) = word_of_nat (65536 * Suc n + 1)" .
  have "replicate (Suc n) (False, now) = replicate n (False, now) @ [(False, now)]"
    by (simp flip: replicate_append_same)
  moreover have "0 < PERIOD_SEC"
    by (simp add: PERIOD_SEC_def)
  ultimately show ?case
    using Suc b by (simp add: log_all_def health_log_def Let_def del: replicate.simps of_nat_add of_nat_mult of_nat_Suc)
qed

end
