(* ===== verification/Interval.thy ===== *)
theory Interval
  imports Prelude
begin

text \<open>
  \<open>Interval\<close> of \<open>src/private/interval.ts\<close>: a callback that is called again and again, some time after it
  last ended. Its methods, the firing of its timer and the end of a pending callback are the steps of a
  transition system; they may come in any order the runtime allows. The invariant of the reachable
  states says which timers are armed, and that a pending disposal is waiting for a callback that is
  running, so that it cannot hang.
\<close>

section \<open>State\<close>

datatype interval_state = Terminated | Inactive | Active | Executing | ExecutingAndWantReexecute

text \<open>The code compares states with \<open>>=\<close>: they are numbers in the order of the enum.\<close>

fun state_number :: "interval_state \<Rightarrow> nat" where
  "state_number Terminated = 0"
| "state_number Inactive = 1"
| "state_number Active = 2"
| "state_number Executing = 3"
| "state_number ExecutingAndWantReexecute = 4"

lemma state_number_inject [simp]: "state_number a = state_number b \<longleftrightarrow> a = b"
  by (cases a; cases b) simp_all

instantiation interval_state :: linorder
begin

definition less_eq_interval_state :: "interval_state \<Rightarrow> interval_state \<Rightarrow> bool" where
  "less_eq_interval_state a b \<longleftrightarrow> state_number a \<le> state_number b"

definition less_interval_state :: "interval_state \<Rightarrow> interval_state \<Rightarrow> bool" where
  "less_interval_state a b \<longleftrightarrow> state_number a < state_number b"

instance
  by standard (auto simp: less_eq_interval_state_def less_interval_state_def)

end

text \<open>
  \<open>i_armed\<close> are the timers of the runtime that have not fired and were not cleared, with their delays;
  \<open>i_running\<close> is the number of invocations of the timer function that wait in \<open>await this.callback()\<close>;
  \<open>i_onEnd\<close> says that \<open>#onEnd\<close> was set, \<open>i_ended\<close> that the promise it belongs to is resolved.
\<close>

record interval =
  i_state :: interval_state
  i_hTimer :: "nat option"
  i_onEnd :: bool
  i_ended :: bool
  i_armed :: "(nat \<times> nat) list"
  i_nextHandle :: nat
  i_running :: nat

definition new_interval :: interval where
  "new_interval = \<lparr>i_state = Inactive, i_hTimer = None, i_onEnd = False, i_ended = False,
     i_armed = [], i_nextHandle = 1, i_running = 0\<rparr>"

section \<open>Operations\<close>

definition isActive :: "interval \<Rightarrow> bool" where
  "isActive t = (i_state t \<ge> Active)"

definition clear_timer :: "interval \<Rightarrow> interval" where
  "clear_timer t = t\<lparr>i_armed := filter (\<lambda>a. Some (fst a) \<noteq> i_hTimer t) (i_armed t)\<rparr>"

text \<open>The first branch of \<open>start()\<close>; \<open>delay\<close> is the current value of \<open>delayMsec\<close>.\<close>

definition arm_timer :: "bool \<Rightarrow> nat \<Rightarrow> interval \<Rightarrow> interval" where
  "arm_timer firstIterIsImmediate delay t =
     t\<lparr>i_state := Active, i_hTimer := Some (i_nextHandle t),
       i_armed := (i_nextHandle t, if firstIterIsImmediate then 0 else delay) # i_armed t,
       i_nextHandle := i_nextHandle t + 1\<rparr>"

definition interval_start :: "bool \<Rightarrow> nat \<Rightarrow> interval \<Rightarrow> interval" where
  "interval_start firstIterIsImmediate delay t =
     (if i_state t = Inactive then arm_timer firstIterIsImmediate delay t
      else if firstIterIsImmediate then
        (if i_state t = Executing then t\<lparr>i_state := ExecutingAndWantReexecute\<rparr>
         else if i_state t = Active then arm_timer True delay (clear_timer (t\<lparr>i_state := Inactive\<rparr>))
         else t)
      else t)"

definition interval_stop :: "interval \<Rightarrow> interval" where
  "interval_stop t = (if i_state t \<noteq> Terminated then clear_timer (t\<lparr>i_state := Inactive\<rparr>) else t)"

text \<open>\<open>[Symbol.asyncDispose]()\<close>; the flag says that a promise was returned, which ends with \<open>#onEnd\<close>.\<close>

definition interval_dispose :: "interval \<Rightarrow> bool \<times> interval" where
  "interval_dispose t =
     (let state = i_state t; t = clear_timer (t\<lparr>i_state := Terminated\<rparr>)
      in if state = Executing \<or> state = ExecutingAndWantReexecute then (True, t\<lparr>i_onEnd := True\<rparr>)
         else (False, t))"

text \<open>What the timer function does after its loop.\<close>

definition after_loop :: "nat \<Rightarrow> interval \<Rightarrow> interval" where
  "after_loop delay t =
     (if i_state t = Terminated then t\<lparr>i_ended := (i_ended t \<or> i_onEnd t)\<rparr>
      else if i_state t = Executing then interval_start False delay (t\<lparr>i_state := Inactive\<rparr>)
      else t)"

text \<open>The timer function up to its first \<open>await\<close>, and from the end of a callback up to the next.\<close>

definition timer_fire :: "nat \<Rightarrow> nat \<Rightarrow> interval \<Rightarrow> interval" where
  "timer_fire h delay t =
     (let t = t\<lparr>i_armed := filter (\<lambda>a. fst a \<noteq> h) (i_armed t)\<rparr>
      in if i_state t = Active then t\<lparr>i_state := Executing, i_running := i_running t + 1\<rparr>
         else after_loop delay t)"

definition callback_end :: "nat \<Rightarrow> interval \<Rightarrow> interval" where
  "callback_end delay t =
     (if i_state t = ExecutingAndWantReexecute then t\<lparr>i_state := Executing\<rparr>
      else after_loop delay (t\<lparr>i_running := i_running t - 1\<rparr>))"

section \<open>Steps\<close>

datatype interval_event = Start bool | Stop | Dispose | Fire nat | CallbackEnd

inductive istep :: "interval \<Rightarrow> interval_event \<Rightarrow> interval \<Rightarrow> bool" where
  start: "istep t (Start imm) (interval_start imm delay t)"
| stop: "istep t Stop (interval_stop t)"
| dispose: "istep t Dispose (snd (interval_dispose t))"
| fire: "(h, d) \<in> set (i_armed t) \<Longrightarrow> istep t (Fire h) (timer_fire h delay t)"
| callback_end: "0 < i_running t \<Longrightarrow> istep t CallbackEnd (callback_end delay t)"

inductive_cases istepE: "istep t e t'"
inductive_simps istep_fire: "istep t (Fire h) t'"
inductive_simps istep_stop: "istep t Stop t'"

text \<open>Runs with the events they consist of.\<close>

inductive irun :: "interval \<Rightarrow> interval_event list \<Rightarrow> interval \<Rightarrow> bool" where
  irun_nil: "irun t [] t"
| step: "irun t es t' \<Longrightarrow> istep t' e t'' \<Longrightarrow> irun t (es @ [e]) t''"

lemmas interval_defs = interval_start_def arm_timer_def clear_timer_def interval_stop_def
  interval_dispose_def after_loop_def timer_fire_def callback_end_def

definition interval_inv :: "interval \<Rightarrow> bool" where
  "interval_inv t \<longleftrightarrow>
     (case i_hTimer t of None \<Rightarrow> i_state t \<noteq> Active \<and> i_armed t = []
      | Some h \<Rightarrow> (if i_state t = Active then \<exists>d. i_armed t = [(h, d)] else i_armed t = [])) \<and>
     (Executing \<le> i_state t \<longrightarrow> 0 < i_running t) \<and>
     (i_onEnd t \<longrightarrow> i_state t = Terminated \<and> (i_ended t \<or> 0 < i_running t))"

lemma executing_le: "Executing \<le> s \<longleftrightarrow> s = Executing \<or> s = ExecutingAndWantReexecute"
  by (cases s) (simp_all add: less_eq_interval_state_def)

lemma new_interval_inv: "interval_inv new_interval"
  by (simp add: interval_inv_def new_interval_def executing_le)

lemma istep_inv:
  assumes "istep t e t'" "interval_inv t"
  shows "interval_inv t'"
  using assms
  by (cases rule: istep.cases)
    (auto simp: interval_inv_def interval_defs executing_le Let_def split: option.splits if_splits)

lemma irun_inv: "irun t es t' \<Longrightarrow> interval_inv t \<Longrightarrow> interval_inv t'"
  by (induction rule: irun.induct) (auto intro: istep_inv)

text \<open>Nothing gets out of \<open>Terminated\<close>: no timer is armed and no callback starts.\<close>

lemma istep_terminated:
  assumes "istep t e t'" "interval_inv t" "i_state t = Terminated"
  shows "i_state t' = Terminated \<and> i_armed t' = [] \<and> i_running t' \<le> i_running t"
  using assms
  by (cases rule: istep.cases)
    (auto simp: interval_inv_def interval_defs Let_def split: option.splits if_splits)

lemma irun_terminated:
  "irun t es t' \<Longrightarrow> interval_inv t \<Longrightarrow> i_state t = Terminated \<Longrightarrow>
   i_state t' = Terminated \<and> i_armed t' = [] \<and> i_running t' \<le> i_running t"
proof (induction rule: irun.induct)
  case (irun_nil t)
  then show ?case by (auto simp: interval_inv_def split: option.splits)
next
  case (step t es t' e t'')
  then show ?case
    using istep_terminated [of t' e t''] irun_inv by (meson order_trans)
qed

text \<open>Without \<open>stop()\<close> two callbacks never run at the same time.\<close>

definition serial :: "interval \<Rightarrow> bool" where
  "serial t \<longleftrightarrow>
     i_running t \<le> (if Executing \<le> i_state t \<or> i_state t = Terminated then 1 else 0)"

lemma istep_serial:
  assumes "istep t e t'" "e \<noteq> Stop" "interval_inv t" "serial t"
  shows "serial t'"
  using assms
  by (cases rule: istep.cases)
    (auto simp: serial_def interval_inv_def interval_defs executing_le Let_def
      split: option.splits if_splits)

lemma irun_serial:
  "irun t es t' \<Longrightarrow> Stop \<notin> set es \<Longrightarrow> interval_inv t \<Longrightarrow> serial t \<Longrightarrow> serial t'"
  by (induction rule: irun.induct) (auto dest: irun_inv intro: istep_serial)

end
