(* ===== verification/Dsn.thy ===== *)
theory Dsn
  imports Doubles Errors
begin

text \<open>
  Data source names, \<open>src/private/dsn.ts\<close>: a URL with parameters is parsed into the fields of a \<open>Dsn\<close>; the setters
  keep them normal, and after each change the name is printed again. The pool finds connections by the hash of this name.
\<close>

section \<open>Numbers and strings of the language\<close>

text \<open>\<open>Infinite True\<close> is the negative one. The sign of zero is left out.\<close>

datatype number = NaN | Infinite bool | Finite rat

definition math_max :: "rat \<Rightarrow> number \<Rightarrow> number" where
  "math_max a x =
     (case x of NaN \<Rightarrow> NaN | Infinite negative \<Rightarrow> if negative then Finite a else Infinite False | Finite q \<Rightarrow> Finite (max a q))"

definition math_round :: "number \<Rightarrow> number" where
  "math_round x = (case x of Finite q \<Rightarrow> Finite (of_int \<lfloor>q + 1 / 2\<rfloor>) | _ \<Rightarrow> x)"

definition at_least_0 :: "number \<Rightarrow> bool" where
  "at_least_0 x = (case x of NaN \<Rightarrow> False | Infinite negative \<Rightarrow> \<not> negative | Finite q \<Rightarrow> 0 \<le> q)"

text \<open>White space of \<open>trim()\<close> and of \<open>\s\<close> in regular expressions.\<close>

definition is_space :: "16 word \<Rightarrow> bool" where
  "is_space c =
     (let n = unat c
      in 9 \<le> n \<and> n \<le> 13 \<or> n = 32 \<or> n = 0xA0 \<or> n = 0x1680 \<or> 0x2000 \<le> n \<and> n \<le> 0x200A \<or>
         n \<in> {0x2028, 0x2029, 0x202F, 0x205F, 0x3000, 0xFEFF})"

definition js_trim :: "jsstr \<Rightarrow> jsstr" where
  "js_trim s = rev (dropWhile is_space (rev (dropWhile is_space s)))"

definition without_space :: "jsstr \<Rightarrow> jsstr" where "without_space s = filter (\<lambda>c. \<not> is_space c) s"

definition js_prefix :: "jsstr \<Rightarrow> jsstr \<Rightarrow> bool" where "js_prefix p s \<longleftrightarrow> take (length p) s = p"

text \<open>\<open>indexOf(c, from)\<close> and \<open>lastIndexOf(c, to)\<close>.\<close>

fun index_from :: "16 word \<Rightarrow> jsstr \<Rightarrow> nat \<Rightarrow> nat option" where
  "index_from c [] from = None"
| "index_from c (d # s) from =
     (if from = 0 \<and> d = c then Some 0 else map_option Suc (index_from c s (from - 1)))"

fun last_index :: "16 word \<Rightarrow> jsstr \<Rightarrow> nat \<Rightarrow> nat option" where
  "last_index c s 0 = (if s \<noteq> [] \<and> hd s = c then Some 0 else None)"
| "last_index c s (Suc n) = (if Suc n < length s \<and> s ! Suc n = c then Some (Suc n) else last_index c s n)"

definition C_CR :: "16 word" where "C_CR = 13"
definition C_LF :: "16 word" where "C_LF = 10"
definition C_COLON :: "16 word" where "C_COLON = 58"
definition C_AT :: "16 word" where "C_AT = 64"
definition C_SLASH :: "16 word" where "C_SLASH = 47"
definition C_QUESTION :: "16 word" where "C_QUESTION = 63"
definition C_HASH :: "16 word" where "C_HASH = 35"
definition C_AMP :: "16 word" where "C_AMP = 38"
definition C_EQUALS :: "16 word" where "C_EQUALS = 61"
definition C_OPEN :: "16 word" where "C_OPEN = 91"
definition C_CLOSE :: "16 word" where "C_CLOSE = 93"
definition C_PLUS :: "16 word" where "C_PLUS = 43"
definition C_BLANK :: "16 word" where "C_BLANK = 32"

lemmas char_defs = C_CR_def C_LF_def C_COLON_def C_AT_def C_SLASH_def C_QUESTION_def C_HASH_def C_AMP_def C_EQUALS_def
  C_OPEN_def C_CLOSE_def C_PLUS_def C_BLANK_def

text \<open>
  The classes and functions of the runtime: \<open>new URL(...)\<close>, \<open>encodeURIComponent\<close> and \<open>decodeURIComponent\<close> (which throw),
  \<open>Number()\<close> of a string and \<open>String()\<close> of a number, \<open>crc32\<close>, and which parts of a URL the runtime keeps percent-encoded.
\<close>

record url =
  u_hostname :: jsstr
  u_port :: jsstr
  u_username :: jsstr
  u_password :: jsstr
  u_pathname :: jsstr
  u_param :: "jsstr \<Rightarrow> jsstr option"
  u_hash :: jsstr

record url_env =
  v_url :: "jsstr \<Rightarrow> exn + url"
  v_encode :: "jsstr \<Rightarrow> exn + jsstr"
  v_decode :: "jsstr \<Rightarrow> exn + jsstr"
  v_number :: "jsstr \<Rightarrow> number"
  v_string :: "number \<Rightarrow> jsstr"
  v_crc32 :: "jsstr \<Rightarrow> nat"
  v_decodeUsername :: bool
  v_decodePassword :: bool
  v_decodePathname :: bool

section \<open>Parameters\<close>

datatype dsn_compress = Uncompressed | AnyCompression | ZlibOnly | ZstdOnly | ZstdLevel nat

text \<open>\<open>parseCompress()\<close> of a string.\<close>

definition bad_compress :: "jsstr \<Rightarrow> exn" where
  "bad_compress s = JsError (js ''Invalid \"compress\" value: '' @ s @
     js ''. Can be \"zlib\", \"zstd\" or \"zstd:N\", where N is the zstd compression level (1 - 22)'')"

definition parseCompress :: "url_env \<Rightarrow> jsstr \<Rightarrow> exn + dsn_compress" where
  "parseCompress v s =
     (if s = [] then Inr AnyCompression
      else if s = js ''zlib'' then Inr ZlibOnly
      else if s = js ''zstd'' then Inr ZstdOnly
      else if js_prefix (js ''zstd:'') s then
        (case v_number v (drop 5 s) of
           Finite q \<Rightarrow> if of_int \<lfloor>q\<rfloor> = q \<and> 1 \<le> q \<and> q \<le> 22 then Inr (ZstdLevel (nat \<lfloor>q\<rfloor>)) else Inl (bad_compress s)
         | _ \<Rightarrow> Inl (bad_compress s))
      else Inl (bad_compress s))"

text \<open>\<open>publicKeyExtractBase64()\<close>: the loop from the end, and the armor.\<close>

fun key_end :: "jsstr \<Rightarrow> nat \<Rightarrow> nat" where
  "key_end s 0 = 0"
| "key_end s (Suc n) = (if s ! n = 0 \<or> s ! n = C_CR \<or> s ! n = C_LF then key_end s n else Suc n)"

definition publicKeyExtractBase64 :: "jsstr \<Rightarrow> jsstr" where
  "publicKeyExtractBase64 publicKey =
     (let end' = key_end publicKey (length publicKey)
      in if js_prefix (js ''-----BEGIN'') publicKey then
           (case index_from C_LF publicKey 10 of
              None \<Rightarrow> subarray publicKey 0 end'
            | Some from \<Rightarrow>
                (case last_index C_LF publicKey (end' - 1) of
                   None \<Rightarrow> subarray publicKey 0 end'
                 | Some to \<Rightarrow> subarray publicKey (from + 1) (if 0 < to \<and> publicKey ! (to - 1) = C_CR then to - 1 else to)))
         else subarray publicKey 0 end')"
section \<open>The object\<close>

text \<open>A number that is not set is \<open>NaN\<close>; the empty string stands for what is absent.\<close>

record dsn =
  d_hostname :: jsstr
  d_port :: number
  d_username :: jsstr
  d_password :: jsstr
  d_schema :: jsstr
  d_pipe :: jsstr
  d_connectionTimeout :: number
  d_reconnectInterval :: number
  d_keepAliveTimeout :: number
  d_keepAliveMax :: number
  d_maxConns :: number
  d_maxColumnLen :: number
  d_foundRows :: bool
  d_ignoreSpace :: bool
  d_multiStatements :: bool
  d_retryLockWaitTimeout :: bool
  d_retryQueryTimes :: number
  d_jsonAsString :: bool
  d_datesAsString :: bool
  d_correctDates :: bool
  d_storeResultsetIfBigger :: number
  d_allowPublicKeyRetrieval :: bool
  d_serverPublicKey :: jsstr
  d_allowCleartextPasswords :: bool
  d_compress :: dsn_compress
  d_tls :: bool
  d_tlsCaCert :: jsstr
  d_tlsHostname :: jsstr
  d_initSql :: jsstr
  d_name :: jsstr
  d_hash :: nat
  d_hashNoSchema :: nat

type_synonym 'a dm = "(dsn, exn, 'a) methodm"

section \<open>The normalized name\<close>

definition number_param :: "url_env \<Rightarrow> string \<Rightarrow> number \<Rightarrow> jsstr" where
  "number_param v name x = (if x = NaN then [] else js ([CHR 0x26] @ name @ ''='') @ v_string v x)"

definition flag_param :: "string \<Rightarrow> bool \<Rightarrow> jsstr" where
  "flag_param name b = (if b then js ([CHR 0x26] @ name) else [])"

text \<open>\<open>encodeURIComponent\<close> throws for a string with half of a surrogate pair.\<close>

definition text_param :: "url_env \<Rightarrow> string \<Rightarrow> jsstr \<Rightarrow> exn + jsstr" where
  "text_param v name s =
     (if s = [] then Inr []
      else case v_encode v s of Inl e \<Rightarrow> Inl e | Inr t \<Rightarrow> Inr (js ([CHR 0x26] @ name @ ''='') @ t))"

definition compress_param :: "url_env \<Rightarrow> dsn_compress \<Rightarrow> jsstr" where
  "compress_param v c =
     (case c of
        Uncompressed \<Rightarrow> [] | AnyCompression \<Rightarrow> js ([CHR 0x26] @ ''compress'')
      | ZlibOnly \<Rightarrow> js ([CHR 0x26] @ ''compress=zlib'') | ZstdOnly \<Rightarrow> js ([CHR 0x26] @ ''compress=zstd'')
      | ZstdLevel n \<Rightarrow> js ([CHR 0x26] @ ''compress=zstd:'') @ v_string v (Finite (of_nat n)))"

definition params_text :: "url_env \<Rightarrow> dsn \<Rightarrow> jsstr \<Rightarrow> jsstr \<Rightarrow> jsstr \<Rightarrow> jsstr" where
  "params_text v d key cert host =
     number_param v ''connectionTimeout'' (d_connectionTimeout d) @
     number_param v ''reconnectInterval'' (d_reconnectInterval d) @
     number_param v ''keepAliveTimeout'' (d_keepAliveTimeout d) @
     number_param v ''keepAliveMax'' (d_keepAliveMax d) @
     number_param v ''maxConns'' (d_maxConns d) @
     number_param v ''maxColumnLen'' (d_maxColumnLen d) @
     flag_param ''foundRows'' (d_foundRows d) @
     flag_param ''ignoreSpace'' (d_ignoreSpace d) @
     flag_param ''multiStatements'' (d_multiStatements d) @
     flag_param ''retryLockWaitTimeout'' (d_retryLockWaitTimeout d) @
     number_param v ''retryQueryTimes'' (d_retryQueryTimes d) @
     flag_param ''jsonAsString'' (d_jsonAsString d) @
     flag_param ''datesAsString'' (d_datesAsString d) @
     flag_param ''correctDates'' (d_correctDates d) @
     number_param v ''storeResultsetIfBigger'' (d_storeResultsetIfBigger d) @
     flag_param ''allowPublicKeyRetrieval'' (d_allowPublicKeyRetrieval d) @
     key @
     flag_param ''allowCleartextPasswords'' (d_allowCleartextPasswords d) @
     compress_param v (d_compress d) @
     flag_param ''tls'' (d_tls d) @
     cert @ host"

definition dsn_params :: "url_env \<Rightarrow> dsn \<Rightarrow> exn + jsstr" where
  "dsn_params v d =
     (case (text_param v ''serverPublicKey'' (d_serverPublicKey d), text_param v ''tlsCaCert'' (d_tlsCaCert d),
            text_param v ''tlsHostname'' (d_tlsHostname d)) of
        (Inr key, Inr cert, Inr host) \<Rightarrow>
          Inr (params_text v d key cert host)
      | (Inl e, _) \<Rightarrow> Inl e
      | (_, Inl e, _) \<Rightarrow> Inl e
      | (_, _, Inl e) \<Rightarrow> Inl e)"

definition dsn_name0 :: "url_env \<Rightarrow> dsn \<Rightarrow> jsstr" where
  "dsn_name0 v d =
     js ''mysql://'' @
     (if d_username d = [] then []
      else if d_password d = [] then d_username d @ [C_AT]
      else d_username d @ js '':hidden@'') @
     (if C_COLON \<notin> set (d_hostname d) then d_hostname d else [C_OPEN] @ d_hostname d @ [C_CLOSE]) @
     (if d_port d = Finite 3306 then [] else [C_COLON] @ v_string v (d_port d)) @
     d_pipe d @ [C_SLASH]"

definition dsn_name1 :: "url_env \<Rightarrow> dsn \<Rightarrow> exn + jsstr" where
  "dsn_name1 v d =
     (case dsn_params v d of
        Inl e \<Rightarrow> Inl e
      | Inr params \<Rightarrow>
          (let query = (if params = [] then [] else C_QUESTION # tl params)
           in if d_initSql d = [] then Inr query
              else case v_encode v (d_initSql d) of Inl e \<Rightarrow> Inl e | Inr sql \<Rightarrow> Inr (query @ [C_HASH] @ sql)))"

definition updateNameAndHash :: "url_env \<Rightarrow> unit dm" where
  "updateNameAndHash v d =
     (case dsn_name1 v d of
        Inl e \<Rightarrow> (Inl e, d)
      | Inr name1 \<Rightarrow>
          (let name0 = dsn_name0 v d; name = name0 @ d_schema d @ name1
           in (Inr (), d\<lparr>d_name := name, d_hash := v_crc32 v name, d_hashNoSchema := v_crc32 v (name0 @ name1)\<rparr>)))"

section \<open>Setters\<close>

text \<open>A field is set, and the name is printed again; when that throws the field keeps its new value with the old name.\<close>

definition assign :: "url_env \<Rightarrow> (dsn \<Rightarrow> dsn) \<Rightarrow> unit dm" where
  "assign v f = bindM (modifyM f) (\<lambda>_. updateNameAndHash v)"

definition without_brackets :: "jsstr \<Rightarrow> jsstr" where
  "without_brackets s = (if s \<noteq> [] \<and> hd s = C_OPEN \<and> last s = C_CLOSE then subarray s 1 (length s - 1) else s)"

definition set_hostname :: "url_env \<Rightarrow> jsstr \<Rightarrow> unit dm" where
  "set_hostname v s = assign v (\<lambda>d. d\<lparr>d_hostname := without_brackets s\<rparr>)"

definition normal_port :: "number \<Rightarrow> number" where
  "normal_port x = (case x of Finite q \<Rightarrow> if q = 0 then Finite 3306 else x | _ \<Rightarrow> Finite 3306)"

definition set_port :: "url_env \<Rightarrow> number \<Rightarrow> unit dm" where
  "set_port v x = assign v (\<lambda>d. d\<lparr>d_port := normal_port x\<rparr>)"

definition set_pipe :: "url_env \<Rightarrow> jsstr \<Rightarrow> unit dm" where
  "set_pipe v s = assign v (\<lambda>d. d\<lparr>d_pipe := (if s \<noteq> [] \<and> hd s \<noteq> C_SLASH then C_SLASH # s else s)\<rparr>)"

definition set_username :: "url_env \<Rightarrow> jsstr \<Rightarrow> unit dm" where
  "set_username v x = assign v (\<lambda>d. d\<lparr>d_username := x\<rparr>)"

definition set_password :: "url_env \<Rightarrow> jsstr \<Rightarrow> unit dm" where
  "set_password v x = assign v (\<lambda>d. d\<lparr>d_password := x\<rparr>)"

definition set_schema :: "url_env \<Rightarrow> jsstr \<Rightarrow> unit dm" where
  "set_schema v x = assign v (\<lambda>d. d\<lparr>d_schema := x\<rparr>)"

definition set_initSql :: "url_env \<Rightarrow> jsstr \<Rightarrow> unit dm" where
  "set_initSql v x = assign v (\<lambda>d. d\<lparr>d_initSql := x\<rparr>)"

definition set_foundRows :: "url_env \<Rightarrow> bool \<Rightarrow> unit dm" where
  "set_foundRows v x = assign v (\<lambda>d. d\<lparr>d_foundRows := x\<rparr>)"

definition set_ignoreSpace :: "url_env \<Rightarrow> bool \<Rightarrow> unit dm" where
  "set_ignoreSpace v x = assign v (\<lambda>d. d\<lparr>d_ignoreSpace := x\<rparr>)"

definition set_multiStatements :: "url_env \<Rightarrow> bool \<Rightarrow> unit dm" where
  "set_multiStatements v x = assign v (\<lambda>d. d\<lparr>d_multiStatements := x\<rparr>)"

definition set_retryLockWaitTimeout :: "url_env \<Rightarrow> bool \<Rightarrow> unit dm" where
  "set_retryLockWaitTimeout v x = assign v (\<lambda>d. d\<lparr>d_retryLockWaitTimeout := x\<rparr>)"

definition set_jsonAsString :: "url_env \<Rightarrow> bool \<Rightarrow> unit dm" where
  "set_jsonAsString v x = assign v (\<lambda>d. d\<lparr>d_jsonAsString := x\<rparr>)"

definition set_datesAsString :: "url_env \<Rightarrow> bool \<Rightarrow> unit dm" where
  "set_datesAsString v x = assign v (\<lambda>d. d\<lparr>d_datesAsString := x\<rparr>)"

definition set_correctDates :: "url_env \<Rightarrow> bool \<Rightarrow> unit dm" where
  "set_correctDates v x = assign v (\<lambda>d. d\<lparr>d_correctDates := x\<rparr>)"

definition set_allowPublicKeyRetrieval :: "url_env \<Rightarrow> bool \<Rightarrow> unit dm" where
  "set_allowPublicKeyRetrieval v x = assign v (\<lambda>d. d\<lparr>d_allowPublicKeyRetrieval := x\<rparr>)"

definition set_allowCleartextPasswords :: "url_env \<Rightarrow> bool \<Rightarrow> unit dm" where
  "set_allowCleartextPasswords v x = assign v (\<lambda>d. d\<lparr>d_allowCleartextPasswords := x\<rparr>)"

definition set_tls :: "url_env \<Rightarrow> bool \<Rightarrow> unit dm" where
  "set_tls v x = assign v (\<lambda>d. d\<lparr>d_tls := x\<rparr>)"

definition set_connectionTimeout :: "url_env \<Rightarrow> number \<Rightarrow> unit dm" where
  "set_connectionTimeout v x = assign v (\<lambda>d. d\<lparr>d_connectionTimeout := math_max 0 x\<rparr>)"

definition set_reconnectInterval :: "url_env \<Rightarrow> number \<Rightarrow> unit dm" where
  "set_reconnectInterval v x = assign v (\<lambda>d. d\<lparr>d_reconnectInterval := math_max 0 x\<rparr>)"

definition set_keepAliveTimeout :: "url_env \<Rightarrow> number \<Rightarrow> unit dm" where
  "set_keepAliveTimeout v x = assign v (\<lambda>d. d\<lparr>d_keepAliveTimeout := math_max 0 x\<rparr>)"

definition set_keepAliveMax :: "url_env \<Rightarrow> number \<Rightarrow> unit dm" where
  "set_keepAliveMax v x = assign v (\<lambda>d. d\<lparr>d_keepAliveMax := math_max 0 x\<rparr>)"

definition set_maxConns :: "url_env \<Rightarrow> number \<Rightarrow> unit dm" where
  "set_maxConns v x = assign v (\<lambda>d. d\<lparr>d_maxConns := math_max 1 x\<rparr>)"

definition set_maxColumnLen :: "url_env \<Rightarrow> number \<Rightarrow> unit dm" where
  "set_maxColumnLen v x = assign v (\<lambda>d. d\<lparr>d_maxColumnLen := math_max 1 x\<rparr>)"

definition set_retryQueryTimes :: "url_env \<Rightarrow> number \<Rightarrow> unit dm" where
  "set_retryQueryTimes v x = assign v (\<lambda>d. d\<lparr>d_retryQueryTimes := (if at_least_0 x then x else NaN)\<rparr>)"

definition set_storeResultsetIfBigger :: "url_env \<Rightarrow> number \<Rightarrow> unit dm" where
  "set_storeResultsetIfBigger v x = assign v (\<lambda>d. d\<lparr>d_storeResultsetIfBigger := (if at_least_0 x then x else NaN)\<rparr>)"

definition set_serverPublicKey :: "url_env \<Rightarrow> jsstr \<Rightarrow> unit dm" where
  "set_serverPublicKey v s = assign v (\<lambda>d. d\<lparr>d_serverPublicKey := without_space (publicKeyExtractBase64 s)\<rparr>)"

text \<open>The value of \<open>compress\<close> is a boolean (\<open>Inl\<close>) or a string.\<close>

definition set_compress :: "url_env \<Rightarrow> bool + jsstr \<Rightarrow> unit dm" where
  "set_compress v x d =
     (case (case x of Inl b \<Rightarrow> Inr (if b then AnyCompression else Uncompressed) | Inr s \<Rightarrow> parseCompress v s) of
        Inl e \<Rightarrow> (Inl e, d)
      | Inr c \<Rightarrow> assign v (\<lambda>d. d\<lparr>d_compress := c\<rparr>) d)"

definition set_tlsCaCert :: "url_env \<Rightarrow> jsstr \<Rightarrow> unit dm" where
  "set_tlsCaCert v s = assign v (\<lambda>d. d\<lparr>d_tlsCaCert := s, d_tls := (s \<noteq> [] \<or> d_tls d)\<rparr>)"

definition set_tlsHostname :: "url_env \<Rightarrow> jsstr \<Rightarrow> unit dm" where
  "set_tlsHostname v s = assign v (\<lambda>d. d\<lparr>d_tlsHostname := s, d_tls := (s \<noteq> [] \<or> d_tls d)\<rparr>)"

section \<open>Parsing\<close>

definition dsn_missing :: exn where "dsn_missing = JsError (js ''No DSN string provided'')"
definition dsn_unsupported :: "jsstr \<Rightarrow> exn" where "dsn_unsupported s = JsError (js ''Protocol not supported: '' @ s)"

definition decode_if :: "url_env \<Rightarrow> bool \<Rightarrow> jsstr \<Rightarrow> exn + jsstr" where
  "decode_if v b s = (if b then v_decode v s else Inr s)"

definition to_lower :: "16 word \<Rightarrow> 16 word" where
  "to_lower c = (if 65 \<le> c \<and> c \<le> 90 then c + 32 else c)"

text \<open>\<open>Number(x) || d\<close>\<close>

definition number_or :: "url_env \<Rightarrow> jsstr \<Rightarrow> rat \<Rightarrow> number" where
  "number_or v s d = (case v_number v s of NaN \<Rightarrow> Finite d | Finite q \<Rightarrow> if q = 0 then Finite d else Finite q | x \<Rightarrow> x)"

text \<open>A parameter that is there, also when it is empty; and one that is not empty.\<close>

definition if_given :: "jsstr option \<Rightarrow> (jsstr \<Rightarrow> number) \<Rightarrow> number" where
  "if_given x f = (case x of None \<Rightarrow> NaN | Some s \<Rightarrow> f s)"

definition if_nonempty :: "jsstr option \<Rightarrow> (jsstr \<Rightarrow> number) \<Rightarrow> number" where
  "if_nonempty x f = (case x of None \<Rightarrow> NaN | Some s \<Rightarrow> if s = [] then NaN else f s)"

definition given_text :: "jsstr option \<Rightarrow> jsstr" where
  "given_text x = (case x of None \<Rightarrow> [] | Some s \<Rightarrow> s)"

text \<open>The path before and after its last slash; with no slash the code takes all but the last character for the pipe.\<close>

definition split_path :: "jsstr \<Rightarrow> jsstr \<times> jsstr" where
  "split_path path =
     (case last_index C_SLASH path (length path - 1) of
        None \<Rightarrow> (take (length path - 1) path, path)
      | Some pos \<Rightarrow> (take pos path, drop (pos + 1) path))"

definition dsn_fields :: "url_env \<Rightarrow> url \<Rightarrow> jsstr \<Rightarrow> jsstr \<Rightarrow> jsstr \<Rightarrow> dsn_compress \<Rightarrow> jsstr \<Rightarrow> dsn" where
  "dsn_fields v u username password path compress initSql =
     (let param = (\<lambda>name. u_param u (js name)); given = (\<lambda>name. param name \<noteq> None);
          cert = given_text (param ''tlsCaCert''); host = given_text (param ''tlsHostname'')
      in \<lparr>d_hostname = without_brackets (u_hostname u),
          d_port = (if u_port u = [] then Finite 3306 else number_or v (u_port u) 3306),
          d_username = username, d_password = password,
          d_schema = snd (split_path path), d_pipe = fst (split_path path),
          d_connectionTimeout = if_given (param ''connectionTimeout'') (\<lambda>s. math_max 0 (v_number v s)),
          d_reconnectInterval = if_nonempty (param ''reconnectInterval'') (\<lambda>s. math_max 0 (v_number v s)),
          d_keepAliveTimeout = if_nonempty (param ''keepAliveTimeout'') (\<lambda>s. math_max 0 (v_number v s)),
          d_keepAliveMax = if_nonempty (param ''keepAliveMax'') (\<lambda>s. math_max 0 (math_round (v_number v s))),
          d_maxConns = if_nonempty (param ''maxConns'') (\<lambda>s. math_max 1 (v_number v s)),
          d_maxColumnLen = if_nonempty (param ''maxColumnLen'') (\<lambda>s. math_max 1 (v_number v s)),
          d_foundRows = given ''foundRows'', d_ignoreSpace = given ''ignoreSpace'',
          d_multiStatements = given ''multiStatements'', d_retryLockWaitTimeout = given ''retryLockWaitTimeout'',
          d_retryQueryTimes = if_given (param ''retryQueryTimes'') (\<lambda>s. math_max 0 (v_number v s)),
          d_jsonAsString = given ''jsonAsString'', d_datesAsString = given ''datesAsString'',
          d_correctDates = given ''correctDates'',
          d_storeResultsetIfBigger = if_given (param ''storeResultsetIfBigger'') (\<lambda>s. math_max 0 (number_or v s 0)),
          d_allowPublicKeyRetrieval = given ''allowPublicKeyRetrieval'',
          d_serverPublicKey =
            (let key = given_text (param ''serverPublicKey'')
             in if key = [] then []
                else without_space (publicKeyExtractBase64 (map (\<lambda>c. if c = C_BLANK then C_PLUS else c) key))),
          d_allowCleartextPasswords = given ''allowCleartextPasswords'',
          d_compress = compress,
          d_tls = (given ''tls'' \<or> cert \<noteq> [] \<or> host \<noteq> []), d_tlsCaCert = cert, d_tlsHostname = host,
          d_initSql = js_trim initSql,
          d_name = [], d_hash = 0, d_hashNoSchema = 0\<rparr>)"

definition new_dsn :: "url_env \<Rightarrow> jsstr \<Rightarrow> exn + dsn" where
  "new_dsn v s =
     (if s = [] then Inl dsn_missing
      else if index_from C_COLON s 0 \<noteq> Some 5 \<or> map to_lower (take 5 s) \<noteq> js ''mysql'' then Inl (dsn_unsupported s)
      else
        case v_url v (js ''http'' @ drop 5 s) of
          Inl e \<Rightarrow> Inl e
        | Inr u \<Rightarrow>
            (case (decode_if v (v_decodeUsername v) (u_username u), decode_if v (v_decodePassword v) (u_password u),
                   decode_if v (v_decodePathname v) (u_pathname u)) of
               (Inr username, Inr password, Inr path) \<Rightarrow>
                 (case (case u_param u (js ''compress'') of None \<Rightarrow> Inr Uncompressed | Some c \<Rightarrow> parseCompress v c) of
                    Inl e \<Rightarrow> Inl e
                  | Inr compress \<Rightarrow>
                      (case v_decode v (drop 1 (u_hash u)) of
                         Inl e \<Rightarrow> Inl e
                       | Inr sql \<Rightarrow>
                           (case updateNameAndHash v (dsn_fields v u username password path compress sql) of
                              (Inl e, _) \<Rightarrow> Inl e
                            | (Inr _, d) \<Rightarrow> Inr d)))
             | (Inl e, _) \<Rightarrow> Inl e
             | (_, Inl e, _) \<Rightarrow> Inl e
             | (_, _, Inl e) \<Rightarrow> Inl e))"

text \<open>Where to connect: \<open>Inl\<close> is the path of a socket.\<close>

definition dsn_addr :: "dsn \<Rightarrow> jsstr + (jsstr \<times> number)" where
  "dsn_addr d = (if d_pipe d \<noteq> [] then Inl (d_pipe d) else Inr (d_hostname d, d_port d))"

section \<open>The name\<close>

text \<open>The name has no password, only whether there is one: all passwords of a user give the same name and hash.\<close>

lemma same_name_for_passwords:
  assumes "d_password d \<noteq> []" "p \<noteq> []"
  shows "updateNameAndHash v (d\<lparr>d_password := p\<rparr>) =
    (let (x, d') = updateNameAndHash v d in (x, d'\<lparr>d_password := p\<rparr>))"
proof -
  have "dsn_name0 v (d\<lparr>d_password := p\<rparr>) = dsn_name0 v d"
    using assms by (simp add: dsn_name0_def)
  moreover have "params_text v (d\<lparr>d_password := p\<rparr>) = params_text v d"
    by (intro ext) (simp add: params_text_def)
  then have "dsn_name1 v (d\<lparr>d_password := p\<rparr>) = dsn_name1 v d"
    by (simp add: dsn_name1_def dsn_params_def cong: sum.case_cong prod.case_cong if_cong)
  ultimately show ?thesis
    by (simp add: updateNameAndHash_def Let_def split: sum.splits)
qed

text \<open>The name is up to date after everything that does not throw.\<close>

definition named :: "url_env \<Rightarrow> dsn \<Rightarrow> bool" where
  "named v d \<longleftrightarrow>
     (\<exists>name1. dsn_name1 v d = Inr name1 \<and> d_name d = dsn_name0 v d @ d_schema d @ name1 \<and>
        d_hash d = v_crc32 v (d_name d) \<and> d_hashNoSchema d = v_crc32 v (dsn_name0 v d @ name1))"

lemma params_fields [simp]:
  "params_text v (d\<lparr>d_name := n, d_hash := h, d_hashNoSchema := h'\<rparr>) = params_text v d"
  by (intro ext) (simp add: params_text_def)

lemma name_fields [simp]:
  "dsn_name0 v (d\<lparr>d_name := n, d_hash := h, d_hashNoSchema := h'\<rparr>) = dsn_name0 v d"
  "dsn_name1 v (d\<lparr>d_name := n, d_hash := h, d_hashNoSchema := h'\<rparr>) = dsn_name1 v d"
  by (simp_all add: dsn_name0_def dsn_name1_def dsn_params_def cong: sum.case_cong prod.case_cong if_cong)

lemma updated_named: "updateNameAndHash v d = (Inr (), d') \<Longrightarrow> named v d'"
  by (auto simp: updateNameAndHash_def named_def Let_def split: sum.splits)

lemma assigned_named: "assign v f d = (Inr (), d') \<Longrightarrow> named v d'"
  by (simp add: assign_def updated_named)

lemma new_dsn_named: "new_dsn v s = Inr d \<Longrightarrow> named v d"
  by (auto simp: new_dsn_def updated_named split: if_splits sum.splits prod.splits option.splits)

section \<open>Normal fields\<close>

text \<open>The values that the constructor and the setters let in.\<close>

definition nan_or :: "(number \<Rightarrow> bool) \<Rightarrow> number \<Rightarrow> bool" where "nan_or P x \<longleftrightarrow> x = NaN \<or> P x"

definition at_least_1 :: "number \<Rightarrow> bool" where
  "at_least_1 x = (case x of NaN \<Rightarrow> False | Infinite negative \<Rightarrow> \<not> negative | Finite q \<Rightarrow> 1 \<le> q)"

definition compress_ok :: "dsn_compress \<Rightarrow> bool" where
  "compress_ok c = (case c of ZstdLevel n \<Rightarrow> 1 \<le> n \<and> n \<le> 22 | _ \<Rightarrow> True)"

definition dsn_normal :: "dsn \<Rightarrow> bool" where
  "dsn_normal d \<longleftrightarrow>
     d_port d \<notin> {NaN, Finite 0} \<and>
     nan_or at_least_0 (d_connectionTimeout d) \<and> nan_or at_least_0 (d_reconnectInterval d) \<and>
     nan_or at_least_0 (d_keepAliveTimeout d) \<and> nan_or at_least_0 (d_keepAliveMax d) \<and>
     nan_or at_least_1 (d_maxConns d) \<and> nan_or at_least_1 (d_maxColumnLen d) \<and>
     nan_or at_least_0 (d_retryQueryTimes d) \<and> nan_or at_least_0 (d_storeResultsetIfBigger d) \<and>
     list_all (\<lambda>c. \<not> is_space c) (d_serverPublicKey d) \<and> compress_ok (d_compress d)"

lemma max_ranges [simp]: "nan_or at_least_0 (math_max 0 x)" "nan_or at_least_1 (math_max 1 x)"
  by (auto simp: nan_or_def at_least_0_def at_least_1_def math_max_def split: number.splits)

lemma nan_ranges [simp]: "nan_or P NaN"
  by (simp add: nan_or_def)

lemma given_ranges [simp]: "(\<And>s. nan_or P (f s)) \<Longrightarrow> nan_or P (if_given x f)" "(\<And>s. nan_or P (f s)) \<Longrightarrow> nan_or P (if_nonempty x f)"
  by (simp_all add: if_given_def if_nonempty_def split: option.splits)

lemma filtered_range [simp]: "nan_or at_least_0 (if at_least_0 x then x else NaN)"
  by (simp add: nan_or_def)

lemma normal_ports [simp]:
  "normal_port x \<noteq> NaN" "normal_port x \<noteq> Finite 0" "number_or v s 3306 \<noteq> NaN" "number_or v s 3306 \<noteq> Finite 0"
  by (auto simp: normal_port_def number_or_def split: number.splits)

lemma no_space_left [simp]: "list_all (\<lambda>c. \<not> is_space c) (without_space s)"
  by (simp add: without_space_def list_all_iff)

lemma parseCompress_ok: "parseCompress v s = Inr c \<Longrightarrow> compress_ok c"
  by (auto simp: parseCompress_def compress_ok_def le_nat_iff nat_le_iff split: if_splits number.splits)

lemma updateName_fields:
  "updateNameAndHash v d = (x, d') \<Longrightarrow> d' = d \<or> (\<exists>n h h'. d' = d\<lparr>d_name := n, d_hash := h, d_hashNoSchema := h'\<rparr>)"
  unfolding updateNameAndHash_def Let_def by (cases "dsn_name1 v d") auto

lemma updateName_normal: "updateNameAndHash v d = (x, d') \<Longrightarrow> dsn_normal d' = dsn_normal d"
  by (drule updateName_fields) (auto simp: dsn_normal_def)

lemma assign_normal: "assign v f d = (x, d') \<Longrightarrow> dsn_normal (f d) \<Longrightarrow> dsn_normal d'"
  by (auto simp: assign_def dest: updateName_normal)

lemma dsn_fields_normal: "compress_ok c \<Longrightarrow> dsn_normal (dsn_fields v u username password path c sql)"
  by (simp add: dsn_normal_def dsn_fields_def Let_def)

lemma new_dsn_normal:
  assumes "new_dsn v s = Inr d"
  shows "dsn_normal d"
proof -
  obtain u username password path c sql where
    d: "updateNameAndHash v (dsn_fields v u username password path c sql) = (Inr (), d)"
    and c: "(case u_param u (js ''compress'') of None \<Rightarrow> Inr Uncompressed | Some c \<Rightarrow> parseCompress v c) = Inr c"
    using assms by (auto simp: new_dsn_def split: if_splits sum.splits prod.splits)
  have "compress_ok c"
    using c by (auto simp: compress_ok_def dest: parseCompress_ok split: option.splits)
  then show ?thesis
    using updateName_normal [OF d] dsn_fields_normal by simp
qed

text \<open>Every setter, also one that throws.\<close>

inductive dsn_setter :: "url_env \<Rightarrow> unit dm \<Rightarrow> bool" for v where
  "dsn_setter v (set_hostname v s)" | "dsn_setter v (set_port v x)" | "dsn_setter v (set_username v s)"
| "dsn_setter v (set_password v s)" | "dsn_setter v (set_schema v s)" | "dsn_setter v (set_pipe v s)"
| "dsn_setter v (set_connectionTimeout v x)" | "dsn_setter v (set_reconnectInterval v x)"
| "dsn_setter v (set_keepAliveTimeout v x)" | "dsn_setter v (set_keepAliveMax v x)" | "dsn_setter v (set_maxConns v x)"
| "dsn_setter v (set_maxColumnLen v x)" | "dsn_setter v (set_foundRows v b)" | "dsn_setter v (set_ignoreSpace v b)"
| "dsn_setter v (set_multiStatements v b)" | "dsn_setter v (set_retryLockWaitTimeout v b)"
| "dsn_setter v (set_retryQueryTimes v x)" | "dsn_setter v (set_jsonAsString v b)" | "dsn_setter v (set_datesAsString v b)"
| "dsn_setter v (set_correctDates v b)" | "dsn_setter v (set_storeResultsetIfBigger v x)"
| "dsn_setter v (set_allowPublicKeyRetrieval v b)" | "dsn_setter v (set_serverPublicKey v s)"
| "dsn_setter v (set_allowCleartextPasswords v b)" | "dsn_setter v (set_compress v c)" | "dsn_setter v (set_tls v b)"
| "dsn_setter v (set_tlsCaCert v s)" | "dsn_setter v (set_tlsHostname v s)" | "dsn_setter v (set_initSql v s)"

lemmas setter_defs = set_hostname_def set_port_def set_username_def set_password_def set_schema_def set_pipe_def
  set_connectionTimeout_def set_reconnectInterval_def set_keepAliveTimeout_def set_keepAliveMax_def set_maxConns_def
  set_maxColumnLen_def set_foundRows_def set_ignoreSpace_def set_multiStatements_def set_retryLockWaitTimeout_def
  set_retryQueryTimes_def set_jsonAsString_def set_datesAsString_def set_correctDates_def set_storeResultsetIfBigger_def
  set_allowPublicKeyRetrieval_def set_serverPublicKey_def set_allowCleartextPasswords_def set_tls_def set_tlsCaCert_def
  set_tlsHostname_def set_initSql_def

lemma set_compress_normal:
  assumes "set_compress v c d = (x, d')" "dsn_normal d"
  shows "dsn_normal d'"
proof (cases "case c of Inl b \<Rightarrow> Inr (if b then AnyCompression else Uncompressed) | Inr s \<Rightarrow> parseCompress v s")
  case (Inl e)
  then show ?thesis
    using assms by (simp add: set_compress_def)
next
  case (Inr k)
  then have "compress_ok k"
    by (auto simp: compress_ok_def dest: parseCompress_ok split: sum.splits)
  then have "dsn_normal (d\<lparr>d_compress := k\<rparr>)"
    using assms(2) by (simp add: dsn_normal_def)
  then show ?thesis
    using assms(1) Inr by (auto simp: set_compress_def intro: assign_normal)
qed

lemma assigned_normal:
  "m = assign v f \<Longrightarrow> m d = (x, d') \<Longrightarrow> dsn_normal d \<Longrightarrow> (dsn_normal d \<Longrightarrow> dsn_normal (f d)) \<Longrightarrow> dsn_normal d'"
  by (auto intro: assign_normal)

lemma setter_normal:
  assumes "dsn_setter v m" "m d = (x, d')" "dsn_normal d"
  shows "dsn_normal d'"
  using assms(1)
proof cases
  case (25 c)
  then show ?thesis
    using assms(2,3) set_compress_normal by simp
qed (insert assms(2,3), unfold setter_defs, (erule (2) assigned_normal, simp add: dsn_normal_def)+)

section \<open>Public keys\<close>

text \<open>
  A key in PEM armor, with any line ends and any line breaks and zero bytes behind it, is stored as its base64 without white
  space; so is a key without armor.
\<close>

lemma key_end_cong: "(\<And>i. i < n \<Longrightarrow> s ! i = t ! i) \<Longrightarrow> key_end s n = key_end t n"
  by (induction n) simp_all

lemma key_end_append:
  "set t \<subseteq> {0, C_CR, C_LF} \<Longrightarrow> s \<noteq> [] \<Longrightarrow> last s \<notin> {0, C_CR, C_LF} \<Longrightarrow> key_end (s @ t) (length (s @ t)) = length s"
proof (induction t rule: rev_induct)
  case Nil
  then show ?case
    by (cases s rule: rev_exhaust) simp_all
next
  case (snoc c t)
  have "key_end (s @ t @ [c]) (length (s @ t)) = key_end (s @ t) (length (s @ t))"
    by (rule key_end_cong) (simp add: nth_append [of "s @ t"] flip: append_assoc)
  with snoc show ?case
    by (auto simp: nth_append)
qed

lemma index_from_append:
  "c \<notin> set (drop n s) \<Longrightarrow> n \<le> length s \<Longrightarrow> index_from c (s @ c # t) n = Some (length s)"
proof (induction s arbitrary: n)
  case (Cons d s)
  then show ?case
    by (cases n) (auto simp: drop_Cons')
qed simp

lemma last_index_append:
  assumes "c \<notin> set t" "length s \<le> n" "n < length s + 1 + length t"
  shows "last_index c (s @ c # t @ u) n = Some (length s)"
  using assms(2,3)
proof (induction n)
  case 0
  then show ?case by simp
next
  case (Suc n)
  show ?case
  proof (cases "Suc n = length s")
    case True
    then have "(s @ c # t @ u) ! Suc n = c" "Suc n < length (s @ c # t @ u)"
      by (simp_all add: nth_append)
    then have "last_index c (s @ c # t @ u) (Suc n) = Some (Suc n)"
      by (simp only: last_index.simps simp_thms if_True)
    then show ?thesis
      by (simp only: True)
  next
    case False
    with Suc.prems have "length s \<le> n" "n - length s < length t" by linarith+
    then have "(s @ c # t @ u) ! Suc n = t ! (Suc n - length s - 1)" "Suc n - length s - 1 < length t"
      using Suc.prems by (auto simp: nth_append nth_Cons')
    then have "(s @ c # t @ u) ! Suc n \<noteq> c"
      using assms(1) by (metis nth_mem)
    then show ?thesis
      using Suc False by simp
  qed
qed

lemma space_ends: "is_space C_CR" "is_space C_LF"
  by (simp_all add: is_space_def C_CR_def C_LF_def)

lemma without_space_append: "without_space (s @ t) = without_space s @ without_space t"
  by (simp add: without_space_def)

lemma key_in_armor:
  assumes "js_prefix (js ''-----BEGIN'') first" "C_LF \<notin> set first"
    and "finish \<noteq> []" "C_LF \<notin> set finish" "last finish \<notin> {0, C_CR, C_LF}" "set rest \<subseteq> {0, C_CR, C_LF}"
  shows "without_space (publicKeyExtractBase64 (first @ [C_LF] @ body @ [C_LF] @ finish @ rest)) = without_space body"
proof -
  let ?s = "first @ [C_LF] @ body @ [C_LF] @ finish"
  let ?key = "?s @ rest" and ?to = "length (first @ [C_LF] @ body)"
  have ten: "10 \<le> length first"
    using assms(1) arg_cong [of _ _ length] by (fastforce simp: js_prefix_def)
  have end': "key_end ?key (length ?key) = length ?s"
    using key_end_append [OF assms(6), of ?s] assms(3,5) by simp
  have "js_prefix (js ''-----BEGIN'') ?key"
    using assms(1) ten by (simp add: js_prefix_def)
  moreover have "index_from C_LF ?key 10 = Some (length first)"
    using index_from_append [of C_LF 10 first "body @ [C_LF] @ finish @ rest"] assms(2) ten in_set_dropD by fastforce
  moreover have "last_index C_LF ?key (length ?s - 1) = Some ?to"
    using last_index_append [of C_LF finish "first @ [C_LF] @ body" "length ?s - 1" rest] assms(3,4)
    by (cases finish) simp_all
  ultimately have "publicKeyExtractBase64 ?key =
      subarray ?key (length first + 1) (if 0 < ?to \<and> ?key ! (?to - 1) = C_CR then ?to - 1 else ?to)"
    using end' by (simp add: publicKeyExtractBase64_def Let_def)
  moreover have "subarray ?key (length first + 1) ?to = body"
    by (simp add: subarray_def)
  moreover have "without_space (subarray ?key (length first + 1) (?to - 1)) = without_space body" if cr: "?key ! (?to - 1) = C_CR"
  proof (cases body rule: rev_exhaust)
    case Nil
    then show ?thesis by (simp add: without_space_def)
  next
    case (snoc b c)
    then have key: "?key = (first @ [C_LF] @ b) @ c # [C_LF] @ finish @ rest" and to: "?to - 1 = length (first @ [C_LF] @ b)"
      by simp_all
    have "c = C_CR"
      using cr unfolding key to by (simp only: nth_append_length)
    moreover have "subarray ?key (length first + 1) (?to - 1) = b"
      unfolding key to by (simp add: subarray_def)
    ultimately have "subarray ?key (length first + 1) (?to - 1) = b" "c = C_CR"
      by simp_all
    then show ?thesis
      using snoc space_ends by (simp add: without_space_def)
  qed
  ultimately show ?thesis
    by (cases "0 < ?to \<and> ?key ! (?to - 1) = C_CR") simp_all
qed

end
