(* ===== verification/Ed25519.thy ===== *)
theory Ed25519
  imports Prelude
begin

text \<open>
  Signatures on the curve edwards25519, \<open>src/private/ed25519.ts\<close>: arithmetic modulo \<open>P\<close> and \<open>L\<close> (here \<open>ED_P\<close> and \<open>ED_L\<close>), points in extended homogeneous
  coordinates, their encoding in 32 bytes, keys and signatures. SHA-512 is a parameter. The lemmas say that the exponentiation is the
  power, that \<open>pointAdd()\<close> is the addition law of the curve and stays on it, and what a signature consists of.
\<close>

section \<open>Numbers\<close>

definition ED_P :: int where "ED_P = 2 ^ 255 - 19"
definition ED_L :: int where "ED_L = 2 ^ 252 + 27742317777372353535851937790883648493"

text \<open>The remainder of bigints has the sign of the dividend.\<close>

definition big_rem :: "int \<Rightarrow> int \<Rightarrow> int" where
  "big_rem a m = (if a < 0 then - ((- a) mod m) else a mod m)"

definition modP :: "int \<Rightarrow> int" where
  "modP a = (let result = big_rem a ED_P in if result < 0 then result + ED_P else result)"

definition modL :: "int \<Rightarrow> int" where
  "modL a = (let result = big_rem a ED_L in if result < 0 then result + ED_L else result)"

function modPow_loop :: "int \<Rightarrow> int \<Rightarrow> int \<Rightarrow> int \<Rightarrow> int" where
  "modPow_loop modulus result b e =
     (if 0 < e then
        modPow_loop modulus (if odd e then big_rem (result * b) modulus else result) (big_rem (b * b) modulus) (e div 2)
      else result)"
  by auto
termination
  by (relation "measure (\<lambda>(modulus, result, b, e). nat e)") auto

declare modPow_loop.simps [simp del]

definition modPow :: "int \<Rightarrow> int \<Rightarrow> int \<Rightarrow> int" where
  "modPow base' exponent modulus =
     (let b = big_rem base' modulus in modPow_loop modulus 1 (if b < 0 then b + modulus else b) exponent)"

definition ED_D :: int where "ED_D = modP (- 121665 * modPow 121666 (ED_P - 2) ED_P)"
definition SQRT_M1 :: int where "SQRT_M1 = modPow 2 ((ED_P - 1) div 4) ED_P"

section \<open>Points\<close>

type_synonym point = "int \<times> int \<times> int \<times> int"

definition BASE_X :: int where "BASE_X = 15112221349535400772501151409588531511454012693041857206046113283949847762202"
definition BASE_Y :: int where "BASE_Y = 46316835694926478169428394003475163141307993866256225615783033603165251855960"
definition BASE :: point where "BASE = (BASE_X, BASE_Y, 1, modP (BASE_X * BASE_Y))"
definition IDENTITY :: point where "IDENTITY = (0, 1, 1, 0)"

definition pointAdd :: "point \<Rightarrow> point \<Rightarrow> point" where
  "pointAdd p q =
     (let (x1, y1, z1, t1) = p; (x2, y2, z2, t2) = q;
          a = modP ((y1 - x1) * (y2 - x2)); b = modP ((y1 + x1) * (y2 + x2));
          c = modP (t1 * 2 * ED_D * t2); d = modP (z1 * 2 * z2);
          e = b - a; f = d - c; g = d + c; h = b + a
      in (modP (e * f), modP (g * h), modP (f * g), modP (e * h)))"

function pointMul_loop :: "int \<Rightarrow> point \<Rightarrow> point \<Rightarrow> point" where
  "pointMul_loop s result addend =
     (if 0 < s then pointMul_loop (s div 2) (if odd s then pointAdd result addend else result) (pointAdd addend addend)
      else result)"
  by auto
termination
  by (relation "measure (\<lambda>(s, result, addend). nat s)") auto

declare pointMul_loop.simps [simp del]

definition pointMul :: "int \<Rightarrow> point \<Rightarrow> point" where "pointMul scalar p = pointMul_loop scalar IDENTITY p"

section \<open>Bytes\<close>

definition bytesToBigIntLE :: "byte list \<Rightarrow> int" where
  "bytesToBigIntLE data = foldr (\<lambda>b result. result * 256 + uint b) data 0"

fun big_bytes :: "nat \<Rightarrow> int \<Rightarrow> byte list" where
  "big_bytes 0 v = []"
| "big_bytes (Suc n) v = word_of_int (v mod 256) # big_bytes n (v div 256)"

definition bigIntToBytes32LE :: "int \<Rightarrow> byte list" where "bigIntToBytes32LE v = big_bytes 32 v"

definition encodePoint :: "point \<Rightarrow> byte list" where
  "encodePoint p =
     (let (x, y, z, t) = p; zInv = modPow z (ED_P - 2) ED_P; xAffine = modP (x * zInv); yAffine = modP (y * zInv);
          result = bigIntToBytes32LE yAffine
      in if odd xAffine then result[31 := result ! 31 OR 0x80] else result)"

definition decodePoint :: "byte list \<Rightarrow> point option" where
  "decodePoint data =
     (if length data \<noteq> 32 then None
      else
        let xSign = uint (drop_bit 7 (data ! 31)); y = bytesToBigIntLE data mod 2 ^ 255
        in if ED_P \<le> y then None
           else
             let y2 = modP (y * y); u = modP (y2 - 1); v = modP (ED_D * y2 + 1);
                 v3 = modP (v * v * v); v7 = modP (v3 * v3 * v);
                 x = modP (u * v3 * modPow (modP (u * v7)) ((ED_P - 5) div 8) ED_P);
                 vx2 = modP (v * x * x)
             in if vx2 \<noteq> modP (- u) \<and> vx2 \<noteq> u then None
                else
                  let x = (if vx2 = modP (- u) then modP (x * SQRT_M1) else x)
                  in if x = 0 \<and> xSign = 1 then None
                     else let x = (if x mod 2 \<noteq> xSign then ED_P - x else x) in Some (x, y, 1, modP (x * y)))"

section \<open>Keys and signatures\<close>

text \<open>The first half of SHA-512 of the seed, clamped, and the second half.\<close>

definition expandSeed :: "(byte list \<Rightarrow> byte list) \<Rightarrow> byte list \<Rightarrow> int \<times> byte list" where
  "expandSeed sha512 seed =
     (let az = sha512 seed; az = az[0 := az ! 0 AND 0xF8]; az = az[31 := (az ! 31 AND 0x7F) OR 0x40]
      in (bytesToBigIntLE (take 32 az), drop 32 az))"

definition ed25519PublicKey :: "(byte list \<Rightarrow> byte list) \<Rightarrow> byte list \<Rightarrow> byte list" where
  "ed25519PublicKey sha512 seed = encodePoint (pointMul (fst (expandSeed sha512 seed)) BASE)"

definition ed25519Sign :: "(byte list \<Rightarrow> byte list) \<Rightarrow> byte list \<Rightarrow> byte list \<Rightarrow> byte list" where
  "ed25519Sign sha512 seed message =
     (let (scalar, prefix) = expandSeed sha512 seed;
          publicKey = encodePoint (pointMul scalar BASE);
          r = modL (bytesToBigIntLE (sha512 (prefix @ message)));
          rPoint = encodePoint (pointMul r BASE);
          k = modL (bytesToBigIntLE (sha512 (rPoint @ publicKey @ message)));
          s = modL (r + k * scalar)
      in rPoint @ bigIntToBytes32LE s)"

definition ed25519Verify :: "(byte list \<Rightarrow> byte list) \<Rightarrow> byte list \<Rightarrow> byte list \<Rightarrow> byte list \<Rightarrow> bool" where
  "ed25519Verify sha512 publicKey message signature =
     (if length signature \<noteq> 64 \<or> length publicKey \<noteq> 32 then False
      else
        let rBytes = take 32 signature; s = bytesToBigIntLE (drop 32 signature)
        in if ED_L \<le> s then False
           else
             case (decodePoint publicKey, decodePoint rBytes) of
               (Some aPoint, Some rPoint) \<Rightarrow>
                 (let k = modL (bytesToBigIntLE (sha512 (rBytes @ publicKey @ message)))
                  in encodePoint (pointMul s BASE) = encodePoint (pointAdd rPoint (pointMul k aPoint)))
             | _ \<Rightarrow> False)"

section \<open>Arithmetic\<close>

lemma ED_P_pos: "0 < ED_P" and ED_L_pos: "0 < ED_L"
  by (simp_all add: ED_P_def ED_L_def)

lemma big_rem_mod:
  fixes m :: int
  assumes "0 < m"
  shows "(let r = big_rem a m in if r < 0 then r + m else r) = a mod m"
proof -
  have "0 \<le> a mod m" "0 \<le> - a mod m" "a mod m < m"
    using assms by simp_all
  then show ?thesis
    by (auto simp: big_rem_def Let_def zmod_zminus1_eq_if)
qed

lemma modP_mod: "modP a = a mod ED_P" and modL_mod: "modL a = a mod ED_L"
  using big_rem_mod [OF ED_P_pos, of a] big_rem_mod [OF ED_L_pos, of a] by (simp_all add: modP_def modL_def)

lemma big_rem_pos: "0 \<le> a \<Longrightarrow> big_rem a m = a mod m"
  by (simp add: big_rem_def)

lemma modPow_loop_power:
  "0 \<le> r \<Longrightarrow> r < m \<Longrightarrow> 0 \<le> b \<Longrightarrow> modPow_loop m r b e = r * b ^ nat e mod m"
proof (induction m r b e rule: modPow_loop.induct)
  case (1 m r b e)
  show ?case
  proof (cases "0 < e")
    case False
    then show ?thesis using 1 by (simp add: modPow_loop.simps [of m r b e])
  next
    case True
    let ?r = "if odd e then r * b mod m else r" and ?b = "b * b mod m"
    have m: "0 < m" using 1 by simp
    then have "modPow_loop m r b e = modPow_loop m ?r ?b (e div 2)"
      using True 1(2-4) by (subst modPow_loop.simps) (simp add: big_rem_pos)
    also have "\<dots> = ?r * ?b ^ nat (e div 2) mod m"
    proof -
      have r: "big_rem (r * b) m = r * b mod m" "big_rem (b * b) m = b * b mod m"
        using 1(2,4) by (simp_all add: big_rem_pos)
      show ?thesis
        by (rule 1(1) [OF True, unfolded r]) (use 1(2,3) m in simp_all)
    qed
    also have "\<dots> = (if odd e then r * b else r) * (b * b) ^ nat (e div 2) mod m"
      by (rule mod_mult_cong) (simp_all add: power_mod)
    also have "nat e = (if odd e then Suc (2 * nat (e div 2)) else 2 * nat (e div 2))"
      using True by (cases "odd e") (auto elim!: oddE evenE simp: nat_mult_distrib nat_add_distrib)
    then have "(if odd e then r * b else r) * (b * b) ^ nat (e div 2) = r * b ^ nat e"
      by (simp add: power_mult power2_eq_square)
    finally show ?thesis .
  qed
qed

lemma modPow_power: "1 < m \<Longrightarrow> modPow b e m = b ^ nat e mod m"
  using big_rem_mod [of m b] by (simp add: modPow_def Let_def modPow_loop_power power_mod)

section \<open>The curve\<close>

text \<open>The equation of the curve \<open>- x\<^sup>2 + y\<^sup>2 = 1 + ED_D x\<^sup>2 y\<^sup>2\<close> for \<open>x = X / Z\<close> and \<open>y = Y / Z\<close>, and \<open>T = X Y / Z\<close>.\<close>

definition on_curve :: "point \<Rightarrow> bool" where
  "on_curve p \<longleftrightarrow> (let (x, y, z, t) = p in (y * y - x * x) mod ED_P = (z * z + ED_D * t * t) mod ED_P \<and> (x * y) mod ED_P = (z * t) mod ED_P)"

lemma curve_sum:
  fixes x1 y1 z1 t1 x2 y2 z2 t2 d n :: int
  defines "e \<equiv> (y1 + x1) * (y2 + x2) - (y1 - x1) * (y2 - x2)" and "h \<equiv> (y1 + x1) * (y2 + x2) + (y1 - x1) * (y2 - x2)"
    and "f \<equiv> z1 * 2 * z2 - t1 * 2 * d * t2" and "g \<equiv> z1 * 2 * z2 + t1 * 2 * d * t2"
  assumes c: "(y1 * y1 - x1 * x1) mod n = (z1 * z1 + d * t1 * t1) mod n" "(x1 * y1) mod n = (z1 * t1) mod n"
    "(y2 * y2 - x2 * x2) mod n = (z2 * z2 + d * t2 * t2) mod n" "(x2 * y2) mod n = (z2 * t2) mod n"
  shows "((g * h) * (g * h) - (e * f) * (e * f) - ((f * g) * (f * g) + d * (e * h) * (e * h))) mod n = 0"
proof -
  define s where "s = (x1 * x1 + y1 * y1) * (x2 * x2 + y2 * y2)"
  define u v where "u = z1 * z2" and "v = t1 * t2"
  define Q where "Q = (\<lambda>n1 n2 m1 m2. 16 * ((u * u + d * d * (v * v)) * (n1 * n2) + 2 * d * u * v * s + 8 * d * u * v * (m1 * m2)
    - (u * u - d * d * (v * v)) * (u * u - d * d * (v * v))
    - d * ((m1 * m1) * (n2 * n2) + (m2 * m2) * (n1 * n1) + 8 * ((m1 * m1) * (m2 * m2)) + 2 * (m1 * m2) * s)))"
  have "(g * h) * (g * h) - (e * f) * (e * f) - ((f * g) * (f * g) + d * (e * h) * (e * h)) =
      Q (y1 * y1 - x1 * x1) (y2 * y2 - x2 * x2) (x1 * y1) (x2 * y2)"
    unfolding e_def f_def g_def h_def Q_def s_def u_def v_def by algebra
  moreover have "Q n1 n2 m1 m2 mod n = Q n1' n2' m1' m2' mod n"
    if "n1 mod n = n1' mod n" "n2 mod n = n2' mod n" "m1 mod n = m1' mod n" "m2 mod n = m2' mod n" for n1 n2 m1 m2 n1' n2' m1' m2'
    unfolding Q_def by (intro mod_diff_cong mod_mult_cong mod_add_cong refl that)
  note this [OF c(1,3,2,4)]
  moreover have "Q (z1 * z1 + d * t1 * t1) (z2 * z2 + d * t2 * t2) (z1 * t1) (z2 * t2) = 0"
    unfolding Q_def u_def v_def by algebra
  ultimately show ?thesis by simp
qed

text \<open>The addition is closed, and it is the addition law of twisted Edwards curves without its denominators.\<close>

lemma pointAdd_formulas:
  assumes "p = (x1, y1, z1, t1)" "q = (x2, y2, z2, t2)"
  defines "e \<equiv> (y1 + x1) * (y2 + x2) - (y1 - x1) * (y2 - x2)" and "h \<equiv> (y1 + x1) * (y2 + x2) + (y1 - x1) * (y2 - x2)"
    and "f \<equiv> z1 * 2 * z2 - t1 * 2 * ED_D * t2" and "g \<equiv> z1 * 2 * z2 + t1 * 2 * ED_D * t2"
  shows "pointAdd p q = ((e * f) mod ED_P, (g * h) mod ED_P, (f * g) mod ED_P, (e * h) mod ED_P)"
  by (simp add: pointAdd_def assms(1,2) Let_def modP_mod e_def f_def g_def h_def)
    (intro conjI mod_mult_cong mod_diff_cong mod_add_cong; simp)

lemma mod_eq_iff_diff: "a mod ED_P = b mod ED_P \<longleftrightarrow> (a - b) mod ED_P = 0"
  by (simp add: mod_eq_dvd_iff mod_eq_0_iff_dvd)

lemma on_curve_mods:
  assumes "(y * y - x * x) mod ED_P = (z * z + ED_D * t * t) mod ED_P" "(x * y) mod ED_P = (z * t) mod ED_P"
  shows "on_curve (x mod ED_P, y mod ED_P, z mod ED_P, t mod ED_P)"
proof -
  have "(y mod ED_P * (y mod ED_P) - x mod ED_P * (x mod ED_P)) mod ED_P = (y * y - x * x) mod ED_P"
    "(z mod ED_P * (z mod ED_P) + ED_D * (t mod ED_P) * (t mod ED_P)) mod ED_P = (z * z + ED_D * t * t) mod ED_P"
    by (intro mod_mult_cong mod_diff_cong mod_add_cong; simp)+
  with assms show ?thesis
    by (simp add: on_curve_def mod_simps)
qed

lemma pointAdd_on_curve:
  assumes "on_curve p" "on_curve q"
  shows "on_curve (pointAdd p q)"
proof -
  obtain x1 y1 z1 t1 x2 y2 z2 t2 where pq: "p = (x1, y1, z1, t1)" "q = (x2, y2, z2, t2)"
    by (metis prod_cases4)
  let ?e = "(y1 + x1) * (y2 + x2) - (y1 - x1) * (y2 - x2)" and ?h = "(y1 + x1) * (y2 + x2) + (y1 - x1) * (y2 - x2)"
  let ?f = "z1 * 2 * z2 - t1 * 2 * ED_D * t2" and ?g = "z1 * 2 * z2 + t1 * 2 * ED_D * t2"
  have "((?g * ?h) * (?g * ?h) - (?e * ?f) * (?e * ?f)) mod ED_P = ((?f * ?g) * (?f * ?g) + ED_D * (?e * ?h) * (?e * ?h)) mod ED_P"
    unfolding mod_eq_iff_diff by (rule curve_sum) (use assms pq in \<open>simp_all add: on_curve_def\<close>)
  moreover have "(?e * ?f) * (?g * ?h) = (?f * ?g) * (?e * ?h)"
    by algebra
  ultimately show ?thesis
    unfolding pointAdd_formulas [OF pq] by (intro on_curve_mods) (simp_all only:)
qed

lemma pointMul_on_curve: "on_curve p \<Longrightarrow> on_curve (pointMul s p)"
proof -
  have "on_curve r \<Longrightarrow> on_curve a \<Longrightarrow> on_curve (pointMul_loop s r a)" for r a
  proof (induction s r a rule: pointMul_loop.induct)
    case (1 s r a)
    then show ?case
      by (subst pointMul_loop.simps) (simp add: pointAdd_on_curve)
  qed
  moreover have "on_curve IDENTITY"
    by (simp add: on_curve_def IDENTITY_def)
  ultimately show "on_curve p \<Longrightarrow> on_curve (pointMul s p)"
    by (simp add: pointMul_def)
qed

text \<open>
  \<open>(X, Y, Z, T)\<close> stands for \<open>x = X / Z\<close> and \<open>y = Y / Z\<close>. The sum of \<open>(x1, y1)\<close> and \<open>(x2, y2)\<close> on the curve is
  \<open>(x1 y2 + y1 x2) / (1 + ED_D x1 x2 y1 y2)\<close> and \<open>(y1 y2 + x1 x2) / (1 - ED_D x1 x2 y1 y2)\<close>.
\<close>

definition stands_for :: "point \<Rightarrow> int \<Rightarrow> int \<Rightarrow> bool" where
  "stands_for p x y \<longleftrightarrow>
     (let (X, Y, Z, T) = p in X mod ED_P = x * Z mod ED_P \<and> Y mod ED_P = y * Z mod ED_P \<and> T mod ED_P = x * y * Z mod ED_P)"

lemma pointAdd_law:
  assumes "stands_for p x1 y1" "stands_for q x2 y2" "pointAdd p q = (X, Y, Z, T)"
  shows "X * (1 + ED_D * x1 * x2 * y1 * y2) mod ED_P = (x1 * y2 + y1 * x2) * Z mod ED_P \<and>
    Y * (1 - ED_D * x1 * x2 * y1 * y2) mod ED_P = (y1 * y2 + x1 * x2) * Z mod ED_P"
proof -
  obtain X1 Y1 Z1 T1 X2 Y2 Z2 T2 where pq: "p = (X1, Y1, Z1, T1)" "q = (X2, Y2, Z2, T2)"
    by (metis prod_cases4)
  let ?w = "ED_D * x1 * x2 * y1 * y2"
  have c: "X1 mod ED_P = (x1 * Z1) mod ED_P" "Y1 mod ED_P = (y1 * Z1) mod ED_P" "T1 mod ED_P = (x1 * y1 * Z1) mod ED_P"
    "X2 mod ED_P = (x2 * Z2) mod ED_P" "Y2 mod ED_P = (y2 * Z2) mod ED_P" "T2 mod ED_P = (x2 * y2 * Z2) mod ED_P"
    using assms(1,2) pq by (simp_all add: stands_for_def)
  define e f g h where "e = (Y1 + X1) * (Y2 + X2) - (Y1 - X1) * (Y2 - X2)" and "f = Z1 * 2 * Z2 - T1 * 2 * ED_D * T2"
    and "g = Z1 * 2 * Z2 + T1 * 2 * ED_D * T2" and "h = (Y1 + X1) * (Y2 + X2) + (Y1 - X1) * (Y2 - X2)"
  have "e mod ED_P = ((y1 * Z1 + x1 * Z1) * (y2 * Z2 + x2 * Z2) - (y1 * Z1 - x1 * Z1) * (y2 * Z2 - x2 * Z2)) mod ED_P"
    unfolding e_def by (rule mod_diff_cong; rule mod_mult_cong; (rule mod_add_cong | rule mod_diff_cong); rule c)
  then have e: "e mod ED_P = (2 * Z1 * Z2 * (x1 * y2 + y1 * x2)) mod ED_P"
    by (simp add: algebra_simps)
  have "h mod ED_P = ((y1 * Z1 + x1 * Z1) * (y2 * Z2 + x2 * Z2) + (y1 * Z1 - x1 * Z1) * (y2 * Z2 - x2 * Z2)) mod ED_P"
    unfolding h_def by (rule mod_add_cong; rule mod_mult_cong; (rule mod_add_cong | rule mod_diff_cong); rule c)
  then have h: "h mod ED_P = (2 * Z1 * Z2 * (y1 * y2 + x1 * x2)) mod ED_P"
    by (simp add: algebra_simps)
  have t: "(T1 * 2 * ED_D * T2) mod ED_P = (x1 * y1 * Z1 * 2 * ED_D * (x2 * y2 * Z2)) mod ED_P"
    by (intro mod_mult_cong refl c)
  have "f mod ED_P = (Z1 * 2 * Z2 - x1 * y1 * Z1 * 2 * ED_D * (x2 * y2 * Z2)) mod ED_P"
    unfolding f_def by (rule mod_diff_cong [OF refl t])
  then have f: "f mod ED_P = (2 * Z1 * Z2 * (1 - ?w)) mod ED_P"
    by (simp add: algebra_simps)
  have "g mod ED_P = (Z1 * 2 * Z2 + x1 * y1 * Z1 * 2 * ED_D * (x2 * y2 * Z2)) mod ED_P"
    unfolding g_def by (rule mod_add_cong [OF refl t])
  then have g: "g mod ED_P = (2 * Z1 * Z2 * (1 + ?w)) mod ED_P"
    by (simp add: algebra_simps)
  have XYZ: "X mod ED_P = (e * f) mod ED_P" "Y mod ED_P = (g * h) mod ED_P" "Z mod ED_P = (f * g) mod ED_P"
    using assms(3) unfolding pointAdd_formulas [OF pq] e_def f_def g_def h_def by auto
  have "X * (1 + ?w) mod ED_P = (e * f) * (1 + ?w) mod ED_P" "Y * (1 - ?w) mod ED_P = (g * h) * (1 - ?w) mod ED_P"
    by (intro mod_mult_cong XYZ refl)+
  moreover have "(e * f) * (1 + ?w) mod ED_P = (2 * Z1 * Z2 * (x1 * y2 + y1 * x2) * f) * (1 + ?w) mod ED_P"
    "(g * h) * (1 - ?w) mod ED_P = (g * (2 * Z1 * Z2 * (y1 * y2 + x1 * x2))) * (1 - ?w) mod ED_P"
    by (intro mod_mult_cong e h refl)+
  moreover have "(x1 * y2 + y1 * x2) * Z mod ED_P = (x1 * y2 + y1 * x2) * (f * (2 * Z1 * Z2 * (1 + ?w))) mod ED_P"
    using XYZ(3) g by (intro mod_mult_cong refl) (metis mod_mult_right_eq)
  moreover have "(y1 * y2 + x1 * x2) * Z mod ED_P = (y1 * y2 + x1 * x2) * ((2 * Z1 * Z2 * (1 - ?w)) * g) mod ED_P"
    using XYZ(3) f by (intro mod_mult_cong refl) (metis mod_mult_left_eq)
  moreover have "(2 * Z1 * Z2 * (x1 * y2 + y1 * x2) * f) * (1 + ?w) = (x1 * y2 + y1 * x2) * (f * (2 * Z1 * Z2 * (1 + ?w)))"
    "(g * (2 * Z1 * Z2 * (y1 * y2 + x1 * x2))) * (1 - ?w) = (y1 * y2 + x1 * x2) * ((2 * Z1 * Z2 * (1 - ?w)) * g)"
    by algebra+
  ultimately show ?thesis
    by (simp only:)
qed

section \<open>Bytes\<close>

lemma length_big_bytes [simp]: "length (big_bytes n v) = n"
  by (induction n arbitrary: v) simp_all

lemma big_bytes_value: "0 \<le> v \<Longrightarrow> v < 256 ^ n \<Longrightarrow> bytesToBigIntLE (big_bytes n v) = v"
proof (induction n arbitrary: v)
  case (Suc n)
  then have "v div 256 < 256 ^ n" "0 \<le> v div 256"
    by (simp_all add: div_less_iff_less_mult)
  moreover have "uint (word_of_int (v mod 256) :: byte) = v mod 256"
    by (simp add: uint_word_of_int)
  ultimately show ?case
    using Suc.IH [of "v div 256"] by (simp add: bytesToBigIntLE_def)
qed (simp add: bytesToBigIntLE_def)

lemma length_encodePoint [simp]: "length (encodePoint p) = 32"
  by (simp add: encodePoint_def bigIntToBytes32LE_def Let_def split: prod.splits)

text \<open>A signature has 64 bytes, and its number is reduced, so that \<open>ed25519Verify()\<close> and the servers do not refuse it for its form.\<close>

lemma signature_form:
  "length (ed25519Sign sha512 seed message) = 64 \<and> bytesToBigIntLE (drop 32 (ed25519Sign sha512 seed message)) < ED_L \<and>
   (\<exists>r. take 32 (ed25519Sign sha512 seed message) = encodePoint (pointMul r BASE))"
proof -
  have "0 \<le> modL v" "modL v < ED_L" "modL v < 256 ^ 32" for v
    using pos_mod_bound [OF ED_L_pos, of v] ED_L_pos by (simp_all add: modL_mod ED_L_def)
  then have "bytesToBigIntLE (bigIntToBytes32LE (modL v)) < ED_L" for v
    by (simp add: bigIntToBytes32LE_def big_bytes_value)
  moreover have "length (bigIntToBytes32LE v) = 32" for v
    by (simp add: bigIntToBytes32LE_def)
  ultimately show ?thesis
    by (auto simp: ed25519Sign_def Let_def split: prod.splits)
qed

end
