(* ===== verification/Auth.thy ===== *)
theory Auth
  imports Dsn Ed25519 Utf8
begin

text \<open>
  The authentication plugins of \<open>src/private/auth_plugins.ts\<close>: what each answers to the challenge of the server, and to the packets that
  follow. The digests, RSA and PBKDF2 of \<open>crypto.subtle\<close> and the random bytes are parameters. The main lemma is that a
  connection that can be eavesdropped carries the password only through them.
\<close>

section \<open>Cryptography of the runtime\<close>

text \<open>
  \<open>k_rsa key data\<close> imports the key (base64 of its DER form) and encrypts, with the randomness of this connection; both may
  throw. \<open>k_pbkdf2 password salt iterations\<close> are 32 bytes, \<open>k_random\<close> the 32 bytes of the client. \<open>k_decode\<close> is
  \<open>TextDecoder.decode\<close>.
\<close>

record crypto =
  k_sha1 :: "byte list \<Rightarrow> byte list"
  k_sha256 :: "byte list \<Rightarrow> byte list"
  k_sha512 :: "byte list \<Rightarrow> byte list"
  k_rsa :: "jsstr \<Rightarrow> byte list \<Rightarrow> exn + byte list"
  k_pbkdf2 :: "byte list \<Rightarrow> byte list \<Rightarrow> nat \<Rightarrow> byte list"
  k_random :: "byte list"
  k_decode :: "byte list \<Rightarrow> jsstr"

section \<open>Bytes\<close>

definition encodeAppendZeroByte :: "jsstr \<Rightarrow> byte list" where
  "encodeAppendZeroByte str =
     (let data = replicate (length str * 4 + 1) 0; written = snd (encode_into str (length data))
      in take (length written + 1) (arr_set data 0 written))"

text \<open>An index beyond the end of \<open>b\<close> (it is empty) gives \<open>undefined\<close>, which counts as 0.\<close>

definition xor_bytes :: "byte list \<Rightarrow> byte list \<Rightarrow> byte list" where
  "xor_bytes a b = map (\<lambda>i. a ! i XOR (if b = [] then 0 else b ! (i mod length b))) [0..<length a]"

definition encryptPassword :: "crypto \<Rightarrow> jsstr \<Rightarrow> byte list \<Rightarrow> jsstr \<Rightarrow> exn + byte list" where
  "encryptPassword k password scramble publicKeyBase64 =
     k_rsa k publicKeyBase64 (xor_bytes (encodeAppendZeroByte password) scramble)"

section \<open>Plugins\<close>

datatype plugin_kind = MysqlNativePassword | CachingSha2Password | Sha256Password | MysqlClearPassword | ClientEd25519 | Parsec

datatype auth_state = Initial | Encrypt | AuthDone

record auth_plugin =
  a_kind :: plugin_kind
  a_name :: jsstr
  a_scramble :: "byte list"
  a_state :: auth_state

definition plugin_names :: "(jsstr \<times> plugin_kind) list" where
  "plugin_names =
     [(js ''mysql_native_password'', MysqlNativePassword), (js ''caching_sha2_password'', CachingSha2Password),
      (js ''sha256_password'', Sha256Password), (js ''mysql_clear_password'', MysqlClearPassword),
      (js ''client_ed25519'', ClientEd25519), (js ''parsec'', Parsec)]"

definition plugin_inst :: "jsstr \<Rightarrow> byte list \<Rightarrow> exn + auth_plugin" where
  "plugin_inst name scramble =
     (case map_of plugin_names name of
        None \<Rightarrow> Inl (JsError (js ''Authentication plugin is not supported: '' @ name))
      | Some kind \<Rightarrow> Inr \<lparr>a_kind = kind, a_name = name, a_scramble = scramble, a_state = Initial\<rparr>)"

definition isConnectionTrusted :: "dsn \<Rightarrow> bool" where "isConnectionTrusted d \<longleftrightarrow> d_pipe d \<noteq> [] \<or> d_tls d"

text \<open>The first two messages are shortened.\<close>

definition no_public_key :: exn where "no_public_key = JsError (js ''The server requested authentication that requires the server RSA public key, but the connection is not secure'')"
definition no_cleartext :: exn where "no_cleartext = JsError (js ''The server requested authentication that sends the password in clear text, but the connection is not secure'')"
definition wrong_method :: exn where "wrong_method = JsError (js (''Couldn'' @ [CHR 0x27] @ ''t authenticate with this method''))"
definition not_implemented :: exn where "not_implemented = JsError (js ''Not implemented'')"
definition invalid_salt :: exn where "invalid_salt = JsError (js ''Server sent invalid extended salt during parsec authentication'')"
definition many_iterations :: exn where "many_iterations = JsError (js ''Server requested too many PBKDF2 iterations during parsec authentication'')"

definition canGetPublicKey :: "dsn \<Rightarrow> bool" where
  "canGetPublicKey d \<longleftrightarrow> isConnectionTrusted d \<or> d_serverPublicKey d \<noteq> [] \<or> d_allowPublicKeyRetrieval d"

definition REQUEST_PUBLIC_KEY :: byte where "REQUEST_PUBLIC_KEY = 2"
definition REQUEST_PUBLIC_KEY_SHA256 :: byte where "REQUEST_PUBLIC_KEY_SHA256 = 1"
definition FastPath :: byte where "FastPath = 3"
definition FullAuth :: byte where "FullAuth = 4"
definition PARSEC_EXT_SALT_PREFIX :: byte where "PARSEC_EXT_SALT_PREFIX = 0x50"
definition PARSEC_ITER_FACTOR_MAX :: byte where "PARSEC_ITER_FACTOR_MAX = 20"

section \<open>The first answer\<close>

definition native_token :: "crypto \<Rightarrow> jsstr \<Rightarrow> byte list \<Rightarrow> byte list" where
  "native_token k password scramble =
     (let pwd1 = k_sha1 k (utf8_encode password); pwd2 = k_sha1 k pwd1
      in xor_bytes (k_sha1 k (scramble @ pwd2)) pwd1)"

definition sha2_token :: "crypto \<Rightarrow> jsstr \<Rightarrow> byte list \<Rightarrow> byte list" where
  "sha2_token k password scramble =
     (let stage1 = k_sha256 k (utf8_encode password); stage2 = k_sha256 k stage1; stage3 = k_sha256 k (stage2 @ scramble)
      in xor_bytes stage1 stage3)"

definition quick_native :: "crypto \<Rightarrow> jsstr \<Rightarrow> auth_plugin \<Rightarrow> exn + (byte list \<times> auth_plugin)" where
  "quick_native k password a = Inr (if password = [] then [] else native_token k password (a_scramble a), a)"

definition quick_sha2 :: "crypto \<Rightarrow> dsn \<Rightarrow> jsstr \<Rightarrow> auth_plugin \<Rightarrow> exn + (byte list \<times> auth_plugin)" where
  "quick_sha2 k d password a =
     (if password = [] then Inr ([], a)
      else if \<not> canGetPublicKey d then Inl no_public_key
      else Inr (sha2_token k password (a_scramble a), a))"

definition quick_sha256 :: "crypto \<Rightarrow> dsn \<Rightarrow> jsstr \<Rightarrow> auth_plugin \<Rightarrow> exn + (byte list \<times> auth_plugin)" where
  "quick_sha256 k d password a =
     (if password = [] then Inr ([], a\<lparr>a_state := AuthDone\<rparr>)
      else if isConnectionTrusted d then Inr (encodeAppendZeroByte password, a\<lparr>a_state := AuthDone\<rparr>)
      else if d_serverPublicKey d \<noteq> [] then
        map_sum id (\<lambda>data. (data, a\<lparr>a_state := AuthDone\<rparr>)) (encryptPassword k password (a_scramble a) (d_serverPublicKey d))
      else if \<not> d_allowPublicKeyRetrieval d then Inl no_public_key
      else Inr ([REQUEST_PUBLIC_KEY_SHA256], a\<lparr>a_state := Encrypt\<rparr>))"

definition quick_clear :: "dsn \<Rightarrow> jsstr \<Rightarrow> auth_plugin \<Rightarrow> exn + (byte list \<times> auth_plugin)" where
  "quick_clear d password a =
     (if \<not> isConnectionTrusted d \<and> \<not> d_allowCleartextPasswords d then Inl no_cleartext
      else Inr (encodeAppendZeroByte password, a))"

definition quick_ed25519 :: "crypto \<Rightarrow> jsstr \<Rightarrow> auth_plugin \<Rightarrow> exn + (byte list \<times> auth_plugin)" where
  "quick_ed25519 k password a = Inr (ed25519Sign (k_sha512 k) (utf8_encode password) (take 32 (a_scramble a)), a)"

definition quick_parsec :: "auth_plugin \<Rightarrow> exn + (byte list \<times> auth_plugin)" where "quick_parsec a = Inr ([], a)"

definition quickAuth :: "crypto \<Rightarrow> dsn \<Rightarrow> jsstr \<Rightarrow> auth_plugin \<Rightarrow> exn + (byte list \<times> auth_plugin)" where
  "quickAuth k d password a =
     (case a_kind a of
        MysqlNativePassword \<Rightarrow> quick_native k password a
      | CachingSha2Password \<Rightarrow> quick_sha2 k d password a
      | Sha256Password \<Rightarrow> quick_sha256 k d password a
      | MysqlClearPassword \<Rightarrow> quick_clear d password a
      | ClientEd25519 \<Rightarrow> quick_ed25519 k password a
      | Parsec \<Rightarrow> quick_parsec a)"

lemmas quick_defs = quickAuth_def quick_native_def quick_sha2_def quick_sha256_def quick_clear_def quick_ed25519_def quick_parsec_def

section \<open>The packets that follow\<close>

text \<open>What a call of \<open>progress()\<close> sends, if it sends something, whether it is done, and the plugin then.\<close>

type_synonym auth_step = "byte list option \<times> bool \<times> auth_plugin"

definition send_encrypted :: "crypto \<Rightarrow> jsstr \<Rightarrow> jsstr \<Rightarrow> auth_plugin \<Rightarrow> exn + auth_step" where
  "send_encrypted k password key a =
     map_sum id (\<lambda>data. (Some data, False, a\<lparr>a_state := AuthDone\<rparr>)) (encryptPassword k password (a_scramble a) key)"

definition progress_sha2 :: "crypto \<Rightarrow> dsn \<Rightarrow> jsstr \<Rightarrow> byte list \<Rightarrow> auth_plugin \<Rightarrow> exn + auth_step" where
  "progress_sha2 k d password packetData a =
     (case a_state a of
        Initial \<Rightarrow>
          if packetData \<noteq> [] \<and> hd packetData = FastPath then Inr (None, False, a\<lparr>a_state := AuthDone\<rparr>)
          else if packetData \<noteq> [] \<and> hd packetData = FullAuth then
            (if isConnectionTrusted d then Inr (Some (encodeAppendZeroByte password), False, a\<lparr>a_state := AuthDone\<rparr>)
             else if d_serverPublicKey d \<noteq> [] then send_encrypted k password (d_serverPublicKey d) a
             else if \<not> canGetPublicKey d then Inl no_public_key
             else Inr (Some [REQUEST_PUBLIC_KEY], False, a\<lparr>a_state := Encrypt\<rparr>))
          else Inl wrong_method
      | Encrypt \<Rightarrow> send_encrypted k password (publicKeyExtractBase64 (k_decode k packetData)) a
      | AuthDone \<Rightarrow> Inr (None, True, a))"

definition progress_sha256 :: "crypto \<Rightarrow> jsstr \<Rightarrow> byte list \<Rightarrow> auth_plugin \<Rightarrow> exn + auth_step" where
  "progress_sha256 k password packetData a =
     (case a_state a of
        Encrypt \<Rightarrow> send_encrypted k password (publicKeyExtractBase64 (k_decode k packetData)) a
      | AuthDone \<Rightarrow> Inr (None, True, a)
      | Initial \<Rightarrow> Inl wrong_method)"

text \<open>The message has 64 bytes and the response 96, whatever the lengths of the scramble and the signature are.\<close>

definition parsec_response :: "crypto \<Rightarrow> jsstr \<Rightarrow> byte list \<Rightarrow> byte list \<Rightarrow> nat \<Rightarrow> byte list" where
  "parsec_response k password scramble salt iterations =
     (let seed = k_pbkdf2 k (utf8_encode password) salt iterations;
          message = arr_set (arr_set (replicate 64 0) 0 (take 32 scramble)) 32 (k_random k);
          signature = ed25519Sign (k_sha512 k) seed message
      in arr_set (arr_set (replicate 96 0) 0 (k_random k)) 32 signature)"

definition progress_parsec :: "crypto \<Rightarrow> jsstr \<Rightarrow> byte list \<Rightarrow> auth_plugin \<Rightarrow> exn + auth_step" where
  "progress_parsec k password packetData a =
     (case a_state a of
        Initial \<Rightarrow>
          if length packetData < 3 \<or> packetData ! 0 \<noteq> PARSEC_EXT_SALT_PREFIX then Inl invalid_salt
          else if PARSEC_ITER_FACTOR_MAX < packetData ! 1 then Inl many_iterations
          else Inr (Some (parsec_response k password (a_scramble a) (drop 2 packetData) (1024 * 2 ^ unat (packetData ! 1))),
                    False, a\<lparr>a_state := AuthDone\<rparr>)
      | AuthDone \<Rightarrow> Inr (None, True, a)
      | Encrypt \<Rightarrow> Inl wrong_method)"

definition progress :: "crypto \<Rightarrow> dsn \<Rightarrow> jsstr \<Rightarrow> byte list \<Rightarrow> auth_plugin \<Rightarrow> exn + auth_step" where
  "progress k d password packetData a =
     (case a_kind a of
        CachingSha2Password \<Rightarrow> progress_sha2 k d password packetData a
      | Sha256Password \<Rightarrow> progress_sha256 k password packetData a
      | Parsec \<Rightarrow> progress_parsec k password packetData a
      | _ \<Rightarrow> Inl not_implemented)"

section \<open>Secrecy\<close>

text \<open>The clear text is exactly the bytes of the password with a zero byte.\<close>

lemma encodeAppendZeroByte_eq: "encodeAppendZeroByte p = utf8_encode p @ [0]"
proof -
  have fits: "length (utf8_encode p) \<le> 4 * length p"
    using utf8StringLength_le [of p] by (simp add: utf8StringLength_eq)
  then have "encode_into p (length p * 4 + 1) = (length p, utf8_encode p)"
    by (intro encode_into_all) simp
  then show ?thesis
    using fits by (simp add: encodeAppendZeroByte_def arr_set_def drop_replicate Let_def Suc_diff_le del: replicate_Suc)
       (simp add: Suc_diff_le)
qed

text \<open>
  Two passwords that the cryptography of the runtime does not tell apart, and nothing else is assumed of it: they have the same
  digests and the same derived keys, and an encryption shows neither of two messages that are as long as these passwords with
  their zero bytes.
\<close>

definition hides :: "crypto \<Rightarrow> jsstr \<Rightarrow> jsstr \<Rightarrow> bool" where
  "hides k p p' \<longleftrightarrow>
     k_sha1 k (utf8_encode p) = k_sha1 k (utf8_encode p') \<and> k_sha256 k (utf8_encode p) = k_sha256 k (utf8_encode p') \<and>
     k_sha512 k (utf8_encode p) = k_sha512 k (utf8_encode p') \<and>
     (\<forall>key m m'. length m = length (utf8_encode p) + 1 \<and> length m' = length (utf8_encode p') + 1 \<longrightarrow> k_rsa k key m = k_rsa k key m') \<and>
     (\<forall>salt n. k_pbkdf2 k (utf8_encode p) salt n = k_pbkdf2 k (utf8_encode p') salt n)"

text \<open>What the code makes of it: the RSA packet and the signature.\<close>

lemma encryptPassword_hides: "hides k p p' \<Longrightarrow> encryptPassword k p scramble key = encryptPassword k p' scramble key"
  unfolding encryptPassword_def by (auto simp: hides_def xor_bytes_def encodeAppendZeroByte_eq)

lemma ed25519Sign_hides:
  "hides k p p' \<Longrightarrow> ed25519Sign (k_sha512 k) (utf8_encode p) message = ed25519Sign (k_sha512 k) (utf8_encode p') message"
  by (simp add: hides_def ed25519Sign_def expandSeed_def)

text \<open>A connection that can be eavesdropped, with clear text not allowed.\<close>

definition guarded :: "dsn \<Rightarrow> bool" where
  "guarded d \<longleftrightarrow> \<not> isConnectionTrusted d \<and> \<not> d_allowCleartextPasswords d"

lemma quickAuth_hides:
  assumes "hides k p p'" "guarded d" "p \<noteq> []" "p' \<noteq> []"
  shows "quickAuth k d p a = quickAuth k d p' a"
  using assms encryptPassword_hides [OF assms(1)] ed25519Sign_hides [OF assms(1)]
  by (cases "a_kind a") (simp_all add: quick_defs hides_def guarded_def native_token_def sha2_token_def)

lemma progress_hides:
  assumes "hides k p p'" "guarded d"
  shows "progress k d p data a = progress k d p' data a"
  using assms encryptPassword_hides [OF assms(1)]
  by (cases "a_kind a"; cases "a_state a")
    (simp_all add: progress_def progress_sha2_def progress_sha256_def progress_parsec_def parsec_response_def send_encrypted_def
      hides_def guarded_def)

text \<open>
  The salt of \<open>parsec\<close> comes through \<open>readShortEofBytes()\<close>, which takes a zero byte at the end for a terminator: the key is then derived
  from a salt that is one byte shorter than the one of the server.
\<close>

definition drop_nul :: "byte list \<Rightarrow> byte list" where
  "drop_nul bytes = (if bytes \<noteq> [] \<and> last bytes = 0 then butlast bytes else bytes)"

lemma parsec_salt_cut:
  assumes "a_kind a = Parsec" "a_state a = Initial" "f \<le> PARSEC_ITER_FACTOR_MAX" "salt \<noteq> []"
  shows "progress k d p (drop_nul (PARSEC_EXT_SALT_PREFIX # f # salt @ [0])) a =
    Inr (Some (parsec_response k p (a_scramble a) salt (1024 * 2 ^ unat f)), False, a\<lparr>a_state := AuthDone\<rparr>)"
  using assms by (cases salt) (simp_all add: progress_def progress_parsec_def drop_nul_def butlast_append not_less)
end
