(* ===== verification/Handshake.thy ===== *)
theory Handshake
  imports Auth Commands
begin

text \<open>
  The beginning of a connection in \<open>src/private/my_protocol.ts\<close>: \<open>inst()\<close> with the handshake of the server, the negotiation of capabilities,
  TLS, the response with the first answer of the authentication plugin, the exchange that follows, the compressed protocol, and
  what is done for connections that were cut off before (\<open>#clearDisconnected()\<close>).
\<close>

section \<open>Environment\<close>

text \<open>
  \<open>Deno.connect()\<close> and \<open>Deno.startTls()\<close> give the bytes that the server will send, in chunks, or throw. \<open>h_zstd\<close> is
  \<open>isZstdSupported()\<close>.
\<close>

record connect_env =
  h_penv :: penv
  h_crypto :: crypto
  h_connect :: "jsstr + (jsstr \<times> number) \<Rightarrow> exn + byte list list"
  h_startTls :: "jsstr \<Rightarrow> jsstr list \<Rightarrow> exn + byte list list"
  h_zstd :: bool

text \<open>A connection that was cut off, with the transaction to roll back and the query to kill (0 is none).\<close>

record disconnected_info =
  i_dsn :: dsn
  i_rollback :: jsstr
  i_kill :: nat

section \<open>The new object\<close>

definition DEFAULT_MAX_COLUMN_LEN :: int where "DEFAULT_MAX_COLUMN_LEN = 10 * 1024 * 1024"

definition number_above :: "rat \<Rightarrow> number \<Rightarrow> bool" where
  "number_above a x = (case x of NaN \<Rightarrow> False | Infinite negative \<Rightarrow> \<not> negative | Finite q \<Rightarrow> a < q)"

text \<open>A finite number for a length or a count; an infinite one is larger than anything that it is compared with.\<close>

definition number_int :: "number \<Rightarrow> int" where
  "number_int x = (case x of Finite q \<Rightarrow> \<lfloor>q\<rfloor> | _ \<Rightarrow> 2 ^ 64)"

definition proto_dsn_of :: "dsn \<Rightarrow> proto_dsn" where
  "proto_dsn_of d =
     \<lparr>n_schema = d_schema d, n_initSql = d_initSql d, n_retryLockWaitTimeout = d_retryLockWaitTimeout d,
      n_jsonAsString = d_jsonAsString d, n_datesAsString = d_datesAsString d, n_correctDates = d_correctDates d\<rparr>"

definition new_protocol :: "penv \<Rightarrow> dsn \<Rightarrow> byte list list \<Rightarrow> byte list option \<Rightarrow> proto" where
  "new_protocol h d chunks useBuffer =
     \<lparr>r_src = new_conn chunks, r_buffer = (case useBuffer of Some b \<Rightarrow> b | None \<Rightarrow> replicate BUFFER_LEN 0),
      r_bufferStart = 0, r_bufferEnd = 0, r_sequenceId = 0, r_payloadLength = 0, r_packetOffset = 0, r_totalBytesInPacket = 0,
      r_decoder = e_textDecoder h (js ''utf-8''), w_sent = [], w_fail = None, w_commandStarts = [], w_zstdLevel = 3,
      p_dsn = proto_dsn_of d, p_serverVersion = [], p_connectionId = 0, p_capabilityFlags = 0, p_statusFlags = 0, p_schema = [],
      p_mariadbFlags = 0, p_warnings = 0, p_affectedRows = 0, p_lastInsertId = 0, p_statusInfo = [], p_timezone = None,
      p_state = IDLE,
      p_maxColumnLen = (if number_above 0 (d_maxColumnLen d) then number_int (d_maxColumnLen d) else DEFAULT_MAX_COLUMN_LEN),
      p_retryQueryTimes = (if at_least_0 (d_retryQueryTimes d) then nat (number_int (d_retryQueryTimes d)) else 0),
      p_curMultiStatements =
        (if d_multiStatements d then NO_MATTER else if d_initSql d \<noteq> [] then MULTI_STATEMENTS_ON else MULTI_STATEMENTS_OFF),
      p_resultsets = [], p_curResultsets = None, p_pendingCloseStmts = [], p_pendingChangeSchema = [], p_lastColumn = None,
      p_onEndSession = None, p_closed = 0\<rparr>"

section \<open>The handshake of the server\<close>

text \<open>The second part of the challenge, without the zero byte at its end.\<close>

definition cut_nul :: "byte list \<Rightarrow> byte list" where
  "cut_nul bytes = (if bytes \<noteq> [] \<and> last bytes = 0 then butlast bytes else bytes)"

record handshake =
  k_capabilityFlags :: int
  k_mariadbFlags :: int
  k_statusFlags :: int
  k_pluginData :: "byte list"
  k_pluginName :: jsstr

definition read_handshake_more :: "penv \<Rightarrow> int \<Rightarrow> byte list \<Rightarrow> handshake pl" where
  "read_handshake_more h capabilityFlags data =
     bindL (get_u8 h) (\<lambda>_. bindL (get_u16 h) (\<lambda>statusFlags. bindL (get_u16 h) (\<lambda>upper.
       let caps = capabilityFlags OR upper * 65536
       in bindL (if flag caps CLIENT_PLUGIN_AUTH then get_u8 h else bindL (skip_bytes h 1) (\<lambda>_. retL 0)) (\<lambda>dataLen.
          bindL (skip_bytes h 6) (\<lambda>_.
          bindL (if flag caps CLIENT_MYSQL then bindL (skip_bytes h 4) (\<lambda>_. retL 0) else get_u32 h) (\<lambda>mariadb.
          bindL (if flag caps CLIENT_SECURE_CONNECTION then
                   bindL (get_bytes h (max 13 (dataLen - 8))) (\<lambda>data2. retL (data @ cut_nul data2))
                 else retL data) (\<lambda>data.
          bindL (if flag caps CLIENT_PLUGIN_AUTH then get_nul_string h else retL []) (\<lambda>name.
            retL \<lparr>k_capabilityFlags = caps, k_mariadbFlags = mariadb, k_statusFlags = statusFlags, k_pluginData = data,
                  k_pluginName = name\<rparr>))))))))"

definition read_handshake_body :: "penv \<Rightarrow> int \<Rightarrow> handshake pl" where
  "read_handshake_body h protocolVersion =
     (let none = (\<lambda>caps data. \<lparr>k_capabilityFlags = caps, k_mariadbFlags = 0, k_statusFlags = 0, k_pluginData = data, k_pluginName = []\<rparr>)
      in if protocolVersion = 9 then bindL (get_nul_bytes h) (\<lambda>data. retL (none 0 data))
         else
           bindL (get_bytes h 8) (\<lambda>data. bindL (skip_bytes h 1) (\<lambda>_. bindL (get_u16 h) (\<lambda>caps.
           bindL (getL isAtEndOfPacket) (\<lambda>atEnd. if atEnd then retL (none caps data) else read_handshake_more h caps data)))))"

definition readHandshake :: "penv \<Rightarrow> auth_plugin pl" where
  "readHandshake h =
     bindL (get_header h) (\<lambda>_. bindL (get_u8 h) (\<lambda>protocolVersion.
       if protocolVersion = 255 then
         bindL (get_u16 h) (\<lambda>errorCode. bindL (get_eof_string h) (\<lambda>errorMessage.
           throwL (ServerDisconnectedError errorMessage (nat errorCode))))
       else if protocolVersion < 9 then
         throwL (JsError (js ''Protocol version '' @ js (show_nat (nat protocolVersion)) @ js '' is not supported''))
       else
         bindL (get_nul_string h) (\<lambda>serverVersion. bindL (get_u32 h) (\<lambda>connectionId.
         bindL (read_handshake_body h protocolVersion) (\<lambda>k. bindL (goto_end h) (\<lambda>_.
         bindL (setL (\<lambda>r. r\<lparr>p_serverVersion := serverVersion, p_connectionId := connectionId,
                            p_capabilityFlags := k_capabilityFlags k, p_mariadbFlags := k_mariadbFlags k,
                            p_statusFlags := k_statusFlags k\<rparr>)) (\<lambda>_.
           case plugin_inst (k_pluginName k) (k_pluginData k) of Inl e \<Rightarrow> throwL e | Inr a \<Rightarrow> retL a)))))))"

section \<open>Capabilities\<close>

definition zstd_missing :: exn where
  "zstd_missing = js_error ''The compress DSN parameter requires zstd in node:zlib, that this runtime does not have''"

text \<open>The flag to ask for, and the level of zstd when the DSN has one.\<close>

definition compress_flags :: "bool \<Rightarrow> dsn_compress \<Rightarrow> int \<Rightarrow> exn + (int \<times> nat option)" where
  "compress_flags zstd compress caps =
     (let wantZlib = (compress = AnyCompression \<or> compress = ZlibOnly); zlib = (if wantZlib then CLIENT_COMPRESS else 0);
          level = (case compress of ZstdLevel n \<Rightarrow> Some n | _ \<Rightarrow> None)
      in if compress = Uncompressed then Inr (0, None)
         else if compress = ZlibOnly then Inr (CLIENT_COMPRESS, None)
         else if \<not> zstd then (if wantZlib then Inr (zlib, None) else Inl zstd_missing)
         else if flag caps CLIENT_ZSTD_COMPRESSION_ALGORITHM then Inr (CLIENT_ZSTD_COMPRESSION_ALGORITHM, level)
         else Inr (zlib, None))"

text \<open>What the client supports, with what the application asks for.\<close>

definition client_flags :: "int \<Rightarrow> bool \<Rightarrow> bool \<Rightarrow> dsn \<Rightarrow> bool \<Rightarrow> int" where
  "client_flags compressFlags localFiles hasSchema d useTls =
     compressFlags OR CLIENT_PLUGIN_AUTH OR CLIENT_LONG_PASSWORD OR CLIENT_TRANSACTIONS OR CLIENT_MULTI_RESULTS OR
     CLIENT_PS_MULTI_RESULTS OR CLIENT_SECURE_CONNECTION OR CLIENT_PROTOCOL_41 OR CLIENT_LONG_FLAG OR
     CLIENT_PLUGIN_AUTH_LENENC_CLIENT_DATA OR CLIENT_DEPRECATE_EOF OR CLIENT_SESSION_TRACK OR
     (if localFiles then CLIENT_LOCAL_FILES else 0) OR
     (if hasSchema then CLIENT_CONNECT_WITH_DB else 0) OR
     (if d_foundRows d then CLIENT_FOUND_ROWS else 0) OR
     (if d_ignoreSpace d then CLIENT_IGNORE_SPACE else 0) OR
     (if d_multiStatements d \<or> d_initSql d \<noteq> [] then CLIENT_MULTI_STATEMENTS else 0) OR
     (if useTls then CLIENT_SSL else 0)"

definition applyClientCapabilities :: "connect_env \<Rightarrow> jsstr \<Rightarrow> dsn \<Rightarrow> bool \<Rightarrow> unit pl" where
  "applyClientCapabilities e schema d useTls =
     bindL (getL p_capabilityFlags) (\<lambda>caps.
       case compress_flags (h_zstd e) (d_compress d) caps of
         Inl ex \<Rightarrow> throwL ex
       | Inr (compressFlags, level) \<Rightarrow>
           setL (\<lambda>r.
             let caps = caps AND client_flags compressFlags (e_onLoadFile (h_penv e) \<noteq> None) (schema \<noteq> []) d useTls
             in r\<lparr>w_zstdLevel := (case level of None \<Rightarrow> w_zstdLevel r | Some n \<Rightarrow> n), p_capabilityFlags := caps,
                  p_schema := (if flag caps CLIENT_SESSION_TRACK then schema else p_schema r),
                  p_mariadbFlags := p_mariadbFlags r AND MARIADB_CLIENT_EXTENDED_METADATA\<rparr>))"
section \<open>Writing\<close>

definition in_order :: "unit pm list \<Rightarrow> unit pm" where
  "in_order ms = foldr (\<lambda>m rest. bindM m (\<lambda>_. rest)) ms (ret ())"

text \<open>What the request for TLS and the response have in common: flags, packet size, character set and the flags of MariaDB.\<close>

definition capability_fields :: "proto \<Rightarrow> unit pm" where
  "capability_fields r =
     in_order
       [writeUint32 (p_capabilityFlags r), writeUint32 0xFFFFFF, writeUint8 DEFAULT_CHARACTER_SET_CLIENT, modifyM (writeZero 19),
        writeUint32 (p_mariadbFlags r)]"

definition no_tls :: exn where
  "no_tls = js_error ''Server does not support TLS. If you want to connect through unencrypted connection, remove the tls parameter from the DSN''"

definition upgradeToTls :: "connect_env \<Rightarrow> dsn \<Rightarrow> unit pl" where
  "upgradeToTls e d =
     bindL (getL id) (\<lambda>r.
       if \<not> has_cap r CLIENT_SSL \<or> \<not> has_cap r CLIENT_PROTOCOL_41 then throwL no_tls
       else
         bindL (total_of (in_order [startWritingNewPacket False, capability_fields r, send (e_cz (h_penv e))])) (\<lambda>_.
           case h_startTls e (if d_tlsHostname d \<noteq> [] then d_tlsHostname d else d_hostname d)
                  (if d_tlsCaCert d \<noteq> [] then [d_tlsCaCert d] else []) of
             Inl ex \<Rightarrow> throwL ex
           | Inr chunks \<Rightarrow> setL (\<lambda>r. r\<lparr>r_src := new_conn chunks\<rparr>)))"

definition enableCompression :: "proto \<Rightarrow> proto" where
  "enableCompression r =
     r\<lparr>r_src := (r_src r)\<lparr>c_compression := (if has_cap r CLIENT_ZSTD_COMPRESSION_ALGORITHM then ZSTD else ZLIB),
                           c_compressedSeqId := 0\<rparr>\<rparr>"

text \<open>\<open>await authPlugin.quickAuth(password)\<close>: the answer and the plugin.\<close>

definition first_answer :: "connect_env \<Rightarrow> dsn \<Rightarrow> auth_plugin \<Rightarrow> (byte list \<times> auth_plugin) pl" where
  "first_answer e d a = (case quickAuth (h_crypto e) d (d_password d) a of Inl ex \<Rightarrow> throwL ex | Inr x \<Rightarrow> retL x)"

text \<open>The fields behind the user name in both versions of the response.\<close>

definition response41_fields :: "proto \<Rightarrow> jsstr \<Rightarrow> auth_plugin \<Rightarrow> byte list \<Rightarrow> unit pm" where
  "response41_fields r schema a auth =
     in_order
       [if has_cap r CLIENT_PLUGIN_AUTH_LENENC_CLIENT_DATA then in_order [writeLenencInt (int (length auth)), writeShortBytes auth]
        else if has_cap r CLIENT_SECURE_CONNECTION then in_order [writeUint8 (int (length auth)), writeShortBytes auth]
        else writeShortNulBytes auth,
        if has_cap r CLIENT_CONNECT_WITH_DB then writeShortNulString schema else ret (),
        if has_cap r CLIENT_PLUGIN_AUTH then writeShortNulString (a_name a) else ret (),
        if has_cap r CLIENT_ZSTD_COMPRESSION_ALGORITHM then writeUint8 (int (w_zstdLevel r)) else ret ()]"

definition response320_fields :: "proto \<Rightarrow> jsstr \<Rightarrow> byte list \<Rightarrow> unit pm" where
  "response320_fields r schema auth =
     (if has_cap r CLIENT_CONNECT_WITH_DB then in_order [writeShortNulBytes auth, writeShortNulString schema]
      else writeShortBytes auth)"

definition writeHandshakeResponse :: "connect_env \<Rightarrow> dsn \<Rightarrow> jsstr \<Rightarrow> auth_plugin \<Rightarrow> auth_plugin pl" where
  "writeHandshakeResponse e d schema a =
     bindL (total_of (startWritingNewPacket False)) (\<lambda>_. bindL (getL id) (\<lambda>r.
       let p41 = has_cap r CLIENT_PROTOCOL_41
       in bindL (total_of (in_order
                   [if p41 then capability_fields r else in_order [writeUint16 (p_capabilityFlags r), writeUint32 0xFFFFFF],
                    writeShortNulString (d_username d)])) (\<lambda>_.
          bindL (first_answer e d a) (\<lambda>(auth, a).
          bindL (total_of (in_order
                   [if p41 then response41_fields r schema a auth else response320_fields r schema auth, send (e_cz (h_penv e))]))
            (\<lambda>_. retL a)))))"

definition authSendBytesPacket :: "connect_env \<Rightarrow> byte list \<Rightarrow> unit pl" where
  "authSendBytesPacket e data =
     total_of (in_order [startWritingNewPacket False, writeShortBytes data, send (e_cz (h_penv e))])"

section \<open>The exchange\<close>

text \<open>
  The loop over the packets of the server, with the data of the last one that was not OK; \<open>prog\<close> is \<open>progress()\<close> with the
  password. The request for the public key is a packet of one byte.
\<close>

type_synonym auth_progress = "byte list \<Rightarrow> auth_plugin \<Rightarrow> exn + auth_step"

definition auth_round :: "connect_env \<Rightarrow> auth_progress \<Rightarrow> byte list \<Rightarrow> auth_plugin \<Rightarrow> (byte list \<times> auth_plugin) option pl" where
  "auth_round e prog data a =
     (case prog data a of
        Inl ex \<Rightarrow> throwL ex
      | Inr (answer, done, a) \<Rightarrow>
          bindL (case answer of None \<Rightarrow> retL () | Some bytes \<Rightarrow> authSendBytesPacket e bytes) (\<lambda>_.
            if done then retL None
            else
              bindL (readPacket (h_penv e) REGULAR) (\<lambda>typ.
              bindL (if typ \<noteq> PACKET_OK then get_eof_bytes (h_penv e) else retL data) (\<lambda>data. retL (Some (data, a))))))"

partial_function (option) auth_rounds :: "connect_env \<Rightarrow> auth_progress \<Rightarrow> byte list \<Rightarrow> auth_plugin \<Rightarrow> unit pl" where
  "auth_rounds e prog data a r =
     (case auth_round e prog data a r of
        None \<Rightarrow> None
      | Some (Inl ex, r') \<Rightarrow> Some (Inl ex, r')
      | Some (Inr None, r') \<Rightarrow> Some (Inr (), r')
      | Some (Inr (Some (data', a')), r') \<Rightarrow> auth_rounds e prog data' a' r')"

definition multi_factor :: exn where
  "multi_factor = js_error ''This server uses multi-factor authentication, that is not supported by this client''"

text \<open>The other plugin, when the server asks for one.\<close>

definition readAuthResponse :: "connect_env \<Rightarrow> dsn \<Rightarrow> auth_plugin \<Rightarrow> auth_plugin option pl" where
  "readAuthResponse e d a =
     (let h = h_penv e
      in bindL (get_header h) (\<lambda>_. bindL (get_u8 h) (\<lambda>typ.
           if typ = PACKET_EOF then
             bindL (get_nul_string h) (\<lambda>name. bindL (get_eof_bytes h) (\<lambda>data.
               case plugin_inst name data of Inl ex \<Rightarrow> throwL ex | Inr a \<Rightarrow> retL (Some a)))
           else if typ = PACKET_OK then bindL (goto_end h) (\<lambda>_. retL None)
           else if typ = PACKET_ERR then read_err_packet h
           else if typ = PACKET_AUTH_NEXT_FACTOR then throwL multi_factor
           else bindL (get_eof_bytes h) (\<lambda>data. bindL (auth_rounds e (progress (h_crypto e) d (d_password d)) data a) (\<lambda>_. retL None)))))"

definition writeAuthSwitchResponse :: "connect_env \<Rightarrow> dsn \<Rightarrow> auth_plugin \<Rightarrow> auth_plugin pl" where
  "writeAuthSwitchResponse e d a =
     bindL (total_of (startWritingNewPacket False)) (\<lambda>_. bindL (first_answer e d a) (\<lambda>(auth, a).
     bindL (total_of (in_order [writeShortBytes auth, send (e_cz (h_penv e))])) (\<lambda>_. retL a)))"

section \<open>Connections that were cut off\<close>

fun has_code :: "nat \<Rightarrow> exn \<Rightarrow> bool" where
  "has_code code (SqlError m c st retry) = (c = code)"
| "has_code code _ = False"

definition plain_query :: "penv \<Rightarrow> jsstr \<Rightarrow> int \<Rightarrow> nat option pl" where
  "plain_query h sql multiStatements =
     bindL (getL id) (\<lambda>r.
       sendComQuery h (SqlString sql) ((default_options r ROW_VOID)\<lparr>q_multiStatements := multiStatements\<rparr>) (p_retryQueryTimes r))"

text \<open>A command whose errors are ignored: whether it is settled, because it succeeded or there was nothing to do.\<close>

definition settle :: "penv \<Rightarrow> jsstr \<Rightarrow> nat \<Rightarrow> bool pl" where
  "settle h sql code =
     tryL (bindL (plain_query h sql NO_MATTER) (\<lambda>_. retL True)) (\<lambda>ex. retL (has_code code ex))"

definition clear_one :: "penv \<Rightarrow> disconnected_info \<Rightarrow> disconnected_info list pl" where
  "clear_one h i =
     bindL (if i_kill i \<noteq> 0 then settle h (js (''KILL '' @ show_nat (i_kill i))) ER_NO_SUCH_THREAD else retL True) (\<lambda>killed.
     bindL (if i_rollback i \<noteq> [] then settle h (js ''XA ROLLBACK '' @ js [CHR 0x27] @ i_rollback i @ js [CHR 0x27]) ER_XAER_NOTA
            else retL True) (\<lambda>rolledBack.
       let left = i\<lparr>i_kill := (if killed then 0 else i_kill i), i_rollback := (if rolledBack then [] else i_rollback i)\<rparr>
       in retL (if killed \<and> rolledBack then [] else [left])))"

fun find_host :: "nat \<Rightarrow> disconnected_info list \<Rightarrow> nat option" where
  "find_host hash [] = None"
| "find_host hash (i # infos) =
     (if d_hashNoSchema (i_dsn i) = hash then Some 0 else map_option Suc (find_host hash infos))"

text \<open>The list with its element at \<open>i\<close> replaced by the last one.\<close>

definition swap_out :: "nat \<Rightarrow> 'a list \<Rightarrow> 'a list" where "swap_out i xs = butlast (xs[i := last xs])"

partial_function (option) clear_loop ::
  "penv \<Rightarrow> nat \<Rightarrow> disconnected_info list \<Rightarrow> disconnected_info list \<Rightarrow> disconnected_info list pl" where
  "clear_loop h hash infos failed r =
     (case find_host hash infos of
        None \<Rightarrow> Some (Inr (infos @ failed), r)
      | Some i \<Rightarrow>
          (case clear_one h (infos ! i) r of
             None \<Rightarrow> None
           | Some (Inl ex, r') \<Rightarrow> Some (Inl ex, r')
           | Some (Inr left, r') \<Rightarrow> clear_loop h hash (swap_out i infos) (failed @ left) r'))"

definition clearDisconnected :: "penv \<Rightarrow> nat \<Rightarrow> disconnected_info list \<Rightarrow> disconnected_info list pl" where
  "clearDisconnected h hash infos = clear_loop h hash infos []"

section \<open>Connecting\<close>

definition too_long :: "string \<Rightarrow> exn" where
  "too_long what = new_SqlError (js (what @ '' is too long'')) 0 [] False False"

definition authenticate :: "connect_env \<Rightarrow> dsn \<Rightarrow> jsstr \<Rightarrow> unit pl" where
  "authenticate e d schema =
     bindL (readHandshake (h_penv e)) (\<lambda>a.
     let useTls = (d_tls d \<and> d_pipe d = [])
     in bindL (applyClientCapabilities e schema d useTls) (\<lambda>_.
        bindL (whenL useTls (upgradeToTls e d)) (\<lambda>_.
        bindL (writeHandshakeResponse e d schema a) (\<lambda>a.
        bindL (readAuthResponse e d a) (\<lambda>switch.
          case switch of
            None \<Rightarrow> retL ()
          | Some a \<Rightarrow> bindL (writeAuthSwitchResponse e d a) (\<lambda>a. bindL (readAuthResponse e d a) (\<lambda>_. retL ())))))))"

text \<open>
  \<open>inst()\<close>: whether it throws, what is left of the list of connections that were cut off, and the protocol when there was a
  connection; after an error that is the object that was given up, with all that it sent.
\<close>

definition clear_step :: "connect_env \<Rightarrow> dsn \<Rightarrow> disconnected_info list \<Rightarrow> disconnected_info list pl" where
  "clear_step e d infos =
     bindL (setL (\<lambda>r. if has_cap r (CLIENT_COMPRESS OR CLIENT_ZSTD_COMPRESSION_ALGORITHM) then enableCompression r else r)) (\<lambda>_.
       if infos \<noteq> [] then clearDisconnected (h_penv e) (d_hashNoSchema d) infos else retL [])"

definition init_step :: "connect_env \<Rightarrow> dsn \<Rightarrow> unit pl" where
  "init_step e d =
     (if d_initSql d \<noteq> [] then bindL (plain_query (h_penv e) (d_initSql d) MULTI_STATEMENTS_ON) (\<lambda>_. retL ()) else retL ())"

definition given_up :: "exn \<Rightarrow> disconnected_info list \<Rightarrow> proto \<Rightarrow> (exn + unit) \<times> disconnected_info list \<times> proto option" where
  "given_up ex infos r = (Inl ex, infos, Some (closer_dispose r))"

definition proto_inst ::
  "connect_env \<Rightarrow> dsn \<Rightarrow> jsstr \<Rightarrow> disconnected_info list \<Rightarrow> byte list option \<Rightarrow>
   ((exn + unit) \<times> disconnected_info list \<times> proto option) option" where
  "proto_inst e d pendingChangeSchema infos useBuffer =
     (let schema = (if pendingChangeSchema \<noteq> [] then pendingChangeSchema else d_schema d)
      in if 256 < length (d_username d) then Some (Inl (too_long ''Username''), infos, None)
         else if 256 < length (d_password d) then Some (Inl (too_long ''Password''), infos, None)
         else if 256 < length (d_schema d) \<or> 256 < length pendingChangeSchema then Some (Inl (too_long ''Schema name''), infos, None)
         else
           case h_connect e (dsn_addr d) of
             Inl ex \<Rightarrow> Some (Inl ex, infos, None)
           | Inr chunks \<Rightarrow>
               (case authenticate e d schema (new_protocol (h_penv e) d chunks useBuffer) of
                  None \<Rightarrow> None
                | Some (Inl ex, r) \<Rightarrow> Some (given_up ex infos r)
                | Some (Inr _, r) \<Rightarrow>
                    (case clear_step e d infos r of
                       None \<Rightarrow> None
                     | Some (Inl ex, r) \<Rightarrow> Some (given_up ex infos r)
                     | Some (Inr left, r) \<Rightarrow>
                         (case init_step e d r of
                            None \<Rightarrow> None
                          | Some (Inl ex, r) \<Rightarrow> Some (given_up ex left r)
                          | Some (Inr _, r) \<Rightarrow> Some (Inr (), left, Some r)))))"

section \<open>Secrecy\<close>

text \<open>On a connection that can be eavesdropped everything is the same for two passwords that the cryptography does not tell apart.\<close>

lemma inst_hides:
  assumes "hides (h_crypto e) (d_password d) p" "guarded d" "d_password d \<noteq> []" "p \<noteq> []"
    and "length (d_password d) \<le> 256" "length p \<le> 256"
  shows "proto_inst e (d\<lparr>d_password := p\<rparr>) pendingChangeSchema infos useBuffer = proto_inst e d pendingChangeSchema infos useBuffer"
proof -
  let ?d = "d\<lparr>d_password := p\<rparr>"
  have trusted: "isConnectionTrusted ?d = isConnectionTrusted d" "canGetPublicKey ?d = canGetPublicKey d"
    by (simp_all add: isConnectionTrusted_def canGetPublicKey_def)
  have q: "quickAuth k ?d p' a = quickAuth k d p' a" for k p' a
    by (cases "a_kind a") (simp_all add: quick_defs trusted)
  have g: "progress k ?d p' data a = progress k d p' data a" for k p' data a
    by (cases "a_kind a"; cases "a_state a") (simp_all add: progress_def progress_sha2_def trusted)
  have first: "first_answer e ?d = first_answer e d"
    by (intro ext) (simp add: first_answer_def q quickAuth_hides [OF assms(1-4)])
  have prog: "progress (h_crypto e) ?d (d_password ?d) = progress (h_crypto e) d (d_password d)"
    by (intro ext) (simp add: g progress_hides [OF assms(1,2)])
  have "client_flags f l s ?d t = client_flags f l s d t" for f l s t
    by (simp add: client_flags_def)
  then have "applyClientCapabilities e s ?d t = applyClientCapabilities e s d t" for s t
    by (simp add: applyClientCapabilities_def cong: sum.case_cong prod.case_cong)
  moreover have "upgradeToTls e ?d = upgradeToTls e d"
    by (intro ext) (simp add: upgradeToTls_def cong: if_cong)
  moreover have "writeHandshakeResponse e ?d = writeHandshakeResponse e d" "writeAuthSwitchResponse e ?d = writeAuthSwitchResponse e d"
    by (intro ext; simp add: writeHandshakeResponse_def writeAuthSwitchResponse_def first)+
  moreover have "readAuthResponse e ?d = readAuthResponse e d"
    by (intro ext) (simp only: readAuthResponse_def prog)
  ultimately have "authenticate e ?d = authenticate e d"
    by (intro ext) (simp add: authenticate_def cong: option.case_cong)
  moreover have "new_protocol (h_penv e) ?d = new_protocol (h_penv e) d"
    by (intro ext) (simp add: new_protocol_def proto_dsn_of_def)
  moreover have "clear_step e ?d = clear_step e d" "init_step e ?d = init_step e d"
    by (intro ext; simp add: clear_step_def init_step_def)+
  ultimately show ?thesis
    using assms(5,6) by (simp add: proto_inst_def dsn_addr_def cong: sum.case_cong option.case_cong prod.case_cong if_cong)
qed

end
