(* ===== verification/Pool.thy ===== *)
theory Pool
  imports Dsn HealthStatus Interval "HOL-Library.Multiset"
begin

text \<open>
  The pool of connections, \<open>src/private/my_pool.ts\<close>. The asynchronous methods of \<open>Pool\<close> are cut at their \<open>await\<close>s: each
  piece is a function on the state, what waits is in the list of tasks, and the steps may come in any order that the runtime
  allows. Objects that are shared and compared by identity (DSNs, connections, the \<open>Protocols\<close> of a hash) lie in stores.
\<close>

section \<open>Numbers\<close>

fun number_leq :: "number \<Rightarrow> number \<Rightarrow> bool" where
  "number_leq NaN y = False"
| "number_leq x NaN = False"
| "number_leq (Infinite m) y = (m \<or> y = Infinite False)"
| "number_leq x (Infinite n) = (\<not> n)"
| "number_leq (Finite p) (Finite q) = (p \<le> q)"

definition number_less :: "number \<Rightarrow> number \<Rightarrow> bool" where
  "number_less x y \<longleftrightarrow> number_leq x y \<and> \<not> number_leq y x"

fun number_add :: "number \<Rightarrow> number \<Rightarrow> number" where
  "number_add NaN y = NaN"
| "number_add x NaN = NaN"
| "number_add (Infinite m) (Infinite n) = (if m = n then Infinite m else NaN)"
| "number_add (Infinite m) y = Infinite m"
| "number_add x (Infinite n) = Infinite n"
| "number_add (Finite p) (Finite q) = Finite (p + q)"

definition number_min :: "number \<Rightarrow> number \<Rightarrow> number" where
  "number_min x y = (if x = NaN \<or> y = NaN then NaN else if number_leq x y then x else y)"

abbreviation num :: "nat \<Rightarrow> number" where "num n \<equiv> Finite (of_nat n)"
abbreviation inum :: "int \<Rightarrow> number" where "inum n \<equiv> Finite (of_int n)"

definition MAX_SAFE :: number where "MAX_SAFE = Finite (2 ^ 53 - 1)"

section \<open>State\<close>

definition DEFAULT_MAX_CONNS_WAIT_QUEUE :: number where "DEFAULT_MAX_CONNS_WAIT_QUEUE = num 50"
definition DEFAULT_CONNECTION_TIMEOUT_MSEC :: number where "DEFAULT_CONNECTION_TIMEOUT_MSEC = num 5000"
definition DEFAULT_RECONNECT_INTERVAL_MSEC :: number where "DEFAULT_RECONNECT_INTERVAL_MSEC = num 500"
definition DEFAULT_KEEP_ALIVE_TIMEOUT_MSEC :: number where "DEFAULT_KEEP_ALIVE_TIMEOUT_MSEC = num 10000"
definition DEFAULT_KEEP_ALIVE_MAX :: number where "DEFAULT_KEEP_ALIVE_MAX = MAX_SAFE"
definition COMMON_TASK_EACH_MSEC :: nat where "COMMON_TASK_EACH_MSEC = 1000"
definition POOL_MAX_CONNS :: number where "POOL_MAX_CONNS = num 250"

text \<open>What the pool knows of a connection (\<open>MyProtocol\<close>). \<open>t_with\<close> is the DSN as it was when the connection was opened.\<close>

record pconn =
  t_dsn :: nat
  t_useTill :: number
  t_useNTimes :: number
  t_schema :: jsstr
  t_with :: dsn

text \<open>
  \<open>Protocols\<close>. Connections are numbers; a callback of \<open>haveSlotsCallbacks\<close> is the request that waits for it, and the time
  until which it does. The field \<open>p_hash\<close> is not in the code and nothing reads it: it tells for which hash the object was made.
\<close>

record protocols =
  p_idle :: "nat list"
  p_busy :: "nat list"
  p_nConnecting :: int
  p_haveSlotsCallbacks :: "(nat \<times> number) list"
  p_healthStatus :: health
  p_hash :: nat

text \<open>\<open>TakeCareOfDisconneced\<close>.\<close>

record care =
  k_dsn :: nat
  k_rollback :: jsstr
  k_kill :: nat

text \<open>Who asked for a connection: the application, or the common task because of a connection that was cut off.\<close>

datatype asker = Client | CareTaker care bool

text \<open>The variables of a call of \<open>getProtocol()\<close>; \<open>g_conns\<close> is the place of \<open>conns\<close>.\<close>

record getting =
  g_id :: nat
  g_asker :: asker
  g_dsn :: nat
  g_schema :: jsstr
  g_keepAliveTimeout :: number
  g_keepAliveMax :: number
  g_maxConns :: number
  g_reconnectInterval :: number
  g_till :: number
  g_conns :: nat

text \<open>
  What waits: a request for a slot (with the time of its timer) or for its new connection; \<open>closeConn()\<close> of the pool (with
  \<open>maxConns\<close> and the place of the callbacks); \<open>returnProtocol()\<close> for \<open>end()\<close> (with its second argument); and the two handlers of
  the common task.
\<close>

datatype task =
    Waiting getting number
  | Connecting getting nat
  | Closing nat number nat
  | Returning nat bool
  | HandleGot nat bool
  | HandleError care

record pool =
  q_dsns :: "nat \<Rightarrow> dsn"
  q_conn :: "nat \<Rightarrow> pconn"
  q_nextConn :: nat
  q_protocols :: "nat \<Rightarrow> protocols"
  q_nextProtocols :: nat
  q_perSchema :: "(nat \<times> nat) list"
  q_nIdleAll :: int
  q_nBusyAll :: int
  q_useCnt :: int
  q_hCommonTask :: interval
  q_takeCare :: "care list"
  q_waitQueue :: number
  q_onend :: bool
  q_ended :: bool
  q_tasks :: "task list"
  q_woken :: "nat list"
  q_nextGetting :: nat
  q_held :: "nat list"
  q_refused :: "nat list"

definition new_protocols :: protocols where
  "new_protocols = \<lparr>p_idle = [], p_busy = [], p_nConnecting = 0, p_haveSlotsCallbacks = [], p_healthStatus = new_health, p_hash = 0\<rparr>"

definition new_pool :: "(nat \<Rightarrow> dsn) \<Rightarrow> (nat \<Rightarrow> pconn) \<Rightarrow> pool" where
  "new_pool dsns conns =
     \<lparr>q_dsns = dsns, q_conn = conns, q_nextConn = 0, q_protocols = (\<lambda>_. new_protocols), q_nextProtocols = 0, q_perSchema = [],
      q_nIdleAll = 0, q_nBusyAll = 0, q_useCnt = 0, q_hCommonTask = new_interval, q_takeCare = [],
      q_waitQueue = DEFAULT_MAX_CONNS_WAIT_QUEUE, q_onend = False, q_ended = False, q_tasks = [], q_woken = [], q_nextGetting = 0,
      q_held = [], q_refused = []\<rparr>"

abbreviation set_protocols :: "nat \<Rightarrow> protocols \<Rightarrow> pool \<Rightarrow> pool" where
  "set_protocols a x q \<equiv> q\<lparr>q_protocols := (q_protocols q)(a := x)\<rparr>"

abbreviation set_conn :: "nat \<Rightarrow> pconn \<Rightarrow> pool \<Rightarrow> pool" where
  "set_conn c x q \<equiv> q\<lparr>q_conn := (q_conn q)(c := x)\<rparr>"

definition dsn_of :: "pool \<Rightarrow> nat \<Rightarrow> dsn" where
  "dsn_of q c = q_dsns q (t_dsn (q_conn q c))"

definition occupied :: "pool \<Rightarrow> nat \<Rightarrow> int" where
  "occupied q a = int (length (p_busy (q_protocols q a))) + p_nConnecting (q_protocols q a)"

text \<open>\<open>dsn.maxConns || DEFAULT_MAX_CONNS\<close>.\<close>

definition limit_of :: "dsn \<Rightarrow> number" where
  "limit_of d = (if d_maxConns d = NaN \<or> d_maxConns d = Finite 0 then POOL_MAX_CONNS else d_maxConns d)"

definition or_default :: "number \<Rightarrow> number \<Rightarrow> number" where
  "or_default x y = (if at_least_0 x then x else y)"

section \<open>Slots\<close>

text \<open>
  The loops that remove elements of an array while they go through it downwards, from \<open>i - 1\<close>, with \<open>n\<close> elements left: the
  element is replaced by the last one. The removed elements, in the order of the loop, and the array cut to what is left.
\<close>

fun sweep :: "('a \<Rightarrow> bool) \<Rightarrow> nat \<Rightarrow> nat \<Rightarrow> 'a list \<Rightarrow> 'a list \<times> 'a list" where
  "sweep P 0 n xs = ([], take n xs)"
| "sweep P (Suc i) n xs =
     (let x = xs ! i
      in if P x then (let (gone, ys) = sweep P i (n - 1) (xs[i := xs ! (n - 1)]) in (x # gone, ys))
         else sweep P i n xs)"

definition swept :: "('a \<Rightarrow> bool) \<Rightarrow> 'a list \<Rightarrow> 'a list \<times> 'a list" where
  "swept P xs = sweep P (length xs) (length xs) xs"

definition closeHaveSlotsTimedOut :: "number \<Rightarrow> nat \<Rightarrow> pool \<Rightarrow> pool" where
  "closeHaveSlotsTimedOut now a q =
     (let x = q_protocols q a; (gone, left) = swept (\<lambda>c. number_leq (snd c) now) (p_haveSlotsCallbacks x)
      in set_protocols a (x\<lparr>p_haveSlotsCallbacks := left\<rparr>) q\<lparr>q_woken := q_woken q @ map fst gone\<rparr>)"

text \<open>\<open>#onend?.()\<close> resolves the promise that \<open>asyncDispose\<close> waits for.\<close>

definition onend :: "pool \<Rightarrow> pool" where
  "onend q = q\<lparr>q_ended := (q_ended q \<or> q_onend q)\<rparr>"

definition stop_common :: "pool \<Rightarrow> pool" where
  "stop_common q = q\<lparr>q_hCommonTask := interval_stop (q_hCommonTask q)\<rparr>"

definition start_common :: "bool \<Rightarrow> pool \<Rightarrow> pool" where
  "start_common immediately q =
     q\<lparr>q_hCommonTask := interval_start immediately COMMON_TASK_EACH_MSEC (q_hCommonTask q)\<rparr>"

definition wake_all :: "nat \<Rightarrow> pool \<Rightarrow> pool" where
  "wake_all a q =
     (let x = q_protocols q a
      in set_protocols a (x\<lparr>p_haveSlotsCallbacks := []\<rparr>) q\<lparr>q_woken := q_woken q @ map fst (p_haveSlotsCallbacks x)\<rparr>)"

definition all_quiet :: "pool \<Rightarrow> pool" where
  "all_quiet q =
     (let q = (if q_nIdleAll q + int (length (q_takeCare q)) = 0 then stop_common q else q)
      in if q_useCnt q = 0 then onend q else q)"

definition decNBusyAll :: "number \<Rightarrow> nat \<Rightarrow> pool \<Rightarrow> pool" where
  "decNBusyAll maxConns a q =
     (let nBusyAll = q_nBusyAll q - 1; q = q\<lparr>q_nBusyAll := nBusyAll\<rparr>
      in if p_haveSlotsCallbacks (q_protocols q a) = [] then (if nBusyAll = 0 then all_quiet q else q)
         else if number_less (inum nBusyAll) maxConns then wake_all a q
         else q)"

text \<open>\<open>#closeConn()\<close> up to its \<open>await\<close>; \<open>closed\<close> is the rest.\<close>

definition pool_closeConn :: "number \<Rightarrow> nat \<Rightarrow> nat \<Rightarrow> pool \<Rightarrow> pool" where
  "pool_closeConn maxConns a c q = q\<lparr>q_nBusyAll := q_nBusyAll q + 1, q_tasks := q_tasks q @ [Closing c maxConns a]\<rparr>"

definition done_with :: "task \<Rightarrow> pool \<Rightarrow> pool" where
  "done_with k q = q\<lparr>q_tasks := remove1 k (q_tasks q)\<rparr>"

definition closed :: "nat \<Rightarrow> number \<Rightarrow> nat \<Rightarrow> pool \<Rightarrow> pool" where
  "closed c maxConns a q = decNBusyAll maxConns a (done_with (Closing c maxConns a) q)"

section \<open>Getting a connection\<close>

text \<open>The end of \<open>getProtocol()\<close>: its result or its error goes to who asked.\<close>

definition hand_out :: "getting \<Rightarrow> nat \<Rightarrow> pool \<Rightarrow> pool" where
  "hand_out g c q =
     (case g_asker g of
        Client \<Rightarrow> q\<lparr>q_held := q_held q @ [c]\<rparr>
      | CareTaker info closeAllIdle \<Rightarrow> q\<lparr>q_tasks := q_tasks q @ [HandleGot c closeAllIdle]\<rparr>)"

definition refuse :: "getting \<Rightarrow> pool \<Rightarrow> pool" where
  "refuse g q =
     (case g_asker g of
        Client \<Rightarrow> q\<lparr>q_refused := q_refused q @ [g_id g]\<rparr>
      | CareTaker info closeAllIdle \<Rightarrow> q\<lparr>q_tasks := q_tasks q @ [HandleError info]\<rparr>)"

text \<open>The last lines of the loop.\<close>

definition make_busy :: "getting \<Rightarrow> nat \<Rightarrow> nat \<Rightarrow> pool \<Rightarrow> pool" where
  "make_busy g now c q =
     (let t = q_conn q c;
          q = set_conn c (t\<lparr>t_useTill := number_min (t_useTill t) (number_add (num now) (g_keepAliveTimeout g)),
                            t_useNTimes := number_min (t_useNTimes t) (g_keepAliveMax g)\<rparr>) q;
          q = start_common False q;
          x = q_protocols q (g_conns g)
      in hand_out g c (set_protocols (g_conns g) (x\<lparr>p_busy := p_busy x @ [c]\<rparr>) q\<lparr>q_nBusyAll := q_nBusyAll q + 1\<rparr>))"

text \<open>\<open>#stealIdleProtocolWithTheSameHost()\<close>: where it looks for a connection, and the theft.\<close>

definition stealable :: "pool \<Rightarrow> nat \<Rightarrow> nat \<times> nat \<Rightarrow> bool" where
  "stealable q hash e =
     (let idle = p_idle (q_protocols q (snd e)) in idle \<noteq> [] \<and> d_hashNoSchema (dsn_of q (last idle)) = hash)"

definition pop_idle :: "nat \<Rightarrow> pool \<Rightarrow> pool" where
  "pop_idle a q = (let x = q_protocols q a in set_protocols a (x\<lparr>p_idle := butlast (p_idle x)\<rparr>) q)"

definition stealIdle :: "nat \<Rightarrow> pool \<Rightarrow> (nat \<times> pool) option" where
  "stealIdle d q =
     (case find (stealable q (d_hashNoSchema (q_dsns q d))) (q_perSchema q) of
        None \<Rightarrow> None
      | Some (h, a) \<Rightarrow>
          (let c = last (p_idle (q_protocols q a)); t = q_conn q c
           in Some (c, set_conn c (t\<lparr>t_dsn := d\<rparr>) (pop_idle a q))))"

text \<open>The connection that the loop looks at: its own, or a stolen one; then the pending schema.\<close>

definition pop_or_steal :: "getting \<Rightarrow> pool \<Rightarrow> (nat \<times> getting \<times> pool) option" where
  "pop_or_steal g q =
     (let idle = p_idle (q_protocols q (g_conns g)); schema = d_schema (q_dsns q (g_dsn g))
      in if idle \<noteq> [] then Some (last idle, g, pop_idle (g_conns g) q)
         else if schema \<noteq> [] then
           (case stealIdle (g_dsn g) q of
              None \<Rightarrow> None
            | Some (c, q) \<Rightarrow> Some (c, if g_schema g = [] then g\<lparr>g_schema := schema\<rparr> else g, q))
         else None)"

definition idle_left :: "nat \<Rightarrow> pool \<Rightarrow> nat" where
  "idle_left a q =
     length (p_idle (q_protocols q a)) + (\<Sum>e\<leftarrow>q_perSchema q. length (p_idle (q_protocols q (snd e))))"

text \<open>\<open>nConnecting++\<close>, and \<open>newConn()\<close> is awaited.\<close>

definition start_connecting :: "getting \<Rightarrow> nat \<Rightarrow> pool \<Rightarrow> pool" where
  "start_connecting g now q =
     (let x = q_protocols q (g_conns g)
      in set_protocols (g_conns g) (x\<lparr>p_nConnecting := p_nConnecting x + 1\<rparr>) q\<lparr>
           q_nBusyAll := q_nBusyAll q + 1, q_tasks := q_tasks q @ [Connecting g now]\<rparr>)"

definition use_pending :: "jsstr \<Rightarrow> nat \<Rightarrow> pool \<Rightarrow> pool" where
  "use_pending schema c q = set_conn c ((q_conn q c)\<lparr>t_schema := schema\<rparr>) q"

function connect_loop :: "getting \<Rightarrow> nat \<Rightarrow> pool \<Rightarrow> pool" where
  "connect_loop g now q =
     (case pop_or_steal g q of
        None \<Rightarrow> start_connecting g now q
      | Some (c, g, q) \<Rightarrow>
          (let q = q\<lparr>q_nIdleAll := q_nIdleAll q - 1\<rparr>
           in if number_leq (t_useTill (q_conn q c)) (num now) then
                connect_loop g now (pool_closeConn (g_maxConns g) (g_conns g) c q)
              else make_busy g now c (use_pending (g_schema g) c q)))"
  by pat_completeness auto

lemma idle_left_pop:
  assumes "p_idle (q_protocols q a) \<noteq> []" "b = a \<or> a \<in> snd ` set (q_perSchema q)"
  shows "idle_left b (pop_idle a q) < idle_left b q"
proof -
  let ?f = "\<lambda>q e. length (p_idle (q_protocols q (snd e)))"
  have le: "?f (pop_idle a q) e \<le> ?f q e" for e
    by (simp add: pop_idle_def Let_def)
  have lt: "snd e = a \<Longrightarrow> ?f (pop_idle a q) e < ?f q e" for e
    using assms(1) by (simp add: pop_idle_def Let_def)
  have [simp]: "q_perSchema (pop_idle a q) = q_perSchema q"
    by (simp add: pop_idle_def Let_def)
  have mono: "(\<Sum>e\<leftarrow>es. ?f (pop_idle a q) e) \<le> (\<Sum>e\<leftarrow>es. ?f q e)" for es
    by (rule sum_list_mono) (rule le)
  have strict: "a \<in> snd ` set es \<Longrightarrow> (\<Sum>e\<leftarrow>es. ?f (pop_idle a q) e) < (\<Sum>e\<leftarrow>es. ?f q e)" for es
  proof (induction es)
    case (Cons e es)
    show ?case
    proof (cases "snd e = a")
      case True
      then show ?thesis using lt [OF True] mono [of es] by simp
    next
      case False
      then show ?thesis using Cons le [of e] by fastforce
    qed
  qed simp
  from assms(2) show ?thesis
  proof
    assume "b = a"
    then show ?thesis
      using lt [of "(0, a)"] mono [of "q_perSchema q"] by (simp add: idle_left_def)
  next
    assume "a \<in> snd ` set (q_perSchema q)"
    then show ?thesis
      using strict [of "q_perSchema q"] le [of "(0, b)"] by (simp add: idle_left_def)
  qed
qed

lemma idle_left_frame [simp]:
  "idle_left a (q\<lparr>q_conn := x\<rparr>) = idle_left a q" "idle_left a (q\<lparr>q_nIdleAll := n\<rparr>) = idle_left a q"
  "idle_left a (pool_closeConn m b c q) = idle_left a q"
  by (simp_all add: idle_left_def pool_closeConn_def)

lemma find_satisfies: "find P xs = Some x \<Longrightarrow> x \<in> set xs \<and> P x"
  by (induction xs) (auto split: if_splits)

text \<open>What \<open>pop_or_steal\<close> does, in one shape for both ways.\<close>

lemma pop_or_stealE:
  assumes "pop_or_steal g q = Some (c, g', q')"
  obtains a x where "p_idle (q_protocols q a) \<noteq> []" "c = last (p_idle (q_protocols q a))"
    "q' = (pop_idle a q)\<lparr>q_conn := x\<rparr>" "g_conns g = a \<or> a \<in> snd ` set (q_perSchema q)"
    "g_id g' = g_id g" "g_asker g' = g_asker g" "g_dsn g' = g_dsn g" "g_maxConns g' = g_maxConns g" "g_conns g' = g_conns g"
proof (cases "p_idle (q_protocols q (g_conns g)) = []")
  case False
  then have "q' = (pop_idle (g_conns g) q)\<lparr>q_conn := q_conn q\<rparr>" "g' = g" "c = last (p_idle (q_protocols q (g_conns g)))"
    using assms by (auto simp: pop_or_steal_def Let_def pop_idle_def)
  then show ?thesis
    using that [of "g_conns g" "q_conn q"] False by blast
next
  case True
  then obtain h a where f: "find (stealable q (d_hashNoSchema (q_dsns q (g_dsn g)))) (q_perSchema q) = Some (h, a)"
    using assms by (auto simp: pop_or_steal_def Let_def stealIdle_def split: if_splits option.splits)
  then have "(h, a) \<in> set (q_perSchema q)" "p_idle (q_protocols q a) \<noteq> []"
    by (auto simp: stealable_def Let_def dest!: find_satisfies)
  moreover have "a \<in> snd ` set (q_perSchema q)"
    using calculation(1) by force
  moreover have "c = last (p_idle (q_protocols q a))"
    "q' = (pop_idle a q)\<lparr>q_conn := q_conn q'\<rparr>" "g_id g' = g_id g" "g_asker g' = g_asker g" "g_dsn g' = g_dsn g"
    "g_maxConns g' = g_maxConns g" "g_conns g' = g_conns g"
    using assms f True by (auto simp: pop_or_steal_def Let_def stealIdle_def split: if_splits)
  ultimately show ?thesis
    using that by blast
qed

termination connect_loop
proof (relation "measure (\<lambda>(g, now, q). idle_left (g_conns g) q)")
  fix g now q x c y g' q' q''
  assume *: "pop_or_steal g q = Some x" "(c, y) = x" "(g', q') = y"
    and q'': "q'' = q'\<lparr>q_nIdleAll := q_nIdleAll q' - 1\<rparr>"
  then have p: "pop_or_steal g q = Some (c, g', q')"
    by (metis)
  show "((g', now, pool_closeConn (g_maxConns g') (g_conns g') c q''), g, now, q) \<in>
        measure (\<lambda>(g, now, q). idle_left (g_conns g) q)"
  proof (rule pop_or_stealE [OF p])
    fix a x
    assume "p_idle (q_protocols q a) \<noteq> []" "g_conns g = a \<or> a \<in> snd ` set (q_perSchema q)"
      "q' = (pop_idle a q)\<lparr>q_conn := x\<rparr>" "g_conns g' = g_conns g"
    then show ?thesis
      using q'' idle_left_pop [of q a "g_conns g"] by simp
  qed
qed simp

declare connect_loop.simps [simp del]

text \<open>\<open>#waitHaveSlots()\<close> up to its \<open>await\<close>, the loop that waits for a slot, and what comes behind it. A piece runs at one time.\<close>

definition waitHaveSlots :: "getting \<Rightarrow> nat \<Rightarrow> pool \<Rightarrow> pool" where
  "waitHaveSlots g now q =
     (let a = g_conns g; q = closeHaveSlotsTimedOut (num now) a q; x = q_protocols q a
      in if number_leq (q_waitQueue q) (num (length (p_haveSlotsCallbacks x))) then refuse g q
         else let iterTill = number_min (g_till g) (number_add (num now) (g_reconnectInterval g))
              in set_protocols a (x\<lparr>p_haveSlotsCallbacks := p_haveSlotsCallbacks x @ [(g_id g, iterTill)]\<rparr>) q\<lparr>
                   q_tasks := q_tasks q @ [Waiting g iterTill]\<rparr>)"

definition find_slot :: "getting \<Rightarrow> nat \<Rightarrow> pool \<Rightarrow> pool" where
  "find_slot g now q =
     (if number_leq (g_maxConns g) (inum (occupied q (g_conns g))) then
        (if number_leq (g_till g) (num now) then refuse g q else waitHaveSlots g now q)
      else connect_loop g now q)"

text \<open>The \<open>Protocols\<close> of a hash, made when there are none.\<close>

definition protocols_for :: "nat \<Rightarrow> pool \<Rightarrow> nat \<times> pool" where
  "protocols_for hash q =
     (case map_of (q_perSchema q) hash of
        Some a \<Rightarrow> (a, q)
      | None \<Rightarrow>
          (let a = q_nextProtocols q
           in (a, set_protocols a (new_protocols\<lparr>p_hash := hash\<rparr>) q\<lparr>q_nextProtocols := a + 1, q_perSchema := q_perSchema q @ [(hash, a)]\<rparr>)))"

definition new_getting :: "asker \<Rightarrow> nat \<Rightarrow> jsstr \<Rightarrow> nat \<Rightarrow> nat \<Rightarrow> pool \<Rightarrow> getting" where
  "new_getting asker d schema now a q =
     (let dsn = q_dsns q d
      in \<lparr>g_id = q_nextGetting q, g_asker = asker, g_dsn = d, g_schema = schema,
          g_keepAliveTimeout = or_default (d_keepAliveTimeout dsn) DEFAULT_KEEP_ALIVE_TIMEOUT_MSEC,
          g_keepAliveMax = or_default (d_keepAliveMax dsn) DEFAULT_KEEP_ALIVE_MAX,
          g_maxConns = limit_of dsn,
          g_reconnectInterval = or_default (d_reconnectInterval dsn) DEFAULT_RECONNECT_INTERVAL_MSEC,
          g_till = number_add (num now) (or_default (d_connectionTimeout dsn) DEFAULT_CONNECTION_TIMEOUT_MSEC),
          g_conns = a\<rparr>)"

definition getProtocol :: "asker \<Rightarrow> nat \<Rightarrow> jsstr \<Rightarrow> nat \<Rightarrow> pool \<Rightarrow> pool" where
  "getProtocol asker d schema now q =
     (let (a, q) = protocols_for (d_hash (q_dsns q d)) q
      in find_slot (new_getting asker d schema now a q) now (q\<lparr>q_nextGetting := q_nextGetting q + 1\<rparr>))"

text \<open>The request goes on behind \<open>await this.#waitHaveSlots()\<close>.\<close>

definition slot_awaited :: "getting \<Rightarrow> number \<Rightarrow> nat \<Rightarrow> pool \<Rightarrow> pool" where
  "slot_awaited g iterTill now q =
     (let q = done_with (Waiting g iterTill) q in find_slot g now (q\<lparr>q_woken := removeAll (g_id g) (q_woken q)\<rparr>))"

text \<open>\<open>newConn()\<close> ended; it may have taken care of connections that were cut off, \<open>left\<close> is the rest of them.\<close>

definition not_connecting :: "getting \<Rightarrow> nat \<Rightarrow> bool \<Rightarrow> pool \<Rightarrow> pool" where
  "not_connecting g now ok q =
     (let x = q_protocols q (g_conns g)
      in set_protocols (g_conns g) (x\<lparr>p_nConnecting := p_nConnecting x - 1,
           p_healthStatus := health_log ok now (p_healthStatus x)\<rparr>) (done_with (Connecting g now) q))"

definition connected :: "getting \<Rightarrow> nat \<Rightarrow> care list \<Rightarrow> pool \<Rightarrow> pool" where
  "connected g now left q =
     (let q = not_connecting g now True (q\<lparr>q_takeCare := left\<rparr>); c = q_nextConn q;
          t = \<lparr>t_dsn = g_dsn g, t_useTill = MAX_SAFE, t_useNTimes = MAX_SAFE, t_schema = [], t_with = q_dsns q (g_dsn g)\<rparr>
      in make_busy g now c (set_conn c t q\<lparr>q_nextConn := c + 1, q_nBusyAll := q_nBusyAll q - 1\<rparr>))"

definition connect_failed :: "getting \<Rightarrow> nat \<Rightarrow> care list \<Rightarrow> pool \<Rightarrow> pool" where
  "connect_failed g now left q =
     refuse g (decNBusyAll (g_maxConns g) (g_conns g) (not_connecting g now False (q\<lparr>q_takeCare := left\<rparr>)))"

section \<open>Giving a connection back\<close>

text \<open>\<open>returnProtocol()\<close> up to its \<open>await\<close>: \<open>end()\<close> is told whether the connection may be used again.\<close>

definition returnProtocol :: "nat \<Rightarrow> nat \<Rightarrow> pool \<Rightarrow> pool" where
  "returnProtocol c now q =
     (let t = q_conn q c; n = number_add (t_useNTimes t) (Finite (- 1))
      in set_conn c (t\<lparr>t_useNTimes := n\<rparr>) q\<lparr>
           q_tasks := q_tasks q @ [Returning c (number_less (Finite 0) n \<and> number_less (num now) (t_useTill t))]\<rparr>)"

text \<open>
  Which element of which busy list \<open>#doReturnProtocol()\<close> removes: the connection itself under the hash of its DSN, else the
  first connection with the same DSN object that any list has.
\<close>

fun position :: "('a \<Rightarrow> bool) \<Rightarrow> 'a list \<Rightarrow> nat option" where
  "position P [] = None"
| "position P (x # xs) = (if P x then Some 0 else map_option Suc (position P xs))"

fun busy_somewhere :: "(nat \<Rightarrow> bool) \<Rightarrow> pool \<Rightarrow> (nat \<times> nat) list \<Rightarrow> (nat \<times> nat) option" where
  "busy_somewhere P q [] = None"
| "busy_somewhere P q (e # es) =
     (case position P (p_busy (q_protocols q (snd e))) of Some i \<Rightarrow> Some (snd e, i) | None \<Rightarrow> busy_somewhere P q es)"

definition find_busy :: "nat \<Rightarrow> pool \<Rightarrow> (nat \<times> nat) option" where
  "find_busy c q =
     (let by_object = busy_somewhere (\<lambda>p. t_dsn (q_conn q p) = t_dsn (q_conn q c)) q (q_perSchema q)
      in case map_of (q_perSchema q) (d_hash (dsn_of q c)) of
           None \<Rightarrow> by_object
         | Some a \<Rightarrow>
             (case position (\<lambda>p. p = c) (p_busy (q_protocols q a)) of Some i \<Rightarrow> Some (a, i) | None \<Rightarrow> by_object))"

definition take_last :: "nat \<Rightarrow> 'a list \<Rightarrow> 'a list" where
  "take_last i xs = butlast (xs[i := last xs])"

definition doReturnProtocol :: "nat \<Rightarrow> nat option \<Rightarrow> pool \<Rightarrow> pool" where
  "doReturnProtocol c reuse q =
     (case find_busy c q of
        None \<Rightarrow> q
      | Some (a, i) \<Rightarrow>
          (let x = q_protocols q a; x = x\<lparr>p_busy := take_last i (p_busy x)\<rparr>;
               q = (case reuse of
                      None \<Rightarrow> set_protocols a x q
                    | Some c' \<Rightarrow> set_protocols a (x\<lparr>p_idle := p_idle x @ [c']\<rparr>) q\<lparr>q_nIdleAll := q_nIdleAll q + 1\<rparr>)
           in decNBusyAll (limit_of (dsn_of q c)) a q))"

text \<open>
  \<open>end()\<close> ended. It gives a new object for the connection, with the same \<open>useTill\<close> and \<open>useNTimes\<close>, or none (a buffer); never
  an object when it was told not to.
\<close>

definition recycled :: "nat \<Rightarrow> pool \<Rightarrow> nat option \<times> pool" where
  "recycled c q =
     (let c' = q_nextConn q; q = set_conn c' ((q_conn q c)\<lparr>t_schema := []\<rparr>) q\<lparr>q_nextConn := c' + 1\<rparr> in (Some c', q))"

definition conn_ended :: "nat \<Rightarrow> bool \<Rightarrow> bool \<Rightarrow> pool \<Rightarrow> pool" where
  "conn_ended c mayRecycle isRecycled q =
     (let q = done_with (Returning c mayRecycle) q
      in if mayRecycle \<and> isRecycled then (let (reuse, q) = recycled c q in doReturnProtocol c reuse q)
         else doReturnProtocol c None q)"

text \<open>\<open>returnProtocolAndForceImmediateDisconnect()\<close>; \<open>connectionId\<close> and \<open>querying\<close> are what the protocol says.\<close>

definition forceDisconnect :: "nat \<Rightarrow> jsstr \<Rightarrow> bool \<Rightarrow> nat \<Rightarrow> bool \<Rightarrow> pool \<Rightarrow> pool" where
  "forceDisconnect c rollbackPreparedXaId killCurQuery connectionId querying q =
     (let kill = (killCurQuery \<and> querying);
          q = (if rollbackPreparedXaId \<noteq> [] \<or> kill then
                 start_common True (q\<lparr>q_takeCare := q_takeCare q @
                   [\<lparr>k_dsn = t_dsn (q_conn q c), k_rollback = rollbackPreparedXaId, k_kill = (if kill then connectionId else 0)\<rparr>]\<rparr>)
               else q)
      in doReturnProtocol c None q)"

section \<open>The common task\<close>

definition close_expired :: "bool \<Rightarrow> nat \<Rightarrow> nat \<Rightarrow> nat \<Rightarrow> pool \<Rightarrow> pool" where
  "close_expired closeAllIdle now hash a q =
     (let all = (closeAllIdle \<or> (\<exists>v \<in> set (q_takeCare q). d_hash (q_dsns q (k_dsn v)) = hash));
          x = q_protocols q a;
          (gone, left) = swept (\<lambda>c. all \<or> number_leq (t_useTill (q_conn q c)) (num now)) (p_idle x);
          q = set_protocols a (x\<lparr>p_idle := left\<rparr>) q\<lparr>q_nIdleAll := q_nIdleAll q - int (length gone)\<rparr>
      in fold (\<lambda>c q. pool_closeConn (limit_of (dsn_of q c)) a c q) gone q)"

definition forget_empty :: "nat \<Rightarrow> nat \<Rightarrow> nat \<Rightarrow> pool \<Rightarrow> pool" where
  "forget_empty now hash a q =
     (let x = q_protocols q a
      in if int (length (p_busy x) + length (p_idle x)) + p_nConnecting x = 0 \<and> health_isEmpty now (p_healthStatus x) then
           q\<lparr>q_perSchema := filter (\<lambda>e. fst e \<noteq> hash) (q_perSchema q)\<rparr>
         else q)"

definition common_entry :: "bool \<Rightarrow> nat \<Rightarrow> nat \<times> nat \<Rightarrow> pool \<Rightarrow> pool" where
  "common_entry closeAllIdle now e q =
     closeHaveSlotsTimedOut (num now) (snd e) (forget_empty now (fst e) (snd e) (close_expired closeAllIdle now (fst e) (snd e) q))"

definition saturated :: "pool \<Rightarrow> care \<Rightarrow> bool" where
  "saturated q info =
     (let d = q_dsns q (k_dsn info)
      in case map_of (q_perSchema q) (d_hash d) of None \<Rightarrow> False | Some a \<Rightarrow> number_leq (limit_of d) (inum (occupied q a)))"

definition take_care :: "bool \<Rightarrow> nat \<Rightarrow> care \<Rightarrow> pool \<Rightarrow> pool" where
  "take_care closeAllIdle now info q =
     (if saturated q info then q\<lparr>q_takeCare := q_takeCare q @ [info]\<rparr>
      else getProtocol (CareTaker info closeAllIdle) (k_dsn info) [] now q)"

definition commonTask :: "bool \<Rightarrow> nat \<Rightarrow> pool \<Rightarrow> pool" where
  "commonTask closeAllIdle now q =
     (let q = fold (common_entry closeAllIdle now) (q_perSchema q) q;
          infos = q_takeCare q;
          q = fold (take_care closeAllIdle now) infos (q\<lparr>q_takeCare := []\<rparr>)
      in if q_nBusyAll q + q_nIdleAll q + int (length (q_takeCare q)) = 0 then stop_common q else q)"

text \<open>The two handlers behind \<open>getProtocol()\<close>.\<close>

definition handle_got :: "nat \<Rightarrow> bool \<Rightarrow> nat \<Rightarrow> pool \<Rightarrow> pool" where
  "handle_got c closeAllIdle now q =
     (let q = done_with (HandleGot c closeAllIdle) q;
          q = (if closeAllIdle then set_conn c ((q_conn q c)\<lparr>t_useNTimes := Finite 1\<rparr>) q else q)
      in returnProtocol c now q)"

definition handle_error :: "care \<Rightarrow> pool \<Rightarrow> pool" where
  "handle_error info q = done_with (HandleError info) q\<lparr>q_takeCare := q_takeCare q @ [info]\<rparr>"

section \<open>Users and disposal\<close>

definition pool_ref :: "pool \<Rightarrow> pool" where "pool_ref q = q\<lparr>q_useCnt := q_useCnt q + 1\<rparr>"

definition pool_unref :: "pool \<Rightarrow> pool" where
  "pool_unref q =
     (let q = q\<lparr>q_useCnt := q_useCnt q - 1\<rparr> in if q_useCnt q = 0 \<and> q_nBusyAll q = 0 then onend q else q)"

text \<open>\<open>asyncDispose\<close>: the first \<open>await\<close>, or what follows it (the timers are disposed of and the idle connections closed).\<close>

definition pool_dispose :: "pool \<Rightarrow> pool" where
  "pool_dispose q =
     (if q_useCnt q \<noteq> 0 \<or> q_nBusyAll q \<noteq> 0 then q\<lparr>q_onend := True, q_ended := False\<rparr> else q\<lparr>q_ended := True\<rparr>)"

definition pool_end :: "nat \<Rightarrow> pool \<Rightarrow> pool" where
  "pool_end now q = commonTask True now (q\<lparr>q_hCommonTask := snd (interval_dispose (q_hCommonTask q))\<rparr>)"

text \<open>The timer of the common task fires.\<close>

definition pool_tick :: "nat \<Rightarrow> nat \<Rightarrow> pool \<Rightarrow> pool" where
  "pool_tick h now q =
     (let run = (i_state (q_hCommonTask q) = Active);
          q = q\<lparr>q_hCommonTask := timer_fire h COMMON_TASK_EACH_MSEC (q_hCommonTask q)\<rparr>
      in if run then commonTask False now q else q)"

definition pool_getStatus :: "int \<Rightarrow> nat \<Rightarrow> pool \<Rightarrow> (nat \<times> nat \<times> nat \<times> (int \<times> int) option) list" where
  "pool_getStatus periodSec now q =
     concat (map (\<lambda>e.
       let x = q_protocols q (snd e); h = getHealthStatusForPeriod periodSec now (p_healthStatus x);
           status = (\<lambda>c. [(t_dsn (q_conn q c), length (p_busy x), length (p_idle x), h)])
       in case p_idle x of c # _ \<Rightarrow> status c | [] \<Rightarrow> (case p_busy x of c # _ \<Rightarrow> status c | [] \<Rightarrow> [])) (q_perSchema q))"

section \<open>Steps\<close>

text \<open>
  What may happen next: the application asks for a connection, or returns one that it holds; something that is awaited ends
  (a request for a slot goes on when it was woken up or its time is over); the timer; the DSN objects are edited.
\<close>

datatype pool_event =
    Get nat jsstr nat
  | SlotAwaited getting number nat
  | Connected getting nat "care list"
  | ConnectFailed getting nat "care list"
  | Return nat nat
  | ConnEnded nat bool bool
  | Force nat jsstr bool nat bool
  | Closed nat number nat
  | GotHandled nat bool nat
  | ErrorHandled care
  | Tick nat nat
  | TaskEnd
  | EditDsn nat dsn
  | Ref
  | Unref
  | SetWaitQueue number
  | DisposePool
  | DisposeEnd nat

fun may_happen :: "pool_event \<Rightarrow> pool \<Rightarrow> bool" where
  "may_happen (SlotAwaited g iterTill now) q =
     (Waiting g iterTill \<in> set (q_tasks q) \<and> (g_id g \<in> set (q_woken q) \<or> number_leq iterTill (num now)))"
| "may_happen (Connected g now left) q = (Connecting g now \<in> set (q_tasks q))"
| "may_happen (ConnectFailed g now left) q = (Connecting g now \<in> set (q_tasks q))"
| "may_happen (Return c now) q = (c \<in> set (q_held q))"
| "may_happen (ConnEnded c mayRecycle isRecycled) q = (Returning c mayRecycle \<in> set (q_tasks q))"
| "may_happen (Force c rollback kill connectionId querying) q = (c \<in> set (q_held q))"
| "may_happen (Closed c maxConns a) q = (Closing c maxConns a \<in> set (q_tasks q))"
| "may_happen (GotHandled c closeAllIdle now) q = (HandleGot c closeAllIdle \<in> set (q_tasks q))"
| "may_happen (ErrorHandled info) q = (HandleError info \<in> set (q_tasks q))"
| "may_happen (Tick h now) q = (h \<in> fst ` set (i_armed (q_hCommonTask q)))"
| "may_happen TaskEnd q = (0 < i_running (q_hCommonTask q))"
| "may_happen Unref q = (0 < q_useCnt q)"
| "may_happen (DisposeEnd now) q = q_ended q"
| "may_happen e q = True"

definition let_go :: "nat \<Rightarrow> pool \<Rightarrow> pool" where
  "let_go c q = q\<lparr>q_held := remove1 c (q_held q)\<rparr>"

fun happen :: "pool_event \<Rightarrow> pool \<Rightarrow> pool" where
  "happen (Get d schema now) q = getProtocol Client d schema now q"
| "happen (SlotAwaited g iterTill now) q = slot_awaited g iterTill now q"
| "happen (Connected g now left) q = connected g now left q"
| "happen (ConnectFailed g now left) q = connect_failed g now left q"
| "happen (Return c now) q = returnProtocol c now (let_go c q)"
| "happen (ConnEnded c mayRecycle isRecycled) q = conn_ended c mayRecycle isRecycled q"
| "happen (Force c rollback kill connectionId querying) q = forceDisconnect c rollback kill connectionId querying (let_go c q)"
| "happen (Closed c maxConns a) q = closed c maxConns a q"
| "happen (GotHandled c closeAllIdle now) q = handle_got c closeAllIdle now q"
| "happen (ErrorHandled info) q = handle_error info q"
| "happen (Tick h now) q = pool_tick h now q"
| "happen TaskEnd q = q\<lparr>q_hCommonTask := callback_end COMMON_TASK_EACH_MSEC (q_hCommonTask q)\<rparr>"
| "happen (EditDsn d dsn) q = q\<lparr>q_dsns := (q_dsns q)(d := dsn)\<rparr>"
| "happen Ref q = pool_ref q"
| "happen Unref q = pool_unref q"
| "happen (SetWaitQueue n) q = q\<lparr>q_waitQueue := n\<rparr>"
| "happen DisposePool q = pool_dispose q"
| "happen (DisposeEnd now) q = pool_end now q"

text \<open>Events one after another; \<open>None\<close> when one of them cannot happen.\<close>

fun runs :: "('e \<Rightarrow> 's \<Rightarrow> bool) \<Rightarrow> ('e \<Rightarrow> 's \<Rightarrow> 's) \<Rightarrow> 'e list \<Rightarrow> 's \<Rightarrow> 's option" where
  "runs may do [] s = Some s"
| "runs may do (e # es) s = (if may e s then runs may do es (do e s) else None)"

abbreviation pool_runs :: "pool_event list \<Rightarrow> pool \<Rightarrow> pool option" where
  "pool_runs \<equiv> runs may_happen happen"

text \<open>What holds of the events of a run as they happen.\<close>

fun fair_run :: "('e \<Rightarrow> 's \<Rightarrow> 's) \<Rightarrow> ('e \<Rightarrow> 's \<Rightarrow> bool) \<Rightarrow> 'e list \<Rightarrow> 's \<Rightarrow> bool" where
  "fair_run do fair [] s = True"
| "fair_run do fair (e # es) s = (fair e s \<and> fair_run do fair es (do e s))"

locale stepping =
  fixes may :: "'e \<Rightarrow> 's \<Rightarrow> bool" and step :: "'e \<Rightarrow> 's \<Rightarrow> 's" and fair :: "'e \<Rightarrow> 's \<Rightarrow> bool" and good :: "'s \<Rightarrow> bool"
  assumes step_good: "may e s \<Longrightarrow> fair e s \<Longrightarrow> good s \<Longrightarrow> good (step e s)"
begin

lemma runs_good: "runs may step es s = Some s' \<Longrightarrow> fair_run step fair es s \<Longrightarrow> good s \<Longrightarrow> good s'"
  by (induction es arbitrary: s) (auto intro: step_good split: if_splits)

end

section \<open>Counting\<close>

definition tally :: "(protocols \<Rightarrow> int) \<Rightarrow> (task \<Rightarrow> int) \<Rightarrow> nat \<Rightarrow> (nat \<Rightarrow> protocols) \<Rightarrow> task list \<Rightarrow> int" where
  "tally f g n p ts = (\<Sum>a<n. f (p a)) + (\<Sum>k\<leftarrow>ts. g k)"

lemma tally_update [simp]:
  "tally f g n (p(a := x)) ts = (if a < n then tally f g n p ts + f x - f (p a) else tally f g n p ts)"
proof (cases "a < n")
  case True
  have "(\<Sum>i<n. f ((p(a := x)) i)) = f x + (\<Sum>i\<in>{..<n} - {a}. f (p i))"
    using True by (simp add: sum.remove [of "{..<n}" a])
  moreover have "(\<Sum>i<n. f (p i)) = f (p a) + (\<Sum>i\<in>{..<n} - {a}. f (p i))"
    using True by (simp add: sum.remove [of "{..<n}" a])
  ultimately show ?thesis
    using True by (simp add: tally_def)
next
  case False
  then have "(\<Sum>i<n. f ((p(a := x)) i)) = (\<Sum>i<n. f (p i))"
    by (intro sum.cong) auto
  then show ?thesis
    using False by (simp add: tally_def)
qed

lemma tally_task [simp]: "tally f g n p (ts @ [k]) = tally f g n p ts + g k"
  by (simp add: tally_def)

lemma tally_more [simp]: "tally f g (Suc n) p ts = tally f g n p ts + f (p n)"
  by (simp add: tally_def)

lemma sum_list_remove1: "k \<in> set ts \<Longrightarrow> (\<Sum>k\<leftarrow>remove1 k ts. g k) = (\<Sum>k\<leftarrow>ts. g k) - (g k :: int)"
  by (induction ts) auto

lemma tally_done [simp]: "k \<in> set ts \<Longrightarrow> tally f g n p (remove1 k ts) = tally f g n p ts - g k"
  by (simp add: tally_def sum_list_remove1)

text \<open>The removed elements and the ones that are left are those of the array.\<close>

lemma sweep_mset:
  assumes "i \<le> n" "n \<le> length xs"
  shows "mset (fst (sweep P i n xs)) + mset (snd (sweep P i n xs)) = mset (take n xs)"
  using assms
proof (induction P i n xs rule: sweep.induct)
  case (2 P i n xs)
  show ?case
  proof (cases "P (xs ! i)")
    case False
    then show ?thesis using 2 by simp
  next
    case True
    obtain m where n: "n = Suc m" using 2(3) by (cases n) auto
    let ?ys = "xs[i := xs ! m]"
    have "mset (fst (sweep P i m ?ys)) + mset (snd (sweep P i m ?ys)) = mset (take m ?ys)"
      using 2 True n by simp
    moreover have "add_mset (xs ! i) (mset (take m ?ys)) = mset (take n xs)"
    proof (cases "i = m")
      case True
      then show ?thesis using 2 n by (simp add: take_Suc_conv_app_nth)
    next
      case False
      then have "i < length (take m xs)" using 2(3,4) n by simp
      then have "mset ((take m xs)[i := xs ! m]) = add_mset (xs ! m) (mset (take m xs) - {#xs ! i#})"
        using mset_update [of i "take m xs" "xs ! m"] by simp
      moreover have "xs ! i \<in># mset (take m xs)"
        using \<open>i < length (take m xs)\<close> by (metis nth_mem nth_take set_mset_mset length_take min_less_iff_conj)
      ultimately show ?thesis
        using 2(4) n by (simp add: take_update_swap take_Suc_conv_app_nth)
    qed
    ultimately show ?thesis
      using True n by (simp add: case_prod_beta)
  qed
qed simp

lemma swept_mset: "swept P xs = (gone, left) \<Longrightarrow> mset gone + mset left = mset xs"
  using sweep_mset [of "length xs" "length xs" xs P] by (simp add: swept_def)

section \<open>Invariant\<close>

text \<open>Who has a connection, beside the idle lists; who stands behind an entry of a busy list; what counts as busy without one.\<close>

fun owner_task :: "nat \<Rightarrow> task \<Rightarrow> int" where
  "owner_task c (Closing c' maxConns a) = of_bool (c' = c)"
| "owner_task c (Returning c' mayRecycle) = of_bool (c' = c)"
| "owner_task c (HandleGot c' closeAllIdle) = of_bool (c' = c)"
| "owner_task c k = 0"

fun busy_task :: "task \<Rightarrow> int" where
  "busy_task (Returning c mayRecycle) = 1"
| "busy_task (HandleGot c closeAllIdle) = 1"
| "busy_task k = 0"

fun closing_task :: "task \<Rightarrow> int" where
  "closing_task (Closing c maxConns a) = 1"
| "closing_task k = 0"

fun connecting_task :: "nat \<Rightarrow> task \<Rightarrow> int" where
  "connecting_task a (Connecting g now) = of_bool (g_conns g = a)"
| "connecting_task a k = 0"

fun task_getting :: "task \<Rightarrow> getting option" where
  "task_getting (Waiting g iterTill) = Some g"
| "task_getting (Connecting g now) = Some g"
| "task_getting k = None"

abbreviation n_idle :: "protocols \<Rightarrow> int" where "n_idle x \<equiv> int (length (p_idle x))"
abbreviation n_busy :: "protocols \<Rightarrow> int" where "n_busy x \<equiv> int (length (p_busy x))"

abbreviation pool_tally :: "(protocols \<Rightarrow> int) \<Rightarrow> (task \<Rightarrow> int) \<Rightarrow> pool \<Rightarrow> int" where
  "pool_tally f g q \<equiv> tally f g (q_nextProtocols q) (q_protocols q) (q_tasks q)"

definition owners :: "nat \<Rightarrow> pool \<Rightarrow> int" where
  "owners c q = pool_tally (\<lambda>x. int (count (mset (p_idle x)) c)) (owner_task c) q + int (count (mset (q_held q)) c)"

fun task_place :: "task \<Rightarrow> nat option" where
  "task_place (Waiting g iterTill) = Some (g_conns g)"
| "task_place (Connecting g now) = Some (g_conns g)"
| "task_place (Closing c maxConns a) = Some a"
| "task_place k = None"

definition places_ok :: "pool \<Rightarrow> bool" where
  "places_ok q \<longleftrightarrow>
     distinct (map fst (q_perSchema q)) \<and> distinct (map snd (q_perSchema q)) \<and>
     (\<forall>e \<in> set (q_perSchema q). snd e < q_nextProtocols q \<and> p_hash (q_protocols q (snd e)) = fst e) \<and>
     (\<forall>k \<in> set (q_tasks q). \<forall>a. task_place k = Some a \<longrightarrow> a < q_nextProtocols q)"

text \<open>The limit of a hash binds every \<open>Protocols\<close> that was made for it, a removed one too, and the requests for it.\<close>

definition getting_ok :: "(nat \<Rightarrow> nat option) \<Rightarrow> pool \<Rightarrow> getting \<Rightarrow> bool" where
  "getting_ok L q g \<longleftrightarrow> (\<forall>k. L (p_hash (q_protocols q (g_conns g))) = Some k \<longrightarrow> g_maxConns g = num k)"

definition limits_ok :: "(nat \<Rightarrow> nat option) \<Rightarrow> pool \<Rightarrow> bool" where
  "limits_ok L q \<longleftrightarrow>
     (\<forall>a < q_nextProtocols q. \<forall>k. L (p_hash (q_protocols q a)) = Some k \<longrightarrow> occupied q a \<le> int k) \<and>
     (\<forall>k \<in> set (q_tasks q). \<forall>g. task_getting k = Some g \<longrightarrow> getting_ok L q g)"

text \<open>
  The counters, up to \<open>di\<close> and \<open>db\<close>; every connection has one owner, those of \<open>own\<close> being on their way; who uses connections
  is in the busy lists, with \<open>dh\<close> more.
\<close>

definition counts_ok :: "int \<Rightarrow> int \<Rightarrow> (nat \<Rightarrow> int) \<Rightarrow> int \<Rightarrow> pool \<Rightarrow> bool" where
  "counts_ok di db own dh q \<longleftrightarrow>
     q_nIdleAll q + di = pool_tally n_idle (\<lambda>_. 0) q \<and>
     q_nBusyAll q = pool_tally (\<lambda>x. n_busy x + p_nConnecting x) closing_task q + db \<and>
     (\<forall>a < q_nextProtocols q. p_nConnecting (q_protocols q a) = (\<Sum>k\<leftarrow>q_tasks q. connecting_task a k)) \<and>
     (\<forall>c. owners c q + own c \<le> of_bool (c < q_nextConn q)) \<and>
     int (length (q_held q)) + (\<Sum>k\<leftarrow>q_tasks q. busy_task k) + dh \<le> pool_tally n_busy (\<lambda>_. 0) q"

definition pool_ok :: "(nat \<Rightarrow> nat option) \<Rightarrow> int \<Rightarrow> int \<Rightarrow> (nat \<Rightarrow> int) \<Rightarrow> int \<Rightarrow> pool \<Rightarrow> bool" where
  "pool_ok L di db own dh q \<longleftrightarrow> places_ok q \<and> limits_ok L q \<and> counts_ok di db own dh q"

lemmas pool_ok_defs = pool_ok_def places_ok_def limits_ok_def getting_ok_def counts_ok_def owners_def occupied_def

lemma pool_ok_frame [simp]:
  "pool_ok L di db own dh (q\<lparr>q_woken := w\<rparr>) = pool_ok L di db own dh q"
  "pool_ok L di db own dh (q\<lparr>q_hCommonTask := i\<rparr>) = pool_ok L di db own dh q"
  "pool_ok L di db own dh (q\<lparr>q_ended := b\<rparr>) = pool_ok L di db own dh q"
  "pool_ok L di db own dh (q\<lparr>q_onend := b\<rparr>) = pool_ok L di db own dh q"
  "pool_ok L di db own dh (q\<lparr>q_conn := x\<rparr>) = pool_ok L di db own dh q"
  "pool_ok L di db own dh (q\<lparr>q_dsns := y\<rparr>) = pool_ok L di db own dh q"
  "pool_ok L di db own dh (q\<lparr>q_waitQueue := n\<rparr>) = pool_ok L di db own dh q"
  "pool_ok L di db own dh (q\<lparr>q_refused := r\<rparr>) = pool_ok L di db own dh q"
  "pool_ok L di db own dh (q\<lparr>q_useCnt := u\<rparr>) = pool_ok L di db own dh q"
  "pool_ok L di db own dh (q\<lparr>q_takeCare := t\<rparr>) = pool_ok L di db own dh q"
  "pool_ok L di db own dh (q\<lparr>q_nextGetting := m\<rparr>) = pool_ok L di db own dh q"
  "pool_ok L di db own dh (q\<lparr>q_nIdleAll := k\<rparr>) = pool_ok L (di + k - q_nIdleAll q) db own dh q"
  "pool_ok L di db own dh (q\<lparr>q_nBusyAll := k\<rparr>) = pool_ok L di (db + q_nBusyAll q - k) own dh q"
  by (auto simp: pool_ok_defs)

lemma pool_order:
  "q\<lparr>q_tasks := ts, q_nBusyAll := n\<rparr> = q\<lparr>q_nBusyAll := n, q_tasks := ts\<rparr>"
  "q\<lparr>q_tasks := ts, q_protocols := p\<rparr> = q\<lparr>q_protocols := p, q_tasks := ts\<rparr>"
  by simp_all

lemma occupied_update [simp]:
  "occupied (set_protocols a x q) b = (if b = a then n_busy x + p_nConnecting x else occupied q b)"
  by (simp add: occupied_def)

lemma pool_ok_same:
  assumes "p_idle x = p_idle (q_protocols q a)" "p_busy x = p_busy (q_protocols q a)"
    "p_nConnecting x = p_nConnecting (q_protocols q a)" "p_hash x = p_hash (q_protocols q a)"
  shows "pool_ok L di db own dh (set_protocols a x q) = pool_ok L di db own dh q"
proof -
  have "occupied (set_protocols a x q) b = occupied q b" for b
    using assms by (simp add: occupied_def)
  moreover have "p_nConnecting (((q_protocols q)(a := x)) b) = p_nConnecting (q_protocols q b)"
    "p_hash (((q_protocols q)(a := x)) b) = p_hash (q_protocols q b)" for b
    using assms by simp_all
  ultimately show ?thesis
    using assms
    by (simp add: pool_ok_def places_ok_def limits_ok_def getting_ok_def counts_ok_def owners_def
        del: fun_upd_apply occupied_update)
qed

lemma pool_ok_wakings [simp]:
  "pool_ok L di db own dh (closeHaveSlotsTimedOut now a q) = pool_ok L di db own dh q"
  "pool_ok L di db own dh (wake_all a q) = pool_ok L di db own dh q"
  "pool_ok L di db own dh (onend q) = pool_ok L di db own dh q"
  "pool_ok L di db own dh (stop_common q) = pool_ok L di db own dh q"
  "pool_ok L di db own dh (start_common b q) = pool_ok L di db own dh q"
  "pool_ok L di db own dh (all_quiet q) = pool_ok L di db own dh q"
  by (simp_all add: closeHaveSlotsTimedOut_def wake_all_def onend_def stop_common_def start_common_def all_quiet_def Let_def
      pool_ok_same case_prod_beta)

lemma pool_ok_dec [simp]:
  "pool_ok L di db own dh (decNBusyAll m a q) = pool_ok L di (db + 1) own dh q"
  by (auto simp: decNBusyAll_def Let_def)

text \<open>A place and the tasks change together: what has to be seen to.\<close>

lemma pool_ok_update:
  assumes ok: "pool_ok L di db own dh q" and a: "a < q_nextProtocols q \<or> x = q_protocols q a"
    and tasks: "\<And>g. (\<Sum>k\<leftarrow>ts. g k) = (\<Sum>k\<leftarrow>q_tasks q. g k) + (h g :: int)" "set ts \<subseteq> set (q_tasks q) \<union> K"
    and new: "\<And>k b. k \<in> K \<Longrightarrow> task_place k = Some b \<Longrightarrow> b < q_nextProtocols q"
      "\<And>k g. k \<in> K \<Longrightarrow> task_getting k = Some g \<Longrightarrow> getting_ok L q g"
    and lim: "\<And>k. a < q_nextProtocols q \<Longrightarrow> L (p_hash (q_protocols q a)) = Some k \<Longrightarrow> n_busy x + p_nConnecting x \<le> int k"
    and hash: "p_hash x = p_hash (q_protocols q a)"
    and nc: "\<And>b. h (connecting_task b) = (if b = a then p_nConnecting x - p_nConnecting (q_protocols q a) else 0)"
    and h0: "h (\<lambda>_. 0) = 0"
    and ni: "ni + di' = q_nIdleAll q + di + n_idle x - n_idle (q_protocols q a)"
    and nb: "nb = q_nBusyAll q + n_busy x + p_nConnecting x - occupied q a + h closing_task + db' - db"
    and ow: "\<And>c. int (count (mset (p_idle x)) c) + h (owner_task c) + int (count (mset held) c) + own' c
        \<le> int (count (mset (p_idle (q_protocols q a))) c) + int (count (mset (q_held q)) c) + own c"
    and us: "int (length held) + h busy_task + dh' + n_busy (q_protocols q a) \<le> int (length (q_held q)) + dh + n_busy x"
  shows "pool_ok L di' db' own' dh'
    (set_protocols a x q\<lparr>q_tasks := ts, q_nIdleAll := ni, q_nBusyAll := nb, q_held := held\<rparr>)"
proof -
  have t: "tally f g n p ts = tally f g n p (q_tasks q) + h g" for f g n p
    using tasks(1) [of g] by (simp add: tally_def)
  have u: "tally f g (q_nextProtocols q) ((q_protocols q)(a := x)) ts' = pool_tally f g (q\<lparr>q_tasks := ts'\<rparr>) + f x - f (q_protocols q a)"
    for f g ts'
    using a by auto
  have ok': "places_ok q" "limits_ok L q" "counts_ok di db own dh q"
    using ok by (simp_all add: pool_ok_def)
  let ?q = "set_protocols a x q\<lparr>q_tasks := ts, q_nIdleAll := ni, q_nBusyAll := nb, q_held := held\<rparr>"
  have hashes: "p_hash (q_protocols ?q b) = p_hash (q_protocols q b)" for b
    using hash by simp
  have nexts: "q_nextProtocols ?q = q_nextProtocols q" "q_perSchema ?q = q_perSchema q" "q_tasks ?q = ts"
    by simp_all
  have "places_ok ?q"
    unfolding places_ok_def hashes nexts using ok'(1) tasks(2) new(1) unfolding places_ok_def by blast
  moreover have getting: "getting_ok L ?q = getting_ok L q"
    by (intro ext) (simp add: getting_ok_def hash)
  have "occupied ?q b \<le> int k" if "b < q_nextProtocols q" "L (p_hash (q_protocols q b)) = Some k" for b k
    using ok'(2) that lim by (auto simp: limits_ok_def occupied_def)
  then have "limits_ok L ?q"
    unfolding limits_ok_def hashes nexts getting using ok'(2) tasks(2) new(2) unfolding limits_ok_def by blast
  moreover have "counts_ok di' db' own' dh' ?q"
  proof -
    have A: "owners c ?q + own' c \<le> owners c q + own c" for c
      using ow [of c] by (simp add: owners_def t u del: tally_update)
    have B: "owners c q + own c \<le> of_bool (c < q_nextConn q)" for c
      using ok'(3) unfolding counts_ok_def by blast
    have 1: "owners c ?q + own' c \<le> of_bool (c < q_nextConn ?q)" for c
      using order_trans [OF A [of c] B [of c]] by simp
    have 2: "p_nConnecting (q_protocols ?q b) = (\<Sum>k\<leftarrow>q_tasks ?q. connecting_task b k)" if "b < q_nextProtocols ?q" for b
      using that ok'(3) nc [of b] tasks(1) [of "connecting_task b"] by (auto simp: counts_ok_def)
    have 3: "int (length (q_held ?q)) + (\<Sum>k\<leftarrow>q_tasks ?q. busy_task k) + dh' \<le> pool_tally n_busy (\<lambda>_. 0) ?q"
      using ok'(3) us h0 by (simp add: counts_ok_def t u tasks(1) [of busy_task] del: tally_update)
    have 4: "q_nIdleAll ?q + di' = pool_tally n_idle (\<lambda>_. 0) ?q"
      using ok'(3) ni h0 by (simp add: counts_ok_def t u del: tally_update)
    have 5: "q_nBusyAll ?q = pool_tally (\<lambda>x. n_busy x + p_nConnecting x) closing_task ?q + db'"
      using ok'(3) nb by (simp add: counts_ok_def t u occupied_def del: tally_update)
    show ?thesis
      unfolding counts_ok_def using 1 2 3 4 5 by blast
  qed
  ultimately show ?thesis
    by (simp add: pool_ok_def)
qed

text \<open>Without a place, and with one more task or one task less.\<close>

lemma pool_ok_add:
  assumes "pool_ok L di db own dh q"
    and "\<And>b. task_place k = Some b \<Longrightarrow> b < q_nextProtocols q" "\<And>g. task_getting k = Some g \<Longrightarrow> getting_ok L q g"
    and "\<And>b. connecting_task b k = 0"
  shows "pool_ok L di (db - closing_task k) (\<lambda>c. own c - owner_task c k) (dh - busy_task k) (q\<lparr>q_tasks := q_tasks q @ [k]\<rparr>)"
proof -
  have "pool_ok L di (db - closing_task k) (\<lambda>c. own c - owner_task c k) (dh - busy_task k)
    (set_protocols 0 (q_protocols q 0) q\<lparr>q_tasks := q_tasks q @ [k], q_nIdleAll := q_nIdleAll q, q_nBusyAll := q_nBusyAll q,
      q_held := q_held q\<rparr>)"
    by (rule pool_ok_update [OF assms(1), where h = "\<lambda>g. g k" and K = "{k}"])
      (use assms in \<open>auto simp: pool_ok_def limits_ok_def occupied_def\<close>)
  then show ?thesis by simp
qed

lemma pool_ok_remove:
  assumes "pool_ok L di db own dh q" "k \<in> set (q_tasks q)" "\<And>b. connecting_task b k = 0"
  shows "pool_ok L di (db + closing_task k) (\<lambda>c. own c + owner_task c k) (dh + busy_task k) (done_with k q)"
proof -
  have "pool_ok L di (db + closing_task k) (\<lambda>c. own c + owner_task c k) (dh + busy_task k)
    (set_protocols 0 (q_protocols q 0) q\<lparr>q_tasks := remove1 k (q_tasks q), q_nIdleAll := q_nIdleAll q, q_nBusyAll := q_nBusyAll q,
      q_held := q_held q\<rparr>)"
    by (rule pool_ok_update [OF assms(1), where h = "\<lambda>g. - g k" and K = "{}"])
      (use assms in \<open>auto simp: pool_ok_def limits_ok_def occupied_def sum_list_remove1 dest: notin_set_remove1
        intro: set_remove1_subset [THEN subsetD]\<close>)
  then show ?thesis by (simp add: done_with_def)
qed

text \<open>The pieces of the operations.\<close>

lemma pool_ok_closeConn:
  assumes "pool_ok L di db (\<lambda>x. own x + of_bool (c = x)) dh q" "a < q_nextProtocols q"
  shows "pool_ok L di db own dh (pool_closeConn m a c q)"
  using pool_ok_add [of L di "db + 1" "\<lambda>x. own x + of_bool (c = x)" dh "q\<lparr>q_nBusyAll := q_nBusyAll q + 1\<rparr>" "Closing c m a"]
    assms by (simp add: pool_closeConn_def)

lemma count_butlast: "xs \<noteq> [] \<Longrightarrow> int (count (mset (butlast xs)) c) = int (count (mset xs) c) - of_bool (last xs = c)"
  by (induction xs rule: rev_induct) auto

lemma length_butlast_int: "xs \<noteq> [] \<Longrightarrow> int (length (butlast xs)) = int (length xs) - 1"
  by (cases xs) auto

lemma pool_ok_pop:
  assumes "pool_ok L di db own dh q" "a < q_nextProtocols q" "p_idle (q_protocols q a) \<noteq> []"
  shows "pool_ok L (di - 1) db (\<lambda>x. own x + of_bool (last (p_idle (q_protocols q a)) = x)) dh (pop_idle a q)"
proof -
  let ?x = "q_protocols q a"
  have "pool_ok L (di - 1) db (\<lambda>x. own x + of_bool (last (p_idle ?x) = x)) dh
    (set_protocols a (?x\<lparr>p_idle := butlast (p_idle ?x)\<rparr>) q\<lparr>q_tasks := q_tasks q, q_nIdleAll := q_nIdleAll q, q_nBusyAll := q_nBusyAll q,
      q_held := q_held q\<rparr>)"
    by (rule pool_ok_update [OF assms(1), where h = "\<lambda>g. 0" and K = "{}"])
      (use assms in \<open>auto simp: pool_ok_def limits_ok_def occupied_def count_butlast length_butlast_int simp del: length_butlast\<close>)
  then show ?thesis by (simp add: pop_idle_def Let_def)
qed

lemma pool_ok_hand_out:
  assumes "pool_ok L di db (\<lambda>x. own x + of_bool (c = x)) dh q" "g_conns g < q_nextProtocols q"
    and "\<And>k. L (p_hash (q_protocols q (g_conns g))) = Some k \<Longrightarrow> occupied q (g_conns g) < int k"
  shows "pool_ok L di db own dh (hand_out g c (set_protocols (g_conns g)
    ((q_protocols q (g_conns g))\<lparr>p_busy := p_busy (q_protocols q (g_conns g)) @ [c]\<rparr>) q\<lparr>q_nBusyAll := q_nBusyAll q + 1\<rparr>))"
proof -
  let ?a = "g_conns g"
  let ?x = "q_protocols q ?a"
  let ?t = "case g_asker g of Client \<Rightarrow> [] | CareTaker info b \<Rightarrow> [HandleGot c b]"
  let ?h = "case g_asker g of Client \<Rightarrow> [c] | CareTaker info b \<Rightarrow> []"
  have lim: "n_busy (?x\<lparr>p_busy := p_busy ?x @ [c]\<rparr>) + p_nConnecting (?x\<lparr>p_busy := p_busy ?x @ [c]\<rparr>) \<le> int k"
    if "?a < q_nextProtocols q" "L (p_hash (q_protocols q ?a)) = Some k" for k
    using assms(3) [OF that(2)] by (simp add: occupied_def)
  have "pool_ok L di db own dh
    (set_protocols ?a (?x\<lparr>p_busy := p_busy ?x @ [c]\<rparr>) q\<lparr>q_tasks := q_tasks q @ ?t, q_nIdleAll := q_nIdleAll q,
      q_nBusyAll := q_nBusyAll q + 1, q_held := q_held q @ ?h\<rparr>)"
    by (rule pool_ok_update [OF assms(1) _ _ _ _ _ lim, where h = "\<lambda>g. \<Sum>k\<leftarrow>?t. g k" and K = "set ?t"])
      (use assms(2,3) in \<open>auto simp: occupied_def split: asker.splits\<close>)
  then show ?thesis
    by (cases "g_asker g") (simp_all add: hand_out_def pool_order del: pool_ok_frame)
qed

lemma pool_ok_make_busy:
  assumes "pool_ok L di db (\<lambda>x. own x + of_bool (c = x)) dh q" "g_conns g < q_nextProtocols q"
    and "\<And>k. L (p_hash (q_protocols q (g_conns g))) = Some k \<Longrightarrow> occupied q (g_conns g) < int k"
  shows "pool_ok L di db own dh (make_busy g now c q)"
proof -
  obtain t where "make_busy g now c q = (let q = start_common False (set_conn c t q) in
      hand_out g c (set_protocols (g_conns g)
        ((q_protocols q (g_conns g))\<lparr>p_busy := p_busy (q_protocols q (g_conns g)) @ [c]\<rparr>) q\<lparr>q_nBusyAll := q_nBusyAll q + 1\<rparr>))"
    by (simp add: make_busy_def Let_def)
  then show ?thesis
    using pool_ok_hand_out [of L di db own c dh "start_common False (set_conn c t q)" g] assms
    by (simp add: Let_def) (simp add: start_common_def occupied_def)
qed

lemma pool_ok_start_connecting:
  assumes "pool_ok L di db own dh q" "g_conns g < q_nextProtocols q" "getting_ok L q g"
    and "\<And>k. L (p_hash (q_protocols q (g_conns g))) = Some k \<Longrightarrow> occupied q (g_conns g) < int k"
  shows "pool_ok L di db own dh (start_connecting g now q)"
proof -
  let ?a = "g_conns g"
  let ?x = "q_protocols q ?a"
  have lim: "n_busy (?x\<lparr>p_nConnecting := p_nConnecting ?x + 1\<rparr>) + p_nConnecting (?x\<lparr>p_nConnecting := p_nConnecting ?x + 1\<rparr>) \<le> int k"
    if "?a < q_nextProtocols q" "L (p_hash (q_protocols q ?a)) = Some k" for k
    using assms(4) [OF that(2)] by (simp add: occupied_def)
  have "pool_ok L di db own dh
    (set_protocols ?a (?x\<lparr>p_nConnecting := p_nConnecting ?x + 1\<rparr>) q\<lparr>q_tasks := q_tasks q @ [Connecting g now], q_nIdleAll := q_nIdleAll q,
      q_nBusyAll := q_nBusyAll q + 1, q_held := q_held q\<rparr>)"
    by (rule pool_ok_update [OF assms(1) _ _ _ _ _ lim, where h = "\<lambda>k. k (Connecting g now)" and K = "{Connecting g now}"])
      (use assms(2-4) in \<open>auto simp: occupied_def\<close>)
  then show ?thesis
    by (simp add: start_connecting_def Let_def pool_order del: pool_ok_frame)
qed

lemma pool_ok_not_connecting:
  assumes "pool_ok L di db own dh q" "Connecting g now \<in> set (q_tasks q)"
  shows "pool_ok L di (db + 1) own dh (not_connecting g now ok q)"
proof -
  let ?a = "g_conns g"
  let ?x = "q_protocols q ?a"
  have a: "?a < q_nextProtocols q" "\<And>k. L (p_hash (q_protocols q ?a)) = Some k \<Longrightarrow> occupied q ?a \<le> int k"
    using assms by (force simp: pool_ok_def places_ok_def limits_ok_def)+
  let ?y = "?x\<lparr>p_nConnecting := p_nConnecting ?x - 1, p_healthStatus := health_log ok now (p_healthStatus ?x)\<rparr>"
  have lim: "n_busy ?y + p_nConnecting ?y \<le> int k" if "?a < q_nextProtocols q" "L (p_hash (q_protocols q ?a)) = Some k" for k
    using a(2) [OF that(2)] by (simp add: occupied_def)
  have "pool_ok L di (db + 1) own dh
    (set_protocols ?a ?y q\<lparr>
      q_tasks := remove1 (Connecting g now) (q_tasks q), q_nIdleAll := q_nIdleAll q, q_nBusyAll := q_nBusyAll q, q_held := q_held q\<rparr>)"
    by (rule pool_ok_update [OF assms(1) _ _ _ _ _ lim, where h = "\<lambda>k. - k (Connecting g now)" and K = "{}"])
      (use assms(2) a in \<open>auto simp: occupied_def sum_list_remove1 dest: notin_set_remove1 intro: set_remove1_subset [THEN subsetD]\<close>)
  then show ?thesis
    by (simp add: not_connecting_def done_with_def Let_def pool_order del: pool_ok_frame)
qed

definition has_room :: "(nat \<Rightarrow> nat option) \<Rightarrow> pool \<Rightarrow> nat \<Rightarrow> bool" where
  "has_room L q a \<longleftrightarrow> (\<forall>k. L (p_hash (q_protocols q a)) = Some k \<longrightarrow> occupied q a < int k)"

text \<open>What the pieces leave alone.\<close>

definition same_places :: "pool \<Rightarrow> pool \<Rightarrow> bool" where
  "same_places q q' \<longleftrightarrow>
     q_perSchema q' = q_perSchema q \<and> q_nextProtocols q' = q_nextProtocols q \<and>
     (\<forall>a. occupied q' a = occupied q a \<and> p_hash (q_protocols q' a) = p_hash (q_protocols q a))"

lemma same_placesD:
  assumes "same_places q q'"
  shows "has_room L q' a = has_room L q a" "getting_ok L q' g = getting_ok L q g" "q_nextProtocols q' = q_nextProtocols q"
  using assms by (auto simp: same_places_def has_room_def getting_ok_def)

lemma same_places_pop: "same_places q ((pop_idle a q)\<lparr>q_conn := x\<rparr>)"
  by (simp add: same_places_def pop_idle_def Let_def occupied_def)

lemma connect_loop_ok:
  assumes "pool_ok L 0 0 (\<lambda>_. 0) 0 q" "g_conns g < q_nextProtocols q" "getting_ok L q g" "has_room L q (g_conns g)"
  shows "pool_ok L 0 0 (\<lambda>_. 0) 0 (connect_loop g now q)"
  using assms
proof (induction g now q rule: connect_loop.induct)
  case (1 g now q)
  show ?case
  proof (cases "pop_or_steal g q")
    case None
    then show ?thesis
      using 1(2-) by (simp add: connect_loop.simps [of g] pool_ok_start_connecting has_room_def)
  next
    case (Some r)
    obtain c g' q' where r: "r = (c, g', q')" by (cases r)
    obtain a x where *: "p_idle (q_protocols q a) \<noteq> []" "c = last (p_idle (q_protocols q a))"
      "q' = (pop_idle a q)\<lparr>q_conn := x\<rparr>" "g_conns g = a \<or> a \<in> snd ` set (q_perSchema q)"
      "g_maxConns g' = g_maxConns g" "g_conns g' = g_conns g"
      by (rule pop_or_stealE [OF Some [unfolded r]]) (rule that)
    have a: "a < q_nextProtocols q"
      using *(4) 1(2,3) by (auto simp: pool_ok_def places_ok_def)
    let ?q = "q'\<lparr>q_nIdleAll := q_nIdleAll q' - 1\<rparr>"
    have ok: "pool_ok L 0 0 (\<lambda>x. 0 + of_bool (c = x)) 0 ?q"
      using pool_ok_pop [OF 1(2) a *(1)] *(2,3) by simp
    have same: "same_places q ?q"
      using same_places_pop [where q = q and a = a and x = x] *(3) by (simp add: same_places_def occupied_def)
    have g': "getting_ok L ?q g'" "has_room L ?q (g_conns g')" "g_conns g' < q_nextProtocols ?q"
      using 1(3-5) *(5,6) by (simp_all add: same_placesD [OF same] del: pool.simps) (simp add: getting_ok_def)
    show ?thesis
    proof (cases "number_leq (t_useTill (q_conn ?q c)) (num now)")
      case True
      let ?p = "pool_closeConn (g_maxConns g') (g_conns g') c ?q"
      have "same_places ?q ?p"
        by (simp add: same_places_def pool_closeConn_def occupied_def)
      then have "pool_ok L 0 0 (\<lambda>_. 0) 0 (connect_loop g' now ?p)"
        using 1(1) [OF Some r [symmetric] refl refl True] g' pool_ok_closeConn [OF ok g'(3), of "g_maxConns g'"]
        by (simp add: same_placesD del: pool.simps)
      then show ?thesis
        using Some r True by (simp add: connect_loop.simps [of g] Let_def)
    next
      case False
      have "pool_ok L 0 0 (\<lambda>x. 0 + of_bool (c = x)) 0 (use_pending (g_schema g') c ?q)"
        using ok by (simp add: use_pending_def)
      moreover have "same_places ?q (use_pending (g_schema g') c ?q)"
        by (simp add: same_places_def use_pending_def occupied_def)
      then have "has_room L (use_pending (g_schema g') c ?q) (g_conns g')" "g_conns g' < q_nextProtocols (use_pending (g_schema g') c ?q)"
        using g' by (simp_all add: same_placesD del: pool.simps)
      ultimately have "pool_ok L 0 0 (\<lambda>_. 0) 0 (make_busy g' now c (use_pending (g_schema g') c ?q))"
        by (intro pool_ok_make_busy) (simp_all add: has_room_def)
      then show ?thesis
        using Some r False by (simp add: connect_loop.simps [of g] Let_def)
    qed
  qed
qed

lemma refuse_ok [simp]: "pool_ok L di db own dh (refuse g q) = pool_ok L di db own dh q"
proof -
  have "pool_ok L di db own dh (q\<lparr>q_tasks := q_tasks q @ [HandleError info]\<rparr>) = pool_ok L di db own dh q" for info
    by (auto simp: pool_ok_defs)
  then show ?thesis
    by (simp add: refuse_def split: asker.splits)
qed

lemma same_places_wakings [simp]: "same_places q (closeHaveSlotsTimedOut now a q)"
  by (simp add: same_places_def closeHaveSlotsTimedOut_def occupied_def Let_def case_prod_beta)

lemma waitHaveSlots_ok:
  assumes "pool_ok L 0 0 (\<lambda>_. 0) 0 q" "g_conns g < q_nextProtocols q" "getting_ok L q g"
  shows "pool_ok L 0 0 (\<lambda>_. 0) 0 (waitHaveSlots g now q)"
proof -
  let ?q = "closeHaveSlotsTimedOut (num now) (g_conns g) q"
  let ?x = "q_protocols ?q (g_conns g)"
  have "pool_ok L 0 0 (\<lambda>_. 0) 0
    (set_protocols (g_conns g) (?x\<lparr>p_haveSlotsCallbacks := cs\<rparr>) ?q\<lparr>q_tasks := q_tasks ?q @ [Waiting g till]\<rparr>)" for cs till
    using pool_ok_add [of L 0 0 "\<lambda>_. 0" 0 "set_protocols (g_conns g) (?x\<lparr>p_haveSlotsCallbacks := cs\<rparr>) ?q" "Waiting g till"]
      assms same_placesD [OF same_places_wakings [of q "num now" "g_conns g"]]
    by (simp add: pool_ok_same) (simp add: getting_ok_def)
  then show ?thesis
    using assms by (simp add: waitHaveSlots_def Let_def)
qed

lemma find_slot_ok:
  assumes "pool_ok L 0 0 (\<lambda>_. 0) 0 q" "g_conns g < q_nextProtocols q" "getting_ok L q g"
  shows "pool_ok L 0 0 (\<lambda>_. 0) 0 (find_slot g now q)"
proof (cases "number_leq (g_maxConns g) (inum (occupied q (g_conns g)))")
  case True
  then show ?thesis
    using assms waitHaveSlots_ok by (simp add: find_slot_def)
next
  case False
  have "occupied q (g_conns g) < int k" if "g_maxConns g = num k" for k
    using False that by (simp add: not_le)
  then have "has_room L q (g_conns g)"
    using assms(3) by (simp add: has_room_def getting_ok_def)
  then show ?thesis
    using assms False connect_loop_ok by (simp add: find_slot_def)
qed

text \<open>A new place is empty.\<close>

lemma protocols_for_ok:
  assumes "pool_ok L 0 0 (\<lambda>_. 0) 0 q" "protocols_for h q = (a, q')"
  shows "pool_ok L 0 0 (\<lambda>_. 0) 0 q' \<and> (h, a) \<in> set (q_perSchema q') \<and> a < q_nextProtocols q' \<and> q_dsns q' = q_dsns q"
proof (cases "map_of (q_perSchema q) h")
  case (Some b)
  then have "(h, b) \<in> set (q_perSchema q)"
    by (rule map_of_SomeD)
  then show ?thesis
    using assms Some by (auto simp: protocols_for_def pool_ok_def places_ok_def)
next
  case None
  let ?a = "q_nextProtocols q"
  have q': "a = ?a" "q' = set_protocols ?a (new_protocols\<lparr>p_hash := h\<rparr>) q\<lparr>q_nextProtocols := ?a + 1, q_perSchema := q_perSchema q @ [(h, ?a)]\<rparr>"
    using assms(2) None by (auto simp: protocols_for_def Let_def)
  have ok: "places_ok q" "limits_ok L q" "counts_ok 0 0 (\<lambda>_. 0) 0 q"
    using assms(1) by (simp_all add: pool_ok_def)
  have fresh: "h \<notin> fst ` set (q_perSchema q)" "?a \<notin> snd ` set (q_perSchema q)"
    using None ok(1) by (auto simp: map_of_eq_None_iff places_ok_def)
  have places: "places_ok q'"
    using ok(1) fresh q' by (auto simp: places_ok_def intro: less_SucI)
  have tasks: "task_place k \<noteq> Some ?a" if "k \<in> set (q_tasks q)" for k
    using ok(1) that by (auto simp: places_ok_def)
  have "getting_ok L q' g" if k: "k \<in> set (q_tasks q)" "task_getting k = Some g" for k g
  proof -
    have "g_conns g \<noteq> ?a"
      using tasks [OF k(1)] k(2) by (cases k) auto
    moreover have "getting_ok L q g"
      using ok(2) k by (auto simp: limits_ok_def)
    ultimately show ?thesis
      by (simp add: getting_ok_def q')
  qed
  moreover have "occupied q' b \<le> int k" if "b < q_nextProtocols q'" "L (p_hash (q_protocols q' b)) = Some k" for b k
    using ok(2) that by (auto simp: q' limits_ok_def occupied_def new_protocols_def less_Suc_eq split: if_splits)
  ultimately have limits: "limits_ok L q'"
    unfolding limits_ok_def by (simp add: q')
  have "connecting_task ?a k = 0" if "k \<in> set (q_tasks q)" for k
    using tasks [OF that] by (cases k) auto
  then have "(\<Sum>k\<leftarrow>q_tasks q. connecting_task ?a k) = 0"
    by (simp add: sum_list_0 cong: map_cong)
  then have "counts_ok 0 0 (\<lambda>_. 0) 0 q'"
    using ok(3) by (auto simp: counts_ok_def owners_def q' new_protocols_def less_Suc_eq)
  then show ?thesis
    using places limits by (simp add: pool_ok_def q')
qed

text \<open>What the requests are asked to respect.\<close>

definition dsn_within :: "(nat \<Rightarrow> nat option) \<Rightarrow> dsn \<Rightarrow> bool" where
  "dsn_within L d \<longleftrightarrow> (\<forall>k. L (d_hash d) = Some k \<longrightarrow> limit_of d = num k)"

lemma getProtocol_ok:
  assumes "pool_ok L 0 0 (\<lambda>_. 0) 0 q" "dsn_within L (q_dsns q d)"
  shows "pool_ok L 0 0 (\<lambda>_. 0) 0 (getProtocol asker d schema now q)"
proof -
  obtain a q' where p: "protocols_for (d_hash (q_dsns q d)) q = (a, q')"
    by (cases "protocols_for (d_hash (q_dsns q d)) q")
  note ok = protocols_for_ok [OF assms(1) p]
  let ?g = "new_getting asker d schema now a q'"
  have "p_hash (q_protocols q' a) = d_hash (q_dsns q d)"
    using ok by (force simp: pool_ok_def places_ok_def)
  then have "getting_ok L q' ?g"
    using ok assms(2) by (auto simp: getting_ok_def new_getting_def dsn_within_def Let_def)
  then have "pool_ok L 0 0 (\<lambda>_. 0) 0 (find_slot ?g now (q'\<lparr>q_nextGetting := q_nextGetting q' + 1\<rparr>))"
    using ok by (intro find_slot_ok) (simp_all add: getting_ok_def new_getting_def Let_def)
  then show ?thesis
    using p by (simp add: getProtocol_def)
qed

lemma slot_awaited_ok:
  assumes "pool_ok L 0 0 (\<lambda>_. 0) 0 q" "Waiting g till \<in> set (q_tasks q)"
  shows "pool_ok L 0 0 (\<lambda>_. 0) 0 (slot_awaited g till now q)"
proof -
  let ?q = "done_with (Waiting g till) q\<lparr>q_woken := removeAll (g_id g) (q_woken (done_with (Waiting g till) q))\<rparr>"
  have "g_conns g < q_nextProtocols ?q" "getting_ok L ?q g"
    using assms by (fastforce simp: pool_ok_def places_ok_def limits_ok_def getting_ok_def done_with_def)+
  moreover have "pool_ok L 0 0 (\<lambda>_. 0) 0 ?q"
    using pool_ok_remove [OF assms] by simp
  ultimately show ?thesis
    using find_slot_ok [of L ?q g now] by (simp add: slot_awaited_def Let_def)
qed

lemma occupied_not_connecting:
  "occupied (not_connecting g now ok q) (g_conns g) = occupied q (g_conns g) - 1"
  by (simp add: not_connecting_def Let_def occupied_def done_with_def)

lemma connected_ok:
  assumes "pool_ok L 0 0 (\<lambda>_. 0) 0 q" "Connecting g now \<in> set (q_tasks q)"
  shows "pool_ok L 0 0 (\<lambda>_. 0) 0 (connected g now left q)"
proof -
  let ?q = "q\<lparr>q_takeCare := left\<rparr>"
  let ?p = "not_connecting g now True ?q"
  have p: "pool_ok L 0 1 (\<lambda>_. 0) 0 ?p"
    using pool_ok_not_connecting [of L 0 0 "\<lambda>_. 0" 0 ?q g now True] assms by simp
  have place: "g_conns g < q_nextProtocols q"
    "\<And>k. L (p_hash (q_protocols q (g_conns g))) = Some k \<Longrightarrow> occupied q (g_conns g) \<le> int k"
    using assms by (force simp: pool_ok_def places_ok_def limits_ok_def)+
  let ?c = "q_nextConn ?p"
  obtain t where c: "connected g now left q =
      make_busy g now ?c (set_conn ?c t ?p\<lparr>q_nextConn := ?c + 1, q_nBusyAll := q_nBusyAll ?p - 1\<rparr>)"
    by (simp add: connected_def Let_def)
  let ?r = "set_conn ?c t ?p\<lparr>q_nextConn := ?c + 1, q_nBusyAll := q_nBusyAll ?p - 1\<rparr>"
  have "pool_ok L 0 1 (\<lambda>x. 0 + of_bool (?c = x)) 0 (set_conn ?c t ?p\<lparr>q_nextConn := ?c + 1\<rparr>)"
    using p by (auto simp: pool_ok_def places_ok_def limits_ok_def getting_ok_def counts_ok_def owners_def occupied_def
        less_Suc_eq of_bool_def split: if_splits)
  then have "pool_ok L 0 0 (\<lambda>x. 0 + of_bool (?c = x)) 0 ?r"
    by simp
  moreover have "occupied ?r (g_conns g) = occupied q (g_conns g) - 1"
    using occupied_not_connecting [of g now True ?q] by (simp add: occupied_def)
  moreover have "q_nextProtocols ?r = q_nextProtocols q"
    "p_hash (q_protocols ?r (g_conns g)) = p_hash (q_protocols q (g_conns g))"
    by (simp_all add: not_connecting_def done_with_def Let_def)
  moreover have "occupied q (g_conns g) - 1 < int k" if "g_conns g < q_nextProtocols q" "L (p_hash (q_protocols q (g_conns g))) = Some k" for k
    using place(2) [OF that(2)] by simp
  ultimately show ?thesis
    unfolding c using place(1) by (intro pool_ok_make_busy) simp_all
qed

lemma connect_failed_ok:
  assumes "pool_ok L 0 0 (\<lambda>_. 0) 0 q" "Connecting g now \<in> set (q_tasks q)"
  shows "pool_ok L 0 0 (\<lambda>_. 0) 0 (connect_failed g now left q)"
  using pool_ok_not_connecting [of L 0 0 "\<lambda>_. 0" 0 "q\<lparr>q_takeCare := left\<rparr>" g now False] assms
  by (simp add: connect_failed_def)

text \<open>Giving back.\<close>

lemma position_less: "position P xs = Some i \<Longrightarrow> i < length xs"
  by (induction xs arbitrary: i) (auto split: if_splits)

lemma busy_somewhere_place:
  "busy_somewhere P q es = Some (a, i) \<Longrightarrow> a \<in> snd ` set es \<and> i < length (p_busy (q_protocols q a))"
  by (induction es) (auto split: option.splits dest: position_less)

lemma find_busy_place:
  "find_busy c q = Some (a, i) \<Longrightarrow> a \<in> snd ` set (q_perSchema q) \<and> i < length (p_busy (q_protocols q a))"
  by (auto simp: find_busy_def Let_def split: option.splits dest: busy_somewhere_place position_less map_of_SomeD
      intro: rev_image_eqI)

lemma doReturnProtocol_ok:
  assumes "pool_ok L 0 0 (\<lambda>x. case reuse of None \<Rightarrow> 0 | Some c' \<Rightarrow> of_bool (c' = x)) 1 q"
  shows "pool_ok L 0 0 (\<lambda>_. 0) 0 (doReturnProtocol c reuse q)"
proof (cases "find_busy c q")
  case None
  have "counts_ok 0 0 (\<lambda>_. 0) 0 q"
    using assms
    by (auto simp: pool_ok_def counts_ok_def split: option.splits) (smt (verit) of_bool_eq_0_iff of_bool_def)+
  then show ?thesis
    using None assms by (simp add: doReturnProtocol_def pool_ok_def)
next
  case (Some r)
  obtain a i where r: "r = (a, i)" by (cases r)
  let ?x = "q_protocols q a"
  let ?y = "?x\<lparr>p_busy := take_last i (p_busy ?x)\<rparr>"
  let ?z = "case reuse of None \<Rightarrow> ?y | Some c' \<Rightarrow> ?y\<lparr>p_idle := p_idle ?y @ [c']\<rparr>"
  have place: "a \<in> snd ` set (q_perSchema q)" "i < length (p_busy ?x)"
    using find_busy_place Some r by auto
  then have a: "a < q_nextProtocols q"
    using assms by (auto simp: pool_ok_def places_ok_def)
  have len: "int (length (take_last i (p_busy ?x))) = n_busy ?x - 1"
    using place(2) by (simp add: take_last_def)
  have lim: "n_busy ?z + p_nConnecting ?z \<le> int k" if "a < q_nextProtocols q" "L (p_hash (q_protocols q a)) = Some k" for k
  proof -
    have "occupied q a \<le> int k"
      using assms that by (auto simp: pool_ok_def limits_ok_def)
    then show ?thesis
      using len by (simp add: occupied_def split: option.splits)
  qed
  have "pool_ok L 0 1 (\<lambda>_. 0) 0 (set_protocols a ?z q\<lparr>q_tasks := q_tasks q,
      q_nIdleAll := q_nIdleAll q + (case reuse of None \<Rightarrow> 0 | Some _ \<Rightarrow> 1), q_nBusyAll := q_nBusyAll q, q_held := q_held q\<rparr>)"
    by (rule pool_ok_update [OF assms _ _ _ _ _ lim, where h = "\<lambda>_. 0" and K = "{}"])
      (use a len in \<open>auto simp: occupied_def split: option.splits\<close>)
  then have "pool_ok L 0 0 (\<lambda>_. 0) 0 (decNBusyAll m a (set_protocols a ?z q\<lparr>
      q_nIdleAll := q_nIdleAll q + (case reuse of None \<Rightarrow> 0 | Some _ \<Rightarrow> 1)\<rparr>))" for m
    by (simp del: pool_ok_frame)
  then show ?thesis
    using Some r by (cases reuse) (simp_all add: doReturnProtocol_def Let_def del: pool_ok_frame pool_ok_dec)
qed

lemma conn_ended_ok:
  assumes "pool_ok L 0 0 (\<lambda>_. 0) 0 q" "Returning c mayRecycle \<in> set (q_tasks q)"
  shows "pool_ok L 0 0 (\<lambda>_. 0) 0 (conn_ended c mayRecycle isRecycled q)"
proof -
  let ?q = "done_with (Returning c mayRecycle) q"
  have q: "pool_ok L 0 0 (\<lambda>x. of_bool (c = x)) 1 ?q"
    using pool_ok_remove [OF assms] by simp
  have more: "pool_ok L 0 0 (\<lambda>x. of_bool (q_nextConn ?q = x)) 1 (?q\<lparr>q_conn := t, q_nextConn := Suc (q_nextConn ?q)\<rparr>)" for t
  proof -
    have own: "owners x ?q + of_bool (c = x) \<le> of_bool (x < q_nextConn ?q)" for x
      using q by (simp add: pool_ok_def counts_ok_def)
    have "owners x (?q\<lparr>q_conn := t, q_nextConn := Suc (q_nextConn ?q)\<rparr>) + of_bool (q_nextConn ?q = x) \<le> of_bool (x < Suc (q_nextConn ?q))" for x
      using own [of x] by (auto simp: owners_def of_bool_def split: if_splits)
    moreover have "places_ok (?q\<lparr>q_conn := t, q_nextConn := n\<rparr>) = places_ok ?q" for n
      by (simp add: places_ok_def)
    moreover have "limits_ok L (?q\<lparr>q_conn := t, q_nextConn := n\<rparr>) = limits_ok L ?q" for n
      by (simp add: limits_ok_def getting_ok_def occupied_def)
    ultimately show ?thesis
      using q by (simp add: pool_ok_def) (simp add: counts_ok_def)
  qed
  have "pool_ok L 0 0 (\<lambda>_. 0) 1 ?q"
    using q by (auto simp: pool_ok_def counts_ok_def) (smt (verit) of_bool_eq_0_iff of_bool_def)+
  then show ?thesis
    using more by (auto simp: conn_ended_def recycled_def Let_def intro!: doReturnProtocol_ok)
qed

lemma let_go_ok:
  assumes "pool_ok L 0 0 (\<lambda>_. 0) 0 q" "c \<in> set (q_held q)"
  shows "pool_ok L 0 0 (\<lambda>x. of_bool (c = x)) 1 (let_go c q)"
proof -
  have "pool_ok L 0 0 (\<lambda>x. of_bool (c = x)) 1
    (set_protocols 0 (q_protocols q 0) q\<lparr>q_tasks := q_tasks q, q_nIdleAll := q_nIdleAll q, q_nBusyAll := q_nBusyAll q,
      q_held := remove1 c (q_held q)\<rparr>)"
    by (rule pool_ok_update [OF assms(1), where h = "\<lambda>g. 0" and K = "{}"])
      (use assms in \<open>auto simp: pool_ok_def limits_ok_def occupied_def length_remove1 of_nat_diff Suc_le_eq
        dest: length_pos_if_in_set\<close>)
  then show ?thesis
    by (simp add: let_go_def)
qed

lemma own_less:
  assumes "pool_ok L di db own dh q" "\<And>x. own' x \<le> own x" "dh' \<le> dh"
  shows "pool_ok L di db own' dh' q"
  using assms order_trans [OF add_left_mono [OF assms(2)]]
  by (auto simp: pool_ok_def counts_ok_def)

lemma returnProtocol_ok:
  assumes "pool_ok L 0 0 (\<lambda>x. of_bool (c = x)) 1 q"
  shows "pool_ok L 0 0 (\<lambda>_. 0) 0 (returnProtocol c now q)"
proof -
  let ?k = "Returning c (number_less (Finite 0) (number_add (t_useNTimes (q_conn q c)) (Finite (- 1))) \<and> number_less (num now) (t_useTill (q_conn q c)))"
  obtain t where "returnProtocol c now q = set_conn c t q\<lparr>q_tasks := q_tasks (set_conn c t q) @ [?k]\<rparr>"
    by (simp add: returnProtocol_def Let_def)
  then show ?thesis
    using pool_ok_add [of L 0 0 "\<lambda>x. of_bool (c = x)" 1 "set_conn c t q" ?k] assms by simp
qed

lemma forceDisconnect_ok:
  assumes "pool_ok L 0 0 (\<lambda>x. of_bool (c = x)) 1 q"
  shows "pool_ok L 0 0 (\<lambda>_. 0) 0 (forceDisconnect c rollback kill connectionId querying q)"
proof -
  have "pool_ok L 0 0 (\<lambda>_. 0) 1 q"
    by (rule own_less [OF assms]) simp_all
  then have "pool_ok L 0 0 (\<lambda>_. 0) 1 (if b then start_common True (q\<lparr>q_takeCare := infos\<rparr>) else q)" for b infos
    by simp
  then show ?thesis
    unfolding forceDisconnect_def Let_def by (intro doReturnProtocol_ok) simp
qed

lemma closed_ok:
  assumes "pool_ok L 0 0 (\<lambda>_. 0) 0 q" "Closing c m a \<in> set (q_tasks q)"
  shows "pool_ok L 0 0 (\<lambda>_. 0) 0 (closed c m a q)"
proof -
  have "pool_ok L 0 1 (\<lambda>_. 0) 0 (done_with (Closing c m a) q)"
    by (rule own_less [OF pool_ok_remove [OF assms, simplified]]) simp_all
  then show ?thesis
    by (simp add: closed_def)
qed

lemma handle_ok:
  assumes "pool_ok L 0 0 (\<lambda>_. 0) 0 q"
  shows "HandleGot c b \<in> set (q_tasks q) \<Longrightarrow> pool_ok L 0 0 (\<lambda>_. 0) 0 (handle_got c b now q)"
    "HandleError info \<in> set (q_tasks q) \<Longrightarrow> pool_ok L 0 0 (\<lambda>_. 0) 0 (handle_error info q)"
  using pool_ok_remove [OF assms, of "HandleGot c b"] pool_ok_remove [OF assms, of "HandleError info"]
  by (auto simp: handle_got_def handle_error_def Let_def intro!: returnProtocol_ok)

text \<open>The common task.\<close>

lemma fold_ok: "(\<And>x q. x \<in> set xs \<Longrightarrow> P q \<Longrightarrow> P (f x q)) \<Longrightarrow> P q \<Longrightarrow> P (fold f xs q)"
  by (induction xs arbitrary: q) auto

lemma fold_closeConn_ok:
  assumes "pool_ok L di db (\<lambda>x. own x + int (count (mset gone) x)) dh q" "a < q_nextProtocols q"
  shows "pool_ok L di db own dh (fold (\<lambda>c q. pool_closeConn (m c q) a c q) gone q)"
  using assms
proof (induction gone arbitrary: q)
  case (Cons c gone)
  have "pool_ok L di db (\<lambda>x. own x + int (count (mset gone) x)) dh (pool_closeConn (m c q) a c q)"
    by (rule pool_ok_closeConn [OF own_less [OF Cons.prems(1)] Cons.prems(2)]) simp_all
  then show ?case
    using Cons by (simp add: pool_closeConn_def)
qed simp

lemma close_expired_ok:
  assumes "pool_ok L 0 0 (\<lambda>_. 0) 0 q" "a < q_nextProtocols q"
  shows "pool_ok L 0 0 (\<lambda>_. 0) 0 (close_expired closeAllIdle now h a q)"
proof -
  let ?x = "q_protocols q a"
  let ?P = "\<lambda>c. (closeAllIdle \<or> (\<exists>v \<in> set (q_takeCare q). d_hash (q_dsns q (k_dsn v)) = h)) \<or> number_leq (t_useTill (q_conn q c)) (num now)"
  obtain gone left where s: "swept ?P (p_idle ?x) = (gone, left)"
    by (cases "swept ?P (p_idle ?x)")
  then have m: "mset gone + mset left = mset (p_idle ?x)"
    by (rule swept_mset)
  have n: "length gone + length left = length (p_idle ?x)"
    using arg_cong [OF m, of size] by simp
  let ?y = "?x\<lparr>p_idle := left\<rparr>"
  have lim: "n_busy ?y + p_nConnecting ?y \<le> int k" if "a < q_nextProtocols q" "L (p_hash (q_protocols q a)) = Some k" for k
    using assms(1) that by (auto simp: pool_ok_def limits_ok_def occupied_def)
  have "pool_ok L 0 0 (\<lambda>x. 0 + int (count (mset gone) x)) 0 (set_protocols a ?y q\<lparr>q_tasks := q_tasks q,
      q_nIdleAll := q_nIdleAll q - int (length gone), q_nBusyAll := q_nBusyAll q, q_held := q_held q\<rparr>)"
    by (rule pool_ok_update [OF assms(1) _ _ _ _ _ lim, where h = "\<lambda>_. 0" and K = "{}"])
      (use assms(2) n in \<open>auto simp: occupied_def m [symmetric] n [symmetric]\<close>)
  then have "pool_ok L 0 0 (\<lambda>x. 0 + int (count (mset gone) x)) 0
    (set_protocols a ?y q\<lparr>q_nIdleAll := q_nIdleAll q - int (length gone)\<rparr>)"
    by (simp del: pool_ok_frame)
  then have "pool_ok L 0 0 (\<lambda>_. 0) 0 (fold (\<lambda>c q. pool_closeConn (limit_of (dsn_of q c)) a c q) gone
    (set_protocols a ?y q\<lparr>q_nIdleAll := q_nIdleAll q - int (length gone)\<rparr>))"
    by (rule fold_closeConn_ok) (use assms(2) in simp)
  then show ?thesis
    unfolding close_expired_def Let_def s by simp
qed

lemma forget_empty_ok:
  assumes "pool_ok L 0 0 (\<lambda>_. 0) 0 q"
  shows "pool_ok L 0 0 (\<lambda>_. 0) 0 (forget_empty now h a q)"
proof -
  have "distinct (map f (filter P xs))" if "distinct (map f xs)" for f :: "nat \<times> nat \<Rightarrow> nat" and P xs
    using that by (rule distinct_map_filter)
  then have "places_ok (q\<lparr>q_perSchema := filter (\<lambda>e. fst e \<noteq> h) (q_perSchema q)\<rparr>)"
    using assms by (simp add: pool_ok_def places_ok_def)
  moreover have "limits_ok L (q\<lparr>q_perSchema := es\<rparr>) = limits_ok L q" "counts_ok 0 0 (\<lambda>_. 0) 0 (q\<lparr>q_perSchema := es\<rparr>) = counts_ok 0 0 (\<lambda>_. 0) 0 q" for es
    by (simp_all add: limits_ok_def getting_ok_def counts_ok_def owners_def occupied_def)
  ultimately have "pool_ok L 0 0 (\<lambda>_. 0) 0 (q\<lparr>q_perSchema := filter (\<lambda>e. fst e \<noteq> h) (q_perSchema q)\<rparr>)"
    using assms by (simp add: pool_ok_def)
  then show ?thesis
    using assms by (simp add: forget_empty_def Let_def)
qed

lemma fold_closeConn_frame [simp]:
  "q_nextProtocols (fold (\<lambda>c q. pool_closeConn (m c q) a c q) gone q) = q_nextProtocols q"
  by (rule fold_ok [where P = "\<lambda>q'. q_nextProtocols q' = q_nextProtocols q"]) (simp_all add: pool_closeConn_def)

lemma common_entry_ok:
  assumes "pool_ok L 0 0 (\<lambda>_. 0) 0 q" "snd e < q_nextProtocols q"
  shows "pool_ok L 0 0 (\<lambda>_. 0) 0 (common_entry closeAllIdle now e q) \<and>
    q_nextProtocols (common_entry closeAllIdle now e q) = q_nextProtocols q"
proof
  show "pool_ok L 0 0 (\<lambda>_. 0) 0 (common_entry closeAllIdle now e q)"
    using assms by (simp add: common_entry_def forget_empty_ok close_expired_ok)
  show "q_nextProtocols (common_entry closeAllIdle now e q) = q_nextProtocols q"
    by (simp add: common_entry_def forget_empty_def close_expired_def closeHaveSlotsTimedOut_def Let_def case_prod_beta)
qed

text \<open>The DSN objects change only from outside.\<close>

lemma fold_frame: "(\<And>x q. F (f x q) = F q) \<Longrightarrow> F (fold f xs q) = F q"
  by (induction xs arbitrary: q) auto

lemma dsns_frame [simp]:
  "q_dsns (closeHaveSlotsTimedOut t a q) = q_dsns q"
  "q_dsns (onend q) = q_dsns q"
  "q_dsns (stop_common q) = q_dsns q"
  "q_dsns (start_common b q) = q_dsns q"
  "q_dsns (wake_all a q) = q_dsns q"
  "q_dsns (all_quiet q) = q_dsns q"
  "q_dsns (decNBusyAll m a q) = q_dsns q"
  "q_dsns (pool_closeConn m a c q) = q_dsns q"
  "q_dsns (done_with k q) = q_dsns q"
  "q_dsns (closed c m a q) = q_dsns q"
  "q_dsns (hand_out g c q) = q_dsns q"
  "q_dsns (refuse g q) = q_dsns q"
  "q_dsns (make_busy g now c q) = q_dsns q"
  "q_dsns (pop_idle a q) = q_dsns q"
  "q_dsns (start_connecting g now q) = q_dsns q"
  "q_dsns (use_pending schema c q) = q_dsns q"
  by (simp_all add: closeHaveSlotsTimedOut_def onend_def stop_common_def start_common_def wake_all_def all_quiet_def
      decNBusyAll_def pool_closeConn_def done_with_def closed_def hand_out_def refuse_def make_busy_def pop_idle_def
      start_connecting_def use_pending_def Let_def case_prod_beta split: asker.splits)

lemma connect_loop_dsns [simp]: "q_dsns (connect_loop g now q) = q_dsns q"
proof (induction g now q rule: connect_loop.induct)
  case (1 g now q)
  show ?case
  proof (cases "pop_or_steal g q")
    case None
    then show ?thesis by (simp add: connect_loop.simps [of g])
  next
    case (Some r)
    obtain c g' q' where r: "r = (c, g', q')" by (cases r)
    then have "q_dsns q' = q_dsns q"
      using Some by (auto elim: pop_or_stealE)
    then show ?thesis
      using 1 [OF Some r [symmetric] refl refl] Some r by (simp add: connect_loop.simps [of g] Let_def)
  qed
qed

lemma dsns_frame_more [simp]:
  "q_dsns (waitHaveSlots g now q) = q_dsns q"
  "q_dsns (find_slot g now q) = q_dsns q"
  "q_dsns (snd (protocols_for h q)) = q_dsns q"
  "q_dsns (getProtocol asker d schema now q) = q_dsns q"
  "q_dsns (slot_awaited g till now q) = q_dsns q"
  "q_dsns (not_connecting g now ok q) = q_dsns q"
  "q_dsns (connected g now left q) = q_dsns q"
  "q_dsns (connect_failed g now left q) = q_dsns q"
  "q_dsns (returnProtocol c now q) = q_dsns q"
  "q_dsns (doReturnProtocol c reuse q) = q_dsns q"
  "q_dsns (snd (recycled c q)) = q_dsns q"
  "q_dsns (conn_ended c mayRecycle isRecycled q) = q_dsns q"
  "q_dsns (forceDisconnect c rollback kill connectionId querying q) = q_dsns q"
  "q_dsns (close_expired b now h a q) = q_dsns q"
  "q_dsns (forget_empty now h a q) = q_dsns q"
  "q_dsns (common_entry b now e q) = q_dsns q"
  "q_dsns (take_care b now info q) = q_dsns q"
  "q_dsns (handle_got c b now q) = q_dsns q"
  "q_dsns (handle_error info q) = q_dsns q"
proof -
  show a: "q_dsns (waitHaveSlots g now q) = q_dsns q" for g now q
    by (simp add: waitHaveSlots_def Let_def)
  show b: "q_dsns (find_slot g now q) = q_dsns q" for g now q
    by (simp add: find_slot_def a)
  show c: "q_dsns (snd (protocols_for h q)) = q_dsns q"  for h q
    by (simp add: protocols_for_def Let_def split: option.splits)
  show d: "q_dsns (getProtocol asker d schema now q) = q_dsns q" for asker d schema now q
    using c [of "d_hash (q_dsns q d)" q] by (simp add: getProtocol_def b case_prod_beta)
  show "q_dsns (slot_awaited g till now q) = q_dsns q"
    by (simp add: slot_awaited_def Let_def b)
  show e: "q_dsns (not_connecting g now ok q) = q_dsns q" for ok q
    by (simp add: not_connecting_def Let_def)
  show "q_dsns (connected g now left q) = q_dsns q" "q_dsns (connect_failed g now left q) = q_dsns q"
    by (simp_all add: connected_def connect_failed_def Let_def e)
  show f: "q_dsns (returnProtocol c now q) = q_dsns q" for c q
    by (simp add: returnProtocol_def Let_def)
  show g: "q_dsns (doReturnProtocol c reuse q) = q_dsns q" for c reuse q
    by (simp add: doReturnProtocol_def Let_def split: option.splits prod.splits)
  show "q_dsns (snd (recycled c q)) = q_dsns q" "q_dsns (conn_ended c mayRecycle isRecycled q) = q_dsns q"
    "q_dsns (forceDisconnect c rollback kill connectionId querying q) = q_dsns q"
    by (simp_all add: recycled_def conn_ended_def forceDisconnect_def Let_def g)
  show h: "q_dsns (close_expired b now h a q) = q_dsns q" for h a q
    using fold_frame [where F = q_dsns and f = "\<lambda>c q. pool_closeConn (limit_of (dsn_of q c)) a c q"]
    by (simp add: close_expired_def Let_def case_prod_beta)
  show i: "q_dsns (forget_empty now h a q) = q_dsns q" for h a q
    by (simp add: forget_empty_def Let_def)
  show "q_dsns (common_entry b now e q) = q_dsns q"
    by (simp add: common_entry_def h i)
  show "q_dsns (take_care b now info q) = q_dsns q"
    by (simp add: take_care_def d)
  show "q_dsns (handle_got c b now q) = q_dsns q" "q_dsns (handle_error info q) = q_dsns q"
    by (simp_all add: handle_got_def handle_error_def Let_def f)
qed

definition pool_inv :: "(nat \<Rightarrow> nat option) \<Rightarrow> pool \<Rightarrow> bool" where
  "pool_inv L q \<longleftrightarrow> pool_ok L 0 0 (\<lambda>_. 0) 0 q \<and> (\<forall>d. dsn_within L (q_dsns q d))"

lemma commonTask_inv:
  assumes "pool_inv L q"
  shows "pool_inv L (commonTask closeAllIdle now q)"
proof -
  let ?P = "\<lambda>q'. pool_inv L q' \<and> q_nextProtocols q' = q_nextProtocols q"
  have "?P (fold (common_entry closeAllIdle now) (q_perSchema q) q)"
  proof (rule fold_ok [where P = ?P])
    fix e q'
    assume "e \<in> set (q_perSchema q)" "?P q'"
    then show "?P (common_entry closeAllIdle now e q')"
      using assms common_entry_ok [of L q' e closeAllIdle now] by (auto simp: pool_inv_def pool_ok_def [of L _ _ _ _ q] places_ok_def)
  qed (use assms in simp)
  moreover have "pool_inv L (fold (take_care closeAllIdle now) infos (q'\<lparr>q_takeCare := []\<rparr>))" if "pool_inv L q'" for infos q'
    using that
    by (intro fold_ok [where P = "pool_inv L"]) (auto simp: pool_inv_def take_care_def intro!: getProtocol_ok)
  ultimately show ?thesis
    by (auto simp: commonTask_def Let_def pool_inv_def)
qed

text \<open>What is demanded of the events: a DSN object is only edited such that its limit stays the one of its hash.\<close>

definition edits_within :: "(nat \<Rightarrow> nat option) \<Rightarrow> pool_event \<Rightarrow> pool \<Rightarrow> bool" where
  "edits_within L e q \<longleftrightarrow> (case e of EditDsn d dsn \<Rightarrow> dsn_within L dsn | _ \<Rightarrow> True)"

lemma happen_inv:
  assumes "may_happen e q" "edits_within L e q" "pool_inv L q"
  shows "pool_inv L (happen e q)"
proof -
  have q: "pool_ok L 0 0 (\<lambda>_. 0) 0 q" "\<And>d. dsn_within L (q_dsns q d)"
    using assms(3) by (simp_all add: pool_inv_def)
  have go: "c \<in> set (q_held q) \<Longrightarrow> pool_ok L 0 0 (\<lambda>x. of_bool (c = x)) 1 (let_go c q)" for c
    using q(1) by (rule let_go_ok)
  have [simp]: "q_dsns (let_go c q) = q_dsns q" for c
    by (simp add: let_go_def)
  have task: "pool_inv L (commonTask b now (q\<lparr>q_hCommonTask := i\<rparr>))" for b now i
    using q by (intro commonTask_inv) (simp add: pool_inv_def)
  show ?thesis
  proof (cases e)
    case (Tick h now)
    then show ?thesis
      using task q by (auto simp: pool_tick_def Let_def pool_inv_def)
  next
    case (DisposeEnd now)
    then show ?thesis
      using task by (simp add: pool_end_def)
  next
    case (EditDsn d dsn)
    then show ?thesis
      using assms(2) q by (auto simp: pool_inv_def edits_within_def)
  qed (use assms(1) q go in \<open>auto simp: pool_inv_def pool_ref_def pool_unref_def pool_dispose_def Let_def onend_def
      intro!: getProtocol_ok slot_awaited_ok connected_ok connect_failed_ok returnProtocol_ok conn_ended_ok forceDisconnect_ok
        closed_ok handle_ok\<close>)
qed

interpretation pl: stepping may_happen happen "edits_within L" "pool_inv L" for L
  by unfold_locales (rule happen_inv)

lemma new_pool_inv: "(\<And>d. dsn_within L (ds d)) \<Longrightarrow> pool_inv L (new_pool ds conns)"
  by (simp add: pool_inv_def pool_ok_def places_ok_def limits_ok_def counts_ok_def new_pool_def tally_def owners_def)

text \<open>What the invariant says to those who use the pool.\<close>

lemma pool_inv_meaning:
  assumes "pool_inv L q"
  shows "\<And>a k. a < q_nextProtocols q \<Longrightarrow> L (p_hash (q_protocols q a)) = Some k \<Longrightarrow> occupied q a \<le> int k"
    and "\<And>h a. (h, a) \<in> set (q_perSchema q) \<Longrightarrow> a < q_nextProtocols q \<and> p_hash (q_protocols q a) = h"
    and "distinct (map fst (q_perSchema q))"
    and "q_nIdleAll q = (\<Sum>a<q_nextProtocols q. n_idle (q_protocols q a))"
    and "q_nBusyAll q = (\<Sum>a<q_nextProtocols q. occupied q a) + (\<Sum>k\<leftarrow>q_tasks q. closing_task k)"
    and "distinct (q_held q)"
    and "int (length (q_held q)) \<le> q_nBusyAll q"
    and "\<And>a c. c \<in> set (q_held q) \<Longrightarrow> a < q_nextProtocols q \<Longrightarrow> c \<notin> set (p_idle (q_protocols q a))"
proof -
  have ok: "places_ok q" "limits_ok L q" "counts_ok 0 0 (\<lambda>_. 0) 0 q"
    using assms by (simp_all add: pool_inv_def pool_ok_def)
  show "\<And>a k. a < q_nextProtocols q \<Longrightarrow> L (p_hash (q_protocols q a)) = Some k \<Longrightarrow> occupied q a \<le> int k"
    using ok(2) by (auto simp: limits_ok_def)
  show "\<And>h a. (h, a) \<in> set (q_perSchema q) \<Longrightarrow> a < q_nextProtocols q \<and> p_hash (q_protocols q a) = h"
    using ok(1) by (force simp: places_ok_def)
  show "distinct (map fst (q_perSchema q))"
    using ok(1) by (simp add: places_ok_def)
  show "q_nIdleAll q = (\<Sum>a<q_nextProtocols q. n_idle (q_protocols q a))"
    using ok(3) by (simp add: counts_ok_def tally_def)
  show busy: "q_nBusyAll q = (\<Sum>a<q_nextProtocols q. occupied q a) + (\<Sum>k\<leftarrow>q_tasks q. closing_task k)"
    using ok(3) by (simp add: counts_ok_def tally_def occupied_def)
  have task: "0 \<le> owner_task c k" "0 \<le> closing_task k" "0 \<le> connecting_task a k" "0 \<le> busy_task k" for c a k
    by (cases k; simp)+
  have sums: "0 \<le> (\<Sum>k\<leftarrow>q_tasks q. f k)" if "\<And>k. 0 \<le> f k" for f :: "task \<Rightarrow> int"
    using that by (intro sum_list_nonneg) auto
  have own: "(\<Sum>a<q_nextProtocols q. int (count (mset (p_idle (q_protocols q a))) c)) + int (count (mset (q_held q)) c) \<le> 1" for c
  proof -
    have "owners c q \<le> of_bool (c < q_nextConn q)"
      using ok(3) unfolding counts_ok_def by force
    also have "\<dots> \<le> 1" by simp
    finally show ?thesis
      using sums [of "owner_task c"] task by (simp add: owners_def tally_def)
  qed
  have "count (mset (q_held q)) c \<le> 1" for c
    using own [of c] sum_nonneg [of "{..<q_nextProtocols q}" "\<lambda>a. int (count (mset (p_idle (q_protocols q a))) c)"] by simp
  then show "distinct (q_held q)"
    by (metis One_nat_def count_greater_zero_iff distinct_count_atmost_1 le_Suc_eq le_zero_eq not_gr_zero set_mset_mset)
  show "int (length (q_held q)) \<le> q_nBusyAll q"
  proof -
    have "(\<Sum>a<q_nextProtocols q. n_busy (q_protocols q a)) \<le> (\<Sum>a<q_nextProtocols q. occupied q a)"
      using ok(3) sums task by (intro sum_mono) (simp add: occupied_def counts_ok_def)
    then show ?thesis
      using ok(3) sums [of busy_task] sums [of closing_task] task busy by (simp add: counts_ok_def tally_def)
  qed
  show "c \<notin> set (p_idle (q_protocols q a))" if "c \<in> set (q_held q)" "a < q_nextProtocols q" for a c
  proof
    assume "c \<in> set (p_idle (q_protocols q a))"
    then have "1 \<le> int (count (mset (p_idle (q_protocols q a))) c)"
      by (simp add: Suc_le_eq count_greater_zero_iff)
    also have "\<dots> \<le> (\<Sum>a<q_nextProtocols q. int (count (mset (p_idle (q_protocols q a))) c))"
      using that(2) by (intro member_le_sum) auto
    moreover have "1 \<le> int (count (mset (q_held q)) c)"
      using that(1) by (simp add: Suc_le_eq count_greater_zero_iff)
    ultimately show False
      using own [of c] by linarith
  qed
qed

section \<open>Disposal\<close>

text \<open>Only the last user or the last connection that is given back ends the wait of \<open>asyncDispose\<close>.\<close>

lemma ended_frame [simp]:
  "q_ended (closeHaveSlotsTimedOut t a q) = q_ended q"
  "q_ended (stop_common q) = q_ended q"
  "q_ended (start_common b q) = q_ended q"
  "q_ended (wake_all a q) = q_ended q"
  "q_ended (pool_closeConn m a c q) = q_ended q"
  "q_ended (done_with k q) = q_ended q"
  "q_ended (let_go c q) = q_ended q"
  "q_ended (hand_out g c q) = q_ended q"
  "q_ended (refuse g q) = q_ended q"
  "q_ended (make_busy g now c q) = q_ended q"
  "q_ended (pop_idle a q) = q_ended q"
  "q_ended (start_connecting g now q) = q_ended q"
  "q_ended (use_pending schema c q) = q_ended q"
  "q_ended (not_connecting g now ok q) = q_ended q"
  "q_ended (connected g now left q) = q_ended q"
  "q_ended (returnProtocol c now q) = q_ended q"
  "q_ended (forget_empty now h a q) = q_ended q"
  "q_ended (handle_got c b now q) = q_ended q"
  "q_ended (handle_error info q) = q_ended q"
  by (simp_all add: closeHaveSlotsTimedOut_def stop_common_def start_common_def wake_all_def pool_closeConn_def done_with_def
      hand_out_def refuse_def make_busy_def pop_idle_def start_connecting_def use_pending_def not_connecting_def connected_def
      returnProtocol_def forget_empty_def handle_got_def handle_error_def let_go_def Let_def case_prod_beta split: asker.splits)

lemma connect_loop_ended [simp]: "q_ended (connect_loop g now q) = q_ended q"
proof (induction g now q rule: connect_loop.induct)
  case (1 g now q)
  show ?case
  proof (cases "pop_or_steal g q")
    case None
    then show ?thesis by (simp add: connect_loop.simps [of g])
  next
    case (Some r)
    obtain c g' q' where r: "r = (c, g', q')" by (cases r)
    then have "q_ended q' = q_ended q"
      using Some by (auto elim: pop_or_stealE)
    then show ?thesis
      using 1 [OF Some r [symmetric] refl refl] Some r by (simp add: connect_loop.simps [of g] Let_def)
  qed
qed

lemma getProtocol_ended [simp]: "q_ended (getProtocol asker d schema now q) = q_ended q"
  "q_ended (slot_awaited g till now q) = q_ended q"
proof -
  have *: "q_ended (find_slot g now q) = q_ended q" for g q
    by (simp add: find_slot_def waitHaveSlots_def Let_def)
  have "q_ended (snd (protocols_for h q)) = q_ended q" for h
    by (simp add: protocols_for_def Let_def split: option.splits)
  then show "q_ended (getProtocol asker d schema now q) = q_ended q" "q_ended (slot_awaited g till now q) = q_ended q"
    by (simp_all add: getProtocol_def slot_awaited_def Let_def case_prod_beta *)
qed

lemma commonTask_ended [simp]: "q_ended (commonTask closeAllIdle now q) = q_ended q"
proof -
  have "q_ended (close_expired b now h a q) = q_ended q" for b h a q
    using fold_frame [where F = q_ended and f = "\<lambda>c q. pool_closeConn (limit_of (dsn_of q c)) a c q"]
    by (simp add: close_expired_def Let_def case_prod_beta)
  then have "q_ended (fold (common_entry closeAllIdle now) es q) = q_ended q" for es q
    by (intro fold_frame) (simp add: common_entry_def)
  moreover have "q_ended (fold (take_care closeAllIdle now) infos q) = q_ended q" for infos q
    by (intro fold_frame) (simp add: take_care_def)
  ultimately show ?thesis
    by (simp add: commonTask_def Let_def)
qed

definition quiet :: "pool \<Rightarrow> bool" where
  "quiet q \<longleftrightarrow> q_useCnt q = 0 \<and> q_nBusyAll q = 0"

lemma decNBusyAll_ended: "q_ended (decNBusyAll m a q) \<Longrightarrow> q_ended q \<or> quiet (decNBusyAll m a q)"
  by (auto simp: decNBusyAll_def all_quiet_def onend_def stop_common_def wake_all_def quiet_def Let_def split: if_splits)

lemma doReturn_ended: "q_ended (doReturnProtocol c reuse q) \<Longrightarrow> q_ended q \<or> quiet (doReturnProtocol c reuse q)"
  by (auto simp: doReturnProtocol_def Let_def dest: decNBusyAll_ended split: option.splits prod.splits)

lemma happen_ended:
  assumes "may_happen e q" "q_ended (happen e q)" "\<not> q_ended q"
  shows "quiet (happen e q)"
proof -
  have refuse: "quiet (refuse g q') = quiet q'" for g q'
    by (simp add: refuse_def quiet_def split: asker.splits)
  show ?thesis
  proof (cases e)
    case (ConnectFailed g now left)
    then show ?thesis
      using assms decNBusyAll_ended by (fastforce simp: connect_failed_def refuse)
  next
    case (ConnEnded c mayRecycle isRecycled)
    then show ?thesis
      using assms by (auto simp: conn_ended_def recycled_def Let_def dest!: doReturn_ended split: if_splits)
  next
    case (Force c rollback kill connectionId querying)
    then show ?thesis
      using assms by (auto simp: forceDisconnect_def Let_def dest!: doReturn_ended split: if_splits)
  next
    case (Closed c maxConns a)
    then show ?thesis
      using assms by (auto simp: closed_def dest!: decNBusyAll_ended)
  qed (use assms in \<open>auto simp: pool_unref_def onend_def quiet_def pool_dispose_def pool_ref_def pool_tick_def Let_def
      split: if_splits\<close>)
qed

section \<open>What goes wrong\<close>

text \<open>A state in which nothing more happens by itself except the timer: nothing is in use, idle, awaited or to be cleared.\<close>

definition dead :: "pool \<Rightarrow> bool" where
  "dead q \<longleftrightarrow> q_tasks q = [] \<and> q_held q = [] \<and> q_takeCare q = [] \<and> q_useCnt q = 0 \<and> \<not> q_ended q \<and>
     list_all (\<lambda>e. p_idle (q_protocols q (snd e)) = []) (q_perSchema q)"

fun by_itself :: "pool_event \<Rightarrow> bool" where
  "by_itself (Get d schema now) = False"
| "by_itself Ref = False"
| "by_itself DisposePool = False"
| "by_itself (EditDsn d dsn) = False"
| "by_itself (SetWaitQueue n) = False"
| "by_itself e = True"

lemma close_expired_nothing:
  assumes "p_idle (q_protocols q a) = []"
  shows "close_expired b now h a q = q"
proof -
  have same: "(q_protocols q a)\<lparr>p_idle := []\<rparr> = q_protocols q a"
    using assms by (cases "q_protocols q a") simp
  have "close_expired b now h a q = set_protocols a ((q_protocols q a)\<lparr>p_idle := []\<rparr>) q"
    using assms by (simp add: close_expired_def swept_def)
  then show ?thesis
    unfolding same by simp
qed

lemma common_entry_dead:
  assumes "dead q" "p_idle (q_protocols q (snd e)) = []"
  shows "dead (common_entry b now e q)"
proof -
  have "close_expired b now (fst e) (snd e) q = q"
    using assms(2) by (rule close_expired_nothing)
  then show ?thesis
    using assms
    by (auto simp: common_entry_def forget_empty_def closeHaveSlotsTimedOut_def dead_def Let_def case_prod_beta list_all_iff)
qed

lemma common_entry_idle:
  assumes "dead q" "p_idle (q_protocols q (snd e)) = []"
  shows "p_idle (q_protocols (common_entry b now e q) a) = p_idle (q_protocols q a)"
proof -
  have "close_expired b now (fst e) (snd e) q = q"
    using assms(2) by (rule close_expired_nothing)
  then show ?thesis
    by (simp add: common_entry_def forget_empty_def closeHaveSlotsTimedOut_def Let_def case_prod_beta)
qed

lemma commonTask_dead:
  assumes "dead q"
  shows "dead (commonTask b now q)"
proof -
  have "dead (fold (common_entry b now) es q)" if "list_all (\<lambda>e. p_idle (q_protocols q (snd e)) = []) es" for es
    using assms that
  proof (induction es arbitrary: q)
    case (Cons e es)
    then show ?case
      using common_entry_dead [of q e b now] common_entry_idle [of q e b now] by (simp add: list_all_iff)
  qed simp
  then have "dead (fold (common_entry b now) (q_perSchema q) q)"
    using assms by (simp add: dead_def)
  then show ?thesis
    by (auto simp: commonTask_def Let_def dead_def stop_common_def)
qed

lemma dead_stays:
  assumes "may_happen e q" "by_itself e" "dead q"
  shows "dead (happen e q)"
proof -
  have *: "dead (q\<lparr>q_hCommonTask := i\<rparr>)" for i
    using assms(3) by (simp add: dead_def)
  show ?thesis
  proof (cases e)
    case (Tick h now)
    then show ?thesis
      using commonTask_dead [OF *] * by (simp add: pool_tick_def Let_def)
  qed (use assms * in \<open>auto simp: dead_def\<close>)
qed

interpretation dl: stepping may_happen happen "\<lambda>e q. by_itself e" dead
  by unfold_locales (rule dead_stays)

lemma dead_runs:
  assumes "dead q" "list_all by_itself es" "pool_runs es q = Some q'"
  shows "dead q'"
proof -
  have "fair_run happen (\<lambda>e q. by_itself e) es q"
    using assms(2) by (induction es arbitrary: q) auto
  then show ?thesis
    by (rule dl.runs_good [OF assms(3) _ assms(1)])
qed

text \<open>DSNs for the examples: one connection at most; \<open>keep\<close> is \<open>keepAliveMax\<close>.\<close>

definition small_dsn :: "nat \<Rightarrow> jsstr \<Rightarrow> number \<Rightarrow> dsn" where
  "small_dsn h p keep =
     \<lparr>d_hostname = [], d_port = num 3306, d_username = [], d_password = p, d_schema = [], d_pipe = [],
      d_connectionTimeout = num 400, d_reconnectInterval = NaN, d_keepAliveTimeout = NaN, d_keepAliveMax = keep,
      d_maxConns = num 1, d_maxColumnLen = NaN, d_foundRows = False, d_ignoreSpace = False, d_multiStatements = False,
      d_retryLockWaitTimeout = False, d_retryQueryTimes = NaN, d_jsonAsString = False, d_datesAsString = False,
      d_correctDates = False, d_storeResultsetIfBigger = NaN, d_allowPublicKeyRetrieval = False, d_serverPublicKey = [],
      d_allowCleartextPasswords = False, d_compress = Uncompressed, d_tls = False, d_tlsCaCert = [], d_tlsHostname = [],
      d_initSql = [], d_name = [], d_hash = h, d_hashNoSchema = h\<rparr>"

definition some_conn :: pconn where
  "some_conn = \<lparr>t_dsn = 0, t_useTill = NaN, t_useNTimes = NaN, t_schema = [], t_with = small_dsn 0 [] NaN\<rparr>"

definition two_dsns :: "nat \<Rightarrow> nat \<Rightarrow> pool" where
  "two_dsns h h' = new_pool (\<lambda>d. if d = 0 then small_dsn h [] (num 1) else small_dsn h' [] (num 1)) (\<lambda>_. some_conn)"

text \<open>The request that a \<open>Get\<close> of the application makes, with its number.\<close>

definition asked :: "nat \<Rightarrow> nat \<Rightarrow> nat \<Rightarrow> nat \<Rightarrow> pool \<Rightarrow> getting" where
  "asked i d now a q = new_getting Client d [] now a (q\<lparr>q_nextGetting := i\<rparr>)"

text \<open>
  A request gives up while the only connection is in use, and leaves its callback behind; the connection is returned and its
  user gone. The callback makes \<open>#decNBusyAll()\<close> take the wrong branch, so the disposal that waits is not told.
\<close>

definition stale_callback :: "pool_event list" where
  "stale_callback =
     (let q = two_dsns 7 8
      in [Ref, Get 0 [] 0, Connected (asked 0 0 0 0 q) 0 [], Ref, Get 0 [] 10,
          SlotAwaited (asked 1 0 10 0 q) (num 410) 410, Unref, DisposePool, Return 0 420, Unref, ConnEnded 0 False False])"

text \<open>
  The connection of a DSN is given back more than a minute after it was opened, while a connection to another server is in
  use: \<open>#decNBusyAll()\<close> counts that one too and does not wake the request that waits. Before its timer fires, the common task
  removes the \<open>Protocols\<close> of the DSN; the request goes on with the removed object, and nobody finds its connection there when
  it is given back.
\<close>

definition lost_protocols :: "pool_event list" where
  "lost_protocols =
     (let q = two_dsns 7 8
      in [Get 0 [] 0, Connected (asked 0 0 0 0 q) 0 [], Get 1 [] 61000, Connected (asked 1 1 61000 1 q) 61000 [],
          Get 0 [] 61500, Return 0 61600, ConnEnded 0 False False, Tick 1 61700,
          SlotAwaited (asked 2 0 61500 0 q) (num 61900) 61900, Connected (asked 2 0 61500 0 q) 61900 [],
          Return 2 62000, ConnEnded 2 False False, Return 1 62100, ConnEnded 1 False False, DisposePool])"

text \<open>The definitions that a run of concrete events unfolds.\<close>

lemmas pool_eval = connect_loop.simps pop_or_steal_def stealIdle_def stealable_def pop_idle_def use_pending_def make_busy_def hand_out_def refuse_def
  start_common_def stop_common_def onend_def all_quiet_def wake_all_def decNBusyAll_def pool_closeConn_def done_with_def closed_def
  start_connecting_def waitHaveSlots_def find_slot_def protocols_for_def new_getting_def getProtocol_def slot_awaited_def
  not_connecting_def connected_def connect_failed_def returnProtocol_def find_busy_def take_last_def doReturnProtocol_def
  recycled_def conn_ended_def close_expired_def forget_empty_def common_entry_def saturated_def take_care_def commonTask_def
  pool_ref_def pool_unref_def pool_dispose_def pool_tick_def closeHaveSlotsTimedOut_def swept_def let_go_def
  occupied_def limit_of_def or_default_def dsn_of_def number_less_def number_min_def at_least_0_def interval_start_def arm_timer_def
  clear_timer_def interval_stop_def timer_fire_def new_interval_def new_protocols_def new_pool_def small_dsn_def some_conn_def two_dsns_def asked_def
  DEFAULT_MAX_CONNS_WAIT_QUEUE_def DEFAULT_CONNECTION_TIMEOUT_MSEC_def DEFAULT_RECONNECT_INTERVAL_MSEC_def
  DEFAULT_KEEP_ALIVE_TIMEOUT_MSEC_def DEFAULT_KEEP_ALIVE_MAX_def COMMON_TASK_EACH_MSEC_def POOL_MAX_CONNS_def MAX_SAFE_def

lemma stale_callback_dead:
  "\<exists>q. pool_runs stale_callback (two_dsns 7 8) = Some q \<and> dead q \<and> q_onend q \<and> q_nBusyAll q = 0"
  by (simp add: stale_callback_def pool_eval Let_def dead_def)

lemma lost_protocols_dead:
  "\<exists>q. pool_runs lost_protocols (two_dsns 7 8) = Some q \<and> dead q \<and> q_onend q \<and> q_nBusyAll q = 1"
  by (simp add: lost_protocols_def pool_eval Let_def dead_def health_isEmpty_def health_log_def new_health_def to_sec_def
      PERIOD_SEC_def bump_cell_def)

lemma runs_append: "runs may do (es @ es') s = (case runs may do es s of None \<Rightarrow> None | Some s' \<Rightarrow> runs may do es' s')"
  by (induction es arbitrary: s) auto

text \<open>
  The limit binds a \<open>Protocols\<close> object, not the server: in between, the request goes on with the removed object while the next
  one makes a new object, and two connections of the same DSN are with the application though it allows one.
\<close>

definition two_objects :: "pool_event list" where
  "two_objects =
     (let q = two_dsns 7 8
      in take 10 lost_protocols @ [Get 0 [] 61950, Connected (asked 3 0 61950 2 q) 61950 []])"

lemma limit_is_exceeded:
  "\<exists>q. pool_runs two_objects (two_dsns 7 8) = Some q \<and> limit_of (q_dsns q 0) = num 1 \<and> {2, 3} \<subseteq> set (q_held q) \<and>
    t_dsn (q_conn q 2) = 0 \<and> t_dsn (q_conn q 3) = 0"
  by (simp add: two_objects_def lost_protocols_def pool_eval Let_def health_isEmpty_def health_log_def new_health_def to_sec_def
      PERIOD_SEC_def bump_cell_def)

text \<open>In between, a request waits though its DSN has a free slot: nothing but its timer wakes it.\<close>

lemma waiter_not_woken:
  "\<exists>q. pool_runs (take 7 lost_protocols) (two_dsns 7 8) = Some q \<and> occupied q 0 = 0 \<and> q_woken q = [] \<and>
    p_haveSlotsCallbacks (q_protocols q 0) = [(2, num 61900)]"
  by (simp add: lost_protocols_def pool_eval Let_def)

text \<open>
  The DSN of the second request differs from that of the first in the password only; it gets the connection that was made with
  the first.
\<close>

definition two_passwords :: "dsn \<Rightarrow> dsn \<Rightarrow> pool" where
  "two_passwords d d' = new_pool (\<lambda>i. if i = 0 then d else d') (\<lambda>_. some_conn)"

definition other_password :: "dsn \<Rightarrow> dsn \<Rightarrow> pool_event list" where
  "other_password d d' =
     [Get 0 [] 0, Connected (asked 0 0 0 0 (two_passwords d d')) 0 [], Return 0 10, ConnEnded 0 True True, Get 1 [] 20]"

lemma connection_is_shared:
  assumes "d_hash d' = d_hash d" "d_keepAliveTimeout d = NaN" "d_keepAliveMax d = NaN" "d_maxConns d = NaN"
    "d_keepAliveTimeout d' = NaN" "d_keepAliveMax d' = NaN" "d_maxConns d' = NaN"
  shows "\<exists>q. pool_runs (other_password d d') (two_passwords d d') = Some q \<and> q_held q = [1] \<and> t_with (q_conn q 1) = d"
  using assms by (cases "d_schema d = []"; simp add: other_password_def two_passwords_def pool_eval Let_def)

end
