(* ===== verification/PoolTasks.thy ===== *)
theory PoolTasks
  imports Pool XaId
begin

text \<open>
  The rest of \<open>src/private/my_pool.ts\<close>: the options, \<open>getConn()\<close>, the loop of \<open>ProtocolsFactory\<close> that connects again and again,
  its store of buffers, and the task that rolls back distributed transactions whose connection is dead.
\<close>

section \<open>Options\<close>

text \<open>\<open>Dsn | string\<close>; functions and loggers are known by number, logger 0 is the console.\<close>

datatype dsn_arg = DsnText jsstr | DsnObject dsn

datatype managed_arg = ManagedText jsstr | ManagedObject dsn | ManagedList "dsn_arg list"

record options_arg =
  a_dsn :: "dsn_arg option"
  a_maxConnsWaitQueue :: "number option"
  a_onLoadFile :: "nat option"
  a_onBeforeCommit :: "nat option"
  a_managedXaDsns :: "managed_arg option"
  a_xaCheckEach :: "number option"
  a_logger :: "nat option"

record options =
  o_dsn :: "dsn option"
  o_maxConnsWaitQueue :: number
  o_onLoadFile :: "nat option"
  o_onBeforeCommit :: "nat option"
  o_managedXaDsns :: "dsn list"
  o_xaCheckEach :: number
  o_logger :: nat

definition DEFAULT_DANGLING_XA_CHECK_EACH_MSEC :: number where "DEFAULT_DANGLING_XA_CHECK_EACH_MSEC = num 6000"

definition new_options :: options where
  "new_options = \<lparr>o_dsn = None, o_maxConnsWaitQueue = DEFAULT_MAX_CONNS_WAIT_QUEUE, o_onLoadFile = None, o_onBeforeCommit = None,
     o_managedXaDsns = [], o_xaCheckEach = DEFAULT_DANGLING_XA_CHECK_EACH_MSEC, o_logger = 0\<rparr>"

definition only_dsn :: "dsn_arg \<Rightarrow> options_arg" where
  "only_dsn d = \<lparr>a_dsn = Some d, a_maxConnsWaitQueue = None, a_onLoadFile = None, a_onBeforeCommit = None, a_managedXaDsns = None,
     a_xaCheckEach = None, a_logger = None\<rparr>"

type_synonym 'a om = "(options, exn, 'a) methodm"

text \<open>A DSN that is parsed, or that is given as an object.\<close>

definition parsed :: "url_env \<Rightarrow> dsn_arg \<Rightarrow> dsn om" where
  "parsed v d = (\<lambda>o'. case d of DsnText s \<Rightarrow> (new_dsn v s, o') | DsnObject x \<Rightarrow> (Inr x, o'))"

definition update_dsn :: "url_env \<Rightarrow> dsn_arg option \<Rightarrow> unit om" where
  "update_dsn v d =
     (case d of
        None \<Rightarrow> ret ()
      | Some (DsnText []) \<Rightarrow> modifyM (\<lambda>o'. o'\<lparr>o_dsn := None\<rparr>)
      | Some d \<Rightarrow> bindM (parsed v d) (\<lambda>x. modifyM (\<lambda>o'. o'\<lparr>o_dsn := Some x\<rparr>)))"

definition push_managed :: "dsn \<Rightarrow> unit om" where
  "push_managed x = modifyM (\<lambda>o'. o'\<lparr>o_managedXaDsns := o_managedXaDsns o' @ [x]\<rparr>)"

text \<open>The list is emptied first; items that are the empty string are left out.\<close>

fun push_all :: "url_env \<Rightarrow> dsn_arg list \<Rightarrow> unit om" where
  "push_all v [] = ret ()"
| "push_all v (d # ds) =
     bindM (if d = DsnText [] then ret () else bindM (parsed v d) push_managed) (\<lambda>_. push_all v ds)"

definition update_managed :: "url_env \<Rightarrow> managed_arg option \<Rightarrow> unit om" where
  "update_managed v m =
     (case m of
        None \<Rightarrow> ret ()
      | Some m \<Rightarrow>
          bindM (modifyM (\<lambda>o'. o'\<lparr>o_managedXaDsns := []\<rparr>)) (\<lambda>_.
            case m of
              ManagedText s \<Rightarrow> push_all v [DsnText s]
            | ManagedObject x \<Rightarrow> push_managed x
            | ManagedList ds \<Rightarrow> push_all v ds))"

definition options_update :: "url_env \<Rightarrow> options_arg option \<Rightarrow> options om" where
  "options_update v arg =
     bindM
       (case arg of
          None \<Rightarrow> ret ()
        | Some a \<Rightarrow>
            bindM (update_dsn v (a_dsn a)) (\<lambda>_.
            bindM (modifyM (\<lambda>o'. case a_maxConnsWaitQueue a of None \<Rightarrow> o'
              | Some n \<Rightarrow> o'\<lparr>o_maxConnsWaitQueue := or_default n DEFAULT_MAX_CONNS_WAIT_QUEUE\<rparr>)) (\<lambda>_.
            bindM (modifyM (\<lambda>o'. o'\<lparr>o_onLoadFile := a_onLoadFile a, o_onBeforeCommit := a_onBeforeCommit a\<rparr>)) (\<lambda>_.
            bindM (update_managed v (a_managedXaDsns a)) (\<lambda>_.
            bindM (modifyM (\<lambda>o'. case a_xaCheckEach a of None \<Rightarrow> o'
              | Some n \<Rightarrow> o'\<lparr>o_xaCheckEach := (if number_less (Finite 0) n then n else DEFAULT_DANGLING_XA_CHECK_EACH_MSEC)\<rparr>)) (\<lambda>_.
            modifyM (\<lambda>o'. o'\<lparr>o_logger := (case a_logger a of None \<Rightarrow> 0 | Some l \<Rightarrow> l)\<rparr>)))))))
       (\<lambda>_ o'. (Inr o', o'))"

text \<open>\<open>updateOptions()\<close> of the pool, with the timer of the task below and its delay; \<open>msec\<close> is how the runtime takes a delay.\<close>

definition updateOptions ::
  "(number \<Rightarrow> nat) \<Rightarrow> url_env \<Rightarrow> options_arg option \<Rightarrow> options \<times> interval \<times> number \<Rightarrow> (exn + options) \<times> options \<times> interval \<times> number" where
  "updateOptions msec v arg s =
     (let (o', timer, delay) = s
      in case options_update v arg o' of
           (Inl ex, o') \<Rightarrow> (Inl ex, o', timer, delay)
         | (Inr r, o') \<Rightarrow>
             if o_managedXaDsns o' \<noteq> [] then (Inr r, o', interval_start False (msec (o_xaCheckEach o')) timer, o_xaCheckEach o')
             else (Inr r, o', interval_stop timer, delay))"

text \<open>\<open>getConn()\<close>: the DSN of the new connection object.\<close>

definition no_default_dsn :: exn where
  "no_default_dsn = JsError (js ''DSN not provided, and also default DSN was not specified'')"

definition getConn_dsn :: "url_env \<Rightarrow> dsn_arg option \<Rightarrow> dsn om" where
  "getConn_dsn v d = (\<lambda>o'.
     case d of
       None \<Rightarrow> ((case o_dsn o' of None \<Rightarrow> Inl no_default_dsn | Some x \<Rightarrow> Inr x), o')
     | Some d \<Rightarrow> parsed v d o')"

text \<open>What the options forget: the handlers and the logger are those of the last call, whatever they were before.\<close>

definition keeping :: "'a om \<Rightarrow> bool" where
  "keeping m \<longleftrightarrow> (\<forall>o'. let o'' = snd (m o') in o_onLoadFile o'' = o_onLoadFile o' \<and> o_onBeforeCommit o'' = o_onBeforeCommit o' \<and>
     o_maxConnsWaitQueue o'' = o_maxConnsWaitQueue o')"

lemma keeping_bind: "keeping m \<Longrightarrow> (\<And>x. keeping (f x)) \<Longrightarrow> keeping (bindM m f)"
  by (auto simp: keeping_def bindM_def Let_def split: sum.splits prod.splits) (metis snd_conv)+

lemma keeping_basics [simp]:
  "keeping (ret x)" "keeping (parsed v d)" "keeping (push_managed y)"
  "keeping (modifyM (\<lambda>o'. o'\<lparr>o_dsn := e\<rparr>))" "keeping (modifyM (\<lambda>o'. o'\<lparr>o_managedXaDsns := es\<rparr>))"
  by (simp_all add: keeping_def ret_def parsed_def push_managed_def modifyM_def split: dsn_arg.splits)

lemma keeping_pair [simp]: "keeping (Pair x)"
  by (simp add: keeping_def)

lemma keeping_push_all [simp]: "keeping (push_all v ds)"
  by (induction ds) (simp_all add: keeping_bind)

lemma keeping_updates [simp]: "keeping (update_dsn v d)" "keeping (update_managed v m)"
  by (auto simp: update_dsn_def update_managed_def simp del: push_all.simps
      intro!: keeping_bind split: option.splits dsn_arg.splits list.splits managed_arg.splits)

lemma keepingD:
  assumes "keeping m" "m o' = (x, o'')"
  shows "o_onLoadFile o'' = o_onLoadFile o'" "o_onBeforeCommit o'' = o_onBeforeCommit o'"
    "o_maxConnsWaitQueue o'' = o_maxConnsWaitQueue o'"
  using assms by (auto simp: keeping_def Let_def dest: spec [of _ o'])

lemma options_forget:
  assumes "options_update v (Some a) o' = (Inr r, o'')"
  shows "r = o''" "o_onLoadFile o'' = a_onLoadFile a" "o_onBeforeCommit o'' = a_onBeforeCommit a"
    "o_logger o'' = (case a_logger a of None \<Rightarrow> 0 | Some l \<Rightarrow> l)"
    "a_maxConnsWaitQueue a = None \<Longrightarrow> o_maxConnsWaitQueue o'' = o_maxConnsWaitQueue o'"
proof -
  obtain o1 where 1: "update_dsn v (a_dsn a) o' = (Inr (), o1)"
    using assms by (auto simp: options_update_def bindM_def split: sum.splits prod.splits)
  define o2 where "o2 = (case a_maxConnsWaitQueue a of None \<Rightarrow> o1
    | Some n \<Rightarrow> o1\<lparr>o_maxConnsWaitQueue := or_default n DEFAULT_MAX_CONNS_WAIT_QUEUE\<rparr>)"
  define o3 where "o3 = o2\<lparr>o_onLoadFile := a_onLoadFile a, o_onBeforeCommit := a_onBeforeCommit a\<rparr>"
  obtain o4 where 4: "update_managed v (a_managedXaDsns a) o3 = (Inr (), o4)"
    using assms 1 by (auto simp: options_update_def bindM_def modifyM_def o3_def o2_def split: sum.splits prod.splits)
  define o5 where "o5 = (case a_xaCheckEach a of None \<Rightarrow> o4
    | Some n \<Rightarrow> o4\<lparr>o_xaCheckEach := (if number_less (Finite 0) n then n else DEFAULT_DANGLING_XA_CHECK_EACH_MSEC)\<rparr>)"
  have r: "r = o''" "o'' = o5\<lparr>o_logger := (case a_logger a of None \<Rightarrow> 0 | Some l \<Rightarrow> l)\<rparr>"
    using assms 1 4 by (auto simp: options_update_def bindM_def modifyM_def o2_def o3_def o5_def split: sum.splits prod.splits)
  note k1 = keepingD [OF keeping_updates(1) 1] and k4 = keepingD [OF keeping_updates(2) 4]
  show "r = o''" "o_onLoadFile o'' = a_onLoadFile a" "o_onBeforeCommit o'' = a_onBeforeCommit a"
    "o_logger o'' = (case a_logger a of None \<Rightarrow> 0 | Some l \<Rightarrow> l)"
    "a_maxConnsWaitQueue a = None \<Longrightarrow> o_maxConnsWaitQueue o'' = o_maxConnsWaitQueue o'"
    using r k1 k4 by (simp_all add: o5_def o3_def o2_def split: option.splits)
qed

section \<open>Connecting again and again\<close>

text \<open>
  What \<open>newConn()\<close> meets att its \<open>i\<close>-th attempt: the outcome of \<open>MyProtocol.inst()\<close>, the time when it failed, whether another
  call for the same hash is already waiting to try again, and whether that one is ready in time.
\<close>

record 'a attempts =
  y_outcome :: "nat \<Rightarrow> exn + 'a"
  y_failed :: "nat \<Rightarrow> nat"
  y_other :: "nat \<Rightarrow> bool"
  y_inTime :: "nat \<Rightarrow> bool"
  y_refused :: "exn \<Rightarrow> bool"

fun is_disconnected :: "exn \<Rightarrow> bool" where
  "is_disconnected (ServerDisconnectedError m n) = True"
| "is_disconnected e = False"

definition final :: "'a attempts \<Rightarrow> number \<Rightarrow> number \<Rightarrow> nat \<Rightarrow> exn \<Rightarrow> bool" where
  "final att reconnectInterval connectTill i e \<longleftrightarrow>
     reconnectInterval = Finite 0 \<or> number_leq connectTill (num (y_failed att i)) \<or> \<not> is_disconnected e \<and> \<not> y_refused att e"

text \<open>The loop, with the number of the attempt that decided; it may go on for ever.\<close>

partial_function (option) newConn_loop ::
  "'a attempts \<Rightarrow> number \<Rightarrow> number \<Rightarrow> nat \<Rightarrow> ((exn + 'a) \<times> nat) option" where
  "newConn_loop att reconnectInterval connectTill i =
     (case y_outcome att i of
        Inr p \<Rightarrow> Some (Inr p, i)
      | Inl e \<Rightarrow>
          if final att reconnectInterval connectTill i e then Some (Inl e, i)
          else if y_other att i \<and> \<not> y_inTime att i then Some (Inl e, i)
          else newConn_loop att reconnectInterval connectTill (i + 1))"

definition newConn :: "'a attempts \<Rightarrow> dsn \<Rightarrow> nat \<Rightarrow> ((exn + 'a) \<times> nat) option" where
  "newConn att d now =
     (let connectionTimeout = or_default (d_connectionTimeout d) DEFAULT_CONNECTION_TIMEOUT_MSEC;
          reconnectInterval = or_default (d_reconnectInterval d) DEFAULT_RECONNECT_INTERVAL_MSEC
      in newConn_loop att reconnectInterval (number_add (num now) connectionTimeout) 0)"

lemma newConn_loop_returns:
  assumes "strict_mono (y_failed att)" "till \<noteq> NaN" "till \<noteq> Infinite False"
  shows "\<exists>r j. newConn_loop att reconnectInterval till i = Some (r, j) \<and> i \<le> j \<and>
    (\<forall>k. i \<le> k \<longrightarrow> k < j \<longrightarrow> \<not> number_leq till (num (y_failed att k))) \<and>
    (case r of Inr p \<Rightarrow> y_outcome att j = Inr p
     | Inl e \<Rightarrow> y_outcome att j = Inl e \<and> (final att reconnectInterval till j e \<or> y_other att j \<and> \<not> y_inTime att j))"
proof -
  obtain n where n: "\<And>m. n \<le> m \<Longrightarrow> number_leq till (num m)"
  proof (cases till)
    case (Finite q)
    have "q \<le> of_nat m" if "nat \<lceil>q\<rceil> \<le> m" for m
      using that by (simp add: nat_le_iff ceiling_le_iff)
    then show ?thesis
      using that [of "nat \<lceil>q\<rceil>"] Finite by simp
  next
    case (Infinite m)
    then show ?thesis
      using that [of 0] assms(3) by simp
  qed (use assms(2) in simp)
  show ?thesis
  proof (induction "n - y_failed att i" arbitrary: i rule: less_induct)
    case less
    show ?case
    proof (cases "y_outcome att i")
      case (Inr p)
      then show ?thesis
        by (auto simp: newConn_loop.simps [of att _ _ i])
    next
      case (Inl e)
      show ?thesis
      proof (cases "final att reconnectInterval till i e \<or> y_other att i \<and> \<not> y_inTime att i")
        case True
        then show ?thesis
          using Inl by (auto simp: newConn_loop.simps [of att _ _ i])
      next
        case False
        then have "\<not> number_leq till (num (y_failed att i))"
          by (simp add: final_def)
        then have "y_failed att i < n"
          using n by (meson not_le_imp_less)
        moreover have "y_failed att i < y_failed att (i + 1)"
          using assms(1) by (simp add: strict_mono_def)
        ultimately have "n - y_failed att (i + 1) < n - y_failed att i"
          by simp
        from less [OF this] obtain r j where
          *: "newConn_loop att reconnectInterval till (i + 1) = Some (r, j)" "i + 1 \<le> j"
            "\<And>k. i + 1 \<le> k \<Longrightarrow> k < j \<Longrightarrow> \<not> number_leq till (num (y_failed att k))"
            "case r of Inr p \<Rightarrow> y_outcome att j = Inr p
              | Inl e \<Rightarrow> y_outcome att j = Inl e \<and> (final att reconnectInterval till j e \<or> y_other att j \<and> \<not> y_inTime att j)"
          by blast
        have "newConn_loop att reconnectInterval till i = Some (r, j)"
          using Inl False *(1) by (auto simp: newConn_loop.simps [of att _ _ i])
        moreover have "\<not> number_leq till (num (y_failed att k))" if "i \<le> k" "k < j" for k
          using that *(3) \<open>\<not> number_leq till (num (y_failed att i))\<close> by (cases "k = i") auto
        ultimately show ?thesis
          using *(2,4) by (intro exI [of _ r] exI [of _ j]) auto
      qed
    qed
  qed
qed

text \<open>The store of buffers.\<close>

definition SAVE_UNUSED_BUFFERS :: nat where "SAVE_UNUSED_BUFFERS = 10"

definition keep_buffer :: "'b \<Rightarrow> 'b list \<Rightarrow> 'b list" where
  "keep_buffer b buffers = (if length buffers < SAVE_UNUSED_BUFFERS then buffers @ [b] else buffers)"

section \<open>Dangling transactions\<close>

text \<open>\<open>#xaTask()\<close> for one DSN: the transactions of \<open>XA RECOVER\<close> that this library made, with their connections.\<close>

record dangling =
  x_id :: jsstr
  x_time :: rat
  x_pid :: rat
  x_connectionId :: rat

definition recovered :: "jsstr list \<Rightarrow> dangling list" where
  "recovered ids =
     concat (map (\<lambda>xaId. case xa_decode xaId of
       Some (Some t, Some p, Some c) \<Rightarrow> [\<lparr>x_id = xaId, x_time = t, x_pid = p, x_connectionId = c\<rparr>]
     | _ \<Rightarrow> []) ids)"

text \<open>The connections that are asked for, and those that the server has.\<close>

definition connection_ids :: "dangling list \<Rightarrow> rat list" where
  "connection_ids xas =
     foldl (\<lambda>cids x. if x_connectionId x \<in> set cids then cids else cids @ [x_connectionId x]) [] xas"

definition without_alive :: "rat list \<Rightarrow> dangling list \<Rightarrow> dangling list" where
  "without_alive alive xas = fold (\<lambda>i xas. snd (swept (\<lambda>x. x_connectionId x = i) xas)) alive xas"

fun separated :: "jsstr list \<Rightarrow> jsstr list" where
  "separated (s # t # ss) = s # js '','' # separated (t # ss)"
| "separated ss = ss"

text \<open>The queries: \<open>XA RECOVER\<close> gave \<open>ids\<close>; \<open>processes\<close> answers the query for the connections, \<open>str\<close> prints a number.\<close>

definition alive_query :: "(rat \<Rightarrow> jsstr) \<Rightarrow> dangling list \<Rightarrow> jsstr" where
  "alive_query str xas =
     js ''SELECT id FROM information_schema.processlist WHERE id IN ('' @ concat (separated (map str (connection_ids xas))) @ js '')''"

definition rollback_query :: "dangling \<Rightarrow> jsstr" where
  "rollback_query x = js (''XA ROLLBACK '' @ [CHR 0x27]) @ x_id x @ js [CHR 0x27]"

definition recover_queries :: "(rat \<Rightarrow> jsstr) \<Rightarrow> (jsstr \<Rightarrow> rat list) \<Rightarrow> jsstr list \<Rightarrow> jsstr list" where
  "recover_queries str processes ids =
     (let xas = recovered ids;
          xas = (if connection_ids xas \<noteq> [] then without_alive (processes (alive_query str xas)) xas else xas)
      in map rollback_query xas)"

text \<open>Sweeping: what is removed has the property, what is left does not.\<close>

lemma sweep_left:
  assumes "i \<le> n" "n \<le> length xs" "\<And>j. i \<le> j \<Longrightarrow> j < n \<Longrightarrow> \<not> P (xs ! j)"
  shows "(\<forall>x \<in> set (fst (sweep P i n xs)). P x) \<and> (\<forall>x \<in> set (snd (sweep P i n xs)). \<not> P x)"
  using assms
proof (induction P i n xs rule: sweep.induct)
  case (1 P n xs)
  then show ?case
    by (auto simp: in_set_conv_nth)
next
  case (2 P i n xs)
  show ?case
  proof (cases "P (xs ! i)")
    case True
    obtain m where n: "n = Suc m" using 2(3) by (cases n) auto
    have left: "\<not> P (xs[i := xs ! m] ! j)" if "i \<le> j" "j < m" for j
    proof (cases "j = i")
      case True
      then show ?thesis
        using that 2(4) 2(5) [of m] n by simp
    next
      case False
      then show ?thesis
        using that 2(4) 2(5) [of j] n by simp
    qed
    have "(\<forall>x \<in> set (fst (sweep P i (n - 1) (xs[i := xs ! (n - 1)]))). P x) \<and>
        (\<forall>x \<in> set (snd (sweep P i (n - 1) (xs[i := xs ! (n - 1)]))). \<not> P x)"
    proof (rule 2(1) [OF refl True])
      show "\<not> P (xs[i := xs ! (n - 1)] ! j)" if "i \<le> j" "j < n - 1" for j
        using left [of j] that n by simp
    qed (use 2(3,4) n in simp_all)
    then show ?thesis
      using n True by (simp add: case_prod_beta)
  next
    case False
    have "\<not> P (xs ! j)" if "i \<le> j" "j < n" for j
      using that 2(5) [of j] False by (cases "j = i") simp_all
    then have "(\<forall>x \<in> set (fst (sweep P i n xs)). P x) \<and> (\<forall>x \<in> set (snd (sweep P i n xs)). \<not> P x)"
      by (intro 2(2) [OF refl False]) (use 2(3,4) in simp_all)
    then show ?thesis
      using False by simp
  qed
qed

lemma mset_swept: "mset (snd (swept P xs)) = filter_mset (\<lambda>x. \<not> P x) (mset xs)"
proof -
  obtain gone left where s: "swept P xs = (gone, left)"
    by (cases "swept P xs")
  have "(\<forall>x \<in> set gone. P x) \<and> (\<forall>x \<in> set left. \<not> P x)"
    using sweep_left [of "length xs" "length xs" xs P] s by (auto simp: swept_def)
  moreover have "mset gone + mset left = mset xs"
    using s by (rule swept_mset)
  moreover have "filter_mset (\<lambda>x. \<not> P x) (mset gone) = {#}" if "\<forall>x \<in> set gone. P x"
    using that by (simp add: mset_filter [symmetric] filter_empty_conv del: mset_filter)
  moreover have "filter_mset (\<lambda>x. \<not> P x) (mset left) = mset left" if "\<forall>x \<in> set left. \<not> P x"
    using that by (simp add: mset_filter [symmetric] filter_id_conv [THEN iffD2] del: mset_filter)
  ultimately show ?thesis
    using s by (metis add.left_neutral filter_union_mset snd_conv)
qed

lemma mset_without_alive:
  "mset (without_alive alive xas) = filter_mset (\<lambda>x. x_connectionId x \<notin> set alive) (mset xas)"
proof (induction alive arbitrary: xas)
  case (Cons i alive)
  have "mset (without_alive (i # alive) xas) = mset (without_alive alive (snd (swept (\<lambda>x. x_connectionId x = i) xas)))"
    by (simp add: without_alive_def)
  also have "\<dots> = filter_mset (\<lambda>x. x_connectionId x \<notin> set alive) (filter_mset (\<lambda>x. x_connectionId x \<noteq> i) (mset xas))"
    by (simp add: Cons.IH mset_swept)
  also have "\<dots> = filter_mset (\<lambda>x. x_connectionId x \<notin> set (i # alive)) (mset xas)"
    by (auto simp: filter_filter_mset intro: filter_mset_cong)
  finally show ?case .
qed (simp add: without_alive_def)

lemma connection_ids_set: "set (connection_ids xas) = x_connectionId ` set xas"
proof -
  have "set (foldl (\<lambda>cids x. if x_connectionId x \<in> set cids then cids else cids @ [x_connectionId x]) cs xas) =
    set cs \<union> x_connectionId ` set xas" for cs
    by (induction xas arbitrary: cs) auto
  then show ?thesis
    by (simp add: connection_ids_def)
qed

text \<open>An identifier that is recognized has only letters, digits and the three separators: no quote can end the literal early.\<close>

definition plain_char :: "16 word \<Rightarrow> bool" where
  "plain_char c \<longleftrightarrow> is_alnum c \<or> c \<in> {sep_dot, sep_at, sep_minus}"

lemma takeWhile_plain: "list_all plain_char (takeWhile is_alnum s)"
  by (induction s) (auto simp: plain_char_def)

lemma decoded_is_plain:
  assumes "xa_decode s \<noteq> None"
  shows "list_all plain_char s"
proof -
  let ?d = "dropWhile is_alnum"
  have split: "s = takeWhile is_alnum s @ ?d s" for s :: jsstr
    by simp
  obtain r where "match_xa_id s = Some r"
    using assms by (cases "match_xa_id s") (auto simp: xa_decode_def)
  then have *: "?d s \<noteq> []" "hd (?d s) = sep_dot" "?d (tl (?d s)) \<noteq> []" "hd (?d (tl (?d s))) = sep_at"
    "?d (tl (?d (tl (?d s)))) \<noteq> []" "hd (?d (tl (?d (tl (?d s))))) = sep_minus"
    "list_all is_digit10 (tl (?d (tl (?d (tl (?d s))))))"
    by (auto simp: match_xa_id_def Let_def split: if_splits)
  have step: "list_all plain_char u" if "?d u \<noteq> []" "list_all plain_char (tl (?d u))" "plain_char (hd (?d u))" for u
  proof -
    have "list_all plain_char (takeWhile is_alnum u @ hd (?d u) # tl (?d u))"
      using that(2,3) takeWhile_plain by simp
    moreover have "u = takeWhile is_alnum u @ hd (?d u) # tl (?d u)"
      using that(1) by (metis list.collapse takeWhile_dropWhile_id)
    ultimately show ?thesis
      by metis
  qed
  have "list_all plain_char (tl (?d (tl (?d (tl (?d s))))))"
    using *(7) by (rule list.pred_mono_strong) (simp add: plain_char_def is_alnum_def)
  then have "list_all plain_char (tl (?d (tl (?d s))))"
    by (rule step [OF *(5)]) (simp add: *(6) plain_char_def)
  then have "list_all plain_char (tl (?d s))"
    by (rule step [OF *(3)]) (simp add: *(4) plain_char_def)
  then show ?thesis
    by (rule step [OF *(1)]) (simp add: *(2) plain_char_def)
qed

lemma mset_recover_queries:
  "mset (recover_queries str processes ids) =
     image_mset rollback_query
       (filter_mset (\<lambda>x. x_connectionId x \<notin> set (processes (alive_query str (recovered ids)))) (mset (recovered ids)))"
proof (cases "recovered ids = []")
  case True
  then show ?thesis
    by (simp add: recover_queries_def connection_ids_def)
next
  case False
  then have "connection_ids (recovered ids) \<noteq> []"
    using connection_ids_set [of "recovered ids"] by (metis image_is_empty set_empty)
  then show ?thesis
    by (simp add: recover_queries_def Let_def mset_without_alive)
qed

lemma recovered_plain: "list_all (\<lambda>x. list_all plain_char (x_id x) \<and> x_id x \<in> set ids) (recovered ids)"
  by (auto simp: recovered_def list_all_iff split: option.splits prod.splits dest!: decoded_is_plain [unfolded list_all_iff])
    (metis decoded_is_plain list_all_iff option.distinct(1))

lemma deadline_is_finite:
  assumes "d_connectionTimeout d \<noteq> Infinite False"
  shows "\<exists>t. number_add (num now) (or_default (d_connectionTimeout d) DEFAULT_CONNECTION_TIMEOUT_MSEC) = Finite t"
  using assms by (cases "d_connectionTimeout d") (auto simp: or_default_def at_least_0_def DEFAULT_CONNECTION_TIMEOUT_MSEC_def)

end
