(* ===== verification/SourceSpec.thy ===== *)
theory SourceSpec
  imports SendSpec
begin

text \<open>
  What \<open>sendWithData()\<close> promises for every kind of data (bytes, strings, streams, objects that render
  themselves), in the ordinary protocol and without \<open>canWait\<close>: what goes to the connection is the packets that
  waited in the buffer, and then the payload as packets. Shown on the way: the loops that encode a string piece
  by piece never stop and never split it wrongly, also where a character lies across two packets; and a stream
  whose last packet has the full length is sent without the empty packet that must close it.
\<close>

section \<open>What is sent\<close>

fun source_bytes :: "sql_source \<Rightarrow> byte list" where
  "source_bytes (SqlString s) = utf8_encode s"
| "source_bytes (SqlBytes bs) = bs"
| "source_bytes (SqlStream n chunks) = take n (concat chunks)"
| "source_bytes (SqlObject inBuffer bs) = bs"

text \<open>
  What the caller must keep to. The short ways of the code write one header for all that is in the buffer, so the
  buffer may not be longer than the longest packet; bytes that an object puts into the buffer fit there; a
  stream gives as many bytes as it has announced. The last condition on a stream is what the code forgets:
  a payload of full packets only is not closed by an empty one.
\<close>

fun sendable :: "sql_source \<Rightarrow> 'z rw_scheme \<Rightarrow> bool" where
  "sendable (SqlString s) r = (length (r_buffer r) \<le> 0xFFFFFF)"
| "sendable (SqlBytes bs) r = True"
| "sendable (SqlStream n chunks) r =
     (n \<le> length (concat chunks) \<and> (filled r + n) mod 0xFFFFFF \<noteq> 0 \<and> filled r < 0xFFFFFF \<and> 8 \<le> length (r_buffer r)
      \<or> n = 0 \<and> filled r < 0xFFFFFF)"
| "sendable (SqlObject inBuffer bs) r =
     (inBuffer \<longrightarrow> r_bufferEnd r + length bs \<le> length (r_buffer r) \<and> length (r_buffer r) \<le> 0xFFFFFF)"

section \<open>A packet that is in the buffer\<close>

lemma send_sends:
  assumes "writing r" "filled r < 0xFFFFFF"
  obtains r2 where "send cz r = (Inr (), r2)"
    "sent r2 = sent r @ waiting r @ packetize (r_sequenceId r) (body r)"
    "r_bufferStart r2 = 0" "r_bufferEnd r2 = 0"
proof -
  have "filled r < 2 ^ 24" using assms(2) by simp
  from setHeader_in_buffer [OF assms(1) this] obtain b where
    b: "setHeader (filled r) r = (Inr (), r\<lparr>r_sequenceId := r_sequenceId r + 1, r_buffer := b\<rparr>)"
    "take (r_bufferEnd r) b = waiting r @ header_bytes (filled r) (r_sequenceId r) @ body r" .
  have "packetize (r_sequenceId r) (body r) = header_bytes (filled r) (r_sequenceId r) @ body r"
    using assms(2) length_body [OF assms(1)] by (subst packetize.simps) simp
  moreover have "r_bufferEnd r - (r_bufferStart r + 4) = filled r"
    by (simp add: filled_def)
  ultimately show thesis using b assms(1)
    by (intro that [of "r\<lparr>r_sequenceId := r_sequenceId r + 1, r_buffer := b, r_bufferStart := 0, r_bufferEnd := 0,
          w_sent := w_sent r @ [take (r_bufferEnd r) b]\<rparr>"])
      (simp_all add: send_def Let_def bindM_def modifyM_def sendPackets_plain is_compressed_def writing_def sent_def)
qed

text \<open>Bytes that are put behind the packet belong to it.\<close>

lemma put_behind:
  fixes bs :: "byte list"
  assumes "writing r" "r_bufferEnd r + length bs \<le> length (r_buffer r)" "length (r_buffer r) \<le> 0xFFFFFF"
  defines "r2 \<equiv> r\<lparr>r_buffer := arr_set (r_buffer r) (r_bufferEnd r) bs, r_bufferEnd := r_bufferEnd r + length bs\<rparr>"
  shows "writing r2" "filled r2 < 0xFFFFFF" "waiting r2 = waiting r" "body r2 = body r @ bs" "sent r2 = sent r"
    "r_sequenceId r2 = r_sequenceId r"
  using assms
  by (auto simp: writing_def is_compressed_def arr_simps filled_def waiting_def sent_def body_def
      take_arr_set subarray_arr_set_extend)

section \<open>Strings\<close>

text \<open>A connection of the ordinary protocol that works, and a buffer where any character fits.\<close>

definition plain_writer :: "'z rw_scheme \<Rightarrow> bool" where
  "plain_writer r \<longleftrightarrow> \<not> is_compressed r \<and> w_fail r = None \<and> 4 \<le> length (r_buffer r)"

text \<open>Nothing but what was sent and the contents of the buffer has changed.\<close>

definition only_sent :: "'z rw_scheme \<Rightarrow> 'z rw_scheme \<Rightarrow> bool" where
  "only_sent r r2 \<longleftrightarrow> r_sequenceId r2 = r_sequenceId r \<and> length (r_buffer r2) = length (r_buffer r) \<and> plain_writer r2 \<and>
     r_bufferStart r2 = r_bufferStart r \<and> r_bufferEnd r2 = r_bufferEnd r"

lemma only_sent_trans: "only_sent r r2 \<Longrightarrow> only_sent r2 r3 \<Longrightarrow> only_sent r r3"
  by (simp add: only_sent_def)

lemma send_piece:
  assumes "plain_writer r" "length bs \<le> length (r_buffer r)"
  defines "r2 \<equiv> r\<lparr>r_buffer := arr_set (r_buffer r) 0 bs, w_sent := w_sent r @ [bs]\<rparr>"
  shows "sendData cz (Some 0) bs (r\<lparr>r_buffer := arr_set (r_buffer r) 0 bs\<rparr>) = (Inr (), r2)"
    "only_sent r r2" "sent r2 = sent r @ bs"
  using assms by (auto simp: plain_writer_def only_sent_def sendData_plain is_compressed_def sent_def arr_simps)

lemma send_part:
  fixes bs :: "byte list"
  assumes "plain_writer r"
  defines "r2 \<equiv> r\<lparr>w_sent := w_sent r @ [bs]\<rparr>"
  shows "sendData cz None bs r = (Inr (), r2)" "only_sent r r2" "sent r2 = sent r @ bs"
  using assms by (auto simp: plain_writer_def only_sent_def sendData_plain is_compressed_def sent_def)

text \<open>When \<open>encodeInto()\<close> writes nothing, the first character is longer than the space.\<close>

lemma encode_into_none:
  assumes "snd (encode_into s cap) = []" "s \<noteq> []"
  obtains p k where "first_point s = Some (p, k)" "cap < length (utf8_point p)"
proof (cases "first_point s")
  case None
  with assms(2) show thesis by (cases s) simp_all
next
  case (Some pk)
  obtain p k where pk: "pk = (p, k)" by (cases pk)
  have "cap < length (utf8_point p)"
  proof (rule ccontr)
    assume "\<not> cap < length (utf8_point p)"
    then have "snd (encode_into s cap) = utf8_point p @ snd (encode_into (drop k s) (cap - length (utf8_point p)))"
      using Some pk by (simp add: encode_into.simps [of s] split: prod.split)
    moreover have "utf8_point p \<noteq> []"
      using length_utf8_point_bounds(1) [of p] by (simp del: length_utf8_point_bounds)
    ultimately show False using assms(1) by simp
  qed
  with Some pk show thesis using that by simp
qed

lemma string_chunk_sends:
  "plain_writer r \<Longrightarrow> n \<le> length (carry @ utf8_encode data) \<Longrightarrow> length carry \<le> n \<Longrightarrow>
   \<exists>carry' data' r2. string_chunk cz n carry data r = (Inr (carry', data'), r2) \<and> only_sent r r2 \<and>
     sent r2 @ carry' @ utf8_encode data' = sent r @ carry @ utf8_encode data \<and>
     length (carry' @ utf8_encode data') = length (carry @ utf8_encode data) - n \<and> length carry' \<le> 4"
proof (induction n arbitrary: carry data r rule: less_induct)
  case (less n carry data r)
  show ?case
  proof (cases "n = 0")
    case True
    then show ?thesis
      using less.prems by (subst string_chunk.simps) (simp add: only_sent_def)
  next
    case n: False
    show ?thesis
    proof (cases "carry = []")
      case False
      let ?r = "r\<lparr>w_sent := w_sent r @ [carry]\<rparr>"
      note s = send_part [OF less.prems(1), where bs = carry]
      have "string_chunk cz n carry data r = string_chunk cz (n - length carry) [] data ?r"
        using n False s(1) by (subst string_chunk.simps) (simp add: bindM_def)
      moreover have "\<exists>carry' data' r2. string_chunk cz (n - length carry) [] data ?r = (Inr (carry', data'), r2) \<and>
          only_sent ?r r2 \<and> sent r2 @ carry' @ utf8_encode data' = sent ?r @ [] @ utf8_encode data \<and>
          length (carry' @ utf8_encode data') = length ([] @ utf8_encode data) - (n - length carry) \<and> length carry' \<le> 4"
        using n False less.prems s(2) by (intro less.IH) (auto simp: only_sent_def)
      ultimately show ?thesis
        using only_sent_trans [OF s(2)] s(3) less.prems(3) by fastforce
    next
      case True
      let ?cap = "min n (length (r_buffer r))"
      obtain rd wr where e: "encode_into data ?cap = (rd, wr)" by fastforce
      note sp = encode_into_split [OF e]
      have ne: "data \<noteq> []" using n True less.prems(2) by auto
      show ?thesis
      proof (cases "wr = []")
        case False
        let ?r = "r\<lparr>r_buffer := arr_set (r_buffer r) 0 wr, w_sent := w_sent r @ [wr]\<rparr>"
        have lw: "length wr \<le> n" "length wr \<le> length (r_buffer r)" using sp by simp_all
        note s = send_piece [OF less.prems(1) lw(2)]
        have "string_chunk cz n carry data r = string_chunk cz (n - length wr) [] (drop rd data) ?r"
          using n True False s(1) e by (subst string_chunk.simps) (simp add: bindM_def)
        moreover have "\<exists>carry' data' r2. string_chunk cz (n - length wr) [] (drop rd data) ?r = (Inr (carry', data'), r2) \<and>
            only_sent ?r r2 \<and> sent r2 @ carry' @ utf8_encode data' = sent ?r @ [] @ utf8_encode (drop rd data) \<and>
            length (carry' @ utf8_encode data') = length ([] @ utf8_encode (drop rd data)) - (n - length wr) \<and>
            length carry' \<le> 4"
          using n False True less.prems s(2) sp by (intro less.IH) (auto simp: only_sent_def)
        ultimately show ?thesis
          using only_sent_trans [OF s(2)] s(3) sp True lw(1) by fastforce
      next
        case wr: True
        obtain p k where p: "first_point data = Some (p, k)" "?cap < length (utf8_point p)"
          using encode_into_none [of data ?cap] e wr ne by auto
        have n3: "n < length (utf8_point p)" "n < 4"
          using p(2) less.prems(1) length_utf8_point_bounds(2) [of p]
          unfolding plain_writer_def by linarith+
        let ?part = "take n (utf8_point p)"
        let ?r = "r\<lparr>w_sent := w_sent r @ [?part]\<rparr>"
        note s = send_part [OF less.prems(1), where bs = ?part]
        have "string_chunk cz n carry data r = string_chunk cz 0 (drop n (utf8_point p)) (drop k data) ?r"
          using n True wr s(1) e p(1) n3 by (subst string_chunk.simps) (simp add: bindM_def Let_def)
        also have "\<dots> = (Inr (drop n (utf8_point p), drop k data), ?r)"
          by (subst string_chunk.simps) simp
        finally show ?thesis
          using s(2,3) p(1) True n3 length_utf8_point_bounds(2) [of p]
          by (simp add: utf8_encode.simps [of data] del: length_utf8_point_bounds)
      qed
    qed
  qed
qed

text \<open>The full packets of a string: what has been sent, with what remains, is the stream of packets.\<close>

lemma full_string_packets_sends:
  "writing r \<Longrightarrow> n = length (carry @ utf8_encode data) \<Longrightarrow> filled r + length carry \<le> 0xFFFFFF \<Longrightarrow>
   \<exists>n2 carry2 data2 r2. full_string_packets cz n carry data r = (Inr (n2, carry2, data2), r2) \<and> writing r2 \<and>
     n2 = length (carry2 @ utf8_encode data2) \<and> filled r2 + n2 < 0xFFFFFF \<and>
     sent r2 @ waiting r2 @ packetize (r_sequenceId r2) (body r2 @ carry2 @ utf8_encode data2) =
     sent r @ waiting r @ packetize (r_sequenceId r) (body r @ carry @ utf8_encode data)"
proof (induction "filled r + n" arbitrary: n carry data r rule: less_induct)
  case (less n r carry data)
  note prems = less.prems
  show ?case
  proof (cases "0xFFFFFF \<le> filled r + n")
    case False
    then show ?thesis
      using prems by (subst full_string_packets.simps) simp
  next
    case True
    let ?n = "0xFFFFFF - filled r"
    obtain r2 where r2: "bindM (setHeader 0xFFFFFF) (\<lambda>_ r. sendPackets cz (r_bufferEnd r) r) r = (Inr (), r2)"
      "sent r2 = sent r @ waiting r @ header_bytes 0xFFFFFF (r_sequenceId r) @ body r"
      "r_sequenceId r2 = r_sequenceId r + 1" "length (r_buffer r2) = length (r_buffer r)"
      "r_bufferStart r2 = r_bufferStart r" "r_bufferEnd r2 = r_bufferEnd r" "w_fail r2 = None" "\<not> is_compressed r2"
      by (rule send_header [OF prems(1), where n = "0xFFFFFF" and cz = cz]) simp_all
    have pw: "plain_writer r2"
      using r2(4,7,8) prems(1) by (simp add: plain_writer_def writing_def)
    have le: "filled r \<le> 0xFFFFFF" "length (body r) = filled r"
      using prems(1) length_body by (simp_all add: writing_def)
    have "?n \<le> length (carry @ utf8_encode data)" "length carry \<le> ?n"
      using True prems(2,3) by simp_all
    from string_chunk_sends [OF pw this, of cz] obtain carry3 data3 r3 where
      c3: "string_chunk cz ?n carry data r2 = (Inr (carry3, data3), r3)" "only_sent r2 r3"
      "sent r3 @ carry3 @ utf8_encode data3 = sent r2 @ carry @ utf8_encode data"
      "length (carry3 @ utf8_encode data3) = n - ?n" "length carry3 \<le> 4"
      using prems(2) by auto
    define r4 where "r4 = r3\<lparr>r_bufferStart := 0, r_bufferEnd := 4\<rparr>"
    have step: "full_string_packets cz n carry data r = full_string_packets cz (n - ?n) carry3 data3 r4"
      using True r2(1) c3(1)
      by (subst full_string_packets.simps) (auto simp: bindM_def r4_def Let_def split: prod.splits sum.splits)
    have w4: "writing r4" and f4: "filled r4 = 0" "waiting r4 = []" "body r4 = []"
      and s4: "sent r4 = sent r3" "r_sequenceId r4 = r_sequenceId r + 1"
      using c3(2) r2(3)
      by (auto simp: r4_def writing_def filled_def is_compressed_def waiting_def body_def only_sent_def plain_writer_def sent_def)
    have "filled r4 + (n - ?n) < filled r + n"
      using True le f4 by simp
    moreover have "filled r4 + length carry3 \<le> 0xFFFFFF"
      using f4 c3(5) by simp
    ultimately obtain n5 carry5 data5 r5 where
      r5: "full_string_packets cz (n - ?n) carry3 data3 r4 = (Inr (n5, carry5, data5), r5)" "writing r5"
      "n5 = length (carry5 @ utf8_encode data5)" "filled r5 + n5 < 0xFFFFFF"
      "sent r5 @ waiting r5 @ packetize (r_sequenceId r5) (body r5 @ carry5 @ utf8_encode data5) =
       sent r4 @ waiting r4 @ packetize (r_sequenceId r4) (body r4 @ carry3 @ utf8_encode data3)"
      using less.hyps [OF _ w4 c3(4) [symmetric]] by blast
    define p where "p = body r @ carry @ utf8_encode data"
    have split: "sent r3 = sent r2 @ take ?n (carry @ utf8_encode data)"
      "carry3 @ utf8_encode data3 = drop ?n (carry @ utf8_encode data)"
    proof -
      have l: "length (sent r2) + ?n = length (sent r3)"
        using arg_cong [OF c3(3), of length] c3(4) prems(2) True by simp
      show "sent r3 = sent r2 @ take ?n (carry @ utf8_encode data)"
        using arg_cong [OF c3(3), of "take (length (sent r3))"] by (simp flip: l)
      show "carry3 @ utf8_encode data3 = drop ?n (carry @ utf8_encode data)"
        using arg_cong [OF c3(3), of "drop (length (sent r3))"] by (simp flip: l)
    qed
    have tk: "take 0xFFFFFF p = body r @ take ?n (carry @ utf8_encode data)"
      and dr: "drop 0xFFFFFF p = carry3 @ utf8_encode data3"
      unfolding p_def take_append drop_append le(2) split(2) using le by simp_all
    have "\<not> length p < 0xFFFFFF"
      using True le(2) prems(2) by (simp add: p_def)
    then have "packetize (r_sequenceId r) p = header_bytes 0xFFFFFF (r_sequenceId r) @ take 0xFFFFFF p @
        packetize (r_sequenceId r4) (drop 0xFFFFFF p)"
      by (subst packetize.simps) (simp add: s4)
    then have pk: "packetize (r_sequenceId r) (body r @ carry @ utf8_encode data) = header_bytes 0xFFFFFF (r_sequenceId r) @
        body r @ take ?n (carry @ utf8_encode data) @ packetize (r_sequenceId r4) (carry3 @ utf8_encode data3)"
      by (simp only: tk dr append_assoc flip: p_def)
    have "sent r4 @ waiting r4 @ packetize (r_sequenceId r4) (body r4 @ carry3 @ utf8_encode data3) =
        sent r @ waiting r @ packetize (r_sequenceId r) (body r @ carry @ utf8_encode data)"
      unfolding pk f4 s4(1) split(1) r2(2) by simp
    with r5 step show ?thesis
      by (intro exI [of _ n5] exI [of _ carry5] exI [of _ data5] exI [of _ r5]) simp
  qed
qed

text \<open>The rest of a string, in pieces as long as the buffer: the loop ends.\<close>

lemma string_pieces_sends:
  "plain_writer r \<Longrightarrow> n = length (utf8_encode data) \<Longrightarrow>
   \<exists>r2. string_pieces cz n data r = Some (Inr (), r2) \<and> only_sent r r2 \<and> sent r2 = sent r @ utf8_encode data"
proof (induction n arbitrary: data r rule: less_induct)
  case (less n data r)
  show ?case
  proof (cases "n = 0")
    case True
    then show ?thesis
      using less.prems by (subst string_pieces.simps) (simp add: only_sent_def)
  next
    case False
    let ?cap = "min n (length (r_buffer r))"
    obtain rd wr where e: "encode_into data ?cap = (rd, wr)" by fastforce
    note sp = encode_into_split [OF e]
    have ne: "data \<noteq> []" using False less.prems(2) by auto
    have wr: "wr \<noteq> []"
    proof
      assume "wr = []"
      then obtain p k where p: "first_point data = Some (p, k)" "?cap < length (utf8_point p)"
        using encode_into_none [of data ?cap] e ne by auto
      have "length (utf8_point p) \<le> n"
        using p(1) less.prems(2) by (simp add: utf8_encode.simps [of data])
      then show False
        using p(2) less.prems(1) length_utf8_point_bounds(2) [of p] unfolding plain_writer_def by linarith
    qed
    let ?r = "r\<lparr>r_buffer := arr_set (r_buffer r) 0 wr, w_sent := w_sent r @ [wr]\<rparr>"
    have lw: "length wr \<le> n" "length wr \<le> length (r_buffer r)" using sp by simp_all
    note s = send_piece [OF less.prems(1) lw(2)]
    have "string_pieces cz n data r = string_pieces cz (n - length wr) (drop rd data) ?r"
      using False s(1) e by (subst string_pieces.simps) simp
    moreover have "\<exists>r2. string_pieces cz (n - length wr) (drop rd data) ?r = Some (Inr (), r2) \<and> only_sent ?r r2 \<and>
        sent r2 = sent ?r @ utf8_encode (drop rd data)"
      using False wr less.prems s(2) sp by (intro less.IH) (auto simp: only_sent_def)
    ultimately show ?thesis
      using only_sent_trans [OF s(2)] s(3) sp by fastforce
  qed
qed

text \<open>The last packet.\<close>

lemma last_string_packet_sends:
  assumes w: "writing r" and n: "n = length (carry @ utf8_encode data)" "filled r + n < 0xFFFFFF"
  shows "\<exists>r2. last_string_packet cz False (n, carry, data) r = Some (Inr False, r2) \<and>
     sent r2 = sent r @ waiting r @ packetize (r_sequenceId r) (body r @ carry @ utf8_encode data)"
proof -
  have pk: "packetize (r_sequenceId r) (body r @ carry @ utf8_encode data) =
      header_bytes (filled r + n) (r_sequenceId r) @ body r @ carry @ utf8_encode data"
    using n length_body [OF w] by (subst packetize.simps) simp
  have n24: "filled r + n < 2 ^ 24" using n(2) by simp
  show ?thesis
  proof (cases "r_bufferStart r + 4 + (filled r + n) \<le> length (r_buffer r)")
    case True
    let ?r1 = "r\<lparr>r_buffer := arr_set (r_buffer r) (r_bufferEnd r) carry, r_bufferEnd := r_bufferEnd r + length carry\<rparr>"
    let ?r2 = "?r1\<lparr>r_buffer := arr_set (r_buffer ?r1) (r_bufferEnd ?r1) (utf8_encode data),
                   r_bufferEnd := r_bufferEnd ?r1 + length (utf8_encode data)\<rparr>"
    have l: "r_bufferEnd r + n \<le> length (r_buffer r)" "r_bufferStart r + 4 \<le> r_bufferEnd r"
      using True w by (auto simp: writing_def filled_def)
    have sh: "writeShortString data ?r1 = ?r2"
      using encode_into_all [of data "length (r_buffer ?r1) - r_bufferEnd ?r1"] l n(1)
      by (simp add: writeShortString_def arr_simps)
    have w2: "writing ?r2" and same: "waiting ?r2 = waiting r" "sent ?r2 = sent r" "body ?r2 = body r @ carry @ utf8_encode data"
      "r_sequenceId ?r2 = r_sequenceId r"
      using w l n
      by (auto simp: writing_def is_compressed_def arr_simps filled_def waiting_def sent_def body_def
          take_arr_set subarray_arr_set_extend)
    obtain r3 where r3: "bindM (setHeader (filled r + n)) (\<lambda>_ r. sendPackets cz (r_bufferEnd r) r) ?r2 = (Inr (), r3)"
      "sent r3 = sent ?r2 @ waiting ?r2 @ header_bytes (filled r + n) (r_sequenceId ?r2) @ body ?r2"
      by (rule send_header [OF w2 n24, where cz = cz])
    have "last_string_packet cz False (n, carry, data) r = Some (Inr False, r3)"
      using True r3(1) sh
      by (simp add: last_string_packet_def Let_def total_of_def bindM_def ret_def split: prod.splits sum.splits)
    with r3(2) show ?thesis unfolding same pk by auto
  next
    case False
    obtain r2 where r2: "bindM (setHeader (filled r + n)) (\<lambda>_ r. sendPackets cz (r_bufferEnd r) r) r = (Inr (), r2)"
      "sent r2 = sent r @ waiting r @ header_bytes (filled r + n) (r_sequenceId r) @ body r"
      "length (r_buffer r2) = length (r_buffer r)" "w_fail r2 = None" "\<not> is_compressed r2"
      by (rule send_header [OF w n24, where cz = cz]) simp_all
    have pw: "plain_writer r2"
      using r2(3-5) w by (simp add: plain_writer_def writing_def)
    obtain r3 where r3: "(if carry \<noteq> [] then sendData cz None carry else ret ()) r2 = (Inr (), r3)" "plain_writer r3"
      "sent r3 = sent r2 @ carry"
      using send_part [OF pw, where bs = carry] pw
      by (cases "carry = []") (auto simp: ret_def only_sent_def)
    obtain r4 where r4: "string_pieces cz (n - length carry) data r3 = Some (Inr (), r4)" "sent r4 = sent r3 @ utf8_encode data"
      using string_pieces_sends [OF r3(2), of "n - length carry" data cz] n(1) by auto
    have "last_string_packet cz False (n, carry, data) r = Some (Inr False, r4)"
      using False r2(1) r3(1) r4(1) by (simp add: last_string_packet_def Let_def total_of_def bindL_def ret_def)
    with r2(2) r3(3) r4(2) show ?thesis unfolding pk by auto
  qed
qed

lemma send_string_sends:
  assumes w: "writing r" and short: "length (r_buffer r) \<le> 0xFFFFFF"
  shows "\<exists>r2. send_string cz False data r = Some (Inr False, r2) \<and>
     sent r2 = sent r @ waiting r @ packetize (r_sequenceId r) (body r @ utf8_encode data) \<and>
     r_bufferStart r2 = 0 \<and> r_bufferEnd r2 = 0"
proof -
  define n where "n = (if length (r_buffer r) < r_bufferEnd r + length data * 4 then utf8StringLength data else length data * 4)"
  have le: "length (utf8_encode data) \<le> n"
    using utf8StringLength_le [of data] by (auto simp: n_def utf8StringLength_eq)
  show ?thesis
  proof (cases "r_bufferEnd r + n \<le> length (r_buffer r)")
    case True
    then have fit: "r_bufferEnd r + length (utf8_encode data) \<le> length (r_buffer r)" using le by simp
    let ?r = "r\<lparr>r_buffer := arr_set (r_buffer r) (r_bufferEnd r) (utf8_encode data),
                r_bufferEnd := r_bufferEnd r + length (utf8_encode data)\<rparr>"
    note p = put_behind [OF w fit short]
    obtain r2 where r2: "send cz ?r = (Inr (), r2)"
      "sent r2 = sent ?r @ waiting ?r @ packetize (r_sequenceId ?r) (body ?r)" "r_bufferStart r2 = 0" "r_bufferEnd r2 = 0"
      by (rule send_sends [OF p(1,2)])
    have "writeShortString data r = ?r"
      using encode_into_all [of data "length (r_buffer r) - r_bufferEnd r"] fit by (simp add: writeShortString_def)
    then have "send_string cz False data r = Some (Inr False, r2)"
      using True r2(1) by (simp add: send_string_def Let_def total_of_def bindM_def ret_def flip: n_def)
    with r2 show ?thesis unfolding p(3-6) by auto
  next
    case False
    then have n: "n = length ([] @ utf8_encode data)"
      using w by (auto simp: n_def utf8StringLength_eq split: if_splits)
    have "filled r + length ([] :: byte list) \<le> 0xFFFFFF" using w by (simp add: writing_def)
    from full_string_packets_sends [OF w n this, of cz] obtain n2 carry2 data2 r2 where
      f: "full_string_packets cz n [] data r = (Inr (n2, carry2, data2), r2)" "writing r2"
      "n2 = length (carry2 @ utf8_encode data2)" "filled r2 + n2 < 0xFFFFFF"
      "sent r2 @ waiting r2 @ packetize (r_sequenceId r2) (body r2 @ carry2 @ utf8_encode data2) =
       sent r @ waiting r @ packetize (r_sequenceId r) (body r @ [] @ utf8_encode data)"
      by blast
    from last_string_packet_sends [OF f(2,3,4), of cz] obtain r3 where
      l: "last_string_packet cz False (n2, carry2, data2) r2 = Some (Inr False, r3)"
      "sent r3 = sent r2 @ waiting r2 @ packetize (r_sequenceId r2) (body r2 @ carry2 @ utf8_encode data2)"
      by blast
    have "send_string cz False data r = Some (Inr False, r3\<lparr>r_bufferStart := 0, r_bufferEnd := 0\<rparr>)"
      using False f(1) l(1)
      by (simp add: send_string_def Let_def bindL_def catchL_def total_of_def ready_for_reader_def flip: n_def)
    with f(5) l(2) show ?thesis by (simp add: sent_def)
  qed
qed

section \<open>Streams\<close>

text \<open>The packets of a stream: as \<open>packetize\<close>, but a payload that ends with a full packet is not closed.\<close>

function stream_packets :: "int \<Rightarrow> byte list \<Rightarrow> byte list" where
  "stream_packets seq p =
     (if length p \<le> 0xFFFFFF then header_bytes (length p) seq @ p
      else header_bytes 0xFFFFFF seq @ take 0xFFFFFF p @ stream_packets (seq + 1) (drop 0xFFFFFF p))"
  by auto
termination
  by (relation "measure (\<lambda>(seq, p). length p)") auto

declare stream_packets.simps [simp del]

lemma stream_packets_closed:
  "length p mod 0xFFFFFF \<noteq> 0 \<Longrightarrow> stream_packets seq p = packetize seq p"
proof (induction "length p" arbitrary: seq p rule: less_induct)
  case less
  show ?case
  proof (cases "length p < 0xFFFFFF")
    case True
    then show ?thesis
      by (simp add: stream_packets.simps [of seq p] packetize.simps [of seq p])
  next
    case False
    then have "0xFFFFFF < length p" using less.prems by (cases "length p = 0xFFFFFF") auto
    moreover from this have "length (drop 0xFFFFFF p) mod 0xFFFFFF \<noteq> 0"
      using less.prems le_mod_geq [of "0xFFFFFF" "length p"] by simp
    ultimately have "stream_packets (seq + 1) (drop 0xFFFFFF p) = packetize (seq + 1) (drop 0xFFFFFF p)"
      by (intro less.hyps) simp_all
    then show ?thesis
      using \<open>0xFFFFFF < length p\<close> by (simp add: stream_packets.simps [of seq p] packetize.simps [of seq p])
  qed
qed

lemma stream_read_gives:
  assumes "0 < n" "0 < length (concat chunks)"
  shows "\<exists>v chunks'. stream_read n chunks = Inr (v, chunks') \<and> concat chunks = v @ concat chunks' \<and> length v \<le> n"
proof (cases chunks)
  case Nil
  with assms show ?thesis by simp
next
  case (Cons c cs)
  with assms(1) show ?thesis by (simp add: stream_read_def)
qed

text \<open>
  The loop: behind the bytes that wait at the beginning of the buffer it sends \<open>canSend\<close> bytes of the stream,
  and then the rest under headers of its own.
\<close>

lemma pipe_stream_sends:
  "plain_writer r \<Longrightarrow> 8 \<le> length (r_buffer r) \<Longrightarrow> r_bufferStart r = 0 \<Longrightarrow> r_bufferEnd r < length (r_buffer r) \<Longrightarrow>
   0 < canSend \<Longrightarrow> canSend + rem \<le> length (concat chunks) \<Longrightarrow>
   \<exists>r2. pipe_stream cz packetSize canSend rem chunks r = (Inr (), r2) \<and>
     sent r2 = sent r @ take (r_bufferEnd r) (r_buffer r) @ take canSend (concat chunks) @
       (if rem = 0 then [] else stream_packets (r_sequenceId r) (take rem (drop canSend (concat chunks))))"
proof (induction cz packetSize canSend rem chunks r rule: pipe_stream.induct)
  case (1 cz packetSize canSend rem chunks r)
  note prems = "1.prems"
  let ?e = "r_bufferEnd r"
  let ?room = "min canSend (length (r_buffer r) - ?e)"
  have room: "0 < ?room" "0 < length (concat chunks)" using prems(4-6) by (simp, linarith)
  from stream_read_gives [OF this] obtain v chunks' where
    v: "stream_read ?room chunks = Inr (v, chunks')" "concat chunks = v @ concat chunks'" "length v \<le> ?room"
    by blast
  let ?r1 = "r\<lparr>r_buffer := arr_set (r_buffer r) ?e v\<rparr>"
  define r2 where "r2 = ?r1\<lparr>w_sent := w_sent r @ [take ?e (r_buffer r) @ v]\<rparr>"
  have fit: "?e + length v \<le> length (r_buffer r)" using v(3) prems(4) by linarith
  have send: "as_SendWithDataError packetSize
      (if 0 < r_bufferEnd ?r1 then sendPackets cz (r_bufferEnd ?r1 + length v) else sendData cz (Some 0) v) ?r1 = (Inr (), r2)"
    using prems(1) fit
    by (auto simp: as_SendWithDataError_def catchM_def sendPackets_plain sendData_plain is_compressed_def plain_writer_def
        r2_def arr_set_def)
  have r2: "plain_writer r2" "length (r_buffer r2) = length (r_buffer r)" "r_bufferStart r2 = 0"
    "r_sequenceId r2 = r_sequenceId r" "sent r2 = sent r @ take ?e (r_buffer r) @ v"
    using prems(1,3) fit by (simp_all add: r2_def plain_writer_def is_compressed_def arr_simps sent_def)
  note IH = "1.IH" [OF v(1) refl refl send]
  show ?case
  proof (cases "length v < canSend")
    case True
    let ?r3 = "r2\<lparr>r_bufferEnd := 0\<rparr>"
    have step: "pipe_stream cz packetSize canSend rem chunks r = pipe_stream cz packetSize (canSend - length v) rem chunks' ?r3"
      using True v(1) send by (subst pipe_stream.simps) (simp add: bindM_def)
    have f3: "r_bufferEnd ?r3 = 0" "r_sequenceId ?r3 = r_sequenceId r"
      using r2(4) by simp_all
    have r3: "plain_writer ?r3" "sent ?r3 = sent r2"
      using r2(1) by (simp_all add: plain_writer_def is_compressed_def sent_def)
    have "\<exists>r4. pipe_stream cz packetSize (canSend - length v) rem chunks' ?r3 = (Inr (), r4) \<and>
       sent r4 = sent ?r3 @ take (r_bufferEnd ?r3) (r_buffer ?r3) @ take (canSend - length v) (concat chunks') @
       (if rem = 0 then [] else stream_packets (r_sequenceId ?r3) (take rem (drop (canSend - length v) (concat chunks'))))"
    proof (rule IH(1) [OF True r3(1)])
      show "8 \<le> length (r_buffer ?r3)" "r_bufferStart ?r3 = 0" "r_bufferEnd ?r3 < length (r_buffer ?r3)"
        using prems(2) r2(2,3) by (simp_all del: length_greater_0_conv)
      show "0 < canSend - length v" "canSend - length v + rem \<le> length (concat chunks')"
        using True prems(6) v(2) by simp_all
    qed
    then obtain r4 where r4: "pipe_stream cz packetSize (canSend - length v) rem chunks' ?r3 = (Inr (), r4)"
      "sent r4 = sent r2 @ take (canSend - length v) (concat chunks') @
       (if rem = 0 then [] else stream_packets (r_sequenceId r) (take rem (drop (canSend - length v) (concat chunks'))))"
      unfolding r3(2) f3 take_0 append_Nil by (elim exE conjE) (rule that)
    have "take canSend (concat chunks) = v @ take (canSend - length v) (concat chunks')"
      "drop canSend (concat chunks) = drop (canSend - length v) (concat chunks')"
      unfolding v(2) using True by simp_all
    with r4 show ?thesis
      unfolding step r2(5) by simp
  next
    case False
    then have lv: "length v = canSend" using v(3) by simp
    show ?thesis
    proof (cases "rem = 0")
      case True
      then have "pipe_stream cz packetSize canSend rem chunks r = (Inr (), r2)"
        using False v(1) send by (subst pipe_stream.simps) (simp add: bindM_def)
      with True r2(5) lv v(2) show ?thesis by simp
    next
      case more: False
      let ?n = "min rem 0xFFFFFF"
      let ?b = "arr_set (r_buffer r2) 0 (header_bytes ?n (r_sequenceId r2))"
      let ?r3 = "r2\<lparr>r_sequenceId := r_sequenceId r2 + 1, r_buffer := ?b\<rparr>"
      let ?r4 = "?r3\<lparr>r_bufferEnd := 4\<rparr>"
      have hd: "setHeader ?n r2 = (Inr (), ?r3)"
        using header_word_bytes [of ?n "r_sequenceId r2"] r2(2,3) prems(2)
        by (simp add: setHeader_def Let_def)
      have step: "pipe_stream cz packetSize canSend rem chunks r = pipe_stream cz packetSize ?n (rem - ?n) chunks' ?r4"
        using False more v(1) send hd
        by (subst pipe_stream.simps) (simp add: bindM_def Let_def split del: if_split)
      have lb: "length ?b = length (r_buffer r)" "take 4 ?b = header_bytes ?n (r_sequenceId r2)"
        using r2(2) prems(2) by (simp_all add: arr_simps) (simp add: arr_set_def)
      have r4: "plain_writer ?r4" "sent ?r4 = sent r2"
        using r2(1,2) lb(1) by (simp_all add: plain_writer_def is_compressed_def sent_def)
      have "\<exists>r5. pipe_stream cz packetSize ?n (rem - ?n) chunks' ?r4 = (Inr (), r5) \<and>
         sent r5 = sent ?r4 @ take (r_bufferEnd ?r4) (r_buffer ?r4) @ take ?n (concat chunks') @
         (if rem - ?n = 0 then [] else stream_packets (r_sequenceId ?r4) (take (rem - ?n) (drop ?n (concat chunks'))))"
      proof (rule IH(2) [OF False more refl hd r4(1)])
        show "8 \<le> length (r_buffer ?r4)" "r_bufferStart ?r4 = 0" "r_bufferEnd ?r4 < length (r_buffer ?r4)"
          using prems(2) r2(3) lb(1) by simp_all
        show "0 < ?n" "?n + (rem - ?n) \<le> length (concat chunks')"
          using more lv prems(6) v(2) by simp_all
      qed
      then obtain r5 where r5: "pipe_stream cz packetSize ?n (rem - ?n) chunks' ?r4 = (Inr (), r5)"
        "sent r5 = sent r2 @ header_bytes ?n (r_sequenceId r) @ take ?n (concat chunks') @
         (if rem - ?n = 0 then [] else stream_packets (r_sequenceId r + 1) (take (rem - ?n) (drop ?n (concat chunks'))))"
        unfolding r4(2) using lb(2) r2(4) by auto
      have len: "length (take rem (concat chunks')) = rem"
        using lv prems(6) v(2) by simp
      have "stream_packets (r_sequenceId r) (take rem (concat chunks')) =
         header_bytes ?n (r_sequenceId r) @ take ?n (concat chunks') @
         (if rem - ?n = 0 then [] else stream_packets (r_sequenceId r + 1) (take (rem - ?n) (drop ?n (concat chunks'))))"
        using len by (subst stream_packets.simps) (auto simp: min_def drop_take)
      with r5 show ?thesis
        unfolding step r2(5) using lv more v(2) by simp
    qed
  qed
qed

text \<open>All of a stream that is not empty, whether its last packet is full or not.\<close>

lemma send_stream_sends:
  assumes w: "writing r" "filled r < 0xFFFFFF" "8 \<le> length (r_buffer r)"
    and n: "0 < n" "n \<le> length (concat chunks)"
  shows "\<exists>r2. send_stream cz False n chunks r = (Inr False, r2) \<and>
     sent r2 = sent r @ waiting r @ stream_packets (r_sequenceId r) (body r @ take n (concat chunks)) \<and>
     r_bufferStart r2 = 0 \<and> r_bufferEnd r2 = 0"
proof -
  define canSend where "canSend = min (filled r + n) 0xFFFFFF"
  define rem where "rem = filled r + n - canSend"
  have c24: "canSend < 2 ^ 24" by (simp add: canSend_def)
  from setHeader_in_buffer [OF w(1) c24] obtain b where
    b: "setHeader canSend r = (Inr (), r\<lparr>r_sequenceId := r_sequenceId r + 1, r_buffer := b\<rparr>)"
    "take (r_bufferEnd r) b = waiting r @ header_bytes canSend (r_sequenceId r) @ body r" "length b = length (r_buffer r)" .
  define r1 where "r1 = r\<lparr>r_sequenceId := r_sequenceId r + 1, r_buffer := b, r_bufferStart := 0\<rparr>"
  let ?flush = "\<lambda>r1. if length (r_buffer r1) < 2 * r_bufferEnd r1 then
      bindM (as_SendWithDataError (filled r + n) (sendPackets cz (r_bufferEnd r1))) (\<lambda>_. modifyM (\<lambda>r. r\<lparr>r_bufferEnd := 0\<rparr>)) r1
    else (Inr (), r1)"
  have r1: "plain_writer r1" "r_bufferStart r1 = 0" "r_sequenceId r1 = r_sequenceId r + 1"
    "length (r_buffer r1) = length (r_buffer r)" "r_bufferEnd r1 = r_bufferEnd r"
    "sent r1 @ take (r_bufferEnd r1) (r_buffer r1) = sent r @ waiting r @ header_bytes canSend (r_sequenceId r) @ body r"
    using w b by (simp_all add: r1_def plain_writer_def writing_def is_compressed_def sent_def)
  obtain r2 where r2: "?flush r1 = (Inr (), r2)" "plain_writer r2" "r_bufferStart r2 = 0"
    "r_sequenceId r2 = r_sequenceId r + 1" "length (r_buffer r2) = length (r_buffer r)" "r_bufferEnd r2 < length (r_buffer r2)"
    "sent r2 @ take (r_bufferEnd r2) (r_buffer r2) = sent r @ waiting r @ header_bytes canSend (r_sequenceId r) @ body r"
  proof (cases "length (r_buffer r1) < 2 * r_bufferEnd r1")
    case True
    let ?r2 = "r1\<lparr>w_sent := w_sent r1 @ [take (r_bufferEnd r1) (r_buffer r1)], r_bufferEnd := 0\<rparr>"
    have "?flush r1 = (Inr (), ?r2)" "plain_writer ?r2"
      using True r1(1)
      by (simp_all add: plain_writer_def bindM_def as_SendWithDataError_def catchM_def sendPackets_plain modifyM_def
          is_compressed_def)
    moreover have "sent ?r2 @ take (r_bufferEnd ?r2) (r_buffer ?r2) = sent r1 @ take (r_bufferEnd r1) (r_buffer r1)"
      by (simp add: sent_def)
    ultimately show thesis
      using r1 w(3) by (intro that [of ?r2]) (simp_all del: length_greater_0_conv)
  next
    case False
    then show thesis
      using r1 w(3) by (intro that [of r1]) simp_all
  qed
  have "0 < canSend - filled r" "canSend - filled r + rem \<le> length (concat chunks)"
    using w(2) n by (auto simp: canSend_def rem_def)
  moreover have "8 \<le> length (r_buffer r2)" using r2(5) w(3) by simp
  ultimately obtain r3 where r3: "pipe_stream cz (filled r + n) (canSend - filled r) rem chunks r2 = (Inr (), r3)"
    "sent r3 = sent r2 @ take (r_bufferEnd r2) (r_buffer r2) @ take (canSend - filled r) (concat chunks) @
       (if rem = 0 then [] else stream_packets (r_sequenceId r2) (take rem (drop (canSend - filled r) (concat chunks))))"
    using pipe_stream_sends [OF r2(2) _ r2(3,6), of "canSend - filled r" rem chunks cz "filled r + n"] by blast
  define p where "p = body r @ take n (concat chunks)"
  have lp: "length p = filled r + n" and lb: "length (body r) = filled r"
    using length_body [OF w(1)] n(2) by (simp_all add: p_def)
  have le: "filled r \<le> canSend" using w(2) n by (simp add: canSend_def)
  have parts: "take canSend p = body r @ take (canSend - filled r) (concat chunks)"
    "drop canSend p = take rem (drop (canSend - filled r) (concat chunks))"
    using lb le by (auto simp: p_def rem_def canSend_def drop_take take_append min_def add.commute)
  have "stream_packets (r_sequenceId r) p = header_bytes canSend (r_sequenceId r) @ take canSend p @
      (if rem = 0 then [] else stream_packets (r_sequenceId r + 1) (drop canSend p))"
    using lp by (subst stream_packets.simps) (auto simp: canSend_def rem_def min_def)
  then have "sent r3 = sent r @ waiting r @ stream_packets (r_sequenceId r) p"
    using r3(2) r2(4,7) unfolding parts by (simp flip: append_assoc)
  moreover have "send_stream cz False n chunks r = (Inr False, r3\<lparr>r_bufferStart := 0, r_bufferEnd := 0\<rparr>)"
    using n(1) b(1) r2(1) [unfolded r1_def] r3(1)
    by (simp add: send_stream_def Let_def bindM_def modifyM_def ready_for_reader_def
        flip: canSend_def rem_def split del: if_split)
  ultimately show ?thesis
    by (simp add: sent_def p_def)
qed

section \<open>All kinds of data\<close>

lemma sendWithData_sends:
  assumes w: "writing r" and s: "sendable src r"
  obtains r2 where "sendWithData cz False src r = Some (Inr False, r2)"
    "sent r2 = sent r @ waiting r @ packetize (r_sequenceId r) (body r @ source_bytes src)"
    "r_bufferStart r2 = 0" "r_bufferEnd r2 = 0"
proof -
  have "\<exists>r2. sendWithData cz False src r = Some (Inr False, r2) \<and>
    sent r2 = sent r @ waiting r @ packetize (r_sequenceId r) (body r @ source_bytes src) \<and>
    r_bufferStart r2 = 0 \<and> r_bufferEnd r2 = 0"
  proof (cases src)
    case (SqlString str)
    with send_string_sends [OF w, of cz str] s show ?thesis by simp
  next
    case (SqlBytes bs)
    with send_bytes_sends [OF w, of cz bs] show ?thesis by force
  next
    case (SqlStream n chunks)
    show ?thesis
    proof (cases "n = 0")
      case True
      have "filled r < 0xFFFFFF" using s SqlStream by auto
      from send_sends [OF w this, of cz] True SqlStream show ?thesis
        by (force simp: send_stream_def bindM_def ret_def)
    next
      case False
      then have n: "n \<le> length (concat chunks)" "(filled r + n) mod 0xFFFFFF \<noteq> 0" "filled r < 0xFFFFFF" "8 \<le> length (r_buffer r)"
        using s SqlStream by auto
      have "length (body r @ take n (concat chunks)) = filled r + n"
        using length_body [OF w] n(1) by simp
      with n(2) have "stream_packets (r_sequenceId r) (body r @ take n (concat chunks)) =
          packetize (r_sequenceId r) (body r @ take n (concat chunks))"
        by (simp add: stream_packets_closed)
      with send_stream_sends [OF w n(3,4) _ n(1), of cz] False SqlStream show ?thesis by simp
    qed
  next
    case (SqlObject inBuffer bs)
    show ?thesis
    proof (cases inBuffer)
      case False
      with SqlObject send_bytes_sends [OF w, of cz bs] show ?thesis by force
    next
      case True
      let ?r = "r\<lparr>r_buffer := arr_set (r_buffer r) (r_bufferEnd r) bs, r_bufferEnd := r_bufferEnd r + length bs\<rparr>"
      have fit: "r_bufferEnd r + length bs \<le> length (r_buffer r)" "length (r_buffer r) \<le> 0xFFFFFF"
        using s SqlObject True by simp_all
      note p = put_behind [OF w fit]
      from send_sends [OF p(1,2), of cz] SqlObject True show ?thesis
        unfolding p(3-6) by (force simp: bindM_def ret_def)
    qed
  qed
  then show thesis using that by blast
qed

text \<open>
  What the last condition on streams is for: a payload of exactly one full packet is sent as one packet, and the
  empty packet that tells the other side that it is over never comes.
\<close>

lemma full_stream_not_closed:
  assumes "writing r" "filled r < 0xFFFFFF" "8 \<le> length (r_buffer r)"
    and "n \<le> length (concat chunks)" "filled r + n = 0xFFFFFF"
  obtains r2 where "sendWithData cz False (SqlStream n chunks) r = Some (Inr False, r2)"
    "sent r2 @ header_bytes 0 (r_sequenceId r + 1) =
     sent r @ waiting r @ packetize (r_sequenceId r) (body r @ take n (concat chunks))"
proof -
  have "0 < n" using assms(2,5) by simp
  from send_stream_sends [OF assms(1-3) this assms(4), of cz] obtain r2 where
    r2: "send_stream cz False n chunks r = (Inr False, r2)"
    "sent r2 = sent r @ waiting r @ stream_packets (r_sequenceId r) (body r @ take n (concat chunks))"
    by blast
  have full: "stream_packets seq p @ header_bytes 0 (seq + 1) = packetize seq p" if "length p = 0xFFFFFF" for seq p
    using that by (simp add: stream_packets.simps [of seq] packetize.simps [of seq] packetize.simps [of "seq + 1"])
  have "length (body r @ take n (concat chunks)) = 0xFFFFFF"
    using length_body [OF assms(1)] assms(4,5) by simp
  note full = full [OF this, of "r_sequenceId r"]
  with r2 show thesis
    by (intro that [of r2]) simp_all
qed

section \<open>The compressed protocol\<close>

lemma decode_frames_append:
  "decode_frames z bs = Some x \<Longrightarrow> decode_frames z (bs @ tail) = map_option ((@) x) (decode_frames z tail)"
proof (induction z bs arbitrary: x rule: decode_frames.induct)
  case (1 z bs)
  show ?case
  proof (cases "bs = []")
    case True
    then show ?thesis
      using "1.prems" by (cases "decode_frames z tail") simp_all
  next
    case False
    define len where "len = le_nat (take 3 bs)"
    define ulen where "ulen = le_nat (take 3 (drop 4 bs))"
    have prems: "decode_frames z bs = Some x" by (rule "1.prems")
    have l7: "7 \<le> length bs"
      using prems False by (subst (asm) decode_frames.simps) (auto simp: COMPRESSED_HEADER_LEN_def split: if_splits)
    have fit: "len \<le> length (drop 7 bs)"
      using prems False l7
      by (subst (asm) decode_frames.simps) (auto simp: COMPRESSED_HEADER_LEN_def len_def Let_def split: if_splits)
    obtain data y where d: "frame_data z ulen (take len (drop 7 bs)) = Some data"
      "decode_frames z (drop len (drop 7 bs)) = Some y" "x = data @ y"
      using prems False l7 fit
      by (subst (asm) decode_frames.simps)
        (auto simp: COMPRESSED_HEADER_LEN_def len_def ulen_def Let_def split: if_splits option.splits)
    have IH: "decode_frames z (drop len (drop 7 bs) @ tail) = map_option ((@) y) (decode_frames z tail)"
      using "1.IH" [OF False _ refl refl refl, folded len_def ulen_def] l7 fit d
      by (simp add: COMPRESSED_HEADER_LEN_def)
    have "\<not> length bs + length tail - 7 < len"
      using l7 fit by simp
    then have "decode_frames z (bs @ tail) = map_option ((@) data) (decode_frames z (drop len (drop 7 bs) @ tail))"
      using False l7 fit d(1)
      by (subst decode_frames.simps) (simp add: COMPRESSED_HEADER_LEN_def Let_def flip: len_def ulen_def)
    then show ?thesis
      unfolding IH by (simp add: d(3) option.map_comp o_def)
  qed
qed

text \<open>
  \<open>sendPackets()\<close> and \<open>sendData()\<close> over a compressed connection that works: one more chunk, which the other side
  decodes to exactly the bytes. The bytes of \<open>sendPackets()\<close> are a view of the buffer into which the chunk may be
  written too: it goes behind them, and they stay as they are.
\<close>

lemma sendPackets_compressed:
  assumes cz: "compressor_bounded cz" "compressor_inverted cz dz"
    and w: "is_compressed w" "w_fail w = None" "n \<le> length (r_buffer w)"
    and starts: "sorted (w_commandStarts w)" "\<forall>t \<in> set (w_commandStarts w). t \<le> n"
  obtains c w2 where "sendPackets cz n w = (Inr (), w2)" "sent w2 = sent w @ c"
    "decode_frames (dz (c_compression (r_src w))) c = Some (take n (r_buffer w))"
    "c = spec_parts (cz (c_compression (r_src w)) (w_zstdLevel w)) (take n (r_buffer w)) (w_commandStarts w @ [n]) 0
      (c_compressedSeqId (r_src w))"
    "take n (r_buffer w2) = take n (r_buffer w)" "length (r_buffer w2) = length (r_buffer w)"
    "c_compression (r_src w2) = c_compression (r_src w)" "w_fail w2 = None"
proof -
  let ?data = "take n (r_buffer w)" and ?alg = "c_compression (r_src w)"
  have l: "length ?data = n" using w(3) by simp
  have pre: "\<forall>t \<in> set (w_commandStarts w). t \<le> length ?data"
    "case Some 0 of Some off \<Rightarrow> off + length ?data \<le> length (r_buffer w) | None \<Rightarrow> True"
    using starts(2) w(3) by simp_all
  from toCompressedPackets_spec [OF cz(1) starts(1) pre] obtain w1 where
    w1: "toCompressedPackets cz ?data (Some 0) (w_commandStarts w) w =
      (Inr (spec_parts (cz ?alg (w_zstdLevel w)) ?data (w_commandStarts w @ [length ?data]) 0 (c_compressedSeqId (r_src w))), w1)"
    "length (r_buffer w1) = length (r_buffer w)" "take n (r_buffer w1) = ?data"
    using l by auto
  from toCompressedPackets_decoded [OF cz starts(1) pre] obtain chunk where
    d: "decode_frames (dz ?alg) chunk = Some ?data" "toCompressedPackets cz ?data (Some 0) (w_commandStarts w) w = (Inr chunk, w1)"
    using w1(1) by auto
  have k: "w_sent w1 = w_sent w" "w_fail w1 = None" "c_compression (r_src w1) = ?alg"
    using w1(1) w(2) by (auto simp: toCompressedPackets_def Let_def split: sum.splits)
  show thesis
    by (rule that [of "w1\<lparr>w_commandStarts := [], w_sent := w_sent w1 @ [chunk]\<rparr>" chunk])
      (use w1 d w k l in \<open>auto simp: sendPackets_def Let_def bindM_def modifyM_def conn_write_def sent_def\<close>)
qed

lemma sendData_compressed:
  assumes cz: "compressor_bounded cz" "compressor_inverted cz dz" and w: "is_compressed w" "w_fail w = None"
    and view: "case within of Some off \<Rightarrow> off + length data \<le> length (r_buffer w) | None \<Rightarrow> True"
  obtains c w2 where "sendData cz within data w = (Inr (), w2)" "sent w2 = sent w @ c"
    "decode_frames (dz (c_compression (r_src w))) c = Some data"
    "c_compression (r_src w2) = c_compression (r_src w)" "w_fail w2 = None"
proof -
  obtain chunk w1 where d: "toCompressedPackets cz data within [] w = (Inr chunk, w1)"
    "decode_frames (dz (c_compression (r_src w))) chunk = Some data"
    using toCompressedPackets_decoded [OF cz, where commandStarts = "[]" and data = data and within = within and r = w] view
    by auto
  have k: "w_sent w1 = w_sent w" "w_fail w1 = None" "c_compression (r_src w1) = c_compression (r_src w)"
    using d(1) w(2) by (auto simp: toCompressedPackets_def Let_def split: sum.splits)
  show thesis
    by (rule that [of "w1\<lparr>w_sent := w_sent w1 @ [chunk]\<rparr>" chunk])
      (use d w k in \<open>auto simp: sendData_def bindM_def conn_write_def sent_def\<close>)
qed

lemma compressed_sends:
  assumes cz: "compressor_bounded cz" "compressor_inverted cz dz"
    and w: "is_compressed w" "w_fail w = None" "n \<le> length (r_buffer w)"
    and starts: "sorted (w_commandStarts w)" "\<forall>t \<in> set (w_commandStarts w). t \<le> n"
    and view: "case within of Some off \<Rightarrow> off + length data \<le> length (r_buffer w) | None \<Rightarrow> True"
  obtains c w2 c' w3 where "sendPackets cz n w = (Inr (), w2)" "sent w2 = sent w @ c"
    "sendData cz within data w2 = (Inr (), w3)" "sent w3 = sent w2 @ c'"
    "take n (r_buffer w2) = take n (r_buffer w)"
    "decode_frames (dz (c_compression (r_src w))) c = Some (take n (r_buffer w))"
    "decode_frames (dz (c_compression (r_src w))) (c @ c') = Some (take n (r_buffer w) @ data)"
proof -
  obtain c w2 where s: "sendPackets cz n w = (Inr (), w2)" "sent w2 = sent w @ c"
    "decode_frames (dz (c_compression (r_src w))) c = Some (take n (r_buffer w))"
    "take n (r_buffer w2) = take n (r_buffer w)" "length (r_buffer w2) = length (r_buffer w)"
    "c_compression (r_src w2) = c_compression (r_src w)" "w_fail w2 = None"
    by (rule sendPackets_compressed [OF cz w starts])
  have "is_compressed w2" using s(6) w(1) by (simp add: is_compressed_def)
  then obtain c' w3 where d: "sendData cz within data w2 = (Inr (), w3)" "sent w3 = sent w2 @ c'"
    "decode_frames (dz (c_compression (r_src w2))) c' = Some data"
    by (rule sendData_compressed [OF cz _ s(7), where within = within and data = data]) (use view s(5) in \<open>simp_all split: option.splits\<close>)
  show thesis
    by (rule that [OF s(1,2) d(1,2) s(4,3)])
      (use decode_frames_append [OF s(3), of c'] d(3) s(6) in simp)
qed

context byte_source
begin

text \<open>A payload whose packets are what the source still holds.\<close>

lemma payload_received:
  fixes q :: "('c, 'z) reader_scheme"
  assumes "ok (r_src q)" "rest (r_src q) = packetize seq p @ tail" "r_bufferStart q = 0" "r_bufferEnd q = 0"
    "BUFFER_LEN \<le> length (r_buffer q)"
  shows "\<exists>q2. readHeader rd q = (Inr (), q2) \<and> reader_inv rest ok q2 \<and> logical rest q2 = p \<and> behind rest q2 = tail"
proof -
  have "buffer_wf ok q" "stream rest q = packetize seq p @ tail"
    using assms by (simp_all add: buffer_wf_def stream_def avail_def)
  from packets_received [OF this] show ?thesis by blast
qed

end

end
