(* ===== verification/RowSpec.thy ===== *)
theory RowSpec
  imports SerializerSpec SourceSpec
begin

text \<open>
  What \<open>serializeRowBinary()\<close> and \<open>serializeEnd()\<close> send for a row of any length: values are appended to the buffer, a
  long string or blob makes the buffer grow, or, as the last column, is sent at once, and a row that fills half of the
  buffer is flushed. Whichever way it goes, the bytes of the row reach the connection as one payload. The numbers are
  written without making room for them; \<open>room_for\<close> says which rows do not meet the end of the buffer there.
\<close>

section \<open>Room\<close>

definition is_long :: "js_value \<Rightarrow> bool" where
  "is_long v = (case v of VStr _ \<Rightarrow> True | VBytes _ \<Rightarrow> True | _ \<Rightarrow> False)"

text \<open>
  \<open>cap\<close> is the length of the buffer and \<open>used\<close> the position in it. A string or blob needs room for its length only;
  if it does not fit, the buffer is as long afterwards as \<open>ensureRoom()\<close> makes it.
\<close>

fun room_for :: "env \<Rightarrow> nat \<Rightarrow> nat \<Rightarrow> column list \<Rightarrow> js_value list \<Rightarrow> bool" where
  "room_for e cap used (c # cs) (v # vs) =
     (let end = used + length (value_bytes e c v)
      in if end \<le> cap then room_for e cap end cs vs
         else is_long v \<and> used + length (lenenc_bytes (length (blob_of v))) \<le> cap \<and>
              (cs = [] \<or> room_for e (grow_len (2 * cap) end) end cs vs))"
| "room_for e cap used cs vs = True"

definition row_fits :: "env \<Rightarrow> nat \<Rightarrow> column list \<Rightarrow> js_value list \<Rightarrow> bool" where
  "row_fits e cap cs vs \<longleftrightarrow>
     (let used = 4 + length (mask_bytes 0 2 vs) in used \<le> cap \<and> room_for e cap used cs vs)"

section \<open>The loop over the columns\<close>

text \<open>\<open>bs\<close> stands behind what the packet had; the buffer may have grown.\<close>

definition extended :: "'z rw_scheme \<Rightarrow> 'z rw_scheme \<Rightarrow> byte list \<Rightarrow> bool" where
  "extended r r2 bs \<longleftrightarrow> writing r2 \<and> r_bufferStart r2 = r_bufferStart r \<and> r_bufferEnd r2 = r_bufferEnd r + length bs \<and>
     waiting r2 = waiting r \<and> body r2 = body r @ bs \<and> sent r2 = sent r \<and> r_sequenceId r2 = r_sequenceId r"

lemma extended_trans: "extended r r2 bs \<Longrightarrow> extended r2 r3 bs' \<Longrightarrow> extended r r3 (bs @ bs')"
  by (simp add: extended_def)

lemma appends_extended:
  assumes a: "appends m r bs" and w: "writing r" "filled r + length bs \<le> 0xFFFFFF"
    "r_bufferEnd r + length bs \<le> length (r_buffer r)"
  obtains r2 where "m r = (Inr (), r2)" "extended r r2 bs" "length (r_buffer r2) = length (r_buffer r)"
proof -
  let ?e = "r_bufferEnd r" and ?s = "r_bufferStart r"
  obtain b where b: "m r = (Inr (), r\<lparr>r_buffer := b, r_bufferEnd := ?e + length bs\<rparr>)"
    "length b = length (r_buffer r)" "take ?e b = take ?e (r_buffer r)" "subarray b ?e (?e + length bs) = bs"
    using a by (auto simp: appends_def)
  have s: "?s + 4 \<le> ?e" using w(1) by (simp add: writing_def)
  have "subarray b (?s + 4) ?e = body r"
    using arg_cong [OF b(3), of "drop (?s + 4)"] by (simp add: body_def subarray_def drop_take)
  then have "subarray b (?s + 4) (?e + length bs) = body r @ bs"
    using subarray_split [OF s, of "?e + length bs" b] b(4) by simp
  moreover have "take ?s b = take ?s (r_buffer r)"
    using arg_cong [OF b(3), of "take ?s"] s by (simp add: min_def)
  ultimately show thesis
    using b w s
    by (intro that [of "r\<lparr>r_buffer := b, r_bufferEnd := ?e + length bs\<rparr>"])
      (auto simp: extended_def writing_def is_compressed_def filled_def waiting_def body_def sent_def)
qed

lemma ensureRoom_extended:
  assumes "writing r" "length (r_buffer r) < r_bufferEnd r + n"
  shows "extended r (ensureRoom n r) []" "length (r_buffer (ensureRoom n r)) = grow_len (2 * length (r_buffer r)) (r_bufferEnd r + n)"
    "r_bufferEnd r + n \<le> length (r_buffer (ensureRoom n r))"
proof -
  let ?b = "r_buffer r" and ?len = "grow_len (2 * length (r_buffer r)) (r_bufferEnd r + n)"
  have pos: "0 < 2 * length ?b" using assms(1) by (auto simp: writing_def)
  have len: "r_bufferEnd r + n \<le> ?len" "length ?b \<le> ?len"
    using grow_len_ge [OF pos] grow_len_mono [of "2 * length ?b" "r_bufferEnd r + n"] by simp_all
  let ?c = "arr_set (replicate ?len 0) 0 ?b"
  have e: "ensureRoom n r = r\<lparr>r_buffer := ?c\<rparr>"
    using assms(2) by (simp add: ensureRoom_def Let_def)
  have l: "length ?c = ?len" "take (length ?b) ?c = ?b"
    using len by (simp_all add: arr_simps) (simp add: arr_set_def)
  have t: "take k ?c = take k ?b" if "k \<le> length ?b" for k
    using arg_cong [OF l(2), of "take k"] that by (simp add: min_def)
  have k: "r_bufferStart r \<le> length ?b" "r_bufferEnd r \<le> length ?b"
    using assms(1) by (auto simp: writing_def)
  have "waiting (r\<lparr>r_buffer := ?c\<rparr>) = waiting r" "body (r\<lparr>r_buffer := ?c\<rparr>) = body r"
    using t [OF k(1)] t [OF k(2)] by (simp_all add: waiting_def body_def subarray_def drop_take)
      (metis drop_take)
  then show "extended r (ensureRoom n r) []" "length (r_buffer (ensureRoom n r)) = ?len"
    "r_bufferEnd r + n \<le> length (r_buffer (ensureRoom n r))"
    using e l(1) len assms(1)
    by (auto simp: extended_def writing_def is_compressed_def filled_def sent_def)
qed

text \<open>A string or blob that does not fit: the buffer grows, or, in the last column, the packet is sent.\<close>

lemma write_long_column:
  fixes r :: "'z rw_scheme"
  assumes v: "storable e dec c v" "is_long v" and w: "writing r" "filled r + length (value_bytes e c v) < 0xFFFFFF"
    and room: "length (r_buffer r) < r_bufferEnd r + length (value_bytes e c v)"
      "r_bufferEnd r + length (lenenc_bytes (length (blob_of v))) \<le> length (r_buffer r)"
  shows "if isLast then
      \<exists>r2. write_column e cz ds tz isLast c v r = (Inr (), r2) \<and>
        sent r2 = sent r @ waiting r @ packetize (r_sequenceId r) (body r @ value_bytes e c v) \<and>
        r_bufferStart r2 = 0 \<and> r_bufferEnd r2 = 4 \<and> 0 < length (r_buffer r2)
    else
      \<exists>r2. write_column e cz ds tz isLast c v r = (Inr (), r2) \<and> extended r r2 (value_bytes e c v) \<and>
        length (r_buffer r2) = grow_len (2 * length (r_buffer r)) (r_bufferEnd r + length (value_bytes e c v))"
proof -
  let ?bs = "blob_of v" and ?l = "lenenc_bytes (length (blob_of v))"
  have vb: "value_bytes e c v = ?l @ ?bs" and col: "write_column e cz ds tz isLast c v r = write_blob cz isLast ?bs r"
  proof -
    have "is_blob_type (c_typeId c)" "v \<noteq> VNull" and v': "(\<exists>s. v = VStr s) \<or> (\<exists>bs. v = VBytes bs)"
      using v by (cases v; simp add: is_long_def storable_def)+
    then show "write_column e cz ds tz isLast c v r = write_blob cz isLast ?bs r"
      by (auto simp: is_blob_type_def int_types_def write_column_def Let_def)
    show "value_bytes e c v = ?l @ ?bs"
      using v' by (auto simp: value_bytes_def)
  qed
  have n: "length ?bs < 2 ^ 64" "filled r + length ?l \<le> 0xFFFFFF" using w(2) vb by simp_all
  obtain r1 where r1: "writeLenencInt (int (length ?bs)) r = (Inr (), r1)" "extended r r1 ?l"
    "length (r_buffer r1) = length (r_buffer r)"
    by (rule appends_extended [OF writeLenencInt_appends [OF room(2) n(1)] w(1) n(2) room(2)])
  have no: "length (r_buffer r1) < r_bufferEnd r1 + length ?bs"
    using r1(2,3) room(1) vb by (simp add: extended_def)
  have w1: "writing r1" using r1(2) by (simp add: extended_def)
  show ?thesis
  proof (cases isLast)
    case True
    obtain r2 where r2: "send_bytes cz False ?bs r1 = (Inr False, r2)"
      "sent r2 = sent r1 @ waiting r1 @ packetize (r_sequenceId r1) (body r1 @ ?bs)"
      "r_bufferStart r2 = 0" "r_bufferEnd r2 = 0" "length (r_buffer r2) = length (r_buffer r1)"
      by (rule send_bytes_sends [OF w1])
    have "startWritingNewPacket False r2 = (Inr (), r2\<lparr>r_bufferStart := 0, r_bufferEnd := 4, w_commandStarts := []\<rparr>)"
      using r2(3,4) by (simp add: startWritingNewPacket_def bindM_def modifyM_def)
    then have "write_column e cz ds tz isLast c v r = (Inr (), r2\<lparr>r_bufferStart := 0, r_bufferEnd := 4, w_commandStarts := []\<rparr>)"
      unfolding col using True no r1(1) r2(1) by (simp add: write_blob_def bindM_def)
    moreover have "0 < length (r_buffer r2)" using w1 r2(5) by (auto simp: writing_def)
    ultimately show ?thesis
      using True r2(2) r1(2) vb by (simp add: sent_def extended_def)
  next
    case False
    let ?r2 = "ensureRoom (length ?bs) r1"
    note e = ensureRoom_extended [OF w1 no]
    have w2: "writing ?r2" and end2: "r_bufferEnd ?r2 = r_bufferEnd r1" using e(1) by (simp_all add: extended_def)
    have f: "filled ?r2 + length ?bs \<le> 0xFFFFFF"
      using w(2) vb e(1) r1(2) w(1) by (simp add: extended_def filled_def writing_def)
    have fits: "r_bufferEnd ?r2 + length ?bs \<le> length (r_buffer ?r2)"
      using e(3) end2 by simp
    obtain r3 where r3: "write_bytes ?bs ?r2 = (Inr (), r3)" "extended ?r2 r3 ?bs" "length (r_buffer r3) = length (r_buffer ?r2)"
      by (rule appends_extended [OF write_bytes_appends [OF fits] w2 f fits])
    have "write_column e cz ds tz isLast c v r = (Inr (), r3)"
      unfolding col using False no r1(1) r3(1) by (simp add: write_blob_def bindM_def)
    moreover have "extended r r3 (?l @ [] @ ?bs)"
      by (rule extended_trans [OF r1(2) extended_trans [OF e(1) r3(2)]])
    moreover have "r_bufferEnd r1 + length ?bs = r_bufferEnd r + length (value_bytes e c v)"
      using r1(2) vb by (simp add: extended_def)
    ultimately show ?thesis
      using False vb r3(3) e(2) r1(3) by (simp add: add.assoc)
  qed
qed

lemma write_columns_extend:
  fixes r :: "'z rw_scheme"
  shows "list_all2 (storable e dec) cs vs \<Longrightarrow> writing r \<Longrightarrow> filled r + length (values_bytes e cs vs) < 0xFFFFFF \<Longrightarrow>
    room_for e (length (r_buffer r)) (r_bufferEnd r) cs vs \<Longrightarrow>
    \<exists>r2. write_columns e cz ds tz (zip cs vs) r = (Inr (), r2) \<and>
      (extended r r2 (values_bytes e cs vs) \<or>
       sent r2 = sent r @ waiting r @ packetize (r_sequenceId r) (body r @ values_bytes e cs vs) \<and>
       r_bufferStart r2 = 0 \<and> r_bufferEnd r2 = 4 \<and> 0 < length (r_buffer r2))"
proof (induction cs vs arbitrary: r rule: list_all2_induct)
  case Nil
  then show ?case by (simp add: extended_def ret_def)
next
  case (Cons c cs v vs)
  let ?n = "length (value_bytes e c v)"
  have total: "filled r + ?n + length (values_bytes e cs vs) < 0xFFFFFF"
    using Cons.prems(2) by simp
  have step: "\<exists>r3. write_columns e cz ds tz (zip (c # cs) (v # vs)) r = (Inr (), r3) \<and>
      (extended r r3 (values_bytes e (c # cs) (v # vs)) \<or>
       sent r3 = sent r @ waiting r @ packetize (r_sequenceId r) (body r @ values_bytes e (c # cs) (v # vs)) \<and>
       r_bufferStart r3 = 0 \<and> r_bufferEnd r3 = 4 \<and> 0 < length (r_buffer r3))"
    if r2: "write_column e cz ds tz (zip cs vs = []) c v r = (Inr (), r2)" "extended r r2 (value_bytes e c v)"
      and room: "room_for e (length (r_buffer r2)) (r_bufferEnd r + ?n) cs vs" for r2
  proof -
    have "writing r2" "r_bufferEnd r2 = r_bufferEnd r + ?n" "filled r2 = filled r + ?n"
      using r2(2) Cons.prems(1) by (auto simp: extended_def filled_def writing_def)
    with Cons.IH [of r2] total room obtain r3 where
      r3: "write_columns e cz ds tz (zip cs vs) r2 = (Inr (), r3)"
      "extended r2 r3 (values_bytes e cs vs) \<or>
       sent r3 = sent r2 @ waiting r2 @ packetize (r_sequenceId r2) (body r2 @ values_bytes e cs vs) \<and>
       r_bufferStart r3 = 0 \<and> r_bufferEnd r3 = 4 \<and> 0 < length (r_buffer r3)"
      by auto
    have "write_columns e cz ds tz (zip (c # cs) (v # vs)) r = (Inr (), r3)"
      using r2(1) r3(1) by (simp add: bindM_def)
    with r3(2) r2(2) extended_trans [OF r2(2)] show ?thesis
      by (auto simp: extended_def)
  qed
  show ?case
  proof (cases "r_bufferEnd r + ?n \<le> length (r_buffer r)")
    case True
    have "?n < 2 ^ 64" "filled r + ?n \<le> 0xFFFFFF" using total by simp_all
    then obtain r2 where r2: "write_column e cz ds tz (zip cs vs = []) c v r = (Inr (), r2)" "extended r r2 (value_bytes e c v)"
      "length (r_buffer r2) = length (r_buffer r)"
      using appends_extended [OF write_column_appends [OF Cons.hyps(1) True] Cons.prems(1) _ True] by blast
    show ?thesis
      by (rule step [OF r2(1,2)]) (use True Cons.prems(3) r2(3) in \<open>simp add: Let_def\<close>)
  next
    case False
    then have long: "is_long v" "r_bufferEnd r + length (lenenc_bytes (length (blob_of v))) \<le> length (r_buffer r)"
      and more: "cs = [] \<or> room_for e (grow_len (2 * length (r_buffer r)) (r_bufferEnd r + ?n)) (r_bufferEnd r + ?n) cs vs"
      using Cons.prems(3) by (simp_all add: Let_def)
    have "filled r + ?n < 0xFFFFFF" "length (r_buffer r) < r_bufferEnd r + ?n" using total False by simp_all
    note w = write_long_column [OF Cons.hyps(1) long(1) Cons.prems(1) this long(2), of "zip cs vs = []" cz ds tz]
    show ?thesis
    proof (cases "cs = []")
      case True
      then have "vs = []" using Cons.hyps(2) by simp
      with True w show ?thesis by (auto simp: bindM_def ret_def)
    next
      case False
      then have "zip cs vs \<noteq> []" using Cons.hyps(2) by (cases vs) auto
      with w obtain r2 where r2: "write_column e cz ds tz (zip cs vs = []) c v r = (Inr (), r2)" "extended r r2 (value_bytes e c v)"
        "length (r_buffer r2) = grow_len (2 * length (r_buffer r)) (r_bufferEnd r + ?n)"
        by auto
      show ?thesis
        by (rule step [OF r2(1,2)]) (use False more r2(3) in simp)
    qed
  qed
qed

section \<open>The whole row\<close>

text \<open>A row in a packet that has just been begun, and the end of the file: the row is sent as one payload.\<close>

theorem row_sends:
  fixes w :: "'z rw_scheme"
  assumes s: "list_all2 (storable e dec) cs vs" and n: "length (row_bytes e cs vs) < 0xFFFFFF"
    and fits: "row_fits e (length (r_buffer w)) cs vs" and w: "writing w" "r_bufferStart w = 0" "r_bufferEnd w = 4"
  obtains w2 where "bindM (serializeRowBinary e cz vs cs ds tz) (\<lambda>_. serializeEnd cz) w = (Inr (), w2)"
    "sent w2 = sent w @ packetize (r_sequenceId w) (row_bytes e cs vs)"
proof -
  have bytes: "row_bytes e cs vs = mask_bytes 0 2 vs @ values_bytes e cs vs"
    by (simp add: row_bytes_def values_bytes_def)
  have b: "waiting w = []" "body w = []" "filled w = 0"
    using w by (simp_all add: waiting_def body_def subarray_def filled_def)
  have room: "r_bufferEnd w + length (mask_bytes 0 2 vs) \<le> length (r_buffer w)"
    "room_for e (length (r_buffer w)) (4 + length (mask_bytes 0 2 vs)) cs vs"
    using fits w(3) by (simp_all add: row_fits_def Let_def)
  have f0: "filled w + length (mask_bytes 0 2 vs) \<le> 0xFFFFFF" using n bytes b by simp
  obtain w0 where w0: "modifyM (null_mask_loop 0 4 vs) w = (Inr () :: exn + unit, w0)" "extended w w0 (mask_bytes 0 2 vs)"
    "length (r_buffer w0) = length (r_buffer w)"
    by (rule appends_extended [OF null_mask_appends [OF room(1)] w(1) f0 room(1)])
  have "writing w0" "filled w0 + length (values_bytes e cs vs) < 0xFFFFFF"
    "room_for e (length (r_buffer w0)) (r_bufferEnd w0) cs vs"
    using w0(2,3) n bytes room(2) w by (simp_all add: extended_def filled_def)
  from write_columns_extend [OF s this, of cz ds tz] obtain w1 where
    w1: "write_columns e cz ds tz (zip cs vs) w0 = (Inr (), w1)"
    "extended w0 w1 (values_bytes e cs vs) \<or>
     sent w1 = sent w0 @ waiting w0 @ packetize (r_sequenceId w0) (body w0 @ values_bytes e cs vs) \<and>
     r_bufferStart w1 = 0 \<and> r_bufferEnd w1 = 4 \<and> 0 < length (r_buffer w1)"
    by blast
  have run: "serializeRowBinary e cz vs cs ds tz w = maybe_flush cz w1"
    using w0(1) w1(1) by (simp add: serializeRowBinary_def bindM_def)
  have rest: "serializeEnd cz w2 = (Inr (), w2\<lparr>r_bufferStart := 0, r_bufferEnd := 0\<rparr>)" if "r_bufferEnd w2 = 4" for w2 :: "'z rw_scheme"
    using that by (simp add: serializeEnd_def)
  from w1(2) show thesis
  proof
    assume sent: "sent w1 = sent w0 @ waiting w0 @ packetize (r_sequenceId w0) (body w0 @ values_bytes e cs vs) \<and>
      r_bufferStart w1 = 0 \<and> r_bufferEnd w1 = 4 \<and> 0 < length (r_buffer w1)"
    then have "maybe_flush cz w1 = (Inr (), w1)" by (simp add: maybe_flush_def)
    then show thesis
      using sent run rest [of w1] w0(2) b bytes
      by (intro that [of "w1\<lparr>r_bufferStart := 0, r_bufferEnd := 0\<rparr>"]) (simp_all add: bindM_def extended_def sent_def)
  next
    assume "extended w0 w1 (values_bytes e cs vs)"
    with w0(2) have x: "extended w w1 (row_bytes e cs vs)" unfolding bytes by (rule extended_trans)
    have f: "writing w1" "filled w1 < 0xFFFFFF" "4 < r_bufferEnd w1"
      using x n w length_mask_bytes [of 2 0 vs] by (auto simp: extended_def filled_def bytes)
    obtain w2 where w2: "send cz w1 = (Inr (), w2)"
      "sent w2 = sent w1 @ waiting w1 @ packetize (r_sequenceId w1) (body w1)" "r_bufferStart w2 = 0" "r_bufferEnd w2 = 0"
      by (rule send_sends [OF f(1,2)])
    have sent: "sent w2 = sent w @ packetize (r_sequenceId w) (row_bytes e cs vs)"
      using w2(2) x b by (simp add: extended_def)
    show thesis
    proof (cases "length (r_buffer w1) \<le> 2 * (r_bufferEnd w1 - 4)")
      case True
      let ?w3 = "w2\<lparr>r_bufferStart := 0, r_bufferEnd := 4, w_commandStarts := []\<rparr>"
      have "maybe_flush cz w1 = (Inr (), ?w3)"
        using True w2 by (simp add: maybe_flush_def bindM_def startWritingNewPacket_def modifyM_def)
      then show thesis
        using run rest [of ?w3] sent
        by (intro that [of "?w3\<lparr>r_bufferStart := 0, r_bufferEnd := 0\<rparr>"]) (simp_all add: bindM_def sent_def)
    next
      case False
      then have "maybe_flush cz w1 = (Inr (), w1)" by (simp add: maybe_flush_def)
      then show thesis
        using run f(3) w2(1) sent by (intro that [of w2]) (simp_all add: bindM_def serializeEnd_def)
    qed
  qed
qed

end
