(* ===== verification/Spec2Isabelle.thy ===== *)
theory Spec2Isabelle
  imports ConnSpec ReallocAppend HealthStatus Interval Handshake PoolTasks SourceSpec RowSpec
begin

text \<open>
  A verification library for \<open>office_spirit_mysql\<close>, a MySQL and MariaDB client in TypeScript (\<open>src/private\<close>).

  Parts and theories, from the bytes of the connection upwards:

  \<^item> \<open>Prelude\<close>: bytes, little-endian numbers, typed arrays with JavaScript's rules for out-of-range access, the monads of
    methods that may throw (\<open>methodm\<close>) and that may also not return (\<open>loopm\<close>, where \<open>None\<close> is a loop without end).
    \<open>Errors\<close>: \<open>errors.ts\<close>. \<open>Utf8\<close>: \<open>utf8_string_length.ts\<close> and the encoder of the platform. \<open>Constants\<close>: the parts
    of \<open>constants.ts\<close> that the modelled code uses. \<open>Doubles\<close>: numbers of JavaScript, as rationals rounded to 53 bits.
  \<^item> \<open>ByteSource\<close>, \<open>Connection\<close>: the interface of a connection as a locale (\<open>byte_source\<close>), and the two connections of
    \<open>my_protocol_reader.ts\<close>, plain and compressed, which are its interpretations (\<open>plain\<close>, \<open>framed\<close>).
  \<^item> \<open>Reader\<close>, \<open>ReaderSpec\<close>: \<open>my_protocol_reader.ts\<close>. The buffer, the packet headers and every read operation; the
    invariant \<open>reader_inv\<close>, and the abstraction \<open>logical\<close>, the payload that the packets still hold: \<open>takes\<close> and \<open>takesL\<close>
    say that an operation returns what stands at the front of it and removes exactly that.
  \<^item> \<open>Writer\<close>, \<open>Compress\<close>, \<open>SendData\<close>, \<open>SendSpec\<close>: \<open>my_protocol_reader_writer.ts\<close> with \<open>deflate_into.ts\<close>; \<open>packetize\<close>
    is what the wire carries, \<open>decode_frames\<close> the compressed frames.
  \<^item> \<open>ConvColumnValue\<close>: \<open>conv_column_value.ts\<close>. \<open>Serializer\<close>, \<open>SerializerSpec\<close>: \<open>my_protocol_reader_writer_serializer.ts\<close>.
  \<^item> \<open>Protocol\<close>, \<open>Commands\<close>: \<open>my_protocol.ts\<close>. \<open>PacketSpec\<close>: reading inside one packet (\<open>reads\<close>), total correctness
    of protocol operations (\<open>ends\<close>), and the locale \<open>proto_source\<close>, a \<open>byte_source\<close> under the protocol, again with both
    connections. \<open>QuerySpec\<close>: whole queries and the ends of resultsets and sessions.
  \<^item> \<open>Execute\<close>, \<open>ExecuteSpec\<close>: \<open>sendComStmtExecute()\<close> and \<open>execStmt()\<close> of \<open>my_protocol.ts\<close>, the packet of an execution as a
    function of its parameters, and the whole exchange. \<open>Resultsets\<close>: \<open>resultsets.ts\<close>. \<open>ProtoStates\<close>: the frame of each
    operation of the protocol (\<open>keptM\<close>, \<open>keptL\<close>: the fields that it does not touch), and in which states the commands leave
    the protocol whatever happens (\<open>command_settled\<close>, \<open>execution_settled\<close>).
  \<^item> \<open>XaId\<close>: \<open>xa_id_gen.ts\<close>. \<open>NamedParams\<close>: \<open>#getNamedParamsQueries()\<close> of \<open>my_conn.ts\<close>, byte by byte. \<open>Conn\<close>: the rest of
    \<open>my_conn.ts\<close>, and \<open>Session\<close>: \<open>my_session.ts\<close>. \<open>TrxSpec\<close>: what connections were asked (\<open>asks\<close>), the order of
    pending commands and queries, and the two phases of a commit. \<open>ConnSpec\<close>: the type invariant \<open>conn_wf\<close> of a connection
    object over all calls in any order (\<open>conn_reachable\<close>), and lazy savepoints.
  \<^item> \<open>HealthStatus\<close>, \<open>Interval\<close>, \<open>ReallocAppend\<close>: the files of these names.

  State is a chain of record extensions that follows the classes: \<open>reader\<close>, \<open>rw\<close>, \<open>proto\<close>. A method is a function from
  the state to a result and the state; \<open>x ?? await y\<close> is \<open>or_await x y\<close>. An exception is a value of \<open>exn\<close>. Objects that
  the protocol shares with the application (\<open>ResultsetsInternal\<close>) live in the store \<open>p_resultsets\<close>. The network is the
  list of chunks that reading will deliver; each claim holds for every way to cut the bytes.

  No fuel is used: loops are recursive functions with a measure, or \<open>partial_function (option)\<close> where they may run forever,
  and then returning is part of the claim.

  Parameters, where the code is not under \<open>src/\<close>: compression (zlib, zstd), \<open>TextDecoder\<close> apart from UTF-8 length,
  \<open>JSON.parse\<close>, \<open>Math.pow\<close> for powers of ten, local time, \<open>Number()\<close> and \<open>String()\<close>, and the bit patterns of floats
  (records \<open>host\<close>, \<open>env\<close> and \<open>penv\<close>).

  Not modelled: the assertions of debug builds, the SQL logger and the console (they do not change what the library does);
  cryptography and the handshake that uses it; \<open>Intl\<close>; the files of the operating system and the storage of resultsets in
  them. The pool is a parameter of \<open>Conn\<close> and \<open>Session\<close> (\<open>e_getProtocol\<close>: any protocol or any error for each request).
  Promises over the connections of a session run one after another: each works on a connection of its own.
\<close>

section \<open>Packets over the connection\<close>


definition example_writer :: rw where
  "example_writer =
     \<lparr>r_src = new_conn [], r_buffer = replicate 16 7, r_bufferStart = 0, r_bufferEnd = 6, r_sequenceId = 0,
      r_payloadLength = 0, r_packetOffset = 0, r_totalBytesInPacket = 0, r_decoder = (\<lambda>_. []),
      w_sent = [], w_fail = None, w_commandStarts = [0], w_zstdLevel = 3\<rparr>"



text \<open>
  C2: Numbers are read correctly wherever they lie: over the compressed protocol, with any cut of the bytes into
  frames, frames into network chunks and payload into packets, \<open>readUint64()\<close> and \<open>readInt16()\<close> (each with its
  asynchronous half) give the little-endian number at the front of the payload and remove exactly its bytes.
\<close>

theorem numbers_of_compressed_stream:
  fixes q :: "(conn, 'y) reader_scheme"
  assumes "reader_inv (frame_rest dz) (frame_ok dz) q" "8 \<le> length (logical (frame_rest dz) q)"
  shows "takes (frame_rest dz) (frame_ok dz) (or_await readUint64 (readUint64Async (readFromConn dz))) q 8
      (int (le_nat (take 8 (logical (frame_rest dz) q)))) \<and>
    takes (frame_rest dz) (frame_ok dz) (or_await readInt16 (readInt16Async (readFromConn dz))) q 2
      (le_int (take 2 (logical (frame_rest dz) q)))"
  using framed.fixed_takes [OF assms(1), of 8 get_uint] framed.fixed_takes [OF assms(1), of 2 le_int] assms(2)
  by (simp add: readUint64_def readUint64Async_def readInt16_def readInt16Async_def get_uint_def)

definition example_compressed :: "conn reader" where
  "example_compressed =
     \<lparr>r_src = (new_conn [[3, 0, 0, 0, 0], [0, 0, 5, 6, 7]])\<lparr>c_compression := ZLIB\<rparr>,
      r_buffer = arr_set (replicate BUFFER_LEN 0) 0 [1, 2, 3, 4, 5], r_bufferStart = 0, r_bufferEnd = 5, r_sequenceId = 1,
      r_payloadLength = 8, r_packetOffset = 0, r_totalBytesInPacket = 8, r_decoder = (\<lambda>_. [])\<rparr>"

lemma numbers_of_compressed_stream_witness:
  "takes (frame_rest (\<lambda>_ p. Inr p)) (frame_ok (\<lambda>_ p. Inr p))
     (or_await readUint64 (readUint64Async (readFromConn (\<lambda>_ p. Inr p)))) example_compressed 8 0x0706050504030201"
proof -
  let ?q = example_compressed and ?dz = "\<lambda>_ p. Inr p"
  have d: "decode_frames (?dz ZLIB) [3, 0, 0, 0, 0, 0, 0, 5, 6, 7] = Some [5, 6, 7]"
    by code_simp
  have st: "stream (frame_rest ?dz) ?q = [1, 2, 3, 4, 5, 5, 6, 7]"
    using d by (simp add: example_compressed_def stream_def avail_def arr_set_def frame_rest_def new_conn_def pending_def)
  have l: "logical (frame_rest ?dz) ?q = [1, 2, 3, 4, 5, 5, 6, 7]"
    unfolding logical_def st by (simp add: payload.simps example_compressed_def is_full_def lenInCurPacket_def)
  have "frame_ok ?dz (r_src ?q)"
    using d by (simp add: example_compressed_def frame_ok_def chunks_ok_def new_conn_def pending_def)
  moreover have "5 \<le> BUFFER_LEN"
    by (simp add: BUFFER_LEN_def)
  ultimately have "reader_inv (frame_rest ?dz) (frame_ok ?dz) ?q"
    unfolding reader_inv_def st
    by (simp add: example_compressed_def reader_wf_def buffer_wf_def is_full_def lenInCurPacket_def complete_False
        length_arr_set)
  moreover have "int (le_nat [1, 2, 3, 4, 5, 5, 6, 7]) = 0x0706050504030201"
    by simp
  ultimately show ?thesis
    using numbers_of_compressed_stream [where q = ?q and dz = ?dz] unfolding l by simp
qed

section \<open>The compressed protocol\<close>

text \<open>
  C3: What is sent compressed is received: \<open>sendPackets(n)\<close> sends the first \<open>n\<close> bytes of the buffer as one chunk, and
  \<open>sendData()\<close> more bytes as another one, from the buffer or from elsewhere. Making the chunk, though it may be written
  into the same buffer, leaves the bytes that it is made from as they are. For a compressor that keeps its bound and that
  the decompressor inverts, a fresh connection that gets these chunks, in whatever pieces, gives the payload of the
  packets; nothing is left over when there is no more data, and when there is, it is the rest of the payload.
\<close>

theorem compressed_payload_is_received:
  fixes w :: "'z rw_scheme"
  assumes "compressor_bounded cz" "compressor_inverted cz dz" "is_compressed w" "w_fail w = None"
    and "n \<le> length (r_buffer w)" "sorted (w_commandStarts w)" "\<forall>t \<in> set (w_commandStarts w). t \<le> n"
    and "take n (r_buffer w) @ data = packetize seq p"
    and "case view of Some off \<Rightarrow> off + length data \<le> length (r_buffer w) | None \<Rightarrow> True"
  shows "\<exists>w2 w3 c c'. sendPackets cz n w = (Inr (), w2) \<and> sent w2 = sent w @ c \<and>
    take n (r_buffer w2) = take n (r_buffer w) \<and>
    sendData cz view data w2 = (Inr (), w3) \<and> sent w3 = sent w2 @ c' \<and>
    (\<forall>(q :: (conn, 'y) reader_scheme) chunks. [] \<notin> set chunks \<and>
       (concat chunks = c @ c' \<or> data = [] \<and> concat chunks = c) \<and>
       r_src q = (new_conn chunks)\<lparr>c_compression := c_compression (r_src w)\<rparr> \<and>
       r_bufferStart q = 0 \<and> r_bufferEnd q = 0 \<and> BUFFER_LEN \<le> length (r_buffer q) \<longrightarrow>
       (\<exists>q2. readHeader (readFromConn dz) q = (Inr (), q2) \<and> reader_inv (frame_rest dz) (frame_ok dz) q2 \<and>
          logical (frame_rest dz) q2 = p \<and> behind (frame_rest dz) q2 = []))"
proof -
  obtain c w2 c' w3 where s: "sendPackets cz n w = (Inr (), w2)" "sent w2 = sent w @ c"
    "sendData cz view data w2 = (Inr (), w3)" "sent w3 = sent w2 @ c'" "take n (r_buffer w2) = take n (r_buffer w)"
    "decode_frames (dz (c_compression (r_src w))) c = Some (take n (r_buffer w))"
    "decode_frames (dz (c_compression (r_src w))) (c @ c') = Some (take n (r_buffer w) @ data)"
    by (rule compressed_sends [OF assms(1-7,9)])
  have "\<exists>q2. readHeader (readFromConn dz) q = (Inr (), q2) \<and> reader_inv (frame_rest dz) (frame_ok dz) q2 \<and>
      logical (frame_rest dz) q2 = p \<and> behind (frame_rest dz) q2 = []"
    if q: "[] \<notin> set chunks" "concat chunks = c @ c' \<or> data = [] \<and> concat chunks = c"
      "r_src q = (new_conn chunks)\<lparr>c_compression := c_compression (r_src w)\<rparr>"
      "r_bufferStart q = 0" "r_bufferEnd q = 0" "BUFFER_LEN \<le> length (r_buffer q)"
    for q :: "(conn, 'y) reader_scheme" and chunks
  proof (rule framed.payload_received [OF _ _ q(4-6)])
    have d: "decode_frames (dz (c_compression (r_src w))) (concat chunks) = Some (packetize seq p)"
      using q(2) s(6,7) assms(8) by auto
    show "frame_ok dz (r_src q)" "frame_rest dz (r_src q) = packetize seq p @ []"
      using d assms(3) q(1)
      by (simp_all add: q(3) frame_ok_def frame_rest_def new_conn_def chunks_ok_def pending_def is_compressed_def)
  qed
  with s(1-5) show ?thesis by blast
qed

text \<open>A compressor that really shortens: it replaces the letters \<open>A\<close> at the end by their number, up to 255.\<close>

definition strip_As :: compressor where
  "strip_As alg level part =
     (let k = length (takeWhile ((=) 65) (rev part))
      in if k < 256 then 1 # word_of_nat k # take (length part - k) part else 0 # part)"

fun restore_As :: decompressor where
  "restore_As alg (z # k # part) = Inr (if z = 0 then k # part else part @ replicate (unat k) 65)"
| "restore_As alg (z # []) = Inr []"
| "restore_As alg [] = Inl range_error"

lemma strip_As_inverted: "compressor_inverted strip_As restore_As"
proof -
  have "restore_As alg (strip_As alg level part) = Inr part" for alg level part
  proof -
    define k where "k = length (takeWhile ((=) 65) (rev part))"
    have "takeWhile ((=) 65) (rev part) = replicate k 65"
      unfolding k_def by (intro replicate_eqI) (auto dest: set_takeWhileD)
    moreover have "takeWhile ((=) 65) (rev part) = take k (rev part)"
      unfolding k_def by (rule takeWhile_eq_take)
    ultimately have "rev (take k (rev part)) = replicate k 65" by simp
    then have "drop (length part - k) part = replicate k 65" by (simp add: rev_take)
    then have "take (length part - k) part @ replicate k 65 = part"
      by (metis append_take_drop_id)
    moreover have "strip_As alg level part = (if k < 256 then 1 # word_of_nat k # take (length part - k) part else 0 # part)"
      by (simp add: strip_As_def k_def Let_def)
    moreover have "k \<le> length part"
      using length_takeWhile_le [of "(=) 65" "rev part"] by (simp add: k_def)
    ultimately show ?thesis
      by (cases part) (auto simp: unat_of_nat)
  qed
  then show ?thesis by (simp add: compressor_inverted_def)
qed

lemma strip_As_bounded: "compressor_bounded strip_As"
proof -
  have "length (strip_As alg level part) \<le> length part + 2" for alg level part
    by (simp add: strip_As_def Let_def)
  moreover have "n + 2 \<le> bound_of alg n" for n alg
  proof (cases "n < 512")
    case True
    then have "2 \<le> (128 * 2 ^ 10 - n) div 2 ^ 11"
      using div_le_mono [of "2 * 2 ^ 11" "128 * 2 ^ 10 - n" "2 ^ 11"] by simp
    with True show ?thesis by (simp add: bound_of_def zstdCompressBound_def deflateBound_def)
  next
    case False
    then have "2 \<le> n div 2 ^ 8"
      using div_le_mono [of "2 * 2 ^ 8" n "2 ^ 8"] by simp
    then show ?thesis by (simp add: bound_of_def zstdCompressBound_def deflateBound_def)
  qed
  ultimately show ?thesis
    unfolding compressor_bounded_def by (meson order_trans)
qed

text \<open>The 65 bytes of a packet in the buffer become a compressed packet of 14 bytes.\<close>

lemma compressed_payload_is_received_witness:
  "\<exists>w2 q2. sendPackets strip_As 65
       (example_writer\<lparr>r_src := (new_conn [])\<lparr>c_compression := ZLIB\<rparr>,
          r_buffer := packetize 0 (3 # replicate 60 65) @ replicate 400 0\<rparr>) = (Inr (), w2) \<and>
     length (sent w2) = 14 \<and>
     readHeader (readFromConn restore_As)
       (new_reader ((new_conn (map (\<lambda>b. [b]) (sent w2)))\<lparr>c_compression := ZLIB\<rparr>) (\<lambda>_. []) None) = (Inr (), q2) \<and>
     logical (frame_rest restore_As) q2 = 3 # replicate 60 65"
proof -
  let ?p = "3 # replicate 60 65 :: byte list"
  let ?w = "example_writer\<lparr>r_src := (new_conn [])\<lparr>c_compression := ZLIB\<rparr>, r_buffer := packetize 0 ?p @ replicate 400 0\<rparr>"
  have l: "length (packetize 0 ?p) = 65" "packetize 0 ?p = header_bytes 61 0 @ ?p"
    by (simp_all add: packetize.simps)
  have w: "is_compressed ?w" "w_fail ?w = None" "65 \<le> length (r_buffer ?w)" "sorted (w_commandStarts ?w)"
    "\<forall>t \<in> set (w_commandStarts ?w). t \<le> 65" "take 65 (r_buffer ?w) @ [] = packetize 0 ?p"
    using l by (simp_all add: example_writer_def is_compressed_def new_conn_def)
  have f: "sent ?w = []" "c_compression (r_src ?w) = ZLIB" "w_commandStarts ?w = [0]"
    by (simp_all add: example_writer_def sent_def new_conn_def)
  have v: "case None of Some off \<Rightarrow> off + length ([] :: byte list) \<le> length (r_buffer ?w) | None \<Rightarrow> True"
    by simp
  from compressed_payload_is_received [where ?'y = unit, OF strip_As_bounded strip_As_inverted w v, unfolded f append_Nil]
  obtain w2 c where w2: "sendPackets strip_As 65 ?w = (Inr (), w2)" "sent w2 = c"
    and r: "\<exists>c'. \<forall>(q :: conn reader) chunks. [] \<notin> set chunks \<and> (concat chunks = c @ c' \<or> [] = ([] :: byte list) \<and> concat chunks = c) \<and>
      r_src q = (new_conn chunks)\<lparr>c_compression := ZLIB\<rparr> \<and>
      r_bufferStart q = 0 \<and> r_bufferEnd q = 0 \<and> BUFFER_LEN \<le> length (r_buffer q) \<longrightarrow>
      (\<exists>q2. readHeader (readFromConn restore_As) q = (Inr (), q2) \<and>
         reader_inv (frame_rest restore_As) (frame_ok restore_As) q2 \<and>
         logical (frame_rest restore_As) q2 = ?p \<and> behind (frame_rest restore_As) q2 = [])"
    by blast
  obtain c2 w3 where w3: "sendPackets strip_As 65 ?w = (Inr (), w3)" "sent w3 = sent ?w @ c2"
    "c2 = spec_parts (strip_As ZLIB (w_zstdLevel ?w)) (take 65 (r_buffer ?w)) (w_commandStarts ?w @ [65]) 0
      (c_compressedSeqId (r_src ?w))"
    by (rule sendPackets_compressed [OF strip_As_bounded strip_As_inverted w(1-5), unfolded f(2)]) blast
  have "strip_As ZLIB lv (packetize 0 ?p) = [1, 60] @ header_bytes 61 0 @ [3]" for lv
  proof -
    have "header_bytes 61 0 = [61, 0, 0, 0]" by (simp add: header_bytes_def numeral_3_eq_3)
    moreover have "takeWhile ((=) (65 :: byte)) (replicate 60 65 @ 3 # bs) = replicate 60 65" for bs
      by (subst takeWhile_append2) simp_all
    ultimately show ?thesis
      by (simp add: l(2) strip_As_def Let_def)
  qed
  moreover have "packetize 0 ?p \<noteq> []"
    using l(1) by auto
  ultimately have "length c2 = 14"
    using w(6) l(1) unfolding w3(3) f(3)
    by (simp add: spec_part.simps MAX_COMPRESSED_PAYLOAD_LEN_def spec_frame_def MIN_COMPRESS_LEN_def)
  then have len: "length c = 14"
    using w2 w3(1,2) f(1) by simp
  let ?q = "new_reader ((new_conn (map (\<lambda>b. [b]) c))\<lparr>c_compression := ZLIB\<rparr>) (\<lambda>_. []) None :: conn reader"
  have "concat (map (\<lambda>b. [b]) c) = c" by (induction c) simp_all
  then have "\<exists>q2. readHeader (readFromConn restore_As) ?q = (Inr (), q2) \<and> logical (frame_rest restore_As) q2 = ?p"
    using r by (auto simp: new_reader_def elim!: allE [where x = ?q] allE [where x = "map (\<lambda>b. [b]) c"])
  with w2 len show ?thesis by auto
qed


section \<open>Reading blobs and skipping\<close>

text \<open>
  C4: In the ordinary protocol a blob of any length that the payload contains is read whole: \<open>readBytesToBuffer()\<close> terminates and returns
  the next \<open>len\<close> bytes of the joined payload, also when they are spread over many packets and network chunks, and
  leaves the reader at the byte behind them.
\<close>

theorem blob_is_read_whole:
  fixes q :: "(conn, 'y) reader_scheme"
  assumes "reader_inv pending plain_ok q" "len \<le> length (logical pending q)"
  shows "takesL pending plain_ok (readBytesToBuffer (readFromConn dz) len) q len (take len (logical pending q))"
  by (rule plain.readBytesToBuffer_takes [OF assms])

definition example_reader :: "byte list \<Rightarrow> conn reader" where
  "example_reader bs =
     \<lparr>r_src = new_conn [bs], r_buffer = replicate BUFFER_LEN 0, r_bufferStart = 0, r_bufferEnd = 0, r_sequenceId = 1,
      r_payloadLength = int (length bs), r_packetOffset = 0, r_totalBytesInPacket = int (length bs), r_decoder = (\<lambda>_. [])\<rparr>"

lemma example_reader:
  assumes "bs \<noteq> []" "length bs < 0xFFFFFF"
  shows "reader_inv pending plain_ok (example_reader bs)" "logical pending (example_reader bs) = bs"
proof -
  have st: "stream pending (example_reader bs) = bs"
    by (simp add: example_reader_def stream_def avail_def pending_def new_conn_def)
  show "reader_inv pending plain_ok (example_reader bs)"
    unfolding reader_inv_def st using assms
    by (simp add: example_reader_def reader_wf_def buffer_wf_def plain_ok_def chunks_ok_def new_conn_def is_full_def
        lenInCurPacket_def complete_False)
  show "logical pending (example_reader bs) = bs"
    unfolding logical_def st using assms
    by (simp add: example_reader_def is_full_def lenInCurPacket_def payload.simps)
qed

lemma blob_is_read_whole_witness:
  "takesL pending plain_ok (readBytesToBuffer (readFromConn (\<lambda>_ p. Inr p)) 2) (example_reader [5, 6, 7]) 2 [5, 6]"
  using blob_is_read_whole [OF example_reader(1) [of "[5, 6, 7]"], of 2 "\<lambda>_ p. Inr p"] example_reader(2) [of "[5, 6, 7]"]
  by simp

text \<open>
  C5: Skipping is bounded by the payload, in the ordinary and in the compressed protocol: when the payload still has
  \<open>len\<close> bytes, \<open>readVoid(len) || await readVoidAsync(len)\<close> terminates, and leaves the reader \<open>len\<close> bytes further in the
  joined payload, with what follows the payload untouched.
\<close>

theorem skip_ends_in_payload:
  fixes q :: "(conn, 'y) reader_scheme"
  assumes "0 \<le> len"
  shows "(reader_inv pending plain_ok q \<and> nat len \<le> length (logical pending q) \<longrightarrow>
      takesL pending plain_ok (skipBytes (readFromConn dz) len) q (nat len) ()) \<and>
    (reader_inv (frame_rest dz) (frame_ok dz) q \<and> nat len \<le> length (logical (frame_rest dz) q) \<longrightarrow>
      takesL (frame_rest dz) (frame_ok dz) (skipBytes (readFromConn dz) len) q (nat len) ())"
  using plain.skipBytes_takes [OF _ assms, of q dz] framed.skipBytes_takes [OF _ assms, of dz q] by blast

lemma skip_ends_in_payload_witness:
  "takesL pending plain_ok (skipBytes (readFromConn (\<lambda>_ p. Inr p)) 2) (example_reader [5, 6, 7]) 2 () \<and>
   takesL (frame_rest (\<lambda>_ p. Inr p)) (frame_ok (\<lambda>_ p. Inr p))
     (skipBytes (readFromConn (\<lambda>_ p. Inr p)) 2)
     ((example_reader [5, 6, 7])\<lparr>r_src := (new_conn [[3, 0, 0, 0, 0, 0, 0, 5, 6, 7]])\<lparr>c_compression := ZLIB\<rparr>\<rparr>) 2 ()"
proof -
  let ?dz = "\<lambda>_ p. Inr p"
  let ?q = "(example_reader [5, 6, 7])\<lparr>r_src := (new_conn [[3, 0, 0, 0, 0, 0, 0, 5, 6, 7]])\<lparr>c_compression := ZLIB\<rparr>\<rparr>"
  have d: "decode_frames (?dz ZLIB) [3, 0, 0, 0, 0, 0, 0, 5, 6, 7] = Some [5, 6, 7]"
    by code_simp
  have st: "stream (frame_rest ?dz) ?q = [5, 6, 7]"
    using d by (simp add: example_reader_def stream_def avail_def frame_rest_def new_conn_def pending_def)
  have "frame_ok ?dz (r_src ?q)"
    using d by (simp add: frame_ok_def chunks_ok_def new_conn_def pending_def)
  then have "reader_inv (frame_rest ?dz) (frame_ok ?dz) ?q"
    unfolding reader_inv_def st
    by (simp add: example_reader_def reader_wf_def buffer_wf_def is_full_def lenInCurPacket_def complete_False)
  moreover have "logical (frame_rest ?dz) ?q = [5, 6, 7]"
    unfolding logical_def st by (simp add: payload.simps example_reader_def is_full_def lenInCurPacket_def)
  ultimately show ?thesis
    using skip_ends_in_payload [of 2 ?q ?dz] skip_ends_in_payload [of 2 "example_reader [5, 6, 7]" ?dz]
      example_reader [of "[5, 6, 7]"]
    by simp
qed

text \<open>
  C6: Beyond the payload the skip does not end: at the end of a packet shorter than 0xFFFFFF, \<open>readVoidAsync(len)\<close> with
  \<open>len > 0\<close> runs forever without reading from the connection, instead of reporting that the server sent too little.
\<close>

theorem skip_past_end_hangs:
  fixes q :: "(conn, 'y) reader_scheme"
  assumes "0 < len" "r_payloadLength q \<noteq> 0xFFFFFF" "lenInCurPacket q = 0" "r_bufferStart q \<le> r_bufferEnd q"
  shows "readVoidAsync (readFromConn dz) len q = None"
  by (rule readVoidAsync_hangs [OF assms])

lemma skip_past_end_hangs_witness:
  "readVoidAsync (readFromConn (\<lambda>_ p. Inr p)) 1 ((example_reader [5])\<lparr>r_packetOffset := 1\<rparr>) = None"
  by (rule skip_past_end_hangs) (simp_all add: example_reader_def lenInCurPacket_def)

section \<open>Deferred packets\<close>

text \<open>
  C7: A deferred tail is lost: when \<open>sendWithData()\<close> with \<open>canWait\<close> gets bytes that do not fit behind the written
  part, it sends the header, which announces them, and leaves the bytes in the buffer; but the next
  \<open>startWritingNewPacket()\<close> takes the buffer for empty, so what reaches the server is the header and the written
  part, followed at once by the next packet.
\<close>

theorem deferred_tail_is_lost:
  fixes r :: "'z rw_scheme"
  assumes "writing r" "filled r + length data < 0xFFFFFF"
    "length (r_buffer r) < r_bufferEnd r + length data"
    "length data + MAX_CAN_WAIT_PACKET_PRELUDE_BYTES \<le> length (r_buffer r)"
  shows "\<exists>r2. bindM (send_bytes cz True data)
      (\<lambda>w. bindM (startWritingNewPacket True) (\<lambda>_. bindM (send cz) (\<lambda>_. ret w))) r = (Inr True, r2) \<and>
    sent r2 = sent r @ waiting r @ header_bytes (filled r + length data) (r_sequenceId r) @ body r @ header_bytes 0 0"
  by (rule deferred_tail_lost [OF assms, where cz = cz]) blast

lemma deferred_tail_is_lost_witness:
  "\<exists>r2. bindM (send_bytes (\<lambda>_ _ p. p) True [1, 2, 3, 4])
      (\<lambda>w. bindM (startWritingNewPacket True) (\<lambda>_. bindM (send (\<lambda>_ _ p. p)) (\<lambda>_. ret w)))
      (example_writer\<lparr>r_bufferEnd := 14\<rparr>) = (Inr True, r2) \<and>
    sent r2 = header_bytes 14 0 @ replicate 10 7 @ header_bytes 0 0"
proof -
  let ?r = "example_writer\<lparr>r_bufferEnd := 14\<rparr>"
  have "writing ?r"
    by (simp add: example_writer_def writing_def is_compressed_def new_conn_def filled_def)
  moreover have "filled ?r = 10" "r_bufferEnd ?r = 14" "length (r_buffer ?r) = 16" "sent ?r = []" "waiting ?r = []"
    "r_sequenceId ?r = 0" "body ?r = replicate 10 7"
    by (simp_all add: example_writer_def filled_def sent_def waiting_def body_def subarray_def)
  ultimately show ?thesis
    using deferred_tail_is_lost [of ?r "[1, 2, 3, 4]" "\<lambda>_ _ p. p"] by (simp add: MAX_CAN_WAIT_PACKET_PRELUDE_BYTES_def)
qed

section \<open>Encodings\<close>

text \<open>
  C8: A length-encoded integer that is written is read back: below 2^64 (and not the marker of NULL, which no length
  encodes to) the bytes that \<open>writeLenencInt()\<close> appends are taken by \<open>readLenencInt()\<close> as the same number,
  at whatever place of the stream they lie.
\<close>

theorem lenenc_written_is_read:
  fixes q :: "(conn, 'y) reader_scheme" and w :: "('c, 'z) reader_scheme"
  assumes "v < 2 ^ 64" "reader_inv pending plain_ok q" "logical pending q = lenenc_bytes v @ tail"
    and "r_bufferEnd w + length (lenenc_bytes v) \<le> length (r_buffer w)"
  shows "appends (writeLenencInt (int v)) w (lenenc_bytes v) \<and>
    takes pending plain_ok (or_await readLenencInt (readLenencIntAsync (readFromConn dz))) q (length (lenenc_bytes v)) (int v)"
proof
  show "appends (writeLenencInt (int v)) w (lenenc_bytes v)"
    using writeLenencInt_appends assms(1,4) by blast
  have ne: "lenenc_bytes v \<noteq> []"
    by (auto simp: lenenc_bytes_def dest: arg_cong [where f = length])
  then have h: "lenenc_size (hd (logical pending q)) = length (lenenc_bytes v)"
    using lenenc_bytes_size [of v] by (simp add: assms(3))
  have "length (lenenc_bytes v) \<le> length (logical pending q)" "0 < length (logical pending q)"
    using ne by (simp_all add: assms(3))
  then show "takes pending plain_ok (or_await readLenencInt (readLenencIntAsync (readFromConn dz))) q (length (lenenc_bytes v)) (int v)"
    using plain.lenenc_takes [OF assms(2), of dz] lenenc_roundtrip [OF assms(1)] by (simp add: h) (simp add: assms(3))
qed

lemma lenenc_written_is_read_witness:
  "appends (writeLenencInt 1000) example_writer [0xFC, 0xE8, 0x03] \<and>
   takes pending plain_ok (or_await readLenencInt (readLenencIntAsync (readFromConn (\<lambda>_ p. Inr p))))
     (example_reader [0xFC, 0xE8, 0x03]) 3 1000"
proof -
  have "le_bytes (Suc (Suc 0)) 1000 = [0xE8, 0x03]"
    by simp
  then have b: "lenenc_bytes 1000 = [0xFC, 0xE8, 0x03]"
    by (simp add: lenenc_bytes_def flip: numeral_2_eq_2)
  have w: "r_bufferEnd example_writer + 3 \<le> length (r_buffer example_writer)"
    by (simp add: example_writer_def)
  show ?thesis
    using lenenc_written_is_read [of 1000 "example_reader [0xFC, 0xE8, 0x03]" "[]" example_writer "\<lambda>_ p. Inr p"]
      example_reader [of "[0xFC, 0xE8, 0x03]"] w
    by (simp add: b numeral_3_eq_3)
qed

text \<open>
  C9: The length that the writer reserves for a string is its length in UTF-8: for every string, also with unpaired
  surrogates, \<open>utf8StringLength()\<close> is the number of bytes that \<open>TextEncoder\<close> makes, and \<open>encodeInto()\<close> with that
  much room writes the whole string.
\<close>

theorem utf8_length_is_exact:
  "utf8StringLength str = length (utf8_encode str) \<and>
   encode_into str (utf8StringLength str) = (length str, utf8_encode str)"
  using utf8StringLength_eq [of str] encode_into_all [of str "utf8StringLength str"] by simp

text \<open>
  C10: Appending to a view of a buffer gives the old bytes followed by the data, in each of its three cases (in place,
  moved to the front, new buffer), also when the data is a view of the same buffer that the move overwrites.
\<close>

theorem realloc_append_appends:
  assumes "view_wf arr" "data_wf data (view_buffer arr)"
  shows "view_wf (reallocAppend arr data withCapacity) \<and>
    view_bytes (reallocAppend arr data withCapacity) = view_bytes arr @ data_bytes data (view_buffer arr)"
  by (rule reallocAppend_appends [OF assms])

lemma realloc_append_appends_witness:
  "view_bytes (reallocAppend \<lparr>view_buffer = [9, 8, 1, 2], byteOffset = 2, view_length = 2\<rparr> (SameBuffer 0 2) False) = [1, 2, 9, 8]"
  using realloc_append_appends [of "\<lparr>view_buffer = [9, 8, 1, 2], byteOffset = 2, view_length = 2\<rparr>" "SameBuffer 0 2" False]
  by (simp add: view_wf_def view_bytes_def subarray_def)


section \<open>Health of a server\<close>

text \<open>
  C11: The health status is exact: after any sequence of logged attempts in order of time, fewer than 0x8000 of them,
  the answer for the last \<open>p\<close> seconds (at most 60) is the number of successes and the number of attempts within them,
  and NaN only when there were none.
\<close>

theorem health_counts_the_window:
  assumes "sorted (map snd es)" "length es < 0x8000" "\<forall>e \<in> set es. snd e \<le> now" "0 < p"
  defines "m \<equiv> nat (min 60 p)"
  shows "case getHealthStatusForPeriod p now (log_all es new_health) of
      None \<Rightarrow> filter (in_period m (to_sec now) True) es = [] \<and> filter (in_period m (to_sec now) False) es = []
    | Some (nOk, nAll) \<Rightarrow> nOk = int (length (filter (in_period m (to_sec now) True) es)) \<and>
        nAll = nOk + int (length (filter (in_period m (to_sec now) False) es))"
proof -
  let ?h = "log_all es new_health" and ?c = "count_all es"
  have rep: "health_rep ?h ?c" and last: "h_iSec ?h \<le> to_sec now"
    using log_all_rep [OF assms(1,2)] assms(3) by auto
  have small: "small_counts ?c"
    unfolding small_counts_def
  proof
    fix s show "fst (?c s) < 0x8000 \<and> snd (?c s) < 0x8000"
      using count_all_small [of es s] assms(2) by simp
  qed
  have m: "m = nat (min (int PERIOD_SEC) p)" by (simp add: m_def PERIOD_SEC_def)
  note st = health_status_counts [OF rep small last assms(4), folded m]
  note tot = count_all_total [of es "to_sec now" m]
  show ?thesis
  proof (cases "h_iSec ?h \<le> to_sec now - int m")
    case True
    then have "?c (to_sec now - int j) = (0, 0)" if "j < m" for j
      using rep that by (simp add: health_rep_def)
    then have "total (\<lambda>j. fst (?c (to_sec now - int j))) [0..<m] = 0" "total (\<lambda>j. snd (?c (to_sec now - int j))) [0..<m] = 0"
      by (simp_all add: total_def)
    with tot True show ?thesis by (simp add: st)
  next
    case False
    with tot show ?thesis by (simp add: st)
  qed
qed

lemma health_counts_the_window_witness:
  "case getHealthStatusForPeriod 60 3000 (log_all [(True, 1000), (False, 2500)] new_health) of
      None \<Rightarrow> False | Some (nOk, nAll) \<Rightarrow> nOk = 1 \<and> nAll = 2"
  using health_counts_the_window [of "[(True, 1000), (False, 2500)]" 3000 60]
  by (auto simp: in_period_def to_sec_def split: option.splits)

text \<open>
  C12: The bound of 0x8000 is needed: after one success and 0x8000 failures in the same second the status is
  \<open>1 / (1 - 32768)\<close>, a negative number, because the shift by 16 takes the cell for a signed number.
\<close>

theorem health_negative_after_0x8000_failures:
  assumes "1000 * 60 \<le> now"
  shows "getHealthStatusForPeriod 1 now (log_all ((True, now) # replicate 0x8000 (False, now)) new_health) =
    Some (1, 1 - 0x8000)"
proof -
  have "log_all ((True, now) # es) new_health = log_all es (health_log True now new_health)" for es
    by (simp add: log_all_def)
  then show ?thesis
    using many_failures [where n = "0x8000" and now = now] assms
    by (simp add: getHealthStatusForPeriod_def PERIOD_SEC_def low16_def shr16_def Let_def del: replicate.simps)
qed

lemma health_negative_after_0x8000_failures_witness:
  "getHealthStatusForPeriod 1 60000 (log_all ((True, 60000) # replicate 0x8000 (False, 60000)) new_health) = Some (1, - 32767)"
  using health_negative_after_0x8000_failures [of 60000] by simp

section \<open>The retry timer\<close>

text \<open>
  C13: The timer object keeps its invariant in every run, and once disposed stays so: no timer is armed any more and no
  further callback begins, in whatever order starts, stops, timer events and ends of callbacks arrive.
\<close>

theorem interval_stays_disposed:
  assumes "irun new_interval es t" "i_state t = Terminated" "irun t es' t'"
  shows "interval_inv t \<and> interval_inv t' \<and> i_state t' = Terminated \<and> i_armed t' = [] \<and> i_running t' \<le> i_running t"
  using irun_inv [OF assms(1) new_interval_inv] irun_inv [OF assms(3)] irun_terminated [OF assms(3) _ assms(2)] by blast

lemma interval_run_dispose: "irun new_interval [Dispose] (snd (interval_dispose new_interval))"
  using irun.step [OF irun_nil istep.dispose, of new_interval] by simp

lemma interval_stays_disposed_witness:
  "i_armed (interval_start True 5 (snd (interval_dispose new_interval))) = []"
proof -
  let ?t = "snd (interval_dispose new_interval)"
  have "irun ?t [Start True] (interval_start True 5 ?t)"
    using irun.step [OF irun_nil istep.start, of ?t True 5] by simp
  moreover have "i_state ?t = Terminated"
    by (simp add: interval_dispose_def new_interval_def clear_timer_def Let_def)
  ultimately show ?thesis
    using interval_stays_disposed [OF interval_run_dispose] by blast
qed

text \<open>
  C14: Without \<open>stop()\<close>, callbacks never overlap: in every run of starts, dispose, timer events and ends of callbacks
  at most one callback is running.
\<close>

theorem interval_callbacks_serial:
  assumes "irun new_interval es t" "Stop \<notin> set es"
  shows "i_running t \<le> 1"
proof -
  have "serial new_interval"
    by (simp add: serial_def new_interval_def)
  from irun_serial [OF assms new_interval_inv this] show ?thesis
    by (simp add: serial_def split: if_splits)
qed

lemma interval_callbacks_serial_witness: "i_running (snd (interval_dispose new_interval)) \<le> 1"
  by (rule interval_callbacks_serial [OF interval_run_dispose]) simp

section \<open>Serialized rows\<close>


definition example_env :: env where
  "example_env = \<lparr>h_pow10 = (\<lambda>_. None), h_local_time = (\<lambda>_. None), h_json_parse = (\<lambda>_. Inr JNull),
     e_to_number = (\<lambda>_. None), e_to_string = (\<lambda>_. []), e_date_fields = (\<lambda>_. replicate 7 (Some 0)),
     e_f32_bits = (\<lambda>_. 0), e_f64_bits = (\<lambda>_. 0), e_f32_value = (\<lambda>_. Some 0), e_f64_value = (\<lambda>_. Some 0)\<rparr>"

definition example_column :: "nat \<Rightarrow> string \<Rightarrow> column" where
  "example_column typ name = \<lparr>c_typeId = typ, c_flags = 0, c_charsetId = CHARSET_BINARY, c_name = js name\<rparr>"




text \<open>
  C16: A buffer that is exactly full stops the serializer: after a text value (not in the last column) that ends where
  the buffer ends, an INT value of the same row is written without making room, and the row fails with a RangeError.
\<close>

theorem full_buffer_fails:
  fixes w :: "'z rw_scheme"
  assumes "storable e dec c1 (VStr s)" "c_typeId c2 = MYSQL_TYPE_LONG"
    and "r_bufferEnd w + 1 + length (value_bytes e c1 (VStr s)) = length (r_buffer w)"
    and "length (r_buffer w) < 2 ^ 64"
  shows "fst (serializeRowBinary e cz [VStr s, VNum (Some (of_int n))] [c1, c2] ds tz w) = Inl range_error"
proof -
  let ?bs = "mask_bytes 0 2 [VStr s, VNum (Some (of_int n))] @ value_bytes e c1 (VStr s)"
  have "appends (bindM (modifyM (null_mask_loop 0 4 [VStr s, VNum (Some (of_int n))]))
      (\<lambda>_. write_column e cz ds tz False c1 (VStr s))) w ?bs"
    by (rule appends_bind [OF null_mask_appends write_column_appends]) (use assms in \<open>auto\<close>)
  then obtain w1 where "bindM (modifyM (null_mask_loop 0 4 [VStr s, VNum (Some (of_int n))]))
      (\<lambda>_. write_column e cz ds tz False c1 (VStr s)) w = (Inr (), w1)"
    "r_bufferEnd w1 = length (r_buffer w1)"
    using assms(3) by (auto simp: appends_def)
  then show ?thesis
    using long_without_room [OF assms(2), of w1 e cz ds tz True "Some (of_int n)"]
    by (simp add: serializeRowBinary_def bindM_def split: sum.splits prod.splits)
qed

lemma full_buffer_fails_witness:
  "fst (serializeRowBinary example_env (\<lambda>_ _ p. p) [VStr [], VNum (Some (of_int 1))]
     [\<lparr>c_typeId = MYSQL_TYPE_VAR_STRING, c_flags = 0, c_charsetId = 33, c_name = []\<rparr>, example_column MYSQL_TYPE_LONG ''n'']
     False (Some 0) (example_writer\<lparr>r_bufferEnd := 14\<rparr>)) = Inl range_error"
  by (rule full_buffer_fails [where dec = "\<lambda>_. []"])
    (simp_all add: storable_def is_blob_type_def is_binary_def int_types_def date_types_def type_ids CHARSET_BINARY_def
      example_column_def example_writer_def value_bytes_def blob_of_def lenenc_bytes_def)

text \<open>
  The fraction of a date string is taken for a whole number of microseconds whatever the number of its digits, so
  a fraction of fewer than six digits is stored too small: \<open>.123\<close> becomes 123 microseconds.
\<close>

theorem date_fraction_digits:
  assumes "length pre = 20" "ds \<noteq> []" "length ds \<le> 6" "list_all digit_unit ds"
  shows "date_parts e True tz (VStr (pre @ ds)) ! 6 = Some (of_nat (parse_digits 10 0 ds))"
proof -
  have "parse_digits 10 0 ds < 10 ^ length ds"
    using parse_digits_le [OF assms(4), of 0] by simp
  also have "\<dots> \<le> 10 ^ 6"
    using assms(3) by (rule power_increasing) simp
  finally have "double (of_nat (parse_digits 10 0 ds)) = of_nat (parse_digits 10 0 ds)"
    using double_int [of "int (parse_digits 10 0 ds)"] by simp
  then show ?thesis
    using assms parseInt_digits [OF assms(4,2)] by (simp add: date_parts_def Let_def nth_append)
qed

lemma date_fraction_digits_witness:
  "date_parts example_env True (Some 0) (VStr (js ''2024-01-02 03:04:05.123'')) ! 6 = Some 123"
proof -
  have "js ''2024-01-02 03:04:05.123'' = js ''2024-01-02 03:04:05.'' @ js ''123''"
    by (simp add: js_def)
  moreover have "parse_digits 10 0 (js ''123'') = 123" "js ''123'' \<noteq> []" "list_all digit_unit (js ''123'')"
    by (simp_all add: js_def of_char_def char_digit_def digit_unit_def)
  ultimately show ?thesis
    using date_fraction_digits [of "js ''2024-01-02 03:04:05.''" "js ''123''" example_env "Some 0"] by simp
qed

text \<open>
  A TIME value does not survive the way back: the value that the reader makes of 249
  microseconds is written as 248.
\<close>

theorem time_loses_microsecond:
  fixes r :: "('c, 'z) reader_scheme" and q :: "(conn, 'y) reader_scheme"
  assumes "reader_inv pending plain_ok q"
    "logical pending q = 12 # 0 # le_bytes_int 4 0 @ 0 # 0 # 0 # le_bytes_int 4 249 @ ts"
    and "r_bufferEnd r + 13 \<le> length (r_buffer r)"
  shows "takes pending plain_ok (read_time (readFromConn dz)) q 13 (VNum (micros 249)) \<and>
    appends (write_time (micros 249)) r [12, 0, 0, 0, 0, 0, 0, 0, 0, 248, 0, 0, 0]"
proof -
  have u8: "appends (writeUint8 v) r [word_of_int v]" if "r_bufferEnd r + 1 \<le> length (r_buffer r)"
    for v and r :: "('c, 'z) reader_scheme"
    using write_int_appends(1) [OF that refl, of v] by (simp only: le_bytes_int_1)
  note u32 = write_int_appends(2) [of _ 4, folded writeUint32_def]
  have "appends (write_time (micros 249)) r
      ([word_of_int 12] @ [word_of_int 0] @ le_bytes_int 4 0 @ [word_of_int 0] @ [word_of_int 0] @ [word_of_int 0] @ le_bytes_int 4 248)"
    unfolding write_249_microseconds
    by (intro appends_bind u8 u32) (use assms in simp_all)
  moreover have "le_bytes_int 4 0 = [0, 0, 0, 0]" "le_bytes_int 4 248 = [248, 0, 0, 0]"
    by code_simp+
  ultimately show ?thesis
    using plain.read_time_front [OF assms(1,2), of dz] by simp
qed

lemma time_loses_microsecond_witness:
  "\<exists>q :: conn reader. takes pending plain_ok (read_time (readFromConn (\<lambda>_ p. Inr p))) q 13 (VNum (micros 249))"
proof -
  let ?bytes = "[12, 0, 0, 0, 0, 0, 0, 0, 0, 249, 0, 0, 0] :: byte list"
  let ?q = "(new_reader (new_conn [?bytes]) (\<lambda>_. []) None)\<lparr>r_payloadLength := 13\<rparr> :: conn reader"
  have st: "stream pending ?q = ?bytes"
    by (simp add: new_reader_def stream_def avail_def pending_def new_conn_def)
  have "logical pending ?q = ?bytes" and "reader_inv pending plain_ok ?q"
    unfolding logical_def reader_inv_def st
    by (simp_all add: payload.simps complete_False new_reader_def reader_wf_def buffer_wf_def is_full_def lenInCurPacket_def
        plain_ok_def new_conn_def chunks_ok_def)
  moreover have "le_bytes_int 4 0 = [0, 0, 0, 0]" "le_bytes_int 4 249 = [249, 0, 0, 0]"
    by code_simp+
  ultimately show ?thesis
    using time_loses_microsecond [of ?q "[]" "example_writer\<lparr>r_buffer := replicate 32 0\<rparr>" "\<lambda>_ p. Inr p"]
    by (auto simp: example_writer_def)
qed

section \<open>Queries\<close>

text \<open>
  C17: A query that the server answers with an OK packet: exactly one COM_QUERY packet goes out, the result is a new
  resultsets object with the number of affected rows, the last insert id and the warnings of the packet, and the connection
  is idle again with nothing left to read, ready for the next command.
\<close>

theorem query_answered_ok:
  assumes "between_commands r" "p_state r = IDLE \<or> p_state r = IDLE_IN_POOL" "has_cap r CLIENT_PROTOCOL_41"
    and "length sql + 5 \<le> length (r_buffer r)" "length sql + 1 < 0xFFFFFF" "q_multiStatements q = NO_MATTER"
    and "pending (r_src r) = packet seq (ok_payload affected insertId status warnings)"
    and "affected < 2 ^ 64" "insertId < 2 ^ 64" "status < 2 ^ 16" "warnings < 2 ^ 16"
      "\<not> flag (int status) SERVER_MORE_RESULTS_EXISTS"
  shows "\<exists>r' s. sendComQuery h (SqlBytes sql) q k r = Some (Inr (Some (length (p_resultsets r))), r') \<and>
    p_state r' = IDLE \<and> between_commands r' \<and> w_sent r' = w_sent r @ [command_packet COM_QUERY sql] \<and>
    p_resultsets r' = p_resultsets r @ [s] \<and> s_lastInsertId s = int insertId \<and> s_warnings s = int warnings \<and>
    (if has_cap r CLIENT_FOUND_ROWS then s_foundRows s else s_affectedRows s) = int affected \<and>
    \<not> s_hasMore s \<and> \<not> s_hasProtocol s \<and> s_columns s = [] \<and> p_statusFlags r' = int status"
proof -
  obtain r' b n where r': "sendComQuery h (SqlBytes sql) q k r = Some (Inr (Some (length (p_resultsets r))), r'\<lparr>p_state := IDLE\<rparr>)"
    "at_pos pending plain_ok (ok_result (length (p_resultsets r)) (after_ok affected insertId status warnings (with_new q
      (after_command b (command_packet COM_QUERY sql) (r\<lparr>p_state := QUERYING\<rparr>))))) r' [] n n"
    (is "at_pos pending plain_ok ?q r' [] n n")
    using query_with_ok [OF assms(1-6) assms(7) [unfolded packet_def] refl assms(8-12)] by blast
  have "same_proto ?q r'"
    using r'(2) by (simp add: at_pos_def)
  note same = same_proto_fields [OF this]
  have "between_commands (r'\<lparr>p_state := IDLE\<rparr>)"
    by (rule between_commandsI [OF r'(2)])
      (use assms(1) in \<open>simp_all add: between_commands_def ok_result_def upd_def after_ok_def with_new_def after_command_def\<close>)
  with r'(1) same show ?thesis
    by (simp add: ok_result_def upd_def after_ok_def with_new_def after_command_def cur_def ok_fields_def new_resultsets_def Let_def)
qed

definition example_dsn :: proto_dsn where
  "example_dsn = \<lparr>n_schema = [], n_initSql = [], n_retryLockWaitTimeout = False, n_jsonAsString = False,
     n_datesAsString = False, n_correctDates = False\<rparr>"

definition example_proto :: "byte list list \<Rightarrow> proto" where
  "example_proto chunks =
     \<lparr>r_src = new_conn chunks, r_buffer = replicate BUFFER_LEN 0, r_bufferStart = 0, r_bufferEnd = 0, r_sequenceId = 0,
      r_payloadLength = 0, r_packetOffset = 0, r_totalBytesInPacket = 0, r_decoder = map (\<lambda>b. word_of_nat (unat b)),
      w_sent = [], w_fail = None, w_commandStarts = [], w_zstdLevel = 3,
      p_dsn = example_dsn, p_serverVersion = [], p_connectionId = 1, p_capabilityFlags = CLIENT_PROTOCOL_41,
      p_statusFlags = SERVER_STATUS_AUTOCOMMIT, p_schema = [], p_mariadbFlags = 0, p_warnings = 0, p_affectedRows = 0,
      p_lastInsertId = 0, p_statusInfo = [], p_timezone = Some 0, p_state = IDLE, p_maxColumnLen = 1000,
      p_retryQueryTimes = 0, p_curMultiStatements = 0, p_resultsets = [], p_curResultsets = None,
      p_pendingCloseStmts = [], p_pendingChangeSchema = [], p_lastColumn = None, p_onEndSession = None, p_closed = 0\<rparr>"

definition example_options :: query_options where
  "example_options = default_options (example_proto []) ROW_OBJECT"

definition example_penv :: penv where
  "example_penv = env.extend example_env
     (penv.fields (\<lambda>_ p. Inr p) (\<lambda>_ _ p. p) (\<lambda>_ _. []) (\<lambda>_. Inr (Some 0)) None)"

lemma example_proto_between: "[] \<notin> set chunks \<Longrightarrow> between_commands (example_proto chunks)"
  by (simp add: between_commands_def example_proto_def is_compressed_def new_conn_def buffer_wf_def plain_ok_def chunks_ok_def)

lemma example_proto_fields:
  "p_state (example_proto chunks) = IDLE" "p_capabilityFlags (example_proto chunks) = CLIENT_PROTOCOL_41"
  "length (r_buffer (example_proto chunks)) = 8192" "pending (r_src (example_proto chunks)) = concat chunks"
  "p_resultsets (example_proto chunks) = []" "w_sent (example_proto chunks) = []"
  "r_decoder (example_proto chunks) bs = map (\<lambda>b. word_of_nat (unat b)) bs"
  "p_curResultsets (example_proto chunks) = None" "p_lastColumn (example_proto chunks) = None"
  "p_onEndSession (example_proto chunks) = None"
  by (simp_all add: example_proto_def pending_def new_conn_def BUFFER_LEN_def)

lemma example_options_fields:
  "q_multiStatements example_options = NO_MATTER" "q_noConvertError example_options = False"
  "q_retryLockWaitTimeout example_options = False"
  by (simp_all add: example_options_def default_options_def example_proto_def example_dsn_def)

lemma query_answered_ok_witness:
  "\<exists>r'. sendComQuery example_penv (SqlBytes [83]) example_options 0
       (example_proto [[7, 0, 0, 1, 0], [5, 9, 2, 0, 0, 0]]) = Some (Inr (Some 0), r') \<and>
     p_state r' = IDLE \<and> w_sent r' = [[2, 0, 0, 0, 3, 83]] \<and> between_commands r'"
proof -
  let ?r = "example_proto [[7, 0, 0, 1, 0], [5, 9, 2, 0, 0, 0]]"
  have "flag CLIENT_PROTOCOL_41 CLIENT_PROTOCOL_41" "\<not> flag 2 SERVER_MORE_RESULTS_EXISTS"
    by (simp_all add: flag_def protocol_ids)
  moreover have "packet 1 (ok_payload 5 9 2 0) = [7, 0, 0, 1, 0, 5, 9, 2, 0, 0, 0]"
    "command_packet COM_QUERY [83] = [2, 0, 0, 0, 3, 83]"
    by code_simp+
  ultimately show ?thesis
    using query_answered_ok [of ?r "[83]" example_options 1 5 9 2 0 example_penv 0]
      example_proto_between [of "[[7, 0, 0, 1, 0], [5, 9, 2, 0, 0, 0]]"]
    by (auto simp: example_proto_fields example_options_fields)
qed

text \<open>
  C18: A query that the server refuses: the ERR packet becomes a SqlError with its code, SQLSTATE and message, whose
  \<open>canRetry\<close> follows from the status flags of the session, and the connection is idle and can be used again.
\<close>

theorem query_answered_err:
  assumes "between_commands r" "p_state r = IDLE \<or> p_state r = IDLE_IN_POOL" "has_cap r CLIENT_PROTOCOL_41"
    and "length sql + 5 \<le> length (r_buffer r)" "length sql + 1 < 0xFFFFFF" "q_multiStatements q = NO_MATTER"
    and "pending (r_src r) = packet seq (err_payload code sqlState msg)"
    and "code < 2 ^ 16" "length sqlState = 6" "length msg \<le> BUFFER_LEN"
    and "\<not> wants_retry k (q_retryLockWaitTimeout q) (server_error r code sqlState msg)" "\<not> q_noConvertError q"
  shows "\<exists>r'. sendComQuery h (SqlBytes sql) q k r =
      Some (Inl (SqlError (r_decoder r (strip_nul msg)) code (r_decoder r sqlState)
        (sqlError_canRetry code (has_status r SERVER_STATUS_AUTOCOMMIT) (has_status r SERVER_STATUS_IN_TRANS))), r') \<and>
    p_state r' = IDLE \<and> between_commands r' \<and> w_sent r' = w_sent r @ [command_packet COM_QUERY sql] \<and>
    p_curResultsets r' = p_curResultsets r"
proof -
  obtain r' b n where r': "sendComQuery h (SqlBytes sql) q k r = Some (Inl (server_error r code sqlState msg), r'\<lparr>p_state := IDLE\<rparr>)"
    "at_pos pending plain_ok (with_new q (after_command b (command_packet COM_QUERY sql) (r\<lparr>p_state := QUERYING\<rparr>))) r' [] n n"
    using query_with_err [OF assms(1-6) assms(7) [unfolded packet_def] refl assms(8-12)] by blast
  note same = same_proto_fields [OF r'(2) [unfolded at_pos_def, THEN conjunct1]]
  have "between_commands (r'\<lparr>p_state := IDLE\<rparr>)"
    by (rule between_commandsI [OF r'(2)])
      (use assms(1) in \<open>simp_all add: between_commands_def with_new_def after_command_def\<close>)
  with r'(1) same show ?thesis
    by (simp add: server_error_def new_SqlError_def with_new_def after_command_def)
qed

lemma query_answered_err_witness:
  "\<exists>r'. sendComQuery example_penv (SqlBytes [83]) example_options 0
       (example_proto [[11, 0, 0, 1, 0xFF, 40, 4], [35, 52, 50, 48, 48, 48, 88, 89]]) =
     Some (Inl (SqlError (js ''XY'') 1064 (js ''#42000'') CanRetry_NONE), r') \<and> p_state r' = IDLE \<and> between_commands r'"
proof -
  let ?c = "[[11, 0, 0, 1, 0xFF, 40, 4], [35, 52, 50, 48, 48, 48, 88, 89]] :: byte list list"
  have "flag CLIENT_PROTOCOL_41 CLIENT_PROTOCOL_41"
    by (simp add: flag_def protocol_ids)
  moreover have "packet 1 (err_payload 1064 [35, 52, 50, 48, 48, 48] [88, 89]) =
    [11, 0, 0, 1, 0xFF, 40, 4, 35, 52, 50, 48, 48, 48, 88, 89]"
    by code_simp+
  moreover have "js ''XY'' = [88, 89]" "js ''#42000'' = [35, 52, 50, 48, 48, 48]"
    by code_simp+
  moreover have "strip_nul [88, 89] = [88, 89]" "sqlError_canRetry 1064 a b = CanRetry_NONE" for a b
    by (simp_all add: strip_nul_def sqlError_canRetry_def ER_LOCK_WAIT_TIMEOUT_def
        ER_LOCK_DEADLOCK_def ER_XA_RBTIMEOUT_def ER_XA_RBDEADLOCK_def ER_SERVER_SHUTDOWN_def ER_TOO_MANY_USER_CONNECTIONS_def
        ER_CON_COUNT_ERROR_def ER_USER_LIMIT_REACHED_def ER_CANT_CREATE_THREAD_def)
  ultimately show ?thesis
    using query_answered_err [of "example_proto ?c" "[83]" example_options 1 1064 "[35, 52, 50, 48, 48, 48]" "[88, 89]" 0 example_penv]
      example_proto_between [of ?c]
    by (auto simp: example_proto_fields example_options_fields wants_retry_def BUFFER_LEN_def)
qed

text \<open>
  C19: The final status of a prepared CALL breaks the connection: the OK packet that ends the resultsets of a procedure is
  read as the answer to COM_STMT_PREPARE. Affected rows, insert id and status flags become the id of the statement, and
  the reader then wants bytes that the server does not send; when the data ends there, \<open>nextResultset()\<close> fails, the
  protocol is in the ERROR state and the connection is closed.
\<close>

theorem call_status_misread:
  assumes "buffer_wf plain_ok r" "stream pending r = packet seq (ok_payload affected insertId status warnings)"
    and "affected < 251" "insertId < 251" "status < 2 ^ 16" "warnings < 2 ^ 16"
    and "p_state r = HAS_MORE_RESULTSETS" "p_curResultsets r = Some i" "i < length (p_resultsets r)"
      "s_isPreparedStmt (cur i r)" "p_onEndSession r = None"
  shows "\<exists>r'. nextResultset h ignoreTerminated r = Some (Inl lost_connection, r') \<and> p_state r' = ERROR_STATE \<and>
    p_closed r' = p_closed r + 1 \<and> s_stmtId (cur i r') = int (affected + 256 * insertId + 65536 * status)"
  by (rule plain_proto.next_status_misread [OF assms])

lemma call_status_misread_witness:
  "\<exists>r'. nextResultset example_penv False ((example_proto [[7, 0, 0, 1, 0], [0, 0, 2, 0, 0, 0]])
      \<lparr>p_state := HAS_MORE_RESULTSETS, p_curResultsets := Some 0,
        p_resultsets := [(new_resultsets example_options)\<lparr>s_isPreparedStmt := True, s_stmtId := 7\<rparr>]\<rparr>) =
      Some (Inl lost_connection, r') \<and> p_state r' = ERROR_STATE \<and> s_stmtId (cur 0 r') = 131072"
proof -
  let ?c = "[[7, 0, 0, 1, 0], [0, 0, 2, 0, 0, 0]] :: byte list list"
  let ?r = "(example_proto ?c)\<lparr>p_state := HAS_MORE_RESULTSETS, p_curResultsets := Some 0,
        p_resultsets := [(new_resultsets example_options)\<lparr>s_isPreparedStmt := True, s_stmtId := 7\<rparr>]\<rparr>"
  have "buffer_wf plain_ok ?r" "stream pending ?r = concat ?c"
    by (simp_all add: example_proto_def buffer_wf_def plain_ok_def chunks_ok_def new_conn_def stream_def avail_def pending_def)
  moreover have "packet 1 (ok_payload 0 0 2 0) = concat ?c"
    by code_simp
  ultimately show ?thesis
    using call_status_misread [of ?r 1 0 0 2 0 0 example_penv False]
    by (auto simp: cur_def example_proto_fields)
qed

text \<open>
  C20: \<open>end()\<close> never rolls back: the state is set to TERMINATED before the XA commands are sent, so both are refused
  with a CanceledError that is ignored, and the session ends exactly as without a prepared transaction.
\<close>

theorem end_never_rolls_back:
  assumes "p_state r \<noteq> QUERYING" "p_curResultsets r = None"
  shows "end_session h xaId recycleConnection r = end_session h [] recycleConnection r"
proof -
  have "end_rollback h xaId (r\<lparr>p_state := TERMINATED\<rparr>) = end_rollback h [] (r\<lparr>p_state := TERMINATED\<rparr>)"
    by (simp add: end_rollback_terminated)
  then show ?thesis
    using assms by (simp add: end_session_def end_wait_def end_discard_def bindL_def getL_def setL_def)
qed

lemma end_never_rolls_back_witness:
  "end_session example_penv (js ''x1'') True (example_proto []) = end_session example_penv [] True (example_proto [])"
  by (rule end_never_rolls_back) (simp_all add: example_proto_fields)

text \<open>
  C21: A query is not repeated inside a transaction: when the attempt fails with an error of the server and the status
  flags say that a transaction is open or that autocommit is off, the number of retries that is left does not matter.
\<close>

theorem query_not_repeated_in_transaction:
  assumes "query_attempt h sql q r = Some (Inl (server_error r0 code sqlState msg), r')"
    and "has_status r0 SERVER_STATUS_IN_TRANS \<or> \<not> has_status r0 SERVER_STATUS_AUTOCOMMIT"
  shows "query_loop h sql q isFromPool retries r = query_loop h sql q isFromPool 0 r"
proof -
  have "\<not> wants_retry k lw (server_error r0 code sqlState msg)" for k lw
    using assms(2) retry_only_outside_transaction unfolding server_error_def by blast
  then show ?thesis
    by (simp add: query_loop.simps [of h sql q isFromPool retries] query_loop.simps [of h sql q isFromPool 0]
        tryL_def bindL_def assms(1))
qed

lemma query_not_repeated_in_transaction_witness:
  "query_loop example_penv (SqlBytes [83]) example_options False 5
     ((example_proto [[11, 0, 0, 1, 0xFF, 0xBD, 4], [35, 52, 48, 48, 48, 49, 88, 89]])\<lparr>p_statusFlags := SERVER_STATUS_IN_TRANS\<rparr>) =
   query_loop example_penv (SqlBytes [83]) example_options False 0
     ((example_proto [[11, 0, 0, 1, 0xFF, 0xBD, 4], [35, 52, 48, 48, 48, 49, 88, 89]])\<lparr>p_statusFlags := SERVER_STATUS_IN_TRANS\<rparr>)"
proof -
  let ?c = "[[11, 0, 0, 1, 0xFF, 0xBD, 4], [35, 52, 48, 48, 48, 49, 88, 89]] :: byte list list"
  let ?r = "(example_proto ?c)\<lparr>p_statusFlags := SERVER_STATUS_IN_TRANS\<rparr>"
  have bc: "between_commands ?r"
    using example_proto_between [of ?c] by (simp add: between_commands_def is_compressed_def buffer_wf_def)
  have f: "flag CLIENT_PROTOCOL_41 CLIENT_PROTOCOL_41" "flag SERVER_STATUS_IN_TRANS SERVER_STATUS_IN_TRANS"
    by (simp_all add: flag_def protocol_ids)
  have "packet 1 (err_payload 1213 [35, 52, 48, 48, 48, 49] [88, 89]) =
      [11, 0, 0, 1, 0xFF, 0xBD, 4, 35, 52, 48, 48, 48, 49, 88, 89]"
    by code_simp
  then have "pending (r_src ?r) = packet 1 (err_payload 1213 [35, 52, 48, 48, 48, 49] [88, 89])"
    by (simp add: example_proto_fields)
  then obtain r' where "query_attempt example_penv (SqlBytes [83]) example_options ?r =
      Some (Inl (server_error ?r 1213 [35, 52, 48, 48, 48, 49] [88, 89]), r')"
    using attempt_with_err [OF bc, of "[83]" example_options _ 1 1213 "[35, 52, 48, 48, 48, 49]" "[88, 89]" example_penv] f
    by (auto simp: packet_def example_proto_fields example_options_fields BUFFER_LEN_def)
  then show ?thesis
    by (rule query_not_repeated_in_transaction) (simp add: f)
qed

section \<open>Column definitions\<close>

text \<open>
  The attributes of a column in the extended metadata of MariaDB: for every list of attributes that the block holds,
  in any order and with any others before it, the column is JSON if and only if the value of the first
  FORMAT attribute is \<open>json\<close>.
\<close>

theorem json_format_found:
  assumes "\<forall>(k, v) \<in> set attrs. length v < 256"
  shows "format_is_json (attr_block attrs) 0 =
    (case find (\<lambda>(k, v). unat k = FORMAT_NAME) attrs of Some (k, v) \<Rightarrow> v = ascii ''json'' | None \<Rightarrow> False)"
  using format_is_json_block [of attrs "[]"] assms by simp

lemma json_format_found_witness:
  "format_is_json (attr_block [(0, [1, 2]), (1, ascii ''json''), (1, [])]) 0"
  using json_format_found [of "[(0, [1, 2]), (1, ascii ''json''), (1, [])]"] by (simp add: ascii_def FORMAT_NAME_def)

section \<open>Values of the text protocol\<close>

text \<open>
  C22: Integers of the text protocol are exact: the decimal text of any integer in a BIGINT column becomes the number
  itself when JavaScript numbers can hold it safely, and the same value as a \<open>bigint\<close> otherwise.
\<close>

theorem bigint_text_is_exact:
  "convColumnValue h (ascii (show_int n)) MYSQL_TYPE_LONGLONG cs decode j ds ser tz =
     Inr (if \<bar>n\<bar> \<le> MAX_SAFE_INTEGER then VNum (Some (of_int n)) else VBigInt n)"
  using short_is_safe [of n] dataToInt_show [of n] dataToBigInt_show [of n]
  by (cases "length (ascii (show_int n)) \<le> NONSAFE_INTEGER_MIN_LEN")
    (auto simp: convColumnValue_def int_types_def type_ids MAX_SAFE_INTEGER_def)

text \<open>
  C23: A date that is sent as text is read back: for a date of the years 0 to 9999 without milliseconds, the text that
  \<open>dateToData()\<close> makes gives \<open>dataToDate()\<close> the same local fields for the \<open>Date\<close> constructor.
\<close>

theorem date_text_roundtrip:
  assumes "date_ok d" "d_milli d = 0"
  shows "convColumnValue h (dateToData d) MYSQL_TYPE_DATETIME cs decode j False ser (Some 0) =
    Inr (VDate (new_Date h (Some (of_int (d_year d))) (Some (of_int (d_month d - 1))) (Some (of_int (d_day d)))
      (Some (of_int (d_hour d))) (Some (of_int (d_minute d))) (Some (of_int (d_second d))) (Some 0)))"
  using dataToDate_dateToData [OF assms(1), of h] assms(2)
  by (simp add: convColumnValue_def int_types_def date_types_def type_ids)

definition example_host :: host where
  "example_host = \<lparr>h_pow10 = (\<lambda>x. if x = Some (- 1) then Some (double (1 / 10)) else if x = Some (- 6) then Some (double (1 / 1000000)) else None),
     h_local_time = (\<lambda>xs. foldl (\<lambda>a x. num_add (num_mul a (Some 60)) x) (Some 0) xs),
     h_json_parse = (\<lambda>_. Inr JNull)\<rparr>"

lemma date_text_roundtrip_witness:
  "convColumnValue example_host
     (dateToData \<lparr>d_year = 2024, d_month = 2, d_day = 29, d_hour = 23, d_minute = 5, d_second = 9, d_milli = 0\<rparr>)
     MYSQL_TYPE_DATETIME 0 (\<lambda>_. []) False False False (Some 0) =
   Inr (VDate (new_Date example_host (Some 2024) (Some 1) (Some 29) (Some 23) (Some 5) (Some 9) (Some 0)))"
  using date_text_roundtrip [of "\<lparr>d_year = 2024, d_month = 2, d_day = 29, d_hour = 23, d_minute = 5, d_second = 9, d_milli = 0\<rparr>"
      example_host 0 "\<lambda>_. []" False False]
  by (simp add: date_ok_def)

text \<open>
  Fractions are not exact: with a correctly rounded power of ten, the text 0.3 of a DOUBLE column does not give the
  double nearest to 0.3 (the digits are multiplied by a rounded 0.1), and the 7 milliseconds of a DATETIME(6)
  become 6.
\<close>

theorem fractions_are_off:
  assumes "h_pow10 h (Some (- 1)) = Some (double (1 / 10))" "h_pow10 h (Some (- 6)) = Some (double (1 / 1000000))"
  shows "dataToNumber h (ascii ''0.3'') \<noteq> Some (double (3 / 10)) \<and>
    map_option trunc (num_mul (dataToNumber h (ascii ''.007000'')) (Some 1000)) = Some 6"
proof -
  have "\<not> is_at (ascii ''0.3'') 0 C_MINUS" "\<not> is_at (ascii ''.007000'') 0 C_MINUS"
    by (simp_all add: is_at_def ascii_def of_char_def C_MINUS_def)
  then have "dataToNumber h (ascii ''0.3'') = Some (double (3 * double (1 / 10)))"
    "dataToNumber h (ascii ''.007000'') = Some (double (7000 * double (1 / 1000000)))"
    by (simp_all add: dataToNumber_def number_loop_03 number_loop_007000 assms sign_def)
  then show ?thesis
    using three_tenths seven_milliseconds by simp
qed

lemma fractions_are_off_witness: "dataToNumber example_host (ascii ''0.3'') \<noteq> Some (double (3 / 10))"
  using fractions_are_off [of example_host] by (simp add: example_host_def)

section \<open>Prepared statements\<close>

text \<open>
  C24: The packet that executes a prepared statement. Whatever the parameters are, as long as each is in the packet itself,
  and however often the buffer is flushed on the way, exactly one packet is sent: its header announces its length, the
  bit of every parameter in the null bitmap says whether the parameter is null, and the values follow their types. Nothing
  stays in the buffer.
\<close>

theorem execute_packet_sent:
  assumes "between_commands r" "placeholders n params = ps" "list_all inline_param ps"
    and "execute_length (env.truncate h) (inline_params ps) < 0xFFFFFF" "\<not> (correctDates \<and> list_ex is_date ps)"
  shows "\<exists>r' p. sendComStmtExecute h stmtId n params correctDates r = Some (Inr (), r') \<and>
    sent r' = sent r @ packet 0 p \<and> r_bufferStart r' = 0 \<and> r_bufferEnd r' = 0 \<and>
    length p = execute_length (env.truncate h) (inline_params ps) \<and>
    take 5 p = word_of_int COM_STMT_EXECUTE # le_bytes_int 4 stmtId \<and>
    (\<forall>i<length ps. bit (p ! (10 + i div 8)) (i mod 8) = (ps ! i = PNull)) \<and>
    drop (10 + (length ps + 7) div 8) p =
      [1] @ type_bytes ps @ concat (map (param_bytes (env.truncate h) (Some 0)) (inline_params ps))"
proof -
  let ?p = "execute_bytes (env.truncate h) stmtId (Some 0) (inline_params ps)"
  obtain b w where "sendComStmtExecute h stmtId n params correctDates r = Some (Inr (), after_execute b w r)"
    "concat w = sent r @ packet 0 ?p"
    using execute_sent [OF assms(1), of n params h correctDates stmtId] assms(3-5) unfolding assms(2) by blast
  moreover have "length ?p = execute_length (env.truncate h) (inline_params ps)"
    by (rule length_execute_bytes [OF inline_flags [OF assms(3)] inline_dates])
  moreover have "bit (?p ! (10 + i div 8)) (i mod 8) = (ps ! i = PNull)" if "i < length ps" for i
    using null_bits_tell [of i "inline_params ps"] that by (simp add: inline_params_def)
  moreover have "take 5 ?p = word_of_int COM_STMT_EXECUTE # le_bytes_int 4 stmtId"
    by (simp add: execute_bytes_def)
  moreover have "drop (10 + (length ps + 7) div 8) ?p =
      [1] @ type_bytes ps @ concat (map (param_bytes (env.truncate h) (Some 0)) (inline_params ps))"
    using execute_bytes_values [of "inline_params ps"] inline_fst [of ps] by (simp add: inline_params_def)
  ultimately show ?thesis
    by (intro exI [of _ "after_execute b w r"] exI [of _ ?p]) (simp add: after_execute_def sent_def)
qed

definition example_params :: "param list" where
  "example_params = [PNull, PBool True, PBigInt 5, PStr [65]]"

lemma example_params_facts:
  "list_all inline_param example_params" "\<not> list_ex is_date example_params"
  "execute_length e (inline_params example_params) = 31"
  by (simp_all add: example_params_def short_string_def execute_length_def inline_params_def utf8StringLength_eq utf8_encode.simps
      is_low_def is_high_def utf8_point_def Let_def)

lemma execute_packet_sent_witness:
  "\<exists>r' p. sendComStmtExecute example_penv 7 4 example_params True (example_proto []) = Some (Inr (), r') \<and>
     sent r' = packet 0 p \<and> length p = 31 \<and> bit (p ! 10) 0 \<and> \<not> bit (p ! 10) 1"
proof -
  have b: "between_commands (example_proto [])"
    by (rule example_proto_between) simp
  have p: "placeholders 4 example_params = example_params" "sent (example_proto []) = []"
    by (simp_all add: placeholders_def example_params_def example_proto_def sent_def)
  have len: "execute_length (env.truncate example_penv) (inline_params example_params) < 0xFFFFFF"
    "\<not> (True \<and> list_ex is_date example_params)"
    by (simp_all add: example_params_facts)
  obtain r' p where r': "sendComStmtExecute example_penv 7 4 example_params True (example_proto []) = Some (Inr (), r')"
    "sent r' = sent (example_proto []) @ packet 0 p"
    "length p = execute_length (env.truncate example_penv) (inline_params example_params)"
    "\<forall>i<length example_params. bit (p ! (10 + i div 8)) (i mod 8) = (example_params ! i = PNull)"
    using execute_packet_sent [OF b p(1) example_params_facts(1) len, of 7] by blast
  have "bit (p ! 10) 0" "\<not> bit (p ! 10) 1"
    using r'(4) [rule_format, of 0] r'(4) [rule_format, of 1] by (simp_all add: example_params_def)
  with r' p(2) show ?thesis
    by (auto simp: example_params_facts)
qed

text \<open>
  C25: The execution of a prepared statement that the server answers with an OK packet: the fields of the same resultsets
  object hold the numbers of the packet, and the connection is idle and ready for the next command, provided that the
  status before the execution did not announce more resultsets (C30).
\<close>

theorem prepared_statement_executed:
  assumes "between_commands r" "p_state r = IDLE \<or> p_state r = IDLE_IN_POOL" "has_cap r CLIENT_PROTOCOL_41"
    and "i < length (p_resultsets r)" "0 \<le> s_stmtId (cur i r)" "placeholders (nat (s_nPlaceholders (cur i r))) params = ps"
    and "list_all inline_param ps" "execute_length (env.truncate h) (inline_params ps) < 0xFFFFFF"
      "\<not> (correctDates \<and> list_ex is_date ps)"
    and "pending (r_src r) = packet seq (ok_payload affected insertId status warnings)"
    and "affected < 2 ^ 64" "insertId < 2 ^ 64" "status < 2 ^ 16" "warnings < 2 ^ 16"
    and "\<not> has_status r SERVER_MORE_RESULTS_EXISTS"
  shows "\<exists>r'. execStmt h i params correctDates r = Some (Inr (), r') \<and> p_state r' = IDLE \<and> between_commands r' \<and>
    sent r' = sent r @ packet 0 (execute_bytes (env.truncate h) (s_stmtId (cur i r)) (Some 0) (inline_params ps)) \<and>
    p_resultsets r' = (p_resultsets r)[i := cur i r'] \<and> p_statusFlags r' = int status \<and>
    s_stmtId (cur i r') = s_stmtId (cur i r) \<and> s_nPlaceholders (cur i r') = s_nPlaceholders (cur i r) \<and>
    s_lastInsertId (cur i r') = int insertId \<and> s_warnings (cur i r') = int warnings \<and>
    (if has_cap r CLIENT_FOUND_ROWS then s_foundRows (cur i r') else s_affectedRows (cur i r')) = int affected"
proof -
  let ?r = "r\<lparr>p_state := QUERYING\<rparr>"
  obtain r' b ws n where r': "execStmt h i params correctDates r = Some (Inr (), setState IDLE r')"
    "concat ws = sent r @ packet 0 (execute_bytes (env.truncate h) (s_stmtId (cur i r)) (Some 0) (inline_params ps))"
    "at_pos pending plain_ok (exec_result i affected insertId status warnings (after_execute b ws ?r)) r' [] n n"
    using exec_stmt_ok [OF assms(1-3,5-14)] assms(15) by auto
  let ?a = "after_ok affected insertId status warnings (after_execute b ws ?r)"
  have e: "exec_result i affected insertId status warnings (after_execute b ws ?r) = upd i (ok_fields ?a) ?a"
    by (rule exec_result_idle) (use assms(15) in \<open>simp add: after_execute_def\<close>)
  have "same_proto (upd i (ok_fields ?a) ?a) r'"
    using r'(3) by (simp add: at_pos_def e)
  note same = same_proto_fields [OF this]
  have "p_onEndSession r' = None"
    using same(11) assms(1) by (simp add: upd_def after_ok_def after_execute_def between_commands_def)
  then have idle: "setState IDLE r' = r'\<lparr>p_state := IDLE\<rparr>"
    by (simp add: setState_def)
  have "between_commands (r'\<lparr>p_state := IDLE\<rparr>)"
    by (rule between_commandsI [OF r'(3) [unfolded e]])
      (use assms(1) in \<open>simp_all add: between_commands_def upd_def after_ok_def after_execute_def\<close>)
  with r'(1,2) same assms(4) show ?thesis
    unfolding idle by (simp add: upd_def after_ok_def after_execute_def cur_def ok_fields_def sent_def Let_def)
qed

definition example_stmt :: resultsets where
  "example_stmt = (new_resultsets example_options)\<lparr>s_isPreparedStmt := True, s_stmtId := 7, s_nPlaceholders := 4\<rparr>"

text \<open>A connection with a prepared statement, whose last status had the flags \<open>status\<close>.\<close>

definition example_prepared :: "int \<Rightarrow> byte list list \<Rightarrow> proto" where
  "example_prepared status chunks = (example_proto chunks)\<lparr>p_resultsets := [example_stmt], p_statusFlags := status\<rparr>"

lemma example_prepared_facts:
  "p_state (example_prepared st chunks) = IDLE" "has_cap (example_prepared st chunks) CLIENT_PROTOCOL_41"
  "cur 0 (example_prepared st chunks) = example_stmt" "pending (r_src (example_prepared st chunks)) = concat chunks"
  "length (p_resultsets (example_prepared st chunks)) = 1" "sent (example_prepared st chunks) = []"
  "placeholders (nat (s_nPlaceholders example_stmt)) example_params = example_params" "s_stmtId example_stmt = 7"
  "[] \<notin> set chunks \<Longrightarrow> between_commands (example_prepared st chunks)" "p_statusFlags (example_prepared st chunks) = st"
  using example_proto_fields example_proto_between [of chunks]
  by (simp_all add: example_prepared_def cur_def sent_def example_stmt_def placeholders_def example_params_def
      between_commands_def is_compressed_def buffer_wf_def flag_def CLIENT_PROTOCOL_41_def)

lemma prepared_statement_executed_witness:
  "\<exists>r'. execStmt example_penv 0 example_params True (example_prepared 2 [[7, 0, 0, 1, 0], [5, 9, 2, 0, 0, 0]]) = Some (Inr (), r') \<and>
     p_state r' = IDLE \<and> s_lastInsertId (cur 0 r') = 9"
proof -
  let ?r = "example_prepared 2 [[7, 0, 0, 1, 0], [5, 9, 2, 0, 0, 0]]"
  have "packet 1 (ok_payload 5 9 2 0) = [7, 0, 0, 1, 0, 5, 9, 2, 0, 0, 0]"
    by code_simp
  then have answer: "pending (r_src ?r) = packet 1 (ok_payload 5 9 2 0)"
    by (simp only: example_prepared_facts concat.simps append.simps)
  have state: "p_state ?r = IDLE \<or> p_state ?r = IDLE_IN_POOL" "\<not> has_status ?r SERVER_MORE_RESULTS_EXISTS"
    "0 < length (p_resultsets ?r)" "0 \<le> s_stmtId (cur 0 ?r)"
    "placeholders (nat (s_nPlaceholders (cur 0 ?r))) example_params = example_params"
    by (simp_all add: example_prepared_facts flag_def SERVER_MORE_RESULTS_EXISTS_def)
  have params: "execute_length (env.truncate example_penv) (inline_params example_params) < 0xFFFFFF"
    "\<not> (True \<and> list_ex is_date example_params)"
    by (simp_all add: example_params_facts)
  have range: "(5::nat) < 2 ^ 64" "(9::nat) < 2 ^ 64" "(2::nat) < 2 ^ 16" "(0::nat) < 2 ^ 16"
    by simp_all
  have between: "between_commands ?r"
    by (rule example_prepared_facts) simp
  obtain r' where "execStmt example_penv 0 example_params True ?r = Some (Inr (), r')" "p_state r' = IDLE"
    "s_lastInsertId (cur 0 r') = int 9"
    using prepared_statement_executed [OF between state(1) example_prepared_facts(2) state(3,4,5)
        example_params_facts(1) params answer range state(2)] by blast
  then show ?thesis by (intro exI [of _ r']) simp
qed

text \<open>
  C26: Whether more resultsets follow an execution without rows is decided by the status of the command before, because the
  code looks at the flags before it reads the packet that has them. After a command whose last status announced more
  resultsets (one that ended with an error packet, which has no status), an execution whose answer says that nothing
  follows leaves the connection waiting for a resultset that does not come: nothing more is to be read, and the next command is
  refused.
\<close>

theorem execute_status_stale:
  assumes "between_commands r" "p_state r = IDLE \<or> p_state r = IDLE_IN_POOL" "has_cap r CLIENT_PROTOCOL_41"
    and "i < length (p_resultsets r)" "0 \<le> s_stmtId (cur i r)" "placeholders (nat (s_nPlaceholders (cur i r))) params = ps"
    and "list_all inline_param ps" "execute_length (env.truncate h) (inline_params ps) < 0xFFFFFF"
      "\<not> (correctDates \<and> list_ex is_date ps)"
    and "pending (r_src r) = packet seq (ok_payload affected insertId status warnings)"
    and "affected < 2 ^ 64" "insertId < 2 ^ 64" "status < 2 ^ 16" "warnings < 2 ^ 16"
    and "has_status r SERVER_MORE_RESULTS_EXISTS" "\<not> flag (int status) SERVER_MORE_RESULTS_EXISTS"
  shows "\<exists>r'. execStmt h i params correctDates r = Some (Inr (), r') \<and>
    p_state r' = HAS_MORE_RESULTSETS \<and> s_hasMore (cur i r') \<and> p_curResultsets r' = Some i \<and>
    \<not> has_status r' SERVER_MORE_RESULTS_EXISTS \<and> stream pending r' = [] \<and>
    sendComQuery h sql q k r' = Some (Inl (busy ''Previous query has unread resultsets''), r')"
proof -
  let ?r = "r\<lparr>p_state := QUERYING\<rparr>"
  obtain r' b ws n where r':
    "execStmt h i params correctDates r = Some (Inr (), setState HAS_MORE_RESULTSETS (r'\<lparr>p_curResultsets := Some i\<rparr>))"
    "at_pos pending plain_ok (exec_result i affected insertId status warnings (after_execute b ws ?r)) r' [] n n"
    using exec_stmt_ok [OF assms(1-3,5-14)] assms(15) by auto
  let ?m = "upd i (\<lambda>s. s\<lparr>s_hasProtocol := True, s_hasMore := True\<rparr>) (after_execute b ws ?r)"
  let ?a = "after_ok affected insertId status warnings ?m"
  have e: "exec_result i affected insertId status warnings (after_execute b ws ?r) = upd i (ok_fields ?a) ?a"
    using exec_result_more [of "after_execute b ws ?r"] assms(15) by (simp add: after_execute_def Let_def)
  have r'2: "same_proto (upd i (ok_fields ?a) ?a) r'" "stream pending r' = []"
    using r'(2) by (simp_all add: at_pos_def e)
  note same = same_proto_fields [OF r'2(1)]
  define r2 where "r2 = r'\<lparr>p_curResultsets := Some i, p_state := HAS_MORE_RESULTSETS\<rparr>"
  have "p_onEndSession r' = None"
    using same(11) assms(1) by (simp add: upd_def after_ok_def after_execute_def between_commands_def)
  then have "setState HAS_MORE_RESULTSETS (r'\<lparr>p_curResultsets := Some i\<rparr>) = r2"
    by (simp add: setState_def r2_def)
  moreover have "sendComQuery h sql q k r2 = Some (Inl (busy ''Previous query has unread resultsets''), r2)"
    by (simp add: sendComQuery_def setQueryingState_def bindL_def getL_def r2_def)
  moreover have "s_hasMore (cur i r2)"
    using assms(4) same(3) by (simp add: r2_def upd_def after_ok_def after_execute_def cur_def ok_fields_def Let_def)
  moreover have "p_statusFlags r2 = int status"
    using same(2) by (simp add: r2_def upd_def after_ok_def)
  ultimately show ?thesis
    using r'(1) r'2(2) assms(16) by (simp add: r2_def stream_def avail_def)
qed

lemma execute_status_stale_witness:
  "\<exists>r'. execStmt example_penv 0 example_params True (example_prepared 8 [[7, 0, 0, 1, 0], [5, 9, 2, 0, 0, 0]]) = Some (Inr (), r') \<and>
     p_state r' = HAS_MORE_RESULTSETS"
proof -
  let ?r = "example_prepared 8 [[7, 0, 0, 1, 0], [5, 9, 2, 0, 0, 0]]"
  have "packet 1 (ok_payload 5 9 2 0) = [7, 0, 0, 1, 0, 5, 9, 2, 0, 0, 0]"
    by code_simp
  then have answer: "pending (r_src ?r) = packet 1 (ok_payload 5 9 2 0)"
    by (simp only: example_prepared_facts concat.simps append.simps)
  have state: "p_state ?r = IDLE \<or> p_state ?r = IDLE_IN_POOL" "has_status ?r SERVER_MORE_RESULTS_EXISTS"
    "0 < length (p_resultsets ?r)" "0 \<le> s_stmtId (cur 0 ?r)"
    "placeholders (nat (s_nPlaceholders (cur 0 ?r))) example_params = example_params"
    "\<not> flag (int 2) SERVER_MORE_RESULTS_EXISTS"
    by (simp_all add: example_prepared_facts flag_def SERVER_MORE_RESULTS_EXISTS_def)
  have params: "execute_length (env.truncate example_penv) (inline_params example_params) < 0xFFFFFF"
    "\<not> (True \<and> list_ex is_date example_params)"
    by (simp_all add: example_params_facts)
  have range: "(5::nat) < 2 ^ 64" "(9::nat) < 2 ^ 64" "(2::nat) < 2 ^ 16" "(0::nat) < 2 ^ 16"
    by simp_all
  have between: "between_commands ?r"
    by (rule example_prepared_facts) simp
  obtain r' where "execStmt example_penv 0 example_params True ?r = Some (Inr (), r')" "p_state r' = HAS_MORE_RESULTSETS"
    using execute_status_stale [OF between state(1) example_prepared_facts(2) state(3,4,5)
        example_params_facts(1) params answer range state(2,6)] by blast
  then show ?thesis by (intro exI [of _ r']) simp
qed

section \<open>Connections, transactions and sessions\<close>

text \<open>
  C27: No command leaves the connection in between. Whatever the server answers and however reading or writing fails, a
  query, a pair of queries, a preparation and an execution that return or throw leave a connection that can go on (idle, or with rows or
  resultsets to read) exactly after a result or an error of the server, and otherwise one that is closed and in the error
  state; the id of the connection is the same. A command that may not begin is refused and changes nothing. Without a
  result only a command on a connection from the pool ends, when the caller allows it.
\<close>

theorem commands_leave_a_state:
  assumes "p_onEndSession r = None" "\<not> q_noConvertError q"
  shows "command_settled r (q_letReturnUndefined q) (sendComQuery h sql q n r) \<and>
    command_settled r (q_letReturnUndefined q) (sendThreeQueries h t sql q n r) \<and>
    command_settled r (q_letReturnUndefined q) (sendComStmtPrepare h sql q skip r) \<and>
    execution_settled r (execStmt h i params correctDates r)"
  by (intro conjI commands_settled execStmt_settled assms)

lemma commands_leave_a_state_witness:
  "command_settled (example_proto [[1]]) False (sendComQuery example_penv (SqlString [83]) example_options 3 (example_proto [[1]])) \<and>
   execution_settled (example_proto [[1]]) (execStmt example_penv 0 [PNull] False (example_proto [[1]]))"
proof -
  have "q_letReturnUndefined example_options = False"
    by (simp add: example_options_def default_options_def)
  then show ?thesis
    using commands_leave_a_state [of "example_proto [[1]]" example_options example_penv "SqlString [83]" 3
        "\<lparr>t_preStmt = None, t_prequery = None, t_ignorePrequeryError = False\<rparr>" False 0 "[PNull]" False]
    by (simp add: example_proto_fields example_options_fields)
qed

text \<open>
  C28: A query gets into the transaction that was started before it. When the query of the application returns a
  result, however many dead connections of the pool it was tried on, the pending commands (START TRANSACTION or XA START,
  and the savepoints), in their order and directly before the query, were all passed to the same connection: the one that
  the object has now, so that it was not given back in between. Whatever was passed before that in this call went to
  connections that the object had earlier. Nothing is pending any more, and XA START has the identifier that the object
  then reports. The log has with each query the number of the connection that it was passed to.
\<close>

theorem query_in_transaction:
  assumes "plain_pool e" "plain c" "doQuery e sql params o' rowType ms c = Some (Inr i, c')"
  shows "\<exists>pre post. c_log c' = c_log c @ pre @
      map (\<lambda>s. (c_given c', s)) (map (SqlString \<circ> as_sent (c_curXaId c')) (c_pendingTrxSql c) @ post) \<and>
    (\<forall>(k, s) \<in> set pre. k < c_given c') \<and> (params = NoParams \<longrightarrow> post = [sql]) \<and>
    (if c_protocol c = None then c_given c < c_given c' else c_given c \<le> c_given c') \<and>
    c_protocol c' \<noteq> None \<and> c_pendingTrxSql c' = []"
  using query_turns_in_order [OF assms(3) [unfolded doQuery_def] refl assms(1,2)]
  unfolding sent_in_order_def by (fastforce split: if_splits)

text \<open>An object with a protocol and one that is given by the pool.\<close>

definition example_conn_env :: "(nat \<Rightarrow> jsstr \<Rightarrow> (exn + proto) \<times> bool) \<Rightarrow> conn_env" where
  "example_conn_env giveProtocol =
     \<lparr>e_penv = example_penv, e_maxColumnLen = None, e_retryLockWaitTimeout = False, e_retryQueryTimes = None,
      e_jsonAsString = False, e_datesAsString = False, e_correctDates = False, e_maxConns = 0,
      e_getProtocol = giveProtocol, e_onBeforeCommit = None\<rparr>"

definition example_pool :: "byte list list \<Rightarrow> conn_env" where
  "example_pool chunks = example_conn_env (\<lambda>_ _. (Inr (example_proto chunks), False))"

lemma query_in_transaction_witness:
  "\<exists>c'. doQuery (example_pool [[7, 0, 0, 1, 0], [5, 9, 2, 0, 0, 0]]) (SqlBytes [83]) NoParams no_options ROW_VOID NO_MATTER new_conn_object =
      Some (Inr 0, c') \<and> c_asked c' = [SqlBytes [83]] \<and> c_returned c' = []"
proof -
  let ?chunks = "[[7, 0, 0, 1, 0], [5, 9, 2, 0, 0, 0]]"
  let ?e = "example_pool ?chunks" and ?p = "example_proto ?chunks"
  let ?q = "query_opts ?e no_options ROW_VOID True NO_MATTER ?p"
  define c1 where "c1 = new_conn_object\<lparr>c_protocol := Some ?p, c_requests := [[]], c_given := 1\<rparr>"
  have connect: "conn_connect ?e new_conn_object = Some (Inr (), c1)"
    by (simp add: conn_connect_def new_conn_object_def example_pool_def example_conn_env_def Let_def c1_def)
  have env: "e_penv ?e = example_penv" "max_conns ?e = 250" "retry_times ?e no_options ?p = 0"
    by (simp_all add: example_pool_def example_conn_env_def max_conns_def DEFAULT_MAX_CONNS_def retry_times_def no_options_def
        or_else_def example_proto_def)
  have "packet 1 (ok_payload 5 9 2 0) = concat ?chunks"
    by code_simp
  then have answer: "pending (r_src ?p) = header_bytes (length (ok_payload 5 9 2 0)) 1 @ ok_payload 5 9 2 0"
    by (simp only: example_proto_fields packet_def)
  have between: "between_commands ?p"
    by (rule example_proto_between) simp
  have "\<exists>p'. sendComQuery example_penv (SqlBytes [83]) ?q 0 ?p = Some (Inr (Some (length (p_resultsets ?p))), p')"
    using query_with_ok [where r = ?p and sql = "[83]" and q = ?q and h = example_penv and k = 0, OF between _ _ _ _ _ answer refl]
    by (auto simp: example_proto_fields flag_def CLIENT_PROTOCOL_41_def SERVER_MORE_RESULTS_EXISTS_def query_opts_def
        simp del: concat.simps)
  then obtain p' where "sendComQuery example_penv (SqlBytes [83]) ?q 0 ?p = Some (Inr (Some 0), p')"
    by (auto simp: example_proto_fields)
  then have "query_turn ?e (SqlBytes [83]) NoParams no_options ROW_VOID NO_MATTER 250 new_conn_object =
      Some (Inr (Inr 0), c1\<lparr>c_protocol := Some p', c_log := [(1, SqlBytes [83])]\<rparr>)"
    using connect env
    by (simp add: query_turn_def bindL_def getC_def setC_def c1_def new_conn_object_def try_query_def on_protocol_def getL_def Let_def)
  then have run: "doQuery ?e (SqlBytes [83]) NoParams no_options ROW_VOID NO_MATTER new_conn_object =
      Some (Inr 0, c1\<lparr>c_protocol := Some p', c_log := [(1, SqlBytes [83])]\<rparr>)"
    by (simp add: doQuery_def env query_turns.simps)
  have "plain_pool ?e" "plain new_conn_object"
    by (auto simp: plain_pool_def plain_def example_pool_def example_conn_env_def example_proto_fields new_conn_object_def)
  from query_in_transaction [OF this run] show ?thesis
    using run by (auto simp: c1_def new_conn_object_def)
qed

text \<open>
  C29: Distributed transactions are committed in two phases. When the preparation fails on any connection of a session,
  \<open>commit()\<close> throws, no connection is asked to commit anything (neither COMMIT nor XA COMMIT), and each connection that is
  prepared is asked to roll back by the identifier of its transaction; this for any servers and any states of the
  connections, provided that the handler of the application agreed to the commit.
\<close>

theorem no_commit_without_preparation:
  assumes "session_commit_end y z = Some (res, z')"
    and "\<And>handler. y_onBeforeCommit y = Some handler \<Longrightarrow> handler (z_beforeCommits z) = None"
    and "(d, c) \<in> set (z_conns z)" "prepare_conn y d c = Some (Inl ex, c1)"
  shows "(\<exists>ex. res = Inl ex) \<and> list_all2 (asked_more (\<lambda>s. \<not> commits s)) (z_conns z) (z_conns z') \<and>
    list_all2 (\<lambda>(d, c) (d', c'). \<forall>c1. prepare_conn y d c = Some (Inr (), c1) \<and> c_isXaPrepared c1 \<and> inXa c1 \<and> c_protocol c1 \<noteq> None \<longrightarrow>
      SqlString (quoted ''XA ROLLBACK '' (c_curXaId c1)) \<in> set (drop (length (c_asked c)) (c_asked c'))) (z_conns z) (z_conns z')"
  by (rule two_phases [OF assms(1) _ assms(3,4)]) (rule assms(2))

text \<open>The first connection is prepared, the second one still has rows to read.\<close>

definition example_reading :: proto where
  "example_reading = (example_proto [])\<lparr>p_state := HAS_MORE_ROWS, p_statusFlags := SERVER_STATUS_IN_TRANS\<rparr>"

definition example_session :: session where
  "example_session = new_session\<lparr>z_conns :=
     [([1], new_conn_object\<lparr>c_protocol := Some example_reading, c_curXaId := [65], c_isXaPrepared := True\<rparr>),
      ([2], new_conn_object\<lparr>c_protocol := Some example_reading, c_curXaId := [66]\<rparr>)]\<rparr>"

definition example_session_env :: session_env where
  "example_session_env = \<lparr>y_conn_env = \<lambda>_. example_pool [], y_onBeforeCommit = None, y_pid = 1, y_now = 0\<rparr>"

lemma no_commit_without_preparation_witness:
  "\<exists>ex z'. session_commit_end example_session_env example_session = Some (Inl ex, z') \<and>
     SqlString (quoted ''XA ROLLBACK '' [65]) \<in> set (c_asked (snd (z_conns z' ! 0)))"
proof -
  have trx: "flag SERVER_STATUS_IN_TRANS SERVER_STATUS_IN_TRANS"
    by (simp add: flag_def SERVER_STATUS_IN_TRANS_def)
  let ?c2 = "new_conn_object\<lparr>c_protocol := Some example_reading, c_curXaId := [66]\<rparr>"
  have fails: "\<exists>ex c1. prepare_conn example_session_env [2] ?c2 = Some (Inl ex, c1)"
    by (simp add: prepare_conn_def conn_prepareCommit_def bindL_def getC_def whenC_def inXa_def in_transaction_def trx
        new_conn_object_def example_session_env_def example_reading_def call_beforeCommit_def example_pool_def example_conn_env_def send_two_def
        on_protocol_def sendThreeQueries_def setQueryingState_def getL_def)
  have "\<exists>res z'. session_commit_end example_session_env example_session = Some (res, z')"
    by (simp add: session_commit_end_def commit_with_def session_rollback_end_def rollback_conns_def doAll_def throw_error_def
        before_commit_def getS_def setS_def tryS_def Let_def
        prepare_conn_def conn_prepareCommit_def bindL_def getC_def whenC_def inXa_def in_transaction_def trx setC_def
        example_session_def new_session_def new_conn_object_def
        example_session_env_def example_reading_def call_beforeCommit_def example_pool_def example_conn_env_def send_two_def
        on_protocol_def sendThreeQueries_def setQueryingState_def getL_def send_query_def sendComQuery_def
        conn_rollback_def rollback_all_def has_transaction_def tryC_def)
  then obtain res z' where run: "session_commit_end example_session_env example_session = Some (res, z')"
    by blast
  obtain ex c1 where c1: "prepare_conn example_session_env [2] ?c2 = Some (Inl ex, c1)"
    using fails by blast
  have "([2], ?c2) \<in> set (z_conns example_session)"
    by (simp add: example_session_def)
  note result = no_commit_without_preparation [OF run _ this c1]
  have one: "prepare_conn example_session_env [1] c = Some (Inr (), c)"
    if "c = new_conn_object\<lparr>c_protocol := Some example_reading, c_curXaId := [65], c_isXaPrepared := True\<rparr>" for c
    by (simp add: that prepare_conn_def conn_prepareCommit_def bindL_def getC_def whenC_def inXa_def)
  show ?thesis
    using result run one
    by (auto simp: example_session_env_def example_session_def new_session_def inXa_def new_conn_object_def list_all2_Cons1)
qed

text \<open>
  C30: Savepoints are lazy: rolling back to one of the savepoints that were set since the last query sends nothing. The
  connection forgets that savepoint and the later ones, keeps the earlier ones, and everything that was pending before.
\<close>

theorem rollback_of_unsent_savepoints:
  assumes "c_savepointEnum c < n" "n \<le> c_savepointEnum c + k" "n < SAVEPOINT_ENUM_SESSION_FROM"
  shows "\<exists>c'. conn_rollback e (Some n) (savepoints k c) = Some (Inr (), c') \<and> c_asked c' = c_asked c \<and>
    c_protocol c' = c_protocol c \<and> c_curXaId c' = c_curXaId c \<and>
    c_pendingTrxSql c' = c_pendingTrxSql c @ map sql_savepoint [Suc (c_savepointEnum c) ..< n]"
  using rollback_unsent [OF assms] by (simp add: savepoints_fields)

lemma rollback_of_unsent_savepoints_witness:
  "\<exists>c'. conn_rollback (example_pool []) (Some 2) (savepoints 3 new_conn_object) = Some (Inr (), c') \<and> c_asked c' = [] \<and>
     c_pendingTrxSql c' = [js ''SAVEPOINT p1'']"
proof -
  have "to_base 10 1 = js ''1''"
    by (simp add: to_base.simps base_char_def js_def)
  then show ?thesis
    using rollback_of_unsent_savepoints [of new_conn_object 2 3 "example_pool []"]
    by (auto simp: new_conn_object_def SAVEPOINT_ENUM_SESSION_FROM_def js_def upt_rec)
qed

text \<open>
  C31: The fields of a connection object fit together in every state that calls in any order can bring about, errors
  included: between calls it is not connecting, without a protocol nothing is prepared and there are no prepared
  statements, the id of the connection is waited for only with XA START pending first, and the empty string is pending
  only in the first place and with an identifier to start.
\<close>

theorem connections_stay_well_formed:
  assumes "conn_reachable e c"
  shows "conn_wf c"
  using assms by (rule reachable_wf)

lemma connections_stay_well_formed_witness:
  "conn_wf (snd (conn_savepoint (begin_trx (no_trx_options\<lparr>x_xaId1 := [65]\<rparr>) new_conn_object))) \<and>
   c_curXaIdAppendConn (snd (conn_savepoint (begin_trx (no_trx_options\<lparr>x_xaId1 := [65]\<rparr>) new_conn_object)))"
proof -
  have "conn_startTrx (example_pool []) (no_trx_options\<lparr>x_xaId1 := [65]\<rparr>) new_conn_object =
      Some (Inr (), begin_trx (no_trx_options\<lparr>x_xaId1 := [65]\<rparr>) new_conn_object)"
    by (simp add: conn_startTrx_def bindL_def getC_def setC_def in_transaction_def new_conn_object_def no_trx_options_def bad_xa_id_def Let_def)
  then have "conn_reachable (example_pool []) (snd (conn_savepoint (begin_trx (no_trx_options\<lparr>x_xaId1 := [65]\<rparr>) new_conn_object)))"
    by (intro conn_reachable.saved conn_reachable.started [OF conn_reachable.created])
  from connections_stay_well_formed [OF this] show ?thesis
    by (simp add: begin_trx_def no_trx_options_def new_conn_object_def conn_savepoint_def Let_def)
qed

text \<open>
  C32: Named parameters. When no name has characters that are longer in the query than in JavaScript (names in ASCII without
  backticks), the two queries that are written into arrays of a precomputed length are exactly what they should be: one
  placeholder for each variable, from 8 to 65536 of them, and for each name in its order the assignment from its variable, which
  is then set to NULL. No two placeholders have the same variable. (For other names see \<open>named_query_truncated\<close>.)
\<close>

theorem named_parameters_exact:
  assumes "keys \<noteq> []" "length keys \<le> 0xFFFF" "\<And>key. key \<in> set keys \<Longrightarrow> length (utf8_encode (double_backticks key)) = length key"
  shows "named_queries keys True = (Some (set_query (markers 0 (n_placeholders keys))), set_query (assignments 0 keys)) \<and>
    named_queries keys False = (None, set_query (assignments 0 keys)) \<and> length keys \<le> n_placeholders keys \<and>
    (\<forall>i < n_placeholders keys. \<forall>j < n_placeholders keys. variable (var_name i) = variable (var_name j) \<longrightarrow> i = j)"
proof -
  have "n_placeholders keys \<le> 0x10000" "length keys \<le> n_placeholders keys"
    using assms(1,2) div_mult_mod_eq [of "length keys - 1" 8] mod_less_divisor [of 8 "length keys - 1"]
    by (simp_all add: n_placeholders_def)
  then show ?thesis
    using named_queries_exact [OF assms(1,3)] variables_distinct by (meson order_less_le_trans)
qed

lemma named_parameters_exact_witness:
  "named_queries [[97]] True = (Some (set_query (markers 0 8)), set_query (assignments 0 [[97]])) \<and>
   set_query (assignments 0 [[97]]) = code_bytes ''SET @`a`=@_yl_fk,@_yl_fk=NULL''"
proof -
  have u: "utf8_encode (double_backticks [97]) = [97]"
    by (simp add: double_backticks_def C_BACKTICK_def utf8_encode.simps is_low_def is_high_def utf8_point_def)
  have "n_placeholders [[97]] = 8"
    by (simp add: n_placeholders_def)
  moreover have "set_query (assignments 0 [[97]]) = code_bytes ''SET @`a`=@_yl_fk,@_yl_fk=NULL''"
    by (simp add: u set_query_def code_bytes_def variable_def var_name_def first_name_def)
  ultimately show ?thesis
    using named_parameters_exact [of "[[97]]"] u by simp
qed

text \<open>
  C33: The identifiers that a process generates for distributed transactions are pairwise distinct, however often within a
  second, as long as the clock does not go back; and with the id of the connection behind it each one is decoded to the
  second of its creation, the process and the connection.
\<close>

theorem xa_identifiers_tell_their_origin:
  assumes "sorted clock" "\<forall>now \<in> set clock. g_lastTime g \<le> now div 1000 \<and> 36 ^ 4 \<le> now div 1000 \<and> now div 1000 < 2 ^ 53"
    and "pid < 2 ^ 53"
  shows "distinct (xa_ids pid g clock) \<and> length (xa_ids pid g clock) = length clock \<and>
    (\<forall>i < length clock. \<forall>connectionId < 2 ^ 53. xa_decode (xa_ids pid g clock ! i @ to_base 10 connectionId) =
       Some (Some (of_nat (clock ! i div 1000)), Some (of_nat pid), Some (of_nat connectionId)))"
proof (intro conjI allI impI)
  show "distinct (xa_ids pid g clock)"
    using assms(1,2) by (intro xa_ids_distinct) auto
next
  fix i connectionId :: nat assume i: "i < length clock" and c: "connectionId < 2 ^ 53"
  obtain g' where "xa_ids pid g clock ! i = fst (xa_next pid (clock ! i) g')"
    using xa_ids_nth [OF i] by blast
  then show "xa_decode (xa_ids pid g clock ! i @ to_base 10 connectionId) =
      Some (Some (of_nat (clock ! i div 1000)), Some (of_nat pid), Some (of_nat connectionId))"
    using xa_next_decoded [of "clock ! i" pid connectionId g'] assms(2,3) nth_mem [OF i] c by simp
qed (rule length_xa_ids)

lemma xa_identifiers_tell_their_origin_witness:
  "distinct (xa_ids 7 new_xa_gen [1700000000000, 1700000000999]) \<and>
   xa_decode (xa_ids 7 new_xa_gen [1700000000000, 1700000000999] ! 1 @ to_base 10 12) = Some (Some 1700000000, Some 7, Some 12)"
proof -
  let ?clock = "[1700000000000, 1700000000999] :: nat list"
  have "sorted ?clock" "\<forall>now \<in> set ?clock. g_lastTime new_xa_gen \<le> now div 1000 \<and> 36 ^ 4 \<le> now div 1000 \<and> now div 1000 < 2 ^ 53"
    by (simp_all add: new_xa_gen_def)
  note r = xa_identifiers_tell_their_origin [OF this, of 7]
  have "\<forall>i < length ?clock. \<forall>connectionId < 2 ^ 53. xa_decode (xa_ids 7 new_xa_gen ?clock ! i @ to_base 10 connectionId) =
       Some (Some (of_nat (?clock ! i div 1000)), Some (of_nat 7), Some (of_nat connectionId))"
    using r by simp
  from this [rule_format, of 1 12] r show ?thesis
    by simp
qed

section \<open>Authentication\<close>





section \<open>The pool\<close>



text \<open>
  C36: Disposal waits: whatever happened before, the step that lets \<open>asyncDispose\<close> go on is one after which no session or
  connection object uses the pool, no connection is with a user, and none is in use or being made.
\<close>

theorem disposal_waits_for_all:
  assumes "pool_runs es (new_pool dsns conns) = Some q" "may_happen e q"
    and "\<not> q_ended q" "q_ended (happen e q)"
  shows "q_useCnt (happen e q) = 0 \<and> q_held (happen e q) = [] \<and>
    (\<Sum>a<q_nextProtocols (happen e q). occupied (happen e q) a) + (\<Sum>k\<leftarrow>q_tasks (happen e q). closing_task k) = 0"
proof -
  let ?L = "\<lambda>_. None"
  have fair: "edits_within ?L e q" "fair_run happen (edits_within ?L) es s" for e q es s
  proof -
    show all: "edits_within ?L e q" for e q
      by (simp add: edits_within_def dsn_within_def split: pool_event.splits)
    show "fair_run happen (edits_within ?L) es s"
      by (induction es arbitrary: s) (simp_all add: all)
  qed
  have "pool_inv ?L q"
    by (rule pl.runs_good [OF assms(1) fair(2) new_pool_inv]) (simp add: dsn_within_def)
  then have inv: "pool_inv ?L (happen e q)"
    by (rule happen_inv [OF assms(2) fair(1)])
  have "quiet (happen e q)"
    using happen_ended [OF assms(2,4,3)] .
  then show ?thesis
    using pool_inv_meaning(5,7) [OF inv] by (simp add: quiet_def)
qed

lemma disposal_waits_for_all_witness:
  "\<exists>q. pool_runs [Ref, Unref] (two_dsns 7 8) = Some q \<and> q_held (happen DisposePool q) = []"
proof -
  obtain q where q: "pool_runs [Ref, Unref] (two_dsns 7 8) = Some q" "q_useCnt q = 0" "q_nBusyAll q = 0" "\<not> q_ended q"
    by (simp add: two_dsns_def new_pool_def pool_ref_def pool_unref_def onend_def)
  then show ?thesis
    using disposal_waits_for_all [of "[Ref, Unref]" "\<lambda>d. if d = 0 then small_dsn 7 [] (num 1) else small_dsn 8 [] (num 1)"
        "\<lambda>_. some_conn" q DisposePool]
    by (simp add: two_dsns_def pool_dispose_def)
qed

text \<open>
  C37: Disposal can hang: after a request gave up waiting for a slot, its callback stays in the list; when the last
  connection is given back behind its user, the callback hides that nothing is in use. \<open>asyncDispose\<close> then waits though there
  is no user, no connection and nothing to wait for, and whatever timers fire, it goes on waiting.
\<close>

theorem disposal_can_hang:
  assumes "pool_runs (stale_callback @ es) (two_dsns 7 8) = Some q" "list_all by_itself es"
  shows "(\<exists>q'. pool_runs stale_callback (two_dsns 7 8) = Some q' \<and> q_onend q' \<and> q_nBusyAll q' = 0) \<and>
    q_useCnt q = 0 \<and> q_held q = [] \<and> q_tasks q = [] \<and> \<not> q_ended q"
proof -
  obtain q' where q': "pool_runs stale_callback (two_dsns 7 8) = Some q'" "dead q'" "q_onend q'" "q_nBusyAll q' = 0"
    using stale_callback_dead by blast
  then have "pool_runs es q' = Some q"
    using assms(1) by (simp only: runs_append option.case)
  then have "dead q"
    by (rule dead_runs [OF q'(2) assms(2)])
  then show ?thesis
    using q'(1,3,4) by (simp add: dead_def)
qed

lemma disposal_can_hang_witness:
  "\<exists>q. pool_runs (stale_callback @ []) (two_dsns 7 8) = Some q \<and> q_useCnt q = 0 \<and> \<not> q_ended q"
proof -
  obtain q where "pool_runs (stale_callback @ []) (two_dsns 7 8) = Some q"
    using stale_callback_dead by auto
  then show ?thesis
    using disposal_can_hang [of "[]" q] by simp
qed

text \<open>
  C38: A password that is wrong is not noticed while a connection that was made with the right one is idle: two DSNs
  that differ only in their (not empty) passwords have the same name and hash, so a request with the second gets the
  connection that was authenticated with the first.
\<close>

theorem connection_shared_across_passwords:
  assumes "d_password d \<noteq> []" "p \<noteq> []"
    and "updateNameAndHash v d = (Inr (), d1)" "updateNameAndHash v (d\<lparr>d_password := p\<rparr>) = (Inr (), d2)"
    and "d_keepAliveTimeout d = NaN" "d_keepAliveMax d = NaN" "d_maxConns d = NaN"
  shows "\<exists>q. pool_runs (other_password d1 d2) (two_passwords d1 d2) = Some q \<and> q_held q = [1] \<and>
    d_password (t_with (q_conn q 1)) = d_password d \<and> d_password d2 = p"
proof -
  have d2: "d2 = d1\<lparr>d_password := p\<rparr>"
    using same_name_for_passwords [OF assms(1,2), of v] assms(3,4) by simp
  have "d_keepAliveTimeout d1 = NaN" "d_keepAliveMax d1 = NaN" "d_maxConns d1 = NaN" "d_password d1 = d_password d"
    using updateName_fields [OF assms(3)] assms(5-7) by auto
  then show ?thesis
    using connection_is_shared [of d2 d1] d2 by auto
qed

definition example_urls :: url_env where
  "example_urls = \<lparr>v_url = (\<lambda>_. Inl (JsError [])), v_encode = Inr, v_decode = Inr, v_number = (\<lambda>_. NaN), v_string = (\<lambda>_. []),
     v_crc32 = length, v_decodeUsername = False, v_decodePassword = False, v_decodePathname = False\<rparr>"

lemma connection_shared_across_passwords_witness:
  "\<exists>d1 d2 q. pool_runs (other_password d1 d2) (two_passwords d1 d2) = Some q \<and>
    d_password (t_with (q_conn q 1)) = js ''right'' \<and> d_password d2 = js ''wrong''"
proof -
  let ?d = "(small_dsn 7 (js ''right'') NaN)\<lparr>d_maxConns := NaN\<rparr>"
  have "\<exists>d1. updateNameAndHash example_urls ?d = (Inr (), d1)"
    by (simp add: updateNameAndHash_def dsn_name0_def dsn_name1_def dsn_params_def small_dsn_def text_param_def example_urls_def Let_def)
  moreover have "\<exists>d2. updateNameAndHash example_urls (?d\<lparr>d_password := js ''wrong''\<rparr>) = (Inr (), d2)"
    by (simp add: updateNameAndHash_def dsn_name0_def dsn_name1_def dsn_params_def small_dsn_def text_param_def example_urls_def Let_def)
  moreover have "d_password ?d = js ''right''" "js ''right'' \<noteq> []" "js ''wrong'' \<noteq> []" "d_keepAliveTimeout ?d = NaN" "d_keepAliveMax ?d = NaN"
    by (simp_all add: small_dsn_def js_def)
  ultimately show ?thesis
    using connection_shared_across_passwords [of ?d "js ''wrong''" example_urls] by fastforce
qed

text \<open>
  C39: Connecting again ends: when the timeout of the DSN is not infinite and time passes between attempts, \<open>newConn()\<close> returns.
  Every attempt but the last began before the deadline; the result is that of the last attempt, and an error is given up on
  only because retrying is off, the deadline has passed, the error is not one of connecting, or another request that was
  about to retry did not get ready in time.
\<close>

theorem connecting_again_ends:
  assumes "strict_mono (y_failed att)" "d_connectionTimeout d \<noteq> Infinite False"
    and "till = number_add (num now) (or_default (d_connectionTimeout d) DEFAULT_CONNECTION_TIMEOUT_MSEC)"
    and "interval = or_default (d_reconnectInterval d) DEFAULT_RECONNECT_INTERVAL_MSEC"
  shows "\<exists>r j. newConn att d now = Some (r, j) \<and> y_outcome att j = r \<and>
    (\<forall>k<j. \<not> number_leq till (num (y_failed att k))) \<and>
    (case r of Inr p \<Rightarrow> True | Inl e \<Rightarrow> final att interval till j e \<or> y_other att j \<and> \<not> y_inTime att j)"
proof -
  obtain t where "till = Finite t"
    using deadline_is_finite [OF assms(2), of now] assms(3) by blast
  then obtain r j where "newConn_loop att interval till 0 = Some (r, j)"
    "\<forall>k. 0 \<le> k \<longrightarrow> k < j \<longrightarrow> \<not> number_leq till (num (y_failed att k))"
    "case r of Inr p \<Rightarrow> y_outcome att j = Inr p
      | Inl e \<Rightarrow> y_outcome att j = Inl e \<and> (final att interval till j e \<or> y_other att j \<and> \<not> y_inTime att j)"
    using newConn_loop_returns [OF assms(1), of till interval 0] by auto
  then show ?thesis
    using assms(3,4) by (intro exI [of _ r] exI [of _ j]) (auto simp: newConn_def Let_def split: sum.splits)
qed

lemma connecting_again_ends_witness:
  "\<exists>r j. newConn \<lparr>y_outcome = (\<lambda>_. Inl (ServerDisconnectedError [] 0)), y_failed = (\<lambda>i. 500 * i), y_other = (\<lambda>_. False),
     y_inTime = (\<lambda>_. False), y_refused = (\<lambda>_. False)\<rparr> (small_dsn 7 [] NaN) 0 = Some (r, j)"
  using connecting_again_ends [of "\<lparr>y_outcome = (\<lambda>_. Inl (ServerDisconnectedError [] 0)), y_failed = (\<lambda>i. 500 * i),
      y_other = (\<lambda>_. False), y_inTime = (\<lambda>_. False), y_refused = (\<lambda>_. False)\<rparr>" "small_dsn 7 [] NaN" _ 0]
  by (fastforce simp: strict_mono_def small_dsn_def)

text \<open>
  C40: The task for dangling transactions rolls back exactly those of \<open>XA RECOVER\<close> that this library made and whose connection
  the server does not list as alive, each once; and none of their identifiers has a character that could end the literal
  of the query that contains it.
\<close>

theorem dangling_transactions_rolled_back:
  "mset (recover_queries str processes ids) =
     image_mset rollback_query
       (filter_mset (\<lambda>x. x_connectionId x \<notin> set (processes (alive_query str (recovered ids)))) (mset (recovered ids))) \<and>
   list_all (\<lambda>x. x_id x \<in> set ids \<and> list_all plain_char (x_id x)) (recovered ids)"
  using mset_recover_queries [of str processes ids] recovered_plain [of ids] by (auto simp: list_all_iff)

end
